(* ===== verification/Herb_Prelude.thy ===== *)
theory Herb_Prelude
  imports Main "HOL-Library.AList" "HOL-Library.Char_ord" "HOL-Library.List_Lexorder"
    "HOL-Library.Multiset" "HOL-Library.Sublist"
begin

text \<open>
  What every component theory shares: results of fallible Go functions, Go's built-in maps as
  association lists with one entry per key, the contract of such maps as a locale, sorting of
  string keys, and generic lemmas on lists. The collections declared here gather the facts that
  carry the component proofs.
\<close>

named_theorems go_text \<open>rewriting of the Go string library on known shapes\<close>
named_theorems go_maps \<open>lookups after updates of Go maps\<close>
named_theorems rx_eval \<open>evaluation of the regular-expression matcher\<close>

section \<open>Results\<close>

text \<open>
  A Go function that returns a value and an error is a function into a sum: \<open>Inl\<close> carries the
  error, \<open>Inr\<close> the value. The error type is a datatype of the component.
\<close>

type_synonym ('e, 'a) result = "'e + 'a"

fun bind_result :: "('e, 'a) result \<Rightarrow> ('a \<Rightarrow> ('e, 'b) result) \<Rightarrow> ('e, 'b) result" where
  "bind_result (Inl e) f = Inl e"
| "bind_result (Inr a) f = f a"

lemma bind_result_Inr_iff:
  "bind_result r f = Inr b \<longleftrightarrow> (\<exists>a. r = Inr a \<and> f a = Inr b)"
  by (cases r) auto

fun map_result :: "('a \<Rightarrow> ('e, 'b) result) \<Rightarrow> 'a list \<Rightarrow> ('e, 'b list) result" where
  "map_result f [] = Inr []"
| "map_result f (x # xs) =
     bind_result (f x) (\<lambda>y. bind_result (map_result f xs) (\<lambda>ys. Inr (y # ys)))"

lemma map_result_Inr_iff:
  "map_result f xs = Inr ys \<longleftrightarrow> list_all2 (\<lambda>x y. f x = Inr y) xs ys"
  by (induction xs arbitrary: ys) (auto simp: bind_result_Inr_iff list_all2_Cons1)

section \<open>Go maps\<close>

text \<open>
  A Go map is a finite map with an unspecified iteration order. It is an association list with
  one entry per key, the entries in the order the keys were first stored; a loop over a map runs
  over this list, and the properties that must not depend on the order are stated up to it.
\<close>

type_synonym ('k, 'v) gomap = "('k \<times> 'v) list"

definition gget :: "('k, 'v) gomap \<Rightarrow> 'k \<Rightarrow> 'v option" where
  "gget m k = map_of m k"

definition gput :: "'k \<Rightarrow> 'v \<Rightarrow> ('k, 'v) gomap \<Rightarrow> ('k, 'v) gomap" where
  "gput k v m = AList.update k v m"

definition gdel :: "'k \<Rightarrow> ('k, 'v) gomap \<Rightarrow> ('k, 'v) gomap" where
  "gdel k m = filter (\<lambda>(k', v). k' \<noteq> k) m"

definition gkeys :: "('k, 'v) gomap \<Rightarrow> 'k list" where
  "gkeys m = map fst m"

definition gmap_ok :: "('k, 'v) gomap \<Rightarrow> bool" where
  "gmap_ok m \<longleftrightarrow> distinct (gkeys m)"

text \<open>Reading a missing key of a map yields the zero value of its element type.\<close>

definition gget_or :: "'v \<Rightarrow> ('k, 'v) gomap \<Rightarrow> 'k \<Rightarrow> 'v" where
  "gget_or z m k = (case gget m k of None \<Rightarrow> z | Some v \<Rightarrow> v)"

text \<open>
  The contract of a map: what a lookup returns after a store or a deletion, which keys are
  enumerated, and that every operation keeps one entry per key.
\<close>

locale keyed_map =
  fixes empty :: 'm
    and put :: "'k \<Rightarrow> 'v \<Rightarrow> 'm \<Rightarrow> 'm"
    and del :: "'k \<Rightarrow> 'm \<Rightarrow> 'm"
    and get :: "'m \<Rightarrow> 'k \<Rightarrow> 'v option"
    and keys :: "'m \<Rightarrow> 'k list"
    and ok :: "'m \<Rightarrow> bool"
  assumes get_empty: "get empty k = None"
    and get_put: "get (put k v m) k' = (if k' = k then Some v else get m k')"
    and get_del: "get (del k m) k' = (if k' = k then None else get m k')"
    and set_keys: "set (keys m) = {k. get m k \<noteq> None}"
    and ok_empty: "ok empty"
    and ok_put: "ok m \<Longrightarrow> ok (put k v m)"
    and ok_del: "ok m \<Longrightarrow> ok (del k m)"
    and ok_distinct: "ok m \<Longrightarrow> distinct (keys m)"
begin

lemma keys_put: "set (keys (put k v m)) = insert k (set (keys m))"
  by (auto simp: set_keys get_put split: if_splits)

lemma keys_del: "set (keys (del k m)) = set (keys m) - {k}"
  by (auto simp: set_keys get_del split: if_splits)

text \<open>Storing a list of entries one after another: the last entry of a key wins.\<close>

lemma fold_put_get:
  "get (fold (\<lambda>(k, v). put k v) kvs m) k =
     (case map_of (rev kvs) k of Some v \<Rightarrow> Some v | None \<Rightarrow> get m k)"
  by (induction kvs arbitrary: m)
    (auto simp: get_put map_add_def split: option.splits prod.splits)

lemma fold_put_ok: "ok m \<Longrightarrow> ok (fold (\<lambda>(k, v). put k v) kvs m)"
  by (induction kvs arbitrary: m) (auto simp: ok_put)

lemma fold_put_keys:
  "set (keys (fold (\<lambda>(k, v). put k v) kvs m)) = fst ` set kvs \<union> set (keys m)"
  by (induction kvs arbitrary: m) (auto simp: keys_put)

end

lemma gget_Nil [go_maps, simp]: "gget [] k = None"
  by (simp add: gget_def)

lemma gget_gput [go_maps, simp]: "gget (gput k v m) k' = (if k' = k then Some v else gget m k')"
  by (simp add: gget_def gput_def AList.update_conv')

lemma gget_gdel [go_maps, simp]: "gget (gdel k m) k' = (if k' = k then None else gget m k')"
  by (induction m) (auto simp: gget_def gdel_def)

lemma set_gkeys: "set (gkeys m) = {k. gget m k \<noteq> None}"
  by (auto simp: gkeys_def gget_def map_of_eq_None_iff)

lemma gkeys_gput: "set (gkeys (gput k v m)) = insert k (set (gkeys m))"
  by (auto simp: set_gkeys split: if_splits)

lemma gmap_ok_Nil [simp, intro]: "gmap_ok []"
  by (simp add: gmap_ok_def gkeys_def)

lemma gmap_ok_gput [simp, intro]: "gmap_ok m \<Longrightarrow> gmap_ok (gput k v m)"
  by (simp add: gmap_ok_def gkeys_def gput_def AList.distinct_update)

lemma gmap_ok_filter [simp, intro]: "gmap_ok m \<Longrightarrow> gmap_ok (filter P m)"
  unfolding gmap_ok_def gkeys_def by (induction m) auto

lemma gmap_ok_gdel [simp, intro]: "gmap_ok m \<Longrightarrow> gmap_ok (gdel k m)"
  by (simp add: gdel_def)

lemma gget_in_set: "gget m k = Some v \<Longrightarrow> (k, v) \<in> set m"
  by (simp add: gget_def map_of_SomeD)

lemma in_set_gget: "gmap_ok m \<Longrightarrow> (k, v) \<in> set m \<Longrightarrow> gget m k = Some v"
  by (simp add: gget_def gmap_ok_def gkeys_def)

lemma gget_filter_key:
  "gmap_ok m \<Longrightarrow> gget (filter (\<lambda>(k, v). P k v) m) k =
     (case gget m k of None \<Rightarrow> None | Some v \<Rightarrow> if P k v then Some v else None)"
proof (induction m)
  case (Cons a m)
  obtain k' v' where a: "a = (k', v')" by fastforce
  have "k \<notin> set (gkeys m) \<Longrightarrow> gget m k = None"
    by (auto simp: set_gkeys)
  moreover have "gmap_ok m" using Cons.prems by (simp add: gmap_ok_def gkeys_def)
  moreover have "k' \<notin> set (gkeys m)" using Cons.prems a by (simp add: gmap_ok_def gkeys_def)
  ultimately show ?case
    using Cons.IH a by (auto simp: gget_def split: option.splits)
qed simp

interpretation go_map: keyed_map "[]" gput gdel gget gkeys gmap_ok
  by unfold_locales (auto simp: set_gkeys gmap_ok_def [symmetric] simp del: gget_gput
      simp: gget_gput)

section \<open>Sorted keys\<close>

text \<open>
  Loops over maps whose order must be stable collect the keys and sort them as byte strings
  (\<open>sort.Strings\<close>), which is \<^const>\<open>sort\<close> over the lexicographic order of \<^typ>\<open>string\<close>.
\<close>

lemma sort_eq_if_set_eq:
  fixes xs ys :: "'a::linorder list"
  assumes "distinct xs" "distinct ys" "set xs = set ys"
  shows "sort xs = sort ys"
  using assms by (metis distinct_sort set_sort sorted_distinct_set_unique sorted_sort)

lemma sort_key_cong_inj:
  fixes xs ys :: "'a list" and f :: "'a \<Rightarrow> 'b::linorder"
  assumes "mset xs = mset ys" "inj_on f (set xs)"
  shows "sort_key f xs = sort_key f ys"
proof (rule properties_for_sort_key)
  show "mset (sort_key f ys) = mset xs" using assms(1) by simp
  show "sorted (map f (sort_key f ys))" by simp
  fix k assume "k \<in> set (sort_key f ys)"
  then have "k \<in> set xs" using mset_eq_setD [OF assms(1)] by simp
  have eq: "filter (\<lambda>x. f k = f x) zs = filter (\<lambda>x. k = x) zs" if "set zs \<subseteq> set xs" for zs
    using that assms(2) \<open>k \<in> set xs\<close> by (auto intro!: filter_cong simp: inj_on_def)
  have "set (sort_key f ys) = set xs" using mset_eq_setD [OF assms(1)] by simp
  then have "filter (\<lambda>x. f k = f x) (sort_key f ys) = filter (\<lambda>x. k = x) (sort_key f ys)"
    by (intro eq) simp
  also have "\<dots> = filter (\<lambda>x. k = x) xs"
    using assms(1)
    by (metis (no_types) mset_filter mset_sort replicate_length_filter size_mset)
  finally show "filter (\<lambda>x. f k = f x) (sort_key f ys) = filter (\<lambda>x. f k = f x) xs"
    using eq [of xs] by simp
qed

section \<open>Lists\<close>

lemma insort_key_map: "insort_key f (g x) (map g ys) = map g (insort_key (\<lambda>x. f (g x)) x ys)"
  by (induction ys) auto

lemma sort_key_map: "sort_key f (map g xs) = map g (sort_key (\<lambda>x. f (g x)) xs)"
  by (induction xs) (auto simp: insort_key_map)

lemma sort_eq_sorted_list_of_set:
  fixes xs :: "'a::linorder list"
  shows "distinct xs \<Longrightarrow> sort xs = sorted_list_of_set (set xs)"
  by (metis distinct_sort set_sort sorted_list_of_set.idem_if_sorted_distinct sorted_sort)

lemma map_filter_cong: "(\<And>x. x \<in> set xs \<Longrightarrow> f x = g x) \<Longrightarrow> List.map_filter f xs = List.map_filter g xs"
  by (induction xs) (auto simp: List.map_filter_simps split: option.split)

lemma map_filter_append: "List.map_filter f (xs @ ys) = List.map_filter f xs @ List.map_filter f ys"
  by (simp add: List.map_filter_def)

lemma take_eq_prefix: "take (length p) s = p \<longleftrightarrow> (\<exists>t. s = p @ t)"
  by (metis append_eq_conv_conj append_take_drop_id)

lemma fold_invariant_set:
  assumes "P s" "\<And>x s. x \<in> set xs \<Longrightarrow> P s \<Longrightarrow> P (f x s)"
  shows "P (fold f xs s)"
  using assms by (induction xs arbitrary: s) auto

lemma list_all2_eq_map: "list_all2 (\<lambda>x y. y = f x) xs ys \<longleftrightarrow> ys = map f xs"
  by (induction xs arbitrary: ys) (auto simp: list_all2_Cons1)

end
