(* ===== verification/Go_Text.thy ===== *)
theory Go_Text
  imports Herb_Prelude
begin

text \<open>
  The part of Go's \<^verbatim>\<open>strings\<close>, \<^verbatim>\<open>strconv\<close> and \<^verbatim>\<open>bufio\<close> packages that the program uses. A Go
  string is a sequence of bytes, and so is \<^typ>\<open>string\<close>: a \<^typ>\<open>char\<close> is a byte. White space is
  Unicode white space (\<^verbatim>\<open>unicode.IsSpace\<close>), recognised by its UTF-8 encodings; since the first
  byte of such an encoding is never a continuation byte, an occurrence of the encoding is always
  aligned with the decoded runes. \<^verbatim>\<open>-1\<close> results are \<^const>\<open>None\<close>.
\<close>

section \<open>Prefixes, suffixes, search\<close>

definition HasPrefix :: "string \<Rightarrow> string \<Rightarrow> bool" where
  "HasPrefix s p \<longleftrightarrow> take (length p) s = p"

definition HasSuffix :: "string \<Rightarrow> string \<Rightarrow> bool" where
  "HasSuffix s p \<longleftrightarrow> HasPrefix (rev s) (rev p)"

definition TrimPrefix :: "string \<Rightarrow> string \<Rightarrow> string" where
  "TrimPrefix s p = (if HasPrefix s p then drop (length p) s else s)"

definition TrimSuffix :: "string \<Rightarrow> string \<Rightarrow> string" where
  "TrimSuffix s p = (if HasSuffix s p then take (length s - length p) s else s)"

text \<open>\<open>CutSuffix\<close> returns the text before the suffix, or \<^const>\<open>None\<close> when there is none.\<close>

definition CutSuffix :: "string \<Rightarrow> string \<Rightarrow> string option" where
  "CutSuffix s p = (if HasSuffix s p then Some (take (length s - length p) s) else None)"

fun Index :: "string \<Rightarrow> string \<Rightarrow> nat option" where
  "Index [] sub = (if sub = [] then Some 0 else None)"
| "Index (c # s) sub =
     (if HasPrefix (c # s) sub then Some 0 else map_option Suc (Index s sub))"

definition Contains :: "string \<Rightarrow> string \<Rightarrow> bool" where
  "Contains s sub \<longleftrightarrow> Index s sub \<noteq> None"

fun IndexByte :: "string \<Rightarrow> char \<Rightarrow> nat option" where
  "IndexByte [] b = None"
| "IndexByte (c # s) b = (if c = b then Some 0 else map_option Suc (IndexByte s b))"

definition LastIndexByte :: "string \<Rightarrow> char \<Rightarrow> nat option" where
  "LastIndexByte s b = map_option (\<lambda>i. length s - Suc i) (IndexByte (rev s) b)"

text \<open>\<open>ReplaceAll\<close> is used with a non-empty \<open>old\<close> only.\<close>

function (sequential) ReplaceAll :: "string \<Rightarrow> string \<Rightarrow> string \<Rightarrow> string" where
  "ReplaceAll [] old new = []"
| "ReplaceAll (c # s) old new =
     (if old \<noteq> [] \<and> HasPrefix (c # s) old
      then new @ ReplaceAll (drop (length old) (c # s)) old new
      else c # ReplaceAll s old new)"
  by pat_completeness auto
termination
  by (relation "measure (\<lambda>(s, old, new). length s)") (auto simp: neq_Nil_conv)

text \<open>\<open>strings.Split\<close> at a one-byte separator, and \<open>strings.Join\<close>.\<close>

fun split_byte :: "char \<Rightarrow> string \<Rightarrow> string list" where
  "split_byte b [] = [[]]"
| "split_byte b (c # s) =
     (if c = b then [] # split_byte b s
      else (case split_byte b s of [] \<Rightarrow> [[c]] | w # ws \<Rightarrow> (c # w) # ws))"

fun join_with :: "string \<Rightarrow> string list \<Rightarrow> string" where
  "join_with sep [] = []"
| "join_with sep [w] = w"
| "join_with sep (w # ws) = w @ sep @ join_with sep ws"

lemma HasPrefix_iff: "HasPrefix s p \<longleftrightarrow> (\<exists>t. s = p @ t)"
  by (simp add: HasPrefix_def take_eq_prefix)

lemma HasSuffix_iff: "HasSuffix s p \<longleftrightarrow> (\<exists>t. s = t @ p)"
  by (simp add: HasSuffix_def HasPrefix_iff) (metis rev_append rev_rev_ident)

lemma HasPrefix_Nil [simp]: "HasPrefix s []"
  by (simp add: HasPrefix_def)

lemma HasPrefix_Nil_iff [simp]: "HasPrefix [] p \<longleftrightarrow> p = []"
  by (auto simp: HasPrefix_def)

lemma HasPrefix_Cons [simp]: "HasPrefix (c # s) (d # p) \<longleftrightarrow> c = d \<and> HasPrefix s p"
  by (auto simp: HasPrefix_def)

lemma HasPrefix_append [simp]: "HasPrefix (p @ s) p"
  by (simp add: HasPrefix_def)

lemma HasSuffix_append [simp]: "HasSuffix (s @ p) p"
  by (auto simp: HasSuffix_iff)

lemma TrimPrefix_append [simp, go_text]: "TrimPrefix (p @ s) p = s"
  by (simp add: TrimPrefix_def)

lemma TrimSuffix_append [simp, go_text]: "TrimSuffix (s @ p) p = s"
  by (simp add: TrimSuffix_def)

lemma Index_Some_iff:
  "Index s sub = Some i \<longleftrightarrow>
     i \<le> length s \<and> HasPrefix (drop i s) sub \<and> (\<forall>j < i. \<not> HasPrefix (drop j s) sub)"
proof (induction s arbitrary: i)
  case (Cons c s)
  show ?case
  proof (cases i)
    case 0
    then show ?thesis by auto
  next
    case (Suc k)
    have "(\<forall>j < Suc k. \<not> HasPrefix (drop j (c # s)) sub) \<longleftrightarrow>
        \<not> HasPrefix (c # s) sub \<and> (\<forall>j < k. \<not> HasPrefix (drop j s) sub)"
      by (auto simp: less_Suc_eq_0_disj)
    with Suc Cons.IH [of k] show ?thesis by auto
  qed
qed auto

lemma Index_split:
  assumes "Index s sub = Some i"
  shows "s = take i s @ sub @ drop (i + length sub) s"
proof -
  from assms have "HasPrefix (drop i s) sub" by (simp add: Index_Some_iff)
  then obtain t where t: "drop i s = sub @ t" by (auto simp: HasPrefix_iff)
  then have "drop (i + length sub) s = t"
    by (metis add.commute append_eq_conv_conj drop_drop)
  with t show ?thesis by (metis append_take_drop_id)
qed

lemma Index_None_iff: "Index s sub = None \<longleftrightarrow> (\<forall>a b. s \<noteq> a @ sub @ b)"
proof (induction s)
  case (Cons c s)
  have "(\<forall>a b. c # s \<noteq> a @ sub @ b) \<longleftrightarrow>
      \<not> HasPrefix (c # s) sub \<and> (\<forall>a b. s \<noteq> a @ sub @ b)"
    by (auto simp: HasPrefix_iff) (metis append_eq_Cons_conv)+
  with Cons.IH show ?case by auto
qed auto

lemma Contains_iff: "Contains s sub \<longleftrightarrow> (\<exists>a b. s = a @ sub @ b)"
  using Index_None_iff [of s sub] by (auto simp: Contains_def)

lemma IndexByte_None_iff: "IndexByte s b = None \<longleftrightarrow> b \<notin> set s"
  by (induction s) auto

lemma IndexByte_append: "b \<notin> set p \<Longrightarrow> IndexByte (p @ b # s) b = Some (length p)"
  by (induction p) auto

lemma IndexByte_Some_take: "IndexByte s b = Some i \<Longrightarrow> b \<notin> set (take i s) \<and> i < length s \<and> s ! i = b"
  by (induction s arbitrary: i) (auto split: if_splits)

lemma LastIndexByte_append:
  "b \<notin> set t \<Longrightarrow> LastIndexByte (p @ b # t) b = Some (length p)"
  by (simp add: LastIndexByte_def IndexByte_append)

lemma ReplaceAll_absent: "\<not> Contains s old \<Longrightarrow> ReplaceAll s old new = s"
  by (induction s) (auto simp: Contains_def)

lemma split_byte_not_Nil [simp]: "split_byte b s \<noteq> []"
  by (induction s) (auto split: list.splits)

lemma split_byte_word: "b \<notin> set w \<Longrightarrow> split_byte b w = [w]"
  by (induction w) auto

lemma split_byte_append:
  "b \<notin> set w \<Longrightarrow> split_byte b (w @ b # s) = w # split_byte b s"
  by (induction w) auto

lemma join_split_byte: "join_with [b] (split_byte b s) = s"
proof (induction s)
  case (Cons c s)
  then show ?case
    by (cases "split_byte b s"; cases "tl (split_byte b s)") auto
qed simp

lemma split_join_byte:
  "ws \<noteq> [] \<Longrightarrow> \<forall>w \<in> set ws. b \<notin> set w \<Longrightarrow> split_byte b (join_with [b] ws) = ws"
  by (induction "[b]" ws rule: join_with.induct) (auto simp: split_byte_word split_byte_append)

lemma split_byte_no_sep: "w \<in> set (split_byte b s) \<Longrightarrow> b \<notin> set w"
  by (induction s arbitrary: w) (auto split: if_splits list.splits)

section \<open>White space\<close>

text \<open>The UTF-8 encodings of the runes for which \<^verbatim>\<open>unicode.IsSpace\<close> holds.\<close>

definition space_runes :: "string list" where
  "space_runes =
     [[CHR 0x20], [CHR 0x09], [CHR 0x0A], [CHR 0x0B], [CHR 0x0C], [CHR 0x0D],
      [CHR 0xC2, CHR 0x85], [CHR 0xC2, CHR 0xA0], [CHR 0xE1, CHR 0x9A, CHR 0x80],
      [CHR 0xE2, CHR 0x80, CHR 0x80], [CHR 0xE2, CHR 0x80, CHR 0x81],
      [CHR 0xE2, CHR 0x80, CHR 0x82], [CHR 0xE2, CHR 0x80, CHR 0x83],
      [CHR 0xE2, CHR 0x80, CHR 0x84], [CHR 0xE2, CHR 0x80, CHR 0x85],
      [CHR 0xE2, CHR 0x80, CHR 0x86], [CHR 0xE2, CHR 0x80, CHR 0x87],
      [CHR 0xE2, CHR 0x80, CHR 0x88], [CHR 0xE2, CHR 0x80, CHR 0x89],
      [CHR 0xE2, CHR 0x80, CHR 0x8A], [CHR 0xE2, CHR 0x80, CHR 0xA8],
      [CHR 0xE2, CHR 0x80, CHR 0xA9], [CHR 0xE2, CHR 0x80, CHR 0xAF],
      [CHR 0xE2, CHR 0x81, CHR 0x9F], [CHR 0xE3, CHR 0x80, CHR 0x80]]"

text \<open>The encoding of a white-space rune at the front of a text, if there is one.\<close>

definition front_space :: "string list \<Rightarrow> string \<Rightarrow> string option" where
  "front_space rs s = find (\<lambda>w. w \<noteq> [] \<and> HasPrefix s w) rs"

lemma front_space_SomeD:
  "front_space rs s = Some w \<Longrightarrow> w \<in> set rs \<and> w \<noteq> [] \<and> HasPrefix s w"
  by (auto simp: front_space_def find_Some_iff)

lemma front_space_shorter:
  "front_space rs s = Some w \<Longrightarrow> length s - length w < length s"
  by (drule front_space_SomeD) (auto simp: HasPrefix_iff)

function trim_front :: "string list \<Rightarrow> string \<Rightarrow> string" where
  "trim_front rs s =
     (case front_space rs s of None \<Rightarrow> s | Some w \<Rightarrow> trim_front rs (drop (length w) s))"
  by pat_completeness auto
termination
  by (relation "measure (\<lambda>(rs, s). length s)") (auto dest: front_space_shorter)

definition TrimSpace :: "string \<Rightarrow> string" where
  "TrimSpace s = rev (trim_front (map rev space_runes) (rev (trim_front space_runes s)))"

text \<open>\<open>strings.Fields\<close>: the words between runs of white space.\<close>

function fields_from :: "string \<Rightarrow> string \<Rightarrow> string list" where
  "fields_from cur s =
     (case front_space space_runes s of
        Some w \<Rightarrow> (if cur = [] then [] else [rev cur]) @ fields_from [] (drop (length w) s)
      | None \<Rightarrow> (case s of [] \<Rightarrow> (if cur = [] then [] else [rev cur])
               | c # s' \<Rightarrow> fields_from (c # cur) s'))"
  by pat_completeness auto
termination
  by (relation "measure (\<lambda>(cur, s). length s)") (auto dest: front_space_shorter)

definition Fields :: "string \<Rightarrow> string list" where
  "Fields s = fields_from [] s"

declare trim_front.simps [simp del] fields_from.simps [simp del]

text \<open>A byte that neither starts nor ends the encoding of a white-space rune.\<close>

definition solid :: "char \<Rightarrow> bool" where
  "solid c \<longleftrightarrow> 0x20 < (of_char c :: nat) \<and> (of_char c :: nat) < 0x7F"

lemma solid_not_space: "solid c \<Longrightarrow> w \<in> set space_runes \<Longrightarrow> hd w \<noteq> c \<and> last w \<noteq> c"
  by (auto simp: solid_def space_runes_def)

lemma front_space_solid [go_text]: "solid c \<Longrightarrow> front_space space_runes (c # s) = None"
proof (rule ccontr)
  assume c: "solid c" and "front_space space_runes (c # s) \<noteq> None"
  then obtain w where "w \<in> set space_runes" "w \<noteq> []" "HasPrefix (c # s) w"
    by (auto dest: front_space_SomeD)
  have "hd w = c" using \<open>w \<noteq> []\<close> \<open>HasPrefix (c # s) w\<close> by (cases w) auto
  with solid_not_space [OF c \<open>w \<in> set space_runes\<close>] show False by simp
qed

lemma front_space_solid_rev [go_text]:
  "solid c \<Longrightarrow> front_space (map rev space_runes) (c # s) = None"
proof (rule ccontr)
  assume c: "solid c" and "front_space (map rev space_runes) (c # s) \<noteq> None"
  then obtain w where w: "w \<in> set space_runes" "w \<noteq> []" "HasPrefix (c # s) (rev w)"
    by (fastforce dest: front_space_SomeD)
  have "last w = c" using w(2,3) by (cases w rule: rev_cases) auto
  with solid_not_space [OF c w(1)] show False by simp
qed

lemma front_space_Nil [simp]: "front_space rs [] = None"
  by (auto simp: front_space_def find_None_iff)

lemma trim_front_Nil [simp]: "trim_front rs [] = []"
  by (subst trim_front.simps) simp

lemma trim_front_solid [go_text]:
  "solid c \<Longrightarrow> trim_front space_runes (c # s) = c # s"
  by (subst trim_front.simps) (simp add: front_space_solid)

lemma trim_front_solid_rev [go_text]:
  "solid c \<Longrightarrow> trim_front (map rev space_runes) (c # s) = c # s"
  by (subst trim_front.simps) (simp add: front_space_solid_rev)

lemma trim_front_space [go_text]:
  "trim_front space_runes (CHR 0x20 # s) = trim_front space_runes s"
  by (subst trim_front.simps) (simp add: front_space_def space_runes_def)

lemma trim_front_space_rev [go_text]:
  "trim_front (map rev space_runes) (CHR 0x20 # s) = trim_front (map rev space_runes) s"
  by (subst trim_front.simps) (simp add: front_space_def space_runes_def)

lemma trim_front_spaces [go_text]:
  "trim_front space_runes (replicate n (CHR 0x20) @ s) = trim_front space_runes s"
  by (induction n) (simp_all add: trim_front_space)

lemma TrimSpace_Nil [simp]: "TrimSpace [] = []"
  by (simp add: TrimSpace_def)

text \<open>Text that starts and ends with a printable byte is not changed by trimming.\<close>

lemma TrimSpace_solid:
  assumes "s \<noteq> []" "solid (hd s)" "solid (last s)"
  shows "TrimSpace s = s"
proof -
  obtain c s' where s: "s = c # s'" using assms(1) by (cases s) auto
  obtain d t where t: "s = t @ [d]" using assms(1) by (cases s rule: rev_cases) auto
  have "trim_front space_runes s = s" using s assms(2) by (simp add: trim_front_solid)
  moreover have "trim_front (map rev space_runes) (rev s) = rev s"
    using t assms(3) by (simp add: trim_front_solid_rev)
  ultimately show ?thesis by (simp add: TrimSpace_def)
qed

lemma TrimSpace_indent:
  assumes "s \<noteq> []" "solid (hd s)" "solid (last s)"
  shows "TrimSpace (replicate n (CHR 0x20) @ s) = s"
  using TrimSpace_solid [OF assms] by (simp add: TrimSpace_def trim_front_spaces)

lemma trim_front_suffix: "suffix (trim_front rs s) s"
proof (induction rs s rule: trim_front.induct)
  case (1 rs s)
  show ?case
  proof (cases "front_space rs s")
    case None
    then show ?thesis by (subst trim_front.simps) simp
  next
    case (Some w)
    with 1 have "suffix (trim_front rs (drop (length w) s)) (drop (length w) s)" by simp
    then have "suffix (trim_front rs (drop (length w) s)) s"
      using suffix_drop suffix_order.trans by blast
    with Some show ?thesis by (subst trim_front.simps) simp
  qed
qed

lemma trim_front_done: "front_space rs (trim_front rs s) = None"
proof (induction rs s rule: trim_front.induct)
  case (1 rs s)
  then show ?case
    by (cases "front_space rs s") (simp_all add: trim_front.simps [of rs s])
qed

lemma trim_front_idem: "trim_front rs (trim_front rs s) = trim_front rs s"
  by (subst trim_front.simps) (simp add: trim_front_done)

lemma TrimSpace_length: "length (TrimSpace s) \<le> length s"
  by (simp add: TrimSpace_def)
    (metis length_rev order_trans suffix_length_le trim_front_suffix)

lemma fields_from_word:
  "\<forall>c \<in> set w. solid c \<Longrightarrow> fields_from cur (w @ s) = fields_from (rev w @ cur) s"
proof (induction w arbitrary: cur)
  case (Cons c w)
  then have "fields_from cur (c # (w @ s)) = fields_from (c # cur) (w @ s)"
    by (subst fields_from.simps) (simp add: front_space_solid)
  with Cons show ?case by simp
qed simp

lemma fields_from_Nil: "fields_from cur [] = (if cur = [] then [] else [rev cur])"
  by (subst fields_from.simps) simp

lemma fields_from_space:
  "fields_from cur (CHR 0x20 # s) = (if cur = [] then [] else [rev cur]) @ fields_from [] s"
  by (subst fields_from.simps) (simp add: front_space_def space_runes_def)

text \<open>Splitting undoes joining with single spaces, for words of printable bytes.\<close>

lemma Fields_join:
  "\<forall>w \<in> set ws. w \<noteq> [] \<and> (\<forall>c \<in> set w. solid c) \<Longrightarrow> Fields (join_with '' '' ws) = ws"
  unfolding Fields_def
proof (induction "'' ''" ws rule: join_with.induct)
  case (2 w)
  then show ?case using fields_from_word [of w "[]" "[]"] by (simp add: fields_from_Nil)
next
  case (3 w v vs)
  then show ?case
    using fields_from_word [of w "[]" "'' '' @ join_with '' '' (v # vs)"]
    by (simp add: fields_from_space)
qed (simp add: fields_from_Nil)

section \<open>Numbers\<close>

fun digit_val :: "char \<Rightarrow> nat option" where
  "digit_val c =
     (let n = of_char c :: nat in
      if 0x30 \<le> n \<and> n \<le> 0x39 then Some (n - 0x30)
      else if 0x61 \<le> n \<and> n \<le> 0x7A then Some (n - 0x61 + 10)
      else if 0x41 \<le> n \<and> n \<le> 0x5A then Some (n - 0x41 + 10)
      else None)"

datatype num_result = Syntax_err | Range_err | Num_ok nat

text \<open>The loop of \<^verbatim>\<open>strconv.ParseUint\<close> with \<open>bitSize\<close> 64.\<close>

fun parse_digits :: "nat \<Rightarrow> nat \<Rightarrow> string \<Rightarrow> num_result" where
  "parse_digits base n [] = Num_ok n"
| "parse_digits base n (c # s) =
     (case digit_val c of
        None \<Rightarrow> Syntax_err
      | Some d \<Rightarrow>
          if base \<le> d then Syntax_err
          else if 2 ^ 64 \<le> int (n * base + d) then Range_err
          else parse_digits base (n * base + d) s)"

definition parse_uint :: "nat \<Rightarrow> string \<Rightarrow> num_result" where
  "parse_uint base s = (if s = [] then Syntax_err else parse_digits base 0 s)"

text \<open>\<^verbatim>\<open>strconv.ParseUint(s, base, 64)\<close>: the value and whether the error is \<^verbatim>\<open>nil\<close>.\<close>

definition ParseUint :: "nat \<Rightarrow> string \<Rightarrow> nat \<times> bool" where
  "ParseUint base s =
     (case parse_uint base s of
        Syntax_err \<Rightarrow> (0, False) | Range_err \<Rightarrow> (2 ^ 64 - 1, False) | Num_ok n \<Rightarrow> (n, True))"

text \<open>\<^verbatim>\<open>strconv.ParseInt(s, base, 64)\<close>, which is also \<^verbatim>\<open>strconv.Atoi\<close> for base 10.\<close>

definition ParseInt :: "nat \<Rightarrow> string \<Rightarrow> int \<times> bool" where
  "ParseInt base s =
     (let neg = HasPrefix s ''-'';
          ds = (if HasPrefix s ''-'' \<or> HasPrefix s ''+'' then tl s else s)
      in case parse_uint base ds of
           Syntax_err \<Rightarrow> (0, False)
         | Range_err \<Rightarrow> (if neg then (- (2 ^ 63), False) else (2 ^ 63 - 1, False))
         | Num_ok n \<Rightarrow>
             if \<not> neg \<and> 2 ^ 63 \<le> int n then (2 ^ 63 - 1, False)
             else if neg \<and> 2 ^ 63 < int n then (- (2 ^ 63), False)
             else (if neg then - int n else int n, True))"

definition Atoi :: "string \<Rightarrow> int \<times> bool" where
  "Atoi s = ParseInt 10 s"

text \<open>Decimal digits of a natural number, most significant first.\<close>

fun dec :: "nat \<Rightarrow> string" where
  "dec n = (if n < 10 then [char_of (0x30 + n)] else dec (n div 10) @ [char_of (0x30 + n mod 10)])"

declare dec.simps [simp del]

lemma dec_not_Nil [simp]: "dec n \<noteq> []"
  by (subst dec.simps) simp

lemma digit_val_dec: "n < 10 \<Longrightarrow> digit_val (char_of (0x30 + n)) = Some n"
  by (simp add: of_char_of Let_def)

lemma parse_digits_append:
  "parse_digits b n (s @ t) =
     (case parse_digits b n s of Num_ok m \<Rightarrow> parse_digits b m t | r \<Rightarrow> r)"
  by (induction s arbitrary: n) (auto split: option.splits)

lemma parse_digits_dec: "n < 2 ^ 64 \<Longrightarrow> parse_digits 10 0 (dec n) = Num_ok n"
proof (induction n rule: dec.induct)
  case (1 n)
  show ?case
  proof (cases "n < 10")
    case True
    have "digit_val (char_of (0x30 + n)) = Some n" using True by (rule digit_val_dec)
    with True 1 show ?thesis
      by (simp add: dec.simps [of n] del: digit_val.simps)
  next
    case False
    with 1 have IH: "parse_digits 10 0 (dec (n div 10)) = Num_ok (n div 10)" by simp
    have "digit_val (char_of (0x30 + n mod 10)) = Some (n mod 10)"
      by (rule digit_val_dec) simp
    with False IH 1 show ?thesis
      by (simp add: dec.simps [of n] parse_digits_append del: digit_val.simps)
  qed
qed

lemma dec_digits: "c \<in> set (dec n) \<Longrightarrow> 0x30 \<le> (of_char c :: nat) \<and> (of_char c :: nat) \<le> 0x39"
proof (induction n rule: dec.induct)
  case (1 n)
  then show ?case
    by (cases "n < 10")
      (auto simp: dec.simps [of n] of_char_of)
qed

lemma dec_solid: "c \<in> set (dec n) \<Longrightarrow> solid c"
  by (drule dec_digits) (simp add: solid_def)

lemma Atoi_dec:
  assumes "n < 2 ^ 63"
  shows "Atoi (dec n) = (int n, True)"
proof -
  have "hd (dec n) \<in> set (dec n)" by (simp add: hd_in_set)
  then have "0x30 \<le> (of_char (hd (dec n)) :: nat)" by (drule_tac dec_digits) simp
  then have "\<not> HasPrefix (dec n) ''-''" "\<not> HasPrefix (dec n) ''+''"
    using dec_not_Nil [of n] by (cases "dec n"; auto)+
  then show ?thesis
    using assms by (simp add: Atoi_def ParseInt_def parse_uint_def parse_digits_dec Let_def)
qed

section \<open>Scanning lines\<close>

text \<open>
  \<^verbatim>\<open>bufio.Scanner\<close> with \<^verbatim>\<open>ScanLines\<close>: lines end at a newline, one trailing carriage return is
  dropped, and a last line without newline counts when it is not empty. The scan stops with
  \<^verbatim>\<open>ErrTooLong\<close> at the first line that does not fit a full buffer of \<open>lim\<close> bytes together with
  what ends it.
\<close>

definition NL :: char where
  "NL = CHR 0x0A"

function raw_lines :: "string \<Rightarrow> string list" where
  "raw_lines s =
     (if s = [] then []
      else takeWhile (\<lambda>c. c \<noteq> NL) s # raw_lines (drop 1 (dropWhile (\<lambda>c. c \<noteq> NL) s)))"
  by pat_completeness auto
termination
proof (relation "measure length")
  fix s :: string
  assume "s \<noteq> []"
  moreover have "length (dropWhile (\<lambda>c. c \<noteq> NL) s) \<le> length s" by (rule length_dropWhile_le)
  ultimately show "(drop 1 (dropWhile (\<lambda>c. c \<noteq> NL) s), s) \<in> measure length"
    by (cases s) (auto simp: neq_Nil_conv)
qed simp

declare raw_lines.simps [simp del]

definition drop_cr :: "string \<Rightarrow> string" where
  "drop_cr s = (if s \<noteq> [] \<and> last s = CHR 0x0D then butlast s else s)"

definition scan_lines :: "int \<Rightarrow> string \<Rightarrow> string list \<times> bool" where
  "scan_lines lim s =
     (let ls = raw_lines s; good = takeWhile (\<lambda>l. int (length l) < lim) ls
      in (map drop_cr good, length good < length ls))"

lemma raw_lines_Nil [simp]: "raw_lines [] = []"
  by (subst raw_lines.simps) simp

lemma raw_lines_append: "NL \<notin> set l \<Longrightarrow> raw_lines (l @ NL # s) = l # raw_lines s"
proof -
  assume "NL \<notin> set l"
  then have "takeWhile (\<lambda>c. c \<noteq> NL) (l @ NL # s) = l"
    and "dropWhile (\<lambda>c. c \<noteq> NL) (l @ NL # s) = NL # s"
    by (induction l) auto
  then show ?thesis by (subst raw_lines.simps) simp
qed

text \<open>A text of newline-terminated lines.\<close>

definition unlines :: "string list \<Rightarrow> string" where
  "unlines ls = concat (map (\<lambda>l. l @ [NL]) ls)"

lemma unlines_simps [simp]: "unlines [] = []" "unlines (l # ls) = l @ NL # unlines ls"
  by (simp_all add: unlines_def)

lemma raw_lines_unlines: "\<forall>l \<in> set ls. NL \<notin> set l \<Longrightarrow> raw_lines (unlines ls) = ls"
  by (induction ls) (auto simp: raw_lines_append)

definition plain_line :: "int \<Rightarrow> string \<Rightarrow> bool" where
  "plain_line lim l \<longleftrightarrow> NL \<notin> set l \<and> CHR 0x0D \<notin> set l \<and> int (length l) < lim"

lemma drop_cr_plain: "CHR 0x0D \<notin> set l \<Longrightarrow> drop_cr l = l"
  by (auto simp: drop_cr_def dest: last_in_set)

lemma scan_lines_unlines:
  assumes "\<forall>l \<in> set ls. plain_line lim l"
  shows "scan_lines lim (unlines ls) = (ls, False)"
proof -
  have "raw_lines (unlines ls) = ls" using assms by (intro raw_lines_unlines) (simp add: plain_line_def)
  moreover have "takeWhile (\<lambda>l. int (length l) < lim) ls = ls"
    using assms by (simp add: takeWhile_eq_all_conv plain_line_def)
  moreover have "map drop_cr ls = ls"
    using assms by (simp add: map_idI drop_cr_plain plain_line_def)
  ultimately show ?thesis by (simp add: scan_lines_def Let_def del: takeWhile_eq_all_conv)
qed

end
