(* ===== verification/Go_Regex.thy ===== *)
theory Go_Regex
  imports Go_Text
begin

text \<open>
  Go's \<^verbatim>\<open>regexp\<close> package for the syntax the program uses. A regular expression is a syntax tree;
  \<open>rx_match\<close> lists the ways it matches at a position in the order in which a backtracking matcher
  would try them, so that the head of the list is the leftmost-first match that Go reports.
  \<open>rx_rel\<close> is the declarative meaning, and the two are proved to agree. The program's patterns
  name ASCII classes only and their repeated bodies never match the empty text, so matching bytes
  and matching runes give the same result.
\<close>

section \<open>Syntax and matcher\<close>

datatype rx =
    RSet "char \<Rightarrow> bool"
  | REps
  | RSeq rx rx
  | RAlt rx rx
  | RStar rx
  | RLazy rx
  | RCap nat rx
  | RBegin
  | REnd
  | RWordB

text \<open>
  A matcher state: the text to the left of the position, reversed; the text to the right; the
  groups captured so far, the latest first.
\<close>

type_synonym rx_state = "string \<times> string \<times> (nat \<times> string) list"

fun is_word :: "char \<Rightarrow> bool" where
  "is_word c =
     (let n = of_char c :: nat in
      (0x30 \<le> n \<and> n \<le> 0x39) \<or> (0x41 \<le> n \<and> n \<le> 0x5A) \<or> (0x61 \<le> n \<and> n \<le> 0x7A) \<or> n = 0x5F)"

fun is_digit :: "char \<Rightarrow> bool" where
  "is_digit c = (let n = of_char c :: nat in 0x30 \<le> n \<and> n \<le> 0x39)"

fun is_alpha :: "char \<Rightarrow> bool" where
  "is_alpha c = (is_word c \<and> \<not> is_digit c)"

fun is_hex :: "char \<Rightarrow> bool" where
  "is_hex c =
     (let n = of_char c :: nat in
      (0x30 \<le> n \<and> n \<le> 0x39) \<or> (0x41 \<le> n \<and> n \<le> 0x46) \<or> (0x61 \<le> n \<and> n \<le> 0x66))"

text \<open>\<^verbatim>\<open>\s\<close> is \<^verbatim>\<open>[\t\n\f\r ]\<close>.\<close>

fun is_blank :: "char \<Rightarrow> bool" where
  "is_blank c = (c = CHR 0x20 \<or> c = CHR 0x09 \<or> c = CHR 0x0A \<or> c = CHR 0x0C \<or> c = CHR 0x0D)"

text \<open>\<^verbatim>\<open>.\<close> is any byte but the newline.\<close>

fun is_dot :: "char \<Rightarrow> bool" where
  "is_dot c = (c \<noteq> NL)"

definition at_word :: "string \<Rightarrow> bool" where
  "at_word s = (case s of [] \<Rightarrow> False | c # _ \<Rightarrow> is_word c)"

function (sequential) rx_match :: "rx \<Rightarrow> rx_state \<Rightarrow> rx_state list" where
  "rx_match REps st = [st]"
| "rx_match (RSet p) (l, [], g) = []"
| "rx_match (RSet p) (l, c # s, g) = (if p c then [(c # l, s, g)] else [])"
| "rx_match (RSeq a b) st = concat (map (rx_match b) (rx_match a st))"
| "rx_match (RAlt a b) st = rx_match a st @ rx_match b st"
| "rx_match (RStar a) st =
     concat (map (\<lambda>st'. if length (fst (snd st')) < length (fst (snd st))
                        then rx_match (RStar a) st' else []) (rx_match a st)) @ [st]"
| "rx_match (RLazy a) st =
     st # concat (map (\<lambda>st'. if length (fst (snd st')) < length (fst (snd st))
                             then rx_match (RLazy a) st' else []) (rx_match a st))"
| "rx_match (RCap n a) (l, s, g) =
     map (\<lambda>(l', s', g'). (l', s', (n, take (length s - length s') s) # g')) (rx_match a (l, s, g))"
| "rx_match RBegin (l, s, g) = (if l = [] then [(l, s, g)] else [])"
| "rx_match REnd (l, s, g) = (if s = [] then [(l, s, g)] else [])"
| "rx_match RWordB (l, s, g) = (if at_word l \<noteq> at_word s then [(l, s, g)] else [])"
  by pat_completeness auto
termination
  by (relation "measures [\<lambda>(r, st). size r, \<lambda>(r, st). length (fst (snd st))]") auto

declare rx_match.simps(6,7) [simp del]

text \<open>Derived forms: one or more, optional, a literal text, alternatives of literals.\<close>

definition RPlus :: "rx \<Rightarrow> rx" where
  "RPlus a = RSeq a (RStar a)"

definition ROpt :: "rx \<Rightarrow> rx" where
  "ROpt a = RAlt a REps"

fun RLit :: "string \<Rightarrow> rx" where
  "RLit [] = REps"
| "RLit (c # s) = RSeq (RSet (\<lambda>d. d = c)) (RLit s)"

fun RAlts :: "rx list \<Rightarrow> rx" where
  "RAlts [] = RSet (\<lambda>_. False)"
| "RAlts [r] = r"
| "RAlts (r # rs) = RAlt r (RAlts rs)"

fun RSeqs :: "rx list \<Rightarrow> rx" where
  "RSeqs [] = REps"
| "RSeqs [r] = r"
| "RSeqs (r # rs) = RSeq r (RSeqs rs)"

section \<open>What a match consumes\<close>

abbreviation st_rest :: "rx_state \<Rightarrow> string" where
  "st_rest st \<equiv> fst (snd st)"

lemma rx_star_cases:
  assumes "st' \<in> set (rx_match (RStar a) st)" "st' \<noteq> st"
  obtains st1 where "st1 \<in> set (rx_match a st)" "st' \<in> set (rx_match (RStar a) st1)"
    "length (st_rest st1) < length (st_rest st)"
  using assms by (subst (asm) rx_match.simps) (auto split: if_splits)

lemma rx_lazy_cases:
  assumes "st' \<in> set (rx_match (RLazy a) st)" "st' \<noteq> st"
  obtains st1 where "st1 \<in> set (rx_match a st)" "st' \<in> set (rx_match (RLazy a) st1)"
    "length (st_rest st1) < length (st_rest st)"
  using assms by (subst (asm) rx_match.simps) (auto split: if_splits)

lemma rx_match_consumes:
  "st' \<in> set (rx_match r st) \<Longrightarrow> \<exists>w. st_rest st = w @ st_rest st' \<and> fst st' = rev w @ fst st"
proof (induction r st arbitrary: st' rule: rx_match.induct)
  case (4 a b st)
  then obtain st1 where st1: "st1 \<in> set (rx_match a st)" "st' \<in> set (rx_match b st1)" by auto
  from 4(1) [OF st1(1)] 4(2) [OF st1(1) st1(2)] show ?case by fastforce
next
  case (6 a st)
  show ?case
  proof (cases "st' = st")
    case False
    with 6(3) obtain st1 where st1: "st1 \<in> set (rx_match a st)" "st' \<in> set (rx_match (RStar a) st1)"
        "length (st_rest st1) < length (st_rest st)"
      by (rule rx_star_cases)
    from 6(1) [OF st1(1)] 6(2) [OF st1(1,3,2)] show ?thesis by fastforce
  qed simp
next
  case (7 a st)
  show ?case
  proof (cases "st' = st")
    case False
    with 7(3) obtain st1 where st1: "st1 \<in> set (rx_match a st)" "st' \<in> set (rx_match (RLazy a) st1)"
        "length (st_rest st1) < length (st_rest st)"
      by (rule rx_lazy_cases)
    from 7(1) [OF st1(1)] 7(2) [OF st1(1,3,2)] show ?thesis by fastforce
  qed simp
qed (fastforce split: if_splits)+

lemma rx_match_consumesE:
  assumes "(l', s', g') \<in> set (rx_match r (l, s, g))"
  obtains w where "s = w @ s'" "l' = rev w @ l"
  using rx_match_consumes [OF assms] by auto

section \<open>Searching\<close>

text \<open>A match: the text before it, the matched text, the text after it and its groups.\<close>

record rx_found =
  rf_before :: string
  rf_text :: string
  rf_after :: string
  rf_groups :: "(nat \<times> string) list"

definition rx_at :: "rx \<Rightarrow> string \<Rightarrow> string \<Rightarrow> rx_found option" where
  "rx_at r l s =
     (case rx_match r (l, s, []) of
        [] \<Rightarrow> None
      | (l', s', g) # _ \<Rightarrow>
          Some \<lparr>rf_before = rev l, rf_text = take (length s - length s') s, rf_after = s', rf_groups = g\<rparr>)"

fun rx_search :: "rx \<Rightarrow> string \<Rightarrow> string \<Rightarrow> rx_found option" where
  "rx_search r l [] = rx_at r l []"
| "rx_search r l (c # s) =
     (case rx_at r l (c # s) of Some m \<Rightarrow> Some m | None \<Rightarrow> rx_search r (c # l) s)"

text \<open>\<^verbatim>\<open>FindStringSubmatch\<close> and \<^verbatim>\<open>MatchString\<close>; a group that took no part is the empty text.\<close>

definition rx_find :: "rx \<Rightarrow> string \<Rightarrow> rx_found option" where
  "rx_find r s = rx_search r [] s"

definition rx_test :: "rx \<Rightarrow> string \<Rightarrow> bool" where
  "rx_test r s \<longleftrightarrow> rx_find r s \<noteq> None"

definition rx_group :: "rx_found \<Rightarrow> nat \<Rightarrow> string" where
  "rx_group m n = (case map_of (rf_groups m) n of None \<Rightarrow> [] | Some t \<Rightarrow> t)"

lemma rx_at_parts:
  assumes "rx_at r l s = Some m"
  shows "rf_before m = rev l \<and> s = rf_text m @ rf_after m"
proof -
  from assms obtain l' s' g ms where m: "rx_match r (l, s, []) = (l', s', g) # ms"
    and eq: "m = \<lparr>rf_before = rev l, rf_text = take (length s - length s') s, rf_after = s', rf_groups = g\<rparr>"
    by (auto simp: rx_at_def split: list.splits)
  then have "(l', s', g) \<in> set (rx_match r (l, s, []))" by simp
  then obtain w where "s = w @ s'" by (rule rx_match_consumesE)
  with eq show ?thesis by simp
qed

lemma rx_search_parts:
  "rx_search r l s = Some m \<Longrightarrow>
     rev l @ s = rf_before m @ rf_text m @ rf_after m \<and> length (rev l) \<le> length (rf_before m)"
proof (induction s arbitrary: l)
  case Nil
  then show ?case using rx_at_parts [of r l "[]" m] by auto
next
  case (Cons c s)
  show ?case
  proof (cases "rx_at r l (c # s)")
    case None
    with Cons.prems Cons.IH [of "c # l"] show ?thesis by auto
  next
    case (Some m')
    with Cons.prems rx_at_parts [of r l "c # s" m'] show ?thesis by auto
  qed
qed

lemma rx_find_parts: "rx_find r s = Some m \<Longrightarrow> s = rf_before m @ rf_text m @ rf_after m"
  using rx_search_parts [of r "[]" s m] by (simp add: rx_find_def)

lemma rx_search_shorter:
  assumes "rx_search r l s = Some m"
  shows "length (rf_text m) + length (rf_after m) \<le> length s"
proof -
  from rx_search_parts [OF assms]
  have "length (rev l @ s) = length (rf_before m @ rf_text m @ rf_after m)"
    and "length l \<le> length (rf_before m)" by simp_all
  then show ?thesis by simp
qed

text \<open>
  \<^verbatim>\<open>FindAllStringSubmatch\<close>: successive matches, each search starting where the last match ended.
  The program uses it with patterns that never match the empty text; after an empty match the
  search would move on by one byte.
\<close>

function rx_all_from :: "rx \<Rightarrow> string \<Rightarrow> string \<Rightarrow> rx_found list" where
  "rx_all_from r l s =
     (case rx_search r l s of
        None \<Rightarrow> []
      | Some m \<Rightarrow>
          m # (if rf_text m = []
               then (case rf_after m of
                       [] \<Rightarrow> []
                     | c # s' \<Rightarrow> rx_all_from r (c # rev (rf_before m)) s')
               else rx_all_from r (rev (rf_text m) @ rev (rf_before m)) (rf_after m)))"
  by pat_completeness auto
termination
proof (relation "measure (\<lambda>(r, l, s). length s)", goal_cases)
  case (2 r l s m c s')
  then show ?case using rx_search_shorter [of r l s m] by simp
next
  case (3 r l s m)
  then show ?case using rx_search_shorter [of r l s m] by (cases "rf_text m") auto
qed simp

declare rx_all_from.simps [simp del]

definition rx_find_all :: "rx \<Rightarrow> string \<Rightarrow> rx_found list" where
  "rx_find_all r s = rx_all_from r [] s"

section \<open>Declarative meaning\<close>

text \<open>
  \<open>rx_rel r l w s\<close>: with the reversed text \<open>l\<close> on the left and the text \<open>s\<close> on the right, the
  expression matches \<open>w\<close>.
\<close>

inductive rx_rel :: "rx \<Rightarrow> string \<Rightarrow> string \<Rightarrow> string \<Rightarrow> bool" where
  rel_eps: "rx_rel REps l [] s"
| rel_set: "p c \<Longrightarrow> rx_rel (RSet p) l [c] s"
| rel_seq: "rx_rel a l u (v @ s) \<Longrightarrow> rx_rel b (rev u @ l) v s \<Longrightarrow> rx_rel (RSeq a b) l (u @ v) s"
| rel_alt1: "rx_rel a l u s \<Longrightarrow> rx_rel (RAlt a b) l u s"
| rel_alt2: "rx_rel b l u s \<Longrightarrow> rx_rel (RAlt a b) l u s"
| rel_star0: "rx_rel (RStar a) l [] s"
| rel_star1: "rx_rel a l u (v @ s) \<Longrightarrow> u \<noteq> [] \<Longrightarrow> rx_rel (RStar a) (rev u @ l) v s \<Longrightarrow>
    rx_rel (RStar a) l (u @ v) s"
| rel_lazy0: "rx_rel (RLazy a) l [] s"
| rel_lazy1: "rx_rel a l u (v @ s) \<Longrightarrow> u \<noteq> [] \<Longrightarrow> rx_rel (RLazy a) (rev u @ l) v s \<Longrightarrow>
    rx_rel (RLazy a) l (u @ v) s"
| rel_cap: "rx_rel a l u s \<Longrightarrow> rx_rel (RCap n a) l u s"
| rel_begin: "rx_rel RBegin [] [] s"
| rel_end: "rx_rel REnd l [] []"
| rel_wordb: "at_word l \<noteq> at_word s \<Longrightarrow> rx_rel RWordB l [] s"

inductive_simps rx_rel_simps [simp]:
  "rx_rel REps l w s" "rx_rel (RSet p) l w s" "rx_rel (RSeq a b) l w s" "rx_rel (RAlt a b) l w s"
  "rx_rel (RCap n a) l w s" "rx_rel RBegin l w s" "rx_rel REnd l w s" "rx_rel RWordB l w s"

lemma rx_at_in_match:
  "rx_at r l s = Some m \<Longrightarrow> \<exists>l'. (l', rf_after m, rf_groups m) \<in> set (rx_match r (l, s, []))"
  by (auto simp: rx_at_def split: list.splits)

lemma match_seqD: "st \<in> set (rx_match (RSeq a b) st0) \<Longrightarrow> \<exists>st1 \<in> set (rx_match a st0). st \<in> set (rx_match b st1)"
  by auto

lemma match_capD:
  "st \<in> set (rx_match (RCap n a) (l, s, g)) \<Longrightarrow>
     \<exists>l' s' g'. (l', s', g') \<in> set (rx_match a (l, s, g)) \<and> st = (l', s', (n, take (length s - length s') s) # g')"
  by auto

lemma rel_seqD:
  "rx_rel (RSeq a b) l w s \<Longrightarrow> \<exists>u v. w = u @ v \<and> rx_rel a l u (v @ s) \<and> rx_rel b (rev u @ l) v s"
  by simp

lemma rel_cap_iff: "rx_rel (RCap n a) l w s \<longleftrightarrow> rx_rel a l w s"
  by simp

lemma rx_match_sound:
  "(l', s', g') \<in> set (rx_match r (l, s, g)) \<Longrightarrow> s = w @ s' \<Longrightarrow> rx_rel r l w s'"
proof (induction r "(l, s, g)" arbitrary: l s g l' s' g' w rule: rx_match.induct)
  case (3 p l c s g)
  from 3(1) have "p c" "s' = s" by (simp_all split: if_splits)
  with 3(2) show ?case by auto
next
  case (4 a b l s g)
  then obtain l1 s1 g1 where m1: "(l1, s1, g1) \<in> set (rx_match a (l, s, g))"
    and m2: "(l', s', g') \<in> set (rx_match b (l1, s1, g1))" by auto
  obtain u where u: "s = u @ s1" "l1 = rev u @ l" using m1 by (rule rx_match_consumesE)
  obtain v where v: "s1 = v @ s'" "l' = rev v @ l1" using m2 by (rule rx_match_consumesE)
  have "rx_rel a l u s1" using 4(1) [OF m1 u(1)] .
  moreover have "rx_rel b l1 v s'" using 4(2) [OF m1 m2 v(1)] .
  ultimately show ?case using u v 4(4) by (auto simp: rel_seq)
next
  case (6 a l s g)
  show ?case
  proof (cases "(l', s', g') = (l, s, g)")
    case True
    with 6 show ?thesis by (auto intro: rel_star0)
  next
    case False
    with 6(3) obtain st1 where st1: "st1 \<in> set (rx_match a (l, s, g))"
        "(l', s', g') \<in> set (rx_match (RStar a) st1)" "length (st_rest st1) < length s"
      by (rule rx_star_cases) auto
    obtain l1 s1 g1 where eq: "st1 = (l1, s1, g1)" by (metis prod_cases3)
    note m1 = st1(1) [unfolded eq] and m2 = st1(2) [unfolded eq]
    have less: "length s1 < length s" using st1(3) eq by simp
    obtain u where u: "s = u @ s1" "l1 = rev u @ l" using m1 by (rule rx_match_consumesE)
    obtain v where v: "s1 = v @ s'" "l' = rev v @ l1" using m2 by (rule rx_match_consumesE)
    have "rx_rel a l u s1" using 6(1) [OF m1 u(1)] .
    moreover have "rx_rel (RStar a) l1 v s'"
      using 6(2) [OF m1 _ m2 v(1)] less by simp
    ultimately show ?thesis using u v 6(4) less by (auto intro: rel_star1)
  qed
next
  case (7 a l s g)
  show ?case
  proof (cases "(l', s', g') = (l, s, g)")
    case True
    with 7 show ?thesis by (auto intro: rel_lazy0)
  next
    case False
    with 7(3) obtain st1 where st1: "st1 \<in> set (rx_match a (l, s, g))"
        "(l', s', g') \<in> set (rx_match (RLazy a) st1)" "length (st_rest st1) < length s"
      by (rule rx_lazy_cases) auto
    obtain l1 s1 g1 where eq: "st1 = (l1, s1, g1)" by (metis prod_cases3)
    note m1 = st1(1) [unfolded eq] and m2 = st1(2) [unfolded eq]
    have less: "length s1 < length s" using st1(3) eq by simp
    obtain u where u: "s = u @ s1" "l1 = rev u @ l" using m1 by (rule rx_match_consumesE)
    obtain v where v: "s1 = v @ s'" "l' = rev v @ l1" using m2 by (rule rx_match_consumesE)
    have "rx_rel a l u s1" using 7(1) [OF m1 u(1)] .
    moreover have "rx_rel (RLazy a) l1 v s'"
      using 7(2) [OF m1 _ m2 v(1)] less by simp
    ultimately show ?thesis using u v 7(4) less by (auto intro: rel_lazy1)
  qed
qed (auto split: if_splits intro: rx_rel.intros)

lemma rx_match_complete:
  "rx_rel r l w s \<Longrightarrow> \<exists>g'. (rev w @ l, s, g') \<in> set (rx_match r (l, w @ s, g))"
proof (induction arbitrary: g rule: rx_rel.induct)
  case (rel_seq a l u v s b)
  from rel_seq.IH(1) [of g] obtain g1 where
    "(rev u @ l, v @ s, g1) \<in> set (rx_match a (l, u @ v @ s, g))" by auto
  moreover from rel_seq.IH(2) [of g1] obtain g2 where
    "(rev v @ rev u @ l, s, g2) \<in> set (rx_match b (rev u @ l, v @ s, g1))" by auto
  ultimately show ?case by fastforce
next
  case (rel_star1 a l u v s)
  from rel_star1.IH(1) [of g] obtain g1 where
    "(rev u @ l, v @ s, g1) \<in> set (rx_match a (l, u @ v @ s, g))" by auto
  moreover from rel_star1.IH(2) [of g1] obtain g2 where
    "(rev v @ rev u @ l, s, g2) \<in> set (rx_match (RStar a) (rev u @ l, v @ s, g1))" by auto
  moreover have "length (v @ s) < length (u @ v @ s)" using rel_star1.hyps(2) by simp
  ultimately show ?case
    by (subst rx_match.simps) (fastforce intro!: exI [of _ g2])
next
  case (rel_lazy1 a l u v s)
  from rel_lazy1.IH(1) [of g] obtain g1 where
    "(rev u @ l, v @ s, g1) \<in> set (rx_match a (l, u @ v @ s, g))" by auto
  moreover from rel_lazy1.IH(2) [of g1] obtain g2 where
    "(rev v @ rev u @ l, s, g2) \<in> set (rx_match (RLazy a) (rev u @ l, v @ s, g1))" by auto
  moreover have "length (v @ s) < length (u @ v @ s)" using rel_lazy1.hyps(2) by simp
  ultimately show ?case
    by (subst rx_match.simps) (fastforce intro!: exI [of _ g2])
next
  case (rel_cap a l u s n)
  then obtain g' where "(rev u @ l, s, g') \<in> set (rx_match a (l, u @ s, g))" by blast
  then show ?case by force
next
  case (rel_star0 a l s)
  show ?case by (intro exI [of _ g], subst rx_match.simps) simp
next
  case (rel_lazy0 a l s)
  show ?case by (intro exI [of _ g], subst rx_match.simps) simp
qed auto

text \<open>The matcher finds exactly the declared matches at a position.\<close>

lemma rx_at_None_iff: "rx_at r l s = None \<longleftrightarrow> (\<forall>w t. s = w @ t \<longrightarrow> \<not> rx_rel r l w t)"
proof
  assume "rx_at r l s = None"
  then have "rx_match r (l, s, []) = []" by (auto simp: rx_at_def split: list.splits prod.splits)
  then show "\<forall>w t. s = w @ t \<longrightarrow> \<not> rx_rel r l w t"
    using rx_match_complete [of r l _ _ "[]"] by fastforce
next
  assume no: "\<forall>w t. s = w @ t \<longrightarrow> \<not> rx_rel r l w t"
  have "rx_match r (l, s, []) = []"
  proof (rule ccontr)
    assume "rx_match r (l, s, []) \<noteq> []"
    then obtain l' s' g' where m: "(l', s', g') \<in> set (rx_match r (l, s, []))"
      by (cases "rx_match r (l, s, [])") auto
    then obtain w where "s = w @ s'" by (rule rx_match_consumesE)
    with rx_match_sound [OF m] no show False by blast
  qed
  then show "rx_at r l s = None" by (simp add: rx_at_def)
qed

lemma rx_at_rel: "rx_at r l s = Some m \<Longrightarrow> rx_rel r l (rf_text m) (rf_after m)"
proof -
  assume m: "rx_at r l s = Some m"
  then obtain l' g where "(l', rf_after m, g) \<in> set (rx_match r (l, s, []))"
    by (fastforce simp: rx_at_def split: list.splits)
  then show ?thesis using rx_at_parts [OF m] by (auto intro: rx_match_sound)
qed

lemma rx_search_None_iff:
  "rx_search r l s = None \<longleftrightarrow> (\<forall>u w t. s = u @ w @ t \<longrightarrow> \<not> rx_rel r (rev u @ l) w t)"
proof (induction s arbitrary: l)
  case Nil
  then show ?case by (auto simp: rx_at_None_iff)
next
  case (Cons c s)
  have "(\<forall>u w t. c # s = u @ w @ t \<longrightarrow> \<not> rx_rel r (rev u @ l) w t) \<longleftrightarrow>
      (\<forall>w t. c # s = w @ t \<longrightarrow> \<not> rx_rel r l w t) \<and>
      (\<forall>u w t. s = u @ w @ t \<longrightarrow> \<not> rx_rel r (rev u @ c # l) w t)" (is "?L \<longleftrightarrow> ?A \<and> ?B")
  proof
    assume L: ?L
    have ?A using L [rule_format, of "[]"] by simp
    moreover have ?B using L [rule_format, of "c # _"] by simp
    ultimately show "?A \<and> ?B" ..
  next
    assume "?A \<and> ?B"
    then show ?L by (auto simp: Cons_eq_append_conv)
  qed
  then show ?case
    using rx_at_None_iff [of r l "c # s"] Cons.IH [of "c # l"]
    by (cases "rx_at r l (c # s)") auto
qed

text \<open>A pattern matches a text iff it has a declared match somewhere in it.\<close>

lemma rx_test_iff: "rx_test r s \<longleftrightarrow> (\<exists>u w t. s = u @ w @ t \<and> rx_rel r (rev u) w t)"
  unfolding rx_test_def rx_find_def using rx_search_None_iff [of r "[]" s] by auto

lemma rx_search_rel:
  "rx_search r l s = Some m \<Longrightarrow> rx_rel r (rev (rf_before m)) (rf_text m) (rf_after m)"
proof (induction s arbitrary: l)
  case Nil
  then show ?case using rx_at_rel [of r l "[]" m] rx_at_parts [of r l "[]" m] by auto
next
  case (Cons c s)
  then show ?case
    using rx_at_rel [of r l "c # s"] rx_at_parts [of r l "c # s"]
    by (auto split: option.splits)
qed

lemma rx_find_rel:
  "rx_find r s = Some m \<Longrightarrow> rx_rel r (rev (rf_before m)) (rf_text m) (rf_after m)"
  unfolding rx_find_def by (rule rx_search_rel)

section \<open>Captured groups\<close>

text \<open>A match only adds groups of its own expression to those captured before.\<close>

fun rx_caps :: "rx \<Rightarrow> nat set" where
  "rx_caps (RSeq a b) = rx_caps a \<union> rx_caps b"
| "rx_caps (RAlt a b) = rx_caps a \<union> rx_caps b"
| "rx_caps (RStar a) = rx_caps a"
| "rx_caps (RLazy a) = rx_caps a"
| "rx_caps (RCap n a) = insert n (rx_caps a)"
| "rx_caps _ = {}"

lemma rx_match_groups:
  "st' \<in> set (rx_match r st) \<Longrightarrow> \<exists>e. snd (snd st') = e @ snd (snd st) \<and> fst ` set e \<subseteq> rx_caps r"
proof (induction r st arbitrary: st' rule: rx_match.induct)
  case (4 a b st)
  then obtain st1 where st1: "st1 \<in> set (rx_match a st)" "st' \<in> set (rx_match b st1)" by auto
  from 4(1) [OF st1(1)] obtain e where e: "snd (snd st1) = e @ snd (snd st)" "fst ` set e \<subseteq> rx_caps a"
    by blast
  from 4(2) [OF st1] obtain e' where "snd (snd st') = e' @ snd (snd st1)" "fst ` set e' \<subseteq> rx_caps b"
    by blast
  with e show ?case by (intro exI [of _ "e' @ e"]) auto
next
  case (6 a st)
  show ?case
  proof (cases "st' = st")
    case False
    with 6(3) obtain st1 where st1: "st1 \<in> set (rx_match a st)" "st' \<in> set (rx_match (RStar a) st1)"
        "length (st_rest st1) < length (st_rest st)"
      by (rule rx_star_cases)
    from 6(1) [OF st1(1)] obtain e where "snd (snd st1) = e @ snd (snd st)" "fst ` set e \<subseteq> rx_caps a"
      by blast
    moreover from 6(2) [OF st1(1,3,2)] obtain e' where
      "snd (snd st') = e' @ snd (snd st1)" "fst ` set e' \<subseteq> rx_caps a" by auto
    ultimately show ?thesis by (intro exI [of _ "e' @ e"]) auto
  qed simp
next
  case (7 a st)
  show ?case
  proof (cases "st' = st")
    case False
    with 7(3) obtain st1 where st1: "st1 \<in> set (rx_match a st)" "st' \<in> set (rx_match (RLazy a) st1)"
        "length (st_rest st1) < length (st_rest st)"
      by (rule rx_lazy_cases)
    from 7(1) [OF st1(1)] obtain e where "snd (snd st1) = e @ snd (snd st)" "fst ` set e \<subseteq> rx_caps a"
      by blast
    moreover from 7(2) [OF st1(1,3,2)] obtain e' where
      "snd (snd st') = e' @ snd (snd st1)" "fst ` set e' \<subseteq> rx_caps a" by auto
    ultimately show ?thesis by (intro exI [of _ "e' @ e"]) auto
  qed simp
next
  case (8 n a l s g)
  then obtain l' s' g' where st1: "(l', s', g') \<in> set (rx_match a (l, s, g))"
    and "st' = (l', s', (n, take (length s - length s') s) # g')" by auto
  moreover from 8(1) [OF st1] obtain e where "g' = e @ g" "fst ` set e \<subseteq> rx_caps a" by auto
  ultimately show ?case
    by (intro exI [of _ "(n, take (length s - length s') s) # e"]) auto
qed (fastforce split: if_splits)+

lemma rx_match_keeps_group:
  assumes "(l', s', g') \<in> set (rx_match r (l, s, g))" "n \<notin> rx_caps r"
  shows "map_of g' n = map_of g n"
proof -
  from rx_match_groups [OF assms(1)] obtain e where "g' = e @ g" "fst ` set e \<subseteq> rx_caps r" by auto
  moreover from this assms(2) have "map_of e n = None" by (auto simp: map_of_eq_None_iff)
  ultimately show ?thesis by (simp add: map_add_def)
qed

section \<open>Known shapes\<close>

text \<open>
  Rewriting of matches on texts of known shape: a run of bytes of one class, followed by text at
  which the class stops and which the rest of the pattern needs. There is then exactly one way to
  match, and backtracking is never needed.
\<close>

lemma match_RLit [rx_eval, simp]:
  "rx_match (RLit w) (l, s, g) =
     (if HasPrefix s w then [(rev w @ l, drop (length w) s, g)] else [])"
proof (induction w arbitrary: l s)
  case (Cons c w)
  then show ?case by (cases s) auto
qed simp

declare RLit.simps [simp del]

lemma RSeqs_Cons [simp]: "rs \<noteq> [] \<Longrightarrow> RSeqs (r # rs) = RSeq r (RSeqs rs)"
  by (cases rs) auto

definition rx_char :: "rx \<Rightarrow> (char \<Rightarrow> bool) \<Rightarrow> bool" where
  "rx_char a p \<longleftrightarrow> (\<forall>l c s g. p c \<longrightarrow> rx_match a (l, c # s, g) = [(c # l, s, g)])"

definition rx_rejects :: "(char \<Rightarrow> bool) \<Rightarrow> rx \<Rightarrow> bool" where
  "rx_rejects p b \<longleftrightarrow> (\<forall>l c s g. p c \<longrightarrow> rx_match b (l, c # s, g) = [])"

lemma rx_char_RSet [simp]: "rx_char (RSet p) p"
  by (simp add: rx_char_def)

lemma rejects_RSet: "\<forall>c. p c \<longrightarrow> \<not> q c \<Longrightarrow> rx_rejects p (RSet q)"
  by (simp add: rx_rejects_def)

lemma rejects_RLit: "w \<noteq> [] \<Longrightarrow> \<not> p (hd w) \<Longrightarrow> rx_rejects p (RLit w)"
  by (cases w) (auto simp: rx_rejects_def)

lemma rejects_RSeq: "rx_rejects p a \<Longrightarrow> rx_rejects p (RSeq a b)"
  by (simp add: rx_rejects_def)

lemma rejects_RCap: "rx_rejects p a \<Longrightarrow> rx_rejects p (RCap n a)"
  by (simp add: rx_rejects_def)

lemma rejects_RPlus: "rx_rejects p a \<Longrightarrow> rx_rejects p (RPlus a)"
  by (simp add: RPlus_def rejects_RSeq)

lemma rejects_REnd: "rx_rejects p REnd"
  by (simp add: rx_rejects_def)

lemma rejects_RAlt: "rx_rejects p a \<Longrightarrow> rx_rejects p b \<Longrightarrow> rx_rejects p (RAlt a b)"
  by (simp add: rx_rejects_def)

lemmas rx_rejects_intros =
  rejects_RSet rejects_RLit rejects_RSeq rejects_RCap rejects_RPlus rejects_REnd rejects_RAlt

lemma star_run:
  assumes "rx_char a p" "\<forall>c \<in> set w. p c" "rx_match a (rev w @ l, s, g) = []"
  shows "\<exists>tail. rx_match (RStar a) (l, w @ s, g) = (rev w @ l, s, g) # tail \<and>
    (\<forall>st \<in> set tail. \<exists>l' c s'. st = (l', c # s', g) \<and> p c)"
  using assms(2,3)
proof (induction w arbitrary: l)
  case Nil
  then show ?case by (subst rx_match.simps) simp
next
  case (Cons c w)
  from Cons.IH [of "c # l"] Cons.prems obtain tail where
    tail: "rx_match (RStar a) (c # l, w @ s, g) = (rev w @ c # l, s, g) # tail"
      "\<forall>st \<in> set tail. \<exists>l' c s'. st = (l', c # s', g) \<and> p c" by auto
  have "rx_match a (l, c # w @ s, g) = [(c # l, w @ s, g)]"
    using assms(1) Cons.prems by (simp add: rx_char_def)
  then have "rx_match (RStar a) (l, c # w @ s, g) =
      (rev w @ c # l, s, g) # tail @ [(l, c # w @ s, g)]"
    using tail(1) by (subst rx_match.simps) simp
  with tail(2) Cons.prems show ?case by fastforce
qed

lemma concat_map_rejects:
  "rx_rejects p b \<Longrightarrow> \<forall>st \<in> set tail. \<exists>l' c s'. st = (l', c # s', h st) \<and> p c \<Longrightarrow>
     concat (map (rx_match b) tail) = []"
  by (auto simp: rx_rejects_def)

lemma seq_star_run:
  assumes "rx_char a p" "\<forall>c \<in> set w. p c" "rx_match a (rev w @ l, s, g) = []" "rx_rejects p b"
  shows "rx_match (RSeq (RStar a) b) (l, w @ s, g) = rx_match b (rev w @ l, s, g)"
proof -
  obtain tail where "rx_match (RStar a) (l, w @ s, g) = (rev w @ l, s, g) # tail"
    "\<forall>st \<in> set tail. \<exists>l' c s'. st = (l', c # s', g) \<and> p c"
    using star_run [OF assms(1-3)] by blast
  moreover have "concat (map (rx_match b) tail) = []" if "\<forall>st \<in> set tail. \<exists>l' c s'. st = (l', c # s', g) \<and> p c"
    using that assms(4) by (intro concat_map_rejects [where h = "\<lambda>_. g"]) auto
  ultimately show ?thesis by simp
qed

text \<open>The same for captured runs, and for one or more bytes of a class.\<close>

lemma cap_assoc:
  "rx_match (RSeq (RCap n a) b) (l, s, g) =
     concat (map (\<lambda>(l', s', g'). rx_match b (l', s', (n, take (length s - length s') s) # g'))
       (rx_match a (l, s, g)))"
  by (simp add: map_concat comp_def case_prod_unfold)

lemma seq_cap_star_run:
  assumes "rx_char a p" "\<forall>c \<in> set w. p c" "rx_match a (rev w @ l, s, g) = []" "rx_rejects p b"
  shows "rx_match (RSeq (RCap n (RStar a)) b) (l, w @ s, g) = rx_match b (rev w @ l, s, (n, w) # g)"
proof -
  obtain tail where t: "rx_match (RStar a) (l, w @ s, g) = (rev w @ l, s, g) # tail"
    "\<forall>st \<in> set tail. \<exists>l' c s'. st = (l', c # s', g) \<and> p c"
    using star_run [OF assms(1-3)] by blast
  have "concat (map (\<lambda>(l', s', g'). rx_match b (l', s', (n, take (length (w @ s) - length s') (w @ s)) # g')) tail) = []"
    using t(2) assms(4) by (fastforce simp: rx_rejects_def)
  with t(1) show ?thesis by (simp only: cap_assoc) simp
qed

text \<open>An identifier-like run: a first byte of one class, then a run of another.\<close>

lemma concat_map_concat: "concat (map f (concat (map h xs))) = concat (map (\<lambda>x. concat (map f (h x))) xs)"
  by (induction xs) auto

lemma seq_assoc: "rx_match (RSeq (RSeq a b) c) st = rx_match (RSeq a (RSeq b c)) st"
proof -
  have "rx_match (RSeq b c) = (\<lambda>x. concat (map (rx_match c) (rx_match b x)))" by (rule ext) simp
  then show ?thesis by (simp only: rx_match.simps(4) concat_map_concat)
qed

lemma seq_cap_ident_run:
  assumes "q c" "\<forall>d \<in> set w. p d" "s = [] \<or> \<not> p (hd s)" "rx_rejects p b"
  shows "rx_match (RSeq (RCap n (RSeq (RSet q) (RStar (RSet p)))) b) (l, (c # w) @ s, g) =
    rx_match b (rev (c # w) @ l, s, (n, c # w) # g)"
proof -
  have stop: "rx_match (RSet p) (rev w @ c # l, s, g) = []" using assms(3) by (cases s) auto
  obtain tail where t: "rx_match (RStar (RSet p)) (c # l, w @ s, g) = (rev w @ c # l, s, g) # tail"
    "\<forall>st \<in> set tail. \<exists>l' c s'. st = (l', c # s', g) \<and> p c"
    using star_run [OF rx_char_RSet assms(2) stop] by blast
  have "concat (map (\<lambda>(l', s', g'). rx_match b (l', s', (n, take (length (c # w @ s) - length s') (c # w @ s)) # g')) tail) = []"
    using t(2) assms(4) by (fastforce simp: rx_rejects_def)
  with t(1) assms(1) show ?thesis by (simp only: cap_assoc) (simp add: Suc_diff_le)
qed

lemma seq_cap_plus_run:
  assumes "w \<noteq> []" "\<forall>d \<in> set w. p d" "s = [] \<or> \<not> p (hd s)" "rx_rejects p b"
  shows "rx_match (RSeq (RCap n (RPlus (RSet p))) b) (l, w @ s, g) =
    rx_match b (rev w @ l, s, (n, w) # g)"
  using assms seq_cap_ident_run [of p "hd w" "tl w" p s b n l g]
  by (cases w) (simp_all add: RPlus_def)

lemma seq_plus_run:
  assumes "w \<noteq> []" "\<forall>d \<in> set w. p d" "s = [] \<or> \<not> p (hd s)" "rx_rejects p b"
  shows "rx_match (RSeq (RPlus (RSet p)) b) (l, w @ s, g) = rx_match b (rev w @ l, s, g)"
proof (cases w)
  case (Cons c v)
  have "rx_match (RSeq (RStar (RSet p)) b) (c # l, v @ s, g) = rx_match b (rev v @ c # l, s, g)"
    using assms Cons seq_star_run [OF rx_char_RSet, of v p "c # l" s g b] by (cases s) auto
  then show ?thesis using assms(2) Cons by (simp add: RPlus_def)
qed (use assms in simp)

lemma seq_star_set_run:
  assumes "\<forall>d \<in> set w. p d" "s = [] \<or> \<not> p (hd s)" "rx_rejects p b"
  shows "rx_match (RSeq (RStar (RSet p)) b) (l, w @ s, g) = rx_match b (rev w @ l, s, g)"
  using assms seq_star_run [OF rx_char_RSet, of w p l s g b] by (cases s) auto

lemma lazy_set_list:
  "rx_match (RLazy (RSet p)) (l, s, g) =
     map (\<lambda>k. (rev (take k s) @ l, drop k s, g)) [0..<Suc (length (takeWhile p s))]"
proof (induction s arbitrary: l)
  case Nil
  then show ?case by (subst rx_match.simps) simp
next
  case (Cons c s)
  have "[0..<Suc (Suc n)] = 0 # map Suc [0..<Suc n]" for n
    by (metis map_Suc_upt upt_conv_Cons zero_less_Suc)
  moreover have "[0..<Suc 0] = [0]" by simp
  ultimately show ?case
    using Cons.IH [of "c # l"] by (subst rx_match.simps) (auto simp: comp_def simp del: upt_Suc)
qed

lemma cap_lazy_list:
  "rx_match (RSeq (RCap n (RLazy (RSet p))) b) (l, s, g) =
     concat (map (\<lambda>k. rx_match b (rev (take k s) @ l, drop k s, (n, take k s) # g))
       [0..<Suc (length (takeWhile p s))])"
proof -
  have len: "k \<le> length s" if "k < Suc (length (takeWhile p s))" for k
    using that length_takeWhile_le [of p s] by linarith
  show ?thesis
    unfolding cap_assoc lazy_set_list
    by (rule arg_cong [where f = concat]) (auto simp del: upt_Suc simp: len)
qed

lemma concat_upt_first:
  assumes "m < n" "\<forall>k < m. f k = []"
  shows "\<exists>rest. concat (map f [0..<n]) = f m @ rest"
proof -
  have "[0..<n] = [0..<m] @ m # [Suc m..<n]"
    using assms(1) by (metis le0 le_add_diff_inverse less_imp_le upt_add_eq_append upt_conv_Cons)
  moreover have "concat (map f [0..<m]) = []" using assms(2) by simp
  ultimately show ?thesis by (intro exI [of _ "concat (map f [Suc m..<n])"]) simp
qed

section \<open>Meaning of derived forms\<close>

lemma rx_rel_RLit [simp]: "rx_rel (RLit w) l u s \<longleftrightarrow> u = w"
proof (induction w arbitrary: l u)
  case (Cons c w)
  then show ?case by (auto simp: RLit.simps)
qed (simp add: RLit.simps)

lemma rx_rel_star_set: "rx_rel (RStar (RSet p)) l w s \<longleftrightarrow> (\<forall>c \<in> set w. p c)"
proof
  assume "rx_rel (RStar (RSet p)) l w s"
  then show "\<forall>c \<in> set w. p c"
    by (induction "RStar (RSet p)" l w s rule: rx_rel.induct) auto
next
  assume "\<forall>c \<in> set w. p c"
  then show "rx_rel (RStar (RSet p)) l w s"
  proof (induction w arbitrary: l)
    case (Cons c w)
    then show ?case using rel_star1 [of "RSet p" l "[c]" w s] by simp
  qed (rule rel_star0)
qed

lemma rx_rel_RPlus_set:
  "rx_rel (RPlus (RSet p)) l w s \<longleftrightarrow> w \<noteq> [] \<and> (\<forall>c \<in> set w. p c)"
proof (cases w)
  case (Cons c v)
  have "rx_rel (RPlus (RSet p)) l w s \<longleftrightarrow> (\<exists>u v. w = u @ v \<and> (\<exists>d. u = [d] \<and> p d) \<and> (\<forall>c \<in> set v. p c))"
    by (simp add: RPlus_def rx_rel_star_set)
  also have "\<dots> \<longleftrightarrow> p c \<and> (\<forall>c \<in> set v. p c)"
  proof
    assume "p c \<and> (\<forall>c \<in> set v. p c)"
    then show "\<exists>u v. w = u @ v \<and> (\<exists>d. u = [d] \<and> p d) \<and> (\<forall>c \<in> set v. p c)"
      using Cons by (intro exI [of _ "[c]"] exI [of _ v]) auto
  qed (use Cons in auto)
  finally show ?thesis using Cons by simp
qed (simp add: RPlus_def)

lemma rx_rel_RAlts_lits:
  "rx_rel (RAlts (map RLit ks)) l w s \<longleftrightarrow> w \<in> set ks"
  by (induction ks rule: induct_list012) auto

lemma rx_caps_RLit [simp]: "rx_caps (RLit w) = {}"
  by (induction w) (auto simp: RLit.simps)

lemma rx_caps_RAlts_lits: "rx_caps (RAlts (map RLit ks)) = {}"
  by (induction ks rule: induct_list012) auto

lemma seq_lit_run [rx_eval]:
  "rx_match (RSeq (RLit w) b) (l, w @ s, g) = rx_match b (rev w @ l, s, g)"
  by simp

lemma at_here:
  "rx_match r (l, w @ s, []) = (l', s, g) # ms \<Longrightarrow>
     rx_at r l (w @ s) = Some \<lparr>rf_before = rev l, rf_text = w, rf_after = s, rf_groups = g\<rparr>"
  by (simp add: rx_at_def)

lemma rx_find_here:
  "rx_match r ([], w @ s, []) = (l', s, g) # ms \<Longrightarrow>
     rx_find r (w @ s) = Some \<lparr>rf_before = [], rf_text = w, rf_after = s, rf_groups = g\<rparr>"
  using at_here [of r "[]" w s l' g ms] by (cases "w @ s") (auto simp: rx_find_def)

text \<open>An anchored pattern either matches at the start of the text or nowhere.\<close>

lemma rx_search_anchored: "l \<noteq> [] \<Longrightarrow> rx_search (RSeq RBegin r) l s = None"
  by (induction s arbitrary: l) (auto simp: rx_at_def)

lemma rx_find_anchored: "rx_find (RSeq RBegin r) s = rx_at r [] s"
proof -
  have "rx_at (RSeq RBegin r) [] s = rx_at r [] s" by (simp add: rx_at_def)
  then show ?thesis
    by (cases s) (auto simp: rx_find_def rx_search_anchored split: option.splits)
qed

lemma rejects_star_seq:
  assumes "\<forall>c. p c \<longrightarrow> \<not> q c" "rx_rejects p b"
  shows "rx_rejects p (RSeq (RStar (RSet q)) b)"
  unfolding rx_rejects_def
proof (intro allI impI)
  fix l c s g assume c: "p c"
  with assms(1) have "rx_match (RStar (RSet q)) (l, c # s, g) = [(l, c # s, g)]"
    by (subst rx_match.simps) simp
  with c assms(2) show "rx_match (RSeq (RStar (RSet q)) b) (l, c # s, g) = []"
    by (simp add: rx_rejects_def)
qed

text \<open>Runs of items of several bytes, of which the first byte tells that the item is not over.\<close>

lemma star_items_run:
  assumes "\<forall>it \<in> set its. it \<noteq> [] \<and> p (hd it) \<and> (\<forall>l s g. rx_match a (l, it @ s, g) = [(rev it @ l, s, g)])"
    "\<forall>l. rx_match a (l, s, g) = []"
  shows "\<exists>tail. rx_match (RStar a) (l, concat its @ s, g) = (rev (concat its) @ l, s, g) # tail \<and>
    (\<forall>st \<in> set tail. \<exists>l' c s'. st = (l', c # s', g) \<and> p c)"
  using assms(1)
proof (induction its arbitrary: l)
  case Nil
  then show ?case using assms(2) by (subst rx_match.simps) simp
next
  case (Cons it its)
  obtain tail where t: "rx_match (RStar a) (rev it @ l, concat its @ s, g) =
      (rev (concat its) @ rev it @ l, s, g) # tail"
    "\<forall>st \<in> set tail. \<exists>l' c s'. st = (l', c # s', g) \<and> p c" using Cons.IH [of "rev it @ l"] Cons.prems by auto
  obtain c w where it: "it = c # w" "p c" using Cons.prems by (cases it) auto
  have "rx_match a (l, it @ concat its @ s, g) = [(rev it @ l, concat its @ s, g)]" using Cons.prems by simp
  then have "rx_match (RStar a) (l, concat (it # its) @ s, g) =
      (rev (concat (it # its)) @ l, s, g) # tail @ [(l, concat (it # its) @ s, g)]"
    using t(1) it by (subst rx_match.simps) simp
  then show ?case using t(2) it by auto
qed

lemma seq_cap_items_run:
  assumes "\<forall>it \<in> set its. it \<noteq> [] \<and> p (hd it) \<and> (\<forall>l s g. rx_match a (l, it @ s, g) = [(rev it @ l, s, g)])"
    "\<forall>l. rx_match a (l, s, g) = []" "rx_rejects p b"
  shows "rx_match (RSeq (RCap n (RStar a)) b) (l, concat its @ s, g) =
    rx_match b (rev (concat its) @ l, s, (n, concat its) # g)"
proof -
  obtain tail where t: "rx_match (RStar a) (l, concat its @ s, g) = (rev (concat its) @ l, s, g) # tail"
    "\<forall>st \<in> set tail. \<exists>l' c s'. st = (l', c # s', g) \<and> p c"
    using star_items_run [OF assms(1,2)] by blast
  have "concat (map (\<lambda>(l', s', g'). rx_match b (l', s', (n, take (length (concat its @ s) - length s') (concat its @ s)) # g')) tail) = []"
    using t(2) assms(3) by (fastforce simp: rx_rejects_def)
  with t(1) show ?thesis unfolding cap_assoc by simp
qed

section \<open>Successive matches\<close>

lemma rx_all_skip: "rx_match r (l, c # s, []) = [] \<Longrightarrow> rx_all_from r l (c # s) = rx_all_from r (c # l) s"
  by (subst (1 2) rx_all_from.simps) (simp add: rx_at_def)

lemma rx_all_skip_run:
  "rx_rejects p r \<Longrightarrow> \<forall>c \<in> set w. p c \<Longrightarrow> rx_all_from r l (w @ s) = rx_all_from r (rev w @ l) s"
  by (induction w arbitrary: l) (auto simp: rx_all_skip rx_rejects_def)

lemma rx_search_here:
  "rx_match r (l, w @ s, []) = (l', s, g) # ms \<Longrightarrow>
     rx_search r l (w @ s) = Some \<lparr>rf_before = rev l, rf_text = w, rf_after = s, rf_groups = g\<rparr>"
  using at_here [of r l w s l' g ms] by (cases "w @ s") auto

lemma rx_all_take:
  "rx_match r (l, w @ s, []) = (l', s, g) # ms \<Longrightarrow> w \<noteq> [] \<Longrightarrow>
     rx_all_from r l (w @ s) =
       \<lparr>rf_before = rev l, rf_text = w, rf_after = s, rf_groups = g\<rparr> # rx_all_from r (rev w @ l) s"
  by (subst rx_all_from.simps) (simp add: rx_search_here)

lemma rx_all_none: "rx_search r l s = None \<Longrightarrow> rx_all_from r l s = []"
  by (subst rx_all_from.simps) simp

lemma rx_no_match: "\<forall>w t. s = w @ t \<longrightarrow> \<not> rx_rel r l w t \<Longrightarrow> rx_match r (l, s, g) = []"
proof (rule ccontr)
  assume no: "\<forall>w t. s = w @ t \<longrightarrow> \<not> rx_rel r l w t" and "rx_match r (l, s, g) \<noteq> []"
  then obtain l' s' g' where m: "(l', s', g') \<in> set (rx_match r (l, s, g))"
    by (metis last_in_set prod_cases3)
  then obtain w where "s = w @ s'" by (rule rx_match_consumesE)
  with rx_match_sound [OF m this] no show False by blast
qed

end
