(* ===== verification/Usr.thy ===== *)
theory Usr
  imports Go_Regex
begin

text \<open>
  Package \<^verbatim>\<open>usr\<close>: the identity strings of C entities (\<^verbatim>\<open>internal/usr/usr.go\<close>). The constructors
  concatenate; anonymous tags are named after their position by a hand-written integer formatter,
  which works in a 12-byte buffer and therefore has a range. \<open>Clone\<close> recognises the suffixes that
  GCC's interprocedural passes append.
\<close>

section \<open>Integer formatting\<close>

text \<open>
  Go's \<^verbatim>\<open>int\<close> is a 64-bit two's complement number: negation of the least one gives it back.
\<close>

definition min_int64 :: int where
  "min_int64 = - (2 ^ 63)"

definition neg_int64 :: "int \<Rightarrow> int" where
  "neg_int64 n = (if n = min_int64 then n else - n)"

text \<open>
  The loop of \<open>itoa\<close>: the remaining number, the index of the first byte in use and the bytes from
  there to the end of the buffer. Writing below index 0 panics, which is \<^const>\<open>None\<close>.
\<close>

function itoa_loop :: "int \<Rightarrow> nat \<Rightarrow> string \<Rightarrow> (nat \<times> string) option" where
  "itoa_loop n i buf =
     (if 0 < n then
        (if i = 0 then None
         else itoa_loop (n div 10) (i - 1) (char_of (0x30 + nat (n mod 10)) # buf))
      else Some (i, buf))"
  by pat_completeness auto
termination
  by (relation "measure (\<lambda>(n, i, buf). nat n)") auto

declare itoa_loop.simps [simp del]

definition itoa :: "int \<Rightarrow> string option" where
  "itoa n =
     (if n = 0 then Some ''0''
      else let neg = n < 0 in
        case itoa_loop (if neg then neg_int64 n else n) 12 [] of
          None \<Rightarrow> None
        | Some (i, buf) \<Rightarrow>
            if neg then (if i = 0 then None else Some (CHR ''-'' # buf))
            else Some buf)"

section \<open>Constructors\<close>

definition Function_usr :: "string \<Rightarrow> string \<Rightarrow> string" where
  "Function_usr path name =
     (if path = [] then ''c:@F@'' @ name else ''c:'' @ path @ ''@F@'' @ name)"

definition Variable_usr :: "string \<Rightarrow> string \<Rightarrow> string" where
  "Variable_usr path name =
     (if path = [] then ''c:@V@'' @ name else ''c:'' @ path @ ''@V@'' @ name)"

definition Typedef_usr :: "string \<Rightarrow> string \<Rightarrow> string" where
  "Typedef_usr path name = ''c:'' @ path @ ''@T@'' @ name"

definition resolveTagName :: "string \<Rightarrow> int \<Rightarrow> int \<Rightarrow> string option" where
  "resolveTagName name line col =
     (if name \<noteq> [] then Some name
      else case itoa line of
          None \<Rightarrow> None
        | Some l \<Rightarrow> (case itoa col of
              None \<Rightarrow> None
            | Some c \<Rightarrow> Some (''__anon_'' @ l @ ''_'' @ c)))"

definition Struct_usr :: "string \<Rightarrow> string \<Rightarrow> int \<Rightarrow> int \<Rightarrow> string option" where
  "Struct_usr path name line col =
     map_option (\<lambda>t. ''c:'' @ path @ ''@S@'' @ t) (resolveTagName name line col)"

definition Union_usr :: "string \<Rightarrow> string \<Rightarrow> int \<Rightarrow> int \<Rightarrow> string option" where
  "Union_usr path name line col =
     map_option (\<lambda>t. ''c:'' @ path @ ''@U@'' @ t) (resolveTagName name line col)"

definition Enum_usr :: "string \<Rightarrow> string \<Rightarrow> int \<Rightarrow> int \<Rightarrow> string option" where
  "Enum_usr path name line col =
     map_option (\<lambda>t. ''c:'' @ path @ ''@E@'' @ t) (resolveTagName name line col)"

definition EnumMember_usr :: "string \<Rightarrow> string \<Rightarrow> int \<Rightarrow> int \<Rightarrow> string \<Rightarrow> string option" where
  "EnumMember_usr path enumName line col member =
     map_option (\<lambda>t. ''c:'' @ path @ ''@E@'' @ t @ ''@'' @ member) (resolveTagName enumName line col)"

definition Field_usr :: "string \<Rightarrow> string \<Rightarrow> string" where
  "Field_usr containerUSR fieldName = containerUSR @ ''@F@'' @ fieldName"

section \<open>Clones and paths\<close>

definition clone_kinds :: "string list" where
  "clone_kinds = [''constprop'', ''isra'', ''part'', ''localalias'', ''cold'', ''hot'', ''resolver'']"

text \<open>\<^verbatim>\<open>^(.*?)(\.(constprop|isra|part|localalias|cold|hot|resolver)(\.\d+)?)$\<close>\<close>

definition cloneSuffix_tail :: rx where
  "cloneSuffix_tail =
     RSeqs [RLit ''.'', RCap 3 (RAlts (map RLit clone_kinds)),
            ROpt (RCap 4 (RSeq (RLit ''.'') (RPlus (RSet is_digit))))]"

definition cloneSuffix :: rx where
  "cloneSuffix =
     RSeq RBegin (RSeq (RCap 1 (RLazy (RSet is_dot))) (RSeq (RCap 2 cloneSuffix_tail) REnd))"

definition Clone :: "string \<Rightarrow> string \<times> string \<times> bool" where
  "Clone name =
     (case rx_find cloneSuffix name of
        None \<Rightarrow> (name, [], False)
      | Some m \<Rightarrow> (rx_group m 1, rx_group m 2, True))"

definition NormalizeProjectPath :: "string \<Rightarrow> string" where
  "NormalizeProjectPath p0 =
     (let p1 = ReplaceAll p0 [CHR 0x5C] ''/'';
          p2 = TrimPrefix p1 ''./'';
          p3 = TrimSuffix p2 ''/''
      in p3)"

section \<open>The formatter\<close>

lemma dec_0: "dec 0 = ''0''"
  by code_simp

lemma length_dec_le: "0 < k \<Longrightarrow> length (dec n) \<le> k \<longleftrightarrow> n < 10 ^ k"
proof (induction n arbitrary: k rule: dec.induct)
  case (1 n)
  show ?case
  proof (cases "n < 10")
    case True
    have "(10::nat) ^ 1 \<le> 10 ^ k" using "1.prems" by (intro power_increasing) auto
    with True "1.prems" show ?thesis by (simp add: dec.simps [of n])
  next
    case False
    show ?thesis
    proof (cases "k = 1")
      case True
      with False show ?thesis by (simp add: dec.simps [of n] not_less_eq_eq [symmetric] Suc_le_eq)
    next
      case k: False
      then obtain j where j: "k = Suc j" "0 < j" using "1.prems" by (cases k) auto
      have "length (dec (n div 10)) \<le> j \<longleftrightarrow> n div 10 < 10 ^ j" using 1 False j by simp
      with False j show ?thesis
        by (simp add: dec.simps [of n] less_mult_imp_div_less div_less_iff_less_mult mult.commute)
    qed
  qed
qed

lemma itoa_loop_dec:
  "0 < n \<Longrightarrow> itoa_loop n i buf =
     (let d = dec (nat n) in if length d \<le> i then Some (i - length d, d @ buf) else None)"
proof (induction n i buf rule: itoa_loop.induct)
  case (1 n i buf)
  let ?c = "char_of (0x30 + nat (n mod 10)) :: char"
  have nn: "nat (n mod 10) = nat n mod 10" "nat (n div 10) = nat n div 10"
    using "1.prems" by (simp_all add: nat_mod_distrib nat_div_distrib)
  show ?case
  proof (cases "n < 10")
    case True
    then have "n div 10 = 0" "nat n mod 10 = nat n" using "1.prems" by simp_all
    then have "itoa_loop n i buf = (if i = 0 then None else Some (i - 1, ?c # buf))"
      using "1.prems" by (simp add: itoa_loop.simps [of n] itoa_loop.simps [of 0])
    moreover have "dec (nat n) = [?c]"
      using True nn \<open>nat n mod 10 = nat n\<close> by (simp add: dec.simps [of "nat n"])
    ultimately show ?thesis by (auto simp: Let_def)
  next
    case False
    then have d: "dec (nat n) = dec (nat (n div 10)) @ [?c]"
      by (simp add: dec.simps [of "nat n"] nn)
    show ?thesis
    proof (cases "i = 0")
      case True
      with "1.prems" d show ?thesis by (simp add: itoa_loop.simps [of n])
    next
      case i: False
      have "itoa_loop n i buf = itoa_loop (n div 10) (i - 1) (?c # buf)"
        using "1.prems" i by (simp add: itoa_loop.simps [of n])
      also have "\<dots> = (let d = dec (nat (n div 10)) in
          if length d \<le> i - 1 then Some (i - 1 - length d, d @ ?c # buf) else None)"
        using 1 i False by simp
      finally show ?thesis using d i by (auto simp: Let_def)
    qed
  qed
qed

text \<open>
  The formatter over the whole range of a 64-bit integer: it yields the decimal digits, with a
  minus sign for negative numbers, as long as they fit the 12-byte buffer; it panics beyond
  \<open>10\<^sup>1\<^sup>2\<close> and below \<open>-10\<^sup>1\<^sup>1\<close>, and for the least 64-bit integer it returns the sign alone.
\<close>

theorem itoa_spec:
  assumes "min_int64 \<le> n" "n < 2 ^ 63"
  shows "itoa n =
    (if n = min_int64 then Some ''-''
     else if 0 \<le> n \<and> n < 10 ^ 12 then Some (dec (nat n))
     else if n < 0 \<and> - (10 ^ 11) < n then Some (''-'' @ dec (nat (- n)))
     else None)"
proof -
  have fits12: "length (dec (nat n)) \<le> 12 \<longleftrightarrow> n < 10 ^ 12" if "0 < n"
    using that length_dec_le [of 12 "nat n"] by (simp add: nat_less_iff)
  have fits11: "length (dec (nat (- n))) \<le> 11 \<longleftrightarrow> - (10 ^ 11) < n" if "n < 0"
    using that length_dec_le [of 11 "nat (- n)"] by (simp add: nat_less_iff) linarith
  consider "n = 0" | "0 < n" | "n = min_int64" | "n < 0" "n \<noteq> min_int64" by linarith
  then show ?thesis
  proof cases
    case 1
    then show ?thesis by (simp add: itoa_def min_int64_def dec_0)
  next
    case 2
    then show ?thesis
      using fits12 by (auto simp: itoa_def itoa_loop_dec Let_def min_int64_def)
  next
    case 3
    then show ?thesis
      by (simp add: itoa_def neg_int64_def min_int64_def itoa_loop.simps [of "- _"])
  next
    case 4
    then have "itoa_loop (neg_int64 n) 12 [] =
        (let d = dec (nat (- n)) in if length d \<le> 12 then Some (12 - length d, d) else None)"
      by (simp add: neg_int64_def itoa_loop_dec Let_def)
    with 4 fits11 show ?thesis by (auto simp: itoa_def Let_def)
  qed
qed

theorem itoa_spec_witness:
  "itoa 42 = Some ''42'' \<and> itoa (- 7) = Some ''-7'' \<and> itoa (10 ^ 12) = None"
proof -
  have d: "dec 42 = ''42''" "dec 7 = ''7''" by code_simp+
  show ?thesis
    using itoa_spec [of 42] itoa_spec [of "- 7"] itoa_spec [of "10 ^ 12"]
    by (simp add: min_int64_def d)
qed

section \<open>Identity\<close>

lemma split_at_last:
  assumes "a @ x # n = b @ x # m" "x \<notin> set n" "x \<notin> set m"
  shows "a = b \<and> n = m"
proof -
  have "takeWhile (\<lambda>c. c \<noteq> x) (rev (a @ x # n)) = rev n"
    and "takeWhile (\<lambda>c. c \<noteq> x) (rev (b @ x # m)) = rev m"
    using assms(2,3) by (auto simp: takeWhile_append)
  with assms(1) have "n = m" by (metis rev_rev_ident)
  with assms(1) show ?thesis by simp
qed

lemma Function_usr_alt: "Function_usr p n = (''c:'' @ p @ ''@F'') @ CHR ''@'' # n"
  by (simp add: Function_usr_def)

lemma Variable_usr_alt: "Variable_usr p n = (''c:'' @ p @ ''@V'') @ CHR ''@'' # n"
  by (simp add: Variable_usr_def)

lemma Typedef_usr_alt: "Typedef_usr p n = (''c:'' @ p @ ''@T'') @ CHR ''@'' # n"
  by (simp add: Typedef_usr_def)

text \<open>
  C39 Identity strings identify: for names without an at sign (C identifiers and GCC's symbol names)
  two functions, or two variables, have the same USR only if they have the same path and name, and
  the USRs of functions, variables and typedefs are pairwise different.
\<close>

theorem usr_identity:
  assumes "CHR ''@'' \<notin> set n" "CHR ''@'' \<notin> set n'"
  shows "(Function_usr p n = Function_usr p' n' \<longleftrightarrow> p = p' \<and> n = n') \<and>
    (Variable_usr p n = Variable_usr p' n' \<longleftrightarrow> p = p' \<and> n = n') \<and>
    (Typedef_usr p n = Typedef_usr p' n' \<longleftrightarrow> p = p' \<and> n = n') \<and>
    Function_usr p n \<noteq> Variable_usr p' n' \<and> Function_usr p n \<noteq> Typedef_usr p' n' \<and>
    Variable_usr p n \<noteq> Typedef_usr p' n'"
proof -
  have cut: "a @ CHR ''@'' # n = b @ CHR ''@'' # n' \<longleftrightarrow> a = b \<and> n = n'" for a b
    using split_at_last [OF _ assms] by auto
  show ?thesis
    unfolding Function_usr_alt Variable_usr_alt Typedef_usr_alt cut by simp
qed

theorem usr_identity_witness:
  "Function_usr ''a.c'' ''f'' \<noteq> Function_usr [] ''f'' \<and> Function_usr [] ''f'' \<noteq> Variable_usr [] ''f''"
  using usr_identity [of "''f''" "''f''" "''a.c''" "[]"] usr_identity [of "''f''" "''f''" "[]" "[]"]
  by simp

section \<open>Clone suffixes\<close>

text \<open>A suffix of GCC's clones: a pass name after a dot, then optionally a dot and digits.\<close>

definition clone_suffix :: "string \<Rightarrow> bool" where
  "clone_suffix t \<longleftrightarrow>
     (\<exists>k \<in> set clone_kinds. t = ''.'' @ k \<or>
        (\<exists>ds. ds \<noteq> [] \<and> (\<forall>d \<in> set ds. is_digit d) \<and> t = ''.'' @ k @ ''.'' @ ds))"

lemma rx_rel_clone_tail: "rx_rel cloneSuffix_tail l t s \<longleftrightarrow> clone_suffix t"
proof -
  have "rx_rel cloneSuffix_tail l t s \<longleftrightarrow>
      (\<exists>k e. k \<in> set clone_kinds \<and> t = ''.'' @ k @ e \<and>
         (e = [] \<or> (\<exists>ds. e = ''.'' @ ds \<and> ds \<noteq> [] \<and> (\<forall>d \<in> set ds. is_digit d))))"
    unfolding cloneSuffix_tail_def ROpt_def
    by (auto simp: rx_rel_RAlts_lits rx_rel_RPlus_set simp del: RAlts.simps is_digit.simps)
  then show ?thesis
    unfolding clone_suffix_def by (auto simp del: is_digit.simps)
qed

lemma clone_tail_caps: "rx_caps cloneSuffix_tail \<subseteq> {3, 4}"
  by (simp add: cloneSuffix_tail_def ROpt_def RPlus_def rx_caps_RAlts_lits del: RAlts.simps)

text \<open>What the pattern yields when the base is the first \<open>k\<close> bytes.\<close>

lemma clone_at:
  "rx_match (RSeq (RCap 2 cloneSuffix_tail) REnd) (l, t, g) =
     map (\<lambda>(l', s', g'). (l', s', (2, t) # g'))
       (filter (\<lambda>(l', s', g'). s' = []) (rx_match cloneSuffix_tail (l, t, g)))"
proof -
  have "concat (map (rx_match REnd) (map (\<lambda>(l', s', g'). (l', s', (2, take (length t - length s') t) # g')) ms))
      = map (\<lambda>(l', s', g'). (l', s', (2, t) # g')) (filter (\<lambda>(l', s', g'). s' = []) ms)" for ms
    by (induction ms) auto
  then show ?thesis by simp
qed

lemma clone_at_Nil_iff:
  "rx_match (RSeq (RCap 2 cloneSuffix_tail) REnd) (l, t, g) = [] \<longleftrightarrow> \<not> clone_suffix t"
proof -
  have "filter (\<lambda>(l', s', g'). s' = []) (rx_match cloneSuffix_tail (l, t, g)) = [] \<longleftrightarrow>
      \<not> (\<exists>l' g'. (l', [], g') \<in> set (rx_match cloneSuffix_tail (l, t, g)))"
    by (auto simp: filter_empty_conv)
  also have "\<dots> \<longleftrightarrow> \<not> rx_rel cloneSuffix_tail l t []"
    using rx_match_sound [of _ "[]" _ cloneSuffix_tail l t g t]
      rx_match_complete [of cloneSuffix_tail l t "[]" g] by fastforce
  finally show ?thesis unfolding clone_at by (simp add: rx_rel_clone_tail)
qed

lemma clone_at_first:
  assumes "rx_match (RSeq (RCap 2 cloneSuffix_tail) REnd) (l, t, [(1, b)]) \<noteq> []"
  obtains l' g' ms where
    "rx_match (RSeq (RCap 2 cloneSuffix_tail) REnd) (l, t, [(1, b)]) = (l', [], (2, t) # g') # ms"
    "map_of g' 1 = Some b"
proof -
  let ?ms = "filter (\<lambda>(l', s', g'). s' = []) (rx_match cloneSuffix_tail (l, t, [(1, b)]))"
  from assms obtain st ms where ms: "?ms = st # ms" unfolding clone_at by (cases ?ms) auto
  obtain l' s' g' where st: "st = (l', s', g')" by (metis prod_cases3)
  have "st \<in> set ?ms" using ms by simp
  with st have "s' = []" "(l', s', g') \<in> set (rx_match cloneSuffix_tail (l, t, [(1, b)]))" by auto
  moreover have "1 \<notin> rx_caps cloneSuffix_tail" using clone_tail_caps by auto
  ultimately have "map_of g' 1 = Some b" using rx_match_keeps_group by fastforce
  with that ms st \<open>s' = []\<close> show ?thesis unfolding clone_at by simp
qed

lemma take_no_NL: "k \<le> length s \<Longrightarrow> k < Suc (length (takeWhile is_dot s)) \<longleftrightarrow> NL \<notin> set (take k s)"
proof (induction s arbitrary: k)
  case (Cons c s)
  then show ?case by (cases k) auto
qed simp

text \<open>
  \<open>Clone\<close> splits a name exactly when it ends in a clone suffix and has no newline before it.
  The split is the one with the shortest base, it loses nothing, and a name without such a suffix is
  returned unchanged.
\<close>

theorem Clone_spec:
  "case Clone name of
     (base, suf, True) \<Rightarrow>
       name = base @ suf \<and> clone_suffix suf \<and> NL \<notin> set base \<and>
       (\<forall>b t. name = b @ t \<and> clone_suffix t \<longrightarrow> length base \<le> length b)
   | (base, suf, False) \<Rightarrow>
       base = name \<and> suf = [] \<and> (\<forall>b t. name = b @ t \<and> clone_suffix t \<longrightarrow> NL \<in> set b)"
proof -
  define f where "f k = rx_match (RSeq (RCap 2 cloneSuffix_tail) REnd)
     (rev (take k name), drop k name, [(1, take k name)])" for k
  define n where "n = Suc (length (takeWhile is_dot name))"
  have f_Nil: "f k = [] \<longleftrightarrow> \<not> clone_suffix (drop k name)" for k
    unfolding f_def by (rule clone_at_Nil_iff)
  have in_base: "k < n \<longleftrightarrow> NL \<notin> set (take k name)" if "k \<le> length name" for k
    using that unfolding n_def by (simp add: take_no_NL)
  have all: "rx_match (RSeq (RCap 1 (RLazy (RSet is_dot))) (RSeq (RCap 2 cloneSuffix_tail) REnd))
      ([], name, []) = concat (map f [0..<n])"
    unfolding cap_lazy_list f_def n_def by simp
  show ?thesis
  proof (cases "\<exists>k < n. f k \<noteq> []")
    case True
    define m where "m = (LEAST k. k < n \<and> f k \<noteq> [])"
    have m: "m < n" "f m \<noteq> []" using LeastI_ex [of "\<lambda>k. k < n \<and> f k \<noteq> []"] True by (auto simp: m_def)
    have before: "\<forall>k < m. f k = []"
    proof (intro allI impI)
      fix k assume k: "k < m"
      then have "\<not> (k < n \<and> f k \<noteq> [])" unfolding m_def by (rule not_less_Least)
      with k m(1) show "f k = []" by simp
    qed
    obtain rest where rest: "concat (map f [0..<n]) = f m @ rest"
      using concat_upt_first [OF m(1) before] by blast
    obtain l' g' ms where fm: "f m = (l', [], (2, drop m name) # g') # ms"
      and g1: "map_of g' 1 = Some (take m name)"
      using m(2) clone_at_first unfolding f_def by blast
    have "Clone name = (take m name, drop m name, True)"
      using g1 unfolding Clone_def cloneSuffix_def rx_find_anchored rx_at_def all rest fm
      by (simp add: rx_group_def)
    moreover have "m \<le> length b" if "name = b @ t" "clone_suffix t" for b t
      using that before f_Nil [of "length b"] by (metis append_eq_conv_conj not_le_imp_less)
    moreover have "m \<le> length name"
      using m(1) length_takeWhile_le [of is_dot name] by (simp add: n_def)
    ultimately show ?thesis
      using m f_Nil [of m] in_base [of m] by simp
  next
    case False
    then have none: "concat (map f [0..<n]) = []" by simp
    have "Clone name = (name, [], False)"
      unfolding Clone_def cloneSuffix_def rx_find_anchored rx_at_def all none by simp
    moreover have "NL \<in> set b" if "name = b @ t" "clone_suffix t" for b t
      using that False f_Nil [of "length b"] in_base [of "length b"] by auto
    ultimately show ?thesis by simp
  qed
qed

theorem Clone_spec_witness:
  "Clone ''f.constprop.0.isra.1'' = (''f.constprop.0'', ''.isra.1'', True) \<and>
     clone_suffix ''.isra.1'' \<and> Clone ''f.x'' = (''f.x'', [], False)"
proof -
  have c: "Clone ''f.constprop.0.isra.1'' = (''f.constprop.0'', ''.isra.1'', True)"
    "Clone ''f.x'' = (''f.x'', [], False)"
    by code_simp+
  show ?thesis using Clone_spec [of "''f.constprop.0.isra.1''"] unfolding c by simp
qed

section \<open>Path normalisation\<close>

lemma ReplaceAll_byte: "ReplaceAll s [b] [d] = map (\<lambda>c. if c = b then d else c) s"
  by (induction s) auto

text \<open>
  Normalisation turns every backslash into a slash, takes off one leading \<^verbatim>\<open>./\<close> and then one
  trailing slash, and changes no other byte; a path with neither is returned as it is.
\<close>

theorem NormalizeProjectPath_spec:
  "\<exists>pre suf. map (\<lambda>c. if c = CHR 0x5C then CHR ''/'' else c) p = pre @ NormalizeProjectPath p @ suf \<and>
     pre \<in> {[], ''./''} \<and> suf \<in> {[], ''/''} \<and> CHR 0x5C \<notin> set (NormalizeProjectPath p) \<and>
     (\<not> HasPrefix p ''./'' \<and> \<not> HasSuffix p ''/'' \<and> CHR 0x5C \<notin> set p \<longrightarrow> NormalizeProjectPath p = p)"
proof -
  let ?p1 = "map (\<lambda>c. if c = CHR 0x5C then CHR ''/'' else c) p"
  let ?p2 = "TrimPrefix ?p1 ''./''"
  have np: "NormalizeProjectPath p = TrimSuffix ?p2 ''/''"
    by (simp add: NormalizeProjectPath_def ReplaceAll_byte Let_def)
  have "\<exists>pre \<in> {[], ''./''}. ?p1 = pre @ ?p2"
    by (auto simp: TrimPrefix_def HasPrefix_iff)
  moreover have "\<exists>suf \<in> {[], ''/''}. ?p2 = TrimSuffix ?p2 ''/'' @ suf"
    by (auto simp: TrimSuffix_def HasSuffix_iff)
  moreover have "CHR 0x5C \<notin> set ?p1" by auto
  moreover have "?p1 = p" if "CHR 0x5C \<notin> set p" using that by (intro map_idI) auto
  ultimately show ?thesis
    unfolding np
    by (smt (verit) TrimPrefix_def TrimSuffix_def UnCI append_assoc set_append)
qed

text \<open>
  One leading \<^verbatim>\<open>./\<close> and one trailing slash only: \<^verbatim>\<open>././a\<close> keeps a leading \<^verbatim>\<open>./\<close>.
\<close>

theorem NormalizeProjectPath_spec_witness:
  "NormalizeProjectPath ''a/b.c'' = ''a/b.c'' \<and> NormalizeProjectPath ''././a//'' = ''./a/''"
proof -
  have "NormalizeProjectPath ''././a//'' = ''./a/''" by code_simp
  moreover have "\<not> HasPrefix ''a/b.c'' ''./''" "\<not> HasSuffix ''a/b.c'' ''/''" by code_simp+
  ultimately show ?thesis using NormalizeProjectPath_spec [of "''a/b.c''"] by auto
qed

end
