(* ===== verification/Ninja_Deps.thy ===== *)
theory Ninja_Deps
  imports Go_Text "HOL-Library.Word"
begin

text \<open>
  Package \<^verbatim>\<open>ninjadeps\<close> (\<^verbatim>\<open>internal/ninjadeps/ninjadeps.go\<close>): the reader of ninja's binary dependency
  log. The log is a byte string; its numbers are 32-bit words. \<open>Read\<close> is modelled with every early
  return. Against it stand the format's records, their encoding and their replay: reading an encoded
  log gives the replay, and reading a log cut anywhere gives the replay of the records before the cut.
\<close>

unbundle bit_operations_syntax

section \<open>The reader\<close>

definition magic :: string where
  "magic = ''# ninjadeps'' @ [NL]"

definition SupportedVersion :: "32 word" where
  "SupportedVersion = 4"

record Log =
  log_Version :: "32 word"
  log_Deps :: "(string, string list) gomap"

datatype nd_error =
    Open_failed
  | Short_header
  | Bad_magic string
  | Short_version
  | Unsupported_version "32 word"
  | Malformed_deps "32 word"
  | Bad_checksum nat "32 word" "32 word"

text \<open>\<^verbatim>\<open>binary.LittleEndian.Uint32\<close> on the first four bytes.\<close>

definition le32 :: "string \<Rightarrow> 32 word" where
  "le32 bs =
     word_of_nat (of_char (bs ! 0) + 256 * of_char (bs ! 1) + 65536 * of_char (bs ! 2) +
       16777216 * of_char (bs ! 3))"

text \<open>The loop that strips the padding: bytes 0 at the end.\<close>

definition strip_nul :: "string \<Rightarrow> string" where
  "strip_nul raw = rev (dropWhile (\<lambda>c. c = CHR 0x00) (rev raw))"

text \<open>The inputs of a deps record: ids not registered yet are left out.\<close>

definition dep_inputs :: "string list \<Rightarrow> string \<Rightarrow> nat \<Rightarrow> string list" where
  "dep_inputs paths buf numDeps =
     concat (map (\<lambda>i. let ident = le32 (drop (12 + i * 4) buf) in
                       if length paths \<le> unat ident then [] else [paths ! unat ident]) [0..<numDeps])"

function read_loop ::
  "string list \<Rightarrow> (string, string list) gomap \<Rightarrow> string \<Rightarrow>
   (string, string list) gomap \<times> nd_error option" where
  "read_loop paths deps bs =
     (if length bs < 4 then (deps, None)
      else
        let head = le32 bs;
            isDeps = drop_bit 31 head AND 1;
            size = head AND 0x7fffffff;
            bs1 = drop 4 bs
        in
          if size < 4 \<or> size > 2 ^ 24 then (deps, None)
          else if length bs1 < unat size then (deps, None)
          else
            let buf = take (unat size) bs1; rest = drop (unat size) bs1 in
            if isDeps = 1 then
              if size < 12 \<or> (size - 12) mod 4 \<noteq> 0 then (deps, Some (Malformed_deps size))
              else
                let outID = le32 buf; numDeps = (unat size - 12) div 4 in
                if length paths \<le> unat outID then read_loop paths deps rest
                else read_loop paths (gput (paths ! unat outID) (dep_inputs paths buf numDeps) deps) rest
            else
              let pathLen = unat size - 4;
                  raw = strip_nul (take pathLen buf);
                  checksum = le32 (drop pathLen buf);
                  expected = NOT (word_of_nat (length paths) :: 32 word)
              in
                if checksum \<noteq> expected then (deps, Some (Bad_checksum (length paths) checksum expected))
                else read_loop (paths @ [raw]) deps rest)"
  by pat_completeness auto
termination
  by (relation "measure (\<lambda>(paths, deps, bs). length bs)") auto

declare read_loop.simps [simp del]

text \<open>
  \<open>Read\<close> on the bytes of the file, \<^const>\<open>None\<close> when it cannot be opened. It may return a log
  together with an error.
\<close>

definition Read :: "string option \<Rightarrow> Log option \<times> nd_error option" where
  "Read file =
     (case file of
        None \<Rightarrow> (None, Some Open_failed)
      | Some bs \<Rightarrow>
          if length bs < length magic then (None, Some Short_header)
          else if take (length magic) bs \<noteq> magic then (None, Some (Bad_magic (take (length magic) bs)))
          else
            let bs1 = drop (length magic) bs in
            if length bs1 < 4 then (None, Some Short_version)
            else if le32 bs1 \<noteq> SupportedVersion then (None, Some (Unsupported_version (le32 bs1)))
            else
              let (deps, err) = read_loop [] [] (drop 4 bs1)
              in (Some \<lparr>log_Version = le32 bs1, log_Deps = deps\<rparr>, err))"

definition DepsFor :: "Log \<Rightarrow> string \<Rightarrow> string list option" where
  "DepsFor l out = gget (log_Deps l) out"

text \<open>
  \<open>ReadForBuildDir\<close> on what is at \<^verbatim>\<open><builddir>/.ninja_deps\<close>: nothing, a file that cannot be
  examined, or a file.
\<close>

datatype stat_result = Not_exist | Stat_failed | Exists "string option"

datatype rfb_error = Stat_error | Read_error nd_error

definition ReadForBuildDir :: "stat_result \<Rightarrow> Log option \<times> rfb_error option" where
  "ReadForBuildDir st =
     (case st of
        Not_exist \<Rightarrow> (None, None)
      | Stat_failed \<Rightarrow> (None, Some Stat_error)
      | Exists file \<Rightarrow> (case Read file of (l, err) \<Rightarrow> (l, map_option Read_error err)))"

section \<open>The format\<close>

text \<open>
  The records ninja writes (deps log version 4) and what they mean: a path record registers the next
  id, a deps record replaces the inputs of an output.
\<close>

datatype nd_rec = Path_rec string | Deps_rec nat nat "nat list"

type_synonym nd_state = "string list \<times> (string, string list) gomap"

fun replay_rec :: "nd_state \<Rightarrow> nd_rec \<Rightarrow> nd_state" where
  "replay_rec (ps, d) (Path_rec p) = (ps @ [p], d)"
| "replay_rec (ps, d) (Deps_rec out mtime ins) = (ps, gput (ps ! out) (map (\<lambda>i. ps ! i) ins) d)"

definition replay :: "nd_rec list \<Rightarrow> nd_state" where
  "replay rs = foldl replay_rec ([], []) rs"

text \<open>Ids refer to registered paths, paths do not end in a zero byte, and records are not too big.\<close>

definition padded_len :: "nat \<Rightarrow> nat" where
  "padded_len n = 4 * ((n + 3) div 4)"

fun rec_ok :: "nat \<Rightarrow> nd_rec \<Rightarrow> bool" where
  "rec_ok n (Path_rec p) \<longleftrightarrow>
     (p = [] \<or> last p \<noteq> CHR 0x00) \<and> padded_len (length p) + 4 \<le> 2 ^ 24 \<and> n < 2 ^ 32"
| "rec_ok n (Deps_rec out mtime ins) \<longleftrightarrow>
     out < n \<and> n \<le> 2 ^ 32 \<and> mtime < 2 ^ 64 \<and> (\<forall>i \<in> set ins. i < n) \<and> 12 + 4 * length ins \<le> 2 ^ 24"

fun recs_ok :: "nat \<Rightarrow> nd_rec list \<Rightarrow> bool" where
  "recs_ok n [] = True"
| "recs_ok n (r # rs) \<longleftrightarrow>
     rec_ok n r \<and> recs_ok (case r of Path_rec p \<Rightarrow> Suc n | Deps_rec _ _ _ \<Rightarrow> n) rs"

definition enc32 :: "nat \<Rightarrow> string" where
  "enc32 n = [char_of (n mod 256), char_of (n div 256 mod 256), char_of (n div 65536 mod 256),
              char_of (n div 16777216 mod 256)]"

fun encode_rec :: "nat \<Rightarrow> nd_rec \<Rightarrow> string" where
  "encode_rec n (Path_rec p) =
     enc32 (padded_len (length p) + 4) @ p @ replicate (padded_len (length p) - length p) (CHR 0x00) @
     enc32 (2 ^ 32 - 1 - n)"
| "encode_rec n (Deps_rec out mtime ins) =
     enc32 (2 ^ 31 + 12 + 4 * length ins) @ enc32 out @ enc32 (mtime mod 2 ^ 32) @
     enc32 (mtime div 2 ^ 32) @ concat (map enc32 ins)"

fun encode_recs :: "nat \<Rightarrow> nd_rec list \<Rightarrow> string" where
  "encode_recs n [] = []"
| "encode_recs n (r # rs) =
     encode_rec n r @ encode_recs (case r of Path_rec p \<Rightarrow> Suc n | Deps_rec _ _ _ \<Rightarrow> n) rs"

definition log_header :: string where
  "log_header = magic @ enc32 4"

definition encode_log :: "nd_rec list \<Rightarrow> string" where
  "encode_log rs = log_header @ encode_recs 0 rs"

section \<open>Words\<close>

lemma enc32_length [simp]: "length (enc32 n) = 4"
  by (simp add: enc32_def)

lemma le32_append: "le32 (enc32 n @ s) = le32 (enc32 n)"
  by (simp add: le32_def enc32_def)

lemma le32_enc32: "n < 2 ^ 32 \<Longrightarrow> le32 (enc32 n @ s) = word_of_nat n"
proof -
  assume n: "n < 2 ^ 32"
  have d: "n div 65536 = n div 256 div 256" "n div 16777216 = n div 256 div 256 div 256"
    by (simp_all add: div_mult2_eq [symmetric])
  have small: "n div 256 div 256 div 256 mod 256 = n div 256 div 256 div 256"
    using n by (simp add: div_mult2_eq [symmetric])
  have key: "r0 + 256 * r1 + 65536 * r2 + 16777216 * q3 = n"
    if "n = r0 + 256 * q1" "q1 = r1 + 256 * q2" "q2 = r2 + 256 * q3" for r0 r1 r2 q1 q2 q3 :: nat
    using that by simp
  have split: "m = m mod 256 + 256 * (m div 256)" for m :: nat by (rule mod_mult_div_eq [symmetric])
  have "n mod 256 + 256 * (n div 256 mod 256) + 65536 * (n div 65536 mod 256) +
      16777216 * (n div 16777216 mod 256) = n"
    unfolding d small by (rule key [OF split split split])
  moreover have "le32 (enc32 n @ s) = word_of_nat (n mod 256 + 256 * (n div 256 mod 256) +
      65536 * (n div 65536 mod 256) + 16777216 * (n div 16777216 mod 256))"
    by (simp add: le32_def enc32_def of_char_of del: of_nat_add of_nat_mult)
  ultimately show ?thesis by (simp only:)
qed

lemma unat_le32_enc32: "n < 2 ^ 32 \<Longrightarrow> unat (le32 (enc32 n @ s)) = n"
  by (simp add: le32_enc32 unsigned_of_nat take_bit_eq_mod)

lemma unat_head_size: "unat (w AND 0x7fffffff :: 32 word) = unat w mod 2 ^ 31"
proof -
  have "w AND 0x7fffffff = take_bit 31 w" by (simp add: take_bit_eq_mask mask_eq_exp_minus_1)
  then show ?thesis by (simp only: unsigned_take_bit_eq) (simp add: take_bit_eq_mod)
qed

lemma head_is_deps: "(drop_bit 31 w AND 1 = (1 :: 32 word)) \<longleftrightarrow> 2 ^ 31 \<le> unat w"
proof -
  have "(drop_bit 31 w AND 1 = (1 :: 32 word)) \<longleftrightarrow> odd (drop_bit 31 w)"
    by (simp add: and_one_eq odd_iff_mod_2_eq_one)
  also have "\<dots> \<longleftrightarrow> odd (unat (drop_bit 31 w))"
    by (simp add: odd_iff_mod_2_eq_one word_unat_eq_iff unat_mod)
  finally have o: "(drop_bit 31 w AND 1 = (1 :: 32 word)) \<longleftrightarrow> odd (unat w div 2 ^ 31)"
    by (simp only: unat_drop_bit_eq) (simp add: drop_bit_eq_div)
  have "unat w div 2 ^ 31 < 2" using unsigned_less [of w, where ?'a = nat] by simp
  then show ?thesis unfolding o by (auto simp: less_2_cases_iff)
qed

text \<open>One round of the loop with its word tests as tests on natural numbers.\<close>

lemma read_loop_nat:
  "read_loop paths deps bs =
     (if length bs < 4 then (deps, None)
      else
        let h = unat (le32 bs); sz = h mod 2 ^ 31; bs1 = drop 4 bs;
            buf = take sz bs1; rest = drop sz bs1 in
        if sz < 4 \<or> 2 ^ 24 < sz \<or> length bs1 < sz then (deps, None)
        else if 2 ^ 31 \<le> h then
          if sz < 12 \<or> (sz - 12) mod 4 \<noteq> 0 then (deps, Some (Malformed_deps (word_of_nat sz)))
          else if length paths \<le> unat (le32 buf) then read_loop paths deps rest
          else read_loop paths
            (gput (paths ! unat (le32 buf)) (dep_inputs paths buf ((sz - 12) div 4)) deps) rest
        else
          let checksum = le32 (drop (sz - 4) buf);
              expected = NOT (word_of_nat (length paths) :: 32 word)
          in if checksum \<noteq> expected then (deps, Some (Bad_checksum (length paths) checksum expected))
             else read_loop (paths @ [strip_nul (take (sz - 4) buf)]) deps rest)"
proof -
  define size where "size = (le32 bs AND 0x7fffffff :: 32 word)"
  have sz: "unat size = unat (le32 bs) mod 2 ^ 31" by (simp add: size_def unat_head_size)
  have "size < 4 \<longleftrightarrow> unat size < 4" "size > 2 ^ 24 \<longleftrightarrow> 2 ^ 24 < unat size"
    "size < 12 \<longleftrightarrow> unat size < 12"
    by (simp_all add: word_less_nat_alt)
  moreover have "(size - 12) mod 4 \<noteq> 0 \<longleftrightarrow> (unat size - 12) mod 4 \<noteq> 0" if "\<not> unat size < 12"
  proof -
    have "unat ((size - 12) mod 4) = (unat size - 12) mod 4"
      using that by (simp add: unat_mod unat_sub word_le_nat_alt)
    then show ?thesis by (metis unat_eq_zero)
  qed
  moreover have "size = word_of_nat (unat size)" by simp
  ultimately show ?thesis
    unfolding read_loop.simps [of paths deps bs] head_is_deps size_def [symmetric] Let_def sz [symmetric]
    by auto
qed

section \<open>Reading what was encoded\<close>

lemma padded_len_ge: "n \<le> padded_len n"
  by (simp add: padded_len_def)

lemma padded_len_dvd: "padded_len n mod 4 = 0"
  by (simp add: padded_len_def)

lemma strip_nul_padded:
  "p = [] \<or> last p \<noteq> CHR 0x00 \<Longrightarrow> strip_nul (p @ replicate k (CHR 0x00)) = p"
proof -
  assume p: "p = [] \<or> last p \<noteq> CHR 0x00"
  have "dropWhile (\<lambda>c. c = CHR 0x00) (replicate k (CHR 0x00) @ rev p) = rev p"
    using p by (induction k) (cases p rule: rev_cases; simp)+
  then show ?thesis by (simp add: strip_nul_def)
qed

lemma not_id:
  "n < 2 ^ 32 \<Longrightarrow> word_of_nat (2 ^ 32 - 1 - n) = NOT (word_of_nat n :: 32 word)"
proof -
  assume n: "n < 2 ^ 32"
  have "NOT (word_of_nat n :: 32 word) = - 1 - word_of_nat n" by (simp add: not_eq_complement)
  also have "(- 1 :: 32 word) = word_of_nat (2 ^ 32 - 1)" by simp
  also have "word_of_nat (2 ^ 32 - 1) - word_of_nat n = (word_of_nat (2 ^ 32 - 1 - n) :: 32 word)"
    using n by (subst of_nat_diff) auto
  finally show ?thesis by simp
qed

lemma read_path_rec:
  assumes "rec_ok (length ps) (Path_rec p)"
  shows "read_loop ps d (encode_rec (length ps) (Path_rec p) @ bs) = read_loop (ps @ [p]) d bs"
proof -
  let ?n = "padded_len (length p)"
  let ?pad = "replicate (?n - length p) (CHR 0x00)"
  let ?sum = "enc32 (2 ^ 32 - 1 - length ps)"
  have h: "unat (le32 (enc32 (?n + 4) @ (p @ ?pad @ ?sum) @ bs)) = ?n + 4"
    using assms by (intro unat_le32_enc32) simp
  have len: "length (p @ ?pad) = ?n" using padded_len_ge [of "length p"] by simp
  have s: "(?n + 4) mod 2 ^ 31 = ?n + 4" using assms by simp
  have buf: "take (?n + 4) ((p @ ?pad) @ ?sum @ bs) = (p @ ?pad) @ ?sum"
    using len by simp
  have "le32 (drop ?n ((p @ ?pad) @ ?sum)) = NOT (word_of_nat (length ps) :: 32 word)"
    using len le32_enc32 [of "2 ^ 32 - 1 - length ps" "[]"] not_id [of "length ps"] assms by simp
  moreover have "strip_nul (take ?n ((p @ ?pad) @ ?sum)) = p"
    using len strip_nul_padded assms by simp
  ultimately show ?thesis
    using assms h s len buf
    by (subst read_loop_nat) (simp add: Let_def)
qed

lemma drop_concat_enc32: "drop (i * 4) (concat (map enc32 ins)) = concat (map enc32 (drop i ins))"
proof (induction ins arbitrary: i)
  case (Cons a ins)
  then show ?case by (cases i) auto
qed simp

lemma length_concat_enc32 [simp]: "length (concat (map enc32 ins)) = 4 * length ins"
  by (induction ins) auto

lemma concat_map_singleton: "(\<And>i. i < n \<Longrightarrow> f i = [h i]) \<Longrightarrow> concat (map f [0..<n]) = map h [0..<n]"
  by (induction n) auto

lemma dep_inputs_enc:
  assumes "length hd3 = 12" "\<forall>i \<in> set ins. i < length ps" "length ps \<le> 2 ^ 32"
  shows "dep_inputs ps (hd3 @ concat (map enc32 ins)) (length ins) = map (\<lambda>i. ps ! i) ins"
proof -
  have one: "unat (le32 (drop (12 + i * 4) (hd3 @ concat (map enc32 ins)))) = ins ! i"
    if "i < length ins" for i
  proof -
    have "drop (12 + i * 4) (hd3 @ concat (map enc32 ins)) =
        enc32 (ins ! i) @ concat (map enc32 (drop (Suc i) ins))"
      using assms(1) that by (simp add: drop_concat_enc32 Cons_nth_drop_Suc [symmetric])
    moreover have "ins ! i < 2 ^ 32" using assms(2,3) that by (meson nth_mem order_less_le_trans)
    ultimately show ?thesis by (simp add: unat_le32_enc32)
  qed
  have "dep_inputs ps (hd3 @ concat (map enc32 ins)) (length ins) =
      map (\<lambda>i. ps ! (ins ! i)) [0..<length ins]"
    unfolding dep_inputs_def using assms(2)
    by (intro concat_map_singleton) (simp add: one Let_def not_le del: drop_append)
  also have "\<dots> = map (\<lambda>i. ps ! i) (map (\<lambda>i. ins ! i) [0..<length ins])" by simp
  finally show ?thesis by (simp add: map_nth)
qed

lemma read_deps_rec:
  assumes "rec_ok (length ps) (Deps_rec out mtime ins)"
  shows "read_loop ps d (encode_rec (length ps) (Deps_rec out mtime ins) @ bs) =
    read_loop ps (gput (ps ! out) (map (\<lambda>i. ps ! i) ins) d) bs"
proof -
  let ?n = "12 + 4 * length ins"
  let ?hd3 = "enc32 out @ enc32 (mtime mod 2 ^ 32) @ enc32 (mtime div 2 ^ 32)"
  let ?ins = "concat (map enc32 ins)"
  have h: "unat (le32 (enc32 (2 ^ 31 + ?n) @ (?hd3 @ ?ins) @ bs)) = 2 ^ 31 + ?n"
    using assms by (intro unat_le32_enc32) simp
  have s: "(2 ^ 31 + ?n) mod 2 ^ 31 = ?n"
    using assms by (simp only: mod_add_self1) (simp del: mult_Suc_right)
  have buf: "take ?n ((?hd3 @ ?ins) @ bs) = ?hd3 @ ?ins" by simp
  have out: "unat (le32 (?hd3 @ ?ins)) = out"
    using assms unat_le32_enc32 [of out "enc32 (mtime mod 2 ^ 32) @ enc32 (mtime div 2 ^ 32) @ ?ins"]
    by simp
  have ins: "dep_inputs ps (?hd3 @ ?ins) (length ins) = map (\<lambda>i. ps ! i) ins"
    using assms by (intro dep_inputs_enc) auto
  have q: "(?n - 12) div 4 = length ins" "(?n - 12) mod 4 = 0" by simp_all
  have enc: "encode_rec (length ps) (Deps_rec out mtime ins) @ bs =
      enc32 (2 ^ 31 + ?n) @ (?hd3 @ ?ins) @ bs"
    by (simp add: add.assoc)
  show ?thesis
    unfolding enc read_loop_nat [of ps d "enc32 (2 ^ 31 + ?n) @ (?hd3 @ ?ins) @ bs"] Let_def h s
    using assms buf out ins q by simp
qed

lemma read_rec:
  assumes "rec_ok (length ps) r"
  shows "read_loop ps d (encode_rec (length ps) r @ bs) =
    (case replay_rec (ps, d) r of (ps', d') \<Rightarrow> read_loop ps' d' bs)"
  using assms read_path_rec [of ps _ d bs] read_deps_rec [of ps _ _ _ d bs]
  by (cases r) (simp_all del: rec_ok.simps encode_rec.simps)

lemma replay_rec_paths:
  "length (fst (replay_rec (ps, d) r)) = (case r of Path_rec p \<Rightarrow> Suc (length ps) | Deps_rec _ _ _ \<Rightarrow> length ps)"
  by (cases r) auto

lemma read_recs:
  "recs_ok (length ps) rs \<Longrightarrow>
   read_loop ps d (encode_recs (length ps) rs @ bs) =
     (case foldl replay_rec (ps, d) rs of (ps', d') \<Rightarrow> read_loop ps' d' bs)"
proof (induction rs arbitrary: ps d)
  case (Cons r rs)
  obtain ps' d' where st: "replay_rec (ps, d) r = (ps', d')" by fastforce
  have len: "(case r of Path_rec p \<Rightarrow> Suc (length ps) | Deps_rec _ _ _ \<Rightarrow> length ps) = length ps'"
    using replay_rec_paths [of ps d r] st by simp
  have "read_loop ps d (encode_recs (length ps) (r # rs) @ bs) =
      read_loop ps' d' (encode_recs (length ps') rs @ bs)"
    using Cons.prems read_rec [of ps r d "encode_recs (length ps') rs @ bs"] st len by simp
  with Cons st len show ?case by simp
qed simp

lemma read_cut_rec:
  assumes "rec_ok n r" "k < length (encode_rec n r)"
  shows "read_loop ps d (take k (encode_rec n r)) = (d, None)"
proof -
  obtain h body where enc: "encode_rec n r = enc32 h @ body" and h: "h < 2 ^ 32"
    and len: "length body = h mod 2 ^ 31" "4 \<le> h mod 2 ^ 31" "h mod 2 ^ 31 \<le> 2 ^ 24"
  proof (cases r)
    case (Path_rec p)
    show ?thesis
      using that [of "padded_len (length p) + 4"
          "p @ replicate (padded_len (length p) - length p) (CHR 0x00) @ enc32 (2 ^ 32 - 1 - n)"]
        assms(1) padded_len_ge [of "length p"] by (simp add: Path_rec)
  next
    case (Deps_rec out mtime ins)
    then have small: "12 + 4 * length ins \<le> 2 ^ 24" using assms(1) by simp
    then have "(2 ^ 31 + 12 + 4 * length ins) mod 2 ^ 31 = 12 + 4 * length ins"
      by (simp only: add.assoc mod_add_self1) (simp del: mult_Suc_right)
    with small show ?thesis
      using that [of "2 ^ 31 + 12 + 4 * length ins" "enc32 out @ enc32 (mtime mod 2 ^ 32) @
          enc32 (mtime div 2 ^ 32) @ concat (map enc32 ins)"]
      by (simp add: Deps_rec)
  qed
  show ?thesis
  proof (cases "k < 4")
    case True
    then show ?thesis by (subst read_loop_nat) simp
  next
    case False
    then have t: "take k (encode_rec n r) = enc32 h @ take (k - 4) body" by (simp add: enc)
    have "length (take (k - 4) body) < h mod 2 ^ 31"
      using assms(2) False len(1) by (simp add: enc min_def)
    moreover have "unat (le32 (enc32 h @ take (k - 4) body)) = h" using h by (rule unat_le32_enc32)
    ultimately show ?thesis
      unfolding t by (subst read_loop_nat) (simp add: Let_def)
  qed
qed

text \<open>
  C36 Reading an encoded log yields exactly the effect of its records: version 4, the inputs of every
  output as its last deps record gives them, and no error.
\<close>

theorem Read_encode:
  assumes "recs_ok 0 rs"
  shows "Read (Some (encode_log rs)) = (Some \<lparr>log_Version = 4, log_Deps = snd (replay rs)\<rparr>, None)"
proof -
  have "read_loop [] [] (encode_recs 0 rs) = (snd (replay rs), None)"
    using read_recs [of "[]" rs "[]" "[]"] assms
    by (auto simp: replay_def read_loop_nat [of _ _ "[]"] split: prod.splits)
  moreover have "le32 (enc32 4 @ encode_recs 0 rs) = 4" by (subst le32_enc32) simp_all
  ultimately show ?thesis
    by (simp add: Read_def encode_log_def log_header_def SupportedVersion_def Let_def)
qed

definition sample_log :: "nd_rec list" where
  "sample_log = [Path_rec ''a.o'', Path_rec ''a.c'', Path_rec ''b.h'', Deps_rec 0 7 [1, 2],
     Deps_rec 0 9 [1]]"

theorem Read_encode_witness:
  "Read (Some (encode_log sample_log)) =
     (Some \<lparr>log_Version = 4, log_Deps = [(''a.o'', [''a.c''])]\<rparr>, None)"
proof -
  have "recs_ok 0 sample_log" by (simp add: sample_log_def padded_len_def)
  moreover have "snd (replay sample_log) = [(''a.o'', [''a.c''])]" by code_simp
  ultimately show ?thesis using Read_encode [of sample_log] by simp
qed

lemma encode_recs_append:
  "encode_recs n (rs @ ts) =
     encode_recs n rs @ encode_recs (foldl (\<lambda>n r. case r of Path_rec p \<Rightarrow> Suc n | Deps_rec _ _ _ \<Rightarrow> n) n rs) ts"
  by (induction rs arbitrary: n) auto

lemma read_cut_recs:
  "recs_ok (length ps) rs \<Longrightarrow> k \<le> length (encode_recs (length ps) rs) \<Longrightarrow>
   \<exists>j \<le> length rs.
     read_loop ps d (take k (encode_recs (length ps) rs)) = (snd (foldl replay_rec (ps, d) (take j rs)), None) \<and>
     length (encode_recs (length ps) (take j rs)) \<le> k \<and>
     (j < length rs \<longrightarrow> k < length (encode_recs (length ps) (take (Suc j) rs)))"
proof (induction rs arbitrary: ps d k)
  case Nil
  then show ?case by (simp add: read_loop_nat)
next
  case (Cons r rs)
  obtain ps' d' where st: "replay_rec (ps, d) r = (ps', d')" by fastforce
  have len: "(case r of Path_rec p \<Rightarrow> Suc (length ps) | Deps_rec _ _ _ \<Rightarrow> length ps) = length ps'"
    using replay_rec_paths [of ps d r] st by simp
  let ?e = "encode_rec (length ps) r"
  show ?case
  proof (cases "k < length ?e")
    case True
    then have "read_loop ps d (take k (encode_recs (length ps) (r # rs))) = (d, None)"
      using read_cut_rec [of "length ps" r k ps d] Cons.prems(1) by simp
    with True show ?thesis by (intro exI [of _ 0]) simp
  next
    case False
    let ?k = "k - length ?e"
    have cut: "take k (encode_recs (length ps) (r # rs)) = ?e @ take ?k (encode_recs (length ps') rs)"
      using False len by simp
    have "?k \<le> length (encode_recs (length ps') rs)" using Cons.prems(2) len False by simp
    then obtain j where j: "j \<le> length rs"
      "read_loop ps' d' (take ?k (encode_recs (length ps') rs)) =
         (snd (foldl replay_rec (ps', d') (take j rs)), None)"
      "length (encode_recs (length ps') (take j rs)) \<le> ?k"
      "j < length rs \<longrightarrow> ?k < length (encode_recs (length ps') (take (Suc j) rs))"
      using Cons.IH [of ps' ?k d'] Cons.prems(1) len by auto
    have "read_loop ps d (take k (encode_recs (length ps) (r # rs))) =
        read_loop ps' d' (take ?k (encode_recs (length ps') rs))"
      unfolding cut using read_rec [of ps r d] Cons.prems(1) st by simp
    with j False st len show ?thesis by (intro exI [of _ "Suc j"]) auto
  qed
qed

text \<open>
  C37 A log that was cut off anywhere after its header, as a crash in the middle of a write leaves it,
  is read without error: the result is the effect of exactly the records that are complete.
\<close>

theorem Read_truncated:
  assumes "recs_ok 0 rs" "length log_header \<le> k" "k \<le> length (encode_log rs)"
  shows "\<exists>j \<le> length rs.
    Read (Some (take k (encode_log rs))) =
      (Some \<lparr>log_Version = 4, log_Deps = snd (replay (take j rs))\<rparr>, None) \<and>
    length (encode_log (take j rs)) \<le> k \<and>
    (j < length rs \<longrightarrow> k < length (encode_log (take (Suc j) rs)))"
proof -
  let ?k = "k - length log_header"
  have "?k \<le> length (encode_recs 0 rs)" using assms(3) by (simp add: encode_log_def)
  then obtain j where j: "j \<le> length rs"
    "read_loop [] [] (take ?k (encode_recs 0 rs)) = (snd (replay (take j rs)), None)"
    "length (encode_recs 0 (take j rs)) \<le> ?k"
    "j < length rs \<longrightarrow> ?k < length (encode_recs 0 (take (Suc j) rs))"
    using read_cut_recs [of "[]" rs ?k "[]"] assms(1) by (auto simp: replay_def)
  have "take k (encode_log rs) = magic @ enc32 4 @ take ?k (encode_recs 0 rs)"
    using assms(2) by (simp add: encode_log_def log_header_def)
  moreover have "le32 (enc32 4 @ take ?k (encode_recs 0 rs)) = 4" by (subst le32_enc32) simp_all
  ultimately have "Read (Some (take k (encode_log rs))) =
      (Some \<lparr>log_Version = 4, log_Deps = snd (replay (take j rs))\<rparr>, None)"
    using j(2) by (simp add: Read_def SupportedVersion_def Let_def)
  with j assms(2) show ?thesis by (auto simp: encode_log_def)
qed

theorem Read_truncated_witness:
  "\<exists>j \<le> 5. Read (Some (take 40 (encode_log sample_log))) =
     (Some \<lparr>log_Version = 4, log_Deps = snd (replay (take j sample_log))\<rparr>, None)"
proof -
  have "recs_ok 0 sample_log" by (simp add: sample_log_def padded_len_def)
  moreover have "length log_header \<le> 40" "40 \<le> length (encode_log sample_log)"
    by (simp_all add: sample_log_def encode_log_def log_header_def magic_def padded_len_def)
  moreover have "length sample_log = 5" by (simp add: sample_log_def)
  ultimately show ?thesis using Read_truncated [of sample_log 40] by auto
qed

text \<open>
  A path record whose checksum is not the complement of the next id stops the reader with an error
  that names the record; what was read before is still returned.
\<close>

theorem Read_bad_checksum:
  assumes "recs_ok 0 rs" "length (fst (replay rs)) = n" "length p mod 4 = 0" "length p + 4 \<le> 2 ^ 24"
    "c < 2 ^ 32" "word_of_nat c \<noteq> NOT (word_of_nat n :: 32 word)"
  shows "Read (Some (encode_log rs @ enc32 (length p + 4) @ p @ enc32 c @ bs)) =
    (Some \<lparr>log_Version = 4, log_Deps = snd (replay rs)\<rparr>,
     Some (Bad_checksum n (word_of_nat c) (NOT (word_of_nat n))))"
proof -
  let ?bad = "enc32 (length p + 4) @ p @ enc32 c @ bs"
  obtain ps d where st: "replay rs = (ps, d)" by fastforce
  have n: "length ps = n" using assms(2) st by simp
  have h: "unat (le32 ?bad) = length p + 4"
    using assms(4) unat_le32_enc32 [of "length p + 4" "p @ enc32 c @ bs"] by simp
  have s: "(length p + 4) mod 2 ^ 31 = length p + 4" using assms(4) by simp
  have c: "le32 (drop (length p + 4 - 4) (take (length p + 4) (drop 4 ?bad))) = word_of_nat c"
    using le32_enc32 [OF assms(5), of "[]"] by simp
  have ranges: "\<not> length ?bad < 4" "\<not> (length p + 4 < 4 \<or> 2 ^ 24 < length p + 4 \<or>
      length (drop 4 ?bad) < length p + 4)" "\<not> 2 ^ 31 \<le> length p + 4"
    using assms(4) by simp_all
  have "read_loop ps d ?bad = (d, Some (Bad_checksum n (word_of_nat c) (NOT (word_of_nat n))))"
    unfolding read_loop_nat [of ps d ?bad] Let_def h s c n using ranges assms(6)
    by (simp only: if_True if_False not_True_eq_False not_False_eq_True)
  then have "read_loop [] [] (encode_recs 0 rs @ ?bad) =
      (d, Some (Bad_checksum n (word_of_nat c) (NOT (word_of_nat n))))"
    using read_recs [of "[]" rs "[]" ?bad] assms(1) st by (simp add: replay_def)
  moreover have "le32 (enc32 4 @ encode_recs 0 rs @ ?bad) = 4" by (subst le32_enc32) simp_all
  ultimately show ?thesis
    using st by (simp add: Read_def encode_log_def log_header_def SupportedVersion_def Let_def)
qed

theorem Read_bad_checksum_witness:
  "Read (Some (encode_log [] @ enc32 8 @ ''a.cc'' @ enc32 7 @ [])) =
     (Some \<lparr>log_Version = 4, log_Deps = []\<rparr>, Some (Bad_checksum 0 7 (- 1)))"
proof -
  have "word_of_nat 7 \<noteq> NOT (word_of_nat 0 :: 32 word)" by simp
  then show ?thesis using Read_bad_checksum [of "[]" 0 "''a.cc''" 7 "[]"] by (simp add: replay_def)
qed

end
