(* ===== verification/Go_Path.thy ===== *)
theory Go_Path
  imports Go_Text
begin

text \<open>
  Go's \<^verbatim>\<open>path/filepath\<close> on Unix, for the operations the program uses. A path is cleaned component
  by component, as the documentation of \<^verbatim>\<open>filepath.Clean\<close> states; on Unix \<^verbatim>\<open>ToSlash\<close> and
  \<^verbatim>\<open>FromSlash\<close> are the identity.
\<close>

section \<open>Clean, Join, Rel\<close>

definition IsAbs :: "string \<Rightarrow> bool" where
  "IsAbs p = HasPrefix p ''/''"

text \<open>
  One component against the components kept so far, the last first: an empty component and \<^verbatim>\<open>.\<close> vanish,
  \<^verbatim>\<open>..\<close> removes the component before it, and at the root of a rooted path it vanishes too.
\<close>

fun clean_step :: "bool \<Rightarrow> string list \<Rightarrow> string \<Rightarrow> string list" where
  "clean_step rooted st c =
     (if c = [] \<or> c = ''.'' then st
      else if c = ''..'' then
        (case st of
           [] \<Rightarrow> if rooted then [] else [''..'']
         | x # xs \<Rightarrow> if x = ''..'' then ''..'' # st else xs)
      else c # st)"

definition clean_comps :: "bool \<Rightarrow> string list \<Rightarrow> string list" where
  "clean_comps rooted cs = rev (foldl (clean_step rooted) [] cs)"

definition path_comps :: "string \<Rightarrow> string list" where
  "path_comps p = clean_comps (IsAbs p) (split_byte (CHR ''/'') p)"

definition render_path :: "bool \<Rightarrow> string list \<Rightarrow> string" where
  "render_path rooted cs =
     (if rooted then ''/'' @ join_with ''/'' cs
      else if cs = [] then ''.'' else join_with ''/'' cs)"

definition Clean :: "string \<Rightarrow> string" where
  "Clean p = render_path (IsAbs p) (path_comps p)"

text \<open>\<^verbatim>\<open>filepath.Join\<close> of two elements: empty elements are ignored, the result is cleaned.\<close>

definition Join :: "string \<Rightarrow> string \<Rightarrow> string" where
  "Join a b =
     (if a \<noteq> [] then Clean (a @ ''/'' @ b) else if b \<noteq> [] then Clean b else [])"

fun strip_common :: "'a list \<Rightarrow> 'a list \<Rightarrow> 'a list \<times> 'a list" where
  "strip_common (x # xs) (y # ys) = (if x = y then strip_common xs ys else (x # xs, y # ys))"
| "strip_common xs ys = (xs, ys)"

text \<open>
  \<^verbatim>\<open>filepath.Rel\<close>, used with an absolute base: an absolute and a relative path have no relation, which
  is the error \<^const>\<open>None\<close>.
\<close>

definition Rel :: "string \<Rightarrow> string \<Rightarrow> string option" where
  "Rel base targ =
     (let b = Clean base; t = Clean targ in
      if t = b then Some ''.''
      else if IsAbs b \<noteq> IsAbs t then None
      else case strip_common (path_comps b) (path_comps t) of
             (bs, ts) \<Rightarrow>
               if bs \<noteq> [] \<and> ts \<noteq> [] \<and> hd bs = ''..'' then None
               else Some (join_with ''/'' (replicate (length bs) ''..'' @ ts)))"

text \<open>\<^verbatim>\<open>filepath.Abs\<close> with the working directory as an argument.\<close>

definition Abs_path :: "string \<Rightarrow> string \<Rightarrow> string" where
  "Abs_path cwd p = (if IsAbs p then Clean p else Join cwd p)"

text \<open>\<^verbatim>\<open>filepath.Dir\<close> and \<^verbatim>\<open>filepath.Base\<close>, for paths that do not end in a slash.\<close>

definition Dir :: "string \<Rightarrow> string" where
  "Dir p = Clean (case LastIndexByte p (CHR ''/'') of None \<Rightarrow> [] | Some i \<Rightarrow> take (Suc i) p)"

definition Base :: "string \<Rightarrow> string" where
  "Base p =
     (if p = [] then ''.''
      else let q = rev (dropWhile (\<lambda>c. c = CHR ''/'') (rev p));
               r = (case LastIndexByte q (CHR ''/'') of None \<Rightarrow> q | Some i \<Rightarrow> drop (Suc i) q)
           in if r = [] then ''/'' else r)"

section \<open>Absolute paths as lists of names\<close>

text \<open>A name is a component that cleaning keeps.\<close>

definition is_name :: "string \<Rightarrow> bool" where
  "is_name c \<longleftrightarrow> c \<noteq> [] \<and> c \<noteq> ''.'' \<and> c \<noteq> ''..'' \<and> CHR ''/'' \<notin> set c"

lemma clean_step_name [simp]: "is_name c \<Longrightarrow> clean_step r st c = c # st"
  by (simp add: is_name_def)

lemma clean_step_rooted_names:
  "\<forall>x \<in> set st. is_name x \<Longrightarrow> CHR ''/'' \<notin> set c \<Longrightarrow> \<forall>x \<in> set (clean_step True st c). is_name x"
proof (cases "is_name c")
  case False
  assume st: "\<forall>x \<in> set st. is_name x" and "CHR ''/'' \<notin> set c"
  with False consider "c = []" | "c = ''.''" | "c = ''..''" unfolding is_name_def by blast
  then show ?thesis
  proof cases
    case 3
    have no: "\<not> is_name ''..''" by (simp add: is_name_def)
    show ?thesis
    proof (cases st)
      case (Cons a list)
      with st no have "a \<noteq> ''..''" by auto
      with 3 st Cons show ?thesis by simp
    qed (use 3 in simp)
  qed (use st in simp_all)
qed (simp del: clean_step.simps)

lemma foldl_clean_names:
  "\<forall>x \<in> set st. is_name x \<Longrightarrow> \<forall>c \<in> set cs. CHR ''/'' \<notin> set c \<Longrightarrow>
     \<forall>x \<in> set (foldl (clean_step True) st cs). is_name x"
proof (induction cs arbitrary: st)
  case (Cons c cs)
  then have "\<forall>x \<in> set (clean_step True st c). is_name x"
    by (intro clean_step_rooted_names) auto
  moreover have "\<forall>c \<in> set cs. CHR ''/'' \<notin> set c" using Cons.prems(2) by simp
  ultimately show ?case unfolding foldl_Cons by (rule Cons.IH)
qed simp

lemma foldl_clean_push:
  "\<forall>c \<in> set cs. is_name c \<Longrightarrow> foldl (clean_step r) st cs = rev cs @ st"
proof (induction cs arbitrary: st)
  case (Cons c cs)
  then have "clean_step r st c = c # st" by (intro clean_step_name) simp
  with Cons show ?case by (simp del: clean_step.simps)
qed simp

lemma path_comps_names: "IsAbs p \<Longrightarrow> c \<in> set (path_comps p) \<Longrightarrow> is_name c"
  using foldl_clean_names [of "[]" "split_byte (CHR ''/'') p"] split_byte_no_sep
  by (auto simp: path_comps_def clean_comps_def)

lemma split_byte_concat: "split_byte b (u @ b # v) = split_byte b u @ split_byte b v"
  by (induction u) (auto split: list.splits)

lemma path_comps_render:
  assumes "\<forall>c \<in> set cs. is_name c"
  shows "path_comps (render_path True cs) = cs"
proof -
  have "split_byte (CHR ''/'') (''/'' @ join_with ''/'' cs) = [] # (if cs = [] then [[]] else cs)"
    using assms split_join_byte [of cs "CHR ''/''"] by (auto simp: is_name_def)
  moreover have "foldl (clean_step True) [] ([] # (if cs = [] then [[]] else cs)) = rev cs"
    using foldl_clean_push [OF assms, of True "[]"] by simp
  ultimately show ?thesis
    by (simp add: path_comps_def clean_comps_def render_path_def IsAbs_def)
qed

lemma IsAbs_render [simp]: "IsAbs (render_path True cs)"
  by (simp add: IsAbs_def render_path_def)

lemma IsAbs_Clean [simp]: "IsAbs p \<Longrightarrow> IsAbs (Clean p)"
  by (simp add: Clean_def)

lemma path_comps_Clean: "IsAbs p \<Longrightarrow> path_comps (Clean p) = path_comps p"
  using path_comps_render [of "path_comps p"] path_comps_names [of p] by (auto simp: Clean_def)

lemma Clean_idem: "IsAbs p \<Longrightarrow> Clean (Clean p) = Clean p"
  using path_comps_Clean [of p] by (simp add: Clean_def)

lemma Clean_eq_iff: "IsAbs p \<Longrightarrow> IsAbs q \<Longrightarrow> Clean p = Clean q \<longleftrightarrow> path_comps p = path_comps q"
proof
  assume "IsAbs p" "IsAbs q" "Clean p = Clean q"
  then show "path_comps p = path_comps q" using path_comps_Clean [of p] path_comps_Clean [of q] by simp
qed (simp add: Clean_def)

declare clean_step.simps [simp del]

lemma clean_step_empty [simp]: "clean_step r st [] = st" "clean_step r st ''.'' = st"
  by (simp_all add: clean_step.simps)

lemma IsAbs_append [simp]: "IsAbs a \<Longrightarrow> IsAbs (a @ s)"
  by (auto simp: IsAbs_def HasPrefix_iff)

text \<open>Joining an absolute path and a relative path of names appends the names.\<close>

lemma path_comps_join:
  assumes "IsAbs a" "\<forall>c \<in> set cs. is_name c"
  shows "path_comps (a @ ''/'' @ join_with ''/'' cs) = path_comps a @ cs"
proof -
  have "split_byte (CHR ''/'') (a @ ''/'' @ join_with ''/'' cs) =
      split_byte (CHR ''/'') a @ (if cs = [] then [[]] else cs)"
    using assms(2) split_join_byte [of cs "CHR ''/''"]
    by (auto simp: split_byte_concat is_name_def)
  moreover have "foldl (clean_step True) st (if cs = [] then [[]] else cs) = rev cs @ st" for st
    using foldl_clean_push [OF assms(2)] by simp
  moreover have "IsAbs (a @ ''/'' @ join_with ''/'' cs)" using assms(1) by simp
  ultimately show ?thesis using assms(1) by (simp add: path_comps_def clean_comps_def)
qed

lemma IsAbs_Join [simp]: "IsAbs a \<Longrightarrow> IsAbs (Join a b)"
proof -
  assume a: "IsAbs a"
  then have "a \<noteq> []" by (auto simp: IsAbs_def)
  with IsAbs_Clean [OF IsAbs_append [OF a]] show ?thesis by (simp add: Join_def)
qed

lemma Join_names:
  assumes "IsAbs a" "\<forall>c \<in> set cs. is_name c"
  shows "Join a (join_with ''/'' cs) = render_path True (path_comps a @ cs)"
proof -
  have "a \<noteq> []" using assms(1) by (auto simp: IsAbs_def)
  moreover note IsAbs_append [OF assms(1), of "''/'' @ join_with ''/'' cs"]
  ultimately show ?thesis using path_comps_join [OF assms] by (simp add: Join_def Clean_def)
qed

lemma Join_dot: "IsAbs a \<Longrightarrow> Join a ''.'' = Clean a"
proof -
  assume a: "IsAbs a"
  have "path_comps (a @ ''/.'') = path_comps a"
    using a split_byte_concat [of "CHR ''/''" a "''.''"] IsAbs_append [OF a, of "''/.''"]
    by (simp add: path_comps_def clean_comps_def)
  moreover have "a \<noteq> []" using a by (auto simp: IsAbs_def)
  moreover have "IsAbs (a @ ''/.'')" using a by simp
  ultimately show ?thesis using a by (simp add: Join_def Clean_def)
qed

section \<open>Relative paths\<close>

lemma strip_common_append: "strip_common (cs @ xs) (cs @ ys) = strip_common xs ys"
  by (induction cs) auto

lemma strip_common_parts:
  "strip_common xs ys = (xs', ys') \<Longrightarrow> \<exists>cs. xs = cs @ xs' \<and> ys = cs @ ys'"
proof (induction xs ys arbitrary: xs' ys' rule: strip_common.induct)
  case (1 x xs y ys)
  show ?case
  proof (cases "x = y")
    case True
    with 1 obtain cs where "xs = cs @ xs'" "ys = cs @ ys'" by auto
    with True show ?thesis by (intro exI [of _ "x # cs"]) simp
  next
    case False
    with 1 show ?thesis by simp
  qed
qed auto

text \<open>
  What \<open>Rel\<close> yields between absolute paths: up one level for each name of the base that is left, then
  down the names of the target that are left.
\<close>

lemma Rel_abs:
  assumes "IsAbs b" "IsAbs t" "path_comps b = cs @ bs" "path_comps t = cs @ ts"
    "bs = [] \<or> ts = [] \<or> hd bs \<noteq> hd ts"
  shows "Rel b t = Some (if bs = [] \<and> ts = [] then ''.''
    else join_with ''/'' (replicate (length bs) ''..'' @ ts))"
proof -
  have strip: "strip_common (path_comps (Clean b)) (path_comps (Clean t)) = (bs, ts)"
    unfolding path_comps_Clean [OF assms(1)] path_comps_Clean [OF assms(2)] assms(3,4) strip_common_append
    using assms(5) by (cases bs; cases ts) simp_all
  have "hd bs \<noteq> ''..''" if "bs \<noteq> []"
    using that assms(1,3) path_comps_names [of b "hd bs"] by (auto simp: is_name_def)
  moreover have "Clean t = Clean b \<longleftrightarrow> bs = [] \<and> ts = []"
    using Clean_eq_iff [OF assms(2,1)] assms(3,4,5) by auto
  ultimately show ?thesis
    using assms(1,2) strip by (auto simp: Rel_def Let_def)
qed

lemma common_prefix_split:
  obtains cs bs ts where "xs = cs @ bs" "ys = cs @ ts" "bs = [] \<or> ts = [] \<or> hd bs \<noteq> hd ts"
proof -
  have "\<exists>cs bs ts. xs = cs @ bs \<and> ys = cs @ ts \<and> (bs = [] \<or> ts = [] \<or> hd bs \<noteq> hd ts)"
  proof (induction xs ys rule: strip_common.induct)
    case (1 x xs y ys)
    show ?case
    proof (cases "x = y")
      case True
      with 1 obtain cs bs ts where "xs = cs @ bs \<and> ys = cs @ ts \<and> (bs = [] \<or> ts = [] \<or> hd bs \<noteq> hd ts)"
        by blast
      with True show ?thesis by (intro exI [of _ "x # cs"] exI [of _ bs] exI [of _ ts]) simp
    next
      case False
      then show ?thesis by (intro exI [of _ "[]"] exI [of _ "x # xs"] exI [of _ "y # ys"]) simp
    qed
  qed simp_all
  then show ?thesis using that by blast
qed

lemma join_with_hd: "cs \<noteq> [] \<Longrightarrow> \<exists>r. join_with sep cs = hd cs @ r"
  by (cases cs rule: remdups_adj.cases) auto

lemma Rel_abs_Some: "IsAbs b \<Longrightarrow> IsAbs t \<Longrightarrow> \<exists>r. Rel b t = Some r"
  by (metis Rel_abs common_prefix_split)

end
