(* ===== verification/Ingest_Paths.thy ===== *)
theory Ingest_Paths
  imports Go_Path
begin

text \<open>
  The path resolver of \<^verbatim>\<open>src/internal/ingest/paths.go\<close>: paths from compiler dumps become project-relative.
  The working directory that \<^verbatim>\<open>filepath.Abs\<close> asks the system for is an argument, \<^const>\<open>None\<close> when the
  system does not give it.
\<close>

section \<open>The resolver\<close>

record PathResolver =
  pr_BuildDir :: string
  pr_ProjectRoot :: string

record ResolvedPath =
  rp_Rel :: string
  rp_InProject :: bool

datatype path_error = Abs_builddir string | Abs_project_root string

definition abs_of :: "string option \<Rightarrow> string \<Rightarrow> string option" where
  "abs_of cwd p = (if IsAbs p then Some (Clean p) else map_option (\<lambda>d. Join d p) cwd)"

definition NewPathResolver :: "string option \<Rightarrow> string \<Rightarrow> string \<Rightarrow> path_error + PathResolver" where
  "NewPathResolver cwd buildDir projectRoot =
     (case abs_of cwd buildDir of
        None \<Rightarrow> Inl (Abs_builddir buildDir)
      | Some bAbs \<Rightarrow>
          (case abs_of cwd projectRoot of
             None \<Rightarrow> Inl (Abs_project_root projectRoot)
           | Some pAbs \<Rightarrow> Inr \<lparr>pr_BuildDir = bAbs, pr_ProjectRoot = pAbs\<rparr>))"

definition ToProjectRelative :: "PathResolver \<Rightarrow> string \<Rightarrow> ResolvedPath" where
  "ToProjectRelative pr p =
     (if p = [] then \<lparr>rp_Rel = [], rp_InProject = False\<rparr>
      else let abs = Clean (if IsAbs p then p else Join (pr_BuildDir pr) p)
           in case Rel (pr_ProjectRoot pr) abs of
                None \<Rightarrow> \<lparr>rp_Rel = p, rp_InProject = False\<rparr>
              | Some rel \<Rightarrow>
                  if HasPrefix rel ''..'' then \<lparr>rp_Rel = abs, rp_InProject = False\<rparr>
                  else \<lparr>rp_Rel = rel, rp_InProject = True\<rparr>)"

section \<open>What the resolver answers\<close>

definition resolver_ok :: "PathResolver \<Rightarrow> bool" where
  "resolver_ok pr \<longleftrightarrow> IsAbs (pr_BuildDir pr) \<and> IsAbs (pr_ProjectRoot pr)"

text \<open>The absolute path a dump path stands for.\<close>

definition dump_abs :: "PathResolver \<Rightarrow> string \<Rightarrow> string" where
  "dump_abs pr p = (if IsAbs p then p else Join (pr_BuildDir pr) p)"

lemma dump_abs_IsAbs: "resolver_ok pr \<Longrightarrow> IsAbs (dump_abs pr p)"
  by (simp add: dump_abs_def resolver_ok_def)

text \<open>The files of the project, as components below its root, that the resolver recognises.\<close>

definition recognised :: "string list \<Rightarrow> bool" where
  "recognised ts \<longleftrightarrow> ts = [] \<or> \<not> HasPrefix (hd ts) ''..''"

definition rel_of :: "string list \<Rightarrow> string" where
  "rel_of ts = (if ts = [] then ''.'' else join_with ''/'' ts)"

lemma HasPrefix_join_hd:
  "ts \<noteq> [] \<Longrightarrow> is_name (hd ts) \<Longrightarrow> HasPrefix (join_with ''/'' ts) ''..'' \<longleftrightarrow> HasPrefix (hd ts) ''..''"
proof (cases ts rule: remdups_adj.cases)
  case (3 x y xs)
  assume "is_name (hd ts)"
  with 3 obtain a b where "x = a # b" "a \<noteq> CHR ''/''" "CHR ''/'' \<notin> set b" "x \<noteq> ''.''"
    by (cases x) (auto simp: is_name_def)
  with 3 show ?thesis by (cases b) (auto simp: HasPrefix_iff)
qed auto

lemma HasPrefix_rel_of:
  "\<forall>c \<in> set ts. is_name c \<Longrightarrow> HasPrefix (rel_of ts) ''..'' \<longleftrightarrow> \<not> recognised ts"
  using HasPrefix_join_hd [of ts] by (cases "ts = []") (simp_all add: rel_of_def recognised_def HasPrefix_iff)

lemma HasPrefix_up: "HasPrefix (join_with ''/'' (replicate (Suc n) ''..'' @ ts)) ''..''"
  using join_with_hd [of "replicate (Suc n) ''..'' @ ts" "''/''"] by (auto simp: HasPrefix_iff)

lemma ToProjectRelative_under:
  assumes "resolver_ok pr" "p \<noteq> []" "path_comps (dump_abs pr p) = path_comps (pr_ProjectRoot pr) @ ts"
  shows "ToProjectRelative pr p =
    (if recognised ts then \<lparr>rp_Rel = rel_of ts, rp_InProject = True\<rparr>
     else \<lparr>rp_Rel = Clean (dump_abs pr p), rp_InProject = False\<rparr>)"
proof -
  let ?a = "dump_abs pr p"
  have a: "IsAbs ?a" and r: "IsAbs (pr_ProjectRoot pr)"
    using assms(1) dump_abs_IsAbs by (auto simp: resolver_ok_def)
  have names: "\<forall>c \<in> set ts. is_name c" using path_comps_names [OF a] assms(3) by auto
  have "Rel (pr_ProjectRoot pr) (Clean ?a) = Some (rel_of ts)"
    using Rel_abs [of "pr_ProjectRoot pr" "Clean ?a" "path_comps (pr_ProjectRoot pr)" "[]" ts]
      a r assms(3) by (simp add: path_comps_Clean rel_of_def)
  with HasPrefix_rel_of [OF names] assms(2) show ?thesis
    by (simp add: ToProjectRelative_def dump_abs_def Let_def)
qed

lemma ToProjectRelative_outside:
  assumes "resolver_ok pr" "p \<noteq> []" "\<nexists>ts. path_comps (dump_abs pr p) = path_comps (pr_ProjectRoot pr) @ ts"
  shows "ToProjectRelative pr p = \<lparr>rp_Rel = Clean (dump_abs pr p), rp_InProject = False\<rparr>"
proof -
  let ?a = "dump_abs pr p"
  have a: "IsAbs ?a" and r: "IsAbs (pr_ProjectRoot pr)"
    using assms(1) dump_abs_IsAbs by (auto simp: resolver_ok_def)
  obtain cs bs ts where s: "path_comps (pr_ProjectRoot pr) = cs @ bs" "path_comps ?a = cs @ ts"
    "bs = [] \<or> ts = [] \<or> hd bs \<noteq> hd ts" by (rule common_prefix_split)
  with assms(3) have bs: "bs \<noteq> []" by (metis append_Nil2)
  then obtain n where n: "length bs = Suc n" by (cases bs) auto
  have "Rel (pr_ProjectRoot pr) (Clean ?a) = Some (join_with ''/'' (replicate (Suc n) ''..'' @ ts))"
    using Rel_abs [of "pr_ProjectRoot pr" "Clean ?a" cs bs ts] a r s bs n by (simp add: path_comps_Clean)
  with HasPrefix_up assms(2) show ?thesis
    by (simp del: replicate.simps add: ToProjectRelative_def dump_abs_def Let_def)
qed

text \<open>
  The resolver classifies exactly by components: a dump path is in the project when its absolute
  path is the project root followed by components of which the first does not begin with two dots, and
  then the answer is those components; every other path is answered by its cleaned absolute path. In
  particular a directory such as \<^verbatim>\<open>/project2\<close> is outside \<^verbatim>\<open>/project\<close>, and a file of the project whose first
  component begins with two dots is reported as outside.
\<close>

theorem ToProjectRelative_spec:
  assumes "resolver_ok pr" "p \<noteq> []"
  shows "ToProjectRelative pr p =
    (if \<exists>ts. path_comps (dump_abs pr p) = path_comps (pr_ProjectRoot pr) @ ts \<and> recognised ts
     then \<lparr>rp_Rel = rel_of (drop (length (path_comps (pr_ProjectRoot pr))) (path_comps (dump_abs pr p))),
           rp_InProject = True\<rparr>
     else \<lparr>rp_Rel = Clean (dump_abs pr p), rp_InProject = False\<rparr>)"
proof (cases "\<exists>ts. path_comps (dump_abs pr p) = path_comps (pr_ProjectRoot pr) @ ts")
  case True
  then obtain ts where ts: "path_comps (dump_abs pr p) = path_comps (pr_ProjectRoot pr) @ ts" by blast
  show ?thesis by (simp add: ToProjectRelative_under [OF assms ts] ts)
next
  case False
  with ToProjectRelative_outside [OF assms False] show ?thesis by auto
qed

theorem ToProjectRelative_spec_witness:
  "ToProjectRelative \<lparr>pr_BuildDir = ''/p/b'', pr_ProjectRoot = ''/p''\<rparr> ''../lib/./x.c'' =
     \<lparr>rp_Rel = ''lib/x.c'', rp_InProject = True\<rparr>
   \<and> ToProjectRelative \<lparr>pr_BuildDir = ''/p/b'', pr_ProjectRoot = ''/p''\<rparr> ''/p2/x.c'' =
     \<lparr>rp_Rel = ''/p2/x.c'', rp_InProject = False\<rparr>
   \<and> ToProjectRelative \<lparr>pr_BuildDir = ''/p/b'', pr_ProjectRoot = ''/p''\<rparr> ''/p/..gen/x.c'' =
     \<lparr>rp_Rel = ''/p/..gen/x.c'', rp_InProject = False\<rparr>"
proof -
  let ?pr = "\<lparr>pr_BuildDir = ''/p/b'', pr_ProjectRoot = ''/p''\<rparr>"
  have ok: "resolver_ok ?pr" by code_simp
  have c: "path_comps (pr_ProjectRoot ?pr) = [''p'']"
    "path_comps (dump_abs ?pr ''../lib/./x.c'') = [''p'', ''lib'', ''x.c'']"
    "path_comps (dump_abs ?pr ''/p2/x.c'') = [''p2'', ''x.c'']"
    "path_comps (dump_abs ?pr ''/p/..gen/x.c'') = [''p'', ''..gen'', ''x.c'']"
    "Clean (dump_abs ?pr ''/p2/x.c'') = ''/p2/x.c''"
    "Clean (dump_abs ?pr ''/p/..gen/x.c'') = ''/p/..gen/x.c''" by code_simp+
  have r: "recognised [''lib'', ''x.c'']" "\<not> recognised [''..gen'', ''x.c'']"
    "rel_of [''lib'', ''x.c''] = ''lib/x.c''" by code_simp+
  show ?thesis
    using ToProjectRelative_spec [OF ok, of "''../lib/./x.c''"] ToProjectRelative_spec [OF ok, of "''/p2/x.c''"]
      ToProjectRelative_spec [OF ok, of "''/p/..gen/x.c''"]
    unfolding c by (simp add: r)
qed

lemma Join_rel_of:
  assumes "IsAbs a" "\<forall>c \<in> set ts. is_name c"
  shows "Join a (rel_of ts) = render_path True (path_comps a @ ts)"
  using Join_names [OF assms] Join_dot [OF assms(1)] assms(1) by (simp add: rel_of_def Clean_def)

text \<open>
  The answer for a path in the project names the same file: joined to the project root it is the
  cleaned absolute path, and resolving that path again gives the same answer.
\<close>

theorem ToProjectRelative_roundtrip:
  assumes "resolver_ok pr" "rp_InProject (ToProjectRelative pr p)"
  shows "Join (pr_ProjectRoot pr) (rp_Rel (ToProjectRelative pr p)) = Clean (dump_abs pr p) \<and>
    ToProjectRelative pr (Join (pr_ProjectRoot pr) (rp_Rel (ToProjectRelative pr p))) = ToProjectRelative pr p"
proof -
  define rel where "rel = rp_Rel (ToProjectRelative pr p)"
  let ?r = "pr_ProjectRoot pr"
  have p: "p \<noteq> []" using assms(2) by (auto simp: ToProjectRelative_def)
  have a: "IsAbs (dump_abs pr p)" and r: "IsAbs ?r"
    using assms(1) dump_abs_IsAbs by (auto simp: resolver_ok_def)
  obtain ts where ts: "path_comps (dump_abs pr p) = path_comps ?r @ ts"
    using ToProjectRelative_outside [OF assms(1) p] assms(2) by fastforce
  with ToProjectRelative_under [OF assms(1) p ts] assms(2)
  have rec: "recognised ts" and rel: "rel = rel_of ts" by (auto simp: rel_def split: if_splits)
  have "\<forall>c \<in> set ts. is_name c" using path_comps_names [OF a] ts by auto
  with Join_rel_of [OF r] a ts rel have j: "Join ?r rel = Clean (dump_abs pr p)"
    by (simp add: Clean_def)
  have "IsAbs (Clean (dump_abs pr p))" using a by simp
  then have "dump_abs pr (Join ?r rel) = Clean (dump_abs pr p)" "Join ?r rel \<noteq> []"
    by (auto simp: j dump_abs_def IsAbs_def HasPrefix_iff)
  with ToProjectRelative_under [OF assms(1), of "Join ?r rel" ts] ToProjectRelative_under [OF assms(1) p ts] a ts rec
  have "ToProjectRelative pr (Join ?r rel) = ToProjectRelative pr p"
    by (simp add: path_comps_Clean)
  with j show ?thesis by (simp add: rel_def)
qed

theorem ToProjectRelative_roundtrip_witness:
  "Join ''/p'' (rp_Rel (ToProjectRelative \<lparr>pr_BuildDir = ''/p/b'', pr_ProjectRoot = ''/p''\<rparr> ''../lib/x.c'')) =
     ''/p/lib/x.c''"
proof -
  let ?pr = "\<lparr>pr_BuildDir = ''/p/b'', pr_ProjectRoot = ''/p''\<rparr>"
  have "resolver_ok ?pr" "rp_InProject (ToProjectRelative ?pr ''../lib/x.c'')"
    "Clean (dump_abs ?pr ''../lib/x.c'') = ''/p/lib/x.c''" by code_simp+
  with ToProjectRelative_roundtrip [of ?pr "''../lib/x.c''"] show ?thesis by simp
qed

text \<open>The constructor establishes what the lemmas ask of a resolver.\<close>

lemma NewPathResolver_ok:
  assumes "NewPathResolver cwd b r = Inr pr" "\<And>d. cwd = Some d \<Longrightarrow> IsAbs d"
  shows "resolver_ok pr"
  using assms by (auto simp: NewPathResolver_def abs_of_def resolver_ok_def split: option.splits if_splits)

end
