(* ===== verification/Go_Glob.thy ===== *)
theory Go_Glob
  imports Go_Path
begin

text \<open>
  Go's \<^verbatim>\<open>filepath.Match\<close> on Unix: the chunk-wise matcher of the standard library, with UTF-8 decoding for
  \<^verbatim>\<open>?\<close> and character classes. \<^const>\<open>None\<close> is the error \<^verbatim>\<open>ErrBadPattern\<close>. The lemmas at the end say what it
  does on the two kinds of pattern the program's documentation describes.
\<close>

section \<open>Decoding a rune\<close>

definition cont_in :: "nat \<Rightarrow> nat \<Rightarrow> char \<Rightarrow> bool" where
  "cont_in lo hi c \<longleftrightarrow> lo \<le> (of_char c :: nat) \<and> (of_char c :: nat) \<le> hi"

text \<open>The rune and its width; an invalid encoding is the replacement rune with width one.\<close>

definition decode_rune :: "string \<Rightarrow> nat \<times> nat" where
  "decode_rune s =
     (let byte = (\<lambda>i. of_char (s ! i) :: nat);
          ok = (\<lambda>i lo hi. i < length s \<and> cont_in lo hi (s ! i));
          bad = (0xFFFD, if s = [] then 0 else 1)
      in if s = [] then bad
         else if byte 0 < 0x80 then (byte 0, 1)
         else if 0xC2 \<le> byte 0 \<and> byte 0 \<le> 0xDF then
           (if ok 1 0x80 0xBF then (byte 0 mod 32 * 64 + byte 1 mod 64, 2) else bad)
         else if 0xE0 \<le> byte 0 \<and> byte 0 \<le> 0xEF then
           (if ok 1 (if byte 0 = 0xE0 then 0xA0 else 0x80) (if byte 0 = 0xED then 0x9F else 0xBF) \<and>
               ok 2 0x80 0xBF
            then (byte 0 mod 16 * 4096 + byte 1 mod 64 * 64 + byte 2 mod 64, 3) else bad)
         else if 0xF0 \<le> byte 0 \<and> byte 0 \<le> 0xF4 then
           (if ok 1 (if byte 0 = 0xF0 then 0x90 else 0x80) (if byte 0 = 0xF4 then 0x8F else 0xBF) \<and>
               ok 2 0x80 0xBF \<and> ok 3 0x80 0xBF
            then (byte 0 mod 8 * 262144 + byte 1 mod 64 * 4096 + byte 2 mod 64 * 64 + byte 3 mod 64, 4)
            else bad)
         else bad)"

lemma decode_rune_width: "s \<noteq> [] \<Longrightarrow> 0 < snd (decode_rune s)"
  unfolding decode_rune_def Let_def by (simp split: if_split)

section \<open>The matcher\<close>

definition getEsc :: "string \<Rightarrow> (nat \<times> string) option" where
  "getEsc chunk =
     (if chunk = [] \<or> hd chunk = CHR ''-'' \<or> hd chunk = CHR '']'' then None
      else let c = (if hd chunk = CHR 0x5C then tl chunk else chunk)
           in if c = [] then None
              else case decode_rune c of
                     (r, n) \<Rightarrow> if (r = 0xFFFD \<and> n = 1) \<or> drop n c = [] then None else Some (r, drop n c))"

lemma getEsc_shorter: "getEsc c = Some (r, c') \<Longrightarrow> length c' < length c"
proof -
  assume g: "getEsc c = Some (r, c')"
  let ?c = "if hd c = CHR 0x5C then tl c else c"
  have "c \<noteq> []" "?c \<noteq> []" using g by (auto simp: getEsc_def Let_def split: if_splits)
  moreover from this g have "c' = drop (snd (decode_rune ?c)) ?c"
    by (simp add: getEsc_def Let_def split: if_splits prod.splits)
  ultimately show ?thesis using decode_rune_width [of ?c] by (auto split: if_splits)
qed

text \<open>The ranges of a character class up to its bracket: the rest of the chunk and whether one held the rune.\<close>

function class_loop :: "nat \<Rightarrow> string \<Rightarrow> bool \<Rightarrow> nat \<Rightarrow> (string \<times> bool) option" where
  "class_loop r chunk matched nrange =
     (if chunk \<noteq> [] \<and> hd chunk = CHR '']'' \<and> 0 < nrange then Some (tl chunk, matched)
      else case getEsc chunk of
             None \<Rightarrow> None
           | Some (lo, c1) \<Rightarrow>
               if hd c1 = CHR ''-'' then
                 (case getEsc (tl c1) of
                    None \<Rightarrow> None
                  | Some (hi, c2) \<Rightarrow> class_loop r c2 (matched \<or> (lo \<le> r \<and> r \<le> hi)) (Suc nrange))
               else class_loop r c1 (matched \<or> r = lo) (Suc nrange))"
  by pat_completeness auto

termination
proof (relation "measure (\<lambda>(r, chunk, m, n). length chunk)", goal_cases)
  case (2 r chunk m n a lo c1 b hi c2)
  then show ?case using getEsc_shorter [of chunk lo c1] getEsc_shorter [of "tl c1" hi c2] by auto
next
  case (3 r chunk m n a lo c1)
  then show ?case using getEsc_shorter [of chunk lo c1] by auto
qed simp

declare class_loop.simps [simp del]

lemma class_loop_shorter: "class_loop r c m n = Some (c', m') \<Longrightarrow> length c' < length c"
proof (induction r c m n rule: class_loop.induct)
  case (1 r c m n)
  show ?case
  proof (cases "c \<noteq> [] \<and> hd c = CHR '']'' \<and> 0 < n")
    case True
    with 1(3) show ?thesis by (subst (asm) class_loop.simps) (cases c; simp)
  next
    case False
    with 1(3) obtain lo c1 where g: "getEsc c = Some (lo, c1)"
      by (subst (asm) class_loop.simps) (auto split: option.splits)
    note l = getEsc_shorter [OF g]
    show ?thesis
    proof (cases "hd c1 = CHR ''-''")
      case True
      with False g 1(3) obtain hi c2 where g2: "getEsc (tl c1) = Some (hi, c2)"
        and "class_loop r c2 (m \<or> (lo \<le> r \<and> r \<le> hi)) (Suc n) = Some (c', m')"
        by (subst (asm) class_loop.simps) (auto split: option.splits)
      with 1(1) [OF False g refl True g2 refl] l getEsc_shorter [OF g2] show ?thesis by simp
    next
      case no: False
      with False g 1(3) have "class_loop r c1 (m \<or> r = lo) (Suc n) = Some (c', m')"
        by (subst (asm) class_loop.simps) auto
      with 1(2) [OF False g refl no] l show ?thesis by simp
    qed
  qed
qed

text \<open>
  A chunk against the head of a name. After a failure the chunk is read to its end, for its syntax
  only. The result is the error, no match, or the rest of the name.
\<close>

function matchChunk :: "bool \<Rightarrow> string \<Rightarrow> string \<Rightarrow> string option option" where
  "matchChunk failed0 chunk s =
     (if chunk = [] then Some (if failed0 then None else Some s)
      else let failed = (failed0 \<or> s = []) in
        if hd chunk = CHR ''['' then
          (let (r, n) = (if failed then (0, 0) else decode_rune s);
               c1 = tl chunk;
               negated = (c1 \<noteq> [] \<and> hd c1 = CHR 0x5E);
               c2 = (if negated then tl c1 else c1)
           in case class_loop r c2 False 0 of
                None \<Rightarrow> None
              | Some (c3, matched) \<Rightarrow> matchChunk (failed \<or> matched = negated) c3 (drop n s))
        else if hd chunk = CHR ''?'' then
          (if failed then matchChunk True (tl chunk) s
           else matchChunk (hd s = CHR ''/'') (tl chunk) (drop (snd (decode_rune s)) s))
        else if hd chunk = CHR 0x5C \<and> tl chunk = [] then None
        else let c = (if hd chunk = CHR 0x5C then tl chunk else chunk) in
          if failed then matchChunk True (tl c) s
          else matchChunk (hd c \<noteq> hd s) (tl c) (tl s))"
  by pat_completeness auto

termination
proof (relation "measure (\<lambda>(f, chunk, s). length chunk)", goal_cases)
  case (2 f chunk s failed p r n c1 negated c2 a c3 matched)
  then have "length c3 < length c2" using class_loop_shorter by metis
  moreover have "length c2 \<le> length chunk" using 2 by (auto simp: Let_def split: if_splits)
  ultimately show ?case by simp
qed (auto simp: Let_def)

declare matchChunk.simps [simp del]

fun scan_chunk :: "bool \<Rightarrow> string \<Rightarrow> string \<times> string" where
  "scan_chunk inrange [] = ([], [])"
| "scan_chunk inrange (c # p) =
     (if c = CHR 0x5C then
        (case p of
           [] \<Rightarrow> ([c], [])
         | d # q \<Rightarrow> let (a, b) = scan_chunk inrange q in (c # d # a, b))
      else if c = CHR ''*'' \<and> \<not> inrange then ([], c # p)
      else let (a, b) = scan_chunk (c = CHR ''['' \<or> (inrange \<and> c \<noteq> CHR '']'')) p in (c # a, b))"

definition scanChunk :: "string \<Rightarrow> bool \<times> string \<times> string" where
  "scanChunk p =
     (p \<noteq> [] \<and> hd p = CHR ''*'', scan_chunk False (dropWhile (\<lambda>c. c = CHR ''*'') p))"

lemma scan_chunk_parts: "scan_chunk i p = (a, b) \<Longrightarrow> p = a @ b"
  by (induction i p arbitrary: a b rule: scan_chunk.induct)
    (auto simp: Let_def split: if_splits prod.splits list.splits)

lemma scan_chunk_shorter: "length (snd (scan_chunk i p)) \<le> length p"
  using scan_chunk_parts [of i p "fst (scan_chunk i p)" "snd (scan_chunk i p)"]
  by (metis length_append le_add2 prod.collapse)

lemma scanChunk_shorter:
  assumes "p \<noteq> []" "scanChunk p = (star, chunk, rest)"
  shows "length rest < length p"
proof (cases "hd p = CHR ''*''")
  case True
  with assms(1) have "length (dropWhile (\<lambda>c. c = CHR ''*'') p) < length p"
    by (cases p) (auto simp: le_imp_less_Suc length_dropWhile_le)
  with assms(2) scan_chunk_shorter [of False "dropWhile (\<lambda>c. c = CHR ''*'') p"] show ?thesis
    by (simp add: scanChunk_def)
next
  case False
  with assms(1) obtain c q where p: "p = c # q" "c \<noteq> CHR ''*''" by (cases p) auto
  then show ?thesis using assms(2) scan_chunk_shorter
    by (auto simp: scanChunk_def Let_def le_imp_less_Suc split: if_splits prod.splits list.splits)
      (metis le_imp_less_Suc less_SucI snd_conv scan_chunk_shorter)+
qed

text \<open>The rest of a pattern is read for its syntax after a mismatch.\<close>

function syntax_ok :: "string \<Rightarrow> bool" where
  "syntax_ok p =
     (if p = [] then True
      else case scanChunk p of (_, chunk, rest) \<Rightarrow> matchChunk False chunk [] \<noteq> None \<and> syntax_ok rest)"
  by pat_completeness auto
termination by (relation "measure length") (auto simp: scanChunk_shorter [OF _ sym])

declare syntax_ok.simps [simp del]

text \<open>Where a chunk after a star may start: after one more byte, as long as that byte is no slash.\<close>

fun star_try :: "string \<Rightarrow> bool \<Rightarrow> string \<Rightarrow> string option option" where
  "star_try chunk final [] = Some None"
| "star_try chunk final (c # name) =
     (if c = CHR ''/'' then Some None
      else case matchChunk False chunk name of
             None \<Rightarrow> None
           | Some None \<Rightarrow> star_try chunk final name
           | Some (Some t) \<Rightarrow> if final \<and> t \<noteq> [] then star_try chunk final name else Some (Some t))"

function Match_path :: "string \<Rightarrow> string \<Rightarrow> bool option" where
  "Match_path pattern name =
     (if pattern = [] then Some (name = [])
      else case scanChunk pattern of
        (star, chunk, rest) \<Rightarrow>
          if star \<and> chunk = [] then Some (CHR ''/'' \<notin> set name)
          else case matchChunk False chunk name of
            None \<Rightarrow> None
          | Some m \<Rightarrow>
              if m \<noteq> None \<and> (m = Some [] \<or> rest \<noteq> []) then Match_path rest (the m)
              else case (if star then star_try chunk (rest = []) name else Some None) of
                None \<Rightarrow> None
              | Some (Some t) \<Rightarrow> Match_path rest t
              | Some None \<Rightarrow> if syntax_ok rest then Some False else None)"
  by pat_completeness auto
termination by (relation "measure (\<lambda>(p, n). length p)") (auto simp: scanChunk_shorter [OF _ sym])

declare Match_path.simps [simp del]

section \<open>Literal patterns and a trailing star\<close>

definition literal :: "string \<Rightarrow> bool" where
  "literal p \<longleftrightarrow> set p \<inter> {CHR ''*'', CHR ''?'', CHR ''['', CHR 0x5C} = {}"

lemma literal_Cons: "literal (c # p) \<longleftrightarrow> c \<noteq> CHR ''*'' \<and> c \<noteq> CHR ''?'' \<and> c \<noteq> CHR ''['' \<and> c \<noteq> CHR 0x5C \<and> literal p"
  by (auto simp: literal_def)

lemma scan_chunk_literal:
  "literal p \<Longrightarrow> scan_chunk False p = (p, [])"
  "literal p \<Longrightarrow> scan_chunk False (p @ ''*'') = (p, ''*'')"
  by (induction p) (auto simp: literal_Cons Let_def)

lemma matchChunk_failed_literal: "literal p \<Longrightarrow> matchChunk True p s = Some None"
  by (induction p arbitrary: s) (simp_all add: literal_Cons matchChunk.simps Let_def)

lemma matchChunk_literal:
  "literal p \<Longrightarrow> matchChunk False p s = Some (if HasPrefix s p then Some (drop (length p) s) else None)"
proof (induction p arbitrary: s)
  case (Cons c p)
  show ?case
  proof (cases s)
    case Nil
    with Cons.prems show ?thesis
      by (subst matchChunk.simps) (simp add: literal_Cons Let_def matchChunk_failed_literal HasPrefix_iff)
  next
    case (Cons d t)
    with Cons.prems Cons.IH [of t] show ?thesis
      by (subst matchChunk.simps, cases "c = d")
        (auto simp: literal_Cons Let_def matchChunk_failed_literal HasPrefix_iff)
  qed
qed (simp add: matchChunk.simps HasPrefix_iff)

lemma dropWhile_literal: "literal p \<Longrightarrow> dropWhile (\<lambda>c. c = CHR ''*'') (p @ s) = (if p = [] then dropWhile (\<lambda>c. c = CHR ''*'') s else p @ s)"
  by (cases p) (auto simp: literal_Cons)

lemma literal_hd: "literal p \<Longrightarrow> p \<noteq> [] \<Longrightarrow> hd p \<noteq> CHR ''*''"
  by (cases p) (auto simp: literal_Cons)

lemma Match_literal: "literal p \<Longrightarrow> Match_path p s = Some (s = p)"
proof (cases "p = []")
  case False
  assume p: "literal p"
  have sc: "scanChunk p = (False, p, [])"
    using p False dropWhile_literal [of p "[]"] by (simp add: scanChunk_def literal_hd scan_chunk_literal)
  show ?thesis
    using False p by (subst Match_path.simps)
      (auto simp: sc matchChunk_literal Match_path.simps [of "[]"] syntax_ok.simps [of "[]"] HasPrefix_iff)
qed (simp add: Match_path.simps)

lemma Match_star:
  assumes "literal p"
  shows "Match_path (p @ ''*'') s = Some (\<exists>w. s = p @ w \<and> CHR ''/'' \<notin> set w)"
proof -
  have star: "Match_path ''*'' t = Some (CHR ''/'' \<notin> set t)" for t
    by (subst Match_path.simps) (simp add: scanChunk_def)
  show ?thesis
  proof (cases "p = []")
    case False
    have sc: "scanChunk (p @ ''*'') = (False, p, ''*'')"
      using assms False by (simp add: scanChunk_def literal_hd dropWhile_literal scan_chunk_literal)
    have so: "syntax_ok ''*''"
      by (simp add: syntax_ok.simps scanChunk_def matchChunk.simps)
    show ?thesis
      by (subst Match_path.simps)
        (auto simp: sc False assms matchChunk_literal star so HasPrefix_iff)
  qed (simp add: star)
qed

lemma Match_two_stars: "literal p \<Longrightarrow> Match_path (p @ ''**'') s = Match_path (p @ ''*'') s"
proof -
  assume p: "literal p"
  have star: "Match_path ''**'' t = Some (CHR ''/'' \<notin> set t)" for t
    by (subst Match_path.simps) (simp add: scanChunk_def)
  show ?thesis
  proof (cases "p = []")
    case False
    have l: "scan_chunk False (p @ ''**'') = (p, ''**'')"
      using p by (induction p) (auto simp: literal_Cons Let_def)
    have sc: "scanChunk (p @ ''**'') = (False, p, ''**'')"
      using p False by (simp add: scanChunk_def literal_hd dropWhile_literal l)
    have so: "syntax_ok ''**''"
      by (simp add: syntax_ok.simps scanChunk_def matchChunk.simps)
    show ?thesis
      unfolding Match_star [OF p]
      by (subst Match_path.simps)
        (auto simp: sc False p matchChunk_literal star so HasPrefix_iff)
  next
    case True
    then show ?thesis using star Match_star [OF p] by simp
  qed
qed

text \<open>A literal, a star and a literal.\<close>

lemma star_try_literal:
  assumes "literal q"
  shows "star_try q True s = Some (if \<exists>w. w \<noteq> [] \<and> s = w @ q \<and> CHR ''/'' \<notin> set w then Some [] else None)"
proof (induction s)
  case (Cons c s)
  have step: "(\<exists>w. w \<noteq> [] \<and> c # s = w @ q \<and> CHR ''/'' \<notin> set w) \<longleftrightarrow>
      c \<noteq> CHR ''/'' \<and> (s = q \<or> (\<exists>w. w \<noteq> [] \<and> s = w @ q \<and> CHR ''/'' \<notin> set w))"
  proof
    assume "\<exists>w. w \<noteq> [] \<and> c # s = w @ q \<and> CHR ''/'' \<notin> set w"
    then obtain w where w: "w \<noteq> []" "c # s = w @ q" "CHR ''/'' \<notin> set w" by blast
    then obtain v where "w = c # v" by (cases w) auto
    with w show "c \<noteq> CHR ''/'' \<and> (s = q \<or> (\<exists>w. w \<noteq> [] \<and> s = w @ q \<and> CHR ''/'' \<notin> set w))"
      by (cases v) auto
  next
    assume "c \<noteq> CHR ''/'' \<and> (s = q \<or> (\<exists>w. w \<noteq> [] \<and> s = w @ q \<and> CHR ''/'' \<notin> set w))"
    then obtain v where "s = v @ q" "CHR ''/'' \<notin> set (c # v)" by auto
    then show "\<exists>w. w \<noteq> [] \<and> c # s = w @ q \<and> CHR ''/'' \<notin> set w"
      by (intro exI [of _ "c # v"]) auto
  qed
  have pre: "HasPrefix s q \<and> drop (length q) s = [] \<longleftrightarrow> s = q" by (auto simp: HasPrefix_iff)
  show ?case
    using Cons pre unfolding step by (auto simp: matchChunk_literal [OF assms])
qed simp

lemma Match_star_literal:
  assumes "literal q" "q \<noteq> []"
  shows "Match_path (CHR ''*'' # q) s = Some (\<exists>w. s = w @ q \<and> CHR ''/'' \<notin> set w)"
proof -
  have sc: "scanChunk (CHR ''*'' # q) = (True, q, [])"
    using assms dropWhile_literal [OF assms(1), of "[]"] by (simp add: scanChunk_def scan_chunk_literal)
  have ex: "(\<exists>w. s = w @ q \<and> CHR ''/'' \<notin> set w) \<longleftrightarrow>
      s = q \<or> (\<exists>w. w \<noteq> [] \<and> s = w @ q \<and> CHR ''/'' \<notin> set w)" by auto
  have pre: "HasPrefix s q \<and> drop (length q) s = [] \<longleftrightarrow> s = q" by (auto simp: HasPrefix_iff)
  show ?thesis
    unfolding ex using pre assms(2)
    by (subst Match_path.simps)
      (auto simp: sc matchChunk_literal [OF assms(1)] star_try_literal [OF assms(1)] Match_path.simps [of "[]"]
        syntax_ok.simps [of "[]"])
qed

lemma Match_literal_star_literal:
  assumes "literal p" "literal q" "q \<noteq> []"
  shows "Match_path (p @ CHR ''*'' # q) s = Some (\<exists>w. s = p @ w @ q \<and> CHR ''/'' \<notin> set w)"
proof (cases "p = []")
  case True
  then show ?thesis using Match_star_literal [OF assms(2,3)] by simp
next
  case False
  have l: "scan_chunk False (p @ CHR ''*'' # q) = (p, CHR ''*'' # q)"
    using assms(1) by (induction p) (auto simp: literal_Cons Let_def)
  have sc: "scanChunk (p @ CHR ''*'' # q) = (False, p, CHR ''*'' # q)"
    using assms(1) False by (simp add: scanChunk_def literal_hd dropWhile_literal l)
  have sc2: "scanChunk (CHR ''*'' # q) = (True, q, [])"
    using assms(2,3) dropWhile_literal [OF assms(2), of "[]"] by (simp add: scanChunk_def scan_chunk_literal)
  have so: "syntax_ok (CHR ''*'' # q)"
    by (simp add: syntax_ok.simps [of "CHR ''*'' # q"] sc2 matchChunk_literal [OF assms(2)] syntax_ok.simps [of "[]"])
  show ?thesis
    by (subst Match_path.simps)
      (auto simp: sc False matchChunk_literal [OF assms(1)] Match_star_literal [OF assms(2,3)] so HasPrefix_iff)
qed

end
