(* ===== verification/External_Glob.thy ===== *)
theory External_Glob
  imports Go_Glob
begin

text \<open>
  The patterns of \<^verbatim>\<open>--include-external\<close>, from \<^verbatim>\<open>src/internal/ingest/externalglob.go\<close>.
\<close>

record ExternalGlob =
  eg_raw :: string
  eg_prefix :: string

datatype glob_error = Empty_pattern | Not_absolute string | Inner_double_star string

definition NewExternalGlob :: "string \<Rightarrow> glob_error + ExternalGlob" where
  "NewExternalGlob raw =
     (let trimmed = TrimSpace raw
      in if trimmed = [] then Inl Empty_pattern
         else if \<not> IsAbs trimmed then Inl (Not_absolute raw)
         else case CutSuffix trimmed ''/**'' of
                Some pre \<Rightarrow> Inr \<lparr>eg_raw = raw, eg_prefix = pre\<rparr>
              | None \<Rightarrow>
                  if Contains trimmed ''**'' then Inl (Inner_double_star raw)
                  else Inr \<lparr>eg_raw = raw, eg_prefix = []\<rparr>)"

definition Match :: "ExternalGlob \<Rightarrow> string \<Rightarrow> bool" where
  "Match g absPath =
     (if eg_prefix g \<noteq> [] then
        (if absPath = eg_prefix g then True else HasPrefix absPath (eg_prefix g @ ''/''))
      else Match_path (eg_raw g) absPath = Some True)"

definition Raw :: "ExternalGlob \<Rightarrow> string" where
  "Raw g = eg_raw g"

fun MatchesAnyExternalGlob :: "string \<Rightarrow> ExternalGlob list \<Rightarrow> bool" where
  "MatchesAnyExternalGlob absPath [] = False"
| "MatchesAnyExternalGlob absPath (g # gs) =
     (if Match g absPath then True else MatchesAnyExternalGlob absPath gs)"

lemma MatchesAny_iff: "MatchesAnyExternalGlob p gs \<longleftrightarrow> (\<exists>g \<in> set gs. Match g p)"
  by (induction gs) auto

section \<open>Recursive patterns\<close>

lemma join_with_append:
  "cs \<noteq> [] \<Longrightarrow> ds \<noteq> [] \<Longrightarrow> join_with s (cs @ ds) = join_with s cs @ s @ join_with s ds"
proof (induction cs)
  case (Cons c cs)
  then show ?case by (cases cs; cases ds) auto
qed simp

lemma names_prefix_iff:
  assumes "cs \<noteq> []" "\<forall>c \<in> set cs. is_name c" "\<forall>c \<in> set qs. is_name c"
  shows "(\<exists>t. render_path True qs = render_path True cs @ ''/'' @ t) \<longleftrightarrow> (\<exists>ds. ds \<noteq> [] \<and> qs = cs @ ds)"
proof
  assume "\<exists>t. render_path True qs = render_path True cs @ ''/'' @ t"
  then obtain t where t: "render_path True qs = render_path True cs @ ''/'' @ t" by blast
  let ?b = "CHR ''/''"
  have q: "qs \<noteq> []"
  proof
    assume "qs = []"
    then have "render_path True qs = ''/''" by (simp add: render_path_def)
    moreover have "render_path True cs = CHR ''/'' # join_with ''/'' cs" by (simp add: render_path_def)
    ultimately show False using t by simp
  qed
  have "join_with ''/'' qs = join_with ''/'' cs @ ?b # t" using t by (simp add: render_path_def)
  then have "split_byte ?b (join_with ''/'' qs) = split_byte ?b (join_with ''/'' cs) @ split_byte ?b t"
    by (simp add: split_byte_concat)
  then have "qs = cs @ split_byte ?b t"
    using assms q split_join_byte [of qs ?b] split_join_byte [of cs ?b] by (auto simp: is_name_def)
  moreover have "split_byte ?b t \<noteq> []" by (cases t) (auto split: list.splits)
  ultimately show "\<exists>ds. ds \<noteq> [] \<and> qs = cs @ ds" by blast
next
  assume "\<exists>ds. ds \<noteq> [] \<and> qs = cs @ ds"
  with assms(1) show "\<exists>t. render_path True qs = render_path True cs @ ''/'' @ t"
    by (auto simp: render_path_def join_with_append)
qed

lemma TrimSpace_pattern: "IsAbs p \<Longrightarrow> TrimSpace (p @ ''/**'') = p @ ''/**''"
proof (rule TrimSpace_solid)
  assume "IsAbs p"
  then show "solid (hd (p @ ''/**''))" by (auto simp: IsAbs_def HasPrefix_iff solid_def)
qed (simp_all add: solid_def)

text \<open>
  A pattern that is a cleaned absolute directory followed by \<^verbatim>\<open>/**\<close> matches, of the cleaned absolute
  paths, exactly the directory itself and everything below it, by whole components.
\<close>

theorem ExternalGlob_recursive:
  assumes "cs \<noteq> []" "\<forall>c \<in> set cs. is_name c" "\<forall>c \<in> set qs. is_name c"
  shows "\<exists>g. NewExternalGlob (render_path True cs @ ''/**'') = Inr g \<and>
    (Match g (render_path True qs) \<longleftrightarrow> (\<exists>ds. qs = cs @ ds))"
proof -
  let ?p = "render_path True cs"
  let ?g = "\<lparr>eg_raw = ?p @ ''/**'', eg_prefix = ?p\<rparr>"
  have abs: "IsAbs (?p @ ''/**'')" by (rule IsAbs_append) simp
  have ne: "?p \<noteq> []" by (simp add: render_path_def)
  have "NewExternalGlob (?p @ ''/**'') = Inr ?g"
    using abs ne TrimSpace_pattern [of ?p]
    by (simp add: NewExternalGlob_def CutSuffix_def HasSuffix_iff)
  moreover have "Match ?g (render_path True qs) \<longleftrightarrow> (\<exists>ds. qs = cs @ ds)"
  proof -
    have "render_path True qs = ?p \<longleftrightarrow> qs = cs"
      using path_comps_render [OF assms(2)] path_comps_render [OF assms(3)] by metis
    with names_prefix_iff [OF assms] ne show ?thesis
      by (auto simp: Match_def HasPrefix_iff)
  qed
  ultimately show ?thesis by blast
qed

theorem ExternalGlob_recursive_witness:
  "\<exists>g. NewExternalGlob ''/opt/sdk/**'' = Inr g \<and> Match g ''/opt/sdk/inc/x.h''"
proof -
  have "\<exists>ds. [''opt'', ''sdk'', ''inc'', ''x.h''] = [''opt'', ''sdk''] @ ds" by simp
  moreover have "\<forall>c \<in> set [''opt'', ''sdk'', ''inc'', ''x.h'']. is_name c"
    "\<forall>c \<in> set [''opt'', ''sdk'']. is_name c" by (simp_all add: is_name_def)
  moreover have "render_path True [''opt'', ''sdk''] @ ''/**'' = ''/opt/sdk/**''"
    "render_path True [''opt'', ''sdk'', ''inc'', ''x.h''] = ''/opt/sdk/inc/x.h''" by code_simp+
  ultimately show ?thesis
    using ExternalGlob_recursive [of "[''opt'', ''sdk'']" "[''opt'', ''sdk'', ''inc'', ''x.h'']"]
    by (metis list.distinct(1))
qed

section \<open>Plain patterns\<close>

lemma set_TrimSpace: "set (TrimSpace s) \<subseteq> set s"
proof -
  have "set (trim_front rs t) \<subseteq> set t" for rs t
    using trim_front_suffix [of rs t] by (rule set_mono_suffix)
  then show ?thesis unfolding TrimSpace_def set_rev by (metis order_trans set_rev)
qed

text \<open>
  A pattern without wildcards is accepted when what is left after trimming is absolute, but it is
  matched as it was written: it matches exactly the path equal to the untrimmed text, so a pattern with
  blanks around it does not match the path it names.
\<close>

theorem ExternalGlob_plain:
  assumes "IsAbs (TrimSpace raw)" "literal raw"
  shows "\<exists>g. NewExternalGlob raw = Inr g \<and> Raw g = raw \<and> (\<forall>q. Match g q \<longleftrightarrow> q = raw) \<and>
    (Match g (TrimSpace raw) \<longleftrightarrow> TrimSpace raw = raw)"
proof -
  have "CHR ''*'' \<notin> set (TrimSpace raw)" using assms(2) set_TrimSpace [of raw] by (auto simp: literal_def)
  then have "\<not> HasSuffix (TrimSpace raw) ''/**''" "\<not> Contains (TrimSpace raw) ''**''"
    by (auto simp: HasSuffix_iff Contains_iff)
  moreover have "TrimSpace raw \<noteq> []" using assms(1) by (auto simp: IsAbs_def)
  ultimately have "NewExternalGlob raw = Inr \<lparr>eg_raw = raw, eg_prefix = []\<rparr>"
    using assms(1) by (simp add: NewExternalGlob_def CutSuffix_def)
  then show ?thesis by (auto simp: Match_def Match_literal [OF assms(2)] Raw_def)
qed

theorem ExternalGlob_plain_witness:
  "\<exists>g. NewExternalGlob '' /opt/x.h'' = Inr g \<and> \<not> Match g ''/opt/x.h''"
proof -
  have "TrimSpace '' /opt/x.h'' = ''/opt/x.h''" "IsAbs ''/opt/x.h''" "literal '' /opt/x.h''" by code_simp+
  then show ?thesis using ExternalGlob_plain [of "'' /opt/x.h''"] by auto
qed

text \<open>
  The pattern \<^verbatim>\<open>/**\<close> is accepted and is not recursive: its prefix is empty, so it is handed to
  \<^verbatim>\<open>filepath.Match\<close>, which lets it match the names directly below the root only.
\<close>

lemma ExternalGlob_root:
  "\<exists>g. NewExternalGlob ''/**'' = Inr g \<and>
     (\<forall>q. Match g q \<longleftrightarrow> (\<exists>w. q = ''/'' @ w \<and> CHR ''/'' \<notin> set w))"
proof -
  have "NewExternalGlob ''/**'' = Inr \<lparr>eg_raw = ''/**'', eg_prefix = []\<rparr>" by code_simp
  moreover have "literal ''/''" by (simp add: literal_def)
  then have "Match_path ''/**'' q = Some (\<exists>w. q = ''/'' @ w \<and> CHR ''/'' \<notin> set w)" for q
    using Match_two_stars [of "''/''" q] Match_star [of "''/''" q] by simp
  ultimately show ?thesis by (auto simp: Match_def)
qed

end
