(* ===== verification/Gcc_CI.thy ===== *)
theory Gcc_CI
  imports Go_Regex
begin

text \<open>
  The reader of GCC's \<^verbatim>\<open>.ci\<close> call-graph files, \<^verbatim>\<open>src/internal/gccdump/ci.go\<close> with the types of
  \<^verbatim>\<open>types.go\<close>. The input is the content of the file. The last section states that reading inverts
  printing, over the grammar the source gives for these files.
\<close>

section \<open>Types\<close>

record CINode =
  cin_Name :: string
  cin_DeclFile :: string
  cin_DeclLine :: int
  cin_DeclColumn :: int
  cin_StackBytes :: int
  cin_StackKind :: string
  cin_DynamicObjs :: int
  cin_IsExternal :: bool
  cin_IsIndirectPlaceholder :: bool

record CIEdge =
  cie_Source :: string
  cie_Target :: string
  cie_SiteFile :: string
  cie_SiteLine :: int
  cie_SiteColumn :: int
  cie_Indirect :: bool

record CI =
  ci_Title :: string
  ci_Nodes :: "(string, CINode) gomap"
  ci_Edges :: "CIEdge list"

section \<open>The patterns\<close>

definition ci_value_char :: rx where
  "ci_value_char =
     RAlt (RSet (\<lambda>c. c \<noteq> CHR 0x22 \<and> c \<noteq> CHR 0x5C)) (RSeq (RLit [CHR 0x5C]) (RSet is_dot))"

text \<open>\<^verbatim>\<open>(\w+)\s*:\s*"((?:[^"\\]|\\.)*)"\<close>\<close>

definition ciFieldRe :: rx where
  "ciFieldRe =
     RSeq (RCap 1 (RPlus (RSet is_word)))
       (RSeq (RStar (RSet is_blank))
         (RSeq (RLit '':'')
           (RSeq (RStar (RSet is_blank))
             (RSeq (RLit [CHR 0x22])
               (RSeq (RCap 2 (RStar ci_value_char)) (RLit [CHR 0x22]))))))"

definition ciFileLoc_tail :: rx where
  "ciFileLoc_tail =
     RSeq (RLit '':'')
       (RSeq (RCap 2 (RPlus (RSet is_digit)))
         (RSeq (RLit '':'')
           (RSeq (RCap 3 (RPlus (RSet is_digit))) REnd)))"

text \<open>\<^verbatim>\<open>^(.*?):(\d+):(\d+)$\<close>\<close>

definition ciFileLoc :: rx where
  "ciFileLoc = RSeq RBegin (RSeq (RCap 1 (RLazy (RSet is_dot))) ciFileLoc_tail)"

text \<open>\<^verbatim>\<open>^(\d+)\s+bytes\s+\((\w+)\)$\<close> and \<^verbatim>\<open>^(\d+)\s+dynamic\s+objects?$\<close>\<close>

definition ciStackRe :: rx where
  "ciStackRe =
     RSeq RBegin
       (RSeq (RCap 1 (RPlus (RSet is_digit)))
         (RSeq (RPlus (RSet is_blank))
           (RSeq (RLit ''bytes'')
             (RSeq (RPlus (RSet is_blank))
               (RSeq (RLit ''('')
                 (RSeq (RCap 2 (RPlus (RSet is_word))) (RSeq (RLit '')'') REnd)))))))"

definition ciDynRe :: rx where
  "ciDynRe =
     RSeq RBegin
       (RSeq (RCap 1 (RPlus (RSet is_digit)))
         (RSeq (RPlus (RSet is_blank))
           (RSeq (RLit ''dynamic'')
             (RSeq (RPlus (RSet is_blank))
               (RSeq (RLit ''object'') (RSeq (ROpt (RLit ''s'')) REnd))))))"

section \<open>The reader\<close>

definition esc_n :: string where
  "esc_n = [CHR 0x5C, CHR ''n'']"

definition ciFields :: "string \<Rightarrow> (string, string) gomap" where
  "ciFields line =
     foldl (\<lambda>out m.
         let v = ReplaceAll (rx_group m 2) esc_n [NL];
             v = ReplaceAll v [CHR 0x5C, CHR 0x22] [CHR 0x22]
         in gput (rx_group m 1) v out)
       [] (rx_find_all ciFieldRe line)"

text \<open>A missing key of a map of strings reads as the empty text.\<close>

definition field :: "(string, string) gomap \<Rightarrow> string \<Rightarrow> string" where
  "field fs k = gget_or [] fs k"

definition node_part :: "CINode \<Rightarrow> nat \<times> string \<Rightarrow> CINode" where
  "node_part n ip =
     (case ip of (i, part0) \<Rightarrow>
       let part = TrimSpace part0
       in if part = [] \<or> i = 0 then n
          else case (if cin_DeclFile n = [] then rx_find ciFileLoc part else None) of
            Some m \<Rightarrow>
              n\<lparr>cin_DeclFile := rx_group m 1, cin_DeclLine := fst (Atoi (rx_group m 2)),
                cin_DeclColumn := fst (Atoi (rx_group m 3))\<rparr>
          | None \<Rightarrow>
              (case rx_find ciStackRe part of
                 Some m \<Rightarrow> n\<lparr>cin_StackBytes := fst (Atoi (rx_group m 1)), cin_StackKind := rx_group m 2\<rparr>
               | None \<Rightarrow>
                   (case rx_find ciDynRe part of
                      Some m \<Rightarrow> n\<lparr>cin_DynamicObjs := fst (Atoi (rx_group m 1))\<rparr>
                    | None \<Rightarrow> n)))"

definition parseCINode :: "(string, string) gomap \<Rightarrow> string \<Rightarrow> CINode" where
  "parseCINode fs raw =
     foldl node_part
       \<lparr>cin_Name = field fs ''title'', cin_DeclFile = [], cin_DeclLine = 0, cin_DeclColumn = 0,
        cin_StackBytes = 0, cin_StackKind = [], cin_DynamicObjs = 0,
        cin_IsExternal = (Contains raw ''shape'' \<and> Contains raw ''ellipse''),
        cin_IsIndirectPlaceholder = (field fs ''title'' = ''__indirect_call'')\<rparr>
       (List.enumerate 0 (split_byte NL (field fs ''label'')))"

definition parseCIEdge :: "(string, string) gomap \<Rightarrow> CIEdge" where
  "parseCIEdge fs =
     (let e = \<lparr>cie_Source = field fs ''sourcename'', cie_Target = field fs ''targetname'',
               cie_SiteFile = [], cie_SiteLine = 0, cie_SiteColumn = 0,
               cie_Indirect = (field fs ''targetname'' = ''__indirect_call'')\<rparr>
      in case rx_find ciFileLoc (field fs ''label'') of
           Some m \<Rightarrow>
             e\<lparr>cie_SiteFile := rx_group m 1, cie_SiteLine := fst (Atoi (rx_group m 2)),
               cie_SiteColumn := fst (Atoi (rx_group m 3))\<rparr>
         | None \<Rightarrow> e)"

definition ci_line :: "CI \<Rightarrow> string \<Rightarrow> CI" where
  "ci_line ci text =
     (let line = TrimSpace text
      in if line = [] \<or> line = ''}'' then ci
         else if HasPrefix line ''graph:'' then
           (let fs = ciFields line
            in if field fs ''title'' \<noteq> [] then ci\<lparr>ci_Title := field fs ''title''\<rparr> else ci)
         else if HasPrefix line ''node:'' then
           (let n = parseCINode (ciFields line) line
            in ci\<lparr>ci_Nodes := gput (cin_Name n) n (ci_Nodes ci)\<rparr>)
         else if HasPrefix line ''edge:'' then
           ci\<lparr>ci_Edges := ci_Edges ci @ [parseCIEdge (ciFields line)]\<rparr>
         else ci)"

datatype ci_error = CI_open | CI_too_long

definition ParseCI :: "string \<Rightarrow> ci_error + CI" where
  "ParseCI content =
     (case scan_lines (1024 * 1024) content of
        (ls, too_long) \<Rightarrow>
          let ci = foldl ci_line \<lparr>ci_Title = [], ci_Nodes = [], ci_Edges = []\<rparr> ls
          in if too_long then Inl CI_too_long else Inr ci)"

text \<open>The file is given by its content, \<^const>\<open>None\<close> when it cannot be opened.\<close>

definition ParseCIFile :: "string option \<Rightarrow> ci_error + CI" where
  "ParseCIFile file = (case file of None \<Rightarrow> Inl CI_open | Some content \<Rightarrow> ParseCI content)"

section \<open>Fields of a line\<close>

text \<open>A value is a run of plain bytes and of escapes.\<close>

definition value_item :: "string \<Rightarrow> bool" where
  "value_item it \<longleftrightarrow>
     (\<exists>c. it = [c] \<and> c \<noteq> CHR 0x22 \<and> c \<noteq> CHR 0x5C) \<or> (\<exists>d. it = [CHR 0x5C, d] \<and> d \<noteq> NL)"

definition quoted :: "string \<Rightarrow> string \<Rightarrow> string" where
  "quoted k v = k @ '': '' @ [CHR 0x22] @ v @ [CHR 0x22]"

lemma value_item_match:
  "value_item it \<Longrightarrow> it \<noteq> [] \<and> hd it \<noteq> CHR 0x22 \<and>
     (\<forall>l s g. rx_match ci_value_char (l, it @ s, g) = [(rev it @ l, s, g)])"
  by (auto simp: value_item_def ci_value_char_def)

lemma ci_value_char_stops: "rx_match ci_value_char (l, CHR 0x22 # s, g) = []"
  by (simp add: ci_value_char_def)

lemma ciField_match:
  assumes "k \<noteq> []" "\<forall>c \<in> set k. is_word c" "\<forall>it \<in> set its. value_item it"
  shows "rx_match ciFieldRe (l, quoted k (concat its) @ s, []) =
    [(rev (quoted k (concat its)) @ l, s, [(2, concat its), (1, k)])]"
proof -
  let ?q = "CHR 0x22"
  let ?r5 = "RSeq (RCap 2 (RStar ci_value_char)) (RLit [?q])"
  let ?r4 = "RSeq (RLit [?q]) ?r5"
  let ?r3 = "RSeq (RStar (RSet is_blank)) ?r4"
  let ?r2 = "RSeq (RLit '':'') ?r3"
  let ?r1 = "RSeq (RStar (RSet is_blank)) ?r2"
  let ?v = "concat its @ ?q # s"
  let ?l1 = "rev k @ l"
  let ?l3 = "CHR 0x20 # CHR '':'' # ?l1"
  have r5: "rx_match ?r5 (l', ?v, g) = [(?q # rev (concat its) @ l', s, (2, concat its) # g)]" for l' g
    using seq_cap_items_run [of its "\<lambda>c. c \<noteq> ?q" ci_value_char "?q # s" g "RLit [?q]" 2 l']
      value_item_match assms(3) ci_value_char_stops by (auto simp: rx_rejects_def)
  have r4: "rx_match ?r4 (l', ?q # ?v, g) = rx_match ?r5 (?q # l', ?v, g)" for l' g
    by simp
  have rej4: "rx_rejects is_blank ?r4" by (intro rejects_RSeq rejects_RLit) simp_all
  have r3: "rx_match ?r3 (l', '' '' @ ?q # ?v, g) = rx_match ?r4 (CHR 0x20 # l', ?q # ?v, g)" for l' g
    using seq_star_set_run [of "'' ''" is_blank "?q # ?v" ?r4 l' g] rej4 by simp
  have r2: "rx_match ?r2 (l', '': '' @ ?q # ?v, g) = rx_match ?r3 (CHR '':'' # l', '' '' @ ?q # ?v, g)" for l' g
    by simp
  have rej2: "rx_rejects is_blank ?r2" by (intro rejects_RSeq rejects_RLit) simp_all
  have r1: "rx_match ?r1 (l', '': '' @ ?q # ?v, g) = rx_match ?r2 (l', '': '' @ ?q # ?v, g)" for l' g
    using seq_star_set_run [of "[]" is_blank "'': '' @ ?q # ?v" ?r2 l' g] rej2 by simp
  have rej1: "rx_rejects is_word ?r1"
    by (intro rejects_star_seq rejects_RSeq rejects_RLit) auto
  have "rx_match ciFieldRe (l, k @ '': '' @ ?q # ?v, []) = rx_match ?r1 (?l1, '': '' @ ?q # ?v, [(1, k)])"
    unfolding ciFieldRe_def using seq_cap_plus_run [OF assms(1,2) _ rej1, of "'': '' @ ?q # ?v" 1 l "[]"] by simp
  also have "\<dots> = [(?q # rev (concat its) @ ?q # ?l3, s, [(2, concat its), (1, k)])]"
    unfolding r1 r2 r3 r4 r5 by simp
  finally show ?thesis by (simp add: quoted_def)
qed

text \<open>A match needs a quote, and no brace before it.\<close>

lemma ciField_rel_shape:
  "rx_rel ciFieldRe l w t \<Longrightarrow> \<exists>u v. w = u @ CHR 0x22 # v \<and> CHR 0x22 \<notin> set u \<and> CHR 0x7B \<notin> set u"
proof -
  assume "rx_rel ciFieldRe l w t"
  then obtain k w1 where k: "w = k @ w1" "\<forall>c \<in> set k. is_word c"
    "rx_rel (RSeq (RStar (RSet is_blank)) (RSeq (RLit '':'') (RSeq (RStar (RSet is_blank))
       (RSeq (RLit [CHR 0x22]) (RSeq (RCap 2 (RStar ci_value_char)) (RLit [CHR 0x22])))))) (rev k @ l) w1 t"
    unfolding ciFieldRe_def by (drule_tac rel_seqD) (auto simp only: rel_cap_iff rx_rel_RPlus_set)
  from rel_seqD [OF k(3)] obtain b1 w1' where b1: "w1 = b1 @ w1'" "\<forall>c \<in> set b1. is_blank c"
    "rx_rel (RSeq (RLit '':'') (RSeq (RStar (RSet is_blank))
       (RSeq (RLit [CHR 0x22]) (RSeq (RCap 2 (RStar ci_value_char)) (RLit [CHR 0x22])))))
       (rev b1 @ rev k @ l) w1' t"
    by (auto simp only: rx_rel_star_set)
  from rel_seqD [OF b1(3)] obtain l2 w2 where c: "w1' = '':'' @ w2"
    "rx_rel (RSeq (RStar (RSet is_blank))
       (RSeq (RLit [CHR 0x22]) (RSeq (RCap 2 (RStar ci_value_char)) (RLit [CHR 0x22])))) l2 w2 t"
    by (auto simp only: rx_rel_RLit)
  from rel_seqD [OF c(2)] obtain b2 w3 l3 where b2: "w2 = b2 @ w3" "\<forall>c \<in> set b2. is_blank c"
    "rx_rel (RSeq (RLit [CHR 0x22]) (RSeq (RCap 2 (RStar ci_value_char)) (RLit [CHR 0x22]))) l3 w3 t"
    by (auto simp only: rx_rel_star_set)
  from rel_seqD [OF b2(3)] obtain v where v: "w3 = CHR 0x22 # v" by (auto simp only: rx_rel_RLit append_Cons append_Nil)
  note w = k(1) [unfolded b1(1) c(1) b2(1) v] k(2) b1(2) b2(2)
  have no: "\<not> is_word (CHR 0x22)" "\<not> is_word (CHR 0x7B)" "\<not> is_blank (CHR 0x22)" "\<not> is_blank (CHR 0x7B)"
    by simp_all
  have "CHR 0x22 \<notin> set (k @ b1 @ '':'' @ b2)" "CHR 0x7B \<notin> set (k @ b1 @ '':'' @ b2)"
    using w(2,3,4) no by (auto simp del: is_word.simps is_blank.simps)
  then show ?thesis using w(1) by (intro exI [of _ "k @ b1 @ '':'' @ b2"] exI [of _ v]) simp
qed

lemma ciField_no_quote: "CHR 0x22 \<notin> set s \<Longrightarrow> rx_all_from ciFieldRe l s = []"
proof (rule rx_all_none)
  assume "CHR 0x22 \<notin> set s"
  then show "rx_search ciFieldRe l s = None"
    unfolding rx_search_None_iff by (metis Un_iff ciField_rel_shape in_set_conv_decomp set_append)
qed

lemma ciField_before_brace:
  assumes "CHR 0x22 \<notin> set u"
  shows "rx_match ciFieldRe (l, u @ CHR 0x7B # s, g) = []"
proof (rule rx_no_match, intro allI impI notI)
  fix w t assume wt: "u @ CHR 0x7B # s = w @ t" and "rx_rel ciFieldRe l w t"
  then obtain a v where a: "w = a @ CHR 0x22 # v" "CHR 0x22 \<notin> set a" "CHR 0x7B \<notin> set a"
    using ciField_rel_shape by blast
  from wt a(1) have "u @ CHR 0x7B # s = a @ CHR 0x22 # v @ t" by simp
  then show False using assms a(2,3) by (auto simp: append_eq_append_conv2 Cons_eq_append_conv append_eq_Cons_conv)
qed

lemma ciField_skip_head:
  "CHR 0x22 \<notin> set u \<Longrightarrow> rx_all_from ciFieldRe l (u @ CHR 0x7B # s) = rx_all_from ciFieldRe (CHR 0x7B # rev u @ l) s"
proof (induction u arbitrary: l)
  case Nil
  show ?case using ciField_before_brace [of "[]"] by (simp add: rx_all_skip)
next
  case (Cons c u)
  then show ?case using ciField_before_brace [of "c # u" l s "[]"] by (simp add: rx_all_skip)
qed

definition field_ok :: "string \<times> string \<Rightarrow> bool" where
  "field_ok kv \<longleftrightarrow> (case kv of (k, v) \<Rightarrow>
     k \<noteq> [] \<and> (\<forall>c \<in> set k. is_word c) \<and> (\<exists>its. v = concat its \<and> (\<forall>it \<in> set its. value_item it)))"

lemma ciField_all:
  assumes "\<forall>kv \<in> set kvs. field_ok kv" "CHR 0x22 \<notin> set tail"
  shows "map (\<lambda>m. (rx_group m 1, rx_group m 2))
      (rx_all_from ciFieldRe l (concat (map (\<lambda>(k, v). '' '' @ quoted k v) kvs) @ tail)) = kvs"
  using assms(1)
proof (induction kvs arbitrary: l)
  case Nil
  then show ?case using assms(2) by (simp add: ciField_no_quote)
next
  case (Cons kv kvs)
  obtain k v where kv: "kv = (k, v)" by (cases kv)
  with Cons.prems obtain its where its: "v = concat its" "\<forall>it \<in> set its. value_item it"
    "k \<noteq> []" "\<forall>c \<in> set k. is_word c" by (auto simp: field_ok_def)
  let ?rest = "concat (map (\<lambda>(k, v). '' '' @ quoted k v) kvs) @ tail"
  have sp: "rx_match ciFieldRe (l, CHR 0x20 # s, []) = []" for s
  proof -
    have "rx_rejects (\<lambda>c. c = CHR 0x20) ciFieldRe"
      unfolding ciFieldRe_def by (intro rejects_RSeq rejects_RCap rejects_RPlus rejects_RSet) simp
    then show ?thesis by (simp add: rx_rejects_def)
  qed
  have "rx_all_from ciFieldRe (CHR 0x20 # l) (quoted k v @ ?rest) =
      \<lparr>rf_before = rev (CHR 0x20 # l), rf_text = quoted k v, rf_after = ?rest, rf_groups = [(2, v), (1, k)]\<rparr> #
      rx_all_from ciFieldRe (rev (quoted k v) @ CHR 0x20 # l) ?rest"
    using ciField_match [OF its(3,4,2), of "CHR 0x20 # l" ?rest] its(1)
    by (intro rx_all_take) (simp_all add: quoted_def)
  with Cons kv show ?case by (simp add: rx_all_skip [OF sp] rx_group_def)
qed

definition unescape :: "string \<Rightarrow> string" where
  "unescape v = ReplaceAll (ReplaceAll v esc_n [NL]) [CHR 0x5C, CHR 0x22] [CHR 0x22]"

lemma ciFields_line:
  assumes "\<forall>kv \<in> set kvs. field_ok kv" "CHR 0x22 \<notin> set tail" "CHR 0x22 \<notin> set u"
  shows "ciFields (u @ CHR 0x7B # concat (map (\<lambda>(k, v). '' '' @ quoted k v) kvs) @ tail) =
    foldl (\<lambda>out (k, v). gput k (unescape v) out) [] kvs"
proof -
  let ?line = "u @ CHR 0x7B # concat (map (\<lambda>(k, v). '' '' @ quoted k v) kvs) @ tail"
  have "map (\<lambda>m. (rx_group m 1, rx_group m 2)) (rx_find_all ciFieldRe ?line) = kvs"
    unfolding rx_find_all_def ciField_skip_head [OF assms(3)] by (rule ciField_all [OF assms(1,2)])
  then have "foldl (\<lambda>out (k, v). gput k (unescape v) out) []
      (map (\<lambda>m. (rx_group m 1, rx_group m 2)) (rx_find_all ciFieldRe ?line)) =
    foldl (\<lambda>out (k, v). gput k (unescape v) out) [] kvs" by simp
  then show ?thesis by (simp add: ciFields_def unescape_def Let_def foldl_map)
qed

section \<open>Locations\<close>

definition loc_text :: "string \<Rightarrow> nat \<Rightarrow> nat \<Rightarrow> string" where
  "loc_text f line col = f @ '':'' @ dec line @ '':'' @ dec col"

lemma dec_is_digit: "c \<in> set (dec n) \<Longrightarrow> is_digit c"
  by (drule dec_digits) (simp add: Let_def)

lemma colon_no_digit: "\<not> is_digit (CHR '':'')"
  by code_simp

lemma rel_fileLoc_tail:
  "rx_rel ciFileLoc_tail l w t \<longleftrightarrow>
     (\<exists>a b. w = '':'' @ a @ '':'' @ b \<and> a \<noteq> [] \<and> b \<noteq> [] \<and> (\<forall>c \<in> set a. is_digit c) \<and> (\<forall>c \<in> set b. is_digit c) \<and> t = [])"
  unfolding ciFileLoc_tail_def by (auto simp: rx_rel_RPlus_set)

lemma two_colons:
  assumes "u @ '':'' @ a @ '':'' @ b = v @ '':'' @ a' @ '':'' @ b'"
    "CHR '':'' \<notin> set a" "CHR '':'' \<notin> set b" "CHR '':'' \<notin> set a'" "CHR '':'' \<notin> set b'"
  shows "u = v"
proof -
  have cut: "x = y \<and> p = q" if "x @ CHR '':'' # p = y @ CHR '':'' # q" "CHR '':'' \<notin> set p" "CHR '':'' \<notin> set q"
    for x y p q :: string
    using that by (auto simp: append_eq_append_conv2 Cons_eq_append_conv append_eq_Cons_conv)
  have "u @ '':'' @ a = v @ '':'' @ a'"
    using cut [of "u @ '':'' @ a" b "v @ '':'' @ a'" b'] assms by simp
  with cut [of u a v a'] assms(2,4) show ?thesis by simp
qed

lemma find_fileLoc:
  assumes "NL \<notin> set f"
  shows "\<exists>m. rx_find ciFileLoc (loc_text f line col) = Some m \<and>
    rx_group m 1 = f \<and> rx_group m 2 = dec line \<and> rx_group m 3 = dec col"
proof -
  let ?s = "loc_text f line col"
  let ?t = "'':'' @ dec line @ '':'' @ dec col"
  define h where "h k = rx_match ciFileLoc_tail (rev (take k ?s), drop k ?s, [(1, take k ?s)])" for k
  have no: "CHR '':'' \<notin> set a" if "\<forall>c \<in> set a. is_digit c" for a :: string
    using that by (metis colon_no_digit)
  have before: "\<forall>k < length f. h k = []"
    unfolding h_def
  proof (intro allI impI rx_no_match notI)
    fix k w t assume k: "k < length f" and wt: "drop k ?s = w @ t"
      and "rx_rel ciFileLoc_tail (rev (take k ?s)) w t"
    then obtain a b where ab: "w = '':'' @ a @ '':'' @ b" "\<forall>c \<in> set a. is_digit c" "\<forall>c \<in> set b. is_digit c" "t = []"
      by (auto simp: rel_fileLoc_tail)
    have "f @ ?t = take k ?s @ '':'' @ a @ '':'' @ b"
      using wt ab append_take_drop_id [of k ?s] by (simp add: loc_text_def)
    then have "f = take k ?s"
      by (rule two_colons) (use ab no dec_is_digit in blast)+
    with k show False by (metis length_take min_less_iff_conj not_less_iff_gr_or_eq)
  qed
  have dot: "length f < Suc (length (takeWhile is_dot ?s))"
    using assms by (auto simp: loc_text_def takeWhile_append less_Suc_eq_le)
  have "rx_match ciFileLoc_tail (l, ?t, g) = [(rev ?t @ l, [], (3, dec col) # (2, dec line) # g)]" for l g
  proof -
    have "rx_match (RSeq (RCap 3 (RPlus (RSet is_digit))) REnd) (l', dec col @ [], g') =
        rx_match REnd (rev (dec col) @ l', [], (3, dec col) # g')" for l' g'
      by (rule seq_cap_plus_run) (auto simp: dec_is_digit rejects_REnd simp del: is_digit.simps)
    moreover have "rx_match (RSeq (RCap 2 (RPlus (RSet is_digit)))
          (RSeq (RLit '':'') (RSeq (RCap 3 (RPlus (RSet is_digit))) REnd))) (l', dec line @ '':'' @ dec col, g') =
        rx_match (RSeq (RLit '':'') (RSeq (RCap 3 (RPlus (RSet is_digit))) REnd))
          (rev (dec line) @ l', '':'' @ dec col, (2, dec line) # g')" for l' g'
      by (rule seq_cap_plus_run) (auto simp: dec_is_digit colon_no_digit intro!: rejects_RSeq rejects_RLit simp del: is_digit.simps)
    ultimately show ?thesis by (simp add: ciFileLoc_tail_def)
  qed
  then have hf: "h (length f) = [(rev ?t @ rev f, [], [(3, dec col), (2, dec line), (1, f)])]"
    by (simp add: h_def loc_text_def)
  obtain rest where rest: "concat (map h [0..<Suc (length (takeWhile is_dot ?s))]) = h (length f) @ rest"
    using concat_upt_first [OF dot before] by blast
  have "rx_match (RSeq (RCap 1 (RLazy (RSet is_dot))) ciFileLoc_tail) ([], ?s, []) =
      concat (map h [0..<Suc (length (takeWhile is_dot ?s))])"
    unfolding cap_lazy_list h_def by simp
  then have "rx_match (RSeq (RCap 1 (RLazy (RSet is_dot))) ciFileLoc_tail) ([], ?s, []) =
      (rev ?t @ rev f, [], [(3, dec col), (2, dec line), (1, f)]) # rest"
    unfolding rest hf by simp
  then show ?thesis
    unfolding ciFileLoc_def rx_find_anchored rx_at_def by (simp add: rx_group_def)
qed

section \<open>Printing and reading\<close>

declare is_word.simps [simp del] is_digit.simps [simp del] is_blank.simps [simp del]

lemma class_facts:
  "\<not> is_word (CHR '')'')" "\<not> is_blank (CHR ''('')" "\<not> is_blank (CHR ''b'')" "\<not> is_blank (CHR ''d'')"
  "\<not> is_blank (CHR ''o'')" "\<not> is_digit (CHR 0x20)" "is_blank (CHR 0x20)" "is_digit c \<Longrightarrow> \<not> is_blank c"
  by (code_simp, code_simp, code_simp, code_simp, code_simp, code_simp, code_simp) (auto simp: is_digit.simps is_blank.simps)

definition stack_text :: "nat \<Rightarrow> string \<Rightarrow> string" where
  "stack_text n k = dec n @ '' bytes ('' @ k @ '')''"

definition dyn_text :: "nat \<Rightarrow> string" where
  "dyn_text n = dec n @ '' dynamic objects''"

lemma blank_runs:
  "rx_rejects is_blank b \<Longrightarrow> s = [] \<or> \<not> is_blank (hd s) \<Longrightarrow>
     rx_match (RSeq (RPlus (RSet is_blank)) b) (l, CHR 0x20 # s, g) = rx_match b (CHR 0x20 # l, s, g)"
  using seq_plus_run [of "'' ''" is_blank s b l g] by (simp add: class_facts)

lemma digits_then_blank:
  assumes "rx_rejects is_blank b" "\<not> is_blank c"
  shows "rx_match (RSeq (RCap 1 (RPlus (RSet is_digit))) (RSeq (RPlus (RSet is_blank)) b))
      (l, dec n @ CHR 0x20 # c # s, g) = rx_match b (CHR 0x20 # rev (dec n) @ l, c # s, (1, dec n) # g)"
proof -
  have "rx_rejects is_digit (RSeq (RPlus (RSet is_blank)) b)"
    by (intro rejects_RSeq rejects_RPlus rejects_RSet) (auto simp: class_facts)
  then show ?thesis
    using seq_cap_plus_run [of "dec n" is_digit "CHR 0x20 # c # s" "RSeq (RPlus (RSet is_blank)) b" 1 l g]
      dec_is_digit blank_runs [OF assms(1), of "c # s"] assms(2)
    by (simp add: class_facts del: rx_match.simps)
qed

lemma find_stack:
  assumes "k \<noteq> []" "\<forall>c \<in> set k. is_word c"
  shows "\<exists>m. rx_find ciStackRe (stack_text n k) = Some m \<and> rx_group m 1 = dec n \<and> rx_group m 2 = k"
proof -
  let ?r3 = "RSeq (RLit '')'') REnd"
  let ?r2 = "RSeq (RCap 2 (RPlus (RSet is_word))) ?r3"
  let ?r1 = "RSeq (RLit ''('') ?r2"
  let ?r0 = "RSeq (RLit ''bytes'') (RSeq (RPlus (RSet is_blank)) ?r1)"
  have r2: "rx_match ?r2 (l, k @ '')'', g) = [(CHR '')'' # rev k @ l, [], (2, k) # g)]" for l g
    using seq_cap_plus_run [OF assms, of "'')''" ?r3 2 l g] by (simp add: class_facts rejects_RSeq rejects_RLit)
  have r1: "rx_match (RSeq (RPlus (RSet is_blank)) ?r1) (l, '' ('' @ k @ '')'', g) =
      rx_match ?r2 (''( '' @ l, k @ '')'', g)" for l g
    using blank_runs [of ?r1 "''('' @ k @ '')''" l g] by (simp add: class_facts rejects_RSeq rejects_RLit)
  have r0: "rx_match ?r0 (l, ''bytes ('' @ k @ '')'', g) =
      rx_match (RSeq (RPlus (RSet is_blank)) ?r1) (rev ''bytes'' @ l, '' ('' @ k @ '')'', g)" for l g
    by (simp del: rx_match.simps(6,7))
  have "\<exists>l g'. rx_match (RSeq (RCap 1 (RPlus (RSet is_digit))) (RSeq (RPlus (RSet is_blank)) ?r0))
      ([], stack_text n k, []) = [(l, [], [(2, k), (1, dec n)])]"
    using digits_then_blank [of ?r0 "CHR ''b''" "[]" n "''ytes ('' @ k @ '')''" "[]"] r0 r1 r2
    by (simp add: stack_text_def class_facts rejects_RSeq rejects_RLit del: rx_match.simps)
  then show ?thesis
    unfolding ciStackRe_def rx_find_anchored rx_at_def by (auto simp: rx_group_def simp del: rx_match.simps)
qed

lemma find_dyn:
  "rx_find ciStackRe (dyn_text n) = None"
  "\<exists>m. rx_find ciDynRe (dyn_text n) = Some m \<and> rx_group m 1 = dec n"
proof -
  let ?s1 = "RSeq (RPlus (RSet is_blank)) (RSeq (RLit ''('') (RSeq (RCap 2 (RPlus (RSet is_word))) (RSeq (RLit '')'') REnd)))"
  let ?r1 = "RSeq (RLit ''object'') (RSeq (ROpt (RLit ''s'')) REnd)"
  let ?r0 = "RSeq (RLit ''dynamic'') (RSeq (RPlus (RSet is_blank)) ?r1)"
  have "rx_match (RSeq (RLit ''bytes'') ?s1) (l, ''dynamic objects'', g) = []" for l g by simp
  then show "rx_find ciStackRe (dyn_text n) = None"
    using digits_then_blank [of "RSeq (RLit ''bytes'') ?s1" "CHR ''d''" "[]" n "''ynamic objects''" "[]"]
    unfolding ciStackRe_def rx_find_anchored rx_at_def
    by (simp add: dyn_text_def class_facts rejects_RSeq rejects_RLit del: rx_match.simps)
  have "rx_match (RSeq (RPlus (RSet is_blank)) ?r1) (l, '' objects'', g) = [(rev '' objects'' @ l, [], g)]" for l g
    using blank_runs [of ?r1 "''objects''" l g] by (simp add: class_facts rejects_RSeq rejects_RLit ROpt_def)
  then have "rx_match ?r0 (l, ''dynamic objects'', g) = [(rev ''dynamic objects'' @ l, [], g)]" for l g
    by (simp del: rx_match.simps(6,7))
  then show "\<exists>m. rx_find ciDynRe (dyn_text n) = Some m \<and> rx_group m 1 = dec n"
    using digits_then_blank [of ?r0 "CHR ''d''" "[]" n "''ynamic objects''" "[]"]
    unfolding ciDynRe_def rx_find_anchored rx_at_def
    by (simp add: dyn_text_def rx_group_def class_facts rejects_RSeq rejects_RLit del: rx_match.simps)
qed

text \<open>Text that stands in a quoted value as it is.\<close>

definition plain_text :: "string \<Rightarrow> bool" where
  "plain_text s \<longleftrightarrow> set s \<inter> {CHR 0x22, CHR 0x5C, NL, CHR 0x0D} = {}"

definition node_parts :: "CINode \<Rightarrow> string list" where
  "node_parts n =
     cin_Name n #
     (if cin_DeclFile n = [] then []
      else [loc_text (cin_DeclFile n) (nat (cin_DeclLine n)) (nat (cin_DeclColumn n))]) @
     (if cin_StackKind n = [] then []
      else [stack_text (nat (cin_StackBytes n)) (cin_StackKind n), dyn_text (nat (cin_DynamicObjs n))])"

definition fields_text :: "(string \<times> string) list \<Rightarrow> string" where
  "fields_text kvs = concat (map (\<lambda>(k, v). '' '' @ quoted k v) kvs)"

definition node_line :: "CINode \<Rightarrow> string" where
  "node_line n =
     ''node: '' @ CHR 0x7B # fields_text [(''title'', cin_Name n), (''label'', join_with esc_n (node_parts n))] @
     (if cin_IsExternal n then '' shape : ellipse }'' else '' }'')"

definition edge_line :: "CIEdge \<Rightarrow> string" where
  "edge_line e =
     ''edge: '' @ CHR 0x7B # fields_text [(''sourcename'', cie_Source e), (''targetname'', cie_Target e),
       (''label'', loc_text (cie_SiteFile e) (nat (cie_SiteLine e)) (nat (cie_SiteColumn e)))] @ '' }''"

definition graph_line :: "string \<Rightarrow> string" where
  "graph_line t = ''graph: '' @ CHR 0x7B # fields_text [(''title'', t)]"

definition int_ok :: "int \<Rightarrow> bool" where
  "int_ok i \<longleftrightarrow> 0 \<le> i \<and> i < 2 ^ 63"

text \<open>
  The nodes and edges that GCC prints. A node that is not external must not have both words the reader
  looks for anywhere in its line.
\<close>

definition node_ok :: "CINode \<Rightarrow> bool" where
  "node_ok n \<longleftrightarrow>
     plain_text (cin_Name n) \<and> plain_text (cin_DeclFile n) \<and>
     (cin_DeclFile n \<noteq> [] \<longrightarrow> solid (hd (cin_DeclFile n))) \<and>
     (cin_DeclFile n = [] \<longrightarrow> cin_DeclLine n = 0 \<and> cin_DeclColumn n = 0 \<and> cin_StackKind n = []) \<and>
     (cin_StackKind n = [] \<longrightarrow> cin_StackBytes n = 0 \<and> cin_DynamicObjs n = 0) \<and>
     (\<forall>c \<in> set (cin_StackKind n). is_word c) \<and>
     int_ok (cin_DeclLine n) \<and> int_ok (cin_DeclColumn n) \<and> int_ok (cin_StackBytes n) \<and> int_ok (cin_DynamicObjs n) \<and>
     (cin_IsIndirectPlaceholder n \<longleftrightarrow> cin_Name n = ''__indirect_call'') \<and>
     (Contains (node_line n) ''shape'' \<and> Contains (node_line n) ''ellipse'' \<longrightarrow> cin_IsExternal n)"

definition edge_ok :: "CIEdge \<Rightarrow> bool" where
  "edge_ok e \<longleftrightarrow>
     plain_text (cie_Source e) \<and> plain_text (cie_Target e) \<and> plain_text (cie_SiteFile e) \<and>
     int_ok (cie_SiteLine e) \<and> int_ok (cie_SiteColumn e) \<and>
     (cie_Indirect e \<longleftrightarrow> cie_Target e = ''__indirect_call'')"

definition ci_lines :: "CI \<Rightarrow> string list" where
  "ci_lines ci =
     graph_line (ci_Title ci) # map (\<lambda>(k, n). node_line n) (ci_Nodes ci) @ map edge_line (ci_Edges ci) @ [''}'']"

definition ci_ok :: "CI \<Rightarrow> bool" where
  "ci_ok ci \<longleftrightarrow>
     plain_text (ci_Title ci) \<and> ci_Title ci \<noteq> [] \<and> gmap_ok (ci_Nodes ci) \<and>
     (\<forall>(k, n) \<in> set (ci_Nodes ci). k = cin_Name n \<and> node_ok n) \<and>
     (\<forall>e \<in> set (ci_Edges ci). edge_ok e) \<and>
     (\<forall>l \<in> set (ci_lines ci). int (length l) < 1024 * 1024)"

lemma dec_plain: "plain_text (dec n)"
  using dec_digits [of _ n] by (fastforce simp: plain_text_def NL_def)

lemma plain_append [simp]: "plain_text (a @ b) \<longleftrightarrow> plain_text a \<and> plain_text b"
  by (auto simp: plain_text_def)

lemma plain_Cons [simp]:
  "plain_text (c # s) \<longleftrightarrow> c \<noteq> CHR 0x22 \<and> c \<noteq> CHR 0x5C \<and> c \<noteq> NL \<and> c \<noteq> CHR 0x0D \<and> plain_text s"
  by (auto simp: plain_text_def)

lemma plain_Nil [simp]: "plain_text []"
  by (simp add: plain_text_def)

lemma plain_loc: "plain_text f \<Longrightarrow> plain_text (loc_text f l c)"
  by (simp add: loc_text_def dec_plain NL_def)

lemma word_plain: "\<forall>c \<in> set k. is_word c \<Longrightarrow> plain_text k"
proof -
  have "\<not> is_word (CHR 0x22)" "\<not> is_word (CHR 0x5C)" "\<not> is_word NL" "\<not> is_word (CHR 0x0D)"
    by code_simp+
  then show "\<forall>c \<in> set k. is_word c \<Longrightarrow> plain_text k" by (auto simp: plain_text_def)
qed

lemma plain_parts: "node_ok n \<Longrightarrow> p \<in> set (node_parts n) \<Longrightarrow> plain_text p"
  by (auto simp: node_ok_def node_parts_def plain_loc stack_text_def dyn_text_def dec_plain word_plain NL_def split: if_splits)

lemma plain_items: "plain_text v \<Longrightarrow> \<exists>its. v = concat its \<and> (\<forall>it \<in> set its. value_item it)"
  by (intro exI [of _ "map (\<lambda>c. [c]) v"]) (auto simp: plain_text_def value_item_def)

lemma joined_items:
  "\<forall>p \<in> set ps. plain_text p \<Longrightarrow> \<exists>its. join_with esc_n ps = concat its \<and> (\<forall>it \<in> set its. value_item it)"
proof (induction esc_n ps rule: join_with.induct)
  case (2 w)
  then show ?case using plain_items by simp
next
  case (3 w v ws)
  then obtain its where its: "join_with esc_n (v # ws) = concat its" "\<forall>it \<in> set its. value_item it" by auto
  obtain jts where jts: "w = concat jts" "\<forall>it \<in> set jts. value_item it" using plain_items 3 by fastforce
  have "value_item esc_n" by (simp add: value_item_def esc_n_def NL_def)
  with its jts show ?case by (intro exI [of _ "jts @ esc_n # its"]) auto
qed (auto intro: exI [of _ "[]"])

lemma ReplaceAll_join:
  "\<forall>p \<in> set ps. b \<notin> set p \<Longrightarrow> ReplaceAll (join_with [b, d] ps) [b, d] new = join_with new ps"
proof (induction "[b, d]" ps rule: join_with.induct)
  case (2 w)
  then have "\<not> Contains w [b, d]" by (auto simp: Contains_iff)
  then show ?case by (simp add: ReplaceAll_absent)
next
  case (3 w v ws)
  have "b \<notin> set w \<Longrightarrow> ReplaceAll (w @ b # d # s) [b, d] new = w @ new @ ReplaceAll s [b, d] new" for s
    by (induction w) auto
  with 3 show ?case by simp
qed simp

lemma unescape_plain: "plain_text v \<Longrightarrow> unescape v = v"
proof -
  assume "plain_text v"
  then have "\<not> Contains v esc_n" "\<not> Contains v [CHR 0x5C, CHR 0x22]"
    by (auto simp: plain_text_def esc_n_def Contains_iff)
  then show ?thesis by (simp add: unescape_def ReplaceAll_absent)
qed

lemma unescape_join: "\<forall>p \<in> set ps. plain_text p \<Longrightarrow> unescape (join_with esc_n ps) = join_with [NL] ps"
proof -
  assume ps: "\<forall>p \<in> set ps. plain_text p"
  then have "ReplaceAll (join_with esc_n ps) esc_n [NL] = join_with [NL] ps"
    unfolding esc_n_def by (intro ReplaceAll_join) (auto simp: plain_text_def)
  moreover have "CHR 0x5C \<notin> set (join_with [NL] ps)"
    using ps by (induction "[NL]" ps rule: join_with.induct) (auto simp: plain_text_def NL_def)
  then have "\<not> Contains (join_with [NL] ps) [CHR 0x5C, CHR 0x22]" by (auto simp: Contains_iff)
  ultimately show ?thesis by (simp add: unescape_def ReplaceAll_absent)
qed

lemma field_simps_put:
  "field [] k = []" "field (gput k v m) k' = (if k' = k then v else field m k')"
  by (simp_all add: field_def gget_or_def)

lemma key_words:
  "\<forall>c \<in> set ''title''. is_word c" "\<forall>c \<in> set ''label''. is_word c"
  "\<forall>c \<in> set ''sourcename''. is_word c" "\<forall>c \<in> set ''targetname''. is_word c"
  by code_simp+

lemma Atoi_int: "int_ok i \<Longrightarrow> fst (Atoi (dec (nat i))) = i"
  by (subst Atoi_dec) (auto simp: int_ok_def)

lemma parse_edge:
  assumes "edge_ok e"
  shows "parseCIEdge (ciFields (edge_line e)) = e"
proof -
  let ?kvs = "[(''sourcename'', cie_Source e), (''targetname'', cie_Target e),
       (''label'', loc_text (cie_SiteFile e) (nat (cie_SiteLine e)) (nat (cie_SiteColumn e)))]"
  have p: "plain_text v" if "(k, v) \<in> set ?kvs" for k v
    using that assms by (auto simp: edge_ok_def plain_loc)
  have "\<forall>kv \<in> set ?kvs. field_ok kv"
    using p plain_items key_words by (auto simp: field_ok_def)
  then have "ciFields (edge_line e) = foldl (\<lambda>out (k, v). gput k (unescape v) out) [] ?kvs"
    unfolding edge_line_def fields_text_def by (rule ciFields_line) simp_all
  then have f: "field (ciFields (edge_line e)) ''sourcename'' = cie_Source e"
    "field (ciFields (edge_line e)) ''targetname'' = cie_Target e"
    "field (ciFields (edge_line e)) ''label'' = loc_text (cie_SiteFile e) (nat (cie_SiteLine e)) (nat (cie_SiteColumn e))"
    using assms by (simp_all add: field_simps_put unescape_plain plain_loc edge_ok_def)
  have "NL \<notin> set (cie_SiteFile e)" using assms by (simp add: edge_ok_def plain_text_def)
  from find_fileLoc [OF this] obtain m where
    "rx_find ciFileLoc (loc_text (cie_SiteFile e) (nat (cie_SiteLine e)) (nat (cie_SiteColumn e))) = Some m"
    "rx_group m 1 = cie_SiteFile e" "rx_group m 2 = dec (nat (cie_SiteLine e))"
    "rx_group m 3 = dec (nat (cie_SiteColumn e))" by blast
  with f assms show ?thesis by (simp add: parseCIEdge_def Let_def edge_ok_def Atoi_int)
qed

lemma solid_loc: "f \<noteq> [] \<Longrightarrow> solid (hd f) \<Longrightarrow> TrimSpace (loc_text f l c) = loc_text f l c"
  using dec_solid [OF last_in_set [OF dec_not_Nil [of c]]] by (intro TrimSpace_solid) (auto simp: loc_text_def)

lemma solid_dec_text: "t \<noteq> [] \<Longrightarrow> solid (last t) \<Longrightarrow> TrimSpace (dec n @ t) = dec n @ t"
  using dec_solid [OF hd_in_set [OF dec_not_Nil [of n]]] by (intro TrimSpace_solid) auto

lemma node_part_loc:
  assumes "cin_DeclFile a = []" "f \<noteq> []" "solid (hd f)" "plain_text f" "int_ok l" "int_ok c" "0 < i"
  shows "node_part a (i, loc_text f (nat l) (nat c)) =
    a\<lparr>cin_DeclFile := f, cin_DeclLine := l, cin_DeclColumn := c\<rparr>"
proof -
  obtain m where "rx_find ciFileLoc (loc_text f (nat l) (nat c)) = Some m"
    "rx_group m 1 = f" "rx_group m 2 = dec (nat l)" "rx_group m 3 = dec (nat c)"
    using find_fileLoc [of f] assms(4) by (auto simp: plain_text_def)
  moreover have "loc_text f (nat l) (nat c) \<noteq> []" by (simp add: loc_text_def)
  ultimately show ?thesis using assms by (simp add: node_part_def solid_loc Atoi_int)
qed

lemma node_part_stack:
  assumes "cin_DeclFile a \<noteq> []" "k \<noteq> []" "\<forall>c \<in> set k. is_word c" "int_ok n" "0 < i"
  shows "node_part a (i, stack_text (nat n) k) = a\<lparr>cin_StackBytes := n, cin_StackKind := k\<rparr>"
proof -
  obtain m where "rx_find ciStackRe (stack_text (nat n) k) = Some m"
    "rx_group m 1 = dec (nat n)" "rx_group m 2 = k" using find_stack [OF assms(2,3)] by blast
  moreover have "TrimSpace (stack_text (nat n) k) = stack_text (nat n) k" "stack_text (nat n) k \<noteq> []"
    unfolding stack_text_def by (rule solid_dec_text) (simp_all add: solid_def)
  ultimately show ?thesis using assms by (simp add: node_part_def Atoi_int)
qed

lemma node_part_dyn:
  assumes "cin_DeclFile a \<noteq> []" "int_ok n" "0 < i"
  shows "node_part a (i, dyn_text (nat n)) = a\<lparr>cin_DynamicObjs := n\<rparr>"
proof -
  obtain m where "rx_find ciDynRe (dyn_text (nat n)) = Some m" "rx_group m 1 = dec (nat n)"
    using find_dyn(2) by blast
  moreover have "TrimSpace (dyn_text (nat n)) = dyn_text (nat n)" "dyn_text (nat n) \<noteq> []"
    unfolding dyn_text_def by (rule solid_dec_text) (simp_all add: solid_def)
  ultimately show ?thesis using assms find_dyn(1) by (simp add: node_part_def Atoi_int)
qed

lemma node_part_first: "node_part a (0, p) = a"
  by (simp add: node_part_def)

lemma parse_node:
  assumes "node_ok n"
  shows "parseCINode (ciFields (node_line n)) (node_line n) = n"
proof -
  let ?kvs = "[(''title'', cin_Name n), (''label'', join_with esc_n (node_parts n))]"
  have parts: "\<forall>p \<in> set (node_parts n). plain_text p" using plain_parts [OF assms] by blast
  have name: "plain_text (cin_Name n)" using assms by (simp add: node_ok_def)
  have "\<forall>kv \<in> set ?kvs. field_ok kv"
    using joined_items [OF parts] plain_items [OF name] key_words by (auto simp: field_ok_def)
  then have "ciFields (node_line n) = foldl (\<lambda>out (k, v). gput k (unescape v) out) [] ?kvs"
    unfolding node_line_def fields_text_def by (rule ciFields_line) simp_all
  then have f: "field (ciFields (node_line n)) ''title'' = cin_Name n"
    "field (ciFields (node_line n)) ''label'' = join_with [NL] (node_parts n)"
    using unescape_plain [OF name] unescape_join [OF parts] by (simp_all add: field_simps_put)
  have sp: "split_byte NL (join_with [NL] (node_parts n)) = node_parts n"
    using parts by (intro split_join_byte) (auto simp: plain_text_def node_parts_def)
  have ext: "Contains (node_line n) ''shape'' \<and> Contains (node_line n) ''ellipse'' \<longleftrightarrow> cin_IsExternal n"
  proof
    assume e: "cin_IsExternal n"
    then have "node_line n = (''node: '' @ CHR 0x7B # fields_text ?kvs @ '' '') @ ''shape'' @ '' : ellipse }''"
      "node_line n = (''node: '' @ CHR 0x7B # fields_text ?kvs @ '' shape : '') @ ''ellipse'' @ '' }''"
      by (simp_all add: node_line_def)
    then show "Contains (node_line n) ''shape'' \<and> Contains (node_line n) ''ellipse''"
      unfolding Contains_iff by blast
  qed (use assms in \<open>simp add: node_ok_def\<close>)
  show ?thesis
    unfolding parseCINode_def f sp ext
    using assms
    by (cases "cin_DeclFile n = []"; cases "cin_StackKind n = []")
      (simp_all add: node_parts_def node_ok_def enumerate_eq_zip node_part_first node_part_loc node_part_stack node_part_dyn)
qed

lemma ci_line_node: "node_ok n \<Longrightarrow> ci_line ci (node_line n) = ci\<lparr>ci_Nodes := gput (cin_Name n) n (ci_Nodes ci)\<rparr>"
proof -
  assume n: "node_ok n"
  have "TrimSpace (node_line n) = node_line n"
    by (rule TrimSpace_solid) (simp_all add: node_line_def solid_def)
  moreover have "HasPrefix (node_line n) ''node:''" "node_line n \<noteq> ''}''" "node_line n \<noteq> []"
    "\<not> HasPrefix (node_line n) ''graph:''" by (simp_all add: node_line_def)
  ultimately show ?thesis using parse_node [OF n] by (simp add: ci_line_def)
qed

lemma ci_line_edge: "edge_ok e \<Longrightarrow> ci_line ci (edge_line e) = ci\<lparr>ci_Edges := ci_Edges ci @ [e]\<rparr>"
proof -
  assume e: "edge_ok e"
  have "TrimSpace (edge_line e) = edge_line e"
    by (rule TrimSpace_solid) (simp_all add: edge_line_def solid_def)
  moreover have "HasPrefix (edge_line e) ''edge:''" "edge_line e \<noteq> ''}''" "edge_line e \<noteq> []"
    "\<not> HasPrefix (edge_line e) ''graph:''" "\<not> HasPrefix (edge_line e) ''node:''"
    by (simp_all add: edge_line_def)
  ultimately show ?thesis using parse_edge [OF e] by (simp add: ci_line_def)
qed

lemma ci_line_graph: "plain_text t \<Longrightarrow> t \<noteq> [] \<Longrightarrow> ci_line ci (graph_line t) = ci\<lparr>ci_Title := t\<rparr>"
proof -
  assume t: "plain_text t" "t \<noteq> []"
  have "field_ok (''title'', t)" using plain_items [OF t(1)] key_words by (simp add: field_ok_def)
  then have "ciFields (graph_line t) = gput ''title'' (unescape t) []"
    using ciFields_line [of "[(''title'', t)]" "[]" "''graph: ''"] by (simp add: graph_line_def fields_text_def)
  moreover have "TrimSpace (graph_line t) = graph_line t"
    by (rule TrimSpace_solid) (simp_all add: graph_line_def fields_text_def quoted_def solid_def)
  moreover have "HasPrefix (graph_line t) ''graph:''" "graph_line t \<noteq> ''}''" "graph_line t \<noteq> []"
    by (simp_all add: graph_line_def)
  ultimately show ?thesis using t by (simp add: ci_line_def field_simps_put unescape_plain)
qed

lemma ci_line_close: "ci_line ci ''}'' = ci"
proof -
  have "TrimSpace ''}'' = ''}''" by code_simp
  then show ?thesis by (simp add: ci_line_def)
qed

lemma foldl_edges:
  "\<forall>e \<in> set es. edge_ok e \<Longrightarrow> foldl ci_line ci (map edge_line es) = ci\<lparr>ci_Edges := ci_Edges ci @ es\<rparr>"
  by (induction es arbitrary: ci) (simp_all add: ci_line_edge)

lemma gput_new: "k \<notin> set (gkeys m) \<Longrightarrow> gput k v m = m @ [(k, v)]"
  unfolding gput_def gkeys_def by (induction m) auto

lemma foldl_nodes:
  "\<forall>(k, n) \<in> set ns. k = cin_Name n \<and> node_ok n \<Longrightarrow> distinct (gkeys (ci_Nodes ci @ ns)) \<Longrightarrow>
     foldl ci_line ci (map (\<lambda>(k, n). node_line n) ns) = ci\<lparr>ci_Nodes := ci_Nodes ci @ ns\<rparr>"
proof (induction ns arbitrary: ci)
  case (Cons kn ns)
  obtain k n where kn: "kn = (k, n)" "k = cin_Name n" "node_ok n" using Cons.prems(1) by (cases kn) auto
  have "k \<notin> set (gkeys (ci_Nodes ci))" using Cons.prems(2) kn(1) by (auto simp: gkeys_def)
  then have "ci_line ci (node_line n) = ci\<lparr>ci_Nodes := ci_Nodes ci @ [kn]\<rparr>"
    using kn by (simp add: ci_line_node gput_new)
  with Cons.IH [of "ci\<lparr>ci_Nodes := ci_Nodes ci @ [kn]\<rparr>"] Cons.prems kn(1) show ?case
    by (simp add: gkeys_def)
qed simp

lemma quoted_plain: "plain_text k \<Longrightarrow> NL \<notin> set v \<Longrightarrow> CHR 0x0D \<notin> set v \<Longrightarrow>
    NL \<notin> set (quoted k v) \<and> CHR 0x0D \<notin> set (quoted k v)"
  by (auto simp: quoted_def plain_text_def NL_def)

lemma join_esc_plain:
  "\<forall>p \<in> set ps. plain_text p \<Longrightarrow> NL \<notin> set (join_with esc_n ps) \<and> CHR 0x0D \<notin> set (join_with esc_n ps)"
  by (induction esc_n ps rule: join_with.induct) (auto simp: plain_text_def esc_n_def NL_def)

lemma ci_lines_plain: "ci_ok ci \<Longrightarrow> l \<in> set (ci_lines ci) \<Longrightarrow> plain_line (1024 * 1024) l"
proof -
  assume ok: "ci_ok ci" and l: "l \<in> set (ci_lines ci)"
  have node: "NL \<notin> set (node_line n) \<and> CHR 0x0D \<notin> set (node_line n)" if "node_ok n" for n
  proof -
    have "\<forall>p \<in> set (node_parts n). plain_text p" using plain_parts [OF that] by blast
    moreover have "plain_text (cin_Name n)" using that by (simp add: node_ok_def)
    ultimately show ?thesis using join_esc_plain [of "node_parts n"]
      by (simp add: node_line_def fields_text_def quoted_def plain_text_def NL_def)
  qed
  have edge: "NL \<notin> set (edge_line e) \<and> CHR 0x0D \<notin> set (edge_line e)" if "edge_ok e" for e
    using that plain_loc [of "cie_SiteFile e"]
    by (simp add: edge_ok_def edge_line_def fields_text_def quoted_def plain_text_def NL_def)
  have "NL \<notin> set l \<and> CHR 0x0D \<notin> set l"
    using l ok node edge unfolding ci_lines_def ci_ok_def
    by (auto simp: graph_line_def fields_text_def quoted_def plain_text_def NL_def)
  with ok l show ?thesis by (simp add: plain_line_def ci_ok_def)
qed

text \<open>
  C38 Reading inverts printing: a call-graph file in GCC's format, with any number of node and edge
  lines, is read back as exactly its title, its nodes under their names and its edges in order.
\<close>

theorem ParseCI_roundtrip:
  assumes "ci_ok ci"
  shows "ParseCI (unlines (ci_lines ci)) = Inr ci"
proof -
  let ?z = "\<lparr>ci_Title = [], ci_Nodes = [], ci_Edges = []\<rparr>"
  have scan: "scan_lines (1024 * 1024) (unlines (ci_lines ci)) = (ci_lines ci, False)"
    using ci_lines_plain [OF assms] by (intro scan_lines_unlines) blast
  have "foldl ci_line ?z (ci_lines ci) = ci"
    using assms unfolding ci_lines_def ci_ok_def gmap_ok_def
    by (simp add: ci_line_graph foldl_nodes foldl_edges ci_line_close)
  with scan show ?thesis by (simp add: ParseCI_def)
qed

definition sample_ci :: CI where
  "sample_ci =
     \<lparr>ci_Title = ''../a.c'',
      ci_Nodes =
        [(''f'', \<lparr>cin_Name = ''f'', cin_DeclFile = ''../a.c'', cin_DeclLine = 12, cin_DeclColumn = 5,
           cin_StackBytes = 16, cin_StackKind = ''static'', cin_DynamicObjs = 0,
           cin_IsExternal = False, cin_IsIndirectPlaceholder = False\<rparr>),
         (''__indirect_call'', \<lparr>cin_Name = ''__indirect_call'', cin_DeclFile = [], cin_DeclLine = 0,
           cin_DeclColumn = 0, cin_StackBytes = 0, cin_StackKind = [], cin_DynamicObjs = 0,
           cin_IsExternal = True, cin_IsIndirectPlaceholder = True\<rparr>)],
      ci_Edges =
        [\<lparr>cie_Source = ''f'', cie_Target = ''__indirect_call'', cie_SiteFile = ''../a.c'',
          cie_SiteLine = 14, cie_SiteColumn = 3, cie_Indirect = True\<rparr>]\<rparr>"

theorem ParseCI_roundtrip_witness: "ParseCI (unlines (ci_lines sample_ci)) = Inr sample_ci"
proof -
  have "ci_ok sample_ci" by code_simp
  then show ?thesis by (rule ParseCI_roundtrip)
qed

text \<open>
  The reader tells external nodes by two words anywhere in the line, not by the \<^verbatim>\<open>shape\<close> attribute:
  a function defined in the file whose name contains both words is read as external.
\<close>

lemma parseCINode_external:
  "cin_IsExternal (parseCINode fs raw) \<longleftrightarrow> (\<exists>a b. raw = a @ ''shape'' @ b) \<and> (\<exists>a b. raw = a @ ''ellipse'' @ b)"
proof -
  have "cin_IsExternal (node_part n ip) = cin_IsExternal n" for n ip
    by (auto simp: node_part_def Let_def split: prod.split option.split)
  then have "cin_IsExternal (foldl node_part n ips) = cin_IsExternal n" for n ips
    by (induction ips arbitrary: n) auto
  then show ?thesis by (simp add: parseCINode_def Contains_iff)
qed

end
