(* ===== verification/Gcc_Cgraph.thy ===== *)
theory Gcc_Cgraph
  imports Go_Regex
begin

text \<open>
  The reader of GCC's \<^verbatim>\<open>.cgraph\<close> symbol tables, \<^verbatim>\<open>src/internal/gccdump/cgraph.go\<close>. A dump shows the same
  symbol several times, before and after each pass; the reader merges the observations. The theorems
  say that the line machine collects exactly the blocks of the dump, what the merge of all observations
  of a symbol is, and that call and reference lists are read back as they are printed.
\<close>

section \<open>Types\<close>

record Ref =
  ref_TargetLocalID :: string
  ref_Kind :: string

record Call =
  call_TargetLocalID :: string
  call_Inlined :: bool

record IndirectSite =
  is_SpeculativeCount :: int
  is_SpeculativeTargets :: "string list"

record Function =
  fn_LocalID :: string
  fn_Name :: string
  fn_LinkageName :: string
  fn_Kind :: string
  fn_Analyzed :: bool
  fn_BodyRemoved :: bool
  fn_VisibilityFlags :: "string list"
  fn_AddressTaken :: bool
  fn_FunctionFlags :: "string list"
  fn_CloneOfID :: string
  fn_Refs :: "Ref list"
  fn_Called :: "Call list"
  fn_IndirectSites :: "IndirectSite list"

record Cgraph =
  cg_TrivialNeeded :: "string list"
  cg_Symbols :: "(string, Function) gomap"

section \<open>The patterns\<close>

definition is_ident :: "char \<Rightarrow> bool" where
  "is_ident c \<longleftrightarrow> is_word c \<or> c = CHR ''.'' \<or> c = CHR ''$''"

text \<open>\<^verbatim>\<open>[A-Za-z_][\w.$]*\<close>\<close>

definition ident_rx :: rx where
  "ident_rx = RSeq (RSet is_alpha) (RStar (RSet is_ident))"

text \<open>\<^verbatim>\<open>^([A-Za-z_][\w.$]*)/(\d+)\s+\(([^)]*)\)\s*$\<close>\<close>

definition cgSymbolHeader :: rx where
  "cgSymbolHeader =
     RSeq RBegin
       (RSeq (RCap 1 ident_rx)
         (RSeq (RLit ''/'')
           (RSeq (RCap 2 (RPlus (RSet is_digit)))
             (RSeq (RPlus (RSet is_blank))
               (RSeq (RLit ''('')
                 (RSeq (RCap 3 (RStar (RSet (\<lambda>c. c \<noteq> CHR '')''))))
                   (RSeq (RLit '')'') (RSeq (RStar (RSet is_blank)) REnd))))))))"

text \<open>\<^verbatim>\<open>([A-Za-z_][\w.$]*)/(\d+)\<close>\<close>

definition cgTargetTok :: rx where
  "cgTargetTok = RSeq (RCap 1 ident_rx) (RSeq (RLit ''/'') (RCap 2 (RPlus (RSet is_digit))))"

text \<open>\<^verbatim>\<open>indirect .+ callsite,.*num speculative call targets:\s*(\d+)\<close>\<close>

definition cgIndirect :: rx where
  "cgIndirect =
     RSeq (RLit ''indirect '')
       (RSeq (RPlus (RSet is_dot))
         (RSeq (RLit '' callsite,'')
           (RSeq (RStar (RSet is_dot))
             (RSeq (RLit ''num speculative call targets:'')
               (RSeq (RStar (RSet is_blank)) (RCap 1 (RPlus (RSet is_digit))))))))"

text \<open>\<^verbatim>\<open>^Clone of ([A-Za-z_][\w.$]*)/(\d+)$\<close> and \<^verbatim>\<open>^count:\d+\<close>\<close>

definition cgCloneOf :: rx where
  "cgCloneOf =
     RSeq RBegin
       (RSeq (RLit ''Clone of '')
         (RSeq (RCap 1 ident_rx) (RSeq (RLit ''/'') (RSeq (RCap 2 (RPlus (RSet is_digit))) REnd))))"

definition cgCountTok :: rx where
  "cgCountTok = RSeq RBegin (RSeq (RLit ''count:'') (RPlus (RSet is_digit)))"

section \<open>Call and reference lists\<close>

text \<open>
  The text after each token up to the next token. The source takes it by index from the line; a match
  here carries the text before and after it.
\<close>

fun with_tails :: "rx_found list \<Rightarrow> (rx_found \<times> string) list" where
  "with_tails [] = []"
| "with_tails [m] = [(m, rf_after m)]"
| "with_tails (m # m' # ms) =
     (m, take (length (rf_before m') - (length (rf_before m) + length (rf_text m))) (rf_after m))
     # with_tails (m' # ms)"

definition ref_kind :: "string \<Rightarrow> string" where
  "ref_kind tail =
     (case Index tail ''('' of
        None \<Rightarrow> []
      | Some lp \<Rightarrow>
          (case Index (drop lp tail) '')'' of
             None \<Rightarrow> []
           | Some rp \<Rightarrow> if 0 < rp then take (rp - 1) (drop (lp + 1) tail) else []))"

definition parseRefList :: "string \<Rightarrow> Ref list" where
  "parseRefList s =
     map (\<lambda>(m, tail). \<lparr>ref_TargetLocalID = rx_group m 2, ref_Kind = ref_kind tail\<rparr>)
       (with_tails (rx_find_all cgTargetTok s))"

definition parseCallList :: "string \<Rightarrow> Call list" where
  "parseCallList s =
     map (\<lambda>(m, tail). \<lparr>call_TargetLocalID = rx_group m 2, call_Inlined = Contains tail ''(inlined)''\<rparr>)
       (with_tails (rx_find_all cgTargetTok s))"

section \<open>Merging observations\<close>

text \<open>Lists: the later one when it is not empty and not shorter.\<close>

definition keep_longer :: "'a list \<Rightarrow> 'a list \<Rightarrow> 'a list" where
  "keep_longer prev obs = (if length prev \<le> length obs \<and> 0 < length obs then obs else prev)"

definition merge_into :: "Function \<Rightarrow> Function \<Rightarrow> Function" where
  "merge_into prev obs = prev
     \<lparr>fn_Name := if fn_Name obs \<noteq> [] then fn_Name obs else fn_Name prev,
      fn_LinkageName := if fn_LinkageName obs \<noteq> [] then fn_LinkageName obs else fn_LinkageName prev,
      fn_Kind := if fn_Kind obs \<noteq> [] then fn_Kind obs else fn_Kind prev,
      fn_Analyzed := fn_Analyzed prev \<or> fn_Analyzed obs,
      fn_BodyRemoved := fn_BodyRemoved prev \<or> fn_BodyRemoved obs,
      fn_AddressTaken := fn_AddressTaken prev \<or> fn_AddressTaken obs,
      fn_CloneOfID := if fn_CloneOfID obs \<noteq> [] then fn_CloneOfID obs else fn_CloneOfID prev,
      fn_VisibilityFlags := keep_longer (fn_VisibilityFlags prev) (fn_VisibilityFlags obs),
      fn_FunctionFlags := keep_longer (fn_FunctionFlags prev) (fn_FunctionFlags obs),
      fn_Refs := keep_longer (fn_Refs prev) (fn_Refs obs),
      fn_Called := keep_longer (fn_Called prev) (fn_Called obs),
      fn_IndirectSites := keep_longer (fn_IndirectSites prev) (fn_IndirectSites obs)\<rparr>"

definition mergeSymbol :: "(string, Function) gomap \<Rightarrow> Function \<Rightarrow> (string, Function) gomap" where
  "mergeSymbol dst obs =
     (case gget dst (fn_LocalID obs) of
        None \<Rightarrow> gput (fn_LocalID obs) obs dst
      | Some prev \<Rightarrow> gput (fn_LocalID obs) (merge_into prev obs) dst)"

section \<open>The line machine\<close>

definition flag_tokens :: "string list \<Rightarrow> string list" where
  "flag_tokens toks =
     filter (\<lambda>tok. \<not> rx_test cgCountTok tok \<and> \<not> (HasPrefix tok ''('' \<or> HasSuffix tok '')'')) toks"

text \<open>One indented line of a block.\<close>

definition block_line :: "string \<Rightarrow> Function \<Rightarrow> Function" where
  "block_line trimmed cur =
     (if HasPrefix trimmed ''Type:'' then
        (let t = TrimSpace (TrimPrefix trimmed ''Type:'');
             toks = Fields t;
             cur = (if toks \<noteq> [] then cur\<lparr>fn_Kind := hd toks\<rparr> else cur)
         in cur\<lparr>fn_Analyzed := Contains t ''definition analyzed''\<rparr>)
      else if HasPrefix trimmed ''Body removed'' then cur\<lparr>fn_BodyRemoved := True\<rparr>
      else if HasPrefix trimmed ''Visibility:'' then
        cur\<lparr>fn_VisibilityFlags := Fields (TrimSpace (TrimPrefix trimmed ''Visibility:''))\<rparr>
      else if trimmed = ''Address is taken.'' then cur\<lparr>fn_AddressTaken := True\<rparr>
      else if HasPrefix trimmed ''Function flags:'' then
        cur\<lparr>fn_FunctionFlags := fn_FunctionFlags cur @
          flag_tokens (Fields (TrimSpace (TrimPrefix trimmed ''Function flags:'')))\<rparr>
      else case rx_find cgCloneOf trimmed of
        Some m \<Rightarrow> cur\<lparr>fn_CloneOfID := rx_group m 2\<rparr>
      | None \<Rightarrow>
      if HasPrefix trimmed ''References:'' then
        cur\<lparr>fn_Refs := fn_Refs cur @ parseRefList (TrimPrefix trimmed ''References:'')\<rparr>
      else if HasPrefix trimmed ''Referring:'' then
        (if \<exists>r \<in> set (parseRefList (TrimPrefix trimmed ''Referring:'')). ref_Kind r = ''addr''
         then cur\<lparr>fn_AddressTaken := True\<rparr> else cur)
      else if HasPrefix trimmed ''Calls:'' then
        cur\<lparr>fn_Called := fn_Called cur @ parseCallList (TrimPrefix trimmed ''Calls:'')\<rparr>
      else if HasPrefix trimmed ''Called by:'' then cur
      else case rx_find cgIndirect trimmed of
        Some m \<Rightarrow>
          cur\<lparr>fn_IndirectSites := fn_IndirectSites cur @
            [\<lparr>is_SpeculativeCount = fst (Atoi (rx_group m 1)), is_SpeculativeTargets = []\<rparr>]\<rparr>
      | None \<Rightarrow> cur)"

definition new_symbol :: "rx_found \<Rightarrow> Function" where
  "new_symbol m =
     \<lparr>fn_LocalID = rx_group m 2, fn_Name = rx_group m 1, fn_LinkageName = rx_group m 3, fn_Kind = [],
      fn_Analyzed = False, fn_BodyRemoved = False, fn_VisibilityFlags = [], fn_AddressTaken = False,
      fn_FunctionFlags = [], fn_CloneOfID = [], fn_Refs = [], fn_Called = [], fn_IndirectSites = []\<rparr>"

type_synonym cg_state = "Cgraph \<times> Function option"

definition cg_flush :: "cg_state \<Rightarrow> cg_state" where
  "cg_flush st =
     (case st of
        (cg, None) \<Rightarrow> (cg, None)
      | (cg, Some cur) \<Rightarrow> (cg\<lparr>cg_Symbols := mergeSymbol (cg_Symbols cg) cur\<rparr>, None))"

definition cg_step :: "cg_state \<Rightarrow> string \<Rightarrow> cg_state" where
  "cg_step st raw =
     (let trimmed = TrimSpace raw
      in if HasPrefix trimmed ''Trivially needed'' then
           (case cg_flush st of
              (cg, cur) \<Rightarrow>
                (cg\<lparr>cg_TrivialNeeded := cg_TrivialNeeded cg @ map (\<lambda>m. rx_group m 2) (rx_find_all cgTargetTok trimmed)\<rparr>, cur))
         else if HasSuffix trimmed ''Symbol table:'' then cg_flush st
         else if trimmed = [] \<or> HasPrefix trimmed ''Removing '' \<or> HasPrefix trimmed ''Reclaiming '' \<or>
             HasPrefix trimmed ''Clearing '' then cg_flush st
         else if \<not> HasPrefix raw '' '' then
           (case rx_find cgSymbolHeader raw of
              Some m \<Rightarrow> (fst (cg_flush st), Some (new_symbol m))
            | None \<Rightarrow> cg_flush st)
         else (fst st, map_option (block_line trimmed) (snd st)))"

text \<open>The result and whether the scanner failed; both are returned.\<close>

definition ParseCgraph :: "string \<Rightarrow> Cgraph \<times> bool" where
  "ParseCgraph content =
     (case scan_lines (4 * 1024 * 1024) content of
        (ls, too_long) \<Rightarrow>
          (fst (cg_flush (foldl cg_step (\<lparr>cg_TrivialNeeded = [], cg_Symbols = []\<rparr>, None) ls)), too_long))"

datatype cgraph_error = Cgraph_open | Cgraph_parse

definition ParseCgraphFile :: "string option \<Rightarrow> cgraph_error + Cgraph" where
  "ParseCgraphFile file =
     (case file of
        None \<Rightarrow> Inl Cgraph_open
      | Some content \<Rightarrow>
          (case ParseCgraph content of (c, failed) \<Rightarrow> if failed then Inl Cgraph_parse else Inr c))"

section \<open>Blocks of a dump\<close>

text \<open>
  A line ends the block before it, starts one, or belongs to it. A block is a header line and the body
  lines that follow it.
\<close>

definition ends_block :: "string \<Rightarrow> bool" where
  "ends_block raw =
     (let trimmed = TrimSpace raw
      in HasPrefix trimmed ''Trivially needed'' \<or> HasSuffix trimmed ''Symbol table:'' \<or> trimmed = [] \<or>
         HasPrefix trimmed ''Removing '' \<or> HasPrefix trimmed ''Reclaiming '' \<or> HasPrefix trimmed ''Clearing '')"

definition body_line :: "string \<Rightarrow> bool" where
  "body_line raw \<longleftrightarrow> \<not> ends_block raw \<and> HasPrefix raw '' ''"

definition header_of :: "string \<Rightarrow> Function option" where
  "header_of raw =
     (if ends_block raw \<or> HasPrefix raw '' '' then None else map_option new_symbol (rx_find cgSymbolHeader raw))"

function blocks :: "string list \<Rightarrow> Function list" where
  "blocks [] = []"
| "blocks (l # ls) =
     (case header_of l of
        None \<Rightarrow> blocks ls
      | Some f \<Rightarrow>
          foldl (\<lambda>f l. block_line (TrimSpace l) f) f (takeWhile body_line ls) # blocks (dropWhile body_line ls))"
  by pat_completeness auto
termination
  by (relation "measure length") (auto simp: le_imp_less_Suc length_dropWhile_le)

lemma cg_step_body: "body_line l \<Longrightarrow> cg_step (cg, cur) l = (cg, map_option (block_line (TrimSpace l)) cur)"
  by (auto simp: cg_step_def body_line_def ends_block_def Let_def)

lemma cg_step_other:
  assumes "\<not> body_line l"
  shows "cg_Symbols (fst (cg_step (cg, cur) l)) = cg_Symbols (fst (cg_flush (cg, cur))) \<and>
    snd (cg_step (cg, cur) l) = header_of l"
proof -
  obtain cg' where f: "cg_flush (cg, cur) = (cg', None)"
    by (cases cur) (simp_all add: cg_flush_def)
  show ?thesis
  proof (cases "ends_block l")
    case True
    then show ?thesis
      by (simp add: cg_step_def Let_def f header_of_def ends_block_def) blast
  next
    case False
    with assms have "\<not> HasPrefix l '' ''" by (simp add: body_line_def)
    with False show ?thesis
      by (simp add: cg_step_def Let_def f header_of_def ends_block_def split: option.split)
  qed
qed

definition pending :: "Function option \<Rightarrow> string list \<Rightarrow> Function list" where
  "pending cur ls =
     (case cur of
        None \<Rightarrow> blocks ls
      | Some f \<Rightarrow>
          foldl (\<lambda>f l. block_line (TrimSpace l) f) f (takeWhile body_line ls) # blocks (dropWhile body_line ls))"

lemma header_of_body: "body_line l \<Longrightarrow> header_of l = None"
  by (simp add: body_line_def header_of_def)

lemma blocks_Cons: "blocks (l # ls) = pending (header_of l) ls"
  by (simp add: pending_def split: option.split)

lemma pending_body: "body_line l \<Longrightarrow> pending (map_option (block_line (TrimSpace l)) cur) ls = pending cur (l # ls)"
  by (cases cur) (simp_all add: pending_def header_of_body)

lemma cg_run:
  "cg_Symbols (fst (cg_flush (foldl cg_step (cg, cur) ls))) = foldl mergeSymbol (cg_Symbols cg) (pending cur ls)"
proof (induction ls arbitrary: cg cur)
  case Nil
  then show ?case by (cases cur) (simp_all add: cg_flush_def pending_def)
next
  case (Cons l ls)
  show ?case
  proof (cases "body_line l")
    case True
    with Cons show ?thesis by (simp add: cg_step_body pending_body)
  next
    case False
    obtain cg' cur' where step: "cg_step (cg, cur) l = (cg', cur')" by fastforce
    with cg_step_other [OF False, of cg cur]
    have eq: "cg_Symbols cg' = cg_Symbols (fst (cg_flush (cg, cur)))" "cur' = header_of l" by simp_all
    have "foldl mergeSymbol (cg_Symbols cg) (pending cur (l # ls)) =
        foldl mergeSymbol (cg_Symbols (fst (cg_flush (cg, cur)))) (pending (header_of l) ls)"
      using False by (cases cur) (simp_all add: pending_def blocks_Cons cg_flush_def del: blocks.simps(2))
    with Cons step eq show ?thesis by simp
  qed
qed

section \<open>The merge of all observations\<close>

definition last_set :: "'a list list \<Rightarrow> 'a list" where
  "last_set xs = (if filter (\<lambda>x. x \<noteq> []) xs = [] then [] else last (filter (\<lambda>x. x \<noteq> []) xs))"

text \<open>The last one among the longest.\<close>

definition latest_longest :: "'a list list \<Rightarrow> 'a list" where
  "latest_longest xs = last (filter (\<lambda>x. length x = Max (set (map length xs))) xs)"

definition summary :: "Function list \<Rightarrow> Function" where
  "summary os =
     \<lparr>fn_LocalID = fn_LocalID (hd os),
      fn_Name = last_set (map fn_Name os),
      fn_LinkageName = last_set (map fn_LinkageName os),
      fn_Kind = last_set (map fn_Kind os),
      fn_Analyzed = (\<exists>f \<in> set os. fn_Analyzed f),
      fn_BodyRemoved = (\<exists>f \<in> set os. fn_BodyRemoved f),
      fn_VisibilityFlags = latest_longest (map fn_VisibilityFlags os),
      fn_AddressTaken = (\<exists>f \<in> set os. fn_AddressTaken f),
      fn_FunctionFlags = latest_longest (map fn_FunctionFlags os),
      fn_CloneOfID = last_set (map fn_CloneOfID os),
      fn_Refs = latest_longest (map fn_Refs os),
      fn_Called = latest_longest (map fn_Called os),
      fn_IndirectSites = latest_longest (map fn_IndirectSites os)\<rparr>"

lemma last_set_snoc: "last_set (xs @ [x]) = (if x \<noteq> [] then x else last_set xs)"
  by (simp add: last_set_def)

lemma latest_longest_length:
  "xs \<noteq> [] \<Longrightarrow> length (latest_longest xs) = Max (set (map length xs))"
proof -
  assume "xs \<noteq> []"
  then have "Max (set (map length xs)) \<in> set (map length xs)" by (intro Max_in) auto
  then have "filter (\<lambda>x. length x = Max (set (map length xs))) xs \<noteq> []" by (auto simp: filter_empty_conv)
  from last_in_set [OF this] show ?thesis by (auto simp: latest_longest_def)
qed

lemma latest_longest_snoc:
  assumes "xs \<noteq> []"
  shows "latest_longest (xs @ [x]) = keep_longer (latest_longest xs) x"
proof -
  let ?m = "Max (set (map length xs))"
  have M: "Max (set (map length (xs @ [x]))) = max (length x) ?m"
    using assms by simp
  show ?thesis
  proof (cases "?m \<le> length x")
    case True
    then have "latest_longest (xs @ [x]) = x" unfolding latest_longest_def M by simp
    moreover have "keep_longer (latest_longest xs) x = x"
      using True latest_longest_length [OF assms] by (auto simp: keep_longer_def)
    ultimately show ?thesis by simp
  next
    case False
    then have "latest_longest (xs @ [x]) = latest_longest xs" unfolding latest_longest_def M by simp
    then show ?thesis using False latest_longest_length [OF assms] by (simp add: keep_longer_def)
  qed
qed

lemma summary_single: "summary [f] = f"
  by (cases f) (auto simp: summary_def last_set_def latest_longest_def)

lemma summary_snoc: "os \<noteq> [] \<Longrightarrow> summary (os @ [f]) = merge_into (summary os) f"
  by (auto simp: summary_def merge_into_def last_set_snoc latest_longest_snoc)

lemma merge_symbols:
  "gget (foldl mergeSymbol [] fs) k =
     (let os = filter (\<lambda>f. fn_LocalID f = k) fs in if os = [] then None else Some (summary os))"
proof (induction fs rule: rev_induct)
  case (snoc f fs)
  then show ?case
    by (auto simp: mergeSymbol_def Let_def summary_single summary_snoc filter_empty_conv split: option.splits if_splits)
qed simp

text \<open>
  C40 What is stored for a symbol: the reader finds exactly the blocks of the dump, and the record of
  a local id is absent when no block has that id, and otherwise combines all blocks of that id: a flag
  that was seen once stays, a text is the last that is not empty, and each list is the last one among the
  longest, so that a stripped final table never loses a call list.
\<close>

theorem ParseCgraph_symbols:
  "gget (cg_Symbols (fst (ParseCgraph content))) k =
     (let os = filter (\<lambda>f. fn_LocalID f = k) (blocks (fst (scan_lines (4 * 1024 * 1024) content)))
      in if os = [] then None else Some (summary os))"
proof -
  obtain ls e where s: "scan_lines (4 * 1024 * 1024) content = (ls, e)" by fastforce
  have "cg_Symbols (fst (ParseCgraph content)) = foldl mergeSymbol [] (blocks ls)"
    using cg_run [of "\<lparr>cg_TrivialNeeded = [], cg_Symbols = []\<rparr>" None ls]
    unfolding ParseCgraph_def s by (simp add: pending_def)
  then show ?thesis unfolding s by (simp add: merge_symbols)
qed

section \<open>Reading back call and reference lists\<close>

text \<open>
  A token is a name, a slash and a number; the note after it is any text without a slash that begins
  with a blank and does not end in a byte of a name.
\<close>

declare is_word.simps [simp del] is_digit.simps [simp del] is_blank.simps [simp del] is_alpha.simps [simp del]

record tok =
  tok_name :: string
  tok_id :: string
  tok_note :: string

definition name_ok :: "string \<Rightarrow> bool" where
  "name_ok n \<longleftrightarrow> n \<noteq> [] \<and> is_alpha (hd n) \<and> (\<forall>c \<in> set n. is_ident c)"

definition gap_ok :: "string \<Rightarrow> bool" where
  "gap_ok g \<longleftrightarrow> CHR ''/'' \<notin> set g \<and> (g \<noteq> [] \<longrightarrow> \<not> is_ident (last g))"

definition tok_ok :: "tok \<Rightarrow> bool" where
  "tok_ok t \<longleftrightarrow> name_ok (tok_name t) \<and> tok_id t \<noteq> [] \<and> (\<forall>c \<in> set (tok_id t). is_digit c) \<and>
     gap_ok (tok_note t) \<and> tok_note t \<noteq> [] \<and> hd (tok_note t) = CHR 0x20"

definition tok_text :: "tok \<Rightarrow> string" where
  "tok_text t = tok_name t @ ''/'' @ tok_id t @ tok_note t"

lemma ident_facts: "\<not> is_ident (CHR ''/'')" "\<not> is_digit (CHR 0x20)"
  by code_simp+

lemma rel_target_tok:
  assumes "rx_rel cgTargetTok l w t"
  shows "\<exists>n d. w = n @ ''/'' @ d \<and> n \<noteq> [] \<and> (\<forall>c \<in> set n. is_ident c) \<and> CHR ''/'' \<notin> set n"
proof -
  from rel_seqD [OF assms [unfolded cgTargetTok_def]] obtain n w1 where
    n: "w = n @ w1" "rx_rel ident_rx l n (w1 @ t)" and
    w1: "rx_rel (RSeq (RLit ''/'') (RCap 2 (RPlus (RSet is_digit)))) (rev n @ l) w1 t"
    by (auto simp only: rel_cap_iff)
  from rel_seqD [OF w1] obtain d where "w1 = ''/'' @ d" by (auto simp only: rx_rel_RLit)
  moreover from rel_seqD [OF n(2) [unfolded ident_rx_def]] obtain a v where
    "n = a @ v" "rx_rel (RSet is_alpha) l a (v @ w1 @ t)" "\<forall>c \<in> set v. is_ident c"
    by (auto simp only: rx_rel_star_set)
  then obtain c where "n = c # v" "is_alpha c" "\<forall>c \<in> set v. is_ident c" by auto
  then have "n \<noteq> []" "\<forall>c \<in> set n. is_ident c" by (auto simp: is_ident_def is_alpha.simps)
  ultimately show ?thesis using n(1) ident_facts by auto
qed

lemma gap_no_tok:
  assumes "gap_ok g" "g \<noteq> []"
  shows "rx_match cgTargetTok (l, g @ s, gs) = []"
proof (rule rx_no_match, intro allI impI notI)
  fix w t assume wt: "g @ s = w @ t" and "rx_rel cgTargetTok l w t"
  then obtain n d where n: "w = n @ ''/'' @ d" "\<forall>c \<in> set n. is_ident c" "CHR ''/'' \<notin> set n"
    using rel_target_tok by blast
  from wt n(1) have eq: "g @ s = n @ CHR ''/'' # d @ t" by simp
  have "\<not> length n < length g"
  proof
    assume less: "length n < length g"
    from eq have "(g @ s) ! length n = CHR ''/''" by simp
    with less have "CHR ''/'' \<in> set g" by (metis nth_append nth_mem)
    with assms(1) show False by (simp add: gap_ok_def)
  qed
  then have "take (length g) n = g" using eq by (metis append_eq_append_conv_if append_eq_conv_conj not_less)
  then have "set g \<subseteq> set n" by (metis set_take_subset)
  with assms n(2) show False by (auto simp: gap_ok_def dest: last_in_set)
qed

lemma gap_skip: "gap_ok g \<Longrightarrow> rx_all_from cgTargetTok l (g @ s) = rx_all_from cgTargetTok (rev g @ l) s"
proof (induction g arbitrary: l)
  case (Cons c g)
  then have "gap_ok g" by (auto simp: gap_ok_def)
  with Cons gap_no_tok [OF Cons.prems, of l s "[]"] show ?case by (simp add: rx_all_skip)
qed simp

lemma tok_match:
  assumes "tok_ok t"
  shows "\<exists>ms. rx_match cgTargetTok (l, tok_text t @ s, []) =
    (rev (tok_name t @ ''/'' @ tok_id t) @ l, tok_note t @ s, [(2, tok_id t), (1, tok_name t)]) # ms"
proof -
  obtain c v where n: "tok_name t = c # v" "is_alpha c" "\<forall>c \<in> set v. is_ident c"
    using assms by (cases "tok_name t") (auto simp: tok_ok_def name_ok_def)
  obtain d ds where i: "tok_id t = d # ds" "is_digit d" "\<forall>c \<in> set ds. is_digit c"
    using assms by (cases "tok_id t") (auto simp: tok_ok_def)
  obtain nt' where nt: "tok_note t = CHR 0x20 # nt'"
    using assms by (cases "tok_note t") (auto simp: tok_ok_def)
  let ?b = "RSeq (RLit ''/'') (RCap 2 (RPlus (RSet is_digit)))"
  have "rx_match cgTargetTok (l, tok_text t @ s, []) =
      rx_match ?b (rev (tok_name t) @ l, ''/'' @ tok_id t @ tok_note t @ s, [(1, tok_name t)])"
    unfolding cgTargetTok_def ident_rx_def
    using seq_cap_ident_run [of is_alpha c v is_ident "''/'' @ tok_id t @ tok_note t @ s" ?b 1 l "[]"] n ident_facts
    by (simp add: tok_text_def rejects_RSeq rejects_RLit del: rx_match.simps)
  moreover obtain tail where "rx_match (RStar (RSet is_digit)) (d # CHR ''/'' # rev (tok_name t) @ l, ds @ tok_note t @ s, [(1, tok_name t)]) =
      (rev ds @ d # CHR ''/'' # rev (tok_name t) @ l, tok_note t @ s, [(1, tok_name t)]) # tail"
    using star_run [OF rx_char_RSet i(3), of "d # CHR ''/'' # rev (tok_name t) @ l" "tok_note t @ s" "[(1, tok_name t)]"]
      nt ident_facts by auto
  ultimately show ?thesis using i(1,2) by (simp add: RPlus_def)
qed

lemma no_tok_Nil: "rx_all_from cgTargetTok l [] = []"
proof (rule rx_all_none)
  show "rx_search cgTargetTok l [] = None"
    unfolding rx_search_None_iff using rel_target_tok by fastforce
qed

lemma toks_found:
  assumes "\<forall>t \<in> set ts. tok_ok t"
  shows "map (\<lambda>(m, tail). (rx_group m 2, tail)) (with_tails (rx_all_from cgTargetTok l (concat (map tok_text ts)))) =
    map (\<lambda>t. (tok_id t, tok_note t)) ts \<and>
    (ts \<noteq> [] \<longrightarrow> (\<exists>m ms. rx_all_from cgTargetTok l (concat (map tok_text ts)) = m # ms \<and> rf_before m = rev l))"
  using assms
proof (induction ts arbitrary: l)
  case Nil
  then show ?case by (simp add: no_tok_Nil)
next
  case (Cons t ts)
  let ?s = "concat (map tok_text ts)"
  let ?w = "tok_name t @ ''/'' @ tok_id t"
  let ?m = "\<lparr>rf_before = rev l, rf_text = ?w, rf_after = tok_note t @ ?s, rf_groups = [(2, tok_id t), (1, tok_name t)]\<rparr>"
  have t: "tok_ok t" and ts: "\<forall>t \<in> set ts. tok_ok t" using Cons.prems by auto
  have "rx_all_from cgTargetTok l (tok_text t @ ?s) =
      ?m # rx_all_from cgTargetTok (rev ?w @ l) (tok_note t @ ?s)"
    using tok_match [OF t, of l ?s] rx_all_take [of cgTargetTok l ?w "tok_note t @ ?s"]
    by (auto simp: tok_text_def)
  also have "rx_all_from cgTargetTok (rev ?w @ l) (tok_note t @ ?s) =
      rx_all_from cgTargetTok (rev (tok_note t) @ rev ?w @ l) ?s"
    using t by (intro gap_skip) (simp add: tok_ok_def)
  finally have all: "rx_all_from cgTargetTok l (concat (map tok_text (t # ts))) =
      ?m # rx_all_from cgTargetTok (rev (tok_note t) @ rev ?w @ l) ?s" by simp
  note IH = Cons.IH [OF ts, of "rev (tok_note t) @ rev ?w @ l"]
  show ?case
  proof (cases "ts = []")
    case True
    with all show ?thesis by (simp add: rx_group_def no_tok_Nil)
  next
    case False
    with IH obtain m ms where m: "rx_all_from cgTargetTok (rev (tok_note t) @ rev ?w @ l) ?s = m # ms"
      "rf_before m = rev (rev (tok_note t) @ rev ?w @ l)" by blast
    with all IH show ?thesis by (simp add: rx_group_def)
  qed
qed

lemma toks_found_line:
  assumes "gap_ok g" "\<forall>t \<in> set ts. tok_ok t"
  shows "map (\<lambda>(m, tail). (rx_group m 2, tail)) (with_tails (rx_find_all cgTargetTok (g @ concat (map tok_text ts)))) =
    map (\<lambda>t. (tok_id t, tok_note t)) ts"
  using toks_found [OF assms(2)] by (simp add: rx_find_all_def gap_skip [OF assms(1)])

text \<open>
  A call list is read back exactly: every token yields one call, in order, to the number after the
  slash, marked inlined exactly when the note between it and the next token says so.
\<close>

theorem parseCallList_spec:
  assumes "gap_ok g" "\<forall>t \<in> set ts. tok_ok t"
  shows "parseCallList (g @ concat (map tok_text ts)) =
    map (\<lambda>t. \<lparr>call_TargetLocalID = tok_id t, call_Inlined = Contains (tok_note t) ''(inlined)''\<rparr>) ts"
proof -
  let ?f = "\<lambda>(i, n). \<lparr>call_TargetLocalID = i, call_Inlined = Contains n ''(inlined)''\<rparr>"
  have "parseCallList (g @ concat (map tok_text ts)) =
      map ?f (map (\<lambda>(m, tail). (rx_group m 2, tail)) (with_tails (rx_find_all cgTargetTok (g @ concat (map tok_text ts)))))"
    by (simp add: parseCallList_def split_beta)
  then show ?thesis unfolding toks_found_line [OF assms] by simp
qed

theorem parseCallList_spec_witness:
  "parseCallList '' f.constprop.0/10 (inlined) (1.00 per call) printf/8 (2,1.00 per call) '' =
     [\<lparr>call_TargetLocalID = ''10'', call_Inlined = True\<rparr>, \<lparr>call_TargetLocalID = ''8'', call_Inlined = False\<rparr>]"
proof -
  let ?ts = "[\<lparr>tok_name = ''f.constprop.0'', tok_id = ''10'', tok_note = '' (inlined) (1.00 per call) ''\<rparr>,
     \<lparr>tok_name = ''printf'', tok_id = ''8'', tok_note = '' (2,1.00 per call) ''\<rparr>]"
  have "gap_ok '' ''" "\<forall>t \<in> set ?ts. tok_ok t"
    "Contains '' (inlined) (1.00 per call) '' ''(inlined)''" "\<not> Contains '' (2,1.00 per call) '' ''(inlined)''"
    by code_simp+
  with parseCallList_spec [of "'' ''" ?ts] show ?thesis by (simp add: tok_text_def)
qed

lemma parseRefList_spec:
  assumes "gap_ok g" "\<forall>t \<in> set ts. tok_ok t"
  shows "parseRefList (g @ concat (map tok_text ts)) =
    map (\<lambda>t. \<lparr>ref_TargetLocalID = tok_id t, ref_Kind = ref_kind (tok_note t)\<rparr>) ts"
proof -
  let ?f = "\<lambda>(i, n). \<lparr>ref_TargetLocalID = i, ref_Kind = ref_kind n\<rparr>"
  have "parseRefList (g @ concat (map tok_text ts)) =
      map ?f (map (\<lambda>(m, tail). (rx_group m 2, tail)) (with_tails (rx_find_all cgTargetTok (g @ concat (map tok_text ts)))))"
    by (simp add: parseRefList_def split_beta)
  then show ?thesis unfolding toks_found_line [OF assms] by simp
qed

end
