(* ===== verification/Gcc_Icf.thy ===== *)
theory Gcc_Icf
  imports Gcc_Cgraph
begin

text \<open>
  The reader of GCC's identical-code-folding dumps, \<^verbatim>\<open>src/internal/gccdump/icf.go\<close>: a group is a winner
  whose alias was introduced, with the functions whose bodies call that alias.
\<close>

record ICFGroup =
  icf_WinnerName :: string
  icf_LoserNames :: "string list"

record ICFDump =
  icf_Groups :: "ICFGroup list"

text \<open>\<^verbatim>\<open>Introduced new external node \(([A-Za-z_][\w.$]*)\.localalias/\d+\)\<close>\<close>

definition icfIntroducedRe :: rx where
  "icfIntroducedRe =
     RSeq (RLit ''Introduced new external node ('')
       (RSeq (RCap 1 ident_rx)
         (RSeq (RLit ''.localalias/'') (RSeq (RPlus (RSet is_digit)) (RLit '')''))))"

text \<open>\<^verbatim>\<open>^Analyzing function:\s+([A-Za-z_][\w.$]*)/\d+\<close>\<close>

definition icfAnalyzingRe :: rx where
  "icfAnalyzingRe =
     RSeq RBegin
       (RSeq (RLit ''Analyzing function:'')
         (RSeq (RPlus (RSet is_blank))
           (RSeq (RCap 1 ident_rx) (RSeq (RLit ''/'') (RPlus (RSet is_digit))))))"

text \<open>\<^verbatim>\<open>\b([A-Za-z_][\w.$]*)\.localalias\s*\(\<close>\<close>

definition icfAliasCallRe :: rx where
  "icfAliasCallRe =
     RSeq RWordB
       (RSeq (RCap 1 ident_rx)
         (RSeq (RLit ''.localalias'') (RSeq (RStar (RSet is_blank)) (RLit ''(''))))"

record icf_state =
  ist_winners :: "(string, bool) gomap"
  ist_losersOf :: "(string, (string, bool) gomap) gomap"
  ist_currentFn :: string

definition icf_alias :: "icf_state \<Rightarrow> string \<Rightarrow> icf_state" where
  "icf_alias st winner =
     (if ist_currentFn st = [] \<or> ist_currentFn st = winner then st
      else st\<lparr>ist_losersOf :=
        gput winner (gput (ist_currentFn st) True (gget_or [] (ist_losersOf st) winner)) (ist_losersOf st)\<rparr>)"

definition icf_step :: "icf_state \<Rightarrow> string \<Rightarrow> icf_state" where
  "icf_step st line =
     (case rx_find icfIntroducedRe line of
        Some m \<Rightarrow> st\<lparr>ist_winners := gput (rx_group m 1) True (ist_winners st)\<rparr>
      | None \<Rightarrow>
          (case rx_find icfAnalyzingRe line of
             Some m \<Rightarrow> st\<lparr>ist_currentFn := rx_group m 1\<rparr>
           | None \<Rightarrow> foldl icf_alias st (map (\<lambda>m. rx_group m 1) (rx_find_all icfAliasCallRe line))))"

definition icf_groups :: "icf_state \<Rightarrow> ICFGroup list" where
  "icf_groups st =
     sort_key icf_WinnerName
       (concat (map (\<lambda>w.
           let losers = gget_or [] (ist_losersOf st) w
           in if losers = [] then [] else [\<lparr>icf_WinnerName = w, icf_LoserNames = sort (gkeys losers)\<rparr>])
         (gkeys (ist_winners st))))"

datatype icf_error = ICF_open | ICF_too_long

definition ParseICF :: "string \<Rightarrow> icf_error + ICFDump" where
  "ParseICF content =
     (case scan_lines (4 * 1024 * 1024) content of
        (ls, too_long) \<Rightarrow>
          let st = foldl icf_step \<lparr>ist_winners = [], ist_losersOf = [], ist_currentFn = []\<rparr> ls
          in if too_long then Inl ICF_too_long else Inr \<lparr>icf_Groups = icf_groups st\<rparr>)"

definition ParseICFFile :: "string option \<Rightarrow> icf_error + ICFDump" where
  "ParseICFFile file = (case file of None \<Rightarrow> Inl ICF_open | Some content \<Rightarrow> ParseICF content)"

section \<open>What a group says\<close>

definition introduces :: "string \<Rightarrow> string option" where
  "introduces line = map_option (\<lambda>m. rx_group m 1) (rx_find icfIntroducedRe line)"

definition analyzes :: "string \<Rightarrow> string option" where
  "analyzes line =
     (if introduces line \<noteq> None then None else map_option (\<lambda>m. rx_group m 1) (rx_find icfAnalyzingRe line))"

definition calls_alias :: "string \<Rightarrow> string list" where
  "calls_alias line =
     (if introduces line \<noteq> None \<or> analyzes line \<noteq> None then []
      else map (\<lambda>m. rx_group m 1) (rx_find_all icfAliasCallRe line))"

text \<open>The function under analysis after some lines, empty before the first.\<close>

fun current_fn :: "string list \<Rightarrow> string" where
  "current_fn ls = (case List.map_filter analyzes (rev ls) of [] \<Rightarrow> [] | f # _ \<Rightarrow> f)"

declare current_fn.simps [simp del]

text \<open>A body calls the alias of another function.\<close>

definition folded_into :: "string list \<Rightarrow> string \<Rightarrow> string \<Rightarrow> bool" where
  "folded_into ls w f \<longleftrightarrow>
     (\<exists>pre l post. ls = pre @ l # post \<and> w \<in> set (calls_alias l) \<and> current_fn pre = f \<and> f \<noteq> [] \<and> f \<noteq> w)"

definition icf_rel :: "string list \<Rightarrow> icf_state \<Rightarrow> bool" where
  "icf_rel ls st \<longleftrightarrow>
     set (gkeys (ist_winners st)) = {w. \<exists>l \<in> set ls. introduces l = Some w} \<and> gmap_ok (ist_winners st) \<and>
     (\<forall>w. set (gkeys (gget_or [] (ist_losersOf st) w)) = {f. folded_into ls w f} \<and>
          gmap_ok (gget_or [] (ist_losersOf st) w)) \<and>
     ist_currentFn st = current_fn ls"

lemma folded_snoc:
  "folded_into (ls @ [l]) w f \<longleftrightarrow>
     folded_into ls w f \<or> (w \<in> set (calls_alias l) \<and> current_fn ls = f \<and> f \<noteq> [] \<and> f \<noteq> w)"
proof
  assume "folded_into (ls @ [l]) w f"
  then obtain pre l' post where p: "ls @ [l] = pre @ l' # post" "w \<in> set (calls_alias l')"
    "current_fn pre = f" "f \<noteq> []" "f \<noteq> w" by (auto simp: folded_into_def)
  show "folded_into ls w f \<or> (w \<in> set (calls_alias l) \<and> current_fn ls = f \<and> f \<noteq> [] \<and> f \<noteq> w)"
  proof (cases post rule: rev_cases)
    case Nil
    with p show ?thesis by simp
  next
    case (snoc post' z)
    with p(1) have "ls = pre @ l' # post'" by simp
    with p show ?thesis unfolding folded_into_def by blast
  qed
next
  assume "folded_into ls w f \<or> (w \<in> set (calls_alias l) \<and> current_fn ls = f \<and> f \<noteq> [] \<and> f \<noteq> w)"
  then show "folded_into (ls @ [l]) w f"
    unfolding folded_into_def by (metis append_Cons append_assoc)
qed

lemma current_fn_snoc: "current_fn (ls @ [l]) = (case analyzes l of Some f \<Rightarrow> f | None \<Rightarrow> current_fn ls)"
  by (simp add: current_fn.simps List.map_filter_simps split: option.split)

lemma foldl_icf_alias:
  "gmap_ok (gget_or [] (ist_losersOf st) w) \<Longrightarrow>
     set (gkeys (gget_or [] (ist_losersOf (foldl icf_alias st ws)) w)) =
       set (gkeys (gget_or [] (ist_losersOf st) w)) \<union>
       {f. w \<in> set ws \<and> f = ist_currentFn st \<and> f \<noteq> [] \<and> f \<noteq> w} \<and>
     gmap_ok (gget_or [] (ist_losersOf (foldl icf_alias st ws)) w) \<and>
     ist_winners (foldl icf_alias st ws) = ist_winners st \<and>
     ist_currentFn (foldl icf_alias st ws) = ist_currentFn st"
proof (induction ws arbitrary: st)
  case (Cons v ws)
  have keep: "ist_currentFn (icf_alias st v) = ist_currentFn st" "ist_winners (icf_alias st v) = ist_winners st"
    by (simp_all add: icf_alias_def)
  have one: "gget_or [] (ist_losersOf (icf_alias st v)) w =
      (if v = w \<and> ist_currentFn st \<noteq> [] \<and> ist_currentFn st \<noteq> w
       then gput (ist_currentFn st) True (gget_or [] (ist_losersOf st) w)
       else gget_or [] (ist_losersOf st) w)"
    by (auto simp: icf_alias_def gget_or_def)
  have "gmap_ok (gget_or [] (ist_losersOf (icf_alias st v)) w)" using Cons.prems by (simp add: one)
  from Cons.IH [OF this] show ?case by (auto simp: keep one gkeys_gput)
qed simp

lemma icf_step_rel:
  assumes "icf_rel ls st"
  shows "icf_rel (ls @ [l]) (icf_step st l)"
proof (cases "introduces l")
  case (Some w)
  then obtain m where "rx_find icfIntroducedRe l = Some m" "rx_group m 1 = w" by (auto simp: introduces_def)
  moreover have "calls_alias l = []" "analyzes l = None" using Some by (simp_all add: calls_alias_def analyzes_def)
  ultimately show ?thesis
    using assms Some by (auto simp: icf_rel_def icf_step_def folded_snoc current_fn_snoc gkeys_gput)
next
  case None
  then have i: "rx_find icfIntroducedRe l = None" by (simp add: introduces_def)
  show ?thesis
  proof (cases "analyzes l")
    case (Some f)
    then obtain m where "rx_find icfAnalyzingRe l = Some m" "rx_group m 1 = f"
      using None by (auto simp: analyzes_def)
    moreover have "calls_alias l = []" using Some by (simp add: calls_alias_def)
    ultimately show ?thesis
      using assms Some None i by (auto simp: icf_rel_def icf_step_def folded_snoc current_fn_snoc)
  next
    case no: None
    then have a: "rx_find icfAnalyzingRe l = None" using None by (simp add: analyzes_def)
    have c: "calls_alias l = map (\<lambda>m. rx_group m 1) (rx_find_all icfAliasCallRe l)"
      using None no by (simp add: calls_alias_def)
    have step: "icf_step st l = foldl icf_alias st (calls_alias l)" by (simp add: icf_step_def i a c)
    have ok: "gmap_ok (gget_or [] (ist_losersOf st) w)" for w using assms by (simp add: icf_rel_def)
    note fold = foldl_icf_alias [OF ok, where ws = "calls_alias l"]
    have "set (gkeys (gget_or [] (ist_losersOf (icf_step st l)) w)) = {f. folded_into (ls @ [l]) w f}" for w
      using fold [of w] assms unfolding step icf_rel_def folded_snoc by auto
    with fold assms None no show ?thesis
      unfolding icf_rel_def step current_fn_snoc by simp
  qed
qed

lemma icf_run: "icf_rel ls (foldl icf_step \<lparr>ist_winners = [], ist_losersOf = [], ist_currentFn = []\<rparr> ls)"
proof (induction ls rule: rev_induct)
  case Nil
  then show ?case
    by (simp add: icf_rel_def gget_or_def folded_into_def current_fn.simps List.map_filter_simps gkeys_def)
next
  case (snoc l ls)
  then show ?case using icf_step_rel by simp
qed

definition icf_group :: "string list \<Rightarrow> string \<Rightarrow> ICFGroup" where
  "icf_group ls w = \<lparr>icf_WinnerName = w, icf_LoserNames = sorted_list_of_set {f. folded_into ls w f}\<rparr>"

lemma icf_groups_rel:
  assumes "icf_rel ls st"
  shows "icf_groups st = map (icf_group ls)
    (sorted_list_of_set {w. (\<exists>l \<in> set ls. introduces l = Some w) \<and> (\<exists>f. folded_into ls w f)})"
proof -
  let ?keep = "\<lambda>w. gget_or [] (ist_losersOf st) w \<noteq> []"
  let ?ws = "filter ?keep (gkeys (ist_winners st))"
  let ?W = "{w. (\<exists>l \<in> set ls. introduces l = Some w) \<and> (\<exists>f. folded_into ls w f)}"
  have keys: "set (gkeys (gget_or [] (ist_losersOf st) w)) = {f. folded_into ls w f}"
    "distinct (gkeys (gget_or [] (ist_losersOf st) w))" for w
    using assms by (auto simp: icf_rel_def gmap_ok_def)
  have sortk: "sort (gkeys (gget_or [] (ist_losersOf st) w)) = sorted_list_of_set {f. folded_into ls w f}" for w
    using sort_eq_sorted_list_of_set [OF keys(2)] by (simp add: keys(1))
  have keep: "?keep w \<longleftrightarrow> (\<exists>f. folded_into ls w f)" for w
    using keys(1) [of w] by (cases "gget_or [] (ist_losersOf st) w") (auto simp: gkeys_def)
  have set_ws: "set ?ws = ?W" and dist: "distinct ?ws"
    using assms keep by (auto simp: icf_rel_def gmap_ok_def)
  have "concat (map (\<lambda>w. let losers = gget_or [] (ist_losersOf st) w
           in if losers = [] then [] else [\<lparr>icf_WinnerName = w, icf_LoserNames = sort (gkeys losers)\<rparr>]) xs) =
      map (icf_group ls) (filter ?keep xs)" for xs
    by (induction xs) (simp_all add: Let_def icf_group_def sortk)
  then have "icf_groups st = sort_key icf_WinnerName (map (icf_group ls) ?ws)" by (simp add: icf_groups_def)
  also have "\<dots> = map (icf_group ls) (sort ?ws)"
    by (simp add: sort_key_map icf_group_def)
  also have "sort ?ws = sorted_list_of_set ?W"
    using sort_eq_sorted_list_of_set [OF dist] by (simp only: set_ws)
  finally show ?thesis .
qed

text \<open>
  The groups of a dump, independent of the order in which the maps are walked: one group for each
  function whose alias was introduced and is called from the body of at least one other function, in
  the order of the names, with exactly those other functions as its losers, in the order of their names.
\<close>

theorem ParseICF_groups:
  "ParseICF content =
     (case scan_lines (4 * 1024 * 1024) content of
        (ls, True) \<Rightarrow> Inl ICF_too_long
      | (ls, False) \<Rightarrow>
          Inr \<lparr>icf_Groups = map (icf_group ls)
            (sorted_list_of_set {w. (\<exists>l \<in> set ls. introduces l = Some w) \<and> (\<exists>f. folded_into ls w f)})\<rparr>)"
  unfolding ParseICF_def using icf_groups_rel [OF icf_run]
  by (simp add: Let_def split: prod.split bool.split)

end
