(* ===== verification/Gcc_Inline.thy ===== *)
theory Gcc_Inline
  imports Gcc_Cgraph
begin

text \<open>
  The reader of GCC's \<^verbatim>\<open>.inline\<close> dumps, \<^verbatim>\<open>src/internal/gccdump/inline.go\<close>: per function, the summary that
  was printed last.
\<close>

record InlineSummary =
  sum_FunctionLocalID :: string
  sum_Name :: string
  sum_LinkageName :: string
  sum_Inlinable :: bool
  sum_InlinedInto :: "string list"

record InlineDump =
  inl_Summaries :: "InlineSummary list"

text \<open>\<^verbatim>\<open>^IPA function summary for ([A-Za-z_][\w.$]*)/(\d+)\s+(not inlinable|inlinable)\<close>\<close>

definition inlSummaryHead :: rx where
  "inlSummaryHead =
     RSeq RBegin
       (RSeq (RLit ''IPA function summary for '')
         (RSeq (RCap 1 ident_rx)
           (RSeq (RLit ''/'')
             (RSeq (RCap 2 (RPlus (RSet is_digit)))
               (RSeq (RPlus (RSet is_blank)) (RCap 3 (RAlt (RLit ''not inlinable'') (RLit ''inlinable''))))))))"

text \<open>
  \<^verbatim>\<open>^\s+([A-Za-z_][\w.$]*)/(\d+)\s+(inlined|function body not available|function not considered for inlining)\<close>
\<close>

definition inlCallEntry :: rx where
  "inlCallEntry =
     RSeq RBegin
       (RSeq (RPlus (RSet is_blank))
         (RSeq (RCap 1 ident_rx)
           (RSeq (RLit ''/'')
             (RSeq (RCap 2 (RPlus (RSet is_digit)))
               (RSeq (RPlus (RSet is_blank))
                 (RCap 3 (RAlts (map RLit
                   [''inlined'', ''function body not available'', ''function not considered for inlining'']))))))))"

record inl_state =
  nst_byID :: "(string, InlineSummary) gomap"
  nst_cur :: "InlineSummary option"
  nst_inCalls :: bool

definition inl_flush :: "inl_state \<Rightarrow> inl_state" where
  "inl_flush st =
     (case nst_cur st of
        None \<Rightarrow> st
      | Some cur \<Rightarrow> st\<lparr>nst_byID := gput (sum_FunctionLocalID cur) cur (nst_byID st)\<rparr>)"

text \<open>The end of the loop body: a line at column zero ends the current block.\<close>

definition inl_column0 :: "inl_state \<Rightarrow> string \<Rightarrow> inl_state" where
  "inl_column0 st line =
     (if nst_cur st \<noteq> None \<and> line \<noteq> [] \<and> \<not> HasPrefix line '' ''
      then (inl_flush st)\<lparr>nst_cur := None, nst_inCalls := False\<rparr> else st)"

definition inl_step :: "inl_state \<Rightarrow> string \<Rightarrow> inl_state" where
  "inl_step st line =
     (case rx_find inlSummaryHead line of
        Some m \<Rightarrow>
          (inl_flush st)
            \<lparr>nst_cur := Some \<lparr>sum_FunctionLocalID = rx_group m 2, sum_Name = rx_group m 1, sum_LinkageName = [],
               sum_Inlinable = (rx_group m 3 = ''inlinable''), sum_InlinedInto = []\<rparr>,
             nst_inCalls := False\<rparr>
      | None \<Rightarrow>
          if TrimSpace line = ''calls:'' then st\<lparr>nst_inCalls := True\<rparr>
          else case nst_cur st of
            None \<Rightarrow> st
          | Some cur \<Rightarrow>
              if nst_inCalls st then
                (case rx_find inlCallEntry line of
                   Some m \<Rightarrow>
                     if rx_group m 3 = ''inlined''
                     then st\<lparr>nst_cur := Some (cur\<lparr>sum_InlinedInto := sum_InlinedInto cur @ [rx_group m 2]\<rparr>)\<rparr>
                     else st
                 | None \<Rightarrow>
                     inl_column0 (if TrimSpace line = [] then st\<lparr>nst_inCalls := False\<rparr> else st) line)
              else inl_column0 st line)"

definition ParseInline :: "string \<Rightarrow> InlineDump \<times> bool" where
  "ParseInline content =
     (case scan_lines (4 * 1024 * 1024) content of
        (ls, too_long) \<Rightarrow>
          let st = inl_flush (foldl inl_step \<lparr>nst_byID = [], nst_cur = None, nst_inCalls = False\<rparr> ls)
          in (\<lparr>inl_Summaries = map snd (nst_byID st)\<rparr>, too_long))"

datatype inline_error = Inline_open | Inline_parse

definition ParseInlineFile :: "string option \<Rightarrow> inline_error + InlineDump" where
  "ParseInlineFile file =
     (case file of
        None \<Rightarrow> Inl Inline_open
      | Some content \<Rightarrow>
          (case ParseInline content of (d, failed) \<Rightarrow> if failed then Inl Inline_parse else Inr d))"

section \<open>One summary per function\<close>

definition inl_inv :: "inl_state \<Rightarrow> bool" where
  "inl_inv st \<longleftrightarrow> gmap_ok (nst_byID st) \<and> (\<forall>(k, s) \<in> set (nst_byID st). sum_FunctionLocalID s = k)"

lemma set_gput: "(k', v') \<in> set (gput k v m) \<Longrightarrow> gmap_ok m \<Longrightarrow> (k' = k \<and> v' = v) \<or> (k', v') \<in> set m"
  using in_set_gget [OF gmap_ok_gput, of m k' v' k v] by (auto dest: gget_in_set split: if_splits)

lemma inl_inv_flush: "inl_inv st \<Longrightarrow> inl_inv (inl_flush st)"
  by (auto simp: inl_inv_def inl_flush_def split: option.splits dest: set_gput)

lemma inl_inv_step: "inl_inv st \<Longrightarrow> inl_inv (inl_step st line)"
  using inl_inv_flush [of st]
  by (auto simp: inl_step_def inl_column0_def inl_inv_def inl_flush_def split: option.splits)

lemma inl_inv_run: "inl_inv st \<Longrightarrow> inl_inv (foldl inl_step st ls)"
  by (induction ls arbitrary: st) (auto intro: inl_inv_step)

text \<open>The dump has at most one summary for each local id.\<close>

lemma ParseInline_distinct: "distinct (map sum_FunctionLocalID (inl_Summaries (fst (ParseInline content))))"
proof -
  obtain ls e where s: "scan_lines (4 * 1024 * 1024) content = (ls, e)" by fastforce
  define st where "st = inl_flush (foldl inl_step \<lparr>nst_byID = [], nst_cur = None, nst_inCalls = False\<rparr> ls)"
  have inv: "inl_inv st"
    unfolding st_def by (intro inl_inv_flush inl_inv_run) (simp add: inl_inv_def)
  then have "map sum_FunctionLocalID (map snd (nst_byID st)) = gkeys (nst_byID st)"
    by (auto simp: inl_inv_def gkeys_def)
  with inv show ?thesis unfolding ParseInline_def s by (simp add: Let_def st_def inl_inv_def gmap_ok_def)
qed

end
