(* ===== verification/Go_Json.thy ===== *)
theory Go_Json
  imports Go_Text
begin

text \<open>
  JSON documents as values, and what Go's \<^verbatim>\<open>encoding/json\<close> makes of them when it decodes into strings,
  integers, booleans, slices and structs. Reading the text of a document is not modelled: a reader of the
  program starts from the value, \<^const>\<open>None\<close> when the text is not JSON.
\<close>

section \<open>JSON values and decoding into Go values\<close>

text \<open>A number is its literal text.\<close>

datatype json =
    JNull
  | JBool bool
  | JNum string
  | JStr string
  | JArr "json list"
  | JObj "(string \<times> json) list"

text \<open>
  \<^verbatim>\<open>encoding/json\<close>: \<^verbatim>\<open>null\<close> leaves the zero value, a value of another shape is an error, struct fields are
  found by name without regard to the case of ASCII letters, the last occurrence of a name counts.
\<close>

definition lower :: "char \<Rightarrow> char" where
  "lower c = (if 0x41 \<le> (of_char c :: nat) \<and> (of_char c :: nat) \<le> 0x5A then char_of (of_char c + 32 :: nat) else c)"

definition json_string :: "json \<Rightarrow> string option" where
  "json_string j = (case j of JNull \<Rightarrow> Some [] | JStr s \<Rightarrow> Some s | _ \<Rightarrow> None)"

definition json_int :: "json \<Rightarrow> int option" where
  "json_int j =
     (case j of
        JNull \<Rightarrow> Some 0
      | JNum s \<Rightarrow> (case ParseInt 10 s of (n, ok) \<Rightarrow> if ok then Some n else None)
      | _ \<Rightarrow> None)"

definition json_object :: "json \<Rightarrow> (string \<times> json) list option" where
  "json_object j = (case j of JNull \<Rightarrow> Some [] | JObj kvs \<Rightarrow> Some kvs | _ \<Rightarrow> None)"

fun all_some :: "'a option list \<Rightarrow> 'a list option" where
  "all_some [] = Some []"
| "all_some (x # xs) =
     (case x of None \<Rightarrow> None | Some a \<Rightarrow> (case all_some xs of None \<Rightarrow> None | Some as \<Rightarrow> Some (a # as)))"

definition json_list :: "(json \<Rightarrow> 'a option) \<Rightarrow> json \<Rightarrow> 'a list option" where
  "json_list dcd j = (case j of JNull \<Rightarrow> Some [] | JArr js \<Rightarrow> all_some (map dcd js) | _ \<Rightarrow> None)"

definition jget :: "(string \<times> json) list \<Rightarrow> string \<Rightarrow> json option" where
  "jget kvs k = map_of (rev (map (\<lambda>(k, v). (map lower k, v)) kvs)) (map lower k)"

definition jfield :: "(string \<times> json) list \<Rightarrow> string \<Rightarrow> (json \<Rightarrow> 'a option) \<Rightarrow> 'a option" where
  "jfield kvs k dcd = (case jget kvs k of None \<Rightarrow> dcd JNull | Some j \<Rightarrow> dcd j)"

definition json_bool :: "json \<Rightarrow> bool option" where
  "json_bool j = (case j of JNull \<Rightarrow> Some False | JBool b \<Rightarrow> Some b | _ \<Rightarrow> None)"

text \<open>A slice that can be told from the nil slice.\<close>

definition json_slice :: "(json \<Rightarrow> 'a option) \<Rightarrow> json \<Rightarrow> 'a list option option" where
  "json_slice dcd j =
     (case j of JNull \<Rightarrow> Some None | JArr js \<Rightarrow> map_option Some (all_some (map dcd js)) | _ \<Rightarrow> None)"

text \<open>A pointer field: nil for \<^verbatim>\<open>null\<close> and for a missing name.\<close>

definition json_pointer :: "(json \<Rightarrow> 'a option) \<Rightarrow> json \<Rightarrow> 'a option option" where
  "json_pointer dcd j = (if j = JNull then Some None else map_option Some (dcd j))"

text \<open>An object decoded into a map: later entries of a key win.\<close>

definition json_map :: "(json \<Rightarrow> 'a option) \<Rightarrow> json \<Rightarrow> (string, 'a) gomap option" where
  "json_map dcd j =
     (case json_object j of
        None \<Rightarrow> None
      | Some kvs \<Rightarrow>
          map_option (\<lambda>vs. fold (\<lambda>(k, v). gput k v) vs [])
            (all_some (map (\<lambda>(k, v). map_option (Pair k) (dcd v)) kvs)))"

lemma jget_size: "jget kvs k = Some j \<Longrightarrow> size j < size (JObj kvs)"
proof -
  assume "jget kvs k = Some j"
  then have "(map lower k, j) \<in> set (map (\<lambda>(k, v). (map lower k, v)) kvs)"
    unfolding jget_def by (drule_tac map_of_SomeD) simp
  then obtain k' where "(k', j) \<in> set kvs" by auto
  then show ?thesis by (induction kvs) auto
qed

lemma member_size: "j \<in> set js \<Longrightarrow> size j < size (JArr js)"
  by (induction js) auto

end
