(* ===== verification/Gcc_OptRecord.thy ===== *)
theory Gcc_OptRecord
  imports Go_Json
begin

text \<open>
  The reader of GCC's optimization records, \<^verbatim>\<open>src/internal/gccdump/optrecord.go\<close>. The model starts from the
  decompressed document as a JSON value, \<^const>\<open>None\<close> when it is not JSON; decoding into Go structs is
  part of the model.
\<close>

section \<open>The record types\<close>

definition SupportedOptRecordFormat :: string where
  "SupportedOptRecordFormat = ''1''"

record optMeta =
  om_Format :: string

datatype optPass = OptPass (op_ID: string) (op_Name: string) (op_Optgroups: "string list") (op_Children: "optPass list")

record optLocation =
  ol_File :: string
  ol_Line :: int
  ol_Column :: int

record optRecord =
  or_Kind :: string
  or_Pass :: string
  or_Message :: "json list"
  or_Location :: "optLocation option"

record msgNode =
  mn_Node :: string

record InlineRecord =
  ir_Pass :: string
  ir_CallerLocalID :: string
  ir_CalleeLocalID :: string
  ir_CallerName :: string
  ir_CalleeName :: string
  ir_Inlined :: bool
  ir_Reason :: string
  ir_File :: string
  ir_Line :: int
  ir_Column :: int

record OptRecordDump =
  od_InlineRecords :: "InlineRecord list"

definition dec_meta :: "json \<Rightarrow> optMeta option" where
  "dec_meta j =
     (case json_object j of
        None \<Rightarrow> None
      | Some obj \<Rightarrow> map_option (\<lambda>f. \<lparr>om_Format = f\<rparr>) (jfield obj ''format'' json_string))"

function dec_pass :: "json \<Rightarrow> optPass option" where
  "dec_pass j =
     (case j of
        JNull \<Rightarrow> Some (OptPass [] [] [] [])
      | JObj obj \<Rightarrow>
          (case (jfield obj ''id'' json_string, jfield obj ''name'' json_string,
                 jfield obj ''optgroups'' (json_list json_string),
                 (case jget obj ''children'' of
                    None \<Rightarrow> Some []
                  | Some JNull \<Rightarrow> Some []
                  | Some (JArr js) \<Rightarrow> all_some (map dec_pass js)
                  | _ \<Rightarrow> None)) of
             (Some i, Some n, Some g, Some c) \<Rightarrow> Some (OptPass i n g c)
           | _ \<Rightarrow> None)
      | _ \<Rightarrow> None)"
  by pat_completeness auto
termination
proof (relation "measure size", goal_cases)
  case (2 j o' a js z)
  then show ?case using jget_size [of o' "''children''" a] member_size [of z js] by simp
qed simp

declare dec_pass.simps [simp del]

definition dec_location :: "json \<Rightarrow> optLocation option option" where
  "dec_location j =
     (if j = JNull then Some None
      else case json_object j of
             None \<Rightarrow> None
           | Some obj \<Rightarrow>
               (case (jfield obj ''file'' json_string, jfield obj ''line'' json_int, jfield obj ''column'' json_int) of
                  (Some f, Some l, Some c) \<Rightarrow> Some (Some \<lparr>ol_File = f, ol_Line = l, ol_Column = c\<rparr>)
                | _ \<Rightarrow> None))"

definition dec_record :: "json \<Rightarrow> optRecord option" where
  "dec_record j =
     (case json_object j of
        None \<Rightarrow> None
      | Some obj \<Rightarrow>
          (case (jfield obj ''kind'' json_string, jfield obj ''pass'' json_string,
                 jfield obj ''message'' (json_list Some), jfield obj ''location'' dec_location) of
             (Some k, Some p, Some m, Some l) \<Rightarrow>
               Some \<lparr>or_Kind = k, or_Pass = p, or_Message = m, or_Location = l\<rparr>
           | _ \<Rightarrow> None))"

definition dec_node :: "json \<Rightarrow> msgNode option" where
  "dec_node j =
     (case json_object j of
        None \<Rightarrow> None
      | Some obj \<Rightarrow> map_option (\<lambda>n. \<lparr>mn_Node = n\<rparr>) (jfield obj ''symtab_node'' json_string))"

section \<open>The reader\<close>

definition splitNode :: "string \<Rightarrow> (string \<times> string) option" where
  "splitNode s =
     (case LastIndexByte s (CHR ''/'') of
        None \<Rightarrow> None
      | Some i \<Rightarrow> if i = 0 \<or> i = length s - 1 then None else Some (take i s, drop (i + 1) s))"

definition cleanReason :: "string \<Rightarrow> string" where
  "cleanReason tail0 =
     (let tail = (case IndexByte tail0 NL of Some i \<Rightarrow> take i tail0 | None \<Rightarrow> tail0);
          tail = TrimSpace tail;
          tail = TrimPrefix tail '','';
          tail = TrimSuffix (TrimSpace tail) ''.''
      in TrimSpace tail)"

text \<open>The items of a message: the nodes, the text before each node, and the text after the last.\<close>

fun message_items :: "json list \<Rightarrow> string \<Rightarrow> (string list \<times> string list \<times> string)" where
  "message_items [] cur = ([], [], cur)"
| "message_items (raw # ms) cur =
     (case json_string raw of
        Some s \<Rightarrow> message_items ms (cur @ s)
      | None \<Rightarrow>
          (case dec_node raw of
             None \<Rightarrow> message_items ms cur
           | Some n \<Rightarrow>
               if mn_Node n = [] then message_items ms cur
               else case message_items ms [] of
                      (nodes, seps, trailing) \<Rightarrow> (mn_Node n # nodes, cur # seps, trailing)))"

definition recordFromMessage :: "optRecord \<Rightarrow> string \<Rightarrow> InlineRecord option" where
  "recordFromMessage rec pass =
     (case message_items (or_Message rec) [] of
        (nodes, seps, trailing) \<Rightarrow>
          if length nodes < 2 then None
          else case splitNode (nodes ! 0) of
            None \<Rightarrow> None
          | Some (first, firstID) \<Rightarrow>
              (case splitNode (nodes ! 1) of
                 None \<Rightarrow> None
               | Some (second, secondID) \<Rightarrow>
                   let inlined = (or_Kind rec = ''success'');
                       reason = (if inlined then [] else cleanReason trailing);
                       (file, line, column) =
                         (case or_Location rec of None \<Rightarrow> ([], 0, 0) | Some l \<Rightarrow> (ol_File l, ol_Line l, ol_Column l));
                       sep = seps ! 1
                   in if Contains sep ''->'' then
                        Some \<lparr>ir_Pass = pass, ir_CallerLocalID = firstID, ir_CalleeLocalID = secondID,
                              ir_CallerName = first, ir_CalleeName = second, ir_Inlined = inlined,
                              ir_Reason = reason, ir_File = file, ir_Line = line, ir_Column = column\<rparr>
                      else if Contains sep '' into '' \<or> Contains sep '' to '' then
                        Some \<lparr>ir_Pass = pass, ir_CallerLocalID = secondID, ir_CalleeLocalID = firstID,
                              ir_CallerName = second, ir_CalleeName = first, ir_Inlined = inlined,
                              ir_Reason = reason, ir_File = file, ir_Line = line, ir_Column = column\<rparr>
                      else None))"

function collectInlinePasses :: "optPass list \<Rightarrow> (string, string) gomap \<Rightarrow> (string, string) gomap" where
  "collectInlinePasses [] out = out"
| "collectInlinePasses (p # ps) out =
     (let out = (if ''inline'' \<in> set (op_Optgroups p) then gput (op_ID p) (op_Name p) out else out);
          out = collectInlinePasses (op_Children p) out
      in collectInlinePasses ps out)"
  by pat_completeness auto
termination
proof (relation "measure (\<lambda>(ps, out). size_list size ps)", goal_cases)
  case (2 p ps out)
  then show ?case by (cases p) simp
next
  case (3 p ps out)
  then show ?case by (cases p) simp
qed simp

definition keep_record ::
  "(string, string) gomap \<Rightarrow> InlineRecord list \<Rightarrow> optRecord \<Rightarrow> InlineRecord list" where
  "keep_record inlinePasses out rec =
     (case gget inlinePasses (or_Pass rec) of
        None \<Rightarrow> out
      | Some pass \<Rightarrow>
          if or_Kind rec \<noteq> ''success'' \<and> or_Kind rec \<noteq> ''failure'' then out
          else case recordFromMessage rec pass of
                 None \<Rightarrow> out
               | Some ir \<Rightarrow> if ir \<in> set out then out else out @ [ir])"

datatype opt_error =
  Opt_open | Opt_json | Opt_elements nat | Opt_metadata | Opt_format string | Opt_tree | Opt_records

definition ParseOptRecord :: "json option \<Rightarrow> opt_error + OptRecordDump" where
  "ParseOptRecord doc =
     (case (case doc of None \<Rightarrow> None | Some j \<Rightarrow> json_list Some j) of
        None \<Rightarrow> Inl Opt_json
      | Some elems \<Rightarrow>
          if length elems < 3 then Inl (Opt_elements (length elems))
          else case dec_meta (elems ! 0) of
            None \<Rightarrow> Inl Opt_metadata
          | Some meta \<Rightarrow>
              if om_Format meta \<noteq> SupportedOptRecordFormat then Inl (Opt_format (om_Format meta))
              else case json_list dec_pass (elems ! 1) of
                None \<Rightarrow> Inl Opt_tree
              | Some tree \<Rightarrow>
                  (case json_list dec_record (elems ! 2) of
                     None \<Rightarrow> Inl Opt_records
                   | Some records \<Rightarrow>
                       Inr \<lparr>od_InlineRecords = foldl (keep_record (collectInlinePasses tree [])) [] records\<rparr>))"

text \<open>\<^const>\<open>None\<close> when the file cannot be opened or is no gzip file.\<close>

definition ParseOptRecordFile :: "json option option \<Rightarrow> opt_error + OptRecordDump" where
  "ParseOptRecordFile file = (case file of None \<Rightarrow> Inl Opt_open | Some doc \<Rightarrow> ParseOptRecord doc)"

section \<open>What is kept\<close>

fun flat_passes :: "optPass list \<Rightarrow> optPass list" where
  "flat_passes [] = []"
| "flat_passes (OptPass i n g cs # ps) = OptPass i n g cs # flat_passes cs @ flat_passes ps"

text \<open>The passes of the tree that have the optgroup, by id; of two with the same id the later one counts.\<close>

definition inline_pass :: "optPass list \<Rightarrow> string \<Rightarrow> string option" where
  "inline_pass tree i =
     map_of (rev (map (\<lambda>p. (op_ID p, op_Name p)) (filter (\<lambda>p. ''inline'' \<in> set (op_Optgroups p)) (flat_passes tree)))) i"

lemma collect_fold:
  "collectInlinePasses ps out =
     fold (\<lambda>(k, v). gput k v)
       (map (\<lambda>p. (op_ID p, op_Name p)) (filter (\<lambda>p. ''inline'' \<in> set (op_Optgroups p)) (flat_passes ps))) out"
proof (induction ps out rule: collectInlinePasses.induct)
  case (2 p ps out)
  obtain i n g cs where p: "p = OptPass i n g cs" by (cases p)
  have IH: "collectInlinePasses (op_Children p) (if ''inline'' \<in> set (op_Optgroups p) then gput (op_ID p) (op_Name p) out else out) =
    fold (\<lambda>(k, v). gput k v)
       (map (\<lambda>p. (op_ID p, op_Name p)) (filter (\<lambda>p. ''inline'' \<in> set (op_Optgroups p)) (flat_passes (op_Children p))))
       (if ''inline'' \<in> set (op_Optgroups p) then gput (op_ID p) (op_Name p) out else out)"
    by (rule 2(1) [OF refl])
  show ?case
    using IH 2(2) [OF refl refl] by (cases "''inline'' \<in> set g") (simp_all add: p Let_def)
qed simp

lemma collect_inline_pass: "gget (collectInlinePasses tree []) i = inline_pass tree i"
  unfolding collect_fold inline_pass_def go_map.fold_put_get by (simp split: option.split)

text \<open>The decision a record stands for, when it is kept.\<close>

definition decision :: "optPass list \<Rightarrow> optRecord \<Rightarrow> InlineRecord option" where
  "decision tree rec =
     (if or_Kind rec = ''success'' \<or> or_Kind rec = ''failure''
      then Option.bind (inline_pass tree (or_Pass rec)) (recordFromMessage rec) else None)"

lemma keep_record_decision:
  "keep_record (collectInlinePasses tree []) out rec =
     (case decision tree rec of None \<Rightarrow> out | Some ir \<Rightarrow> if ir \<in> set out then out else out @ [ir])"
  by (auto simp: keep_record_def decision_def collect_inline_pass split: option.splits)

lemma keep_records:
  "distinct out \<Longrightarrow> distinct (foldl (keep_record (collectInlinePasses tree [])) out recs) \<and>
     set (foldl (keep_record (collectInlinePasses tree [])) out recs) =
       set out \<union> {ir. \<exists>rec \<in> set recs. decision tree rec = Some ir}"
proof (induction recs arbitrary: out)
  case (Cons rec recs)
  show ?case
  proof (cases "decision tree rec")
    case None
    with Cons show ?thesis by (auto simp: keep_record_decision)
  next
    case (Some ir)
    show ?thesis
    proof (cases "ir \<in> set out")
      case True
      with Some Cons show ?thesis by (auto simp: keep_record_decision)
    next
      case False
      with Cons.IH [of "out @ [ir]"] Cons.prems Some show ?thesis by (auto simp: keep_record_decision)
    qed
  qed
qed simp

text \<open>
  From a document of the supported format the reader returns, without repetition, exactly the
  decisions of the success and failure records of the passes that the pass tree puts into the inline
  group.
\<close>

theorem ParseOptRecord_decisions:
  assumes "dec_meta m = Some \<lparr>om_Format = ''1''\<rparr>" "json_list dec_pass t = Some tree" "json_list dec_record r = Some recs"
  shows "\<exists>d. ParseOptRecord (Some (JArr (m # t # r # others))) = Inr d \<and> distinct (od_InlineRecords d) \<and>
    set (od_InlineRecords d) = {ir. \<exists>rec \<in> set recs. decision tree rec = Some ir}"
proof -
  have all: "all_some (map Some xs) = Some xs" for xs :: "json list" by (induction xs) auto
  then have "json_list Some (JArr xs) = Some xs" for xs by (simp add: json_list_def)
  with assms keep_records [of "[]" tree recs] show ?thesis
    by (simp add: ParseOptRecord_def SupportedOptRecordFormat_def)
qed

definition sample_meta :: json where
  "sample_meta = JObj [(''format'', JStr ''1'')]"

definition sample_tree :: json where
  "sample_tree = JArr [JObj [(''id'', JStr ''7''), (''name'', JStr ''einline''), (''optgroups'', JArr [JStr ''inline''])]]"

definition sample_message :: "json list" where
  "sample_message =
     [JStr ''will not early inline: '', JObj [(''symtab_node'', JStr ''f/1'')], JStr ''->'',
      JObj [(''symtab_node'', JStr ''g.part/2'')], JStr '', call is cold'']"

definition sample_records :: json where
  "sample_records = JArr [JObj [(''kind'', JStr ''failure''), (''pass'', JStr ''7''), (''message'', JArr sample_message)]]"

definition sample_decision :: InlineRecord where
  "sample_decision =
     \<lparr>ir_Pass = ''einline'', ir_CallerLocalID = ''1'', ir_CalleeLocalID = ''2'', ir_CallerName = ''f'',
      ir_CalleeName = ''g.part'', ir_Inlined = False, ir_Reason = ''call is cold'',
      ir_File = [], ir_Line = 0, ir_Column = 0\<rparr>"

theorem ParseOptRecord_decisions_witness:
  "\<exists>d. ParseOptRecord (Some (JArr [sample_meta, sample_tree, sample_records])) = Inr d \<and>
     set (od_InlineRecords d) = {sample_decision}"
proof -
  define p where "p = OptPass ''7'' ''einline'' [''inline''] []"
  define rec where "rec = \<lparr>or_Kind = ''failure'', or_Pass = ''7'', or_Message = sample_message, or_Location = None\<rparr>"
  have "dec_meta sample_meta = Some \<lparr>om_Format = ''1''\<rparr>" by code_simp
  moreover have "json_list dec_pass sample_tree = Some [p]" unfolding p_def by code_simp
  moreover have "json_list dec_record sample_records = Some [rec]" unfolding rec_def by code_simp
  moreover have "decision [p] rec = Some sample_decision"
  proof -
    have "message_items sample_message [] =
        ([''f/1'', ''g.part/2''], [''will not early inline: '', ''->''], '', call is cold'')"
      "splitNode ''f/1'' = Some (''f'', ''1'')" "splitNode ''g.part/2'' = Some (''g.part'', ''2'')"
      "cleanReason '', call is cold'' = ''call is cold''" "Contains ''->'' ''->''" by code_simp+
    moreover have "inline_pass [p] ''7'' = Some ''einline''" unfolding p_def by code_simp
    ultimately show ?thesis by (simp add: decision_def recordFromMessage_def rec_def sample_decision_def Let_def)
  qed
  ultimately show ?thesis
    using ParseOptRecord_decisions [of sample_meta sample_tree "[p]" sample_records "[rec]" "[]"] by auto
qed

section \<open>The direction of a decision\<close>

lemma splitNode_iff:
  "splitNode s = Some (n, i) \<longleftrightarrow> s = n @ ''/'' @ i \<and> n \<noteq> [] \<and> i \<noteq> [] \<and> CHR ''/'' \<notin> set i"
proof
  assume sp: "splitNode s = Some (n, i)"
  then have "IndexByte (rev s) (CHR ''/'') \<noteq> None" by (auto simp: splitNode_def LastIndexByte_def split: option.splits)
  then have "CHR ''/'' \<in> set s" by (simp add: IndexByte_None_iff)
  then obtain a b where ab: "s = a @ CHR ''/'' # b" "CHR ''/'' \<notin> set b" by (auto dest: split_list_last)
  with sp show "s = n @ ''/'' @ i \<and> n \<noteq> [] \<and> i \<noteq> [] \<and> CHR ''/'' \<notin> set i"
    by (auto simp: splitNode_def LastIndexByte_append split: if_splits)
next
  assume "s = n @ ''/'' @ i \<and> n \<noteq> [] \<and> i \<noteq> [] \<and> CHR ''/'' \<notin> set i"
  then show "splitNode s = Some (n, i)" by (auto simp: splitNode_def LastIndexByte_append)
qed

text \<open>
  A message that names two nodes is read with the direction its wording says: with an arrow between
  them the first is the caller, with the word \<^verbatim>\<open>into\<close> or \<^verbatim>\<open>to\<close> and no arrow the second is, and with neither
  the record is dropped.
\<close>

theorem recordFromMessage_direction:
  assumes "n1 \<noteq> []" "i1 \<noteq> []" "CHR ''/'' \<notin> set i1" "n2 \<noteq> []" "i2 \<noteq> []" "CHR ''/'' \<notin> set i2"
    "or_Message rec = [JStr a, JObj [(''symtab_node'', JStr (n1 @ ''/'' @ i1))], JStr sep,
       JObj [(''symtab_node'', JStr (n2 @ ''/'' @ i2))], JStr tail]"
  shows "map_option (\<lambda>ir. ((ir_CallerName ir, ir_CallerLocalID ir), (ir_CalleeName ir, ir_CalleeLocalID ir), ir_Reason ir))
      (recordFromMessage rec pass) =
    (let reason = (if or_Kind rec = ''success'' then [] else cleanReason tail)
     in if Contains sep ''->'' then Some ((n1, i1), (n2, i2), reason)
        else if Contains sep '' into '' \<or> Contains sep '' to '' then Some ((n2, i2), (n1, i1), reason)
        else None)"
proof -
  have d: "dec_node (JObj [(''symtab_node'', JStr s)]) = Some \<lparr>mn_Node = s\<rparr>" for s
    by (simp add: dec_node_def json_object_def jfield_def jget_def json_string_def)
  have "message_items (or_Message rec) [] = ([n1 @ ''/'' @ i1, n2 @ ''/'' @ i2], [a, sep], tail)"
    unfolding assms(7) by (simp add: json_string_def d)
  moreover have "splitNode (n1 @ ''/'' @ i1) = Some (n1, i1)" "splitNode (n2 @ ''/'' @ i2) = Some (n2, i2)"
    using assms(1-6) by (simp_all add: splitNode_iff)
  ultimately show ?thesis by (simp add: recordFromMessage_def Let_def split: option.split)
qed

theorem recordFromMessage_direction_witness:
  "map_option ir_CallerName (recordFromMessage
     \<lparr>or_Kind = ''success'', or_Pass = [], or_Message = [JStr ''Inlined '', JObj [(''symtab_node'', JStr (''g'' @ ''/'' @ ''2''))],
        JStr '' into '', JObj [(''symtab_node'', JStr (''f'' @ ''/'' @ ''1''))], JStr ''.''], or_Location = None\<rparr> ''einline'') = Some ''f''"
proof -
  let ?rec = "\<lparr>or_Kind = ''success'', or_Pass = [], or_Message = [JStr ''Inlined '', JObj [(''symtab_node'', JStr (''g'' @ ''/'' @ ''2''))],
        JStr '' into '', JObj [(''symtab_node'', JStr (''f'' @ ''/'' @ ''1''))], JStr ''.''], or_Location = None\<rparr>"
  have c: "\<not> Contains '' into '' ''->''" "Contains '' into '' '' into ''" by code_simp+
  have "map_option (\<lambda>ir. ((ir_CallerName ir, ir_CallerLocalID ir), (ir_CalleeName ir, ir_CalleeLocalID ir), ir_Reason ir))
      (recordFromMessage ?rec ''einline'') = Some ((''f'', ''1''), (''g'', ''2''), [])"
    using recordFromMessage_direction [of "''g''" "''2''" "''f''" "''1''" ?rec "''Inlined ''" "'' into ''" "''.''" "''einline''"] c
    by simp
  then show ?thesis by (cases "recordFromMessage ?rec ''einline''") simp_all
qed

end
