(* ===== verification/Link_Nm.thy ===== *)
theory Link_Nm
  imports Go_Text
begin

text \<open>
  The reader of \<^verbatim>\<open>nm\<close> output and the index of defined symbols, \<^verbatim>\<open>src/internal/linkplane/nm.go\<close>. Running
  \<^verbatim>\<open>nm\<close> is an argument: a function from the path to the standard output, \<^const>\<open>None\<close> when the tool fails.
\<close>

record NMSymbol =
  nm_Name :: string
  nm_Kind :: string
  nm_Address :: string
  nm_Size :: int

definition Strong :: "NMSymbol \<Rightarrow> bool" where
  "Strong s \<longleftrightarrow> nm_Kind s \<in> {''T'', ''D'', ''B'', ''R''}"

definition Weak :: "NMSymbol \<Rightarrow> bool" where
  "Weak s \<longleftrightarrow> nm_Kind s \<in> {''W'', ''V''}"

definition Local :: "NMSymbol \<Rightarrow> bool" where
  "Local s \<longleftrightarrow>
     (if length (nm_Kind s) \<noteq> 1 then False
      else let c = hd (nm_Kind s)
           in CHR ''a'' \<le> c \<and> c \<le> CHR ''z'' \<and> c \<noteq> CHR ''w'' \<and> c \<noteq> CHR ''v'')"

definition LinkageKind :: "NMSymbol \<Rightarrow> string" where
  "LinkageKind s =
     (if Weak s then ''weak''
      else if nm_Kind s = ''C'' then ''common''
      else if nm_Kind s = ''u'' then ''unique_global''
      else if Strong s then ''strong''
      else [])"

definition IsFunction :: "NMSymbol \<Rightarrow> bool" where
  "IsFunction s \<longleftrightarrow> nm_Kind s = ''T'' \<or> nm_Kind s = ''t'' \<or> nm_Kind s = ''W'' \<or> nm_Kind s = ''w''"

definition nm_line :: "string \<Rightarrow> NMSymbol option" where
  "nm_line text =
     (let line = TrimSpace text
      in if line = [] then None
         else let fields = Fields line
              in if length fields < 2 then None
                 else Some
                   \<lparr>nm_Name = fields ! 0, nm_Kind = fields ! 1,
                    nm_Address = (if 3 \<le> length fields then fields ! 2 else []),
                    nm_Size =
                      (if 4 \<le> length fields
                       then (case ParseInt 16 (fields ! 3) of (n, ok) \<Rightarrow> if ok then n else 0) else 0)\<rparr>)"

text \<open>The symbols and whether the scanner failed, with its default line limit.\<close>

definition parseNMPosix :: "string \<Rightarrow> NMSymbol list \<times> bool" where
  "parseNMPosix out =
     (case scan_lines (64 * 1024) out of (ls, too_long) \<Rightarrow> (List.map_filter nm_line ls, too_long))"

datatype nm_error = Nm_tool string | Nm_scan string

definition RunNMDefined :: "(string \<Rightarrow> string option) \<Rightarrow> string \<Rightarrow> nm_error + NMSymbol list" where
  "RunNMDefined nm path =
     (case nm path of
        None \<Rightarrow> Inl (Nm_tool path)
      | Some stdout \<Rightarrow> (case parseNMPosix stdout of (syms, failed) \<Rightarrow> if failed then Inl (Nm_scan path) else Inr syms))"

text \<open>The same code on the output of \<^verbatim>\<open>nm -u\<close>.\<close>

definition RunNMUndefined :: "(string \<Rightarrow> string option) \<Rightarrow> string \<Rightarrow> nm_error + NMSymbol list" where
  "RunNMUndefined nm path =
     (case nm path of
        None \<Rightarrow> Inl (Nm_tool path)
      | Some stdout \<Rightarrow> (case parseNMPosix stdout of (syms, failed) \<Rightarrow> if failed then Inl (Nm_scan path) else Inr syms))"

record ObjectDef =
  od_Object :: string
  od_Kind :: string

definition add_def :: "string \<Rightarrow> (string, ObjectDef list) gomap \<Rightarrow> NMSymbol \<Rightarrow> (string, ObjectDef list) gomap" where
  "add_def obj out s =
     (if nm_Kind s = [] \<or> nm_Name s = [] then out
      else gput (nm_Name s) (gget_or [] out (nm_Name s) @ [\<lparr>od_Object = obj, od_Kind = nm_Kind s\<rparr>]) out)"

fun scan_objects ::
  "(string \<Rightarrow> string option) \<Rightarrow> string list \<Rightarrow> (string, ObjectDef list) gomap \<Rightarrow> nm_error + (string, ObjectDef list) gomap" where
  "scan_objects nm [] out = Inr out"
| "scan_objects nm (obj # objs) out =
     (case RunNMDefined nm obj of
        Inl e \<Rightarrow> Inl e
      | Inr syms \<Rightarrow> scan_objects nm objs (foldl (add_def obj) out syms))"

definition ScanObjectDefs :: "(string \<Rightarrow> string option) \<Rightarrow> string list \<Rightarrow> nm_error + (string, ObjectDef list) gomap" where
  "ScanObjectDefs nm objects = scan_objects nm objects []"

section \<open>Classification\<close>

text \<open>
  The classes of a symbol do not overlap, every class but one has its linkage kind, and a local
  symbol has none. The exception is the kind \<^verbatim>\<open>u\<close>, a unique global symbol, which is classified as local
  and has a linkage kind.
\<close>

theorem nm_classes:
  "\<not> (Strong s \<and> Weak s) \<and> \<not> (Strong s \<and> Local s) \<and> \<not> (Weak s \<and> Local s) \<and>
   (LinkageKind s = ''strong'' \<longleftrightarrow> Strong s) \<and> (LinkageKind s = ''weak'' \<longleftrightarrow> Weak s) \<and>
   (Local s \<and> LinkageKind s \<noteq> [] \<longleftrightarrow> nm_Kind s = ''u'')"
proof -
  have cases: "Strong s \<Longrightarrow> \<not> Local s \<and> \<not> Weak s" "Weak s \<Longrightarrow> \<not> Local s"
    by (auto simp: Strong_def Weak_def Local_def)
  have "Local s \<Longrightarrow> nm_Kind s \<noteq> ''C''" by (auto simp: Local_def)
  moreover have "nm_Kind s = ''u'' \<Longrightarrow> Local s \<and> \<not> Weak s \<and> \<not> Strong s" by (auto simp: Local_def Weak_def Strong_def)
  moreover have "Strong s \<Longrightarrow> nm_Kind s \<noteq> ''C'' \<and> nm_Kind s \<noteq> ''u''" by (auto simp: Strong_def)
  ultimately show ?thesis using cases by (auto simp: LinkageKind_def)
qed

section \<open>Reading the output\<close>

text \<open>A line of the POSIX format is words of printable bytes with single blanks between them.\<close>

definition words_ok :: "string list \<Rightarrow> bool" where
  "words_ok ws \<longleftrightarrow> ws \<noteq> [] \<and> (\<forall>w \<in> set ws. w \<noteq> [] \<and> (\<forall>c \<in> set w. solid c))"

definition symbol_of :: "string list \<Rightarrow> NMSymbol" where
  "symbol_of ws =
     \<lparr>nm_Name = ws ! 0, nm_Kind = ws ! 1, nm_Address = (if 3 \<le> length ws then ws ! 2 else []),
      nm_Size = (if 4 \<le> length ws \<and> snd (ParseInt 16 (ws ! 3)) then fst (ParseInt 16 (ws ! 3)) else 0)\<rparr>"

lemma join_words_solid:
  assumes "words_ok ws"
  shows "join_with '' '' ws \<noteq> [] \<and> solid (hd (join_with '' '' ws)) \<and> solid (last (join_with '' '' ws)) \<and>
    NL \<notin> set (join_with '' '' ws) \<and> CHR 0x0D \<notin> set (join_with '' '' ws)"
  using assms
proof (induction "'' ''" ws rule: join_with.induct)
  case (2 w)
  then show ?case by (auto simp: words_ok_def solid_def NL_def)
next
  case (3 w v ws)
  then have "words_ok (v # ws)" by (simp add: words_ok_def)
  moreover from 3 have "w \<noteq> []" "\<forall>c \<in> set w. solid c" by (auto simp: words_ok_def)
  moreover from this have "NL \<notin> set w" "CHR 0x0D \<notin> set w" by (auto simp: solid_def NL_def)
  ultimately show ?case using 3 by (auto simp: NL_def)
qed (simp add: words_ok_def)

lemma nm_line_words:
  assumes "words_ok ws"
  shows "nm_line (join_with '' '' ws) = (if 2 \<le> length ws then Some (symbol_of ws) else None)"
proof -
  have "TrimSpace (join_with '' '' ws) = join_with '' '' ws"
    using join_words_solid [OF assms] by (intro TrimSpace_solid) simp_all
  moreover have "Fields (join_with '' '' ws) = ws" using assms by (intro Fields_join) (simp add: words_ok_def)
  moreover have "join_with '' '' ws \<noteq> []" using join_words_solid [OF assms] by blast
  ultimately show ?thesis
    by (auto simp: nm_line_def symbol_of_def Let_def split: prod.split)
qed

text \<open>
  The reader returns one symbol for each line of two or more words, in order, with the first four
  words as its name, kind, address and hexadecimal size; a missing or unreadable size is zero.
\<close>

theorem parseNMPosix_lines:
  assumes "\<forall>ws \<in> set wss. words_ok ws \<and> int (length (join_with '' '' ws)) < 64 * 1024"
  shows "parseNMPosix (unlines (map (join_with '' '') wss)) =
    (map symbol_of (filter (\<lambda>ws. 2 \<le> length ws) wss), False)"
proof -
  have "scan_lines (64 * 1024) (unlines (map (join_with '' '') wss)) = (map (join_with '' '') wss, False)"
    using assms join_words_solid by (intro scan_lines_unlines) (auto simp: plain_line_def)
  moreover have "List.map_filter nm_line (map (join_with '' '') wss) =
      map symbol_of (filter (\<lambda>ws. 2 \<le> length ws) wss)"
    using assms by (induction wss) (auto simp: List.map_filter_simps nm_line_words)
  ultimately show ?thesis by (simp add: parseNMPosix_def)
qed

theorem parseNMPosix_lines_witness:
  "parseNMPosix (unlines (map (join_with '' '') [[''compute'', ''T'', ''11d0'', ''1d''], [''x''], [''printf'', ''U'']])) =
     ([\<lparr>nm_Name = ''compute'', nm_Kind = ''T'', nm_Address = ''11d0'', nm_Size = 29\<rparr>,
       \<lparr>nm_Name = ''printf'', nm_Kind = ''U'', nm_Address = [], nm_Size = 0\<rparr>], False)"
proof -
  let ?wss = "[[''compute'', ''T'', ''11d0'', ''1d''], [''x''], [''printf'', ''U'']]"
  have "\<forall>ws \<in> set ?wss. words_ok ws \<and> int (length (join_with '' '' ws)) < 64 * 1024" by code_simp
  moreover have "map symbol_of (filter (\<lambda>ws. 2 \<le> length ws) ?wss) =
     [\<lparr>nm_Name = ''compute'', nm_Kind = ''T'', nm_Address = ''11d0'', nm_Size = 29\<rparr>,
       \<lparr>nm_Name = ''printf'', nm_Kind = ''U'', nm_Address = [], nm_Size = 0\<rparr>]" by code_simp
  ultimately show ?thesis using parseNMPosix_lines [of ?wss] by simp
qed

section \<open>The index of definitions\<close>

definition defs_in :: "string \<Rightarrow> string \<Rightarrow> NMSymbol list \<Rightarrow> ObjectDef list" where
  "defs_in n obj syms =
     map (\<lambda>s. \<lparr>od_Object = obj, od_Kind = nm_Kind s\<rparr>) (filter (\<lambda>s. nm_Name s = n \<and> nm_Kind s \<noteq> []) syms)"

lemma foldl_add_def:
  "n \<noteq> [] \<Longrightarrow> gget_or [] (foldl (add_def obj) out syms) n = gget_or [] out n @ defs_in n obj syms"
  by (induction syms arbitrary: out) (auto simp: add_def_def gget_or_def defs_in_def)

lemma scan_objects_index:
  "list_all2 (\<lambda>obj syms. RunNMDefined nm obj = Inr syms) objs symss \<Longrightarrow>
     \<exists>idx. scan_objects nm objs out = Inr idx \<and>
       (\<forall>n. n \<noteq> [] \<longrightarrow> gget_or [] idx n = gget_or [] out n @ concat (map2 (defs_in n) objs symss))"
proof (induction objs symss arbitrary: out rule: list_all2_induct)
  case (Cons obj objs syms symss)
  from Cons.IH [of "foldl (add_def obj) out syms"] Cons.hyps(1) show ?case
    by (auto simp: foldl_add_def)
qed simp

text \<open>
  The index of a scan that runs \<^verbatim>\<open>nm\<close> on every object without failure holds, under each name, the
  definitions of that name in all objects, in the order of the objects and within an object in the
  order of its symbols.
\<close>

theorem ScanObjectDefs_index:
  assumes "list_all2 (\<lambda>obj syms. RunNMDefined nm obj = Inr syms) objects symss" "n \<noteq> []"
  shows "\<exists>idx. ScanObjectDefs nm objects = Inr idx \<and>
    gget_or [] idx n = concat (map2 (defs_in n) objects symss)"
  using scan_objects_index [OF assms(1), of "[]"] assms(2) by (auto simp: ScanObjectDefs_def gget_or_def)

definition sample_nm :: "string \<Rightarrow> string option" where
  "sample_nm path =
     (if path = ''a.o'' then Some (unlines (map (join_with '' '') [[''f'', ''T'', ''0'']]))
      else if path = ''b.o'' then Some (unlines (map (join_with '' '') [[''f'', ''W'', ''0'']])) else None)"

theorem ScanObjectDefs_index_witness:
  "\<exists>idx. ScanObjectDefs sample_nm [''a.o'', ''b.o''] = Inr idx \<and>
     gget_or [] idx ''f'' = [\<lparr>od_Object = ''a.o'', od_Kind = ''T''\<rparr>, \<lparr>od_Object = ''b.o'', od_Kind = ''W''\<rparr>]"
proof -
  let ?s = "\<lambda>k. \<lparr>nm_Name = ''f'', nm_Kind = k, nm_Address = ''0'', nm_Size = 0\<rparr>"
  have "RunNMDefined sample_nm ''a.o'' = Inr [?s ''T'']" "RunNMDefined sample_nm ''b.o'' = Inr [?s ''W'']"
    by code_simp+
  then have "list_all2 (\<lambda>obj syms. RunNMDefined sample_nm obj = Inr syms) [''a.o'', ''b.o''] [[?s ''T''], [?s ''W'']]"
    by simp
  from ScanObjectDefs_index [OF this, of "''f''"] show ?thesis by (simp add: defs_in_def)
qed

text \<open>A failure on any object aborts the scan, with the error of the first object that fails.\<close>

lemma ScanObjectDefs_error:
  assumes "list_all2 (\<lambda>obj syms. RunNMDefined nm obj = Inr syms) pre symss" "RunNMDefined nm obj = Inl e"
  shows "ScanObjectDefs nm (pre @ obj # post) = Inl e"
proof -
  have "scan_objects nm (pre @ obj # post) out = Inl e" for out
    using assms by (induction pre symss arbitrary: out rule: list_all2_induct) simp_all
  then show ?thesis by (simp add: ScanObjectDefs_def)
qed

end
