(* ===== verification/Link_Exec.thy ===== *)
theory Link_Exec
  imports Go_Text
begin

text \<open>
  Running binutils, \<^verbatim>\<open>src/internal/linkplane/exec.go\<close>. What a process does is an argument: whether its
  output pipe could be made, whether it started, what it wrote and how it ended. The progress log and
  the time are not modelled. The text of an error is modelled for what the tool wrote; how Go prints a
  process error is an argument.
\<close>

definition stdoutHeadLimit :: nat where
  "stdoutHeadLimit = 2 * 1024"

text \<open>
  \<open>tool_err\<close> is the error of waiting for the process, \<^const>\<open>None\<close> when it ended well, with the diagnostics
  that an exit error itself carries.
\<close>

record tool_run =
  run_pipe_ok :: bool
  run_start_ok :: bool
  run_stdout :: string
  run_stderr :: string
  run_err :: "(string \<times> string) option"

text \<open>\<^verbatim>\<open>strings.TrimRight(s, "\n")\<close>\<close>

definition trim_right_nl :: "string \<Rightarrow> string" where
  "trim_right_nl s = rev (dropWhile (\<lambda>c. c = NL) (rev s))"

definition wrapToolErr :: "string \<Rightarrow> string list \<Rightarrow> string \<Rightarrow> string \<Rightarrow> string \<times> string \<Rightarrow> string" where
  "wrapToolErr name args stdout stderr0 err =
     (let stderr = (if snd err \<noteq> [] \<and> stderr0 = [] then snd err else stderr0);
          s = trim_right_nl stderr;
          b = name @ '' '' @ join_with '' '' args @ '': '' @ fst err;
          b = (if s \<noteq> [] then b @ [NL] @ ''--- stderr ---'' @ [NL] @ s else b)
      in if stdout \<noteq> [] then
           (let head = take stdoutHeadLimit stdout
            in b @ [NL] @ ''--- stdout (first '' @ dec (length head) @ '' bytes)'' @
               (if length head < length stdout then '' of '' @ dec (length stdout) else []) @
               '' ---'' @ [NL] @ head)
         else b)"

definition runTool :: "tool_run \<Rightarrow> string \<Rightarrow> string list \<Rightarrow> string + string" where
  "runTool r name args =
     (case run_err r of
        None \<Rightarrow> Inr (run_stdout r)
      | Some err \<Rightarrow> Inl (wrapToolErr name args (run_stdout r) (run_stderr r) err))"

text \<open>The buffer that keeps the head of the output: writes past the limit are dropped.\<close>

record boundedBuffer =
  bb_buf :: string
  bb_limit :: nat

definition bb_Write :: "boundedBuffer \<Rightarrow> string \<Rightarrow> boundedBuffer \<times> nat" where
  "bb_Write b p =
     (if length (bb_buf b) < bb_limit b then
        (let room = bb_limit b - length (bb_buf b)
         in if length p \<le> room then (b\<lparr>bb_buf := bb_buf b @ p\<rparr>, length p)
            else (b\<lparr>bb_buf := bb_buf b @ take room p\<rparr>, length p))
      else (b, length p))"

definition bb_Bytes :: "boundedBuffer \<Rightarrow> string" where
  "bb_Bytes b = bb_buf b"

text \<open>
  The streaming form: the consumer sees the whole output, in chunks that are also written to the head
  buffer; its error comes before the error of the process.
\<close>

datatype 'e stream_error = Stream_pipe | Stream_start | Stream_consume 'e | Stream_wait string

definition runToolStreaming ::
  "tool_run \<Rightarrow> string list \<Rightarrow> string \<Rightarrow> string list \<Rightarrow> (string \<Rightarrow> 'e option) \<Rightarrow> 'e stream_error option" where
  "runToolStreaming r chunks name args consume =
     (if \<not> run_pipe_ok r then Some Stream_pipe
      else if \<not> run_start_ok r then Some Stream_start
      else let head = foldl (\<lambda>b p. fst (bb_Write b p)) \<lparr>bb_buf = [], bb_limit = stdoutHeadLimit\<rparr> chunks
           in case consume (concat chunks) of
                Some e \<Rightarrow> Some (Stream_consume e)
              | None \<Rightarrow>
                  (case run_err r of
                     Some err \<Rightarrow> Some (Stream_wait (wrapToolErr name args (bb_Bytes head) (run_stderr r) err))
                   | None \<Rightarrow> None))"

section \<open>The head of the output\<close>

lemma bb_Write_take:
  assumes "bb_buf b = take (bb_limit b) w"
  shows "bb_buf (fst (bb_Write b p)) = take (bb_limit b) (w @ p) \<and> bb_limit (fst (bb_Write b p)) = bb_limit b"
  using assms by (auto simp: bb_Write_def Let_def min_def)

lemma bb_writes:
  "bb_buf b = take (bb_limit b) w \<Longrightarrow>
     bb_buf (foldl (\<lambda>b p. fst (bb_Write b p)) b chunks) = take (bb_limit b) (w @ concat chunks) \<and>
     bb_limit (foldl (\<lambda>b p. fst (bb_Write b p)) b chunks) = bb_limit b"
proof (induction chunks arbitrary: b w)
  case (Cons p chunks)
  from bb_Write_take [OF Cons.prems, of p] Cons.IH [of "fst (bb_Write b p)" "w @ p"] show ?case by simp
qed simp

text \<open>
  The streaming runner keeps the head of the output exactly, however the output is cut into writes:
  when the consumer succeeds and the process fails, the error is the one the buffering runner would
  report for the first two kibibytes of the output.
\<close>

theorem runToolStreaming_head:
  assumes "run_pipe_ok r" "run_start_ok r" "run_err r = Some err" "consume (concat chunks) = None"
  shows "runToolStreaming r chunks name args consume =
    Some (Stream_wait (wrapToolErr name args (take stdoutHeadLimit (concat chunks)) (run_stderr r) err))"
  using assms bb_writes [of "\<lparr>bb_buf = [], bb_limit = stdoutHeadLimit\<rparr>" "[]" chunks]
  by (simp add: runToolStreaming_def bb_Bytes_def Let_def)

definition sample_run :: tool_run where
  "sample_run = \<lparr>run_pipe_ok = True, run_start_ok = True, run_stdout = [], run_stderr = ''bad'' @ [NL],
     run_err = Some (''exit status 1'', [])\<rparr>"

theorem runToolStreaming_head_witness:
  "runToolStreaming sample_run [''ab'', ''c''] ''nm'' [''x''] (\<lambda>_. None :: nat option) =
     Some (Stream_wait (wrapToolErr ''nm'' [''x''] (take stdoutHeadLimit ''abc'') (''bad'' @ [NL]) (''exit status 1'', [])))"
  using runToolStreaming_head [of sample_run "(''exit status 1'', [])" "\<lambda>_. None :: nat option" "[''ab'', ''c'']" "''nm''" "[''x'']"]
  by (simp add: sample_run_def)

end
