(* ===== verification/Link_Objdump.thy ===== *)
theory Link_Objdump
  imports Go_Regex
begin

text \<open>
  The reader of disassembly, \<^verbatim>\<open>src/internal/linkplane/objdump.go\<close>. The theorems say that every edge leaves the
  function whose label is the last one above it, and what the name of a callee becomes without its
  decorations.
\<close>

record ObjdumpEdge =
  ode_Caller :: string
  ode_CallerAddr :: nat
  ode_Callee :: string
  ode_CalleeAddr :: nat

definition CalleeStripped :: "ObjdumpEdge \<Rightarrow> string" where
  "CalleeStripped e =
     (case IndexByte (ode_Callee e) (CHR 0x40) of Some i \<Rightarrow> take i (ode_Callee e) | None \<Rightarrow> ode_Callee e)"

text \<open>\<^verbatim>\<open>^([0-9a-fA-F]+)\s+<([^>]+)>:$\<close>\<close>

definition odFuncRe :: rx where
  "odFuncRe =
     RSeq RBegin
       (RSeq (RCap 1 (RPlus (RSet is_hex)))
         (RSeq (RPlus (RSet is_blank))
           (RSeq (RLit ''<'')
             (RSeq (RCap 2 (RPlus (RSet (\<lambda>c. c \<noteq> CHR ''>'')))) (RSeq (RLit ''>:'') REnd)))))"

text \<open>\<^verbatim>\<open>^\s+[0-9a-fA-F]+:\s+(?:call|jmp)\s+([0-9a-fA-F]+)\s+<([^>]+)>\<close>\<close>

definition odDirectCallRe :: rx where
  "odDirectCallRe =
     RSeq RBegin
       (RSeq (RPlus (RSet is_blank))
         (RSeq (RPlus (RSet is_hex))
           (RSeq (RLit '':'')
             (RSeq (RPlus (RSet is_blank))
               (RSeq (RAlt (RLit ''call'') (RLit ''jmp''))
                 (RSeq (RPlus (RSet is_blank))
                   (RSeq (RCap 1 (RPlus (RSet is_hex)))
                     (RSeq (RPlus (RSet is_blank))
                       (RSeq (RLit ''<'')
                         (RSeq (RCap 2 (RPlus (RSet (\<lambda>c. c \<noteq> CHR ''>'')))) (RLit ''>'')))))))))))"

record od_state =
  ost_edges :: "ObjdumpEdge list"
  ost_curFunc :: string
  ost_curFuncAddr :: nat

definition od_step :: "od_state \<Rightarrow> string \<Rightarrow> od_state" where
  "od_step st line =
     (case rx_find odFuncRe line of
        Some m \<Rightarrow> st\<lparr>ost_curFunc := rx_group m 2, ost_curFuncAddr := fst (ParseUint 16 (rx_group m 1))\<rparr>
      | None \<Rightarrow>
          if ost_curFunc st = [] then st
          else case rx_find odDirectCallRe line of
                 Some m \<Rightarrow>
                   st\<lparr>ost_edges := ost_edges st @
                     [\<lparr>ode_Caller = ost_curFunc st, ode_CallerAddr = ost_curFuncAddr st,
                       ode_Callee = rx_group m 2, ode_CalleeAddr = fst (ParseUint 16 (rx_group m 1))\<rparr>]\<rparr>
               | None \<Rightarrow> st)"

definition parseObjdumpStream :: "string \<Rightarrow> ObjdumpEdge list \<times> bool" where
  "parseObjdumpStream content =
     (case scan_lines (4 * 1024 * 1024) content of
        (ls, too_long) \<Rightarrow>
          (ost_edges (foldl od_step \<lparr>ost_edges = [], ost_curFunc = [], ost_curFuncAddr = 0\<rparr> ls), too_long))"

text \<open>
  The tool is an argument: what it wrote, and whether it started and ended well. An error of the reader
  or of the tool gives no edges.
\<close>

definition RunObjdump :: "(string \<Rightarrow> (string \<times> bool) option) \<Rightarrow> string \<Rightarrow> ObjdumpEdge list option" where
  "RunObjdump objdump path =
     (case objdump path of
        None \<Rightarrow> None
      | Some (stdout, exit_ok) \<Rightarrow>
          (case parseObjdumpStream stdout of
             (edges, failed) \<Rightarrow> if failed \<or> \<not> exit_ok then None else Some edges))"

section \<open>Edges and labels\<close>

text \<open>The label of a line, and the call of a line that is no label.\<close>

definition label_of :: "string \<Rightarrow> (string \<times> nat) option" where
  "label_of line = map_option (\<lambda>m. (rx_group m 2, fst (ParseUint 16 (rx_group m 1)))) (rx_find odFuncRe line)"

definition call_of :: "string \<Rightarrow> (string \<times> nat) option" where
  "call_of line =
     (if label_of line \<noteq> None then None
      else map_option (\<lambda>m. (rx_group m 2, fst (ParseUint 16 (rx_group m 1)))) (rx_find odDirectCallRe line))"

text \<open>The last label above a line.\<close>

definition label_above :: "string list \<Rightarrow> (string \<times> nat) option" where
  "label_above pre = (let ls = List.map_filter label_of pre in if ls = [] then None else Some (last ls))"

definition edge_at :: "string list \<Rightarrow> string \<Rightarrow> ObjdumpEdge option" where
  "edge_at pre line =
     (case (label_above pre, call_of line) of
        (Some (f, fa), Some (g, ga)) \<Rightarrow>
          Some \<lparr>ode_Caller = f, ode_CallerAddr = fa, ode_Callee = g, ode_CalleeAddr = ga\<rparr>
      | _ \<Rightarrow> None)"

lemma label_not_Nil: "label_of line = Some (f, a) \<Longrightarrow> f \<noteq> []"
proof -
  assume "label_of line = Some (f, a)"
  then obtain m where m: "rx_find odFuncRe line = Some m" "f = rx_group m 2" by (auto simp: label_of_def)
  let ?tail = "RSeq (RLit ''>:'') REnd"
  let ?name = "RCap 2 (RPlus (RSet (\<lambda>c. c \<noteq> CHR ''>'')))"
  let ?r = "RSeq (RCap 1 (RPlus (RSet is_hex))) (RSeq (RPlus (RSet is_blank)) (RSeq (RLit ''<'') (RSeq ?name ?tail)))"
  from m(1) have "rx_at ?r [] line = Some m" by (simp add: odFuncRe_def rx_find_anchored)
  from rx_at_in_match [OF this] obtain l' where "(l', rf_after m, rf_groups m) \<in> set (rx_match ?r ([], line, []))" by blast
  from match_seqD [OF this] obtain st1 where
    "(l', rf_after m, rf_groups m) \<in> set (rx_match (RSeq (RPlus (RSet is_blank)) (RSeq (RLit ''<'') (RSeq ?name ?tail))) st1)" by blast
  from match_seqD [OF this] obtain st2 where
    "(l', rf_after m, rf_groups m) \<in> set (rx_match (RSeq (RLit ''<'') (RSeq ?name ?tail)) st2)" by blast
  from match_seqD [OF this] obtain l1 s1 g1 where
    "(l', rf_after m, rf_groups m) \<in> set (rx_match (RSeq ?name ?tail) (l1, s1, g1))" by (metis prod_cases3)
  from match_seqD [OF this] obtain st3 where
    st3: "st3 \<in> set (rx_match ?name (l1, s1, g1))" "(l', rf_after m, rf_groups m) \<in> set (rx_match ?tail st3)" by blast
  from match_capD [OF st3(1)] st3(2) obtain l2 s2 g2 where
    n: "(l2, s2, g2) \<in> set (rx_match (RPlus (RSet (\<lambda>c. c \<noteq> CHR ''>''))) (l1, s1, g1))"
    and t: "(l', rf_after m, rf_groups m) \<in> set (rx_match ?tail (l2, s2, (2, take (length s1 - length s2) s1) # g2))"
    by blast
  have "map_of (rf_groups m) 2 = Some (take (length s1 - length s2) s1)"
    using rx_match_keeps_group [OF t, of 2] by simp
  moreover obtain w where w: "s1 = w @ s2" using n by (rule rx_match_consumesE)
  moreover have "w \<noteq> []" using rx_match_sound [OF n w] by (simp add: rx_rel_RPlus_set)
  ultimately show ?thesis using m(2) by (simp add: rx_group_def)
qed

lemma label_above_snoc: "label_above (pre @ [l]) = (case label_of l of Some x \<Rightarrow> Some x | None \<Rightarrow> label_above pre)"
  by (cases "label_of l")
    (simp_all add: label_above_def map_filter_append List.map_filter_simps Let_def)

lemma od_run:
  "let st = foldl od_step \<lparr>ost_edges = [], ost_curFunc = [], ost_curFuncAddr = 0\<rparr> ls
   in ost_edges st = List.map_filter (\<lambda>i. edge_at (take i ls) (ls ! i)) [0..<length ls] \<and>
      (case label_above ls of None \<Rightarrow> ost_curFunc st = [] | Some (f, a) \<Rightarrow> ost_curFunc st = f \<and> ost_curFuncAddr st = a \<and> f \<noteq> [])"
proof (induction ls rule: rev_induct)
  case Nil
  then show ?case by (simp add: label_above_def map_filter_def)
next
  case (snoc l ls)
  define st where "st = foldl od_step \<lparr>ost_edges = [], ost_curFunc = [], ost_curFuncAddr = 0\<rparr> ls"
  have step: "foldl od_step \<lparr>ost_edges = [], ost_curFunc = [], ost_curFuncAddr = 0\<rparr> (ls @ [l]) = od_step st l"
    by (simp add: st_def)
  note IH = snoc [folded st_def, unfolded Let_def]
  have before: "List.map_filter (\<lambda>i. edge_at (take i (ls @ [l])) ((ls @ [l]) ! i)) [0..<length ls] =
      List.map_filter (\<lambda>i. edge_at (take i ls) (ls ! i)) [0..<length ls]"
    by (rule map_filter_cong) (simp add: nth_append)
  have log: "List.map_filter (\<lambda>i. edge_at (take i (ls @ [l])) ((ls @ [l]) ! i)) [0..<length (ls @ [l])] =
      List.map_filter (\<lambda>i. edge_at (take i ls) (ls ! i)) [0..<length ls] @
      (case edge_at ls l of None \<Rightarrow> [] | Some e \<Rightarrow> [e])"
    unfolding before [symmetric] by (simp add: map_filter_append List.map_filter_simps split: option.split)
  show ?case
  proof (cases "label_of l")
    case (Some x)
    then obtain m where "rx_find odFuncRe l = Some m" "x = (rx_group m 2, fst (ParseUint 16 (rx_group m 1)))"
      by (auto simp: label_of_def)
    moreover have "edge_at ls l = None" using Some by (simp add: edge_at_def call_of_def split: option.split)
    moreover have "fst x \<noteq> []" using Some label_not_Nil by (cases x) simp
    ultimately show ?thesis using IH Some unfolding step log by (simp add: od_step_def label_above_snoc Let_def)
  next
    case None
    then have n: "rx_find odFuncRe l = None" by (simp add: label_of_def)
    show ?thesis
      using IH None unfolding step log
      by (cases "label_above ls"; cases "rx_find odDirectCallRe l")
        (auto simp: od_step_def n label_above_snoc edge_at_def call_of_def Let_def)
  qed
qed

text \<open>
  The edges of a disassembly are exactly the direct calls and jumps below some label, in order, and
  each leaves the function of the last label above it.
\<close>

theorem parseObjdumpStream_edges:
  "fst (parseObjdumpStream content) =
     (let ls = fst (scan_lines (4 * 1024 * 1024) content)
      in List.map_filter (\<lambda>i. edge_at (take i ls) (ls ! i)) [0..<length ls])"
proof -
  obtain ls e where s: "scan_lines (4 * 1024 * 1024) content = (ls, e)" by fastforce
  show ?thesis unfolding parseObjdumpStream_def s using od_run [of ls] by (simp add: Let_def)
qed

text \<open>The name without decorations is the part before the first at sign.\<close>

lemma CalleeStripped_spec:
  "CHR 0x40 \<notin> set (CalleeStripped e) \<and>
   (\<exists>d. ode_Callee e = CalleeStripped e @ d \<and> (d = [] \<or> hd d = CHR 0x40))"
proof (cases "IndexByte (ode_Callee e) (CHR 0x40)")
  case None
  then have "CHR 0x40 \<notin> set (ode_Callee e)" using IndexByte_None_iff by metis
  with None show ?thesis by (simp add: CalleeStripped_def)
next
  case (Some i)
  note p = IndexByte_Some_take [OF Some]
  then have "ode_Callee e = take i (ode_Callee e) @ drop i (ode_Callee e)" "hd (drop i (ode_Callee e)) = CHR 0x40"
    by (simp_all add: hd_drop_conv_nth)
  with Some p show ?thesis
    by (simp add: CalleeStripped_def) (metis append_take_drop_id)
qed

end
