(* ===== verification/Link_Map.thy ===== *)
theory Link_Map
  imports Go_Regex
begin

text \<open>
  The reader of GNU ld map files, \<^verbatim>\<open>src/internal/linkplane/mapfile.go\<close>: a line machine with three phases. The
  theorems say what supplies the origin of a symbol, that a file without a load list yields nothing, and
  how the archive of an object path is inferred.
\<close>

record ArchivePull =
  ap_Object :: string
  ap_Referrer :: string
  ap_Symbol :: string

record MapFile =
  mf_SymbolOrigin :: "(string, string) gomap"
  mf_ArchivePulls :: "ArchivePull list"

definition ArchiveFor :: "string \<Rightarrow> string" where
  "ArchiveFor objectPath =
     (case Index objectPath ''.a.p/'' of None \<Rightarrow> [] | Some idx \<Rightarrow> take (idx + 2) objectPath)"

section \<open>The patterns\<close>

definition not_blank :: "char \<Rightarrow> bool" where
  "not_blank c \<longleftrightarrow> \<not> is_blank c"

text \<open>\<^verbatim>\<open>0x[0-9a-fA-F]+\<close>, \<^verbatim>\<open>\.[\w.]+\<close> and \<^verbatim>\<open>\S+\.o\<close>\<close>

definition hex_rx :: rx where
  "hex_rx = RSeq (RLit ''0x'') (RPlus (RSet is_hex))"

definition section_rx :: rx where
  "section_rx = RSeq (RLit ''.'') (RPlus (RSet (\<lambda>c. is_word c \<or> c = CHR ''.'')))"

definition object_rx :: rx where
  "object_rx = RSeq (RPlus (RSet not_blank)) (RLit ''.o'')"

definition blanks_rx :: rx where
  "blanks_rx = RPlus (RSet is_blank)"

definition mfContribRe :: rx where
  "mfContribRe =
     RSeqs [RBegin, blanks_rx, section_rx, blanks_rx, hex_rx, blanks_rx, hex_rx, blanks_rx, RCap 1 object_rx, REnd]"

definition mfContribHeadRe :: rx where
  "mfContribHeadRe = RSeqs [RBegin, blanks_rx, section_rx, RStar (RSet is_blank), REnd]"

definition mfContribTailRe :: rx where
  "mfContribTailRe = RSeqs [RBegin, blanks_rx, hex_rx, blanks_rx, hex_rx, blanks_rx, RCap 1 object_rx, REnd]"

definition mfSymRe :: rx where
  "mfSymRe =
     RSeqs [RBegin, blanks_rx, hex_rx, blanks_rx,
       RCap 1 (RSeq (RSet is_alpha) (RStar (RSet (\<lambda>c. is_word c \<or> c = CHR ''.'' \<or> c = CHR ''$'' \<or> c = CHR 0x40)))), REnd]"

definition mfLoadObject :: rx where
  "mfLoadObject = RSeqs [RBegin, RCap 1 object_rx, REnd]"

definition mfLoadRef :: rx where
  "mfLoadRef =
     RSeqs [RBegin, blanks_rx, RCap 1 object_rx, blanks_rx, RLit ''('', RCap 2 (RPlus (RSet (\<lambda>c. c \<noteq> CHR '')''))), RLit '')'', REnd]"

section \<open>The line machine\<close>

datatype phase = Header | Load_list | Sections

record map_state =
  ms_mf :: MapFile
  ms_phase :: phase
  ms_pendingLoadObject :: string
  ms_curContribObject :: string
  ms_pendingSplitHeader :: bool

definition ends_load_list :: "string \<Rightarrow> bool" where
  "ends_load_list trimmed \<longleftrightarrow>
     HasPrefix trimmed ''Merging program properties'' \<or> HasPrefix trimmed ''Discarded input sections'' \<or>
     HasPrefix trimmed ''As-needed library'' \<or> HasPrefix trimmed ''Memory Configuration''"

definition load_line :: "map_state \<Rightarrow> string \<Rightarrow> map_state" where
  "load_line st line =
     (let trimmed = TrimSpace line
      in if trimmed = [] then st
         else if ends_load_list trimmed then st\<lparr>ms_phase := Sections\<rparr>
         else case rx_find mfLoadObject trimmed of
                Some m \<Rightarrow> st\<lparr>ms_pendingLoadObject := rx_group m 1\<rparr>
              | None \<Rightarrow>
                  (case (if ms_pendingLoadObject st \<noteq> [] then rx_find mfLoadRef line else None) of
                     Some m \<Rightarrow>
                       st\<lparr>ms_mf := (ms_mf st)\<lparr>mf_ArchivePulls := mf_ArchivePulls (ms_mf st) @
                            [\<lparr>ap_Object = ms_pendingLoadObject st, ap_Referrer = rx_group m 1, ap_Symbol = rx_group m 2\<rparr>]\<rparr>,
                          ms_pendingLoadObject := []\<rparr>
                   | None \<Rightarrow> st))"

text \<open>A symbol assignment under the open contribution: the first object of a name stays.\<close>

definition assign_symbol :: "map_state \<Rightarrow> string \<Rightarrow> map_state" where
  "assign_symbol st name =
     (if gget (mf_SymbolOrigin (ms_mf st)) name \<noteq> None then st
      else st\<lparr>ms_mf := (ms_mf st)\<lparr>mf_SymbolOrigin := gput name (ms_curContribObject st) (mf_SymbolOrigin (ms_mf st))\<rparr>\<rparr>)"

definition section_line :: "map_state \<Rightarrow> string \<Rightarrow> map_state" where
  "section_line st0 line =
     (let st = st0\<lparr>ms_pendingSplitHeader := False\<rparr>
      in case (if ms_pendingSplitHeader st0 then rx_find mfContribTailRe line else None) of
           Some m \<Rightarrow> st\<lparr>ms_curContribObject := rx_group m 1\<rparr>
         | None \<Rightarrow>
             (case rx_find mfContribRe line of
                Some m \<Rightarrow> st\<lparr>ms_curContribObject := rx_group m 1\<rparr>
              | None \<Rightarrow>
                  if rx_test mfContribHeadRe line then st\<lparr>ms_pendingSplitHeader := True\<rparr>
                  else case (if ms_curContribObject st \<noteq> [] then rx_find mfSymRe line else None) of
                         Some m \<Rightarrow> assign_symbol st (rx_group m 1)
                       | None \<Rightarrow> if HasPrefix line ''  '' then st else st\<lparr>ms_curContribObject := []\<rparr>))"

definition map_step :: "map_state \<Rightarrow> string \<Rightarrow> map_state" where
  "map_step st line =
     (case ms_phase st of
        Header \<Rightarrow>
          if HasPrefix (TrimSpace line) ''Archive member included'' then st\<lparr>ms_phase := Load_list\<rparr> else st
      | Load_list \<Rightarrow> load_line st line
      | Sections \<Rightarrow> section_line st line)"

definition map_init :: map_state where
  "map_init =
     \<lparr>ms_mf = \<lparr>mf_SymbolOrigin = [], mf_ArchivePulls = []\<rparr>, ms_phase = Header, ms_pendingLoadObject = [],
      ms_curContribObject = [], ms_pendingSplitHeader = False\<rparr>"

text \<open>\<^const>\<open>None\<close> when the file cannot be opened; otherwise the result and whether the scanner failed.\<close>

definition ReadMap :: "string option \<Rightarrow> (MapFile \<times> bool) option" where
  "ReadMap file =
     map_option (\<lambda>content.
         case scan_lines (4 * 1024 * 1024) content of
           (ls, too_long) \<Rightarrow> (ms_mf (foldl map_step map_init ls), too_long)) file"

section \<open>Origins\<close>

text \<open>The assignment that a line makes in a state: a symbol line under an open contribution.\<close>

definition assigns :: "map_state \<Rightarrow> string \<Rightarrow> (string \<times> string) option" where
  "assigns st line =
     (if ms_phase st = Sections \<and> ms_curContribObject st \<noteq> [] \<and>
         \<not> (ms_pendingSplitHeader st \<and> rx_test mfContribTailRe line) \<and>
         \<not> rx_test mfContribRe line \<and> \<not> rx_test mfContribHeadRe line
      then map_option (\<lambda>m. (rx_group m 1, ms_curContribObject st)) (rx_find mfSymRe line) else None)"

lemma assign_origin:
  "gget (mf_SymbolOrigin (ms_mf (map_step st line))) n =
     (case gget (mf_SymbolOrigin (ms_mf st)) n of
        Some ob \<Rightarrow> Some ob
      | None \<Rightarrow> (case assigns st line of Some (n', ob) \<Rightarrow> if n' = n then Some ob else None | None \<Rightarrow> None))"
proof (cases "ms_phase st")
  case Header
  then show ?thesis by (simp add: map_step_def assigns_def split: option.split)
next
  case Load_list
  then show ?thesis
    by (simp add: map_step_def load_line_def assigns_def Let_def split: option.split)
next
  case Sections
  show ?thesis
  proof (cases "assigns st line")
    case (Some x)
    then obtain m where "rx_find mfSymRe line = Some m" "x = (rx_group m 1, ms_curContribObject st)"
      "ms_curContribObject st \<noteq> []" "\<not> (ms_pendingSplitHeader st \<and> rx_test mfContribTailRe line)"
      "rx_find mfContribRe line = None" "\<not> rx_test mfContribHeadRe line"
      by (auto simp: assigns_def rx_test_def split: if_splits)
    moreover from this have "(if ms_pendingSplitHeader st then rx_find mfContribTailRe line else None) = None"
      by (simp add: rx_test_def)
    ultimately show ?thesis
      using Sections Some
      by (simp add: map_step_def section_line_def assign_symbol_def Let_def split: option.split)
  next
    case None
    with Sections show ?thesis
      by (auto simp: map_step_def section_line_def assigns_def Let_def rx_test_def split: option.split if_splits)
  qed
qed

lemma map_run:
  "gget (mf_SymbolOrigin (ms_mf (foldl map_step map_init ls))) n =
     map_of (List.map_filter (\<lambda>i. assigns (foldl map_step map_init (take i ls)) (ls ! i)) [0..<length ls]) n"
proof (induction ls rule: rev_induct)
  case Nil
  then show ?case by (simp add: map_init_def List.map_filter_simps)
next
  case (snoc l ls)
  have before: "List.map_filter (\<lambda>i. assigns (foldl map_step map_init (take i (ls @ [l]))) ((ls @ [l]) ! i)) [0..<length ls] =
      List.map_filter (\<lambda>i. assigns (foldl map_step map_init (take i ls)) (ls ! i)) [0..<length ls]"
    by (rule map_filter_cong) (simp add: nth_append)
  define st where "st = foldl map_step map_init ls"
  have log: "List.map_filter (\<lambda>i. assigns (foldl map_step map_init (take i (ls @ [l]))) ((ls @ [l]) ! i)) [0..<length (ls @ [l])] =
      List.map_filter (\<lambda>i. assigns (foldl map_step map_init (take i ls)) (ls ! i)) [0..<length ls] @
      (case assigns st l of None \<Rightarrow> [] | Some x \<Rightarrow> [x])"
    unfolding before [symmetric] st_def by (simp add: map_filter_append List.map_filter_simps split: option.split)
  have "foldl map_step map_init (ls @ [l]) = map_step st l" by (simp add: st_def)
  then show ?case
    unfolding log using snoc [folded st_def] assign_origin [of st l n]
    by (simp add: map_add_def split: option.split prod.split)
qed

text \<open>
  The origin of a symbol is the object of the contribution that is open at the first line that
  assigns the symbol; a later assignment never changes it, and a symbol that no line assigns has none.
\<close>

theorem ReadMap_origin:
  "map_option (\<lambda>(mf, e). gget (mf_SymbolOrigin mf) n) (ReadMap inp) =
     map_option (\<lambda>content.
       let ls = fst (scan_lines (4 * 1024 * 1024) content)
       in map_of (List.map_filter (\<lambda>i. assigns (foldl map_step map_init (take i ls)) (ls ! i)) [0..<length ls]) n) inp"
proof (cases inp)
  case (Some content)
  obtain ls e where s: "scan_lines (4 * 1024 * 1024) content = (ls, e)" by fastforce
  show ?thesis unfolding ReadMap_def Some option.map s using map_run [of ls n] by (simp add: Let_def)
qed (simp add: ReadMap_def)

text \<open>
  The reader leaves its first phase only at a load list: a map file of a link that pulled nothing
  from an archive has no such line, and its symbol assignments are all skipped.
\<close>

theorem ReadMap_no_load_list:
  assumes "scan_lines (4 * 1024 * 1024) content = (ls, e)"
    "\<forall>l \<in> set ls. \<not> HasPrefix (TrimSpace l) ''Archive member included''"
  shows "ReadMap (Some content) = Some (\<lparr>mf_SymbolOrigin = [], mf_ArchivePulls = []\<rparr>, e)"
proof -
  have "foldl map_step map_init ls = map_init"
    using assms(2) by (induction ls) (simp_all add: map_step_def map_init_def)
  then show ?thesis unfolding ReadMap_def option.map assms(1) by (simp add: map_init_def)
qed

definition sample_map :: "string list" where
  "sample_map = [''Memory Configuration'', '' .text 0x11a0 0x6 app/x.c.o'', ''                0x11a0                hook'']"

theorem ReadMap_no_load_list_witness:
  "ReadMap (Some (unlines sample_map)) = Some (\<lparr>mf_SymbolOrigin = [], mf_ArchivePulls = []\<rparr>, False)"
proof -
  have "scan_lines (4 * 1024 * 1024) (unlines sample_map) = (sample_map, False)" by code_simp
  moreover have "\<forall>l \<in> set sample_map. \<not> HasPrefix (TrimSpace l) ''Archive member included''" by code_simp
  ultimately show ?thesis by (rule ReadMap_no_load_list)
qed

section \<open>Archives\<close>

text \<open>
  An object path names an archive exactly when it has a directory with Meson's suffix for static
  libraries, and the archive is the path up to the first such suffix.
\<close>

theorem ArchiveFor_spec:
  "if \<exists>a r. p = a @ ''.a.p/'' @ r
   then \<exists>a r. p = a @ ''.a.p/'' @ r \<and> \<not> Contains (a @ ''.a.p'') ''.a.p/'' \<and> ArchiveFor p = a @ ''.a''
   else ArchiveFor p = []"
proof (cases "Index p ''.a.p/''")
  case None
  then show ?thesis using Index_None_iff [of p "''.a.p/''"] by (simp add: ArchiveFor_def)
next
  case (Some i)
  define a where "a = take i p"
  define r where "r = drop (i + length ''.a.p/'') p"
  have sp: "p = a @ ''.a.p/'' @ r" unfolding a_def r_def by (rule Index_split [OF Some])
  have i: "i = length a" using Some by (simp add: a_def Index_Some_iff)
  have "ArchiveFor p = take (i + 2) p" using Some by (simp add: ArchiveFor_def)
  then have "ArchiveFor p = a @ ''.a''" by (simp add: sp i)
  moreover have "\<not> Contains (a @ ''.a.p'') ''.a.p/''"
  proof
    assume "Contains (a @ ''.a.p'') ''.a.p/''"
    then obtain u v where uv: "a @ ''.a.p'' = u @ ''.a.p/'' @ v" unfolding Contains_iff by blast
    then have "length (a @ ''.a.p'') = length (u @ ''.a.p/'' @ v)" by simp
    then have "length u < i" by (simp add: i)
    then have "\<not> HasPrefix (drop (length u) p) ''.a.p/''" using Some by (simp add: Index_Some_iff)
    moreover have "p = u @ ''.a.p/'' @ v @ ''/'' @ r" using sp uv by (metis append.assoc append_Cons append_Nil)
    ultimately show False by simp
  qed
  ultimately show ?thesis using sp by auto
qed

end
