(* ===== verification/Meson_Introspect.thy ===== *)
theory Meson_Introspect
  imports Go_Json
begin

text \<open>
  The reader of Meson's introspection files, \<^verbatim>\<open>src/internal/mesonintrospect/mesonintrospect.go\<close>. The
  files are given as JSON values. Slices that the code compares with nil are options.
\<close>

record Target =
  tg_Name :: string
  tg_ID :: string
  tg_Kind :: string
  tg_DefinedIn :: string
  tg_Filenames :: "string list"
  tg_Sources :: "string list"
  tg_Generated :: "string list"
  tg_CompileParams :: "string list"
  tg_CompilerCmd :: "string list option"
  tg_LinkCmd :: "string list option"
  tg_Installed :: bool
  tg_Subproject :: string

record CompilerInfo =
  cc_ID :: string
  cc_Version :: string
  cc_FullVersion :: string
  cc_Exelist :: "string list"
  cc_LinkerID :: string

record Dependency =
  dep_Name :: string
  dep_Version :: string
  dep_Type :: string

record Introspection =
  in_MesonVersion :: string
  in_SourceDir :: string
  in_BuildDir :: string
  in_Targets :: "Target list"
  in_CCompiler :: CompilerInfo
  in_Dependencies :: "Dependency list"

record rawSrcGrp =
  sg_Language :: string
  sg_Compiler :: "string list option"
  sg_Linker :: "string list"
  sg_Parameters :: "string list"
  sg_Sources :: "string list"
  sg_GeneratedSources :: "string list"

record rawTarget =
  rt_Name :: string
  rt_ID :: string
  rt_Type :: string
  rt_DefinedIn :: string
  rt_Filename :: "string list"
  rt_Sources :: "rawSrcGrp list"
  rt_Installed :: bool
  rt_Subproject :: "string option"

record rawCompiler =
  rc_ID :: string
  rc_Version :: string
  rc_FullVersion :: string
  rc_Exelist :: "string list"
  rc_LinkerID :: string

definition normalizeKind :: "string \<Rightarrow> string" where
  "normalizeKind mesonType =
     (if mesonType = ''executable'' then ''executable''
      else if mesonType = ''static library'' then ''static_library''
      else if mesonType = ''shared library'' then ''shared_library''
      else mesonType)"

definition add_group :: "Target \<Rightarrow> rawSrcGrp \<Rightarrow> Target" where
  "add_group t0 g =
     (let t = (if sg_Language g = ''c'' then
                 (let t = t0\<lparr>tg_Sources := tg_Sources t0 @ sg_Sources g, tg_Generated := tg_Generated t0 @ sg_GeneratedSources g\<rparr>
                  in if tg_CompilerCmd t = None
                     then t\<lparr>tg_CompilerCmd := sg_Compiler g, tg_CompileParams := sg_Parameters g\<rparr> else t)
               else t0)
      in if 0 < length (sg_Linker g) \<and> tg_LinkCmd t = None
         then t\<lparr>tg_LinkCmd := Some (sg_Linker g @ sg_Parameters g)\<rparr> else t)"

definition toTarget :: "rawTarget \<Rightarrow> Target" where
  "toTarget rt =
     foldl add_group
       \<lparr>tg_Name = rt_Name rt, tg_ID = rt_ID rt, tg_Kind = normalizeKind (rt_Type rt), tg_DefinedIn = rt_DefinedIn rt,
        tg_Filenames = rt_Filename rt, tg_Sources = [], tg_Generated = [], tg_CompileParams = [],
        tg_CompilerCmd = None, tg_LinkCmd = None, tg_Installed = rt_Installed rt,
        tg_Subproject = (case rt_Subproject rt of None \<Rightarrow> [] | Some s \<Rightarrow> s)\<rparr>
       (rt_Sources rt)"

section \<open>Decoding the files\<close>

definition dec_group :: "json \<Rightarrow> rawSrcGrp option" where
  "dec_group j =
     (case json_object j of
        None \<Rightarrow> None
      | Some obj \<Rightarrow>
          (case (jfield obj ''language'' json_string, jfield obj ''compiler'' (json_slice json_string),
                 jfield obj ''linker'' (json_list json_string), jfield obj ''parameters'' (json_list json_string),
                 jfield obj ''sources'' (json_list json_string), jfield obj ''generated_sources'' (json_list json_string)) of
             (Some l, Some c, Some k, Some p, Some s, Some g) \<Rightarrow>
               Some \<lparr>sg_Language = l, sg_Compiler = c, sg_Linker = k, sg_Parameters = p, sg_Sources = s, sg_GeneratedSources = g\<rparr>
           | _ \<Rightarrow> None))"

definition dec_target :: "json \<Rightarrow> rawTarget option" where
  "dec_target j =
     (case json_object j of
        None \<Rightarrow> None
      | Some obj \<Rightarrow>
          (case (jfield obj ''name'' json_string, jfield obj ''id'' json_string, jfield obj ''type'' json_string,
                 jfield obj ''defined_in'' json_string, jfield obj ''filename'' (json_list json_string),
                 jfield obj ''target_sources'' (json_list dec_group), jfield obj ''installed'' json_bool,
                 jfield obj ''subproject'' (json_pointer json_string)) of
             (Some n, Some i, Some t, Some d, Some f, Some s, Some b, Some p) \<Rightarrow>
               Some \<lparr>rt_Name = n, rt_ID = i, rt_Type = t, rt_DefinedIn = d, rt_Filename = f, rt_Sources = s,
                 rt_Installed = b, rt_Subproject = p\<rparr>
           | _ \<Rightarrow> None))"

definition dec_compiler :: "json \<Rightarrow> rawCompiler option" where
  "dec_compiler j =
     (case json_object j of
        None \<Rightarrow> None
      | Some obj \<Rightarrow>
          (case (jfield obj ''id'' json_string, jfield obj ''version'' json_string, jfield obj ''full_version'' json_string,
                 jfield obj ''exelist'' (json_list json_string), jfield obj ''linker_id'' json_string) of
             (Some i, Some v, Some f, Some e, Some l) \<Rightarrow>
               Some \<lparr>rc_ID = i, rc_Version = v, rc_FullVersion = f, rc_Exelist = e, rc_LinkerID = l\<rparr>
           | _ \<Rightarrow> None))"

definition dec_dependency :: "json \<Rightarrow> Dependency option" where
  "dec_dependency j =
     (case json_object j of
        None \<Rightarrow> None
      | Some obj \<Rightarrow>
          (case (jfield obj ''Name'' json_string, jfield obj ''Version'' json_string, jfield obj ''Type'' json_string) of
             (Some n, Some v, Some t) \<Rightarrow> Some \<lparr>dep_Name = n, dep_Version = v, dep_Type = t\<rparr>
           | _ \<Rightarrow> None))"

text \<open>The anchor file: Meson's version and the two directories.\<close>

definition dec_info :: "json \<Rightarrow> (string \<times> string \<times> string) option" where
  "dec_info j =
     (case json_object j of
        None \<Rightarrow> None
      | Some obj \<Rightarrow>
          (case (jfield obj ''meson_version'' json_object, jfield obj ''directories'' json_object) of
             (Some v, Some d) \<Rightarrow>
               (case (jfield v ''full'' json_string, jfield d ''source'' json_string, jfield d ''build'' json_string) of
                  (Some f, Some s, Some b) \<Rightarrow> Some (f, s, b)
                | _ \<Rightarrow> None)
           | _ \<Rightarrow> None))"

definition dec_compilers :: "json \<Rightarrow> (string, rawCompiler) gomap option" where
  "dec_compilers j =
     (case json_object j of None \<Rightarrow> None | Some obj \<Rightarrow> jfield obj ''host'' (json_map dec_compiler))"

text \<open>The files: the outer \<^const>\<open>None\<close> when a file cannot be opened, the inner one when it is not JSON.\<close>

datatype meson_error = No_meson_info | Open_failed string | Decode_failed string

definition readJSON :: "(string \<Rightarrow> json option option) \<Rightarrow> string \<Rightarrow> (json \<Rightarrow> 'a option) \<Rightarrow> meson_error + 'a" where
  "readJSON files name dcd =
     (case files name of
        None \<Rightarrow> Inl (Open_failed name)
      | Some doc \<Rightarrow> (case Option.bind doc dcd of None \<Rightarrow> Inl (Decode_failed name) | Some v \<Rightarrow> Inr v))"

definition zero_compiler :: CompilerInfo where
  "zero_compiler = \<lparr>cc_ID = [], cc_Version = [], cc_FullVersion = [], cc_Exelist = [], cc_LinkerID = []\<rparr>"

definition Load :: "bool \<Rightarrow> (string \<Rightarrow> json option option) \<Rightarrow> meson_error + Introspection" where
  "Load info_dir_exists files =
     (if \<not> info_dir_exists then Inl No_meson_info
      else bind_result (readJSON files ''meson-info.json'' dec_info) (\<lambda>(full, src, build).
           bind_result (readJSON files ''intro-targets.json'' (json_list dec_target)) (\<lambda>rawTargets.
           bind_result (readJSON files ''intro-compilers.json'' dec_compilers) (\<lambda>host.
           bind_result (readJSON files ''intro-dependencies.json'' (json_list dec_dependency)) (\<lambda>rawDeps.
             Inr \<lparr>in_MesonVersion = full, in_SourceDir = src, in_BuildDir = build,
                  in_Targets = map toTarget rawTargets,
                  in_CCompiler =
                    (case gget host ''c'' of
                       None \<Rightarrow> zero_compiler
                     | Some c \<Rightarrow> \<lparr>cc_ID = rc_ID c, cc_Version = rc_Version c, cc_FullVersion = rc_FullVersion c,
                                  cc_Exelist = rc_Exelist c, cc_LinkerID = rc_LinkerID c\<rparr>),
                  in_Dependencies = rawDeps\<rparr>)))))"

section \<open>What a target collects\<close>

definition c_groups :: "rawTarget \<Rightarrow> rawSrcGrp list" where
  "c_groups rt = filter (\<lambda>g. sg_Language g = ''c'') (rt_Sources rt)"

definition first_of :: "'a list \<Rightarrow> 'a option" where
  "first_of xs = (case xs of [] \<Rightarrow> None | x # _ \<Rightarrow> Some x)"

lemma first_of_snoc: "first_of (xs @ [x]) = (case first_of xs of None \<Rightarrow> Some x | Some y \<Rightarrow> Some y)"
  by (cases xs) (auto simp: first_of_def)

definition params_group :: "rawSrcGrp list \<Rightarrow> rawSrcGrp option" where
  "params_group cs =
     (case first_of (filter (\<lambda>g. sg_Compiler g \<noteq> None) cs) of
        Some g \<Rightarrow> Some g
      | None \<Rightarrow> if cs = [] then None else Some (last cs))"

lemma add_groups:
  assumes "tg_Sources t = []" "tg_Generated t = []" "tg_CompileParams t = []" "tg_CompilerCmd t = None" "tg_LinkCmd t = None"
  shows "let t' = foldl add_group t gs; cs = filter (\<lambda>g. sg_Language g = ''c'') gs in
     tg_Sources t' = concat (map sg_Sources cs) \<and> tg_Generated t' = concat (map sg_GeneratedSources cs) \<and>
     tg_CompilerCmd t' = Option.bind (params_group cs) sg_Compiler \<and>
     tg_CompileParams t' = (case params_group cs of None \<Rightarrow> [] | Some g \<Rightarrow> sg_Parameters g) \<and>
     tg_LinkCmd t' = map_option (\<lambda>g. sg_Linker g @ sg_Parameters g) (first_of (filter (\<lambda>g. sg_Linker g \<noteq> []) gs)) \<and>
     tg_Name t' = tg_Name t \<and> tg_Kind t' = tg_Kind t"
proof (induction gs rule: rev_induct)
  case Nil
  then show ?case using assms by (simp add: first_of_def params_group_def)
next
  case (snoc g gs)
  define t' where "t' = foldl add_group t gs"
  define cs where "cs = filter (\<lambda>g. sg_Language g = ''c'') gs"
  have cmd: "params_group (cs @ [g]) =
      (case first_of (filter (\<lambda>g. sg_Compiler g \<noteq> None) cs) of Some g' \<Rightarrow> Some g' | None \<Rightarrow> Some g)"
    by (auto simp: params_group_def first_of_snoc split: option.split)
  have none: "Option.bind (params_group cs) sg_Compiler = None \<longleftrightarrow> first_of (filter (\<lambda>g. sg_Compiler g \<noteq> None) cs) = None"
  proof (cases "filter (\<lambda>g. sg_Compiler g \<noteq> None) cs")
    case Nil
    then have "\<forall>g \<in> set cs. sg_Compiler g = None" by (simp add: filter_empty_conv)
    with Nil show ?thesis by (auto simp: params_group_def first_of_def)
  next
    case (Cons a list)
    then have "sg_Compiler a \<noteq> None" by (auto dest: filter_eq_ConsD)
    with Cons show ?thesis by (auto simp: params_group_def first_of_def)
  qed
  have some: "params_group cs = Some g'" if "first_of (filter (\<lambda>g. sg_Compiler g \<noteq> None) cs) = Some g'" for g'
    using that by (simp add: params_group_def)
  have IH: "tg_Sources t' = concat (map sg_Sources cs)" "tg_Generated t' = concat (map sg_GeneratedSources cs)"
     "tg_CompilerCmd t' = Option.bind (params_group cs) sg_Compiler"
     "tg_CompileParams t' = (case params_group cs of None \<Rightarrow> [] | Some g \<Rightarrow> sg_Parameters g)"
     "tg_LinkCmd t' = map_option (\<lambda>g. sg_Linker g @ sg_Parameters g) (first_of (filter (\<lambda>g. sg_Linker g \<noteq> []) gs))"
     "tg_Name t' = tg_Name t" "tg_Kind t' = tg_Kind t"
    using snoc by (simp_all add: t'_def cs_def Let_def)
  have step: "foldl add_group t (gs @ [g]) = add_group t' g" by (simp add: t'_def)
  have fil: "filter (\<lambda>g. sg_Language g = ''c'') (gs @ [g]) = (if sg_Language g = ''c'' then cs @ [g] else cs)"
    by (simp add: cs_def)
  show ?case
    unfolding step fil Let_def
    using IH none
    by (cases "first_of (filter (\<lambda>g. sg_Compiler g \<noteq> None) cs)";
        cases "first_of (filter (\<lambda>g. sg_Linker g \<noteq> []) gs)")
      (auto simp: add_group_def Let_def cmd some first_of_snoc)
qed

text \<open>
  A target collects the sources of all its C groups in order; its compile command comes from the
  first C group that names a compiler, its link command from the first group that names a linker, and
  groups of other languages contribute nothing but the link command.
\<close>

theorem toTarget_spec:
  "tg_Sources (toTarget rt) = concat (map sg_Sources (c_groups rt)) \<and>
   tg_Generated (toTarget rt) = concat (map sg_GeneratedSources (c_groups rt)) \<and>
   tg_CompilerCmd (toTarget rt) = Option.bind (params_group (c_groups rt)) sg_Compiler \<and>
   tg_CompileParams (toTarget rt) = (case params_group (c_groups rt) of None \<Rightarrow> [] | Some g \<Rightarrow> sg_Parameters g) \<and>
   tg_LinkCmd (toTarget rt) =
     map_option (\<lambda>g. sg_Linker g @ sg_Parameters g) (first_of (filter (\<lambda>g. sg_Linker g \<noteq> []) (rt_Sources rt)))"
  unfolding toTarget_def c_groups_def
  by (insert add_groups [of _ "rt_Sources rt"], simp add: Let_def)

end
