(* ===== verification/Build_Dir.thy ===== *)
theory Build_Dir
  imports Go_Glob Ingest_Paths
begin

text \<open>
  The crawler of a build directory, \<^verbatim>\<open>src/internal/builddir/builddir.go\<close>. The file system below the root is a
  tree, the entries of a directory in any order: Go visits them sorted by name. A symbolic link is a
  leaf that may be dangling, and a directory may be unreadable. The path of the build directory has no
  byte with a meaning in glob patterns.
\<close>

datatype node = File | Link bool | Dir_node "(string \<times> node) list" | Bad_dir

record ObjectArtifacts =
  oa_Object :: string
  oa_CI :: string
  oa_Cgraph :: string
  oa_Inline :: string
  oa_ICF :: string
  oa_OptRecord :: string
  oa_Preprocessed :: string

record BuildDir =
  bd_Root :: string
  bd_Objects :: "ObjectArtifacts list"
  bd_LinkerMaps :: "string list"

definition dirsToSkip :: "string \<Rightarrow> bool" where
  "dirsToSkip n \<longleftrightarrow> n = ''meson-private'' \<or> n = ''meson-info'' \<or> n = ''meson-logs''"

section \<open>The walk\<close>

fun all_lists :: "'a list option list \<Rightarrow> 'a list option" where
  "all_lists [] = Some []"
| "all_lists (x # xs) =
     (case x of None \<Rightarrow> None | Some a \<Rightarrow> (case all_lists xs of None \<Rightarrow> None | Some b \<Rightarrow> Some (a @ b)))"

lemma entry_size: "(n, c) \<in> set es \<Longrightarrow> size c < size (Dir_node es)"
  by (induction es) auto

text \<open>
  \<^verbatim>\<open>filepath.WalkDir\<close> with the visitor of \<open>Crawl\<close>: the object paths in the order of the walk, \<^const>\<open>None\<close> when a
  directory cannot be read.
\<close>

function walk :: "string \<Rightarrow> string \<Rightarrow> string \<Rightarrow> node \<Rightarrow> string list option" where
  "walk root path name nd =
     (case nd of
        Dir_node es \<Rightarrow>
          if dirsToSkip name \<and> Dir path = root then Some []
          else all_lists (map (\<lambda>(n, c). walk root (Join path n) n c) (sort_key fst es))
      | Bad_dir \<Rightarrow> if dirsToSkip name \<and> Dir path = root then Some [] else None
      | _ \<Rightarrow> if HasSuffix name ''.o'' then Some [path] else Some [])"
  by pat_completeness auto
termination
proof (relation "measure (\<lambda>(root, path, name, nd). size nd)", goal_cases)
  case (2 root path name nd es x n c)
  then show ?case using entry_size [of n c es] by auto
qed simp

declare walk.simps [simp del]

section \<open>Side files\<close>

definition node_exists :: "node \<Rightarrow> bool" where
  "node_exists nd = (case nd of Link ok \<Rightarrow> ok | _ \<Rightarrow> True)"

text \<open>The listings of the directories below a path.\<close>

function dir_index :: "string \<Rightarrow> node \<Rightarrow> (string \<times> (string \<times> node) list) list" where
  "dir_index path nd =
     (case nd of
        Dir_node es \<Rightarrow> (path, es) # concat (map (\<lambda>(n, c). dir_index (Join path n) c) es)
      | _ \<Rightarrow> [])"
  by pat_completeness auto
termination
proof (relation "measure (\<lambda>(path, nd). size nd)", goal_cases)
  case (2 path nd es x n c)
  then show ?case using entry_size [of n c es] by auto
qed simp

declare dir_index.simps [simp del]

type_synonym listing = "string \<Rightarrow> (string \<times> node) list"

definition listing_of :: "string \<Rightarrow> node \<Rightarrow> listing" where
  "listing_of root nd d = (case map_of (dir_index root nd) d of None \<Rightarrow> [] | Some es \<Rightarrow> es)"

definition fileExists :: "listing \<Rightarrow> string \<Rightarrow> bool" where
  "fileExists ls p = (case map_of (ls (Dir p)) (Base p) of None \<Rightarrow> False | Some nd \<Rightarrow> node_exists nd)"

text \<open>
  \<^verbatim>\<open>filepath.Glob\<close> of a pattern below a directory: the matching names in order, \<^const>\<open>None\<close> for a malformed
  pattern.
\<close>

definition Glob :: "listing \<Rightarrow> string \<Rightarrow> string \<Rightarrow> string list option" where
  "Glob ls dir pat =
     (let names = sort (map fst (ls dir))
      in if Match_path pat [] = None \<or> (\<exists>n \<in> set names. Match_path pat n = None) then None
         else Some (map (Join dir) (filter (\<lambda>n. Match_path pat n = Some True) names)))"

definition first_hit :: "string list option \<Rightarrow> string" where
  "first_hit hits = (case hits of Some (h # _) \<Rightarrow> h | _ \<Rightarrow> [])"

definition resolveSidecars :: "listing \<Rightarrow> string \<Rightarrow> ObjectArtifacts" where
  "resolveSidecars ls obj =
     (let dir = Dir obj;
          base = TrimSuffix (Base obj) ''.o'';
          existing = (\<lambda>p. if fileExists ls p then p else []);
          pass = (\<lambda>suffix. first_hit (Glob ls dir (base @ ''.*i'' @ suffix)))
      in \<lparr>oa_Object = obj,
          oa_CI = existing (Join dir (base @ ''.ci'')),
          oa_Cgraph = pass ''.cgraph'',
          oa_Inline = pass ''.inline'',
          oa_ICF = pass ''.icf'',
          oa_OptRecord = first_hit (Glob ls dir (base @ ''*opt-record.json.gz'')),
          oa_Preprocessed = existing (Join dir (base @ ''.i''))\<rparr>)"

datatype crawl_error = Crawl_abs | Crawl_glob | Crawl_walk

text \<open>The tree at the root is \<^const>\<open>None\<close> when the root does not exist.\<close>

definition Crawl :: "string option \<Rightarrow> string \<Rightarrow> node option \<Rightarrow> crawl_error + BuildDir" where
  "Crawl cwd root tree =
     (case abs_of cwd root of
        None \<Rightarrow> Inl Crawl_abs
      | Some absRoot \<Rightarrow>
          let ls = (case tree of None \<Rightarrow> (\<lambda>_. []) | Some nd \<Rightarrow> listing_of absRoot nd)
          in case Glob ls absRoot ''*.map'' of
               None \<Rightarrow> Inl Crawl_glob
             | Some maps \<Rightarrow>
                 (case Option.bind tree (walk absRoot absRoot (Base absRoot)) of
                    None \<Rightarrow> Inl Crawl_walk
                  | Some objects \<Rightarrow>
                      Inr \<lparr>bd_Root = absRoot, bd_Objects = map (resolveSidecars ls) objects, bd_LinkerMaps = maps\<rparr>))"

section \<open>What the walk finds\<close>

lemma Dir_render:
  assumes "\<forall>c \<in> set cs. is_name c" "is_name n"
  shows "Dir (render_path True (cs @ [n])) = render_path True cs"
proof -
  have no: "CHR ''/'' \<notin> set n" using assms(2) by (simp add: is_name_def)
  show ?thesis
  proof (cases "cs = []")
    case True
    have "LastIndexByte ([] @ CHR ''/'' # n) (CHR ''/'') = Some (length ([] :: string))"
      by (rule LastIndexByte_append [OF no])
    with True show ?thesis by (simp add: Dir_def render_path_def) code_simp
  next
    case False
    have j: "join_with ''/'' (cs @ [n]) = join_with ''/'' cs @ CHR ''/'' # n"
      using False by (induction cs rule: induct_list012) auto
    have "LastIndexByte (render_path True (cs @ [n])) (CHR ''/'') = Some (length (render_path True cs))"
      using LastIndexByte_append [OF no, of "render_path True cs"] by (simp add: render_path_def j)
    then have "Dir (render_path True (cs @ [n])) = Clean (render_path True cs @ ''/'')"
      by (simp add: Dir_def render_path_def j)
    also have "\<dots> = render_path True cs"
    proof -
      have "path_comps (render_path True cs @ ''/'') = cs"
        using path_comps_join [of "render_path True cs" "[]"] path_comps_render [OF assms(1)] by simp
      then show ?thesis using IsAbs_append [of "render_path True cs" "''/''"] by (simp add: Clean_def)
    qed
    finally show ?thesis .
  qed
qed

lemma Join_render:
  assumes "\<forall>c \<in> set cs. is_name c" "is_name n"
  shows "Join (render_path True cs) n = render_path True (cs @ [n])"
  using Join_names [of "render_path True cs" "[n]"] assms path_comps_render [OF assms(1)] by simp

text \<open>A file at a list of names below a node, and trees whose names are names.\<close>

fun has_file :: "node \<Rightarrow> string list \<Rightarrow> bool" where
  "has_file File [] = True"
| "has_file (Link _) [] = True"
| "has_file (Dir_node es) (n # ns) = (\<exists>c. (n, c) \<in> set es \<and> has_file c ns)"
| "has_file _ _ = False"

function tree_ok :: "node \<Rightarrow> bool" where
  "tree_ok nd =
     (case nd of
        Dir_node es \<Rightarrow> (\<forall>(n, c) \<in> set es. is_name n \<and> tree_ok c)
      | Bad_dir \<Rightarrow> False
      | _ \<Rightarrow> True)"
  by pat_completeness auto
termination
proof (relation "measure size", goal_cases)
  case (2 nd es x n c)
  then show ?case using entry_size [of n c es] by auto
qed simp

declare tree_ok.simps [simp del]

text \<open>Files below a skipped directory of the top level are not seen.\<close>

definition visible :: "string list \<Rightarrow> bool" where
  "visible cs = (case cs of n # m # ms \<Rightarrow> \<not> dirsToSkip n | _ \<Rightarrow> True)"

lemma all_lists_Some:
  "(\<forall>x \<in> set xs. \<exists>a. x = Some a) \<Longrightarrow> \<exists>r. all_lists xs = Some r \<and> set r = (\<Union>x \<in> set xs. set (the x))"
  by (induction xs) fastforce+

lemma render_inj:
  "\<forall>c \<in> set as. is_name c \<Longrightarrow> \<forall>c \<in> set bs. is_name c \<Longrightarrow> render_path True as = render_path True bs \<longleftrightarrow> as = bs"
  using path_comps_render by metis

lemma skip_level:
  assumes "\<forall>c \<in> set (rs @ ps). is_name c" "ps \<noteq> []"
  shows "Dir (render_path True (rs @ ps)) = render_path True rs \<longleftrightarrow> length ps = 1"
proof -
  obtain qs n where ps: "ps = qs @ [n]" using assms(2) by (cases ps rule: rev_cases) auto
  have "Dir (render_path True ((rs @ qs) @ [n])) = render_path True (rs @ qs)"
    using assms(1) ps by (intro Dir_render) auto
  then show ?thesis using render_inj [of "rs @ qs" rs] assms(1) ps by auto
qed

definition found :: "string list \<Rightarrow> string list \<Rightarrow> string \<Rightarrow> node \<Rightarrow> string set" where
  "found rs ps name nd =
     {render_path True (rs @ ps @ qs) | qs. has_file nd qs \<and> HasSuffix (last (name # qs)) ''.o'' \<and> visible (ps @ qs)}"

lemma found_dir:
  "found rs ps name (Dir_node es) = (\<Union>(n, c) \<in> set es. found rs (ps @ [n]) n c)"
proof (intro set_eqI iffI)
  fix x assume "x \<in> found rs ps name (Dir_node es)"
  then obtain qs where q: "x = render_path True (rs @ ps @ qs)" "has_file (Dir_node es) qs"
    "HasSuffix (last (name # qs)) ''.o''" "visible (ps @ qs)" unfolding found_def by blast
  from q(2) obtain n ns c where n: "qs = n # ns" "(n, c) \<in> set es" "has_file c ns" by (cases qs) auto
  with q have "x \<in> found rs (ps @ [n]) n c"
    unfolding found_def by (intro CollectI exI [of _ ns]) simp
  with n(2) show "x \<in> (\<Union>(n, c) \<in> set es. found rs (ps @ [n]) n c)" by blast
next
  fix x assume "x \<in> (\<Union>(n, c) \<in> set es. found rs (ps @ [n]) n c)"
  then obtain n c where n: "(n, c) \<in> set es" "x \<in> found rs (ps @ [n]) n c" by blast
  then obtain ns where "x = render_path True (rs @ (ps @ [n]) @ ns)" "has_file c ns"
    "HasSuffix (last (n # ns)) ''.o''" "visible ((ps @ [n]) @ ns)" unfolding found_def by blast
  with n(1) show "x \<in> found rs ps name (Dir_node es)"
    unfolding found_def by (intro CollectI exI [of _ "n # ns"]) auto
qed

lemma walk_finds:
  assumes "tree_ok nd" "\<forall>c \<in> set (rs @ ps). is_name c" "ps \<noteq> [] \<Longrightarrow> name = last ps"
    "2 \<le> length ps \<Longrightarrow> \<not> dirsToSkip (hd ps)"
    "ps = [] \<Longrightarrow> \<not> (dirsToSkip name \<and> Dir (render_path True rs) = render_path True rs)"
  shows "\<exists>os. walk (render_path True rs) (render_path True (rs @ ps)) name nd = Some os \<and> set os = found rs ps name nd"
  using assms
proof (induction nd arbitrary: ps name rule: measure_induct_rule [of size])
  case (less nd)
  have vis: "visible ps"
    using less.prems(4) by (cases ps; cases "tl ps") (auto simp: visible_def)
  show ?case
  proof (cases nd)
    case (Dir_node es)
    show ?thesis
    proof (cases "dirsToSkip name \<and> Dir (render_path True (rs @ ps)) = render_path True rs")
      case True
      then have "ps \<noteq> []" using less.prems(5) by auto
      then obtain n where "ps = [n]" "dirsToSkip n"
        using True skip_level [OF less.prems(2)] less.prems(3) by (cases ps) auto
      then have "found rs ps name nd = {}"
        unfolding found_def Dir_node by (auto simp: visible_def split: list.splits)
      with True Dir_node show ?thesis by (simp add: walk.simps)
    next
      case False
      have child: "\<exists>os. walk (render_path True rs) (Join (render_path True (rs @ ps)) n) n c = Some os \<and>
          set os = found rs (ps @ [n]) n c" if "(n, c) \<in> set es" for n c
      proof -
        have nc: "is_name n" "tree_ok c" "size c < size nd"
          using that less.prems(1) entry_size [OF that] by (auto simp: Dir_node tree_ok.simps [of "Dir_node es"])
        have hd: "\<not> dirsToSkip (hd (ps @ [n]))" if "2 \<le> length (ps @ [n])"
        proof (cases "length ps = 1")
          case True
          then have "ps \<noteq> []" "name = hd ps" using less.prems(3) by (cases ps; simp)+
          with True False skip_level [OF less.prems(2)] show ?thesis by (cases ps) auto
        next
          case no: False
          with that have "2 \<le> length ps" by simp
          with less.prems(4) show ?thesis by (cases ps) auto
        qed
        have "Join (render_path True (rs @ ps)) n = render_path True (rs @ ps @ [n])"
          using Join_render [OF less.prems(2) nc(1)] by simp
        then show ?thesis
          using less.IH [of c "ps @ [n]" n] nc hd less.prems(2) by auto
      qed
      let ?ws = "map (\<lambda>(n, c). walk (render_path True rs) (Join (render_path True (rs @ ps)) n) n c) (sort_key fst es)"
      have "\<forall>x \<in> set ?ws. \<exists>a. x = Some a" using child by fastforce
      from all_lists_Some [OF this] obtain r where r: "all_lists ?ws = Some r" "set r = (\<Union>x \<in> set ?ws. set (the x))" by blast
      have "(\<Union>x \<in> set ?ws. set (the x)) =
          (\<Union>(n, c) \<in> set es. set (the (walk (render_path True rs) (Join (render_path True (rs @ ps)) n) n c)))" by auto
      also have "\<dots> = (\<Union>(n, c) \<in> set es. found rs (ps @ [n]) n c)"
        using child by (intro SUP_cong) (auto simp: split_beta dest!: child)
      finally have "set r = found rs ps name nd" using r(2) by (simp add: Dir_node found_dir)
      moreover have "walk (render_path True rs) (render_path True (rs @ ps)) name nd = all_lists ?ws"
        using False Dir_node by (subst walk.simps) auto
      ultimately show ?thesis using r(1) by simp
    qed
  next
    case Bad_dir
    with less.prems(1) show ?thesis by (simp add: tree_ok.simps)
  next
    case File
    have "has_file File qs \<longleftrightarrow> qs = []" for qs by (cases qs) auto
    with File vis show ?thesis by (simp add: walk.simps found_def)
  next
    case (Link b)
    have "has_file (Link b) qs \<longleftrightarrow> qs = []" for qs by (cases qs) auto
    with Link vis show ?thesis by (simp add: walk.simps found_def)
  qed
qed

lemma map_glob_ok: "\<exists>maps. Glob ls d ''*.map'' = Some maps"
proof -
  have "literal ''.map''" by (simp add: literal_def)
  from Match_star_literal [OF this] have "Match_path ''*.map'' n \<noteq> None" for n by simp
  then show ?thesis by (simp add: Glob_def Let_def)
qed

text \<open>
  The crawl of a readable build directory returns exactly the files whose name ends in \<^verbatim>\<open>.o\<close>, at every
  depth, except those below Meson's own directories at the top level; a directory of the same name
  deeper in the tree is searched.
\<close>

theorem Crawl_objects:
  assumes "abs_of cwd root = Some (render_path True rs)" "\<forall>c \<in> set rs. is_name c" "tree_ok (Dir_node es)"
  shows "\<exists>bd. Crawl cwd root (Some (Dir_node es)) = Inr bd \<and> bd_Root bd = render_path True rs \<and>
    oa_Object ` set (bd_Objects bd) =
      {render_path True (rs @ qs) | qs. has_file (Dir_node es) qs \<and> HasSuffix (last qs) ''.o'' \<and> visible qs}"
proof -
  let ?r = "render_path True rs"
  have noskip: "\<not> (dirsToSkip (Base ?r) \<and> Dir ?r = ?r)"
  proof (cases rs rule: rev_cases)
    case Nil
    have "\<not> dirsToSkip (Base (render_path True []))" by code_simp
    with Nil show ?thesis by simp
  next
    case (snoc qs n)
    then have "Dir ?r = render_path True qs" using assms(2) by (auto intro: Dir_render)
    with render_inj [of qs rs] assms(2) snoc show ?thesis by auto
  qed
  have "\<exists>os. walk ?r (render_path True (rs @ [])) (Base ?r) (Dir_node es) = Some os \<and>
      set os = found rs [] (Base ?r) (Dir_node es)"
    using assms(2,3) noskip by (intro walk_finds) simp_all
  then obtain os where os: "walk ?r ?r (Base ?r) (Dir_node es) = Some os"
    "set os = found rs [] (Base ?r) (Dir_node es)" by auto
  obtain maps where "Glob (listing_of ?r (Dir_node es)) ?r ''*.map'' = Some maps" using map_glob_ok by blast
  with assms(1) os(1) have "Crawl cwd root (Some (Dir_node es)) =
      Inr \<lparr>bd_Root = ?r, bd_Objects = map (resolveSidecars (listing_of ?r (Dir_node es))) os, bd_LinkerMaps = maps\<rparr>"
    by (simp add: Crawl_def Let_def)
  moreover have "oa_Object ` set (map (resolveSidecars ls) os) = set os" for ls
    by (auto simp: resolveSidecars_def Let_def image_image)
  moreover have "has_file (Dir_node es) qs \<Longrightarrow> qs \<noteq> []" for qs by (cases qs) auto
  then have "found rs [] (Base ?r) (Dir_node es) =
      {render_path True (rs @ qs) | qs. has_file (Dir_node es) qs \<and> HasSuffix (last qs) ''.o'' \<and> visible qs}"
    unfolding found_def by (auto; metis last_ConsR)
  ultimately show ?thesis using os(2) by simp
qed

definition sample_build_tree :: "(string \<times> node) list" where
  "sample_build_tree =
     [(''meson-private'', Dir_node [(''sanity.o'', File)]),
      (''lib'', Dir_node [(''a.c.o'', File), (''meson-info'', Dir_node [(''b.o'', File)])])]"

theorem Crawl_objects_witness:
  "\<exists>bd. Crawl None ''/b'' (Some (Dir_node sample_build_tree)) = Inr bd \<and>
     ''/b/lib/a.c.o'' \<in> oa_Object ` set (bd_Objects bd) \<and> ''/b/lib/meson-info/b.o'' \<in> oa_Object ` set (bd_Objects bd)"
proof -
  have h: "abs_of None ''/b'' = Some (render_path True [''b''])" "\<forall>c \<in> set [''b'']. is_name c"
    "tree_ok (Dir_node sample_build_tree)" by code_simp+
  obtain bd where bd: "Crawl None ''/b'' (Some (Dir_node sample_build_tree)) = Inr bd"
    "oa_Object ` set (bd_Objects bd) = {render_path True ([''b''] @ qs) | qs.
        has_file (Dir_node sample_build_tree) qs \<and> HasSuffix (last qs) ''.o'' \<and> visible qs}"
    using Crawl_objects [OF h] by blast
  have f: "has_file (Dir_node sample_build_tree) [''lib'', ''a.c.o'']" "has_file (Dir_node sample_build_tree) [''lib'', ''meson-info'', ''b.o'']"
    by (simp_all add: sample_build_tree_def)
  have v: "HasSuffix (last [''lib'', ''a.c.o'']) ''.o'' \<and> visible [''lib'', ''a.c.o'']"
    "HasSuffix (last [''lib'', ''meson-info'', ''b.o'']) ''.o'' \<and> visible [''lib'', ''meson-info'', ''b.o'']"
    "render_path True ([''b''] @ [''lib'', ''a.c.o'']) = ''/b/lib/a.c.o''"
    "render_path True ([''b''] @ [''lib'', ''meson-info'', ''b.o'']) = ''/b/lib/meson-info/b.o''" by code_simp+
  have "render_path True ([''b''] @ qs) \<in> oa_Object ` set (bd_Objects bd)"
    if "has_file (Dir_node sample_build_tree) qs" "HasSuffix (last qs) ''.o'' \<and> visible qs" for qs
    unfolding bd(2) using that by blast
  from this [OF f(1) v(1)] this [OF f(2) v(2)] bd(1) show ?thesis unfolding v(3,4) by blast
qed

section \<open>Which side file is taken\<close>

definition between :: "string \<Rightarrow> string \<Rightarrow> string \<Rightarrow> bool" where
  "between p q n \<longleftrightarrow> HasPrefix n p \<and> HasSuffix (drop (length p) n) q"

lemma between_iff: "between p q n \<longleftrightarrow> (\<exists>w. n = p @ w @ q)"
  by (auto simp: between_def HasPrefix_iff HasSuffix_iff)

lemma Glob_literal_star:
  assumes "literal p" "literal q" "q \<noteq> []" "\<forall>n \<in> fst ` set (ls d). CHR ''/'' \<notin> set n"
  shows "Glob ls d (p @ CHR ''*'' # q) =
    Some (map (Join d) (filter (between p q) (sort (map fst (ls d)))))"
proof -
  have m: "Match_path (p @ CHR ''*'' # q) n = Some (\<exists>w. n = p @ w @ q \<and> CHR ''/'' \<notin> set w)" for n
    by (rule Match_literal_star_literal [OF assms(1-3)])
  have "filter (\<lambda>n. \<exists>w. n = p @ w @ q \<and> CHR ''/'' \<notin> set w) (sort (map fst (ls d))) =
      filter (between p q) (sort (map fst (ls d)))"
    using assms(4) by (intro filter_cong) (auto simp: between_iff)
  then show ?thesis by (simp add: Glob_def Let_def m)
qed

text \<open>
  For an object whose name has no byte with a meaning in patterns, the dump of a pass is the first, in
  the order of the names, of the files in its directory that begin with the object's base and a dot and
  end in \<^verbatim>\<open>i\<close> and the pass. The optimization record is the first file that begins with the base and ends
  in the record suffix, with nothing required in between: the record of \<^verbatim>\<open>main.cpp.o\<close> is taken for
  \<^verbatim>\<open>main.c.o\<close> when that object has none of its own.
\<close>

theorem resolveSidecars_spec:
  assumes "literal base" "base = TrimSuffix (Base obj) ''.o''" "\<forall>n \<in> fst ` set (ls (Dir obj)). CHR ''/'' \<notin> set n"
  shows "oa_Cgraph (resolveSidecars ls obj) =
      first_hit (Some (map (Join (Dir obj)) (filter (between (base @ ''.'') ''i.cgraph'') (sort (map fst (ls (Dir obj))))))) \<and>
    oa_OptRecord (resolveSidecars ls obj) =
      first_hit (Some (map (Join (Dir obj)) (filter (between base ''opt-record.json.gz'') (sort (map fst (ls (Dir obj)))))))"
proof -
  have l: "literal (base @ ''.'')" "literal ''i.cgraph''" "literal ''opt-record.json.gz''"
    using assms(1) by (auto simp: literal_def)
  show ?thesis
    using Glob_literal_star [of "base @ ''.''" "''i.cgraph''" ls "Dir obj"] assms(1,3) l
      Glob_literal_star [of base "''opt-record.json.gz''" ls "Dir obj"]
    by (simp add: resolveSidecars_def Let_def assms(2) [symmetric])
qed

definition sample_listing :: listing where
  "sample_listing d =
     (if d = ''/b'' then [(''main.c.o'', File), (''main.cpp.o'', File), (''main.cpp.cpp.opt-record.json.gz'', File),
        (''main.c.c.000i.cgraph'', File)] else [])"

theorem resolveSidecars_spec_witness:
  "oa_Cgraph (resolveSidecars sample_listing ''/b/main.c.o'') = ''/b/main.c.c.000i.cgraph'' \<and>
   oa_OptRecord (resolveSidecars sample_listing ''/b/main.c.o'') = ''/b/main.cpp.cpp.opt-record.json.gz''"
proof -
  let ?o = "''/b/main.c.o''"
  have b: "Dir ?o = ''/b''" "TrimSuffix (Base ?o) ''.o'' = ''main.c''" "literal ''main.c''"
    "sort (map fst (sample_listing ''/b'')) =
      [''main.c.c.000i.cgraph'', ''main.c.o'', ''main.cpp.cpp.opt-record.json.gz'', ''main.cpp.o'']"
    "\<forall>n \<in> fst ` set (sample_listing ''/b''). CHR ''/'' \<notin> set n" by code_simp+
  have f: "filter (between (''main.c'' @ ''.'') ''i.cgraph'') (sort (map fst (sample_listing ''/b''))) = [''main.c.c.000i.cgraph'']"
    "filter (between ''main.c'' ''opt-record.json.gz'') (sort (map fst (sample_listing ''/b''))) = [''main.cpp.cpp.opt-record.json.gz'']"
    by code_simp+
  have j: "Join ''/b'' ''main.c.c.000i.cgraph'' = ''/b/main.c.c.000i.cgraph''"
    "Join ''/b'' ''main.cpp.cpp.opt-record.json.gz'' = ''/b/main.cpp.cpp.opt-record.json.gz''" by code_simp+
  have h: "first_hit (Some [p]) = p" for p by (simp add: first_hit_def)
  have "\<forall>n \<in> fst ` set (sample_listing (Dir ?o)). CHR ''/'' \<notin> set n" unfolding b(1) by (rule b(5))
  from resolveSidecars_spec [of "''main.c''" ?o sample_listing, OF b(3) b(2) [symmetric] this]
  show ?thesis unfolding b(1) f list.map j h .
qed

end
