(* ===== verification/Preflight.thy ===== *)
theory Preflight
  imports Build_Dir Meson_Introspect
begin

text \<open>
  The preflight check, \<^verbatim>\<open>src/internal/preflight/preflight.go\<close>. Opening an object as an ELF file is an
  argument: the names of its sections, or the text of the error. Go's quoting verb \<^verbatim>\<open>%q\<close> is an argument
  too.
\<close>

definition MinGCCMajor :: int where
  "MinGCCMajor = 10"

definition RecommendedCArgs :: string where
  "RecommendedCArgs =
     ''-g -gcolumn-info -fcallgraph-info=su,da '' @ ''-fdump-ipa-cgraph -fdump-ipa-inline -fdump-ipa-icf '' @
     ''-fsave-optimization-record''"

definition OptionalCallGraphCArgs :: string where
  "OptionalCallGraphCArgs = ''-fno-inline-functions-called-once''"

text \<open>The three bytes of the dash in the messages.\<close>

definition em_dash :: string where
  "em_dash = [CHR 0xE2, CHR 0x80, CHR 0x94]"

record Finding =
  fi_Kind :: string
  fi_Detail :: string
  fi_FixHint :: string

definition KindGCCTooOld :: string where "KindGCCTooOld = ''gcc_too_old''"

definition KindNoTargets :: string where "KindNoTargets = ''no_targets''"

definition KindMissingCI :: string where "KindMissingCI = ''missing_ci''"

definition KindMissingCgraph :: string where "KindMissingCgraph = ''missing_cgraph''"

definition KindNoDebugInfo :: string where "KindNoDebugInfo = ''no_debug_info''"

definition KindMissingOptRec :: string where "KindMissingOptRec = ''missing_opt_record''"

record Report =
  rp_Ok :: bool
  rp_GCCVersion :: string
  rp_MesonVersion :: string
  rp_Findings :: "Finding list"

definition parseMajor :: "string \<Rightarrow> (int \<times> bool)" where
  "parseMajor v =
     (if v = [] then (0, False)
      else let first = (case IndexByte v (CHR ''.'') of None \<Rightarrow> v | Some i \<Rightarrow> take i v)
           in case Atoi first of (n, ok) \<Rightarrow> if ok then (n, True) else (0, False))"

definition hasDebugInfo :: "(string \<Rightarrow> string + string list) \<Rightarrow> string \<Rightarrow> string + bool" where
  "hasDebugInfo elf obj = (case elf obj of Inl e \<Rightarrow> Inl e | Inr names \<Rightarrow> Inr (''.debug_info'' \<in> set names))"

text \<open>The finding for a kind of side file that some objects lack.\<close>

definition missing_finding :: "string \<Rightarrow> string \<Rightarrow> string \<Rightarrow> nat \<Rightarrow> string list \<Rightarrow> Finding list" where
  "missing_finding kind what hint n_all missing =
     (case missing of
        [] \<Rightarrow> []
      | sample # _ \<Rightarrow>
          [\<lparr>fi_Kind = kind,
            fi_Detail = what @ '' missing for '' @ dec (length missing) @ ''/'' @ dec n_all @ '' objects (sample: '' @ sample @ '')'',
            fi_FixHint = hint\<rparr>])"

definition gcc_findings :: "(string \<Rightarrow> string) \<Rightarrow> string \<Rightarrow> Finding list" where
  "gcc_findings quote version =
     (case parseMajor version of
        (major, ok) \<Rightarrow>
          if \<not> ok \<or> major < MinGCCMajor then
            [\<lparr>fi_Kind = KindGCCTooOld,
              fi_Detail = ''GCC '' @ quote version @ '' is below the minimum GCC 10 required for -fcallgraph-info'',
              fi_FixHint = ''upgrade GCC to 10.x or later, or configure Meson to use a newer compiler''\<rparr>]
          else [])"

definition debug_findings :: "(string \<Rightarrow> string + string list) \<Rightarrow> string \<Rightarrow> Finding list" where
  "debug_findings elf sample =
     (case hasDebugInfo elf sample of
        Inl e \<Rightarrow>
          [\<lparr>fi_Kind = KindNoDebugInfo, fi_Detail = ''cannot inspect ELF sections of '' @ sample @ '': '' @ e,
            fi_FixHint = ''verify the file is a regular ELF object''\<rparr>]
      | Inr hasDebug \<Rightarrow>
          if hasDebug then []
          else [\<lparr>fi_Kind = KindNoDebugInfo,
                 fi_Detail = ''no .debug_info section in '' @ sample @ '' '' @ em_dash @ '' was -g in effect?'',
                 fi_FixHint = ''add `-g -gcolumn-info` to c_args and rebuild''\<rparr>])"

definition Check ::
  "(string \<Rightarrow> string) \<Rightarrow> (string \<Rightarrow> string + string list) \<Rightarrow> Introspection \<Rightarrow> BuildDir \<Rightarrow> Report" where
  "Check quote elf intro bd =
     (let version = cc_Version (in_CCompiler intro);
          objs = bd_Objects bd;
          report = (\<lambda>fs. \<lparr>rp_Ok = (length fs = 0), rp_GCCVersion = version,
                          rp_MesonVersion = in_MesonVersion intro, rp_Findings = fs\<rparr>);
          fs = gcc_findings quote version
      in if length objs = 0 then
           report (fs @ [\<lparr>fi_Kind = KindNoTargets,
             fi_Detail = ''no .o files under builddir '' @ em_dash @ '' has `meson compile` run?'',
             fi_FixHint = ''run `meson compile -C '' @ bd_Root bd @ ''` before `herbarium collect`''\<rparr>])
         else
           (let missingCI = map oa_Object (filter (\<lambda>ob. oa_CI ob = []) objs);
                missingCgraph = map oa_Object (filter (\<lambda>ob. oa_Cgraph ob = []) objs);
                missingOptRec = map oa_Object (filter (\<lambda>ob. oa_OptRecord ob = []) objs)
            in report (fs @
                 missing_finding KindMissingCI ''.ci dump'' ''add `-fcallgraph-info=su,da` to c_args and rebuild''
                   (length objs) missingCI @
                 missing_finding KindMissingCgraph ''.cgraph dump''
                   ''add `-fdump-ipa-cgraph` (and the other -fdump-ipa-* flags) to c_args and rebuild''
                   (length objs) missingCgraph @
                 missing_finding KindMissingOptRec ''optimization record''
                   (''add `-fsave-optimization-record` to c_args and rebuild '' @ em_dash @ '' without it, pre-IPA inlining is invisible'')
                   (length objs) missingOptRec @
                 debug_findings elf (oa_Object (hd objs)))))"

definition finding_lines :: "nat \<times> Finding \<Rightarrow> string" where
  "finding_lines = (\<lambda>(i, f).
     ''  '' @ dec (i + 1) @ ''. ['' @ fi_Kind f @ ''] '' @ fi_Detail f @ [NL] @ ''     fix: '' @ fi_FixHint f @ [NL])"

definition FormatUserMessage :: "(string \<Rightarrow> string) \<Rightarrow> Report \<Rightarrow> string \<Rightarrow> string" where
  "FormatUserMessage quote r builddir =
     (if rp_Ok r then ''preflight ok (GCC '' @ rp_GCCVersion r @ '', Meson '' @ rp_MesonVersion r @ '')''
      else ''herbarium preflight failed for '' @ builddir @ [NL] @
        ''  detected: GCC='' @ rp_GCCVersion r @ '' Meson='' @ rp_MesonVersion r @ [NL, NL] @
        concat (map finding_lines (List.enumerate 0 (rp_Findings r))) @
        [NL] @ ''Recommended meson setup command:'' @ [NL] @
        ''  meson setup '' @ builddir @ '' '' @ [CHR 0x5C, NL] @
        ''    --buildtype=debugoptimized '' @ [CHR 0x5C, NL] @
        ''    -Dc_args='' @ quote RecommendedCArgs @ [NL] @
        [NL] @ ''Every flag above is codegen-inert: .text stays byte-identical to a stock build.'' @ [NL] @
        ''Optionally append '' @ OptionalCallGraphCArgs @ '' to keep single-caller statics'' @ [NL] @
        ''out-of-line so they survive as distinct call-graph nodes. It is not required, and it'' @ [NL] @
        ''is the one flag that changes the generated code.'' @ [NL])"

section \<open>The gates\<close>

definition gcc_ok :: "string \<Rightarrow> bool" where
  "gcc_ok version \<longleftrightarrow> snd (parseMajor version) \<and> MinGCCMajor \<le> fst (parseMajor version)"

lemma gcc_findings_iff: "map fi_Kind (gcc_findings quote version) = (if gcc_ok version then [] else [KindGCCTooOld])"
  by (auto simp: gcc_findings_def gcc_ok_def split: prod.split)

lemma missing_finding_iff: "map fi_Kind (missing_finding k w h n xs) = (if xs = [] then [] else [k])"
  by (simp add: missing_finding_def split: list.split)

lemma debug_findings_iff:
  "map fi_Kind (debug_findings elf ob) = (if hasDebugInfo elf ob = Inr True then [] else [KindNoDebugInfo])"
  by (auto simp: debug_findings_def split: sum.split)

lemma check_kinds:
  "map fi_Kind (rp_Findings (Check quote elf intro bd)) =
     (if gcc_ok (cc_Version (in_CCompiler intro)) then [] else [KindGCCTooOld]) @
     (if bd_Objects bd = [] then [KindNoTargets]
      else (if \<exists>ob \<in> set (bd_Objects bd). oa_CI ob = [] then [KindMissingCI] else []) @
        (if \<exists>ob \<in> set (bd_Objects bd). oa_Cgraph ob = [] then [KindMissingCgraph] else []) @
        (if \<exists>ob \<in> set (bd_Objects bd). oa_OptRecord ob = [] then [KindMissingOptRec] else []) @
        (if hasDebugInfo elf (oa_Object (hd (bd_Objects bd))) = Inr True then [] else [KindNoDebugInfo]))"
  by (simp add: Check_def Let_def gcc_findings_iff missing_finding_iff debug_findings_iff filter_empty_conv)

text \<open>
  The report lists exactly the gates that fail, each once and in a fixed order: the compiler, and then
  either the absence of objects or, of the side files and debug sections, those that are missing. It is
  positive exactly when the compiler is recent enough, there are objects, every object has its three
  side files, and the first object is an ELF file with debug information.
\<close>

theorem Check_gates:
  "map fi_Kind (rp_Findings (Check quote elf intro bd)) =
     (if gcc_ok (cc_Version (in_CCompiler intro)) then [] else [KindGCCTooOld]) @
     (if bd_Objects bd = [] then [KindNoTargets]
      else (if \<exists>ob \<in> set (bd_Objects bd). oa_CI ob = [] then [KindMissingCI] else []) @
        (if \<exists>ob \<in> set (bd_Objects bd). oa_Cgraph ob = [] then [KindMissingCgraph] else []) @
        (if \<exists>ob \<in> set (bd_Objects bd). oa_OptRecord ob = [] then [KindMissingOptRec] else []) @
        (if hasDebugInfo elf (oa_Object (hd (bd_Objects bd))) = Inr True then [] else [KindNoDebugInfo])) \<and>
   (rp_Ok (Check quote elf intro bd) \<longleftrightarrow>
     gcc_ok (cc_Version (in_CCompiler intro)) \<and> bd_Objects bd \<noteq> [] \<and>
     \<not> (\<exists>ob \<in> set (bd_Objects bd). oa_CI ob = [] \<or> oa_Cgraph ob = [] \<or> oa_OptRecord ob = []) \<and>
     hasDebugInfo elf (oa_Object (hd (bd_Objects bd))) = Inr True)"
proof -
  have "rp_Ok (Check quote elf intro bd) \<longleftrightarrow> map fi_Kind (rp_Findings (Check quote elf intro bd)) = []"
    by (auto simp: Check_def Let_def)
  then show ?thesis unfolding check_kinds by (auto split: if_splits)
qed

text \<open>The major version is the number before the first dot.\<close>

lemma parseMajor_dec: "n < 2 ^ 63 \<Longrightarrow> r = [] \<or> hd r = CHR ''.'' \<Longrightarrow> parseMajor (dec n @ r) = (int n, True)"
proof -
  assume n: "n < 2 ^ 63" and r: "r = [] \<or> hd r = CHR ''.''"
  have "CHR ''.'' \<notin> set (dec n)" using dec_digits [of "CHR ''.''" n] by auto
  then have "(case IndexByte (dec n @ r) (CHR ''.'') of None \<Rightarrow> dec n @ r | Some i \<Rightarrow> take i (dec n @ r)) = dec n"
    using r IndexByte_None_iff [of "dec n" "CHR ''.''"] IndexByte_append [of "CHR ''.''" "dec n"]
    by (cases r) (auto split: option.split)
  then show ?thesis using Atoi_dec [OF n] by (simp add: parseMajor_def Let_def)
qed

end
