(* ===== verification/Blob_Store.thy ===== *)
theory Blob_Store
  imports Herb_Prelude
begin

text \<open>
  The content-addressed store of source files, \<^verbatim>\<open>src/internal/blobstore/blobstore.go\<close>. The four tables it
  writes are maps by their primary keys. The SHA-256 sum in hexadecimal and the zstd encoder are
  arguments, and so is whether each statement that the code sends to the database succeeds. A writer
  holds the view of its transaction; the tables outside the transaction change at a commit only.
\<close>

section \<open>State\<close>

record blob_db =
  db_blobs :: "(string, nat \<times> string) gomap"
  db_sources :: "(string, string \<times> nat) gomap"
  db_external :: "(string, string) gomap"
  db_generated :: "(string, string) gomap"

record Writer =
  w_tx :: "blob_db option"

record PutResult =
  pr_Hash :: string
  pr_Size :: nat
  pr_Deduplicated :: bool

datatype bs_error =
    Begin_failed | Encoder_failed | Probe_failed string | Insert_failed string | Upsert_failed string
  | Already_finalized | Commit_failed | Nil_transaction

text \<open>Whether the probe of a hash, the insertion of a blob and the upsert of a row succeed.\<close>

record bs_io =
  io_probe :: bool
  io_insert :: bool
  io_upsert :: bool

section \<open>Operations\<close>

definition New :: "blob_db \<Rightarrow> bool \<Rightarrow> bool \<Rightarrow> bs_error + Writer" where
  "New db begin_ok enc_ok =
     (if \<not> begin_ok then Inl Begin_failed
      else if \<not> enc_ok then Inl Encoder_failed
      else Inr \<lparr>w_tx = Some db\<rparr>)"

text \<open>On a finalized writer the transaction is nil and the first use of it panics.\<close>

definition putBlob ::
  "(string \<Rightarrow> string) \<Rightarrow> (string \<Rightarrow> string) \<Rightarrow> bs_io \<Rightarrow> Writer \<Rightarrow> string \<Rightarrow> Writer \<times> (bs_error + PutResult)" where
  "putBlob hex_sum enc io w content =
     (let hash = hex_sum content
      in case w_tx w of
           None \<Rightarrow> (w, Inl Nil_transaction)
         | Some db \<Rightarrow>
             if \<not> io_probe io then (w, Inl (Probe_failed hash))
             else let deduped = (gget (db_blobs db) hash \<noteq> None);
                      res = \<lparr>pr_Hash = hash, pr_Size = length content, pr_Deduplicated = deduped\<rparr>
                  in if deduped then (w, Inr res)
                     else if \<not> io_insert io then (w, Inl (Insert_failed hash))
                     else (w\<lparr>w_tx := Some (db\<lparr>db_blobs := gput hash (length content, enc content) (db_blobs db)\<rparr>)\<rparr>, Inr res))"

text \<open>The three kinds of rows.\<close>

definition upsert_source :: "string \<Rightarrow> string \<times> nat \<Rightarrow> blob_db \<Rightarrow> blob_db" where
  "upsert_source path row db = db\<lparr>db_sources := gput path row (db_sources db)\<rparr>"

definition upsert_external :: "string \<Rightarrow> string \<Rightarrow> blob_db \<Rightarrow> blob_db" where
  "upsert_external path row db = db\<lparr>db_external := gput path row (db_external db)\<rparr>"

definition upsert_generated :: "string \<Rightarrow> string \<Rightarrow> blob_db \<Rightarrow> blob_db" where
  "upsert_generated path row db = db\<lparr>db_generated := gput path row (db_generated db)\<rparr>"

definition then_upsert ::
  "bs_io \<Rightarrow> string \<Rightarrow> (string \<Rightarrow> blob_db \<Rightarrow> blob_db) \<Rightarrow> Writer \<times> (bs_error + PutResult) \<Rightarrow> Writer \<times> (bs_error + PutResult)" where
  "then_upsert io key upsert r =
     (case r of
        (w, Inl e) \<Rightarrow> (w, Inl e)
      | (w, Inr res) \<Rightarrow>
          if \<not> io_upsert io then (w, Inl (Upsert_failed key))
          else (w\<lparr>w_tx := map_option (upsert (pr_Hash res)) (w_tx w)\<rparr>, Inr res))"

definition Put ::
  "(string \<Rightarrow> string) \<Rightarrow> (string \<Rightarrow> string) \<Rightarrow> bs_io \<Rightarrow> Writer \<Rightarrow> string \<Rightarrow> string \<Rightarrow> bool \<Rightarrow> Writer \<times> (bs_error + PutResult)" where
  "Put hex_sum enc io w path content isGenerated =
     (let gen = (if isGenerated then 1 else 0)
      in then_upsert io path (\<lambda>hash. upsert_source path (hash, gen)) (putBlob hex_sum enc io w content))"

definition PutExternal ::
  "(string \<Rightarrow> string) \<Rightarrow> (string \<Rightarrow> string) \<Rightarrow> bs_io \<Rightarrow> Writer \<Rightarrow> string \<Rightarrow> string \<Rightarrow> Writer \<times> (bs_error + PutResult)" where
  "PutExternal hex_sum enc io w absPath content =
     then_upsert io absPath (\<lambda>hash. upsert_external absPath hash) (putBlob hex_sum enc io w content)"

definition PutGenerated ::
  "(string \<Rightarrow> string) \<Rightarrow> (string \<Rightarrow> string) \<Rightarrow> bs_io \<Rightarrow> Writer \<Rightarrow> string \<Rightarrow> string \<Rightarrow> Writer \<times> (bs_error + PutResult)" where
  "PutGenerated hex_sum enc io w builddirRel content =
     then_upsert io builddirRel (\<lambda>hash. upsert_generated builddirRel hash) (putBlob hex_sum enc io w content)"

text \<open>The tables outside, the writer, and the error of a commit.\<close>

definition Commit :: "bool \<Rightarrow> blob_db \<Rightarrow> Writer \<Rightarrow> blob_db \<times> Writer \<times> bs_error option" where
  "Commit commit_ok db w =
     (case w_tx w of
        None \<Rightarrow> (db, w, Some Already_finalized)
      | Some view \<Rightarrow>
          if commit_ok then (view, w\<lparr>w_tx := None\<rparr>, None) else (db, w\<lparr>w_tx := None\<rparr>, Some Commit_failed))"

definition Rollback :: "Writer \<Rightarrow> Writer" where
  "Rollback w = (if w_tx w \<noteq> None then w\<lparr>w_tx := None\<rparr> else w)"

section \<open>The contract of the row tables\<close>

text \<open>
  What the store needs of a table of rows that refer to blobs: an upsert sets the row of one key and
  touches neither the blobs nor another table.
\<close>

locale source_table =
  fixes upsert :: "string \<Rightarrow> 'r \<Rightarrow> blob_db \<Rightarrow> blob_db"
    and row :: "blob_db \<Rightarrow> string \<Rightarrow> 'r option"
    and blob_of :: "'r \<Rightarrow> string"
  assumes row_upsert: "row (upsert k r d) k' = (if k' = k then Some r else row d k')"
    and blobs_upsert: "db_blobs (upsert k r d) = db_blobs d"
    and row_blobs: "row (d\<lparr>db_blobs := b\<rparr>) k = row d k"
begin

text \<open>A successful store leaves the row and its blob, and no other row of the table.\<close>

lemma stored:
  assumes "w_tx w = Some d" "io_probe io" "io_insert io" "io_upsert io"
    "\<And>h. blob_of (mk h) = h"
  shows "\<exists>d'. then_upsert io k (\<lambda>h. upsert k (mk h)) (putBlob hex_sum enc io w content) =
      (w\<lparr>w_tx := Some d'\<rparr>, Inr \<lparr>pr_Hash = hex_sum content, pr_Size = length content,
         pr_Deduplicated = (gget (db_blobs d) (hex_sum content) \<noteq> None)\<rparr>) \<and>
    row d' k = Some (mk (hex_sum content)) \<and> (\<forall>k'. k' \<noteq> k \<longrightarrow> row d' k' = row d k') \<and>
    gget (db_blobs d') (hex_sum content) =
      (case gget (db_blobs d) (hex_sum content) of None \<Rightarrow> Some (length content, enc content) | Some b \<Rightarrow> Some b)"
  using assms(1-4)
  by (auto simp: putBlob_def then_upsert_def Let_def row_upsert blobs_upsert row_blobs split: option.split)

end

interpretation src_rows: source_table upsert_source "\<lambda>d. gget (db_sources d)" fst
  by unfold_locales (simp_all add: upsert_source_def)

interpretation ext_rows: source_table upsert_external "\<lambda>d. gget (db_external d)" id
  by unfold_locales (simp_all add: upsert_external_def)

interpretation gen_rows: source_table upsert_generated "\<lambda>d. gget (db_generated d)" id
  by unfold_locales (simp_all add: upsert_generated_def)

section \<open>Content addressing\<close>

text \<open>Every blob is the encoding of a content with that sum and size; every row refers to a blob.\<close>

definition blobs_ok :: "(string \<Rightarrow> string) \<Rightarrow> (string \<Rightarrow> string) \<Rightarrow> blob_db \<Rightarrow> bool" where
  "blobs_ok hex_sum enc d \<longleftrightarrow>
     (\<forall>h n c. gget (db_blobs d) h = Some (n, c) \<longrightarrow> (\<exists>content. h = hex_sum content \<and> n = length content \<and> c = enc content))"

definition rows_ok :: "blob_db \<Rightarrow> bool" where
  "rows_ok d \<longleftrightarrow>
     (\<forall>k h g. gget (db_sources d) k = Some (h, g) \<longrightarrow> gget (db_blobs d) h \<noteq> None) \<and>
     (\<forall>k h. gget (db_external d) k = Some h \<longrightarrow> gget (db_blobs d) h \<noteq> None) \<and>
     (\<forall>k h. gget (db_generated d) k = Some h \<longrightarrow> gget (db_blobs d) h \<noteq> None)"

definition store_ok :: "(string \<Rightarrow> string) \<Rightarrow> (string \<Rightarrow> string) \<Rightarrow> Writer \<Rightarrow> bool" where
  "store_ok hex_sum enc w \<longleftrightarrow> (case w_tx w of None \<Rightarrow> True | Some d \<Rightarrow> blobs_ok hex_sum enc d \<and> rows_ok d)"

text \<open>Operations as data, with the outcome of their statements.\<close>

datatype bs_op = Put_op string string bool | External_op string string | Generated_op string string

fun run_op :: "(string \<Rightarrow> string) \<Rightarrow> (string \<Rightarrow> string) \<Rightarrow> Writer \<Rightarrow> bs_io \<times> bs_op \<Rightarrow> Writer" where
  "run_op hex_sum enc w (io, Put_op p c g) = fst (Put hex_sum enc io w p c g)"
| "run_op hex_sum enc w (io, External_op p c) = fst (PutExternal hex_sum enc io w p c)"
| "run_op hex_sum enc w (io, Generated_op p c) = fst (PutGenerated hex_sum enc io w p c)"

lemma blobs_insert:
  "blobs_ok hex_sum enc d \<Longrightarrow>
   blobs_ok hex_sum enc (d\<lparr>db_blobs := gput (hex_sum content) (length content, enc content) (db_blobs d)\<rparr>)"
  unfolding blobs_ok_def by (simp split: if_split) blast

lemma rows_insert: "rows_ok d \<Longrightarrow> rows_ok (d\<lparr>db_blobs := gput h b (db_blobs d)\<rparr>)"
  by (simp add: rows_ok_def)

lemma putBlob_ok:
  assumes "store_ok hex_sum enc w" "putBlob hex_sum enc io w content = (w', r)"
  shows "store_ok hex_sum enc w' \<and>
    (case r of Inl _ \<Rightarrow> w' = w | Inr res \<Rightarrow> \<exists>d. w_tx w' = Some d \<and> gget (db_blobs d) (pr_Hash res) \<noteq> None)"
  using assms
  by (auto simp: putBlob_def store_ok_def Let_def blobs_insert rows_insert split: option.splits if_splits)

lemma rows_upsert:
  "rows_ok d \<Longrightarrow> gget (db_blobs d) h \<noteq> None \<Longrightarrow> rows_ok (upsert_source k (h, g) d)"
  "rows_ok d \<Longrightarrow> gget (db_blobs d) h \<noteq> None \<Longrightarrow> rows_ok (upsert_external k h d)"
  "rows_ok d \<Longrightarrow> gget (db_blobs d) h \<noteq> None \<Longrightarrow> rows_ok (upsert_generated k h d)"
  by (auto simp: rows_ok_def upsert_source_def upsert_external_def upsert_generated_def)

lemma then_upsert_ok:
  assumes "store_ok hex_sum enc w"
    "\<And>d h. rows_ok d \<Longrightarrow> gget (db_blobs d) h \<noteq> None \<Longrightarrow> rows_ok (up h d)" "\<And>h d. db_blobs (up h d) = db_blobs d"
  shows "store_ok hex_sum enc (fst (then_upsert io k up (putBlob hex_sum enc io w content)))"
proof -
  obtain w' r where p: "putBlob hex_sum enc io w content = (w', r)" by fastforce
  from putBlob_ok [OF assms(1) p] show ?thesis
    using assms(2,3) by (cases r) (auto simp: then_upsert_def p store_ok_def blobs_ok_def)
qed

lemma run_op_ok: "store_ok hex_sum enc w \<Longrightarrow> store_ok hex_sum enc (run_op hex_sum enc w op)"
  by (cases "(hex_sum, enc, w, op)" rule: run_op.cases)
    (auto simp: Put_def PutExternal_def PutGenerated_def Let_def rows_upsert src_rows.blobs_upsert
      ext_rows.blobs_upsert gen_rows.blobs_upsert intro!: then_upsert_ok)

text \<open>
  C35 The store stays content-addressed and closed under references through any sequence of operations,
  whichever of their statements fail: every blob is the encoding of a content whose sum is its key and
  whose length is its size, and every row of the three tables refers to a blob that is there.
\<close>

theorem blobstore_invariant:
  assumes "New db True True = Inr w" "blobs_ok hex_sum enc db" "rows_ok db"
  shows "store_ok hex_sum enc (foldl (run_op hex_sum enc) w ops)"
proof -
  have "store_ok hex_sum enc w" using assms by (auto simp: New_def store_ok_def)
  then show ?thesis by (induction ops arbitrary: w) (auto intro: run_op_ok)
qed

definition empty_db :: blob_db where
  "empty_db = \<lparr>db_blobs = [], db_sources = [], db_external = [], db_generated = []\<rparr>"

theorem blobstore_invariant_witness:
  "store_ok id rev (foldl (run_op id rev) \<lparr>w_tx = Some empty_db\<rparr>
     [(\<lparr>io_probe = True, io_insert = True, io_upsert = False\<rparr>, Put_op ''a.c'' ''int'' False),
      (\<lparr>io_probe = True, io_insert = True, io_upsert = True\<rparr>, External_op ''/usr/x.h'' ''int'')])"
proof -
  have "New empty_db True True = Inr \<lparr>w_tx = Some empty_db\<rparr>" by (simp add: New_def)
  moreover have "blobs_ok id rev empty_db" "rows_ok empty_db"
    by (simp_all add: blobs_ok_def rows_ok_def empty_db_def)
  ultimately show ?thesis by (rule blobstore_invariant)
qed

text \<open>
  Storing and reading back: when no other content has the same sum, a successful store of a project
  file leaves a row from its path to a blob that decodes to the content, reports the length of the
  content, and reports a duplicate exactly when a blob of that sum was there before; the rows of other
  paths are as before.
\<close>

theorem Put_read_back:
  assumes "w_tx w = Some d" "store_ok hex_sum enc w" "io_probe io" "io_insert io" "io_upsert io"
    "\<And>c. decode (enc c) = c" "\<And>c. hex_sum c = hex_sum content \<Longrightarrow> c = content"
  shows "\<exists>d' n b res. Put hex_sum enc io w path content gen = (w\<lparr>w_tx := Some d'\<rparr>, Inr res) \<and>
    gget (db_sources d') path = Some (hex_sum content, if gen then 1 else 0) \<and>
    gget (db_blobs d') (hex_sum content) = Some (n, b) \<and> decode b = content \<and> n = length content \<and>
    pr_Size res = length content \<and> (pr_Deduplicated res \<longleftrightarrow> gget (db_blobs d) (hex_sum content) \<noteq> None) \<and>
    (\<forall>p. p \<noteq> path \<longrightarrow> gget (db_sources d') p = gget (db_sources d) p)"
proof -
  obtain d' where d': "Put hex_sum enc io w path content gen =
      (w\<lparr>w_tx := Some d'\<rparr>, Inr \<lparr>pr_Hash = hex_sum content, pr_Size = length content,
         pr_Deduplicated = (gget (db_blobs d) (hex_sum content) \<noteq> None)\<rparr>)"
    "gget (db_sources d') path = Some (hex_sum content, if gen then 1 else 0)"
    "\<forall>p. p \<noteq> path \<longrightarrow> gget (db_sources d') p = gget (db_sources d) p"
    "gget (db_blobs d') (hex_sum content) =
      (case gget (db_blobs d) (hex_sum content) of None \<Rightarrow> Some (length content, enc content) | Some b \<Rightarrow> Some b)"
    using src_rows.stored [OF assms(1,3,4,5), of "\<lambda>h. (h, if gen then 1 else 0)" path hex_sum enc content]
    by (auto simp: Put_def Let_def)
  have "\<exists>n b. gget (db_blobs d') (hex_sum content) = Some (n, b) \<and> b = enc content \<and> n = length content"
  proof (cases "gget (db_blobs d) (hex_sum content)")
    case (Some nb)
    obtain n b where nb: "nb = (n, b)" by fastforce
    have "blobs_ok hex_sum enc d" using assms(1,2) by (simp add: store_ok_def)
    then obtain c where "hex_sum content = hex_sum c" "n = length c" "b = enc c"
      using Some nb unfolding blobs_ok_def by blast
    then have "n = length content" "b = enc content" using assms(7) [of c] by simp_all
    then show ?thesis using Some nb d'(4) by simp
  qed (simp add: d'(4))
  then obtain n b where nb: "gget (db_blobs d') (hex_sum content) = Some (n, b)" "b = enc content" "n = length content"
    by blast
  have "decode b = content" by (simp add: nb(2) assms(6))
  with d'(2,3) nb(1,3) show ?thesis unfolding d'(1)
    by (intro exI [of _ d'] exI [of _ n] exI [of _ b] exI [of _ "\<lparr>pr_Hash = hex_sum content,
      pr_Size = length content, pr_Deduplicated = (gget (db_blobs d) (hex_sum content) \<noteq> None)\<rparr>"] conjI) simp_all
qed

theorem Put_read_back_witness:
  "\<exists>d' n b res. Put id rev \<lparr>io_probe = True, io_insert = True, io_upsert = True\<rparr> \<lparr>w_tx = Some empty_db\<rparr> ''a.c'' ''int'' False =
      (\<lparr>w_tx = Some empty_db\<rparr>\<lparr>w_tx := Some d'\<rparr>, Inr res) \<and> gget (db_blobs d') ''int'' = Some (n, b) \<and> rev b = ''int''"
proof -
  let ?w = "\<lparr>w_tx = Some empty_db\<rparr>"
  let ?io = "\<lparr>io_probe = True, io_insert = True, io_upsert = True\<rparr>"
  have "store_ok id rev ?w" by (simp add: store_ok_def blobs_ok_def rows_ok_def empty_db_def)
  from Put_read_back [of ?w empty_db id rev ?io rev "''int''" "''a.c''" False, OF _ this]
  show ?thesis by auto
qed

text \<open>
  Nothing of a transaction is seen before its commit: after any operations a rollback leaves the
  tables outside as they were and the writer finished, and a commit that succeeds makes them exactly what
  the operations built. A finished writer refuses a second commit and ignores a rollback.
\<close>

theorem blobstore_transaction:
  "case foldl (run_op hex_sum enc) \<lparr>w_tx = Some db\<rparr> ops of w \<Rightarrow>
     (\<exists>view. w_tx w = Some view \<and> Commit True db w = (view, \<lparr>w_tx = None\<rparr>, None)) \<and>
     fst (Commit False db w) = db \<and> Rollback w = \<lparr>w_tx = None\<rparr> \<and>
     Commit ok db (Rollback w) = (db, \<lparr>w_tx = None\<rparr>, Some Already_finalized) \<and>
     Rollback (fst (snd (Commit ok db w))) = fst (snd (Commit ok db w))"
proof -
  have "\<exists>view. w_tx (run_op hex_sum enc w op) = Some view" if "w_tx w = Some v" for w v op
    using that by (cases "(hex_sum, enc, w, op)" rule: run_op.cases)
      (auto simp: Put_def PutExternal_def PutGenerated_def then_upsert_def putBlob_def Let_def split: option.splits)
  then have "\<exists>view. w_tx (foldl (run_op hex_sum enc) w ops) = Some view" if "w_tx w = Some v" for w v
    using that by (induction ops arbitrary: w v) (simp, metis foldl_Cons)
  then obtain view where "w_tx (foldl (run_op hex_sum enc) \<lparr>w_tx = Some db\<rparr> ops) = Some view" by fastforce
  then show ?thesis by (cases "foldl (run_op hex_sum enc) \<lparr>w_tx = Some db\<rparr> ops") (auto simp: Commit_def Rollback_def)
qed

end
