(* ===== verification/Hbr_Db.thy ===== *)
theory Hbr_Db
  imports Herb_Prelude
begin

text \<open>
  The tables of the index that the ingest passes fill, after \<^verbatim>\<open>src/internal/store/schema.sql\<close>, and the
  insertions into them. A row with an \<^verbatim>\<open>INTEGER PRIMARY KEY\<close> is stored with its id, which SQLite makes one
  more than the greatest id of the table. An insertion fails when it breaks a \<^verbatim>\<open>UNIQUE\<close>, \<^verbatim>\<open>PRIMARY KEY\<close> or
  \<^verbatim>\<open>REFERENCES\<close> clause of the schema (foreign keys are switched on by \<^verbatim>\<open>store.Open\<close>), or when the engine
  fails for a reason of its own, which is an argument. A column that holds the JSON text of a list of
  strings holds the list.
\<close>

section \<open>Rows\<close>

record target_row =
  t_name :: string
  t_kind :: string
  t_link_command :: string

record symbol_row =
  sy_usr :: string
  sy_name :: string
  sy_kind :: string
  sy_linkage :: string
  sy_signature :: string
  sy_address_taken :: int
  sy_linkage_names :: "string list option"

record definition_row =
  sd_symbol_id :: int
  sd_file :: string
  sd_line :: int
  sd_decl_file :: string
  sd_decl_line :: int
  sd_is_weak :: int
  sd_linkage_name :: string

record edge_row =
  ce_caller_id :: int
  ce_callee_id :: int
  ce_source :: string
  ce_target_id :: "int option"

record decision_row =
  id_caller_id :: int
  id_callee_id :: int
  id_inlined :: int

record record_row =
  rr_caller_id :: int
  rr_callee_id :: int
  rr_pass :: string
  rr_inlined :: int
  rr_reason :: string
  rr_file :: string
  rr_line :: int
  rr_column :: int
  rr_object :: string

record group_row =
  ig_winner_symbol_id :: int
  ig_object_file :: string

record resolution_row =
  lr_target_id :: int
  lr_usr :: string
  lr_winning_object :: string
  lr_linkage_kind :: string
  lr_losing_objects :: "string list"
  lr_archive :: string

record hbr =
  targets :: "(int \<times> target_row) list"
  target_sources :: "(int \<times> string) list"
  symbols :: "(int \<times> symbol_row) list"
  symbol_definitions :: "(int \<times> definition_row) list"
  call_edges :: "edge_row list"
  inline_decisions :: "decision_row list"
  inline_records :: "record_row list"
  icf_groups :: "(int \<times> group_row) list"
  icf_group_members :: "(int \<times> int) list"
  link_resolutions :: "resolution_row list"

definition fresh_hbr :: hbr where
  "fresh_hbr = \<lparr>targets = [], target_sources = [], symbols = [], symbol_definitions = [], call_edges = [],
     inline_decisions = [], inline_records = [], icf_groups = [], icf_group_members = [], link_resolutions = []\<rparr>"

section \<open>Insertions\<close>

datatype insertion =
    Ins_target target_row
  | Ins_target_source int string
  | Ins_symbol symbol_row
  | Ins_definition definition_row
  | Ins_edge edge_row
  | Ins_decision decision_row
  | Ins_record record_row
  | Ins_group group_row
  | Ins_member int int
  | Ins_resolution resolution_row

definition ids :: "(int \<times> 'r) list \<Rightarrow> int list" where
  "ids rows = map fst rows"

definition next_id :: "(int \<times> 'r) list \<Rightarrow> int" where
  "next_id rows = 1 + fold max (ids rows) 0"

fun constraint_ok :: "hbr \<Rightarrow> insertion \<Rightarrow> bool" where
  "constraint_ok db (Ins_target r) = (t_name r \<notin> set (map (t_name \<circ> snd) (targets db)))"
| "constraint_ok db (Ins_target_source t f) = (t \<in> set (ids (targets db)))"
| "constraint_ok db (Ins_symbol r) = (sy_usr r \<notin> set (map (sy_usr \<circ> snd) (symbols db)))"
| "constraint_ok db (Ins_definition r) = (sd_symbol_id r \<in> set (ids (symbols db)))"
| "constraint_ok db (Ins_edge r) = (ce_caller_id r \<in> set (ids (symbols db)) \<and> ce_callee_id r \<in> set (ids (symbols db)))"
| "constraint_ok db (Ins_decision r) = (id_caller_id r \<in> set (ids (symbols db)) \<and> id_callee_id r \<in> set (ids (symbols db)))"
| "constraint_ok db (Ins_record r) = (rr_caller_id r \<in> set (ids (symbols db)) \<and> rr_callee_id r \<in> set (ids (symbols db)))"
| "constraint_ok db (Ins_group r) = (ig_winner_symbol_id r \<in> set (ids (symbols db)))"
| "constraint_ok db (Ins_member g s) =
     (g \<in> set (ids (icf_groups db)) \<and> s \<in> set (ids (symbols db)) \<and> (g, s) \<notin> set (icf_group_members db))"
| "constraint_ok db (Ins_resolution r) = (lr_target_id r \<in> set (ids (targets db)))"

text \<open>The tables after an insertion, and the id of the new row where the table has one.\<close>

fun insert_row :: "insertion \<Rightarrow> hbr \<Rightarrow> hbr \<times> int" where
  "insert_row (Ins_target r) db = (let i = next_id (targets db) in (db\<lparr>targets := targets db @ [(i, r)]\<rparr>, i))"
| "insert_row (Ins_target_source t f) db = (db\<lparr>target_sources := target_sources db @ [(t, f)]\<rparr>, 0)"
| "insert_row (Ins_symbol r) db = (let i = next_id (symbols db) in (db\<lparr>symbols := symbols db @ [(i, r)]\<rparr>, i))"
| "insert_row (Ins_definition r) db =
     (let i = next_id (symbol_definitions db) in (db\<lparr>symbol_definitions := symbol_definitions db @ [(i, r)]\<rparr>, i))"
| "insert_row (Ins_edge r) db = (db\<lparr>call_edges := call_edges db @ [r]\<rparr>, 0)"
| "insert_row (Ins_decision r) db = (db\<lparr>inline_decisions := inline_decisions db @ [r]\<rparr>, 0)"
| "insert_row (Ins_record r) db = (db\<lparr>inline_records := inline_records db @ [r]\<rparr>, 0)"
| "insert_row (Ins_group r) db = (let i = next_id (icf_groups db) in (db\<lparr>icf_groups := icf_groups db @ [(i, r)]\<rparr>, i))"
| "insert_row (Ins_member g s) db = (db\<lparr>icf_group_members := icf_group_members db @ [(g, s)]\<rparr>, 0)"
| "insert_row (Ins_resolution r) db = (db\<lparr>link_resolutions := link_resolutions db @ [r]\<rparr>, 0)"

text \<open>
  What the engine decides: whether a transaction begins, whether a statement on a table can be prepared,
  whether a legal insertion is carried out in the given state, whether the id of the last row can be had,
  and whether the commit succeeds.
\<close>

record tx_io =
  tx_begin :: bool
  tx_prepare :: "string \<Rightarrow> bool"
  tx_exec :: "hbr \<Rightarrow> insertion \<Rightarrow> bool"
  tx_last_id :: "hbr \<Rightarrow> bool"
  tx_commit :: bool

definition working :: tx_io where
  "working = \<lparr>tx_begin = True, tx_prepare = (\<lambda>_. True), tx_exec = (\<lambda>_ _. True), tx_last_id = (\<lambda>_. True), tx_commit = True\<rparr>"

definition exec :: "tx_io \<Rightarrow> hbr \<Rightarrow> insertion \<Rightarrow> (hbr \<times> int) option" where
  "exec io db ins = (if tx_exec io db ins \<and> constraint_ok db ins then Some (insert_row ins db) else None)"

section \<open>Integrity\<close>

text \<open>What the schema promises of the tables: ids and keys are unique, references lead to rows.\<close>

definition hbr_ok :: "hbr \<Rightarrow> bool" where
  "hbr_ok db \<longleftrightarrow>
     distinct (ids (targets db)) \<and> distinct (map (t_name \<circ> snd) (targets db)) \<and>
     distinct (ids (symbols db)) \<and> distinct (map (sy_usr \<circ> snd) (symbols db)) \<and>
     distinct (ids (symbol_definitions db)) \<and> distinct (ids (icf_groups db)) \<and> distinct (icf_group_members db) \<and>
     fst ` set (target_sources db) \<subseteq> set (ids (targets db)) \<and>
     (\<lambda>r. sd_symbol_id (snd r)) ` set (symbol_definitions db) \<subseteq> set (ids (symbols db)) \<and>
     ce_caller_id ` set (call_edges db) \<union> ce_callee_id ` set (call_edges db) \<subseteq> set (ids (symbols db)) \<and>
     id_caller_id ` set (inline_decisions db) \<union> id_callee_id ` set (inline_decisions db) \<subseteq> set (ids (symbols db)) \<and>
     rr_caller_id ` set (inline_records db) \<union> rr_callee_id ` set (inline_records db) \<subseteq> set (ids (symbols db)) \<and>
     (\<lambda>r. ig_winner_symbol_id (snd r)) ` set (icf_groups db) \<subseteq> set (ids (symbols db)) \<and>
     fst ` set (icf_group_members db) \<subseteq> set (ids (icf_groups db)) \<and>
     snd ` set (icf_group_members db) \<subseteq> set (ids (symbols db)) \<and>
     lr_target_id ` set (link_resolutions db) \<subseteq> set (ids (targets db))"

lemma ids_simps [simp]: "ids [] = []" "ids (r # rows) = fst r # ids rows" "ids (rows @ rows') = ids rows @ ids rows'"
  by (simp_all add: ids_def)

lemma ids_map_snd [simp]: "ids (map (\<lambda>(i, t). (i, f t)) its) = ids its"
  by (induction its) auto

lemma fold_max_ge: "(a :: int) \<le> fold max xs a" "x \<in> set xs \<Longrightarrow> x \<le> fold max xs a"
proof -
  have *: "a \<le> fold max xs a" for a :: int and xs
  proof (induction xs arbitrary: a)
    case (Cons y ys)
    from Cons.IH [of "max y a"] show ?case by simp
  qed simp
  show "a \<le> fold max xs a" by (rule *)
  show "x \<in> set xs \<Longrightarrow> x \<le> fold max xs a"
  proof (induction xs arbitrary: a)
    case (Cons y ys)
    from Cons * [of "max y a" ys] show ?case by auto
  qed simp
qed

lemma next_id_fresh [simp]: "next_id rows \<notin> set (ids rows)"
  using fold_max_ge(2) [of "next_id rows" "ids rows" 0] by (auto simp: next_id_def)

lemma next_id_gt: "i \<in> set (ids rows) \<Longrightarrow> i < next_id rows"
  using fold_max_ge(2) [of i "ids rows" 0] by (simp add: next_id_def)

lemma next_id_Nil [simp]: "next_id [] = 1"
  by (simp add: next_id_def)

lemma next_id_snoc: "next_id (rows @ [(next_id rows, r)]) = next_id rows + 1"
proof -
  have "fold max (ids rows) 0 < next_id rows" by (simp add: next_id_def)
  then show ?thesis unfolding next_id_def [of "rows @ _"] by (simp add: fold_append)
qed

lemma hbr_ok_fresh [simp]: "hbr_ok fresh_hbr"
  by (simp add: hbr_ok_def fresh_hbr_def)

lemma insert_row_ok: "hbr_ok db \<Longrightarrow> constraint_ok db ins \<Longrightarrow> hbr_ok (fst (insert_row ins db))"
  unfolding hbr_ok_def by (cases ins) (simp_all add: Let_def subset_insertI2)

text \<open>An insertion that succeeds keeps the integrity of the tables, and one never removes a row.\<close>

lemma exec_ok: "hbr_ok db \<Longrightarrow> exec io db ins = Some (db', i) \<Longrightarrow> hbr_ok db'"
  using insert_row_ok [of db ins] by (auto simp: exec_def split: if_splits)

section \<open>Frames\<close>

fun table_of :: "insertion \<Rightarrow> string" where
  "table_of (Ins_target _) = ''targets''"
| "table_of (Ins_target_source _ _) = ''target_sources''"
| "table_of (Ins_symbol _) = ''symbols''"
| "table_of (Ins_definition _) = ''symbol_definitions''"
| "table_of (Ins_edge _) = ''call_edges''"
| "table_of (Ins_decision _) = ''inline_decisions''"
| "table_of (Ins_record _) = ''inline_records''"
| "table_of (Ins_group _) = ''icf_groups''"
| "table_of (Ins_member _ _) = ''icf_group_members''"
| "table_of (Ins_resolution _) = ''link_resolutions''"

text \<open>Insertions into the given tables keep a property of the database.\<close>

definition keeps :: "string set \<Rightarrow> (hbr \<Rightarrow> bool) \<Rightarrow> bool" where
  "keeps T P \<longleftrightarrow> (\<forall>db x. P db \<longrightarrow> table_of x \<in> T \<longrightarrow> constraint_ok db x \<longrightarrow> P (fst (insert_row x db)))"

lemma keeps_exec: "keeps T P \<Longrightarrow> P db \<Longrightarrow> table_of x \<in> T \<Longrightarrow> exec io db x = Some (db', i) \<Longrightarrow> P db'"
  unfolding keeps_def exec_def by (metis fst_conv option.distinct(1) option.inject)

lemma keeps_mono: "keeps T P \<Longrightarrow> T' \<subseteq> T \<Longrightarrow> keeps T' P"
  by (auto simp: keeps_def)

lemma keeps_hbr_ok: "keeps T hbr_ok"
  by (simp add: keeps_def insert_row_ok)

text \<open>A table is only changed by insertions into it.\<close>

lemma keeps_targets: "''targets'' \<notin> T \<Longrightarrow> keeps T (\<lambda>db. targets db = X)"
  unfolding keeps_def by (intro allI impI, case_tac x) (auto simp: Let_def)

lemma keeps_symbols: "''symbols'' \<notin> T \<Longrightarrow> keeps T (\<lambda>db. symbols db = X)"
  unfolding keeps_def by (intro allI impI, case_tac x) (auto simp: Let_def)

lemma keeps_definitions: "''symbol_definitions'' \<notin> T \<Longrightarrow> keeps T (\<lambda>db. symbol_definitions db = X)"
  unfolding keeps_def by (intro allI impI, case_tac x) (auto simp: Let_def)

lemma keeps_edges: "''call_edges'' \<notin> T \<Longrightarrow> keeps T (\<lambda>db. call_edges db = X)"
  unfolding keeps_def by (intro allI impI, case_tac x) (auto simp: Let_def)

lemma keeps_decisions: "''inline_decisions'' \<notin> T \<Longrightarrow> keeps T (\<lambda>db. inline_decisions db = X)"
  unfolding keeps_def by (intro allI impI, case_tac x) (auto simp: Let_def)

lemma keeps_records: "''inline_records'' \<notin> T \<Longrightarrow> keeps T (\<lambda>db. inline_records db = X)"
  unfolding keeps_def by (intro allI impI, case_tac x) (auto simp: Let_def)

lemma keeps_groups: "''icf_groups'' \<notin> T \<Longrightarrow> keeps T (\<lambda>db. icf_groups db = X)"
  unfolding keeps_def by (intro allI impI, case_tac x) (auto simp: Let_def)

lemma keeps_members: "''icf_group_members'' \<notin> T \<Longrightarrow> keeps T (\<lambda>db. icf_group_members db = X)"
  unfolding keeps_def by (intro allI impI, case_tac x) (auto simp: Let_def)

lemma keeps_resolutions: "''link_resolutions'' \<notin> T \<Longrightarrow> keeps T (\<lambda>db. link_resolutions db = X)"
  unfolding keeps_def by (intro allI impI, case_tac x) (auto simp: Let_def)

lemmas table_frames = keeps_targets keeps_symbols keeps_definitions keeps_edges keeps_decisions keeps_records
  keeps_groups keeps_members keeps_resolutions

section \<open>Tables with ids\<close>

text \<open>Consecutive ids for a list of rows.\<close>

primrec enum_from :: "int \<Rightarrow> 'a list \<Rightarrow> (int \<times> 'a) list" where
  "enum_from i [] = []"
| "enum_from i (x # xs) = (i, x) # enum_from (i + 1) xs"

lemma enum_from_append: "enum_from i (xs @ ys) = enum_from i xs @ enum_from (i + int (length xs)) ys"
  by (induction xs arbitrary: i) (auto simp: algebra_simps)

lemma map_snd_enum_from [simp]: "map snd (enum_from i xs) = xs"
  by (induction xs arbitrary: i) auto

lemma length_enum_from [simp]: "length (enum_from i xs) = length xs"
  by (induction xs arbitrary: i) auto

lemma ids_enum_from_ge: "j \<in> set (ids (enum_from i xs)) \<Longrightarrow> i \<le> j"
  by (induction xs arbitrary: i) force+

lemma distinct_ids_enum_from: "distinct (ids (enum_from i xs))"
proof (induction xs arbitrary: i)
  case (Cons x xs)
  have "i \<notin> set (ids (enum_from (i + 1) xs))" using ids_enum_from_ge [of i "i + 1" xs] by auto
  with Cons.IH show ?case by simp
qed simp

lemma enum_from_map: "enum_from i (map f xs) = map (\<lambda>(j, x). (j, f x)) (enum_from i xs)"
  by (induction xs arbitrary: i) auto

text \<open>
  The contract of a table with an \<^verbatim>\<open>INTEGER PRIMARY KEY\<close>: its own insertion appends the row under the next id
  and reports the id, and no other insertion touches the table.
\<close>

locale rowid_table =
  fixes rows :: "hbr \<Rightarrow> (int \<times> 'r) list"
    and ins :: "'r \<Rightarrow> insertion"
    and pick :: "insertion \<Rightarrow> 'r option"
  assumes own: "insert_row (ins r) db = (db', i) \<Longrightarrow> i = next_id (rows db) \<and> rows db' = rows db @ [(i, r)]"
    and other: "pick x = None \<Longrightarrow> rows (fst (insert_row x db)) = rows db"
    and pick_Some: "pick x = Some r \<longleftrightarrow> x = ins r"
begin

lemma exec_own:
  "exec io db (ins r) = Some (db', i) \<Longrightarrow>
     i = next_id (rows db) \<and> rows db' = rows db @ [(i, r)] \<and> next_id (rows db') = next_id (rows db) + 1"
  using own [of r db db' i] next_id_snoc [of "rows db" r] by (auto simp: exec_def split: if_splits)

lemma exec_other: "exec io db x = Some (db', i) \<Longrightarrow> pick x = None \<Longrightarrow> rows db' = rows db"
  using other [of x db] by (auto simp: exec_def split: if_splits)

end

fun pick_target :: "insertion \<Rightarrow> target_row option" where
  "pick_target (Ins_target r) = Some r"
| "pick_target _ = None"

fun pick_symbol :: "insertion \<Rightarrow> symbol_row option" where
  "pick_symbol (Ins_symbol r) = Some r"
| "pick_symbol _ = None"

fun pick_definition :: "insertion \<Rightarrow> definition_row option" where
  "pick_definition (Ins_definition r) = Some r"
| "pick_definition _ = None"

fun pick_group :: "insertion \<Rightarrow> group_row option" where
  "pick_group (Ins_group r) = Some r"
| "pick_group _ = None"

interpretation target_table: rowid_table targets Ins_target pick_target
proof
  fix x :: insertion and r db
  show "pick_target x = None \<Longrightarrow> targets (fst (insert_row x db)) = targets db" by (cases x) (auto simp: Let_def)
  show "pick_target x = Some r \<longleftrightarrow> x = Ins_target r" by (cases x) auto
qed (auto simp: Let_def)

interpretation symbol_table: rowid_table symbols Ins_symbol pick_symbol
proof
  fix x :: insertion and r db
  show "pick_symbol x = None \<Longrightarrow> symbols (fst (insert_row x db)) = symbols db" by (cases x) (auto simp: Let_def)
  show "pick_symbol x = Some r \<longleftrightarrow> x = Ins_symbol r" by (cases x) auto
qed (auto simp: Let_def)

interpretation definition_table: rowid_table symbol_definitions Ins_definition pick_definition
proof
  fix x :: insertion and r db
  show "pick_definition x = None \<Longrightarrow> symbol_definitions (fst (insert_row x db)) = symbol_definitions db" by (cases x) (auto simp: Let_def)
  show "pick_definition x = Some r \<longleftrightarrow> x = Ins_definition r" by (cases x) auto
qed (auto simp: Let_def)

interpretation group_table: rowid_table icf_groups Ins_group pick_group
proof
  fix x :: insertion and r db
  show "pick_group x = None \<Longrightarrow> icf_groups (fst (insert_row x db)) = icf_groups db" by (cases x) (auto simp: Let_def)
  show "pick_group x = Some r \<longleftrightarrow> x = Ins_group r" by (cases x) auto
qed (auto simp: Let_def)

end
