(* ===== verification/Ingest_Targets.thy ===== *)
theory Ingest_Targets
  imports Hbr_Db Ingest_Paths Meson_Introspect
begin

text \<open>
  The pass that writes the build targets, \<^verbatim>\<open>src/internal/ingest/targets.go\<close>. The tables it works on are the
  view of its transaction; they become the tables of the index at the commit only.
\<close>

section \<open>The pass\<close>

datatype targets_error =
  T_begin | T_prepare string | T_insert string | T_last_id | T_source string | T_commit

fun insert_sources :: "tx_io \<Rightarrow> PathResolver \<Rightarrow> int \<Rightarrow> string list \<Rightarrow> hbr \<Rightarrow> targets_error + hbr" where
  "insert_sources io pr i [] db = Inr db"
| "insert_sources io pr i (absSrc # srcs) db =
     (case exec io db (Ins_target_source i (rp_Rel (ToProjectRelative pr absSrc))) of
        None \<Rightarrow> Inl (T_source absSrc)
      | Some (db', _) \<Rightarrow> insert_sources io pr i srcs db')"

text \<open>The row of a target; the link command is joined with blanks, and a nil slice joins to nothing.\<close>

definition target_row_of :: "Target \<Rightarrow> target_row" where
  "target_row_of t = \<lparr>t_name = tg_Name t, t_kind = tg_Kind t,
     t_link_command = join_with '' '' (case tg_LinkCmd t of None \<Rightarrow> [] | Some ws \<Rightarrow> ws)\<rparr>"

fun insert_targets ::
  "tx_io \<Rightarrow> PathResolver \<Rightarrow> Target list \<Rightarrow> hbr \<Rightarrow> (string, int) gomap \<Rightarrow> targets_error + hbr \<times> (string, int) gomap" where
  "insert_targets io pr [] db idByName = Inr (db, idByName)"
| "insert_targets io pr (t # ts) db idByName =
     (case exec io db (Ins_target (target_row_of t)) of
        None \<Rightarrow> Inl (T_insert (tg_Name t))
      | Some (db', i) \<Rightarrow>
          if \<not> tx_last_id io db' then Inl T_last_id
          else (case insert_sources io pr i (tg_Sources t) db' of
                  Inl e \<Rightarrow> Inl e
                | Inr db'' \<Rightarrow> insert_targets io pr ts db'' (gput (tg_Name t) i idByName)))"

definition Targets ::
  "tx_io \<Rightarrow> hbr \<Rightarrow> Introspection \<Rightarrow> PathResolver \<Rightarrow> hbr \<times> (targets_error + (string, int) gomap)" where
  "Targets io db intro pr =
     (if \<not> tx_begin io then (db, Inl T_begin)
      else if \<not> tx_prepare io ''targets'' then (db, Inl (T_prepare ''targets''))
      else if \<not> tx_prepare io ''target_sources'' then (db, Inl (T_prepare ''target_sources''))
      else case insert_targets io pr (sort_key tg_Name (in_Targets intro)) db [] of
             Inl e \<Rightarrow> (db, Inl e)
           | Inr (view, idByName) \<Rightarrow> if tx_commit io then (view, Inr idByName) else (db, Inl T_commit))"

section \<open>What the pass writes\<close>

definition source_rows :: "PathResolver \<Rightarrow> int \<times> Target \<Rightarrow> (int \<times> string) list" where
  "source_rows pr it = map (\<lambda>s. (fst it, rp_Rel (ToProjectRelative pr s))) (tg_Sources (snd it))"

definition with_targets :: "PathResolver \<Rightarrow> Target list \<Rightarrow> hbr \<Rightarrow> hbr" where
  "with_targets pr ts db =
     (let its = enum_from (next_id (targets db)) ts
      in db\<lparr>targets := targets db @ map (\<lambda>(i, t). (i, target_row_of t)) its,
            target_sources := target_sources db @ concat (map (source_rows pr) its)\<rparr>)"

lemma insert_sources_Inr:
  "insert_sources io pr i srcs db = Inr db' \<Longrightarrow>
   db' = db\<lparr>target_sources := target_sources db @ map (\<lambda>s. (i, rp_Rel (ToProjectRelative pr s))) srcs\<rparr>"
proof (induction srcs arbitrary: db)
  case (Cons s srcs)
  then have "insert_sources io pr i srcs
      (db\<lparr>target_sources := target_sources db @ [(i, rp_Rel (ToProjectRelative pr s))]\<rparr>) = Inr db'"
    by (simp add: exec_def split: if_splits)
  from Cons.IH [OF this] show ?case by simp
qed simp

lemma insert_sources_working:
  "i \<in> set (ids (targets db)) \<Longrightarrow> \<exists>db'. insert_sources working pr i srcs db = Inr db'"
  by (induction srcs arbitrary: db) (auto simp: exec_def working_def)

lemma with_targets_Cons:
  "with_targets pr (t # ts) db =
   with_targets pr ts (db\<lparr>targets := targets db @ [(next_id (targets db), target_row_of t)],
     target_sources := target_sources db @ source_rows pr (next_id (targets db), t)\<rparr>)"
  by (simp add: with_targets_def Let_def next_id_snoc)

lemma insert_targets_Inr:
  "insert_targets io pr ts db m = Inr (db', m') \<Longrightarrow>
   db' = with_targets pr ts db \<and> distinct (map tg_Name ts) \<and>
   set (map tg_Name ts) \<inter> set (map (t_name \<circ> snd) (targets db)) = {} \<and>
   m' = fold (\<lambda>(i, t). gput (tg_Name t) i) (enum_from (next_id (targets db)) ts) m"
proof (induction ts arbitrary: db m)
  case Nil
  then show ?case by (simp add: with_targets_def)
next
  case (Cons t ts)
  let ?i = "next_id (targets db)"
  let ?db1 = "db\<lparr>targets := targets db @ [(?i, target_row_of t)]\<rparr>"
  from Cons.prems have new: "tg_Name t \<notin> set (map (t_name \<circ> snd) (targets db))"
    and "\<exists>db2. insert_sources io pr ?i (tg_Sources t) ?db1 = Inr db2 \<and>
      insert_targets io pr ts db2 (gput (tg_Name t) ?i m) = Inr (db', m')"
    by (auto simp: exec_def target_row_of_def Let_def split: if_splits sum.splits)
  then obtain db2 where src: "insert_sources io pr ?i (tg_Sources t) ?db1 = Inr db2"
    and rest: "insert_targets io pr ts db2 (gput (tg_Name t) ?i m) = Inr (db', m')" by blast
  have db2: "db2 = ?db1\<lparr>target_sources := target_sources db @ source_rows pr (?i, t)\<rparr>"
    using insert_sources_Inr [OF src] by (simp add: source_rows_def)
  from Cons.IH [OF rest] new show ?case
    by (simp add: db2 with_targets_Cons next_id_snoc target_row_of_def)
qed

lemma insert_targets_working:
  "distinct (map tg_Name ts) \<Longrightarrow> set (map tg_Name ts) \<inter> set (map (t_name \<circ> snd) (targets db)) = {} \<Longrightarrow>
   \<exists>r. insert_targets working pr ts db m = Inr r"
proof (induction ts arbitrary: db m)
  case (Cons t ts)
  let ?i = "next_id (targets db)"
  let ?db1 = "db\<lparr>targets := targets db @ [(?i, target_row_of t)]\<rparr>"
  obtain db2 where src: "insert_sources working pr ?i (tg_Sources t) ?db1 = Inr db2"
    using insert_sources_working [of ?i ?db1] by auto
  have "targets db2 = targets ?db1" using insert_sources_Inr [OF src] by simp
  then have "set (map tg_Name ts) \<inter> set (map (t_name \<circ> snd) (targets db2)) = {}"
    using Cons.prems by (auto simp: target_row_of_def)
  with Cons src show ?case by (simp add: exec_def working_def target_row_of_def Let_def) 
qed simp

text \<open>The insertions are into two tables.\<close>

lemma insert_sources_keeps:
  "keeps {''targets'', ''target_sources''} P \<Longrightarrow> P db \<Longrightarrow> insert_sources io pr i srcs db = Inr db' \<Longrightarrow> P db'"
proof (induction srcs arbitrary: db)
  case (Cons s srcs)
  have "P db1" if "exec io db (Ins_target_source i x) = Some (db1, j)" for x db1 j
    using keeps_exec [OF Cons.prems(1,2) _ that] by simp
  then show ?case using Cons.prems Cons.IH by (auto split: option.splits prod.splits)
qed simp

lemma insert_targets_keeps:
  "keeps {''targets'', ''target_sources''} P \<Longrightarrow> P db \<Longrightarrow> insert_targets io pr ts db m = Inr (db', m') \<Longrightarrow> P db'"
proof (induction ts arbitrary: db m)
  case (Cons t ts)
  obtain db1 j db2 where e: "exec io db (Ins_target (target_row_of t)) = Some (db1, j)"
    and i: "insert_sources io pr j (tg_Sources t) db1 = Inr db2"
    and rest: "insert_targets io pr ts db2 (gput (tg_Name t) j m) = Inr (db', m')"
    using Cons.prems(3) by (auto split: option.splits prod.splits if_splits sum.splits)
  have "P db1" by (rule keeps_exec [OF Cons.prems(1,2) _ e]) simp
  from Cons.IH [OF Cons.prems(1) insert_sources_keeps [OF Cons.prems(1) this i] rest] show ?case .
qed simp

lemma fold_gput_fresh:
  "distinct (map f (map snd its)) \<Longrightarrow>
   map (\<lambda>x. gget (fold (\<lambda>(i, t). gput (f t) i) its m) (f (snd x))) its = map (\<lambda>x. Some (fst x)) its"
proof (induction its arbitrary: m)
  case (Cons it its)
  have keep: "f t \<notin> set (map f (map snd its)) \<Longrightarrow>
      gget (fold (\<lambda>(i, t). gput (f t) i) its m) (f t) = gget m (f t)" for t m
    by (induction its arbitrary: m) auto
  from Cons show ?case using keep [of "snd it"] by (cases it) simp
qed simp

text \<open>
  The pass either leaves the tables as they were and reports an error, or adds one row per target in
  the order of the names under consecutive ids, adds for every source of a target the row that pairs its
  id with the project-relative path, and returns the map from each name to the id its row got. With a
  database that carries out every legal statement it succeeds exactly when the names of the targets are
  pairwise different and none is in the table already: two targets of the same name make it fail.
\<close>

theorem Targets_spec:
  "(case Targets io db intro pr of
      (db', Inl e) \<Rightarrow> db' = db
    | (db', Inr idByName) \<Rightarrow>
        (let ts = sort_key tg_Name (in_Targets intro); new = enum_from (next_id (targets db)) ts
         in targets db' = targets db @ map (\<lambda>(i, t). (i, target_row_of t)) new \<and>
            target_sources db' = target_sources db @ concat (map (source_rows pr) new) \<and>
            map (\<lambda>t. gget idByName (tg_Name t)) ts = map Some (ids new) \<and>
            sorted (map tg_Name ts) \<and> distinct (map tg_Name ts))) \<and>
   ((\<exists>idByName. snd (Targets working db intro pr) = Inr idByName) \<longleftrightarrow>
     distinct (map tg_Name (in_Targets intro)) \<and>
     set (map tg_Name (in_Targets intro)) \<inter> set (map (t_name \<circ> snd) (targets db)) = {})"
proof -
  let ?ts = "sort_key tg_Name (in_Targets intro)"
  have names: "mset (map tg_Name ?ts) = mset (map tg_Name (in_Targets intro))" by simp
  have dist: "distinct (map tg_Name ?ts) \<longleftrightarrow> distinct (map tg_Name (in_Targets intro))"
    using names by (rule mset_eq_imp_distinct_iff)
  have got: "map (\<lambda>t. gget (fold (\<lambda>(i, t). gput (tg_Name t) i) its []) (tg_Name t)) (map snd its) = map Some (ids its)"
    if "distinct (map tg_Name (map snd its))" for its :: "(int \<times> Target) list"
    using fold_gput_fresh [OF that, of "[]"] by (simp add: ids_def comp_def)
  have one: "case Targets io db intro pr of (db', Inl e) \<Rightarrow> db' = db | (db', Inr m) \<Rightarrow>
      (let ts = ?ts; new = enum_from (next_id (targets db)) ts
         in targets db' = targets db @ map (\<lambda>(i, t). (i, target_row_of t)) new \<and>
            target_sources db' = target_sources db @ concat (map (source_rows pr) new) \<and>
            map (\<lambda>t. gget m (tg_Name t)) ts = map Some (ids new) \<and>
            sorted (map tg_Name ts) \<and> distinct (map tg_Name ts))"
  proof (cases "\<exists>db' m. Targets io db intro pr = (db', Inr m)")
    case True
    then obtain db' m where t: "Targets io db intro pr = (db', Inr m)" by blast
    then have "insert_targets io pr ?ts db [] = Inr (db', m)"
      by (simp add: Targets_def split: sum.splits if_splits prod.splits)
    from insert_targets_Inr [OF this] show ?thesis
      using got [of "enum_from (next_id (targets db)) ?ts"] by (simp add: t with_targets_def Let_def)
  qed (auto simp: Targets_def split: sum.splits)
  have "(\<exists>m. snd (Targets working db intro pr) = Inr m) \<longleftrightarrow> (\<exists>r. insert_targets working pr ?ts db [] = Inr r)"
    by (auto simp: Targets_def working_def split: sum.splits)
  also have "\<dots> \<longleftrightarrow> distinct (map tg_Name ?ts) \<and>
      set (map tg_Name ?ts) \<inter> set (map (t_name \<circ> snd) (targets db)) = {}"
    (is "?L \<longleftrightarrow> ?R")
  proof
    assume ?L
    then obtain db' m where "insert_targets working pr ?ts db [] = Inr (db', m)" by auto
    from insert_targets_Inr [OF this] show ?R by blast
  next
    assume ?R
    with insert_targets_working [of ?ts db pr "[]"] show ?L by blast
  qed
  finally show ?thesis using one by (simp add: dist)
qed

end
