(* ===== verification/Ingest_Symbols.thy ===== *)
theory Ingest_Symbols
  imports Usr Ingest_Paths Gcc_CI Gcc_Cgraph Gcc_Icf Gcc_Inline Gcc_OptRecord Build_Dir
begin

text \<open>
  The compiler pass of \<^verbatim>\<open>src/internal/ingest/ingest.go\<close> up to the point where it writes: reading the dumps
  of every object, giving each symbol of a translation unit its USR, merging the observations of a USR
  over all units, and dropping the symbols nothing refers to. What a dump file holds is an argument.
\<close>

section \<open>Types\<close>

record tuData =
  tu_object :: string
  tu_ci :: "CI option"
  tu_cgraph :: "Cgraph option"
  tu_inline :: "InlineDump option"
  tu_icf :: "ICFDump option"
  tu_optRec :: "OptRecordDump option"

record defRec =
  df_file :: string
  df_line :: int
  df_declFile :: string
  df_declLine :: int
  df_isWeak :: bool
  df_linkageName :: string

record symbolRec =
  sr_usr :: string
  sr_name :: string
  sr_kind :: string
  sr_linkage :: string
  sr_signature :: string
  sr_addressTaken :: bool
  sr_linkageNames :: "(string, unit) gomap"
  sr_defs :: "defRec list"

type_synonym perTUResolve = "(string, string) gomap"
type_synonym symtab = "(string, symbolRec) gomap"

section \<open>Reading the dumps\<close>

text \<open>The content of a text dump and the document of an optimization record, by path.\<close>

record dump_files =
  dump_text :: "string \<Rightarrow> string option"
  dump_json :: "string \<Rightarrow> json option option"

datatype parse_error =
  Bad_ci ci_error | Bad_cgraph cgraph_error | Bad_inline inline_error | Bad_icf icf_error | Bad_optrec opt_error

definition parse_if ::
  "('e \<Rightarrow> parse_error) \<Rightarrow> string \<Rightarrow> ('e + 'd) \<Rightarrow> ('d option \<Rightarrow> parse_error + 'r) \<Rightarrow> parse_error + 'r" where
  "parse_if err path parsed k =
     (if path = [] then k None else case parsed of Inl e \<Rightarrow> Inl (err e) | Inr d \<Rightarrow> k (Some d))"

definition parseTU :: "dump_files \<Rightarrow> ObjectArtifacts \<Rightarrow> parse_error + tuData" where
  "parseTU fs art =
     parse_if Bad_ci (oa_CI art) (ParseCIFile (dump_text fs (oa_CI art))) (\<lambda>ci.
     parse_if Bad_cgraph (oa_Cgraph art) (ParseCgraphFile (dump_text fs (oa_Cgraph art))) (\<lambda>cgraph.
     parse_if Bad_inline (oa_Inline art) (ParseInlineFile (dump_text fs (oa_Inline art))) (\<lambda>inline.
     parse_if Bad_icf (oa_ICF art) (ParseICFFile (dump_text fs (oa_ICF art))) (\<lambda>icf.
     parse_if Bad_optrec (oa_OptRecord art) (ParseOptRecordFile (dump_json fs (oa_OptRecord art))) (\<lambda>optRec.
     Inr \<lparr>tu_object = oa_Object art, tu_ci = ci, tu_cgraph = cgraph, tu_inline = inline, tu_icf = icf, tu_optRec = optRec\<rparr>)))))"

section \<open>One symbol\<close>

fun containsTok :: "string list \<Rightarrow> string \<Rightarrow> bool" where
  "containsTok [] tok = False"
| "containsTok (x # s) tok = (if x = tok then True else containsTok s tok)"

fun hasDef :: "defRec list \<Rightarrow> defRec \<Rightarrow> bool" where
  "hasDef [] d = False"
| "hasDef (existing # defs) d =
     (if df_file existing = df_file d \<and> df_line existing = df_line d \<and> df_linkageName existing = df_linkageName d
      then True else hasDef defs d)"

definition linkage_rank :: "string \<Rightarrow> int" where
  "linkage_rank l =
     gget_or 0 [(''external'', 3), (''weak'', 2), (''common'', 2), (''internal'', 1), ([], 0)] l"

definition strongerLinkage :: "string \<Rightarrow> string \<Rightarrow> string" where
  "strongerLinkage a b = (if linkage_rank a \<ge> linkage_rank b then a else b)"

definition def_of :: "Function \<Rightarrow> tuData \<Rightarrow> string \<Rightarrow> string \<Rightarrow> bool \<Rightarrow> PathResolver \<Rightarrow> defRec" where
  "def_of fn tu name tuSourcePath isWeak pr =
     (let def0 = \<lparr>df_file = [], df_line = 0, df_declFile = [], df_declLine = 0, df_isWeak = isWeak,
                   df_linkageName = fn_LinkageName fn\<rparr>;
          def1 = (case tu_ci tu of
                    None \<Rightarrow> def0
                  | Some ci \<Rightarrow> (case gget (ci_Nodes ci) name of
                                  None \<Rightarrow> def0
                                | Some n \<Rightarrow> def0\<lparr>df_file := rp_Rel (ToProjectRelative pr (cin_DeclFile n)),
                                                 df_line := cin_DeclLine n\<rparr>))
      in if df_file def1 = [] then def1\<lparr>df_file := tuSourcePath\<rparr> else def1)"

definition recordFor :: "Function \<Rightarrow> tuData \<Rightarrow> string \<Rightarrow> PathResolver \<Rightarrow> symbolRec option" where
  "recordFor fn tu tuSourcePath pr =
     (let name = (if fn_Name fn = [] then fn_LinkageName fn else fn_Name fn)
      in if name = [] then None
         else let kind = (if fn_Kind fn = [] then ''function'' else fn_Kind fn);
                  isPublic = (containsTok (fn_VisibilityFlags fn) ''public'' \<or>
                              containsTok (fn_VisibilityFlags fn) ''externally_visible'');
                  isWeak = containsTok (fn_VisibilityFlags fn) ''weak'';
                  linkage = (if isWeak then ''weak'' else if isPublic then ''external'' else ''internal'');
                  pathForUSR = (if linkage = ''internal'' then tuSourcePath else []);
                  symUSR = (if kind = ''variable'' then Variable_usr pathForUSR name else Function_usr pathForUSR name)
              in Some \<lparr>sr_usr = symUSR, sr_name = name, sr_kind = kind, sr_linkage = linkage, sr_signature = [],
                       sr_addressTaken = fn_AddressTaken fn,
                       sr_linkageNames = gput (fn_Name fn) () (gput (fn_LinkageName fn) () []),
                       sr_defs = (if fn_Analyzed fn \<and> \<not> fn_BodyRemoved fn
                                  then [def_of fn tu name tuSourcePath isWeak pr] else [])\<rparr>)"

section \<open>Merging observations\<close>

fun add_names :: "string list \<Rightarrow> (string, unit) gomap \<Rightarrow> (string, unit) gomap" where
  "add_names [] m = m"
| "add_names (n # ns) m = add_names ns (if n \<noteq> [] then gput n () m else m)"

fun add_defs :: "defRec list \<Rightarrow> defRec list \<Rightarrow> defRec list" where
  "add_defs [] defs = defs"
| "add_defs (d # ds) defs = add_defs ds (if \<not> hasDef defs d then defs @ [d] else defs)"

definition merge_record :: "symbolRec \<Rightarrow> symbolRec \<Rightarrow> symbolRec" where
  "merge_record prev obs =
     prev\<lparr>sr_name := (if sr_name prev = [] then sr_name obs else sr_name prev),
          sr_kind := (if sr_kind prev = [] then sr_kind obs else sr_kind prev),
          sr_linkage := strongerLinkage (sr_linkage prev) (sr_linkage obs),
          sr_addressTaken := (sr_addressTaken prev \<or> sr_addressTaken obs),
          sr_linkageNames := add_names (gkeys (sr_linkageNames obs)) (sr_linkageNames prev),
          sr_defs := add_defs (sr_defs obs) (sr_defs prev)\<rparr>"

definition mergeSymbol_rec :: "symtab \<Rightarrow> symbolRec \<Rightarrow> symtab" where
  "mergeSymbol_rec syms obs =
     (case gget syms (sr_usr obs) of
        None \<Rightarrow> gput (sr_usr obs) obs syms
      | Some prev \<Rightarrow> gput (sr_usr obs) (merge_record prev obs) syms)"

section \<open>One translation unit\<close>

definition tu_source :: "tuData \<Rightarrow> PathResolver \<Rightarrow> string" where
  "tu_source tu pr = (case tu_ci tu of None \<Rightarrow> [] | Some ci \<Rightarrow> rp_Rel (ToProjectRelative pr (ci_Title ci)))"

definition agg_plain ::
  "tuData \<Rightarrow> PathResolver \<Rightarrow> (string, Function) gomap \<Rightarrow> symtab \<times> perTUResolve \<Rightarrow> string \<Rightarrow> symtab \<times> perTUResolve" where
  "agg_plain tu pr fns st i =
     (case gget fns i of
        None \<Rightarrow> st
      | Some fn \<Rightarrow>
          if fn_CloneOfID fn \<noteq> [] then st
          else case recordFor fn tu (tu_source tu pr) pr of
                 None \<Rightarrow> st
               | Some rec \<Rightarrow> (mergeSymbol_rec (fst st) rec, gput i (sr_usr rec) (snd st)))"

text \<open>The clone's names and mark on the record of its parent.\<close>

definition note_clone :: "string \<Rightarrow> Function \<Rightarrow> symtab \<Rightarrow> symtab" where
  "note_clone parentUSR fn syms =
     (case gget syms parentUSR of
        None \<Rightarrow> syms
      | Some rec \<Rightarrow>
          gput parentUSR
            (rec\<lparr>sr_linkageNames := add_names [fn_Name fn, fn_LinkageName fn] (sr_linkageNames rec),
                 sr_addressTaken := (if fn_AddressTaken fn then True else sr_addressTaken rec)\<rparr>) syms)"

definition agg_clone ::
  "tuData \<Rightarrow> PathResolver \<Rightarrow> (string, Function) gomap \<Rightarrow> symtab \<times> perTUResolve \<Rightarrow> string \<Rightarrow> symtab \<times> perTUResolve" where
  "agg_clone tu pr fns st i =
     (case gget fns i of
        None \<Rightarrow> st
      | Some fn \<Rightarrow>
          if fn_CloneOfID fn = [] then st
          else let (syms, res, parentUSR) =
                     (case gget (snd st) (fn_CloneOfID fn) of
                        Some u \<Rightarrow> (fst st, snd st, u)
                      | None \<Rightarrow>
                          (case gget fns (fn_CloneOfID fn) of
                             None \<Rightarrow> (fst st, snd st, [])
                           | Some parentFn \<Rightarrow>
                               (case recordFor parentFn tu (tu_source tu pr) pr of
                                  None \<Rightarrow> (fst st, snd st, [])
                                | Some parentRec \<Rightarrow>
                                    (mergeSymbol_rec (fst st) parentRec,
                                     gput (fn_CloneOfID fn) (sr_usr parentRec) (snd st), sr_usr parentRec))))
               in if parentUSR = [] then (syms, res)
                  else (note_clone parentUSR fn syms, gput i parentUSR res))"

definition local_ids :: "Cgraph \<Rightarrow> string list" where
  "local_ids cg = sort (gkeys (cg_Symbols cg))"

definition aggregateSymbols :: "tuData \<Rightarrow> Cgraph \<Rightarrow> symtab \<Rightarrow> PathResolver \<Rightarrow> symtab \<times> perTUResolve" where
  "aggregateSymbols tu cg syms pr =
     (let is = local_ids cg; fns = cg_Symbols cg
      in foldl (agg_clone tu pr fns) (foldl (agg_plain tu pr fns) (syms, []) is) is)"

text \<open>All units in turn, with the resolution of each.\<close>

definition agg_unit :: "PathResolver \<Rightarrow> symtab \<times> (string, perTUResolve) gomap \<Rightarrow> tuData \<Rightarrow> symtab \<times> (string, perTUResolve) gomap" where
  "agg_unit pr st tu =
     (case tu_cgraph tu of
        None \<Rightarrow> (fst st, gput (tu_object tu) [] (snd st))
      | Some cg \<Rightarrow>
          (case aggregateSymbols tu cg (fst st) pr of (syms, res) \<Rightarrow> (syms, gput (tu_object tu) res (snd st))))"

definition aggregate_units :: "PathResolver \<Rightarrow> tuData list \<Rightarrow> symtab \<times> (string, perTUResolve) gomap" where
  "aggregate_units pr tus = foldl (agg_unit pr) ([], []) tus"

section \<open>References\<close>

definition name_to_usr :: "perTUResolve \<Rightarrow> (string, Function) gomap \<Rightarrow> (string, string) gomap \<Rightarrow> string \<Rightarrow> (string, string) gomap" where
  "name_to_usr res fns out localID =
     (case gget fns localID of
        None \<Rightarrow> out
      | Some fn \<Rightarrow>
          if fn_Name fn = [] then out
          else if gget out (fn_Name fn) \<noteq> None then out
          else case gget res localID of None \<Rightarrow> out | Some u \<Rightarrow> gput (fn_Name fn) u out)"

definition buildNameToUSR :: "tuData \<Rightarrow> perTUResolve \<Rightarrow> (string, string) gomap" where
  "buildNameToUSR tu res =
     (case tu_cgraph tu of
        None \<Rightarrow> []
      | Some cg \<Rightarrow> foldl (name_to_usr res (cg_Symbols cg)) [] (local_ids cg))"

text \<open>The USRs that the edges, the inline records and the groups of one unit will point at.\<close>

definition call_refs :: "perTUResolve \<Rightarrow> string \<times> Function \<Rightarrow> string list" where
  "call_refs res lf =
     (case gget res (fst lf) of
        None \<Rightarrow> []
      | Some callerUSR \<Rightarrow>
          concat (map (\<lambda>call. case gget res (call_TargetLocalID call) of None \<Rightarrow> [] | Some calleeUSR \<Rightarrow> [callerUSR, calleeUSR])
                    (fn_Called (snd lf))))"

definition record_refs :: "perTUResolve \<Rightarrow> InlineRecord \<Rightarrow> string list" where
  "record_refs res r =
     (case gget res (ir_CallerLocalID r) of
        None \<Rightarrow> []
      | Some callerUSR \<Rightarrow>
          (case gget res (ir_CalleeLocalID r) of None \<Rightarrow> [] | Some calleeUSR \<Rightarrow> [callerUSR, calleeUSR]))"

definition loser_usrs :: "(string, string) gomap \<Rightarrow> string \<Rightarrow> string list \<Rightarrow> string list" where
  "loser_usrs nameToUSR winner names =
     List.map_filter (\<lambda>l. case gget nameToUSR l of None \<Rightarrow> None | Some u \<Rightarrow> if u \<noteq> winner then Some u else None) names"

definition group_refs :: "(string, string) gomap \<Rightarrow> ICFGroup \<Rightarrow> string list" where
  "group_refs nameToUSR g =
     (case gget nameToUSR (icf_WinnerName g) of
        None \<Rightarrow> []
      | Some winner \<Rightarrow>
          (let losers = loser_usrs nameToUSR winner (icf_LoserNames g)
           in if losers \<noteq> [] then losers @ [winner] else []))"

definition unit_refs :: "(string, perTUResolve) gomap \<Rightarrow> tuData \<Rightarrow> string list" where
  "unit_refs resolves tu =
     (case gget resolves (tu_object tu) of
        None \<Rightarrow> []
      | Some res \<Rightarrow>
          (case tu_cgraph tu of None \<Rightarrow> [] | Some cg \<Rightarrow> concat (map (call_refs res) (cg_Symbols cg))) @
          (case tu_optRec tu of None \<Rightarrow> [] | Some d \<Rightarrow> concat (map (record_refs res) (od_InlineRecords d))) @
          (case tu_icf tu of None \<Rightarrow> [] | Some d \<Rightarrow> concat (map (group_refs (buildNameToUSR tu res)) (icf_Groups d))))"

definition referencedUSRs :: "tuData list \<Rightarrow> (string, perTUResolve) gomap \<Rightarrow> (string, unit) gomap" where
  "referencedUSRs tus resolves = foldl (\<lambda>out u. gput u () out) [] (concat (map (unit_refs resolves) tus))"

definition pruneUnreferenced :: "symtab \<Rightarrow> (string, unit) gomap \<Rightarrow> symtab" where
  "pruneUnreferenced syms referenced =
     foldl (\<lambda>m (u, rec).
       if sr_defs rec \<noteq> [] \<or> sr_addressTaken rec \<or> sr_linkage rec \<noteq> ''internal'' then m
       else if gget referenced u \<noteq> None then m
       else gdel u m) syms syms"

section \<open>What a merge keeps\<close>

definition def_key :: "defRec \<Rightarrow> string \<times> int \<times> string" where
  "def_key d = (df_file d, df_line d, df_linkageName d)"

lemma containsTok_iff: "containsTok s tok \<longleftrightarrow> tok \<in> set s"
  by (induction s) auto

lemma hasDef_iff: "hasDef defs d \<longleftrightarrow> def_key d \<in> def_key ` set defs"
  by (induction defs) (auto simp: def_key_def)

lemma add_defs_keys: "def_key ` set (add_defs ds defs) = def_key ` set ds \<union> def_key ` set defs"
  by (induction ds arbitrary: defs) (auto simp: hasDef_iff)

lemma add_defs_distinct: "distinct (map def_key defs) \<Longrightarrow> distinct (map def_key (add_defs ds defs))"
  by (induction ds arbitrary: defs) (auto simp: hasDef_iff)

lemma add_defs_Nil_iff: "add_defs ds defs = [] \<longleftrightarrow> ds = [] \<and> defs = []"
  using add_defs_keys [of ds defs] by auto

lemma add_names_keys: "set (gkeys (add_names ns m)) = (set ns - {[]}) \<union> set (gkeys m)"
  by (induction ns arbitrary: m) (auto simp: gkeys_gput)

lemma add_names_ok: "gmap_ok m \<Longrightarrow> gmap_ok (add_names ns m)"
  by (induction ns arbitrary: m) auto

lemma strongerLinkage_rank:
  "linkage_rank (strongerLinkage a b) = max (linkage_rank a) (linkage_rank b)"
  "strongerLinkage a b = a \<or> strongerLinkage a b = b"
  by (auto simp: strongerLinkage_def)

section \<open>Observations\<close>

text \<open>
  What a unit contributes to the table: the record of a symbol, or the names and mark of a clone on the
  record of its parent.
\<close>

datatype observation = Seen symbolRec | Cloned string Function

fun observe :: "symtab \<Rightarrow> observation \<Rightarrow> symtab" where
  "observe syms (Seen r) = mergeSymbol_rec syms r"
| "observe syms (Cloned u fn) = note_clone u fn syms"

definition seen :: "observation list \<Rightarrow> string \<Rightarrow> symbolRec set" where
  "seen obs u = {r. Seen r \<in> set obs \<and> sr_usr r = u}"

definition cloned :: "observation list \<Rightarrow> string \<Rightarrow> Function set" where
  "cloned obs u = {fn. Cloned u fn \<in> set obs}"

text \<open>The record of a USR, as a summary of all that was observed of it.\<close>

definition summarises :: "observation list \<Rightarrow> string \<Rightarrow> symbolRec \<Rightarrow> bool" where
  "summarises obs u r \<longleftrightarrow>
     sr_usr r = u \<and>
     (sr_addressTaken r \<longleftrightarrow> (\<exists>s \<in> seen obs u. sr_addressTaken s) \<or> (\<exists>fn \<in> cloned obs u. fn_AddressTaken fn)) \<and>
     sr_linkage r \<in> sr_linkage ` seen obs u \<and> (\<forall>s \<in> seen obs u. linkage_rank (sr_linkage s) \<le> linkage_rank (sr_linkage r)) \<and>
     set (gkeys (sr_linkageNames r)) - {[]} =
       (\<Union>s \<in> seen obs u. set (gkeys (sr_linkageNames s))) \<union> (\<Union>fn \<in> cloned obs u. {fn_Name fn, fn_LinkageName fn}) - {[]} \<and>
     def_key ` set (sr_defs r) = (\<Union>s \<in> seen obs u. def_key ` set (sr_defs s)) \<and> distinct (map def_key (sr_defs r))"

lemma seen_snoc:
  "seen (obs @ [Seen r]) u = (if sr_usr r = u then insert r (seen obs u) else seen obs u)"
  "seen (obs @ [Cloned v fn]) u = seen obs u"
  "cloned (obs @ [Seen r]) u = cloned obs u"
  "cloned (obs @ [Cloned v fn]) u = (if v = u then insert fn (cloned obs u) else cloned obs u)"
  "seen [] u = {}" "cloned [] u = {}"
  by (auto simp: seen_def cloned_def)

lemma summarises_other:
  "sr_usr r' \<noteq> u \<Longrightarrow> summarises (obs @ [Seen r']) u r = summarises obs u r"
  "v \<noteq> u \<Longrightarrow> summarises (obs @ [Cloned v fn]) u r = summarises obs u r"
  by (simp_all add: summarises_def seen_snoc)

lemma summarises_first:
  "seen obs (sr_usr r) = {} \<Longrightarrow> cloned obs (sr_usr r) = {} \<Longrightarrow> distinct (map def_key (sr_defs r)) \<Longrightarrow>
   summarises (obs @ [Seen r]) (sr_usr r) r"
  by (simp add: summarises_def seen_snoc)

lemma summarises_merge:
  assumes "summarises obs (sr_usr s) r"
  shows "summarises (obs @ [Seen s]) (sr_usr s) (merge_record r s)"
proof -
  let ?S = "seen obs (sr_usr s)"
  have r: "sr_usr r = sr_usr s" "sr_linkage r \<in> sr_linkage ` ?S"
    "\<forall>t \<in> ?S. linkage_rank (sr_linkage t) \<le> linkage_rank (sr_linkage r)"
    and n: "set (gkeys (sr_linkageNames r)) - {[]} =
       (\<Union>s \<in> ?S. set (gkeys (sr_linkageNames s))) \<union> (\<Union>fn \<in> cloned obs (sr_usr s). {fn_Name fn, fn_LinkageName fn}) - {[]}"
    and d: "def_key ` set (sr_defs r) = (\<Union>s \<in> ?S. def_key ` set (sr_defs s))" "distinct (map def_key (sr_defs r))"
    and a: "sr_addressTaken r \<longleftrightarrow> (\<exists>s \<in> ?S. sr_addressTaken s) \<or> (\<exists>fn \<in> cloned obs (sr_usr s). fn_AddressTaken fn)"
    using assms by (simp_all add: summarises_def)
  have "sr_linkage (merge_record r s) \<in> sr_linkage ` insert s ?S"
    using r(2) strongerLinkage_rank(2) [of "sr_linkage r" "sr_linkage s"] by (auto simp: merge_record_def)
  moreover have "\<forall>t \<in> insert s ?S. linkage_rank (sr_linkage t) \<le> linkage_rank (sr_linkage (merge_record r s))"
    using r(3) by (auto simp: merge_record_def strongerLinkage_rank max_def)
  moreover have "set (gkeys (sr_linkageNames (merge_record r s))) - {[]} =
      set (gkeys (sr_linkageNames s)) \<union> (set (gkeys (sr_linkageNames r)) - {[]}) - {[]}"
    by (auto simp: merge_record_def add_names_keys)
  moreover have "def_key ` set (sr_defs (merge_record r s)) = def_key ` set (sr_defs s) \<union> def_key ` set (sr_defs r)"
    "distinct (map def_key (sr_defs (merge_record r s)))"
    using d(2) by (simp_all add: merge_record_def add_defs_keys add_defs_distinct)
  ultimately show ?thesis
    unfolding summarises_def seen_snoc n d(1) using r(1) a by (auto simp: merge_record_def)
qed

lemma summarises_clone:
  assumes "summarises obs u r"
  shows "summarises (obs @ [Cloned u fn]) u
    (r\<lparr>sr_linkageNames := add_names [fn_Name fn, fn_LinkageName fn] (sr_linkageNames r),
       sr_addressTaken := (if fn_AddressTaken fn then True else sr_addressTaken r)\<rparr>)"
proof -
  have "set (gkeys (add_names [fn_Name fn, fn_LinkageName fn] (sr_linkageNames r))) - {[]} =
      {fn_Name fn, fn_LinkageName fn} \<union> (set (gkeys (sr_linkageNames r)) - {[]}) - {[]}"
    unfolding add_names_keys by auto
  then show ?thesis using assms by (auto simp: summarises_def seen_snoc)
qed

text \<open>A clone is only noted on a record that is there.\<close>

definition in_order :: "observation list \<Rightarrow> bool" where
  "in_order obs \<longleftrightarrow> (\<forall>obs' u fn. prefix (obs' @ [Cloned u fn]) obs \<longrightarrow> seen obs' u \<noteq> {})"

lemma in_order_snoc:
  "in_order (obs @ [x]) \<longleftrightarrow> in_order obs \<and> (case x of Seen r \<Rightarrow> True | Cloned u fn \<Rightarrow> seen obs u \<noteq> {})"
  by (cases x) (auto simp: in_order_def)

lemma in_order_append:
  "in_order obs \<Longrightarrow> (\<And>xs u fn. prefix (xs @ [Cloned u fn]) ys \<Longrightarrow> seen (obs @ xs) u \<noteq> {}) \<Longrightarrow> in_order (obs @ ys)"
proof (induction ys rule: rev_induct)
  case (snoc y ys)
  have "in_order (obs @ ys)" using snoc by (intro snoc.IH) auto
  moreover have "seen (obs @ ys) u \<noteq> {}" if "y = Cloned u fn" for u fn
    using snoc.prems(2) [of ys u fn] that by simp
  ultimately show ?case by (simp add: in_order_snoc flip: append_assoc split: observation.split)
qed simp

definition table_ok :: "observation list \<Rightarrow> symtab \<Rightarrow> bool" where
  "table_ok obs syms \<longleftrightarrow>
     (\<forall>u. case gget syms u of None \<Rightarrow> seen obs u = {} | Some r \<Rightarrow> seen obs u \<noteq> {} \<and> summarises obs u r)"

lemma table_ok_Some: "table_ok obs syms \<Longrightarrow> gget syms u = Some r \<Longrightarrow> seen obs u \<noteq> {} \<and> summarises obs u r"
  unfolding table_ok_def by (drule spec [of _ u]) simp

lemma table_ok_None: "table_ok obs syms \<Longrightarrow> gget syms u = None \<longleftrightarrow> seen obs u = {}"
  unfolding table_ok_def by (drule spec [of _ u]) (simp split: option.splits)

lemma in_order_cloned: "in_order obs \<Longrightarrow> seen obs u = {} \<Longrightarrow> cloned obs u = {}"
proof (induction obs rule: rev_induct)
  case (snoc x obs)
  then show ?case by (cases x) (auto simp: in_order_snoc seen_snoc split: if_splits)
qed (simp add: seen_snoc)

lemma table_ok_observe:
  assumes ok: "table_ok obs syms" and ord: "in_order (obs @ [x])"
    and d: "\<And>r. x = Seen r \<Longrightarrow> distinct (map def_key (sr_defs r))"
  shows "table_ok (obs @ [x]) (observe syms x)"
proof (cases x)
  case (Seen r)
  have first: "summarises (obs @ [Seen r]) (sr_usr r) r" if "gget syms (sr_usr r) = None"
    using that ok ord d [OF Seen] Seen
    by (intro summarises_first in_order_cloned) (simp_all add: table_ok_None in_order_snoc)
  show ?thesis unfolding table_ok_def
  proof
    fix u
    show "case gget (observe syms x) u of None \<Rightarrow> seen (obs @ [x]) u = {}
      | Some r \<Rightarrow> seen (obs @ [x]) u \<noteq> {} \<and> summarises (obs @ [x]) u r"
    proof (cases "u = sr_usr r")
      case True
      then show ?thesis using Seen first summarises_merge [of obs r] table_ok_Some [OF ok]
        by (auto simp: mergeSymbol_rec_def seen_snoc split: option.split)
    next
      case False
      then have "gget (observe syms x) u = gget syms u"
        using Seen by (auto simp: mergeSymbol_rec_def split: option.split)
      with False Seen ok show ?thesis
        by (auto simp: seen_snoc summarises_other table_ok_def [of obs] dest!: spec [of _ u] split: option.splits)
    qed
  qed
next
  case (Cloned v fn)
  with ord have "seen obs v \<noteq> {}" by (simp add: in_order_snoc)
  then obtain r where r: "gget syms v = Some r" using table_ok_None [OF ok, of v] by auto
  show ?thesis unfolding table_ok_def
  proof
    fix u
    show "case gget (observe syms x) u of None \<Rightarrow> seen (obs @ [x]) u = {}
      | Some r \<Rightarrow> seen (obs @ [x]) u \<noteq> {} \<and> summarises (obs @ [x]) u r"
    proof (cases "u = v")
      case True
      then show ?thesis using Cloned r summarises_clone [of obs v r fn] table_ok_Some [OF ok r]
        by (simp add: note_clone_def seen_snoc)
    next
      case False
      then have "gget (observe syms x) u = gget syms u" using Cloned by (simp add: note_clone_def r)
      with False Cloned ok show ?thesis
        by (auto simp: seen_snoc summarises_other table_ok_def [of obs] dest!: spec [of _ u] split: option.splits)
    qed
  qed
qed

lemma table_ok_fold:
  "in_order obs \<Longrightarrow> (\<And>r. Seen r \<in> set obs \<Longrightarrow> distinct (map def_key (sr_defs r))) \<Longrightarrow> table_ok obs (foldl observe [] obs)"
proof (induction obs rule: rev_induct)
  case Nil
  then show ?case by (simp add: table_ok_def seen_snoc)
next
  case (snoc x obs)
  have "table_ok obs (foldl observe [] obs)" using snoc by (auto simp: in_order_snoc)
  with snoc.prems show ?case by (simp add: table_ok_observe)
qed

section \<open>Aggregating a unit\<close>

definition rec_at :: "PathResolver \<Rightarrow> tuData \<Rightarrow> (string, Function) gomap \<Rightarrow> string \<Rightarrow> symbolRec option" where
  "rec_at pr tu fns i =
     (case gget fns i of
        None \<Rightarrow> None
      | Some fn \<Rightarrow> if fn_CloneOfID fn \<noteq> [] then None else recordFor fn tu (tu_source tu pr) pr)"

definition clone_at :: "PathResolver \<Rightarrow> tuData \<Rightarrow> (string, Function) gomap \<Rightarrow> string \<Rightarrow> (string \<times> Function) option" where
  "clone_at pr tu fns i =
     (case gget fns i of
        None \<Rightarrow> None
      | Some fn \<Rightarrow>
          if fn_CloneOfID fn = [] then None
          else map_option (\<lambda>r. (sr_usr r, fn)) (rec_at pr tu fns (fn_CloneOfID fn)))"

text \<open>No clone is a clone of a clone.\<close>

definition no_chains :: "(string, Function) gomap \<Rightarrow> bool" where
  "no_chains fns \<longleftrightarrow> list_all (\<lambda>(i, fn). fn_CloneOfID fn = [] \<or>
     (case gget fns (fn_CloneOfID fn) of None \<Rightarrow> True | Some pf \<Rightarrow> fn_CloneOfID pf = [])) fns"

definition unit_obs :: "PathResolver \<Rightarrow> tuData \<Rightarrow> observation list" where
  "unit_obs pr tu =
     (case tu_cgraph tu of
        None \<Rightarrow> []
      | Some cg \<Rightarrow>
          map Seen (List.map_filter (rec_at pr tu (cg_Symbols cg)) (local_ids cg)) @
          map (\<lambda>(u, fn). Cloned u fn) (List.map_filter (clone_at pr tu (cg_Symbols cg)) (local_ids cg)))"

text \<open>The USR of a local id: its own, or that of the symbol it is a clone of.\<close>

definition resolved :: "PathResolver \<Rightarrow> tuData \<Rightarrow> (string, Function) gomap \<Rightarrow> string \<Rightarrow> string option" where
  "resolved pr tu fns i =
     (case rec_at pr tu fns i of Some r \<Rightarrow> Some (sr_usr r) | None \<Rightarrow> map_option fst (clone_at pr tu fns i))"

lemma usr_not_Nil [simp]: "Function_usr p n \<noteq> []" "Variable_usr p n \<noteq> []"
  by (simp_all add: Function_usr_def Variable_usr_def)

lemma recordFor_usr: "recordFor fn tu src pr = Some r \<Longrightarrow> sr_usr r \<noteq> []"
  by (auto simp: recordFor_def Let_def split: if_splits)

lemma recordFor_defs: "recordFor fn tu src pr = Some r \<Longrightarrow> distinct (map def_key (sr_defs r))"
  by (auto simp: recordFor_def Let_def split: if_splits)

lemma rec_at_usr: "rec_at pr tu fns i = Some r \<Longrightarrow> sr_usr r \<noteq> []"
  by (auto simp: rec_at_def recordFor_usr split: option.splits if_splits)

lemma rec_at_defs: "rec_at pr tu fns i = Some r \<Longrightarrow> distinct (map def_key (sr_defs r))"
  by (auto simp: rec_at_def recordFor_defs split: option.splits if_splits)

lemma agg_plain_eq:
  "agg_plain tu pr fns (syms, res) i =
     (case rec_at pr tu fns i of None \<Rightarrow> (syms, res) | Some r \<Rightarrow> (observe syms (Seen r), gput i (sr_usr r) res))"
  by (simp add: agg_plain_def rec_at_def split: option.split)

lemma plain_phase:
  "foldl (agg_plain tu pr fns) (syms, res) is =
     (foldl observe syms (map Seen (List.map_filter (rec_at pr tu fns) is)),
      foldl (\<lambda>m i. case rec_at pr tu fns i of None \<Rightarrow> m | Some r \<Rightarrow> gput i (sr_usr r) m) res is)"
  by (induction "is" arbitrary: syms res) (auto simp: agg_plain_eq List.map_filter_simps split: option.split)

lemma put_phase_get:
  "gget (foldl (\<lambda>m i. case f i of None \<Rightarrow> m | Some r \<Rightarrow> gput i (g r) m) res is) j =
     (if j \<in> set is \<and> f j \<noteq> None then map_option g (f j) else gget res j)"
  by (induction "is" arbitrary: res) (auto split: option.split)

text \<open>Under the resolution of the plain symbols a clone is attributed to its parent.\<close>

definition plain_resolved :: "PathResolver \<Rightarrow> tuData \<Rightarrow> (string, Function) gomap \<Rightarrow> perTUResolve \<Rightarrow> bool" where
  "plain_resolved pr tu fns res \<longleftrightarrow>
     (\<forall>p. (case gget fns p of None \<Rightarrow> True | Some pf \<Rightarrow> fn_CloneOfID pf = []) \<longrightarrow>
        gget res p = map_option sr_usr (rec_at pr tu fns p))"

lemma agg_clone_eq:
  assumes "no_chains fns" "plain_resolved pr tu fns res"
  shows "agg_clone tu pr fns (syms, res) i =
     (case clone_at pr tu fns i of None \<Rightarrow> (syms, res) | Some (u, fn) \<Rightarrow> (observe syms (Cloned u fn), gput i u res))"
proof (cases "gget fns i")
  case (Some fn)
  show ?thesis
  proof (cases "fn_CloneOfID fn = []")
    case False
    let ?p = "fn_CloneOfID fn"
    from assms(1) Some False have parent: "case gget fns ?p of None \<Rightarrow> True | Some pf \<Rightarrow> fn_CloneOfID pf = []"
      using gget_in_set [OF Some] by (auto simp: no_chains_def list_all_iff)
    with assms(2) have "gget res ?p = map_option sr_usr (rec_at pr tu fns ?p)" by (simp add: plain_resolved_def)
    with Some False parent show ?thesis
      using rec_at_usr [of pr tu fns ?p]
      by (auto simp: agg_clone_def clone_at_def rec_at_def [of pr tu fns ?p] split: option.splits)
  qed (simp add: agg_clone_def clone_at_def Some)
qed (simp add: agg_clone_def clone_at_def)

lemma clone_keeps_plain:
  "plain_resolved pr tu fns res \<Longrightarrow> clone_at pr tu fns i = Some (u, fn) \<Longrightarrow> plain_resolved pr tu fns (gput i u res)"
  by (auto simp: plain_resolved_def clone_at_def split: option.splits if_splits)

lemma clone_phase:
  assumes "no_chains fns" "plain_resolved pr tu fns res"
  shows "foldl (agg_clone tu pr fns) (syms, res) is =
     (foldl observe syms (map (\<lambda>(u, fn). Cloned u fn) (List.map_filter (clone_at pr tu fns) is)),
      foldl (\<lambda>m i. case clone_at pr tu fns i of None \<Rightarrow> m | Some uf \<Rightarrow> gput i (fst uf) m) res is)"
  using assms(2)
proof (induction "is" arbitrary: syms res)
  case (Cons i "is")
  from Cons.prems Cons.IH clone_keeps_plain [OF Cons.prems] show ?case
    by (auto simp: agg_clone_eq [OF assms(1)] List.map_filter_simps split: option.split)
qed (simp add: List.map_filter_simps)

lemma set_local_ids: "set (local_ids cg) = {i. gget (cg_Symbols cg) i \<noteq> None}"
  by (simp add: local_ids_def set_gkeys)

lemma aggregateSymbols_eq:
  assumes "no_chains (cg_Symbols cg)" "tu_cgraph tu = Some cg"
  shows "\<exists>res. aggregateSymbols tu cg syms pr = (foldl observe syms (unit_obs pr tu), res) \<and>
    (\<forall>i. gget res i = resolved pr tu (cg_Symbols cg) i)"
proof -
  let ?fns = "cg_Symbols cg" and ?is = "local_ids cg"
  let ?res = "foldl (\<lambda>m i. case rec_at pr tu ?fns i of None \<Rightarrow> m | Some r \<Rightarrow> gput i (sr_usr r) m) [] ?is"
  have known: "rec_at pr tu ?fns i = None" "clone_at pr tu ?fns i = None" if "i \<notin> set ?is" for i
    using that by (simp_all add: set_local_ids rec_at_def clone_at_def)
  have res: "gget ?res i = map_option sr_usr (rec_at pr tu ?fns i)" for i
    using known [of i] by (cases "i \<in> set ?is") (auto simp: put_phase_get)
  have alone: "rec_at pr tu ?fns i = None" if "clone_at pr tu ?fns i \<noteq> None" for i
    using that by (auto simp: rec_at_def clone_at_def split: option.splits if_splits)
  let ?res' = "foldl (\<lambda>m i. case clone_at pr tu ?fns i of None \<Rightarrow> m | Some uf \<Rightarrow> gput i (fst uf) m) ?res ?is"
  have "gget ?res' i = resolved pr tu ?fns i" for i
    using known [of i] alone [of i]
    by (cases "i \<in> set ?is"; cases "clone_at pr tu ?fns i") (auto simp: put_phase_get res resolved_def split: option.split)
  moreover have "plain_resolved pr tu ?fns ?res" by (simp add: plain_resolved_def res)
  ultimately show ?thesis
    using clone_phase [OF assms(1), of pr tu ?res]
    by (simp add: aggregateSymbols_def Let_def plain_phase unit_obs_def assms(2))
qed

section \<open>Aggregating all units\<close>

definition chain_free :: "tuData list \<Rightarrow> bool" where
  "chain_free tus \<longleftrightarrow> list_all (\<lambda>tu. case tu_cgraph tu of None \<Rightarrow> True | Some cg \<Rightarrow> no_chains (cg_Symbols cg)) tus"

definition unit_resolved :: "PathResolver \<Rightarrow> tuData \<Rightarrow> string \<Rightarrow> string option" where
  "unit_resolved pr tu i = (case tu_cgraph tu of None \<Rightarrow> None | Some cg \<Rightarrow> resolved pr tu (cg_Symbols cg) i)"

definition all_obs :: "PathResolver \<Rightarrow> tuData list \<Rightarrow> observation list" where
  "all_obs pr tus = concat (map (unit_obs pr) tus)"

lemma seen_append: "seen (xs @ ys) u = seen xs u \<union> seen ys u"
  by (auto simp: seen_def)

lemma in_map_filter: "y \<in> set (List.map_filter f xs) \<longleftrightarrow> (\<exists>x \<in> set xs. f x = Some y)"
  by (force simp: List.map_filter_def)

lemma unit_obs_in_order:
  assumes "prefix (xs @ [Cloned u fn]) (unit_obs pr tu)"
  shows "seen xs u \<noteq> {}"
proof (cases "tu_cgraph tu")
  case (Some cg)
  let ?fns = "cg_Symbols cg"
  let ?A = "List.map_filter (rec_at pr tu ?fns) (local_ids cg)"
  let ?B = "map (\<lambda>(u, fn). Cloned u fn) (List.map_filter (clone_at pr tu ?fns) (local_ids cg))"
  have obs: "unit_obs pr tu = map Seen ?A @ ?B" by (simp add: unit_obs_def Some)
  have "\<not> prefix (xs @ [Cloned u fn]) (map Seen ?A)"
    using set_mono_prefix [of "xs @ [Cloned u fn]" "map Seen ?A"] by auto
  with assms obs obtain ys where ys: "xs @ [Cloned u fn] = map Seen ?A @ ys" "prefix ys ?B"
    by (auto simp: prefix_append)
  then have "ys \<noteq> []" using \<open>\<not> prefix _ _\<close> by auto
  with ys(1) have "Cloned u fn \<in> set ys" by (metis append_butlast_last_id last_appendR last_snoc last_in_set)
  then have "Cloned u fn \<in> set ?B" using ys(2) set_mono_prefix by blast
  then obtain i where i: "clone_at pr tu ?fns i = Some (u, fn)" by (auto simp: in_map_filter)
  then obtain p r where r: "rec_at pr tu ?fns p = Some r" "sr_usr r = u"
    by (auto simp: clone_at_def split: option.splits if_splits)
  then have "p \<in> set (local_ids cg)" by (auto simp: set_local_ids rec_at_def split: option.splits)
  with r have "r \<in> set ?A" by (auto simp: in_map_filter)
  moreover have "prefix (map Seen ?A) xs" using ys(1) \<open>ys \<noteq> []\<close>
    by (metis append.assoc append_butlast_last_id butlast_append butlast_snoc prefixI)
  ultimately have "Seen r \<in> set xs" using set_mono_prefix by fastforce
  with r(2) show ?thesis by (auto simp: seen_def)
qed (use assms in \<open>simp add: unit_obs_def\<close>)

lemma all_obs_in_order: "in_order (all_obs pr tus)"
proof (induction tus rule: rev_induct)
  case (snoc tu tus)
  then show ?case
    using unit_obs_in_order [of _ _ _ pr tu] by (auto simp: all_obs_def seen_append intro!: in_order_append)
qed (simp add: all_obs_def in_order_def)

lemma all_obs_defs: "Seen r \<in> set (all_obs pr tus) \<Longrightarrow> distinct (map def_key (sr_defs r))"
  by (auto simp: all_obs_def unit_obs_def in_map_filter split: option.splits dest: rec_at_defs)

lemma aggregate_units_eq:
  "chain_free tus \<Longrightarrow> distinct (map tu_object tus) \<Longrightarrow>
   fst (aggregate_units pr tus) = foldl observe [] (all_obs pr tus) \<and>
   (\<forall>tu \<in> set tus. \<exists>res. gget (snd (aggregate_units pr tus)) (tu_object tu) = Some res \<and>
      (\<forall>i. gget res i = unit_resolved pr tu i))"
proof (induction tus rule: rev_induct)
  case (snoc tu tus)
  let ?st = "aggregate_units pr tus"
  from snoc have IH: "fst ?st = foldl observe [] (all_obs pr tus)"
    "\<forall>tu \<in> set tus. \<exists>res. gget (snd ?st) (tu_object tu) = Some res \<and> (\<forall>i. gget res i = unit_resolved pr tu i)"
    by (auto simp: chain_free_def)
  have new: "tu_object tu \<notin> tu_object ` set tus" using snoc.prems(2) by auto
  have "\<exists>res. agg_unit pr ?st tu = (foldl observe (fst ?st) (unit_obs pr tu), gput (tu_object tu) res (snd ?st)) \<and>
      (\<forall>i. gget res i = unit_resolved pr tu i)"
  proof (cases "tu_cgraph tu")
    case (Some cg)
    with snoc.prems have "no_chains (cg_Symbols cg)" by (simp add: chain_free_def)
    from aggregateSymbols_eq [OF this Some, of "fst ?st" pr] Some show ?thesis
      by (auto simp: agg_unit_def unit_resolved_def)
  next
    case None
    then show ?thesis by (intro exI [of _ "[]"]) (simp add: agg_unit_def unit_obs_def unit_resolved_def)
  qed
  then obtain res where "agg_unit pr ?st tu = (foldl observe (fst ?st) (unit_obs pr tu), gput (tu_object tu) res (snd ?st))"
    "\<forall>i. gget res i = unit_resolved pr tu i" by blast
  moreover have "aggregate_units pr (tus @ [tu]) = agg_unit pr ?st tu" by (simp add: aggregate_units_def)
  moreover have "tu_object tua \<noteq> tu_object tu" if "tua \<in> set tus" for tua using new imageI [OF that, of tu_object] by metis
  ultimately show ?case using IH by (simp add: all_obs_def)
qed (simp add: aggregate_units_def all_obs_def)

lemma aggregate_table_ok:
  "chain_free tus \<Longrightarrow> distinct (map tu_object tus) \<Longrightarrow> table_ok (all_obs pr tus) (fst (aggregate_units pr tus))"
  using aggregate_units_eq [of tus pr] table_ok_fold [OF all_obs_in_order, of pr tus] all_obs_defs by fastforce

section \<open>The table at every moment\<close>

text \<open>Whatever the dumps hold, records stand under their own USR and a resolved local id has a record.\<close>

definition symtab_ok :: "symtab \<Rightarrow> bool" where
  "symtab_ok syms \<longleftrightarrow> gmap_ok syms \<and> (\<forall>u r. gget syms u = Some r \<longrightarrow> sr_usr r = u \<and> gmap_ok (sr_linkageNames r))"

definition covers :: "symtab \<Rightarrow> perTUResolve \<Rightarrow> bool" where
  "covers syms res \<longleftrightarrow> (\<forall>i u. gget res i = Some u \<longrightarrow> gget syms u \<noteq> None)"

lemma recordFor_names: "recordFor fn tu src pr = Some r \<Longrightarrow> gmap_ok (sr_linkageNames r)"
  by (auto simp: recordFor_def Let_def split: if_splits)

lemma merge_record_simps [simp]:
  "sr_usr (merge_record prev obs) = sr_usr prev"
  "sr_linkageNames (merge_record prev obs) = add_names (gkeys (sr_linkageNames obs)) (sr_linkageNames prev)"
  by (simp_all add: merge_record_def)

lemma mergeSymbol_ok: "symtab_ok syms \<Longrightarrow> gmap_ok (sr_linkageNames r) \<Longrightarrow> symtab_ok (mergeSymbol_rec syms r)"
  by (auto simp: symtab_ok_def mergeSymbol_rec_def add_names_ok split: option.split)

lemma note_clone_ok: "symtab_ok syms \<Longrightarrow> symtab_ok (note_clone u fn syms)"
  unfolding symtab_ok_def note_clone_def
  by (auto simp: add_names_ok simp del: add_names.simps split: option.split)

lemma mergeSymbol_keys: "gget (mergeSymbol_rec syms r) u \<noteq> None \<longleftrightarrow> gget syms u \<noteq> None \<or> u = sr_usr r"
  by (auto simp: mergeSymbol_rec_def split: option.split)

lemma note_clone_keys: "gget (note_clone v fn syms) u \<noteq> None \<longleftrightarrow> gget syms u \<noteq> None"
  by (auto simp: note_clone_def split: option.split)

lemma covers_put: "covers syms res \<Longrightarrow> gget syms u \<noteq> None \<Longrightarrow> covers syms (gput i u res)"
  by (simp add: covers_def)

lemma covers_mono: "covers syms res \<Longrightarrow> (\<And>u. gget syms u \<noteq> None \<Longrightarrow> gget syms' u \<noteq> None) \<Longrightarrow> covers syms' res"
  unfolding covers_def by blast

definition agg_ok :: "symtab \<Rightarrow> symtab \<times> perTUResolve \<Rightarrow> bool" where
  "agg_ok base st \<longleftrightarrow> symtab_ok (fst st) \<and> covers (fst st) (snd st) \<and>
     (\<forall>u. gget base u \<noteq> None \<longrightarrow> gget (fst st) u \<noteq> None)"

lemma agg_ok_merge:
  assumes "agg_ok base (syms, res)" "recordFor fn tu src pr = Some r"
  shows "agg_ok base (mergeSymbol_rec syms r, gput i (sr_usr r) res)"
proof -
  have "covers syms res" using assms(1) by (simp add: agg_ok_def)
  then have "covers (mergeSymbol_rec syms r) res"
    by (rule covers_mono) (simp only: mergeSymbol_keys simp_thms)
  moreover have "gget (mergeSymbol_rec syms r) (sr_usr r) \<noteq> None" by (simp only: mergeSymbol_keys simp_thms)
  ultimately show ?thesis
    using assms mergeSymbol_ok [of syms r] recordFor_names [OF assms(2)] covers_put
    by (simp only: agg_ok_def fst_conv snd_conv mergeSymbol_keys) blast
qed

lemma agg_ok_clone:
  assumes "agg_ok base (syms, res)" "gget syms u \<noteq> None"
  shows "agg_ok base (note_clone u fn syms, gput i u res)"
proof -
  have "covers syms res" using assms(1) by (simp add: agg_ok_def)
  then have "covers (note_clone u fn syms) res"
    by (rule covers_mono) (simp only: note_clone_keys not_False_eq_True)
  moreover have "gget (note_clone u fn syms) u \<noteq> None" using assms(2) by (simp only: note_clone_keys simp_thms)
  ultimately show ?thesis
    using assms note_clone_ok [of syms u fn] covers_put
    by (simp only: agg_ok_def fst_conv snd_conv note_clone_keys) blast
qed

lemma agg_plain_ok: "agg_ok base st \<Longrightarrow> agg_ok base (agg_plain tu pr fns st i)"
  by (cases st) (auto simp: agg_plain_def agg_ok_merge split: option.split)

lemma agg_clone_ok:
  assumes "agg_ok base st"
  shows "agg_ok base (agg_clone tu pr fns st i)"
proof (cases "gget fns i")
  case (Some fn)
  let ?p = "fn_CloneOfID fn"
  obtain syms res where st: "st = (syms, res)" by fastforce
  have direct: "agg_ok base (note_clone u fn syms, gput i u res)" if "gget res ?p = Some u" for u
    using agg_ok_clone [of base syms res u fn i] assms that by (simp add: st agg_ok_def covers_def)
  have made: "agg_ok base (note_clone (sr_usr r) fn (mergeSymbol_rec syms r), gput i (sr_usr r) (gput ?p (sr_usr r) res))"
    if "recordFor pf tu (tu_source tu pr) pr = Some r" for pf r
    using agg_ok_merge [OF assms [unfolded st] that, of ?p] mergeSymbol_keys [of syms r "sr_usr r"]
    by (intro agg_ok_clone) simp_all
  show ?thesis
    using assms direct made recordFor_usr by (auto simp: agg_clone_def Some st split: option.split)
qed (simp add: agg_clone_def assms)

lemma foldl_ok: "(\<And>st i. P st \<Longrightarrow> P (f st i)) \<Longrightarrow> P st \<Longrightarrow> P (foldl f st is)"
  by (induction "is" arbitrary: st) auto

lemma aggregateSymbols_ok: "symtab_ok syms \<Longrightarrow> agg_ok syms (aggregateSymbols tu cg syms pr)"
  unfolding aggregateSymbols_def Let_def
  by (intro foldl_ok [where P = "agg_ok syms"] agg_clone_ok agg_plain_ok) (simp_all add: agg_ok_def covers_def)

lemma aggregate_units_ok:
  "symtab_ok (fst (aggregate_units pr tus)) \<and>
   (\<forall>k res. gget (snd (aggregate_units pr tus)) k = Some res \<longrightarrow> covers (fst (aggregate_units pr tus)) res)"
proof (induction tus rule: rev_induct)
  case (snoc tu tus)
  let ?st = "aggregate_units pr tus"
  have step: "aggregate_units pr (tus @ [tu]) = agg_unit pr ?st tu" by (simp add: aggregate_units_def)
  show ?case
  proof (cases "tu_cgraph tu")
    case (Some cg)
    obtain syms res where a: "aggregateSymbols tu cg (fst ?st) pr = (syms, res)" by fastforce
    have "agg_ok (fst ?st) (syms, res)" using aggregateSymbols_ok [of "fst ?st" tu cg pr] snoc a by simp
    then have "symtab_ok syms" "covers syms res" "\<forall>u. gget (fst ?st) u \<noteq> None \<longrightarrow> gget syms u \<noteq> None"
      by (simp_all add: agg_ok_def)
    moreover from snoc this(3) have "\<forall>k res. gget (snd ?st) k = Some res \<longrightarrow> covers syms res"
      using covers_mono [of "fst ?st" _ syms] by blast
    ultimately show ?thesis by (auto simp: step agg_unit_def Some a)
  next
    case None
    with snoc show ?thesis by (auto simp: step agg_unit_def covers_def)
  qed
qed (simp add: aggregate_units_def symtab_ok_def)

section \<open>The symbol table\<close>

text \<open>
  C4 For a build without clones of clones, the table that the units leave has a record for a USR exactly
  when some unit lists a symbol with that USR, and the record summarises everything the units say of it:
  its address is taken when a symbol or a clone of it has its address taken, its linkage is one that was
  observed and none observed is stronger, its names are all names of its symbols and clones, and it has
  one definition for every file, line and linkage name observed.
\<close>

theorem aggregate_symbol_table:
  assumes "chain_free tus" "distinct (map tu_object tus)"
  shows "case gget (fst (aggregate_units pr tus)) u of
      None \<Rightarrow> seen (all_obs pr tus) u = {}
    | Some r \<Rightarrow> seen (all_obs pr tus) u \<noteq> {} \<and> summarises (all_obs pr tus) u r"
  using aggregate_table_ok [OF assms, of pr] unfolding table_ok_def by blast

text \<open>Two units that define the same weak function; the second also has a clone of it.\<close>

definition sample_fn :: "string \<Rightarrow> string \<Rightarrow> string list \<Rightarrow> string \<Rightarrow> bool \<Rightarrow> Call list \<Rightarrow> Function" where
  "sample_fn i n vis parent addr calls =
     \<lparr>fn_LocalID = i, fn_Name = n, fn_LinkageName = n, fn_Kind = ''function'', fn_Analyzed = True,
      fn_BodyRemoved = False, fn_VisibilityFlags = vis, fn_AddressTaken = addr, fn_FunctionFlags = [],
      fn_CloneOfID = parent, fn_Refs = [], fn_Called = calls, fn_IndirectSites = []\<rparr>"

definition sample_tu :: "string \<Rightarrow> (string, Function) gomap \<Rightarrow> tuData" where
  "sample_tu obj fns =
     \<lparr>tu_object = obj, tu_ci = Some \<lparr>ci_Title = ''../'' @ obj, ci_Nodes = [], ci_Edges = []\<rparr>,
      tu_cgraph = Some \<lparr>cg_TrivialNeeded = [], cg_Symbols = fns\<rparr>, tu_inline = None, tu_icf = None, tu_optRec = None\<rparr>"

definition sample_pr :: PathResolver where
  "sample_pr = \<lparr>pr_BuildDir = ''/p/b'', pr_ProjectRoot = ''/p''\<rparr>"

definition sample_tus :: "tuData list" where
  "sample_tus =
     [sample_tu ''a'' [(''1'', sample_fn ''1'' ''f'' [''public'', ''weak''] [] False [])],
      sample_tu ''b'' [(''1'', sample_fn ''1'' ''f'' [''public''] [] False []),
                       (''2'', sample_fn ''2'' ''f.isra.0'' [] ''1'' True [])]]"

lemma sample_tus_ok: "chain_free sample_tus" "distinct (map tu_object sample_tus)"
  by code_simp+

theorem aggregate_symbol_table_witness:
  "\<exists>r. gget (fst (aggregate_units sample_pr sample_tus)) ''c:@F@f'' = Some r \<and>
     summarises (all_obs sample_pr sample_tus) ''c:@F@f'' r \<and> sr_linkage r = ''external'' \<and> sr_addressTaken r"
proof -
  have "map_option (\<lambda>r. (sr_linkage r, sr_addressTaken r)) (gget (fst (aggregate_units sample_pr sample_tus)) ''c:@F@f'') =
      Some (''external'', True)" by code_simp
  then show ?thesis
    using aggregate_symbol_table [OF sample_tus_ok, of sample_pr "''c:@F@f''"] by (auto split: option.splits)
qed

text \<open>
  C10 Within a unit without clones of clones, a local id resolves to the USR of its own symbol, or to that
  of the symbol it is a clone of, or to nothing when that symbol has no name; every USR a local id
  resolves to has a record in the table.
\<close>

theorem aggregate_resolution:
  assumes "chain_free tus" "distinct (map tu_object tus)" "tu \<in> set tus" "tu_cgraph tu = Some cg"
  shows "\<exists>res. gget (snd (aggregate_units pr tus)) (tu_object tu) = Some res \<and>
    gget res i =
      (case gget (cg_Symbols cg) i of
         None \<Rightarrow> None
       | Some fn \<Rightarrow>
           if fn_CloneOfID fn = [] then map_option sr_usr (recordFor fn tu (tu_source tu pr) pr)
           else case gget (cg_Symbols cg) (fn_CloneOfID fn) of
                  None \<Rightarrow> None
                | Some parent \<Rightarrow> map_option sr_usr (recordFor parent tu (tu_source tu pr) pr)) \<and>
    (case gget res i of None \<Rightarrow> True | Some u \<Rightarrow> gget (fst (aggregate_units pr tus)) u \<noteq> None)"
proof -
  obtain res where res: "gget (snd (aggregate_units pr tus)) (tu_object tu) = Some res"
    "gget res i = unit_resolved pr tu i"
    using aggregate_units_eq [OF assms(1,2), of pr] assms(3) by blast
  have nc: "no_chains (cg_Symbols cg)" using assms(1,3,4) by (auto simp: chain_free_def list_all_iff)
  have parent: "rec_at pr tu (cg_Symbols cg) (fn_CloneOfID fn) =
      (case gget (cg_Symbols cg) (fn_CloneOfID fn) of None \<Rightarrow> None | Some pf \<Rightarrow> recordFor pf tu (tu_source tu pr) pr)"
    if "gget (cg_Symbols cg) i = Some fn" "fn_CloneOfID fn \<noteq> []" for fn
    using nc that gget_in_set [OF that(1)] by (auto simp: rec_at_def no_chains_def list_all_iff split: option.splits)
  have "unit_resolved pr tu i = (case gget (cg_Symbols cg) i of None \<Rightarrow> None
      | Some fn \<Rightarrow> if fn_CloneOfID fn = [] then map_option sr_usr (recordFor fn tu (tu_source tu pr) pr)
          else case gget (cg_Symbols cg) (fn_CloneOfID fn) of None \<Rightarrow> None
            | Some parent \<Rightarrow> map_option sr_usr (recordFor parent tu (tu_source tu pr) pr))"
    using parent assms(4)
    by (auto simp: unit_resolved_def resolved_def rec_at_def [of pr tu _ i] clone_at_def option.map_comp comp_def
        split: option.split)
  moreover have "covers (fst (aggregate_units pr tus)) res" using aggregate_units_ok [of pr tus] res(1) by blast
  ultimately show ?thesis using res by (auto simp: covers_def split: option.split)
qed

theorem aggregate_resolution_witness:
  "\<exists>res. gget (snd (aggregate_units sample_pr sample_tus)) ''b'' = Some res \<and> gget res ''2'' = Some ''c:@F@f''"
proof -
  let ?tu = "sample_tus ! 1"
  let ?cg = "the (tu_cgraph ?tu)"
  have "?tu \<in> set sample_tus" by (simp add: sample_tus_def)
  moreover have "tu_cgraph ?tu = Some ?cg" by (simp add: sample_tus_def sample_tu_def)
  moreover have "tu_object ?tu = ''b''" by (simp add: sample_tus_def sample_tu_def)
  moreover have "(case gget (cg_Symbols ?cg) ''2'' of None \<Rightarrow> None
      | Some fn \<Rightarrow> if fn_CloneOfID fn = [] then map_option sr_usr (recordFor fn ?tu (tu_source ?tu sample_pr) sample_pr)
          else case gget (cg_Symbols ?cg) (fn_CloneOfID fn) of None \<Rightarrow> None
            | Some parent \<Rightarrow> map_option sr_usr (recordFor parent ?tu (tu_source ?tu sample_pr) sample_pr)) = Some ''c:@F@f''"
    by code_simp
  ultimately show ?thesis
    using aggregate_resolution [OF sample_tus_ok, of ?tu ?cg sample_pr "''2''"] by auto
qed

text \<open>
  With a chain of clones the order of the ids matters: they are sorted as strings, so clone 12 of clone 9
  is treated before 9 is, and is attributed to a symbol of its own that carries the name of the clone.
\<close>

definition chain_fns :: "(string, Function) gomap" where
  "chain_fns = [(''3'', sample_fn ''3'' ''f'' [''public''] [] False []),
     (''9'', sample_fn ''9'' ''f.isra.0'' [] ''3'' False []),
     (''12'', sample_fn ''12'' ''f.isra.0.part.0'' [] ''9'' False [])]"

lemma clone_chain_misattributed:
  "case aggregate_units sample_pr [sample_tu ''a'' chain_fns] of (syms, resolves) \<Rightarrow>
     map_option (\<lambda>res. map (gget res) [''3'', ''9'', ''12'']) (gget resolves ''a'') =
       Some [Some ''c:@F@f'', Some ''c:@F@f'', Some ''c:a@F@f.isra.0''] \<and>
     gget syms ''c:a@F@f.isra.0'' \<noteq> None"
  by code_simp

text \<open>
  C7 For a build without clones of clones, the table depends on the order in which the build directory lists its objects
  only where the first observation counts: for two orders of the same units every USR has a record in both tables or in
  neither, and the two records agree on the address mark, on the strength of the linkage, on the set of link names and on
  the set of files, lines and link names of the definitions. Nothing is said of the kind and the name of the record, nor of
  the weak marks of its definitions, which are those of the first unit that mentions them, nor of which of two linkages of
  the same strength is kept.
\<close>

definition same_summary :: "symbolRec \<Rightarrow> symbolRec \<Rightarrow> bool" where
  "same_summary r r' \<longleftrightarrow> sr_usr r = sr_usr r' \<and> sr_addressTaken r = sr_addressTaken r' \<and>
     linkage_rank (sr_linkage r) = linkage_rank (sr_linkage r') \<and>
     set (gkeys (sr_linkageNames r)) - {[]} = set (gkeys (sr_linkageNames r')) - {[]} \<and>
     def_key ` set (sr_defs r) = def_key ` set (sr_defs r')"

theorem aggregate_order_independent:
  assumes "chain_free tus" "distinct (map tu_object tus)" "mset tus' = mset tus"
  shows "rel_option same_summary (gget (fst (aggregate_units pr tus)) u) (gget (fst (aggregate_units pr tus')) u)"
proof -
  let ?t = "fst (aggregate_units pr tus)" and ?t' = "fst (aggregate_units pr tus')"
  have "set (all_obs pr tus') = set (all_obs pr tus)"
    using mset_eq_setD [OF assms(3)] by (simp add: all_obs_def)
  then have obs: "seen (all_obs pr tus') u = seen (all_obs pr tus) u" "cloned (all_obs pr tus') u = cloned (all_obs pr tus) u"
    by (auto simp: seen_def cloned_def)
  have "chain_free tus'" using assms(1) mset_eq_setD [OF assms(3)] by (simp add: chain_free_def list_all_iff)
  moreover have "distinct (map tu_object tus')"
    using assms(2,3) by (metis mset_eq_imp_distinct_iff mset_map)
  ultimately have ok': "table_ok (all_obs pr tus') ?t'" by (rule aggregate_table_ok)
  have ok: "table_ok (all_obs pr tus) ?t" using assms(1,2) by (rule aggregate_table_ok)
  show ?thesis
  proof (cases "gget ?t u")
    case None
    then have "gget ?t' u = None" using table_ok_None [OF ok] table_ok_None [OF ok'] obs by simp
    with None show ?thesis by simp
  next
    case (Some r)
    then have "gget ?t' u \<noteq> None" using table_ok_None [OF ok, of u] table_ok_None [OF ok', of u] obs by simp
    then obtain r' where r': "gget ?t' u = Some r'" by blast
    have s: "summarises (all_obs pr tus) u r" "summarises (all_obs pr tus') u r'"
      using table_ok_Some [OF ok Some] table_ok_Some [OF ok' r'] by simp_all
    then have "sr_linkage r \<in> sr_linkage ` seen (all_obs pr tus) u" "sr_linkage r' \<in> sr_linkage ` seen (all_obs pr tus) u"
      "\<forall>s \<in> seen (all_obs pr tus) u. linkage_rank (sr_linkage s) \<le> linkage_rank (sr_linkage r)"
      "\<forall>s \<in> seen (all_obs pr tus) u. linkage_rank (sr_linkage s) \<le> linkage_rank (sr_linkage r')"
      by (simp_all add: summarises_def obs)
    then have "linkage_rank (sr_linkage r') \<le> linkage_rank (sr_linkage r)" "linkage_rank (sr_linkage r) \<le> linkage_rank (sr_linkage r')"
      by auto
    then have "linkage_rank (sr_linkage r) = linkage_rank (sr_linkage r')" by simp
    with s have "same_summary r r'" unfolding same_summary_def summarises_def obs by simp
    with Some r' show ?thesis by simp
  qed
qed

theorem aggregate_order_independent_witness:
  "rel_option same_summary (gget (fst (aggregate_units sample_pr sample_tus)) ''c:@F@f'')
     (gget (fst (aggregate_units sample_pr (rev sample_tus))) ''c:@F@f'')"
  by (rule aggregate_order_independent [OF sample_tus_ok]) simp

section \<open>The prune\<close>

definition kept :: "(string, unit) gomap \<Rightarrow> string \<Rightarrow> symbolRec \<Rightarrow> bool" where
  "kept referenced u r \<longleftrightarrow>
     sr_defs r \<noteq> [] \<or> sr_addressTaken r \<or> sr_linkage r \<noteq> ''internal'' \<or> gget referenced u \<noteq> None"

lemma delete_fold_get:
  "gget (foldl (\<lambda>m (u, rec). if sr_defs rec \<noteq> [] \<or> sr_addressTaken rec \<or> sr_linkage rec \<noteq> ''internal'' then m
       else if gget referenced u \<noteq> None then m else gdel u m) m xs) k =
   (if \<exists>rec. (k, rec) \<in> set xs \<and> \<not> kept referenced k rec then None else gget m k)"
  by (induction xs arbitrary: m) (auto simp: kept_def)

lemma pruneUnreferenced_get:
  assumes "gmap_ok syms"
  shows "gget (pruneUnreferenced syms referenced) u =
    (case gget syms u of None \<Rightarrow> None | Some r \<Rightarrow> if kept referenced u r then Some r else None)"
proof -
  have "(u, r) \<in> set syms \<longleftrightarrow> gget syms u = Some r" for r
    using in_set_gget [OF assms] gget_in_set [of syms u r] by blast
  then show ?thesis unfolding pruneUnreferenced_def delete_fold_get by (auto split: option.split)
qed

lemma pruneUnreferenced_ok: "symtab_ok syms \<Longrightarrow> symtab_ok (pruneUnreferenced syms referenced)"
proof -
  assume ok: "symtab_ok syms"
  have "gmap_ok (foldl (\<lambda>m (u, rec). if P u rec then m else if Q u rec then m else gdel u m) m xs)"
    if "gmap_ok m" for P Q and m xs :: symtab
    using that by (induction xs arbitrary: m) auto
  then have "gmap_ok (pruneUnreferenced syms referenced)"
    using ok by (simp add: pruneUnreferenced_def symtab_ok_def)
  moreover have "gget syms u = Some r" if "gget (pruneUnreferenced syms referenced) u = Some r" for u r
    using that pruneUnreferenced_get [of syms referenced u] ok
    by (auto simp: symtab_ok_def split: option.splits if_splits)
  ultimately show ?thesis using ok unfolding symtab_ok_def by blast
qed

lemma referencedUSRs_iff: "gget (referencedUSRs tus resolves) u \<noteq> None \<longleftrightarrow> (\<exists>tu \<in> set tus. u \<in> set (unit_refs resolves tu))"
proof -
  have "gget (foldl (\<lambda>out u. gput u () out) m us) u \<noteq> None \<longleftrightarrow> u \<in> set us \<or> gget m u \<noteq> None" for m us
    by (induction us arbitrary: m) auto
  then show ?thesis by (simp add: referencedUSRs_def)
qed

text \<open>The symbol table as it goes to the database.\<close>

definition compiled_symbols :: "PathResolver \<Rightarrow> tuData list \<Rightarrow> symtab \<times> (string, perTUResolve) gomap" where
  "compiled_symbols pr tus =
     (case aggregate_units pr tus of (syms, resolves) \<Rightarrow> (pruneUnreferenced syms (referencedUSRs tus resolves), resolves))"

lemma compiled_symbols_kept:
  assumes "u \<in> set (unit_refs (snd (compiled_symbols pr tus)) tu)" "tu \<in> set tus"
    "gget (fst (aggregate_units pr tus)) u \<noteq> None"
  shows "gget (fst (compiled_symbols pr tus)) u = gget (fst (aggregate_units pr tus)) u"
proof -
  obtain syms resolves where a: "aggregate_units pr tus = (syms, resolves)" by fastforce
  have "gget (referencedUSRs tus resolves) u \<noteq> None"
    unfolding referencedUSRs_iff using assms(1,2) by (auto simp: compiled_symbols_def a)
  moreover have "gmap_ok syms" using aggregate_units_ok [of pr tus] by (simp add: a symtab_ok_def)
  ultimately show ?thesis by (auto simp: compiled_symbols_def a pruneUnreferenced_get kept_def split: option.split)
qed

lemma call_refs_in:
  assumes "tu_cgraph tu = Some cg" "gget resolves (tu_object tu) = Some res" "(i, fn) \<in> set (cg_Symbols cg)"
    "call \<in> set (fn_Called fn)" "gget res i = Some a" "gget res (call_TargetLocalID call) = Some b"
  shows "a \<in> set (unit_refs resolves tu)" "b \<in> set (unit_refs resolves tu)"
proof -
  have "{a, b} \<subseteq> set (call_refs res (i, fn))" using assms(4-6) by (force simp: call_refs_def)
  with assms(1-3) have "{a, b} \<subseteq> set (unit_refs resolves tu)" by (fastforce simp: unit_refs_def)
  then show "a \<in> set (unit_refs resolves tu)" "b \<in> set (unit_refs resolves tu)" by auto
qed

lemma record_refs_in:
  assumes "tu_optRec tu = Some d" "gget resolves (tu_object tu) = Some res" "r \<in> set (od_InlineRecords d)"
    "gget res (ir_CallerLocalID r) = Some a" "gget res (ir_CalleeLocalID r) = Some b"
  shows "a \<in> set (unit_refs resolves tu)" "b \<in> set (unit_refs resolves tu)"
proof -
  have "{a, b} \<subseteq> set (record_refs res r)" using assms(4,5) by (force simp: record_refs_def)
  with assms(1-3) have "{a, b} \<subseteq> set (unit_refs resolves tu)" by (fastforce simp: unit_refs_def)
  then show "a \<in> set (unit_refs resolves tu)" "b \<in> set (unit_refs resolves tu)" by auto
qed

lemma group_refs_in:
  assumes "tu_icf tu = Some d" "gget resolves (tu_object tu) = Some res" "g \<in> set (icf_Groups d)"
    "gget (buildNameToUSR tu res) (icf_WinnerName g) = Some w"
    "u \<in> set (loser_usrs (buildNameToUSR tu res) w (icf_LoserNames g))"
  shows "u \<in> set (unit_refs resolves tu)" "w \<in> set (unit_refs resolves tu)"
proof -
  have "{u, w} \<subseteq> set (group_refs (buildNameToUSR tu res) g)" using assms(4,5) by (auto simp: group_refs_def Let_def)
  with assms(1-3) have "{u, w} \<subseteq> set (unit_refs resolves tu)" by (fastforce simp: unit_refs_def)
  then show "u \<in> set (unit_refs resolves tu)" "w \<in> set (unit_refs resolves tu)" by auto
qed

lemma name_to_usr_ok:
  "gmap_ok out \<and> (\<forall>n u. gget out n = Some u \<longrightarrow> (\<exists>i. gget res i = Some u)) \<Longrightarrow>
   gmap_ok (name_to_usr res fns out i) \<and> (\<forall>n u. gget (name_to_usr res fns out i) n = Some u \<longrightarrow> (\<exists>i. gget res i = Some u))"
  by (auto simp: name_to_usr_def split: option.split)

lemma buildNameToUSR_ok:
  "gmap_ok (buildNameToUSR tu res) \<and> (\<forall>n u. gget (buildNameToUSR tu res) n = Some u \<longrightarrow> (\<exists>i. gget res i = Some u))"
proof (cases "tu_cgraph tu")
  case (Some cg)
  show ?thesis unfolding buildNameToUSR_def Some option.case
    by (rule foldl_ok [where P = "\<lambda>out. gmap_ok out \<and> (\<forall>n u. gget out n = Some u \<longrightarrow> (\<exists>i. gget res i = Some u))"])
      (use name_to_usr_ok in blast, simp)
qed (simp add: buildNameToUSR_def)

text \<open>
  What the rows of a unit will join: the two ends of a call, of an inline decision, or the function that remains and one
  that was folded into it.
\<close>

definition joins :: "tuData \<Rightarrow> perTUResolve \<Rightarrow> string \<Rightarrow> string \<Rightarrow> bool" where
  "joins tu res a b \<longleftrightarrow>
     (\<exists>cg i fn call. tu_cgraph tu = Some cg \<and> (i, fn) \<in> set (cg_Symbols cg) \<and> call \<in> set (fn_Called fn) \<and>
        gget res i = Some a \<and> gget res (call_TargetLocalID call) = Some b) \<or>
     (\<exists>d r. tu_optRec tu = Some d \<and> r \<in> set (od_InlineRecords d) \<and>
        gget res (ir_CallerLocalID r) = Some a \<and> gget res (ir_CalleeLocalID r) = Some b) \<or>
     (\<exists>d g l. tu_icf tu = Some d \<and> g \<in> set (icf_Groups d) \<and> l \<in> set (icf_LoserNames g) \<and>
        gget (buildNameToUSR tu res) (icf_WinnerName g) = Some a \<and> gget (buildNameToUSR tu res) l = Some b \<and> b \<noteq> a)"

lemma loser_usrs_iff:
  "u \<in> set (loser_usrs nm w ls) \<longleftrightarrow> u \<noteq> w \<and> (\<exists>l \<in> set ls. gget nm l = Some u)"
  by (induction ls) (auto simp: loser_usrs_def List.map_filter_simps split: option.splits if_splits)

lemma joins_refs:
  assumes "gget resolves (tu_object tu) = Some res" "joins tu res a b"
  shows "a \<in> set (unit_refs resolves tu)" "b \<in> set (unit_refs resolves tu)"
proof -
  have "a \<in> set (unit_refs resolves tu) \<and> b \<in> set (unit_refs resolves tu)"
    using assms(2) unfolding joins_def
  proof (elim disjE exE conjE)
    fix cg i fn call
    assume "tu_cgraph tu = Some cg" "(i, fn) \<in> set (cg_Symbols cg)" "call \<in> set (fn_Called fn)"
      "gget res i = Some a" "gget res (call_TargetLocalID call) = Some b"
    then show ?thesis using call_refs_in [OF _ assms(1)] by blast
  next
    fix d r
    assume "tu_optRec tu = Some d" "r \<in> set (od_InlineRecords d)" "gget res (ir_CallerLocalID r) = Some a" "gget res (ir_CalleeLocalID r) = Some b"
    then show ?thesis using record_refs_in [OF _ assms(1)] by blast
  next
    fix d g l
    assume g: "tu_icf tu = Some d" "g \<in> set (icf_Groups d)" "l \<in> set (icf_LoserNames g)"
      "gget (buildNameToUSR tu res) (icf_WinnerName g) = Some a" "gget (buildNameToUSR tu res) l = Some b" "b \<noteq> a"
    then have "b \<in> set (loser_usrs (buildNameToUSR tu res) a (icf_LoserNames g))" unfolding loser_usrs_iff by blast
    then show ?thesis using group_refs_in [OF g(1) assms(1) g(2) g(4)] by blast
  qed
  then show "a \<in> set (unit_refs resolves tu)" "b \<in> set (unit_refs resolves tu)" by auto
qed

lemma refs_joins:
  assumes "gget resolves (tu_object tu) = Some res" "u \<in> set (unit_refs resolves tu)"
  shows "\<exists>v. joins tu res u v \<or> joins tu res v u"
proof -
  have "(\<exists>cg lf. tu_cgraph tu = Some cg \<and> lf \<in> set (cg_Symbols cg) \<and> u \<in> set (call_refs res lf)) \<or>
      (\<exists>d r. tu_optRec tu = Some d \<and> r \<in> set (od_InlineRecords d) \<and> u \<in> set (record_refs res r)) \<or>
      (\<exists>d g. tu_icf tu = Some d \<and> g \<in> set (icf_Groups d) \<and> u \<in> set (group_refs (buildNameToUSR tu res) g))"
    using assms by (cases "tu_cgraph tu"; cases "tu_optRec tu"; cases "tu_icf tu") (auto simp: unit_refs_def)
  then consider cg lf where "tu_cgraph tu = Some cg" "lf \<in> set (cg_Symbols cg)" "u \<in> set (call_refs res lf)"
    | d r where "tu_optRec tu = Some d" "r \<in> set (od_InlineRecords d)" "u \<in> set (record_refs res r)"
    | d g where "tu_icf tu = Some d" "g \<in> set (icf_Groups d)" "u \<in> set (group_refs (buildNameToUSR tu res) g)"
    by blast
  then show ?thesis
  proof cases
    case 1
    obtain a where a: "gget res (fst lf) = Some a" using 1(3) by (cases "gget res (fst lf)") (auto simp: call_refs_def)
    then obtain call where call: "call \<in> set (fn_Called (snd lf))"
      "u \<in> set (case gget res (call_TargetLocalID call) of None \<Rightarrow> [] | Some b \<Rightarrow> [a, b])" using 1(3) by (auto simp: call_refs_def)
    then obtain b where "gget res (call_TargetLocalID call) = Some b" "u = a \<or> u = b"
      by (cases "gget res (call_TargetLocalID call)") auto
    note a call(1) this
    with 1(1,2) show ?thesis unfolding joins_def by (metis prod.collapse)
  next
    case 2
    then obtain a b where "gget res (ir_CallerLocalID r) = Some a" "gget res (ir_CalleeLocalID r) = Some b" "u = a \<or> u = b"
      by (cases "gget res (ir_CallerLocalID r)"; cases "gget res (ir_CalleeLocalID r)") (auto simp: record_refs_def)
    then show ?thesis using 2(1,2) unfolding joins_def by blast
  next
    case 3
    from 3(3) obtain w where w: "gget (buildNameToUSR tu res) (icf_WinnerName g) = Some w"
      "loser_usrs (buildNameToUSR tu res) w (icf_LoserNames g) \<noteq> []"
      "u = w \<or> u \<in> set (loser_usrs (buildNameToUSR tu res) w (icf_LoserNames g))"
      by (cases "gget (buildNameToUSR tu res) (icf_WinnerName g)") (auto simp: group_refs_def Let_def split: if_splits)
    then obtain x where "x \<in> set (loser_usrs (buildNameToUSR tu res) w (icf_LoserNames g))" "u = w \<or> u = x"
      by (metis list.set_intros(1) neq_Nil_conv)
    then show ?thesis using 3(1,2) w(1) unfolding loser_usrs_iff joins_def by blast
  qed
qed

lemma joins_resolved: "joins tu res a b \<Longrightarrow> (\<exists>i. gget res i = Some a) \<and> (\<exists>j. gget res j = Some b)"
  unfolding joins_def using buildNameToUSR_ok [of tu res] by blast

lemma joins_kept:
  assumes "tu \<in> set tus" "gget (snd (compiled_symbols pr tus)) (tu_object tu) = Some res" "joins tu res a b" "x = a \<or> x = b"
  shows "gget (fst (compiled_symbols pr tus)) x = gget (fst (aggregate_units pr tus)) x \<and> gget (fst (aggregate_units pr tus)) x \<noteq> None"
proof -
  have "snd (compiled_symbols pr tus) = snd (aggregate_units pr tus)" by (simp add: compiled_symbols_def split: prod.split)
  then have "covers (fst (aggregate_units pr tus)) res" using aggregate_units_ok [of pr tus] assms(2) by simp
  then have "gget (fst (aggregate_units pr tus)) x \<noteq> None" using joins_resolved [OF assms(3)] assms(4) unfolding covers_def by blast
  moreover have "x \<in> set (unit_refs (snd (compiled_symbols pr tus)) tu)" using joins_refs [OF assms(2,3)] assms(4) by blast
  ultimately show ?thesis using compiled_symbols_kept [OF _ assms(1)] by blast
qed

lemma unit_refs_joins:
  "u \<in> set (unit_refs resolves tu) \<longleftrightarrow> (\<exists>res v. gget resolves (tu_object tu) = Some res \<and> (joins tu res u v \<or> joins tu res v u))"
proof (cases "gget resolves (tu_object tu)")
  case None then show ?thesis by (simp add: unit_refs_def)
next
  case (Some res) then show ?thesis using joins_refs [OF Some] refs_joins [OF Some] by auto
qed

text \<open>
  C9 Pruning drops a symbol exactly when it is internal, has no definition, is not address-taken and no unit joins it to
  anything, by a call, by an inline decision or by folding; and so nothing that a unit joins is lost: both ends of each such
  pair still have the records they had.
\<close>

theorem prune_keeps_references:
  "gget (fst (compiled_symbols pr tus)) u =
     (case gget (fst (aggregate_units pr tus)) u of
        None \<Rightarrow> None
      | Some r \<Rightarrow>
          if sr_linkage r = ''internal'' \<and> sr_defs r = [] \<and> \<not> sr_addressTaken r \<and>
             \<not> (\<exists>tu res v. tu \<in> set tus \<and> gget (snd (compiled_symbols pr tus)) (tu_object tu) = Some res \<and>
                  (joins tu res u v \<or> joins tu res v u))
          then None else Some r) \<and>
   (\<forall>tu res a b. tu \<in> set tus \<and> gget (snd (compiled_symbols pr tus)) (tu_object tu) = Some res \<and> joins tu res a b \<longrightarrow>
      (\<exists>ra rb. gget (fst (aggregate_units pr tus)) a = Some ra \<and> gget (fst (compiled_symbols pr tus)) a = Some ra \<and>
         gget (fst (aggregate_units pr tus)) b = Some rb \<and> gget (fst (compiled_symbols pr tus)) b = Some rb))"
proof
  obtain syms resolves where ag: "aggregate_units pr tus = (syms, resolves)" by fastforce
  have ok: "gmap_ok syms" using aggregate_units_ok [of pr tus] by (simp add: ag symtab_ok_def)
  have refs: "gget (referencedUSRs tus resolves) u \<noteq> None \<longleftrightarrow>
      (\<exists>tu res v. tu \<in> set tus \<and> gget resolves (tu_object tu) = Some res \<and> (joins tu res u v \<or> joins tu res v u))"
    unfolding referencedUSRs_iff unit_refs_joins by blast
  show "gget (fst (compiled_symbols pr tus)) u =
     (case gget (fst (aggregate_units pr tus)) u of
        None \<Rightarrow> None
      | Some r \<Rightarrow>
          if sr_linkage r = ''internal'' \<and> sr_defs r = [] \<and> \<not> sr_addressTaken r \<and>
             \<not> (\<exists>tu res v. tu \<in> set tus \<and> gget (snd (compiled_symbols pr tus)) (tu_object tu) = Some res \<and>
                  (joins tu res u v \<or> joins tu res v u))
          then None else Some r)"
    unfolding compiled_symbols_def ag prod.case fst_conv snd_conv pruneUnreferenced_get [OF ok] kept_def refs by (auto split: option.split)
  show "\<forall>tu res a b. tu \<in> set tus \<and> gget (snd (compiled_symbols pr tus)) (tu_object tu) = Some res \<and> joins tu res a b \<longrightarrow>
      (\<exists>ra rb. gget (fst (aggregate_units pr tus)) a = Some ra \<and> gget (fst (compiled_symbols pr tus)) a = Some ra \<and>
         gget (fst (aggregate_units pr tus)) b = Some rb \<and> gget (fst (compiled_symbols pr tus)) b = Some rb)"
    using joins_kept by (intro allI impI, elim conjE) (metis not_None_eq)
qed

definition sample_prune :: "tuData list" where
  "sample_prune =
     [sample_tu ''a'' [(''1'', sample_fn ''1'' ''main'' [''public''] [] False [\<lparr>call_TargetLocalID = ''2'', call_Inlined = True\<rparr>]),
        (''2'', (sample_fn ''2'' ''helper'' [] [] False [])\<lparr>fn_Analyzed := False\<rparr>),
        (''3'', (sample_fn ''3'' ''unused'' [] [] False [])\<lparr>fn_Analyzed := False\<rparr>)]]"

theorem prune_keeps_references_witness:
  "(\<exists>rb. gget (fst (compiled_symbols sample_pr sample_prune)) ''c:a@F@helper'' = Some rb) \<and>
   gget (fst (compiled_symbols sample_pr sample_prune)) ''c:a@F@unused'' = None"
proof -
  let ?tu = "sample_prune ! 0"
  obtain res where res: "gget (snd (compiled_symbols sample_pr sample_prune)) (tu_object ?tu) = Some res"
    "gget res ''1'' = Some ''c:@F@main''" "gget res ''2'' = Some ''c:a@F@helper''"
  proof -
    have "map_option (\<lambda>res. (gget res ''1'', gget res ''2'')) (gget (snd (compiled_symbols sample_pr sample_prune)) (tu_object ?tu)) =
        Some (Some ''c:@F@main'', Some ''c:a@F@helper'')" by code_simp
    with that show ?thesis by (auto simp: map_option_case split: option.splits)
  qed
  have "?tu \<in> set sample_prune" by (simp add: sample_prune_def)
  moreover have "joins ?tu res ''c:@F@main'' ''c:a@F@helper''"
  proof -
    have "\<exists>cg fn call. tu_cgraph ?tu = Some cg \<and> (''1'', fn) \<in> set (cg_Symbols cg) \<and> call \<in> set (fn_Called fn) \<and>
        ''2'' = call_TargetLocalID call" by (simp add: sample_prune_def sample_tu_def sample_fn_def)
    then obtain cg fn call where "tu_cgraph ?tu = Some cg" "(''1'', fn) \<in> set (cg_Symbols cg)" "call \<in> set (fn_Called fn)"
      "gget res (call_TargetLocalID call) = Some ''c:a@F@helper''" using res(3) by auto
    then show ?thesis unfolding joins_def using res(2) by (intro disjI1 exI conjI)
  qed
  ultimately have "\<exists>rb. gget (fst (compiled_symbols sample_pr sample_prune)) ''c:a@F@helper'' = Some rb"
    using conjunct2 [OF prune_keeps_references [of sample_pr sample_prune]] res(1) by blast
  moreover have "gget (fst (compiled_symbols sample_pr sample_prune)) ''c:a@F@unused'' = None" by code_simp
  ultimately show ?thesis by blast
qed

end
