(* ===== verification/Ingest_Compiler.thy ===== *)
theory Ingest_Compiler
  imports Ingest_Symbols Hbr_Db "HOL-Library.Product_Lexorder"
begin

unbundle bit_operations_syntax

text \<open>
  The writing half of the compiler pass of \<^verbatim>\<open>src/internal/ingest/ingest.go\<close>: symbols and their definitions,
  call edges, inline decisions, the records of the optimizer and the folding groups, all in one
  transaction. The tables a function takes and returns are the view of that transaction. Where the code
  ranges over a Go map to insert rows, the rows come in the order of the association list.
\<close>

section \<open>Symbols\<close>

datatype compiler_error =
    C_parse parse_error | C_begin | C_prepare string | C_symbol string | C_last_id | C_def string
  | C_edge | C_decision | C_record | C_group | C_member | C_commit

definition sortedKeys :: "(string, unit) gomap \<Rightarrow> string list" where
  "sortedKeys m = sort (filter (\<lambda>k. k \<noteq> []) (gkeys m))"

definition symbol_row_of :: "symbolRec \<Rightarrow> symbol_row" where
  "symbol_row_of s = \<lparr>sy_usr = sr_usr s, sy_name = sr_name s, sy_kind = sr_kind s, sy_linkage = sr_linkage s,
     sy_signature = sr_signature s, sy_address_taken = (if sr_addressTaken s then 1 else 0),
     sy_linkage_names = Some (sortedKeys (sr_linkageNames s))\<rparr>"

definition definition_row_of :: "int \<Rightarrow> defRec \<Rightarrow> definition_row" where
  "definition_row_of i d = \<lparr>sd_symbol_id = i, sd_file = df_file d, sd_line = df_line d, sd_decl_file = df_declFile d,
     sd_decl_line = df_declLine d, sd_is_weak = (if df_isWeak d then 1 else 0), sd_linkage_name = df_linkageName d\<rparr>"

definition sorted_defs :: "defRec list \<Rightarrow> defRec list" where
  "sorted_defs ds = sort_key (\<lambda>d. (df_file d, df_line d)) ds"

fun insert_defs :: "tx_io \<Rightarrow> string \<Rightarrow> int \<Rightarrow> defRec list \<Rightarrow> hbr \<Rightarrow> compiler_error + hbr" where
  "insert_defs io u i [] db = Inr db"
| "insert_defs io u i (d # ds) db =
     (case exec io db (Ins_definition (definition_row_of i d)) of
        None \<Rightarrow> Inl (C_def u)
      | Some (db', _) \<Rightarrow> insert_defs io u i ds db')"

fun insert_symbol_rows ::
  "tx_io \<Rightarrow> symbolRec list \<Rightarrow> hbr \<Rightarrow> (string, int) gomap \<Rightarrow> compiler_error + hbr \<times> (string, int) gomap" where
  "insert_symbol_rows io [] db idByUSR = Inr (db, idByUSR)"
| "insert_symbol_rows io (s # ss) db idByUSR =
     (case exec io db (Ins_symbol (symbol_row_of s)) of
        None \<Rightarrow> Inl (C_symbol (sr_usr s))
      | Some (db', i) \<Rightarrow>
          if \<not> tx_last_id io db' then Inl C_last_id
          else (case insert_defs io (sr_usr s) i (sorted_defs (sr_defs s)) db' of
                  Inl e \<Rightarrow> Inl e
                | Inr db'' \<Rightarrow> insert_symbol_rows io ss db'' (gput (sr_usr s) i idByUSR)))"

text \<open>The records in the order of their USRs.\<close>

definition sorted_symbols :: "symtab \<Rightarrow> symbolRec list" where
  "sorted_symbols syms = List.map_filter (gget syms) (sort (gkeys syms))"

definition insertSymbols :: "tx_io \<Rightarrow> hbr \<Rightarrow> symtab \<Rightarrow> compiler_error + hbr \<times> (string, int) gomap" where
  "insertSymbols io db syms =
     (if \<not> tx_prepare io ''symbols'' then Inl (C_prepare ''symbols'')
      else if \<not> tx_prepare io ''symbol_definitions'' then Inl (C_prepare ''symbol_definitions'')
      else insert_symbol_rows io (sorted_symbols syms) db [])"

section \<open>Edges\<close>

record edgeAccum =
  ea_callEdge :: "(int \<times> int, bool) gomap"
  ea_inlineFlag :: "(int \<times> int, int) gomap"

type_synonym edge_state = "hbr \<times> edgeAccum \<times> int"

definition cgraph_edge :: "int \<times> int \<Rightarrow> edge_row" where
  "cgraph_edge k = \<lparr>ce_caller_id = fst k, ce_callee_id = snd k, ce_source = ''compiler_cgraph'', ce_target_id = None\<rparr>"

definition add_edge :: "tx_io \<Rightarrow> int \<times> int \<Rightarrow> bool \<Rightarrow> edge_state \<Rightarrow> compiler_error + edge_state" where
  "add_edge io k inlined st =
     (case st of (db, acc, n) \<Rightarrow>
        bind_result
          (if gget_or False (ea_callEdge acc) k then Inr (db, acc, n)
           else case exec io db (Ins_edge (cgraph_edge k)) of
                  None \<Rightarrow> Inl C_edge
                | Some (db', _) \<Rightarrow> Inr (db', acc\<lparr>ea_callEdge := gput k True (ea_callEdge acc)\<rparr>, n + 1))
          (\<lambda>(db, acc, n).
             let flag = (if inlined then 1 else 0)
             in Inr (db, acc\<lparr>ea_inlineFlag := gput k (gget_or 0 (ea_inlineFlag acc) k OR flag) (ea_inlineFlag acc)\<rparr>, n)))"

fun edge_calls ::
  "tx_io \<Rightarrow> perTUResolve \<Rightarrow> (string, int) gomap \<Rightarrow> int \<Rightarrow> Call list \<Rightarrow> edge_state \<Rightarrow> compiler_error + edge_state" where
  "edge_calls io res idByUSR callerID [] st = Inr st"
| "edge_calls io res idByUSR callerID (call # calls) st =
     (case gget res (call_TargetLocalID call) of
        None \<Rightarrow> edge_calls io res idByUSR callerID calls st
      | Some calleeUSR \<Rightarrow>
          (case gget idByUSR calleeUSR of
             None \<Rightarrow> edge_calls io res idByUSR callerID calls st
           | Some calleeID \<Rightarrow>
               bind_result (add_edge io (callerID, calleeID) (call_Inlined call) st) (edge_calls io res idByUSR callerID calls)))"

fun edge_callers ::
  "tx_io \<Rightarrow> perTUResolve \<Rightarrow> (string, int) gomap \<Rightarrow> (string, Function) gomap \<Rightarrow> string list \<Rightarrow> edge_state \<Rightarrow> compiler_error + edge_state" where
  "edge_callers io res idByUSR fns [] st = Inr st"
| "edge_callers io res idByUSR fns (i # is) st =
     (case gget res i of
        None \<Rightarrow> edge_callers io res idByUSR fns is st
      | Some callerUSR \<Rightarrow>
          (case gget idByUSR callerUSR of
             None \<Rightarrow> edge_callers io res idByUSR fns is st
           | Some callerID \<Rightarrow>
               (case gget fns i of
                  None \<Rightarrow> edge_callers io res idByUSR fns is st
                | Some fn \<Rightarrow>
                    bind_result (edge_calls io res idByUSR callerID (fn_Called fn) st) (edge_callers io res idByUSR fns is))))"

definition insertEdges ::
  "tx_io \<Rightarrow> hbr \<Rightarrow> Cgraph \<Rightarrow> perTUResolve \<Rightarrow> (string, int) gomap \<Rightarrow> edgeAccum \<Rightarrow> compiler_error + edge_state" where
  "insertEdges io db cg res idByUSR acc =
     (if \<not> tx_prepare io ''call_edges'' then Inl (C_prepare ''call_edges'')
      else edge_callers io res idByUSR (cg_Symbols cg) (local_ids cg) (db, acc, 0))"

fun edges_of_units ::
  "tx_io \<Rightarrow> (string, perTUResolve) gomap \<Rightarrow> (string, int) gomap \<Rightarrow> tuData list \<Rightarrow> edge_state \<Rightarrow> compiler_error + edge_state" where
  "edges_of_units io resolves idByUSR [] st = Inr st"
| "edges_of_units io resolves idByUSR (tu # tus) (db, acc, cnt) =
     (case tu_cgraph tu of
        None \<Rightarrow> edges_of_units io resolves idByUSR tus (db, acc, cnt)
      | Some cg \<Rightarrow>
          bind_result (insertEdges io db cg (gget_or [] resolves (tu_object tu)) idByUSR acc)
            (\<lambda>(db', acc', n). edges_of_units io resolves idByUSR tus (db', acc', cnt + n)))"

fun insert_decisions :: "tx_io \<Rightarrow> (int \<times> int, int) gomap \<Rightarrow> hbr \<Rightarrow> compiler_error + hbr" where
  "insert_decisions io [] db = Inr db"
| "insert_decisions io ((k, inlined) # flags) db =
     (case exec io db (Ins_decision \<lparr>id_caller_id = fst k, id_callee_id = snd k, id_inlined = inlined\<rparr>) of
        None \<Rightarrow> Inl C_decision
      | Some (db', _) \<Rightarrow> insert_decisions io flags db')"

section \<open>Records of the optimizer\<close>

definition object_rel :: "string \<Rightarrow> string \<Rightarrow> string" where
  "object_rel builddirRoot obj = (case Rel builddirRoot obj of None \<Rightarrow> obj | Some rel \<Rightarrow> rel)"

definition record_row_of :: "PathResolver \<Rightarrow> string \<Rightarrow> int \<Rightarrow> int \<Rightarrow> InlineRecord \<Rightarrow> record_row" where
  "record_row_of pr objRel callerID calleeID r =
     \<lparr>rr_caller_id = callerID, rr_callee_id = calleeID, rr_pass = ir_Pass r, rr_inlined = (if ir_Inlined r then 1 else 0),
      rr_reason = ir_Reason r, rr_file = (if ir_File r \<noteq> [] then rp_Rel (ToProjectRelative pr (ir_File r)) else []),
      rr_line = ir_Line r, rr_column = ir_Column r, rr_object = objRel\<rparr>"

fun insert_records ::
  "tx_io \<Rightarrow> PathResolver \<Rightarrow> perTUResolve \<Rightarrow> (string, int) gomap \<Rightarrow> string \<Rightarrow> InlineRecord list \<Rightarrow> hbr \<times> int \<Rightarrow> compiler_error + hbr \<times> int" where
  "insert_records io pr res idByUSR objRel [] st = Inr st"
| "insert_records io pr res idByUSR objRel (r # rs) st =
     (case gget idByUSR (gget_or [] res (ir_CallerLocalID r)) of
        None \<Rightarrow> insert_records io pr res idByUSR objRel rs st
      | Some callerID \<Rightarrow>
          (case gget idByUSR (gget_or [] res (ir_CalleeLocalID r)) of
             None \<Rightarrow> insert_records io pr res idByUSR objRel rs st
           | Some calleeID \<Rightarrow>
               (case exec io (fst st) (Ins_record (record_row_of pr objRel callerID calleeID r)) of
                  None \<Rightarrow> Inl C_record
                | Some (db', _) \<Rightarrow> insert_records io pr res idByUSR objRel rs (db', snd st + 1))))"

fun insert_unit_records ::
  "tx_io \<Rightarrow> (string, perTUResolve) gomap \<Rightarrow> (string, int) gomap \<Rightarrow> string \<Rightarrow> PathResolver \<Rightarrow> tuData list \<Rightarrow> hbr \<times> int \<Rightarrow> compiler_error + hbr \<times> int" where
  "insert_unit_records io resolves idByUSR root pr [] st = Inr st"
| "insert_unit_records io resolves idByUSR root pr (tu # tus) st =
     (case tu_optRec tu of
        None \<Rightarrow> insert_unit_records io resolves idByUSR root pr tus st
      | Some d \<Rightarrow>
          (case gget resolves (tu_object tu) of
             None \<Rightarrow> insert_unit_records io resolves idByUSR root pr tus st
           | Some res \<Rightarrow>
               bind_result (insert_records io pr res idByUSR (object_rel root (tu_object tu)) (od_InlineRecords d) st)
                 (insert_unit_records io resolves idByUSR root pr tus)))"

definition insertInlineRecords ::
  "tx_io \<Rightarrow> hbr \<Rightarrow> tuData list \<Rightarrow> (string, perTUResolve) gomap \<Rightarrow> (string, int) gomap \<Rightarrow> string \<Rightarrow> PathResolver \<Rightarrow> compiler_error + hbr \<times> int" where
  "insertInlineRecords io db tus resolves idByUSR builddirRoot pr =
     (if \<not> tx_prepare io ''inline_records'' then Inl (C_prepare ''inline_records'')
      else insert_unit_records io resolves idByUSR builddirRoot pr tus (db, 0))"

section \<open>Folding groups\<close>

definition buildNameToSymbolID :: "tuData \<Rightarrow> perTUResolve \<Rightarrow> (string, int) gomap \<Rightarrow> (string, int) gomap" where
  "buildNameToSymbolID tu res idByUSR =
     foldl (\<lambda>out (name, u). case gget idByUSR u of None \<Rightarrow> out | Some symID \<Rightarrow> gput name symID out) [] (buildNameToUSR tu res)"

fun insert_members :: "tx_io \<Rightarrow> int \<Rightarrow> int list \<Rightarrow> hbr \<Rightarrow> compiler_error + hbr" where
  "insert_members io gid [] db = Inr db"
| "insert_members io gid (lid # lids) db =
     (case exec io db (Ins_member gid lid) of None \<Rightarrow> Inl C_member | Some (db', _) \<Rightarrow> insert_members io gid lids db')"

definition loser_ids :: "(string, int) gomap \<Rightarrow> int \<Rightarrow> string list \<Rightarrow> int list" where
  "loser_ids nameToID winnerID names =
     List.map_filter (\<lambda>l. case gget nameToID l of None \<Rightarrow> None | Some i \<Rightarrow> if i \<noteq> winnerID then Some i else None) names"

fun insert_groups ::
  "tx_io \<Rightarrow> (string, int) gomap \<Rightarrow> string \<Rightarrow> ICFGroup list \<Rightarrow> hbr \<times> int \<Rightarrow> compiler_error + hbr \<times> int" where
  "insert_groups io nameToID objRel [] st = Inr st"
| "insert_groups io nameToID objRel (g # gs) st =
     (case gget nameToID (icf_WinnerName g) of
        None \<Rightarrow> insert_groups io nameToID objRel gs st
      | Some winnerID \<Rightarrow>
          (let loserIDs = loser_ids nameToID winnerID (icf_LoserNames g)
           in if loserIDs = [] then insert_groups io nameToID objRel gs st
              else (case exec io (fst st) (Ins_group \<lparr>ig_winner_symbol_id = winnerID, ig_object_file = objRel\<rparr>) of
                      None \<Rightarrow> Inl C_group
                    | Some (db', gid) \<Rightarrow>
                        if \<not> tx_last_id io db' then Inl C_last_id
                        else bind_result (insert_members io gid loserIDs db')
                               (\<lambda>db''. insert_groups io nameToID objRel gs (db'', snd st + 1)))))"

fun insert_unit_groups ::
  "tx_io \<Rightarrow> (string, perTUResolve) gomap \<Rightarrow> (string, int) gomap \<Rightarrow> string \<Rightarrow> tuData list \<Rightarrow> hbr \<times> int \<Rightarrow> compiler_error + hbr \<times> int" where
  "insert_unit_groups io resolves idByUSR root [] st = Inr st"
| "insert_unit_groups io resolves idByUSR root (tu # tus) st =
     (case tu_icf tu of
        None \<Rightarrow> insert_unit_groups io resolves idByUSR root tus st
      | Some d \<Rightarrow>
          if tu_cgraph tu = None then insert_unit_groups io resolves idByUSR root tus st
          else (case gget resolves (tu_object tu) of
                  None \<Rightarrow> insert_unit_groups io resolves idByUSR root tus st
                | Some res \<Rightarrow>
                    bind_result
                      (insert_groups io (buildNameToSymbolID tu res idByUSR) (object_rel root (tu_object tu)) (icf_Groups d) st)
                      (insert_unit_groups io resolves idByUSR root tus)))"

definition insertICFGroups ::
  "tx_io \<Rightarrow> hbr \<Rightarrow> tuData list \<Rightarrow> (string, perTUResolve) gomap \<Rightarrow> (string, int) gomap \<Rightarrow> string \<Rightarrow> compiler_error + hbr \<times> int" where
  "insertICFGroups io db tus resolves idByUSR builddirRoot =
     (if \<not> tx_prepare io ''icf_groups'' then Inl (C_prepare ''icf_groups'')
      else if \<not> tx_prepare io ''icf_group_members'' then Inl (C_prepare ''icf_group_members'')
      else insert_unit_groups io resolves idByUSR builddirRoot tus (db, 0))"

section \<open>The pass\<close>

record Summary =
  sm_Symbols :: int
  sm_CallEdges :: int
  sm_InlineDecisions :: int
  sm_InlineRecords :: int
  sm_ICFGroups :: int
  sm_IDByUSR :: "(string, int) gomap"
  sm_ObjectToSource :: "(string, string) gomap"

definition object_source :: "string \<Rightarrow> PathResolver \<Rightarrow> (string, string) gomap \<Rightarrow> tuData \<Rightarrow> (string, string) gomap" where
  "object_source builddirRoot pr out tu =
     (case tu_ci tu of
        None \<Rightarrow> out
      | Some ci \<Rightarrow>
          if ci_Title ci = [] then out
          else let src = ToProjectRelative pr (ci_Title ci)
               in if \<not> rp_InProject src then out
                  else (case Rel builddirRoot (tu_object tu) of None \<Rightarrow> out | Some rel \<Rightarrow> gput rel (rp_Rel src) out))"

definition buildObjectToSource :: "tuData list \<Rightarrow> string \<Rightarrow> PathResolver \<Rightarrow> (string, string) gomap" where
  "buildObjectToSource tus builddirRoot pr = foldl (object_source builddirRoot pr) [] tus"

definition write_compiler ::
  "tx_io \<Rightarrow> hbr \<Rightarrow> tuData list \<Rightarrow> string \<Rightarrow> PathResolver \<Rightarrow> compiler_error + hbr \<times> Summary" where
  "write_compiler io db tus root pr =
     (case compiled_symbols pr tus of (syms, resolves) \<Rightarrow>
        bind_result (insertSymbols io db syms) (\<lambda>(db1, idByUSR).
        bind_result (edges_of_units io resolves idByUSR tus (db1, \<lparr>ea_callEdge = [], ea_inlineFlag = []\<rparr>, 0)) (\<lambda>(db2, acc, n).
        bind_result (if \<not> tx_prepare io ''inline_decisions'' then Inl (C_prepare ''inline_decisions'') else Inr ()) (\<lambda>_.
        bind_result (insert_decisions io (ea_inlineFlag acc) db2) (\<lambda>db3.
        bind_result (insertInlineRecords io db3 tus resolves idByUSR root pr) (\<lambda>(db4, nRec).
        bind_result (insertICFGroups io db4 tus resolves idByUSR root) (\<lambda>(db5, nICF).
        Inr (db5, \<lparr>sm_Symbols = int (length idByUSR), sm_CallEdges = n,
                   sm_InlineDecisions = int (length (ea_inlineFlag acc)), sm_InlineRecords = nRec, sm_ICFGroups = nICF,
                   sm_IDByUSR = idByUSR, sm_ObjectToSource = buildObjectToSource tus root pr\<rparr>))))))))"

fun parse_units :: "dump_files \<Rightarrow> ObjectArtifacts list \<Rightarrow> compiler_error + tuData list" where
  "parse_units fs [] = Inr []"
| "parse_units fs (obj # objs) =
     (case parseTU fs obj of
        Inl e \<Rightarrow> Inl (C_parse e)
      | Inr tu \<Rightarrow> bind_result (parse_units fs objs) (\<lambda>tus. Inr (tu # tus)))"

definition Compiler :: "tx_io \<Rightarrow> dump_files \<Rightarrow> hbr \<Rightarrow> BuildDir \<Rightarrow> PathResolver \<Rightarrow> hbr \<times> (compiler_error + Summary)" where
  "Compiler io fs db bd pr =
     (case parse_units fs (bd_Objects bd) of
        Inl e \<Rightarrow> (db, Inl e)
      | Inr tus \<Rightarrow>
          if \<not> tx_begin io then (db, Inl C_begin)
          else (case write_compiler io db tus (bd_Root bd) pr of
                  Inl e \<Rightarrow> (db, Inl e)
                | Inr (view, sm) \<Rightarrow> if tx_commit io then (view, Inr sm) else (db, Inl C_commit)))"

section \<open>Frames of the loops\<close>

lemma insert_defs_keeps:
  "keeps {''symbol_definitions''} P \<Longrightarrow> P db \<Longrightarrow> insert_defs io u i ds db = Inr db' \<Longrightarrow> P db'"
proof (induction ds arbitrary: db)
  case (Cons d ds)
  then obtain db1 j where e: "exec io db (Ins_definition (definition_row_of i d)) = Some (db1, j)"
    and rest: "insert_defs io u i ds db1 = Inr db'" by (auto split: option.splits)
  have "P db1" by (rule keeps_exec [OF Cons.prems(1,2) _ e]) simp
  from Cons.IH [OF Cons.prems(1) this rest] show ?case .
qed simp

lemma insert_symbol_rows_keeps:
  "keeps {''symbols'', ''symbol_definitions''} P \<Longrightarrow> P db \<Longrightarrow> insert_symbol_rows io ss db m = Inr (db', m') \<Longrightarrow> P db'"
proof (induction ss arbitrary: db m)
  case (Cons s ss)
  then obtain db1 i db2 where e: "exec io db (Ins_symbol (symbol_row_of s)) = Some (db1, i)"
    and d: "insert_defs io (sr_usr s) i (sorted_defs (sr_defs s)) db1 = Inr db2"
    and rest: "insert_symbol_rows io ss db2 (gput (sr_usr s) i m) = Inr (db', m')"
    by (auto split: option.splits sum.splits if_splits)
  have "P db1" by (rule keeps_exec [OF Cons.prems(1,2) _ e]) simp
  then have "P db2" using insert_defs_keeps [OF keeps_mono [OF Cons.prems(1)] _ d] by blast
  from Cons.IH [OF Cons.prems(1) this rest] show ?case .
qed simp

lemma add_edge_keeps:
  assumes "keeps {''call_edges''} P" "P db" "add_edge io k inl (db, acc, n) = Inr (db', r)"
  shows "P db'"
  using assms keeps_exec [OF assms(1,2), of "Ins_edge (cgraph_edge k)" io]
  by (auto simp: add_edge_def bind_result_Inr_iff Let_def split: if_splits option.splits)

lemma edge_calls_keeps:
  "keeps {''call_edges''} P \<Longrightarrow> P (fst st) \<Longrightarrow> edge_calls io res m c calls st = Inr st' \<Longrightarrow> P (fst st')"
proof (induction calls arbitrary: st)
  case (Cons call calls)
  have step: "P (fst st1)" if "add_edge io k inl st = Inr st1" for k inl st1
    using add_edge_keeps [OF Cons.prems(1), of "fst st" io k inl "fst (snd st)" "snd (snd st)" "fst st1" "snd st1"] Cons.prems(2) that
    by simp
  from Cons.prems Cons.IH step show ?case by (auto simp: bind_result_Inr_iff split: option.splits; blast)
qed simp

lemma edge_callers_keeps:
  "keeps {''call_edges''} P \<Longrightarrow> P (fst st) \<Longrightarrow> edge_callers io res m fns is st = Inr st' \<Longrightarrow> P (fst st')"
proof (induction "is" arbitrary: st)
  case (Cons i "is")
  from Cons.prems Cons.IH edge_calls_keeps [OF Cons.prems(1,2)] show ?case
    by (auto simp: bind_result_Inr_iff split: option.splits; blast)
qed simp

lemma edges_of_units_keeps:
  "keeps {''call_edges''} P \<Longrightarrow> P (fst st) \<Longrightarrow> edges_of_units io resolves m tus st = Inr st' \<Longrightarrow> P (fst st')"
proof (induction tus arbitrary: st)
  case (Cons tu tus)
  obtain db acc cnt where st: "st = (db, acc, cnt)" by (metis surj_pair)
  show ?case
  proof (cases "tu_cgraph tu")
    case None
    with Cons.prems show ?thesis by (intro Cons.IH [of st]) (simp_all add: st)
  next
    case (Some cg)
    with Cons.prems(3) obtain db1 acc1 n where e: "insertEdges io db cg (gget_or [] resolves (tu_object tu)) m acc = Inr (db1, acc1, n)"
      and rest: "edges_of_units io resolves m tus (db1, acc1, cnt + n) = Inr st'"
      by (auto simp: st bind_result_Inr_iff)
    have "P db1" using edge_callers_keeps [OF Cons.prems(1), of "(db, acc, 0)"] Cons.prems(2) e
      by (auto simp: st insertEdges_def split: if_splits)
    with Cons.IH [OF Cons.prems(1) _ rest] show ?thesis by simp
  qed
qed simp

lemma insert_decisions_keeps:
  "keeps {''inline_decisions''} P \<Longrightarrow> P db \<Longrightarrow> insert_decisions io flags db = Inr db' \<Longrightarrow> P db'"
proof (induction flags arbitrary: db)
  case (Cons kf flags)
  obtain k f where kf: "kf = (k, f)" by fastforce
  from Cons.prems(3) obtain db1 j where
    e: "exec io db (Ins_decision \<lparr>id_caller_id = fst k, id_callee_id = snd k, id_inlined = f\<rparr>) = Some (db1, j)"
    and rest: "insert_decisions io flags db1 = Inr db'" by (auto simp: kf split: option.splits)
  have "P db1" by (rule keeps_exec [OF Cons.prems(1,2) _ e]) simp
  from Cons.IH [OF Cons.prems(1) this rest] show ?case .
qed simp

lemma insert_records_keeps:
  "keeps {''inline_records''} P \<Longrightarrow> P (fst st) \<Longrightarrow> insert_records io pr res m objRel rs st = Inr st' \<Longrightarrow> P (fst st')"
proof (induction rs arbitrary: st)
  case (Cons r rs)
  have "P db1" if "exec io (fst st) (Ins_record x) = Some (db1, j)" for x db1 j
    using keeps_exec [OF Cons.prems(1,2) _ that] by simp
  with Cons.prems Cons.IH show ?case by (auto split: option.splits; blast)
qed simp

lemma insert_unit_records_keeps:
  "keeps {''inline_records''} P \<Longrightarrow> P (fst st) \<Longrightarrow> insert_unit_records io resolves m root pr tus st = Inr st' \<Longrightarrow> P (fst st')"
proof (induction tus arbitrary: st)
  case (Cons tu tus)
  from Cons.prems Cons.IH insert_records_keeps [OF Cons.prems(1,2)] show ?case
    by (auto simp: bind_result_Inr_iff split: option.splits; blast)
qed simp

lemma insert_members_keeps:
  "keeps {''icf_group_members''} P \<Longrightarrow> P db \<Longrightarrow> insert_members io g ls db = Inr db' \<Longrightarrow> P db'"
proof (induction ls arbitrary: db)
  case (Cons l ls)
  then obtain db1 j where e: "exec io db (Ins_member g l) = Some (db1, j)"
    and rest: "insert_members io g ls db1 = Inr db'" by (auto split: option.splits)
  have "P db1" by (rule keeps_exec [OF Cons.prems(1,2) _ e]) simp
  from Cons.IH [OF Cons.prems(1) this rest] show ?case .
qed simp

lemma insert_groups_keeps:
  "keeps {''icf_groups'', ''icf_group_members''} P \<Longrightarrow> P (fst st) \<Longrightarrow> insert_groups io nm objRel gs st = Inr st' \<Longrightarrow> P (fst st')"
proof (induction gs arbitrary: st)
  case (Cons g gs)
  have "P db1" if "exec io (fst st) (Ins_group x) = Some (db1, j)" for x db1 j
    using keeps_exec [OF Cons.prems(1,2) _ that] by simp
  then have "P db2" if "exec io (fst st) (Ins_group x) = Some (db1, j)" "insert_members io j ls db1 = Inr db2" for x db1 j ls db2
    using insert_members_keeps [OF keeps_mono [OF Cons.prems(1)] _ that(2)] that(1) by blast
  with Cons.prems Cons.IH show ?case
    by (auto simp: bind_result_Inr_iff Let_def split: option.splits if_splits; blast)
qed simp

lemma insert_unit_groups_keeps:
  "keeps {''icf_groups'', ''icf_group_members''} P \<Longrightarrow> P (fst st) \<Longrightarrow>
   insert_unit_groups io resolves m root tus st = Inr st' \<Longrightarrow> P (fst st')"
proof (induction tus arbitrary: st)
  case (Cons tu tus)
  from Cons.prems Cons.IH insert_groups_keeps [OF Cons.prems(1,2)] show ?case
    by (auto simp: bind_result_Inr_iff split: option.splits if_splits; blast)
qed simp

section \<open>The stages of the pass\<close>

abbreviation no_edges :: edgeAccum where
  "no_edges \<equiv> \<lparr>ea_callEdge = [], ea_inlineFlag = []\<rparr>"

lemma write_compiler_stages:
  assumes "write_compiler io db tus root pr = Inr (db', sm)"
  obtains db1 db2 acc n db3 db4 where
    "insert_symbol_rows io (sorted_symbols (fst (compiled_symbols pr tus))) db [] = Inr (db1, sm_IDByUSR sm)"
    "edges_of_units io (snd (compiled_symbols pr tus)) (sm_IDByUSR sm) tus (db1, no_edges, 0) = Inr (db2, acc, n)"
    "insert_decisions io (ea_inlineFlag acc) db2 = Inr db3"
    "insert_unit_records io (snd (compiled_symbols pr tus)) (sm_IDByUSR sm) root pr tus (db3, 0) = Inr (db4, sm_InlineRecords sm)"
    "insert_unit_groups io (snd (compiled_symbols pr tus)) (sm_IDByUSR sm) root tus (db4, 0) = Inr (db', sm_ICFGroups sm)"
    "sm_CallEdges sm = n" "sm_InlineDecisions sm = int (length (ea_inlineFlag acc))"
    "sm_Symbols sm = int (length (sm_IDByUSR sm))"
proof -
  obtain syms resolves where cs: "compiled_symbols pr tus = (syms, resolves)" by fastforce
  from assms obtain db1 m db2 acc n db3 db4 nRec nICF where
    "insertSymbols io db syms = Inr (db1, m)"
    "edges_of_units io resolves m tus (db1, no_edges, 0) = Inr (db2, acc, n)"
    "insert_decisions io (ea_inlineFlag acc) db2 = Inr db3"
    "insertInlineRecords io db3 tus resolves m root pr = Inr (db4, nRec)"
    "insertICFGroups io db4 tus resolves m root = Inr (db', nICF)"
    "sm = \<lparr>sm_Symbols = int (length m), sm_CallEdges = n, sm_InlineDecisions = int (length (ea_inlineFlag acc)),
           sm_InlineRecords = nRec, sm_ICFGroups = nICF, sm_IDByUSR = m, sm_ObjectToSource = buildObjectToSource tus root pr\<rparr>"
    by (auto simp: write_compiler_def cs bind_result_Inr_iff)
  then show ?thesis
    by (intro that [of db1 db2 acc n db3 db4])
      (auto simp: cs insertSymbols_def insertInlineRecords_def insertICFGroups_def split: if_splits)
qed

definition compiler_tables :: "string set" where
  "compiler_tables = {''symbols'', ''symbol_definitions'', ''call_edges'', ''inline_decisions'', ''inline_records'',
     ''icf_groups'', ''icf_group_members''}"

lemma write_compiler_keeps:
  assumes k: "keeps compiler_tables P" and "P db" "write_compiler io db tus root pr = Inr (db', sm)"
  shows "P db'"
  using assms(3)
proof (cases rule: write_compiler_stages)
  case (1 db1 db2 acc n db3 db4)
  have sub: "keeps T P" if "T \<subseteq> compiler_tables" for T using k that by (rule keeps_mono)
  have "P db1" using insert_symbol_rows_keeps [where P = P, OF _ assms(2) 1(1)] by (simp add: sub compiler_tables_def)
  then have "P db2" using edges_of_units_keeps [where P = P, OF _ _ 1(2)] by (simp add: sub compiler_tables_def)
  then have "P db3" using insert_decisions_keeps [where P = P, OF _ _ 1(3)] by (simp add: sub compiler_tables_def)
  then have "P db4" using insert_unit_records_keeps [where P = P, OF _ _ 1(4)] by (simp add: sub compiler_tables_def)
  then show "P db'" using insert_unit_groups_keeps [where P = P, OF _ _ 1(5)] by (simp add: sub compiler_tables_def)
qed

lemma Compiler_Inr:
  "Compiler io fs db bd pr = (db', Inr sm) \<Longrightarrow>
   \<exists>tus. parse_units fs (bd_Objects bd) = Inr tus \<and> write_compiler io db tus (bd_Root bd) pr = Inr (db', sm)"
  by (auto simp: Compiler_def split: sum.splits if_splits)

lemma Compiler_Inl: "Compiler io fs db bd pr = (db', Inl e) \<Longrightarrow> db' = db"
  by (auto simp: Compiler_def split: sum.splits if_splits)

text \<open>A build of one object whose call graph has a function and a static function it calls twice.\<close>

definition sample_cgraph :: string where
  "sample_cgraph = unlines
     [''f/1 (f)'', ''  Type: function definition analyzed'', ''  Visibility: public'', ''  Calls: g/2 (inlined) g/2 '',
      ''g/2 (g)'', ''  Type: function definition analyzed'', ''  Visibility:'']"

definition sample_fs :: dump_files where
  "sample_fs = \<lparr>dump_text = (\<lambda>p. if p = ''a.cgraph'' then Some sample_cgraph else None), dump_json = (\<lambda>_. None)\<rparr>"

definition sample_bd :: BuildDir where
  "sample_bd = \<lparr>bd_Root = ''/p/b'', bd_Objects = [\<lparr>oa_Object = ''/p/b/a.o'', oa_CI = [], oa_Cgraph = ''a.cgraph'', oa_Inline = [],
     oa_ICF = [], oa_OptRecord = [], oa_Preprocessed = []\<rparr>], bd_LinkerMaps = []\<rparr>"

lemma sample_compiler:
  "\<exists>db' sm. Compiler working sample_fs fresh_hbr sample_bd sample_pr = (db', Inr sm) \<and>
     length (symbols db') = 2 \<and> length (call_edges db') = 1 \<and> sm_CallEdges sm = 1"
proof -
  have "(case Compiler working sample_fs fresh_hbr sample_bd sample_pr of
      (db', Inl e) \<Rightarrow> False | (db', Inr sm) \<Rightarrow> length (symbols db') = 2 \<and> length (call_edges db') = 1 \<and> sm_CallEdges sm = 1)"
    by code_simp
  then show ?thesis by (auto split: prod.splits sum.splits)
qed

section \<open>The symbols written\<close>

definition definitions_of :: "int \<times> symbolRec \<Rightarrow> definition_row list" where
  "definitions_of is = map (definition_row_of (fst is)) (sorted_defs (sr_defs (snd is)))"

lemma next_id_enum: "next_id (rows @ enum_from (next_id rows) xs) = next_id rows + int (length xs)"
proof (induction xs rule: rev_induct)
  case (snoc x xs)
  then show ?case
    using next_id_snoc [of "rows @ enum_from (next_id rows) xs" x] by (simp add: enum_from_append)
qed simp

lemma insert_defs_Inr:
  "insert_defs io u i ds db = Inr db' \<Longrightarrow>
   db' = db\<lparr>symbol_definitions := symbol_definitions db @
             enum_from (next_id (symbol_definitions db)) (map (definition_row_of i) ds)\<rparr>"
proof (induction ds arbitrary: db)
  case (Cons d ds)
  let ?j = "next_id (symbol_definitions db)"
  let ?db1 = "db\<lparr>symbol_definitions := symbol_definitions db @ [(?j, definition_row_of i d)]\<rparr>"
  from Cons.prems have "insert_defs io u i ds ?db1 = Inr db'"
    by (simp add: exec_def Let_def split: if_splits)
  from Cons.IH [OF this] show ?case by (simp add: next_id_snoc)
qed simp

text \<open>The tables after the symbols went in.\<close>

definition with_symbols :: "symbolRec list \<Rightarrow> hbr \<Rightarrow> hbr" where
  "with_symbols ss db =
     (let new = enum_from (next_id (symbols db)) ss
      in db\<lparr>symbols := symbols db @ map (\<lambda>(i, s). (i, symbol_row_of s)) new,
            symbol_definitions := symbol_definitions db @
              enum_from (next_id (symbol_definitions db)) (concat (map definitions_of new))\<rparr>)"

lemma with_symbols_Cons:
  "with_symbols (s # ss) db =
   with_symbols ss (db\<lparr>symbols := symbols db @ [(next_id (symbols db), symbol_row_of s)],
     symbol_definitions := symbol_definitions db @
       enum_from (next_id (symbol_definitions db)) (definitions_of (next_id (symbols db), s))\<rparr>)"
  by (simp add: with_symbols_def Let_def next_id_snoc next_id_enum enum_from_append)

lemma insert_symbol_rows_Inr:
  "insert_symbol_rows io ss db m = Inr (db', m') \<Longrightarrow>
   db' = with_symbols ss db \<and> m' = fold (\<lambda>(i, s). gput (sr_usr s) i) (enum_from (next_id (symbols db)) ss) m"
proof (induction ss arbitrary: db m)
  case (Cons s ss)
  let ?i = "next_id (symbols db)"
  let ?db1 = "db\<lparr>symbols := symbols db @ [(?i, symbol_row_of s)]\<rparr>"
  from Cons.prems obtain db2 where d: "insert_defs io (sr_usr s) ?i (sorted_defs (sr_defs s)) ?db1 = Inr db2"
    and rest: "insert_symbol_rows io ss db2 (gput (sr_usr s) ?i m) = Inr (db', m')"
    by (auto simp: exec_def Let_def split: if_splits sum.splits)
  have db2: "db2 = ?db1\<lparr>symbol_definitions := symbol_definitions db @
      enum_from (next_id (symbol_definitions db)) (definitions_of (?i, s))\<rparr>"
    using insert_defs_Inr [OF d] by (simp add: definitions_of_def)
  from Cons.IH [OF rest] show ?case by (simp add: db2 with_symbols_Cons next_id_snoc)
qed (simp add: with_symbols_def)

lemma sorted_symbols_usrs:
  assumes "symtab_ok syms"
  shows "map sr_usr (sorted_symbols syms) = sort (gkeys syms)" "distinct (map sr_usr (sorted_symbols syms))"
proof -
  have "map sr_usr (List.map_filter (gget syms) us) = us" if "set us \<subseteq> set (gkeys syms)" for us
    using that
  proof (induction us)
    case (Cons u us)
    then obtain r where "gget syms u = Some r" "sr_usr r = u"
      using assms by (auto simp: set_gkeys symtab_ok_def)
    with Cons show ?case by (simp add: List.map_filter_simps)
  qed (simp add: List.map_filter_simps)
  then show *: "map sr_usr (sorted_symbols syms) = sort (gkeys syms)" by (simp add: sorted_symbols_def)
  show "distinct (map sr_usr (sorted_symbols syms))"
    unfolding * using assms by (simp add: symtab_ok_def gmap_ok_def)
qed

lemma fold_gput_iff:
  "distinct (map (f \<circ> snd) its) \<Longrightarrow>
   gget (fold (\<lambda>(i, s). gput (f s) i) its []) u = Some i \<longleftrightarrow> (\<exists>s. (i, s) \<in> set its \<and> f s = u)"
proof (induction its rule: rev_induct)
  case (snoc it its)
  then show ?case by (cases it) (force simp: rev_image_eqI)
qed simp

lemma fold_gput_keys: "set (gkeys (fold (\<lambda>(i, s). gput (f s) i) its m)) = (f \<circ> snd) ` set its \<union> set (gkeys m)"
  by (induction its arbitrary: m) (auto simp: gkeys_gput)

lemma length_gput_new: "k \<notin> set (gkeys m) \<Longrightarrow> length (gput k v m) = Suc (length m)"
  by (induction m) (auto simp: gput_def gkeys_def)

lemma fold_gput_length:
  "distinct (map (f \<circ> snd) its) \<Longrightarrow> length (fold (\<lambda>(i, s). gput (f s) i) its []) = length its"
proof (induction its rule: rev_induct)
  case (snoc it its)
  then show ?case using fold_gput_keys [of f its "[]"] by (cases it) (simp add: length_gput_new gkeys_def)
qed simp

lemma compiled_symbols_ok: "symtab_ok (fst (compiled_symbols pr tus))"
  using aggregate_units_ok [of pr tus] pruneUnreferenced_ok by (auto simp: compiled_symbols_def split: prod.split)

text \<open>What the first stage leaves in the tables is still there at the end.\<close>

lemma write_compiler_symbols:
  assumes "write_compiler io db tus root pr = Inr (db', sm)"
  shows "symbols db' = symbols (with_symbols (sorted_symbols (fst (compiled_symbols pr tus))) db)"
    "symbol_definitions db' = symbol_definitions (with_symbols (sorted_symbols (fst (compiled_symbols pr tus))) db)"
    "sm_IDByUSR sm = fold (\<lambda>(i, s). gput (sr_usr s) i) (enum_from (next_id (symbols db)) (sorted_symbols (fst (compiled_symbols pr tus)))) []"
  using assms
proof (atomize (full), cases rule: write_compiler_stages)
  case (1 db1 db2 acc n db3 db4)
  let ?ss = "sorted_symbols (fst (compiled_symbols pr tus))"
  let ?P = "\<lambda>d. symbols d = symbols (with_symbols ?ss db) \<and> symbol_definitions d = symbol_definitions (with_symbols ?ss db)"
  have k: "keeps T ?P" if "''symbols'' \<notin> T" "''symbol_definitions'' \<notin> T" for T
    using keeps_symbols [OF that(1)] keeps_definitions [OF that(2)] unfolding keeps_def by blast
  have "?P db1" and m: "sm_IDByUSR sm = fold (\<lambda>(i, s). gput (sr_usr s) i) (enum_from (next_id (symbols db)) ?ss) []"
    using insert_symbol_rows_Inr [OF 1(1)] by simp_all
  then have "?P db2" using edges_of_units_keeps [where P = ?P, OF k _ 1(2)] by simp
  then have "?P db3" using insert_decisions_keeps [where P = ?P, OF k _ 1(3)] by simp
  then have "?P db4" using insert_unit_records_keeps [where P = ?P, OF k _ 1(4)] by simp
  then have "?P db'" using insert_unit_groups_keeps [where P = ?P, OF k _ 1(5)] by simp
  with m show "symbols db' = symbols (with_symbols ?ss db) \<and> symbol_definitions db' = symbol_definitions (with_symbols ?ss db) \<and>
    sm_IDByUSR sm = fold (\<lambda>(i, s). gput (sr_usr s) i) (enum_from (next_id (symbols db)) ?ss) []" by blast
qed

text \<open>
  C11 A successful pass adds one row for every symbol of the pruned table, in the order of the USRs and under
  consecutive ids, adds its definitions sorted by file and line under the id of the symbol, and returns
  the map from every USR to the id of its row, which has no other entries.
\<close>

theorem Compiler_symbols:
  assumes "Compiler io fs db bd pr = (db', Inr sm)"
  shows "\<exists>tus. parse_units fs (bd_Objects bd) = Inr tus \<and>
    (let ss = sorted_symbols (fst (compiled_symbols pr tus)); new = enum_from (next_id (symbols db)) ss
     in map sr_usr ss = sort (gkeys (fst (compiled_symbols pr tus))) \<and> distinct (map sr_usr ss) \<and>
        symbols db' = symbols db @ map (\<lambda>(i, s). (i, symbol_row_of s)) new \<and>
        symbol_definitions db' = symbol_definitions db @
          enum_from (next_id (symbol_definitions db)) (concat (map definitions_of new)) \<and>
        sm_Symbols sm = int (length ss) \<and>
        (\<forall>u i. gget (sm_IDByUSR sm) u = Some i \<longleftrightarrow> (\<exists>s. (i, s) \<in> set new \<and> sr_usr s = u)))"
proof -
  obtain tus where p: "parse_units fs (bd_Objects bd) = Inr tus"
    and w: "write_compiler io db tus (bd_Root bd) pr = Inr (db', sm)" using Compiler_Inr [OF assms] by blast
  let ?ss = "sorted_symbols (fst (compiled_symbols pr tus))"
  let ?new = "enum_from (next_id (symbols db)) ?ss"
  note usrs = sorted_symbols_usrs [OF compiled_symbols_ok, of pr tus]
  have d: "distinct (map (sr_usr \<circ> snd) ?new)" using usrs(2) by (simp flip: map_map)
  have m: "sm_IDByUSR sm = fold (\<lambda>(i, s). gput (sr_usr s) i) ?new []" using write_compiler_symbols [OF w] by blast
  have len: "sm_Symbols sm = int (length (sm_IDByUSR sm))" using w by (cases rule: write_compiler_stages)
  from fold_gput_length [OF d] have "sm_Symbols sm = int (length ?ss)" by (simp add: len m)
  with p usrs write_compiler_symbols(1,2) [OF w] m fold_gput_iff [OF d] show ?thesis
    by (intro exI [of _ tus]) (simp add: Let_def with_symbols_def)
qed

theorem Compiler_symbols_witness:
  "\<exists>db' sm i. Compiler working sample_fs fresh_hbr sample_bd sample_pr = (db', Inr sm) \<and> sm_Symbols sm = 2 \<and>
     length (symbols db') = 2"
proof -
  obtain db' sm where c: "Compiler working sample_fs fresh_hbr sample_bd sample_pr = (db', Inr sm)" "length (symbols db') = 2"
    using sample_compiler by blast
  from Compiler_symbols [OF c(1)] obtain tus where
    "symbols db' = symbols fresh_hbr @ map (\<lambda>(i, s). (i, symbol_row_of s))
       (enum_from (next_id (symbols fresh_hbr)) (sorted_symbols (fst (compiled_symbols sample_pr tus))))"
    "sm_Symbols sm = int (length (sorted_symbols (fst (compiled_symbols sample_pr tus))))"
    by (auto simp: Let_def)
  then have "sm_Symbols sm = 2" using c(2) by (simp add: fresh_hbr_def)
  with c show ?thesis by blast
qed

section \<open>The edges written\<close>

text \<open>The calls of a unit with both ends resolved to ids, in the order the loops meet them.\<close>

definition call_ids :: "perTUResolve \<Rightarrow> (string, int) gomap \<Rightarrow> int \<Rightarrow> Call \<Rightarrow> ((int \<times> int) \<times> bool) option" where
  "call_ids res m callerID call =
     (case gget res (call_TargetLocalID call) of
        None \<Rightarrow> None
      | Some u \<Rightarrow> map_option (\<lambda>calleeID. ((callerID, calleeID), call_Inlined call)) (gget m u))"

definition caller_calls :: "perTUResolve \<Rightarrow> (string, int) gomap \<Rightarrow> (string, Function) gomap \<Rightarrow> string \<Rightarrow> ((int \<times> int) \<times> bool) list" where
  "caller_calls res m fns i =
     (case gget res i of
        None \<Rightarrow> []
      | Some u \<Rightarrow>
          (case gget m u of
             None \<Rightarrow> []
           | Some callerID \<Rightarrow>
               (case gget fns i of None \<Rightarrow> [] | Some fn \<Rightarrow> List.map_filter (call_ids res m callerID) (fn_Called fn))))"

definition unit_calls :: "(string, perTUResolve) gomap \<Rightarrow> (string, int) gomap \<Rightarrow> tuData \<Rightarrow> ((int \<times> int) \<times> bool) list" where
  "unit_calls resolves m tu =
     (case tu_cgraph tu of
        None \<Rightarrow> []
      | Some cg \<Rightarrow> concat (map (caller_calls (gget_or [] resolves (tu_object tu)) m (cg_Symbols cg)) (local_ids cg)))"

fun add_edges :: "tx_io \<Rightarrow> ((int \<times> int) \<times> bool) list \<Rightarrow> edge_state \<Rightarrow> compiler_error + edge_state" where
  "add_edges io [] st = Inr st"
| "add_edges io (kf # kfs) st = bind_result (add_edge io (fst kf) (snd kf) st) (add_edges io kfs)"

lemma bind_result_assoc: "bind_result (bind_result r f) g = bind_result r (\<lambda>x. bind_result (f x) g)"
  by (cases r) auto

lemma bind_result_Inr [simp]: "bind_result r Inr = r"
  by (cases r) auto

lemma add_edges_append: "add_edges io (xs @ ys) st = bind_result (add_edges io xs st) (add_edges io ys)"
proof (induction xs arbitrary: st)
  case (Cons x xs)
  then show ?case by (cases "add_edge io (fst x) (snd x) st") simp_all
qed simp

lemma edge_calls_flat:
  "edge_calls io res m c calls st = add_edges io (List.map_filter (call_ids res m c) calls) st"
  by (induction calls arbitrary: st)
    (auto simp: List.map_filter_simps call_ids_def split: option.split intro!: arg_cong2 [where f = bind_result])

lemma edge_callers_flat:
  "edge_callers io res m fns is st = add_edges io (concat (map (caller_calls res m fns) is)) st"
  by (induction "is" arbitrary: st)
    (auto simp: caller_calls_def edge_calls_flat add_edges_append split: option.split intro!: arg_cong2 [where f = bind_result])

lemma add_edge_shift:
  "add_edge io k inl (db, acc, c + n) = map_sum id (\<lambda>(db', acc', n'). (db', acc', c + n')) (add_edge io k inl (db, acc, n))"
  by (auto simp: add_edge_def Let_def split: option.split)

lemma add_edges_shift:
  "add_edges io kfs (db, acc, c + n) = map_sum id (\<lambda>(db', acc', n'). (db', acc', c + n')) (add_edges io kfs (db, acc, n))"
proof (induction kfs arbitrary: db acc n)
  case (Cons kf kfs)
  show ?case
  proof (cases "add_edge io (fst kf) (snd kf) (db, acc, n)")
    case (Inr st)
    obtain db1 acc1 n1 where "st = (db1, acc1, n1)" by (metis surj_pair)
    with Inr Cons.IH show ?thesis by (simp add: add_edge_shift)
  qed (simp add: add_edge_shift)
qed simp

lemma edges_of_units_flat:
  "edges_of_units io resolves m tus (db, acc, c) = Inr st \<Longrightarrow> add_edges io (concat (map (unit_calls resolves m) tus)) (db, acc, c) = Inr st"
proof (induction tus arbitrary: db acc c)
  case (Cons tu tus)
  show ?case
  proof (cases "tu_cgraph tu")
    case None
    with Cons show ?thesis by (simp add: unit_calls_def)
  next
    case (Some cg)
    with Cons.prems obtain db1 acc1 n where
      e: "add_edges io (unit_calls resolves m tu) (db, acc, 0) = Inr (db1, acc1, n)"
      and rest: "edges_of_units io resolves m tus (db1, acc1, c + n) = Inr st"
      by (auto simp: bind_result_Inr_iff insertEdges_def edge_callers_flat unit_calls_def split: if_splits)
    have "add_edges io (unit_calls resolves m tu) (db, acc, c) = Inr (db1, acc1, c + n)"
      using add_edges_shift [of io "unit_calls resolves m tu" db acc c 0] e by simp
    with Cons.IH [OF rest] show ?thesis by (simp add: add_edges_append)
  qed
qed simp

text \<open>What the accumulator and the table hold after a list of calls.\<close>

definition edges_inv :: "hbr \<Rightarrow> ((int \<times> int) \<times> bool) list \<Rightarrow> edge_state \<Rightarrow> bool" where
  "edges_inv base kfs st \<longleftrightarrow>
     (case st of (db, acc, n) \<Rightarrow>
        \<exists>es. db = base\<lparr>call_edges := call_edges base @ map cgraph_edge es\<rparr> \<and> distinct es \<and> set es = fst ` set kfs \<and>
          n = int (length es) \<and> (\<forall>k. gget_or False (ea_callEdge acc) k \<longleftrightarrow> k \<in> set es) \<and> gmap_ok (ea_inlineFlag acc) \<and>
          (\<forall>k. gget (ea_inlineFlag acc) k = (if k \<in> set es then Some (if (k, True) \<in> set kfs then 1 else 0) else None)))"

lemma edges_inv_step:
  assumes "edges_inv base kfs (db, acc, n)" "add_edge io k inl (db, acc, n) = Inr st"
  shows "edges_inv base (kfs @ [(k, inl)]) st"
proof -
  from assms(1) obtain es where db: "db = base\<lparr>call_edges := call_edges base @ map cgraph_edge es\<rparr>"
    and es: "distinct es" "set es = fst ` set kfs" "n = int (length es)"
    and seen: "\<forall>k. gget_or False (ea_callEdge acc) k \<longleftrightarrow> k \<in> set es" and ok: "gmap_ok (ea_inlineFlag acc)"
    and flag: "\<forall>k. gget (ea_inlineFlag acc) k = (if k \<in> set es then Some (if (k, True) \<in> set kfs then 1 else 0) else None)"
    by (auto simp: edges_inv_def)
  define es' where "es' = (if k \<in> set es then es else es @ [k])"
  define acc' where "acc' = acc\<lparr>ea_callEdge := (if k \<in> set es then ea_callEdge acc else gput k True (ea_callEdge acc)),
    ea_inlineFlag := gput k (gget_or 0 (ea_inlineFlag acc) k OR (if inl then 1 else 0)) (ea_inlineFlag acc)\<rparr>"
  have st: "st = (base\<lparr>call_edges := call_edges base @ map cgraph_edge es'\<rparr>, acc', int (length es'))"
    using assms(2) seen es(3)
    by (cases "k \<in> set es") (auto simp: add_edge_def acc'_def es'_def db exec_def Let_def split: if_splits)
  have "gget_or 0 (ea_inlineFlag acc) k = (if (k, True) \<in> set kfs then 1 else 0)"
  proof (cases "(k, True) \<in> set kfs")
    case True
    then have "k \<in> set es" unfolding es(2) by (metis fst_conv image_eqI)
    with True spec [OF flag, of k] show ?thesis by (simp add: gget_or_def)
  qed (use spec [OF flag, of k] in \<open>simp add: gget_or_def\<close>)
  then have f': "gget_or 0 (ea_inlineFlag acc) k OR (if inl then 1 else 0) = (if (k, True) \<in> set (kfs @ [(k, inl)]) then 1 else 0)"
    by auto
  have "\<forall>j. gget_or False (ea_callEdge acc') j \<longleftrightarrow> j \<in> set es'"
    using seen by (auto simp: acc'_def es'_def gget_or_def split: if_splits)
  moreover have "\<forall>j. gget (ea_inlineFlag acc') j =
      (if j \<in> set es' then Some (if (j, True) \<in> set (kfs @ [(k, inl)]) then 1 else 0) else None)"
    using flag f' by (auto simp: acc'_def es'_def)
  moreover have "set es' = fst ` set (kfs @ [(k, inl)])" "distinct es'" "gmap_ok (ea_inlineFlag acc')"
    using es ok by (auto simp: es'_def acc'_def)
  ultimately show ?thesis unfolding edges_inv_def st by blast
qed

lemma edges_inv_flags:
  assumes "edges_inv base kfs (db, acc, n)" "(k, f) \<in> set (ea_inlineFlag acc)"
  shows "k \<in> fst ` set kfs"
proof -
  from assms(1) obtain es where es: "set es = fst ` set kfs" "gmap_ok (ea_inlineFlag acc)"
    "\<forall>k. gget (ea_inlineFlag acc) k = (if k \<in> set es then Some (if (k, True) \<in> set kfs then 1 else 0) else None)"
    unfolding edges_inv_def prod.case by blast
  from in_set_gget [OF es(2) assms(2)] spec [OF es(3), of k] show ?thesis
    unfolding es(1) by (simp split: if_splits)
qed

lemma edges_inv_run:
  "edges_inv base done st \<Longrightarrow> add_edges io kfs st = Inr st' \<Longrightarrow> edges_inv base (done @ kfs) st'"
proof (induction kfs arbitrary: "done" st)
  case (Cons kf kfs)
  obtain db acc n where st: "st = (db, acc, n)" by (metis surj_pair)
  from Cons.prems(2) obtain st1 where a: "add_edge io (fst kf) (snd kf) (db, acc, n) = Inr st1"
    and rest: "add_edges io kfs st1 = Inr st'" by (auto simp: bind_result_Inr_iff st)
  have "edges_inv base (done @ [kf]) st1" using edges_inv_step [OF _ a, of base "done"] Cons.prems(1) by (simp add: st)
  from Cons.IH [OF this rest] show ?case by simp
qed simp

lemma insert_decisions_Inr:
  "insert_decisions io flags db = Inr db' \<Longrightarrow>
   db' = db\<lparr>inline_decisions := inline_decisions db @ map (\<lambda>(k, f). \<lparr>id_caller_id = fst k, id_callee_id = snd k, id_inlined = f\<rparr>) flags\<rparr>"
proof (induction flags arbitrary: db)
  case (Cons kf flags)
  obtain k f where kf: "kf = (k, f)" by fastforce
  let ?row = "\<lparr>id_caller_id = fst k, id_callee_id = snd k, id_inlined = f\<rparr>"
  from Cons.prems have "insert_decisions io flags (db\<lparr>inline_decisions := inline_decisions db @ [?row]\<rparr>) = Inr db'"
    by (simp add: kf exec_def split: if_splits)
  from Cons.IH [OF this] show ?case by (simp add: kf)
qed simp

text \<open>A call between two USRs in some unit.\<close>

definition call_between :: "PathResolver \<Rightarrow> tuData list \<Rightarrow> string \<Rightarrow> string \<Rightarrow> bool \<Rightarrow> bool" where
  "call_between pr tus ua ub inl \<longleftrightarrow>
     (\<exists>tu \<in> set tus. \<exists>cg res i fn call. tu_cgraph tu = Some cg \<and>
        gget (snd (compiled_symbols pr tus)) (tu_object tu) = Some res \<and> gget (cg_Symbols cg) i = Some fn \<and>
        call \<in> set (fn_Called fn) \<and> gget res i = Some ua \<and> gget res (call_TargetLocalID call) = Some ub \<and> call_Inlined call = inl)"

lemma caller_calls_iff:
  "((a, b), inl) \<in> set (caller_calls res m fns i) \<longleftrightarrow>
     (\<exists>ua fn call ub. gget res i = Some ua \<and> gget m ua = Some a \<and> gget fns i = Some fn \<and> call \<in> set (fn_Called fn) \<and>
        gget res (call_TargetLocalID call) = Some ub \<and> gget m ub = Some b \<and> call_Inlined call = inl)"
proof (cases "gget res i")
  case (Some u)
  have "call_ids res m c call = Some ((a, b), inl) \<longleftrightarrow> c = a \<and> call_Inlined call = inl \<and>
      (\<exists>ub. gget res (call_TargetLocalID call) = Some ub \<and> gget m ub = Some b)" for c call
    by (auto simp: call_ids_def split: option.split)
  then show ?thesis
    by (cases "gget m u"; cases "gget fns i") (auto simp: caller_calls_def Some in_map_filter)
qed (simp add: caller_calls_def)

lemma unit_calls_iff:
  "((a, b), inl) \<in> set (concat (map (unit_calls (snd (compiled_symbols pr tus)) m) tus)) \<longleftrightarrow>
     (\<exists>ua ub. call_between pr tus ua ub inl \<and> gget m ua = Some a \<and> gget m ub = Some b)"
  (is "?L \<longleftrightarrow> ?R")
proof
  assume ?L
  then obtain tu where "tu \<in> set tus" "((a, b), inl) \<in> set (unit_calls (snd (compiled_symbols pr tus)) m tu)" by auto
  then obtain cg i where tu: "tu \<in> set tus" "tu_cgraph tu = Some cg"
    "((a, b), inl) \<in> set (caller_calls (gget_or [] (snd (compiled_symbols pr tus)) (tu_object tu)) m (cg_Symbols cg) i)"
    by (cases "tu_cgraph tu") (auto simp: unit_calls_def)
  let ?res = "gget_or [] (snd (compiled_symbols pr tus)) (tu_object tu)"
  from tu(3) obtain ua fn call ub where c: "gget ?res i = Some ua" "gget m ua = Some a" "gget (cg_Symbols cg) i = Some fn"
    "call \<in> set (fn_Called fn)" "gget ?res (call_TargetLocalID call) = Some ub" "gget m ub = Some b" "call_Inlined call = inl"
    unfolding caller_calls_iff by blast
  then have "gget (snd (compiled_symbols pr tus)) (tu_object tu) = Some ?res"
    by (auto simp: gget_or_def split: option.splits)
  with tu c show ?R unfolding call_between_def by blast
next
  assume ?R
  then obtain ua ub tu cg res i fn call where c: "tu \<in> set tus" "tu_cgraph tu = Some cg"
    "gget (snd (compiled_symbols pr tus)) (tu_object tu) = Some res" "gget (cg_Symbols cg) i = Some fn"
    "call \<in> set (fn_Called fn)" "gget res i = Some ua" "gget res (call_TargetLocalID call) = Some ub" "call_Inlined call = inl"
    "gget m ua = Some a" "gget m ub = Some b" unfolding call_between_def by blast
  have "i \<in> set (local_ids cg)" using c(4) by (simp add: set_local_ids)
  moreover have "((a, b), inl) \<in> set (caller_calls res m (cg_Symbols cg) i)"
    unfolding caller_calls_iff using c by blast
  moreover have "gget_or [] (snd (compiled_symbols pr tus)) (tu_object tu) = res" using c(3) by (simp add: gget_or_def)
  ultimately have "((a, b), inl) \<in> set (unit_calls (snd (compiled_symbols pr tus)) m tu)"
    unfolding unit_calls_def c(2) by fastforce
  with c(1) show ?L by auto
qed

text \<open>The pruned table, and so the map to ids, has both ends of every call.\<close>

lemma call_between_known:
  assumes "call_between pr tus ua ub inl"
  shows "gget (fst (compiled_symbols pr tus)) ua \<noteq> None" "gget (fst (compiled_symbols pr tus)) ub \<noteq> None"
proof -
  let ?res = "snd (compiled_symbols pr tus)"
  from assms obtain tu cg res i fn call where c: "tu \<in> set tus" "tu_cgraph tu = Some cg" "gget ?res (tu_object tu) = Some res"
    "gget (cg_Symbols cg) i = Some fn" "call \<in> set (fn_Called fn)" "gget res i = Some ua" "gget res (call_TargetLocalID call) = Some ub"
    unfolding call_between_def by blast
  have "?res = snd (aggregate_units pr tus)" by (simp add: compiled_symbols_def split: prod.split)
  then have "covers (fst (aggregate_units pr tus)) res" using aggregate_units_ok [of pr tus] c(3) by simp
  then have known: "gget (fst (aggregate_units pr tus)) ua \<noteq> None" "gget (fst (aggregate_units pr tus)) ub \<noteq> None"
    using c(6,7) unfolding covers_def by blast+
  note refs = call_refs_in [OF c(2,3) gget_in_set [OF c(4)] c(5,6,7)]
  show "gget (fst (compiled_symbols pr tus)) ua \<noteq> None" "gget (fst (compiled_symbols pr tus)) ub \<noteq> None"
    using compiled_symbols_kept [OF refs(1) c(1) known(1)] compiled_symbols_kept [OF refs(2) c(1) known(2)] known by simp_all
qed

lemma snd_enum_from: "snd ` set (enum_from i xs) = set xs"
  by (metis list.set_map map_snd_enum_from)

lemma idByUSR_known:
  assumes "write_compiler io db tus root pr = Inr (db', sm)"
  shows "gget (sm_IDByUSR sm) u \<noteq> None \<longleftrightarrow> gget (fst (compiled_symbols pr tus)) u \<noteq> None"
proof -
  let ?ss = "sorted_symbols (fst (compiled_symbols pr tus))"
  note usrs = sorted_symbols_usrs [OF compiled_symbols_ok, of pr tus]
  have "set (gkeys (sm_IDByUSR sm)) = sr_usr ` set ?ss"
    using fold_gput_keys [of sr_usr "enum_from (next_id (symbols db)) ?ss" "[]"]
    unfolding image_comp [symmetric] snd_enum_from write_compiler_symbols(3) [OF assms] by (simp add: gkeys_def [of "[]"])
  also have "\<dots> = set (gkeys (fst (compiled_symbols pr tus)))" using arg_cong [OF usrs(1), of set] by simp
  finally show ?thesis unfolding set_gkeys by blast
qed

text \<open>
  C2 The call edges and inline decisions of a successful pass: every call between two symbols that some
  unit's call graph shows, with both ends resolved, gives an edge between their rows; every edge comes
  from such a call; no edge is written twice, over all units; and there is exactly one inline decision
  for each edge, marked as inlined exactly when some call of the pair was inlined.
\<close>

theorem Compiler_edges:
  assumes "Compiler io fs db bd pr = (db', Inr sm)"
  shows "\<exists>tus es flags. parse_units fs (bd_Objects bd) = Inr tus \<and>
    call_edges db' = call_edges db @ map cgraph_edge es \<and> distinct es \<and> sm_CallEdges sm = int (length es) \<and>
    (\<forall>a b. (a, b) \<in> set es \<longleftrightarrow> (\<exists>ua ub inl. call_between pr tus ua ub inl \<and>
       gget (sm_IDByUSR sm) ua = Some a \<and> gget (sm_IDByUSR sm) ub = Some b)) \<and>
    (\<forall>ua ub inl. call_between pr tus ua ub inl \<longrightarrow> gget (sm_IDByUSR sm) ua \<noteq> None \<and> gget (sm_IDByUSR sm) ub \<noteq> None) \<and>
    inline_decisions db' = inline_decisions db @ map (\<lambda>(k, f). \<lparr>id_caller_id = fst k, id_callee_id = snd k, id_inlined = f\<rparr>) flags \<and>
    mset (map fst flags) = mset es \<and>
    (\<forall>a b f. ((a, b), f) \<in> set flags \<longrightarrow> f = (if \<exists>ua ub. call_between pr tus ua ub True \<and>
       gget (sm_IDByUSR sm) ua = Some a \<and> gget (sm_IDByUSR sm) ub = Some b then 1 else 0))"
proof -
  obtain tus where p: "parse_units fs (bd_Objects bd) = Inr tus"
    and w: "write_compiler io db tus (bd_Root bd) pr = Inr (db', sm)" using Compiler_Inr [OF assms] by blast
  let ?m = "sm_IDByUSR sm"
  let ?calls = "concat (map (unit_calls (snd (compiled_symbols pr tus)) ?m) tus)"
  from w show ?thesis
  proof (cases rule: write_compiler_stages)
    case (1 db1 db2 acc n db3 db4)
    have "edges_inv db1 [] (db1, no_edges, 0)"
      unfolding edges_inv_def by (auto simp: gget_or_def intro!: exI [of _ "[]"])
    from edges_inv_run [OF this edges_of_units_flat [OF 1(2)]]
    obtain es where db2: "db2 = db1\<lparr>call_edges := call_edges db1 @ map cgraph_edge es\<rparr>" and es: "distinct es"
      "set es = fst ` set ?calls" "n = int (length es)" and ok: "gmap_ok (ea_inlineFlag acc)"
      and flag: "\<And>k. gget (ea_inlineFlag acc) k = (if k \<in> set es then Some (if (k, True) \<in> set ?calls then 1 else 0) else None)"
      by (auto simp: edges_inv_def)
    let ?flags = "ea_inlineFlag acc"
    let ?row = "\<lambda>(k, f). \<lparr>id_caller_id = fst k, id_callee_id = snd k, id_inlined = f\<rparr>"
    have db1: "db1 = with_symbols (sorted_symbols (fst (compiled_symbols pr tus))) db" using insert_symbol_rows_Inr [OF 1(1)] by blast
    have db3: "db3 = db2\<lparr>inline_decisions := inline_decisions db2 @ map ?row ?flags\<rparr>" by (rule insert_decisions_Inr [OF 1(3)])
    let ?P = "\<lambda>d. call_edges d = call_edges db3 \<and> inline_decisions d = inline_decisions db3"
    have k: "keeps T ?P" if "''call_edges'' \<notin> T" "''inline_decisions'' \<notin> T" for T
      using keeps_edges [OF that(1)] keeps_decisions [OF that(2)] unfolding keeps_def by blast
    have "?P db4" using insert_unit_records_keeps [where P = ?P, OF k _ 1(4)] by simp
    then have "?P db'" using insert_unit_groups_keeps [where P = ?P, OF k _ 1(5)] by simp
    then have tables: "call_edges db' = call_edges db @ map cgraph_edge es"
      "inline_decisions db' = inline_decisions db @ map ?row ?flags"
      by (simp_all add: db3 db2 db1 with_symbols_def Let_def)
    have keys: "set (map fst ?flags) = set es" using flag by (auto simp: set_gkeys simp flip: gkeys_def)
    have ms: "mset (map fst ?flags) = mset es"
      using keys ok es(1) set_eq_iff_mset_eq_distinct [of "map fst ?flags" es] by (simp add: gmap_ok_def gkeys_def)
    have "f = (if ((a, b), True) \<in> set ?calls then 1 else 0)" if "((a, b), f) \<in> set ?flags" for a b f
      using in_set_gget [OF ok that] flag [of "(a, b)"] by (simp split: if_splits)
    then have val: "f = (if \<exists>ua ub. call_between pr tus ua ub True \<and> gget ?m ua = Some a \<and> gget ?m ub = Some b then 1 else 0)"
      if "((a, b), f) \<in> set ?flags" for a b f using that unfolding unit_calls_iff by blast
    have edge: "(a, b) \<in> set es \<longleftrightarrow> (\<exists>ua ub inl. call_between pr tus ua ub inl \<and> gget ?m ua = Some a \<and> gget ?m ub = Some b)" for a b
    proof -
      have "(a, b) \<in> set es \<longleftrightarrow> (\<exists>inl. ((a, b), inl) \<in> set ?calls)" unfolding es(2) by force
      then show ?thesis unfolding unit_calls_iff by blast
    qed
    have known: "gget ?m ua \<noteq> None \<and> gget ?m ub \<noteq> None" if "call_between pr tus ua ub inl" for ua ub inl
      using call_between_known [OF that] idByUSR_known [OF w] by blast
    show ?thesis
    proof (intro exI [of _ tus] exI [of _ es] exI [of _ ?flags] conjI allI impI)
      show "sm_CallEdges sm = int (length es)" using 1(6) es(3) by simp
    qed (use p tables es(1) edge known ms val in blast)+
  qed
qed

theorem Compiler_edges_witness:
  "\<exists>db' sm a b. Compiler working sample_fs fresh_hbr sample_bd sample_pr = (db', Inr sm) \<and>
     call_edges db' = [cgraph_edge (a, b)] \<and> length (inline_decisions db') = 1"
proof -
  obtain db' sm where c: "Compiler working sample_fs fresh_hbr sample_bd sample_pr = (db', Inr sm)" "sm_CallEdges sm = 1"
    using sample_compiler by blast
  from Compiler_edges [OF c(1)] show ?thesis
  proof (elim exE conjE)
    fix es flags
    assume e: "call_edges db' = call_edges fresh_hbr @ map cgraph_edge es" "sm_CallEdges sm = int (length es)"
      "mset (map fst flags) = mset es"
      "inline_decisions db' = inline_decisions fresh_hbr @ map (\<lambda>(k, f). \<lparr>id_caller_id = fst k, id_callee_id = snd k, id_inlined = f\<rparr>) flags"
    from e(2) c(2) obtain k where k: "es = [k]" by (auto simp: length_Suc_conv)
    have "length flags = length es" using arg_cong [OF e(3), of size] by simp
    with k have "call_edges db' = [cgraph_edge (fst k, snd k)] \<and> length (inline_decisions db') = 1"
      by (simp add: e(1,4) fresh_hbr_def)
    with c(1) show ?thesis by blast
  qed
qed

section \<open>When the pass succeeds\<close>

lemma exec_working: "exec working db x = (if constraint_ok db x then Some (insert_row x db) else None)"
  by (simp add: exec_def working_def)

lemma working_simps [simp]:
  "tx_begin working" "tx_prepare working t" "tx_last_id working db" "tx_commit working"
  by (simp_all add: working_def)

lemma insert_defs_working:
  "i \<in> set (ids (symbols db)) \<Longrightarrow> \<exists>db'. insert_defs working u i ds db = Inr db'"
  by (induction ds arbitrary: db) (auto simp: exec_working Let_def definition_row_of_def)

lemma insert_symbol_rows_working:
  "distinct (map sr_usr ss) \<Longrightarrow> set (map sr_usr ss) \<inter> set (map (sy_usr \<circ> snd) (symbols db)) = {} \<Longrightarrow>
   \<exists>r. insert_symbol_rows working ss db m = Inr r"
proof (induction ss arbitrary: db m)
  case (Cons s ss)
  let ?i = "next_id (symbols db)"
  let ?db1 = "db\<lparr>symbols := symbols db @ [(?i, symbol_row_of s)]\<rparr>"
  obtain db2 where d: "insert_defs working (sr_usr s) ?i (sorted_defs (sr_defs s)) ?db1 = Inr db2"
    using insert_defs_working [of ?i ?db1] by auto
  have "symbols db2 = symbols ?db1" using insert_defs_Inr [OF d] by simp
  then have "set (map sr_usr ss) \<inter> set (map (sy_usr \<circ> snd) (symbols db2)) = {}"
    using Cons.prems by (auto simp: symbol_row_of_def)
  with Cons d show ?case by (simp add: exec_working symbol_row_of_def Let_def)
qed simp

text \<open>Every id the map gives is the id of a row.\<close>

definition ids_known :: "(string, int) gomap \<Rightarrow> hbr \<Rightarrow> bool" where
  "ids_known m db \<longleftrightarrow> (\<forall>u i. gget m u = Some i \<longrightarrow> i \<in> set (ids (symbols db)))"

lemma keeps_ids_known: "''symbols'' \<notin> T \<Longrightarrow> keeps T (ids_known m)"
  using keeps_symbols [of T] unfolding keeps_def ids_known_def by metis

lemma add_edges_working:
  "(\<forall>kf \<in> set kfs. fst (fst kf) \<in> set (ids X) \<and> snd (fst kf) \<in> set (ids X)) \<Longrightarrow> symbols (fst st) = X \<Longrightarrow>
   \<exists>st'. add_edges working kfs st = Inr st'"
proof (induction kfs arbitrary: st)
  case (Cons kf kfs)
  obtain db acc n where st: "st = (db, acc, n)" by (metis surj_pair)
  have "exec working db (Ins_edge (cgraph_edge (fst kf))) = Some (insert_row (Ins_edge (cgraph_edge (fst kf))) db)"
    using Cons.prems by (simp add: exec_working st cgraph_edge_def)
  then have "\<exists>st1. add_edge working (fst kf) (snd kf) st = Inr st1"
    by (cases "gget_or False (ea_callEdge acc) (fst kf)") (simp_all add: add_edge_def st Let_def)
  then obtain st1 where a: "add_edge working (fst kf) (snd kf) st = Inr st1" by blast
  moreover have "symbols (fst st1) = X"
    using add_edge_keeps [where P = "\<lambda>d. symbols d = X", OF keeps_symbols, of db working "fst kf" "snd kf" acc n "fst st1" "snd st1"]
      Cons.prems(2) a by (simp add: st)
  ultimately show ?case using Cons.IH [of st1] Cons.prems(1) by simp
next
  case Nil
  show ?case unfolding add_edges.simps by blast
qed

lemma unit_calls_known:
  "ids_known m db \<Longrightarrow> kf \<in> set (unit_calls resolves m tu) \<Longrightarrow>
   fst (fst kf) \<in> set (ids (symbols db)) \<and> snd (fst kf) \<in> set (ids (symbols db))"
  by (cases "tu_cgraph tu"; cases kf)
    (auto simp: unit_calls_def caller_calls_iff ids_known_def)

lemma edges_of_units_working:
  "ids_known m db \<Longrightarrow> \<exists>st'. edges_of_units working resolves m tus (db, acc, c) = Inr st'"
proof (induction tus arbitrary: db acc c)
  case (Cons tu tus)
  show ?case
  proof (cases "tu_cgraph tu")
    case (Some cg)
    have "\<exists>st1. add_edges working (unit_calls resolves m tu) (db, acc, 0) = Inr st1"
      using unit_calls_known [OF Cons.prems] by (intro add_edges_working [where X = "symbols db"]) auto
    then obtain db1 acc1 n where e: "edge_callers working (gget_or [] resolves (tu_object tu)) m (cg_Symbols cg) (local_ids cg) (db, acc, 0) =
        Inr (db1, acc1, n)"
      by (auto simp: edge_callers_flat unit_calls_def Some)
    have "ids_known m db1"
      using edge_callers_keeps [where P = "ids_known m", OF keeps_ids_known _ e] Cons.prems by simp
    from Cons.IH [OF this] e show ?thesis by (auto simp: Some insertEdges_def)
  next
    case None
    with Cons show ?thesis by simp
  qed
qed simp

lemma insert_decisions_working:
  "(\<forall>kf \<in> set flags. fst (fst kf) \<in> set (ids (symbols db)) \<and> snd (fst kf) \<in> set (ids (symbols db))) \<Longrightarrow>
   \<exists>db'. insert_decisions working flags db = Inr db'"
  by (induction flags arbitrary: db) (auto simp: exec_working)

lemma insert_records_working:
  "ids_known m (fst st) \<Longrightarrow> \<exists>st'. insert_records working pr res m objRel rs st = Inr st'"
proof (induction rs arbitrary: st)
  case (Cons r rs)
  have ok: "constraint_ok (fst st) (Ins_record (record_row_of pr objRel a b r))" if "gget m u = Some a" "gget m v = Some b" for a b u v
    using Cons.prems that by (auto simp: ids_known_def record_row_of_def)
  have "ids_known m (fst (insert_row (Ins_record x) (fst st)))" for x using Cons.prems by (simp add: ids_known_def)
  with Cons.IH Cons.prems ok show ?case by (auto simp: exec_working split: option.split)
qed simp

lemma insert_unit_records_working:
  "ids_known m (fst st) \<Longrightarrow> \<exists>st'. insert_unit_records working resolves m root pr tus st = Inr st'"
proof (induction tus arbitrary: st)
  case (Cons tu tus)
  show ?case
  proof (cases "tu_optRec tu"; cases "gget resolves (tu_object tu)")
    fix d res assume s: "tu_optRec tu = Some d" "gget resolves (tu_object tu) = Some res"
    obtain st1 where a: "insert_records working pr res m (object_rel root (tu_object tu)) (od_InlineRecords d) st = Inr st1"
      using insert_records_working [OF Cons.prems] by blast
    have "ids_known m (fst st1)" using insert_records_keeps [where P = "ids_known m", OF keeps_ids_known Cons.prems a] by simp
    from Cons.IH [OF this] a s show ?thesis by auto
  qed (use Cons in simp_all)
qed simp

text \<open>The members of a group must be pairwise different, and then they go in.\<close>

lemma insert_members_iff:
  "g \<in> set (ids (icf_groups db)) \<Longrightarrow> set ls \<subseteq> set (ids (symbols db)) \<Longrightarrow> (\<forall>l \<in> set ls. (g, l) \<notin> set (icf_group_members db)) \<Longrightarrow>
   (\<exists>db'. insert_members working g ls db = Inr db') \<longleftrightarrow> distinct ls"
proof (induction ls arbitrary: db)
  case (Cons l ls)
  let ?db1 = "db\<lparr>icf_group_members := icf_group_members db @ [(g, l)]\<rparr>"
  have step: "insert_members working g (l # ls) db = insert_members working g ls ?db1"
    using Cons.prems by (simp add: exec_working)
  show ?case
  proof (cases "l \<in> set ls")
    case False
    then show ?thesis unfolding step using Cons.prems by (subst Cons.IH) auto
  next
    case True
    have "\<not> (\<exists>db'. insert_members working g xs d = Inr db')" if "(g, l) \<in> set (icf_group_members d)" "l \<in> set xs" for xs d
      using that
    proof (induction xs arbitrary: d)
      case (Cons x xs)
      then show ?case by (auto simp: exec_working)
    qed simp
    from this [of ?db1 ls] True show ?thesis unfolding step by simp
  qed
qed simp

lemma loser_ids_known: "i \<in> set (loser_ids nm w names) \<Longrightarrow> \<exists>n. gget nm n = Some i"
  by (auto simp: loser_ids_def in_map_filter split: option.splits if_splits)

lemma insert_groups_iff:
  assumes "hbr_ok (fst st)" "\<forall>n i. gget nm n = Some i \<longrightarrow> i \<in> set (ids (symbols (fst st)))"
  shows "(\<exists>st'. insert_groups working nm objRel gs st = Inr st') \<longleftrightarrow>
    (\<forall>g \<in> set gs. \<forall>w. gget nm (icf_WinnerName g) = Some w \<longrightarrow> distinct (loser_ids nm w (icf_LoserNames g)))"
  using assms
proof (induction gs arbitrary: st)
  case (Cons g gs)
  show ?case
  proof (cases "gget nm (icf_WinnerName g)")
    case None
    with Cons show ?thesis by simp
  next
    case (Some w)
    let ?ls = "loser_ids nm w (icf_LoserNames g)"
    show ?thesis
    proof (cases "?ls = []")
      case True
      with Some Cons show ?thesis by simp
    next
      case False
      let ?row = "\<lparr>ig_winner_symbol_id = w, ig_object_file = objRel\<rparr>"
      let ?gid = "next_id (icf_groups (fst st))"
      let ?db1 = "(fst st)\<lparr>icf_groups := icf_groups (fst st) @ [(?gid, ?row)]\<rparr>"
      have e: "exec working (fst st) (Ins_group ?row) = Some (?db1, ?gid)"
        using Some Cons.prems(2) by (simp add: exec_working Let_def)
      have ok1: "hbr_ok ?db1" using exec_ok [OF Cons.prems(1) e] .
      have step: "insert_groups working nm objRel (g # gs) st =
          bind_result (insert_members working ?gid ?ls ?db1) (\<lambda>db2. insert_groups working nm objRel gs (db2, snd st + 1))"
        using Some False e by (simp add: Let_def)
      have "fst ` set (icf_group_members (fst st)) \<subseteq> set (ids (icf_groups (fst st)))"
        using Cons.prems(1) by (simp add: hbr_ok_def)
      then have "\<forall>l \<in> set ?ls. (?gid, l) \<notin> set (icf_group_members ?db1)"
        using next_id_fresh [of "icf_groups (fst st)"] by force
      moreover have "set ?ls \<subseteq> set (ids (symbols ?db1))" using loser_ids_known Cons.prems(2) by fastforce
      ultimately have mem: "(\<exists>db2. insert_members working ?gid ?ls ?db1 = Inr db2) \<longleftrightarrow> distinct ?ls"
        by (intro insert_members_iff) simp_all
      have IH: "(\<exists>st'. insert_groups working nm objRel gs (db2, c) = Inr st') \<longleftrightarrow>
          (\<forall>g \<in> set gs. \<forall>w. gget nm (icf_WinnerName g) = Some w \<longrightarrow> distinct (loser_ids nm w (icf_LoserNames g)))"
        if "insert_members working ?gid ?ls ?db1 = Inr db2" for db2 c
      proof (rule Cons.IH)
        show "hbr_ok (fst (db2, c))" using insert_members_keeps [where P = hbr_ok, OF keeps_hbr_ok ok1 that] by simp
        have "symbols db2 = symbols ?db1"
          using insert_members_keeps [where P = "\<lambda>d. symbols d = symbols ?db1", OF keeps_symbols refl that] by simp
        then show "\<forall>n i. gget nm n = Some i \<longrightarrow> i \<in> set (ids (symbols (fst (db2, c))))" using Cons.prems(2) by simp
      qed
      show ?thesis
      proof (cases "insert_members working ?gid ?ls ?db1")
        case (Inl x)
        with mem have "\<not> distinct ?ls" by simp
        with Inl Some show ?thesis unfolding step by simp
      next
        case (Inr db2)
        with mem have "distinct ?ls" by simp
        with Inr Some IH [OF Inr] show ?thesis unfolding step by simp
      qed
    qed
  qed
qed simp

definition groups_ok :: "(string, perTUResolve) gomap \<Rightarrow> (string, int) gomap \<Rightarrow> tuData \<Rightarrow> bool" where
  "groups_ok resolves m tu \<longleftrightarrow>
     (case tu_icf tu of None \<Rightarrow> True | Some d \<Rightarrow>
        (case gget resolves (tu_object tu) of None \<Rightarrow> True | Some res \<Rightarrow>
           tu_cgraph tu = None \<or>
           (let nm = buildNameToSymbolID tu res m
            in \<forall>g \<in> set (icf_Groups d). \<forall>w. gget nm (icf_WinnerName g) = Some w \<longrightarrow> distinct (loser_ids nm w (icf_LoserNames g)))))"

lemma buildNameToSymbolID_in: "gget (buildNameToSymbolID tu res m) n = Some i \<Longrightarrow> \<exists>u. gget m u = Some i"
proof -
  have "gget (foldl (\<lambda>out (name, u). case gget m u of None \<Rightarrow> out | Some symID \<Rightarrow> gput name symID out) o0 xs) n = Some i \<Longrightarrow>
      gget o0 n = Some i \<or> (\<exists>u. gget m u = Some i)" for xs o0
    by (induction xs arbitrary: o0) (force split: option.splits if_splits)+
  from this [of "[]" "buildNameToUSR tu res"] show "gget (buildNameToSymbolID tu res m) n = Some i \<Longrightarrow> \<exists>u. gget m u = Some i"
    by (simp add: buildNameToSymbolID_def)
qed

lemma insert_unit_groups_iff:
  assumes "hbr_ok (fst st)" "ids_known m (fst st)"
  shows "(\<exists>st'. insert_unit_groups working resolves m root tus st = Inr st') \<longleftrightarrow> (\<forall>tu \<in> set tus. groups_ok resolves m tu)"
  using assms
proof (induction tus arbitrary: st)
  case (Cons tu tus)
  show ?case
  proof (cases "tu_icf tu = None \<or> gget resolves (tu_object tu) = None \<or> tu_cgraph tu = None")
    case True
    with Cons show ?thesis by (auto simp: groups_ok_def split: option.splits)
  next
    case False
    then obtain d res cg where s: "tu_icf tu = Some d" "gget resolves (tu_object tu) = Some res" "tu_cgraph tu = Some cg" by auto
    let ?r = "insert_groups working (buildNameToSymbolID tu res m) (object_rel root (tu_object tu)) (icf_Groups d) st"
    have iff: "(\<exists>st1. ?r = Inr st1) \<longleftrightarrow> groups_ok resolves m tu"
      using buildNameToSymbolID_in [of tu res m] Cons.prems
      by (subst insert_groups_iff) (auto simp: groups_ok_def s Let_def ids_known_def)
    show ?thesis
    proof (cases ?r)
      case (Inl e)
      with iff s show ?thesis by simp
    next
      case (Inr st1)
      have "hbr_ok (fst st1)" using insert_groups_keeps [where P = hbr_ok, OF keeps_hbr_ok Cons.prems(1) Inr] .
      moreover have "ids_known m (fst st1)"
        using insert_groups_keeps [where P = "ids_known m", OF keeps_ids_known Cons.prems(2) Inr] by simp
      ultimately show ?thesis using Cons.IH [of st1] iff s Inr by simp
    qed
  qed
qed simp

text \<open>Folding groups in terms of USRs.\<close>

definition folds_once :: "PathResolver \<Rightarrow> tuData list \<Rightarrow> bool" where
  "folds_once pr tus \<longleftrightarrow>
     (\<forall>tu \<in> set tus. case tu_icf tu of None \<Rightarrow> True | Some d \<Rightarrow>
        (case gget (snd (compiled_symbols pr tus)) (tu_object tu) of None \<Rightarrow> True | Some res \<Rightarrow>
           tu_cgraph tu = None \<or>
           (let nm = buildNameToUSR tu res
            in \<forall>g \<in> set (icf_Groups d). \<forall>w. gget nm (icf_WinnerName g) = Some w \<longrightarrow> distinct (loser_usrs nm w (icf_LoserNames g)))))"

lemma buildNameToSymbolID_get:
  "gget (buildNameToSymbolID tu res m) n = (case gget (buildNameToUSR tu res) n of None \<Rightarrow> None | Some u \<Rightarrow> gget m u)"
proof -
  have "gget (foldl (\<lambda>out (name, u). case gget m u of None \<Rightarrow> out | Some symID \<Rightarrow> gput name symID out) o0 xs) n =
      (case gget xs n of None \<Rightarrow> gget o0 n | Some u \<Rightarrow> (case gget m u of None \<Rightarrow> gget o0 n | Some i \<Rightarrow> Some i))"
    if "gmap_ok xs" for xs :: "(string, string) gomap" and o0
    using that
  proof (induction xs arbitrary: o0)
    case (Cons x xs)
    obtain k u where x: "x = (k, u)" by fastforce
    have "gmap_ok xs" "gget xs k = None" using Cons.prems set_gkeys [of xs] by (auto simp: x gmap_ok_def gkeys_def)
    with Cons.IH show ?case by (auto simp: x gget_def [of "(k, u) # xs"] gget_def [of xs, symmetric] split: option.split)
  qed simp
  from this [of "buildNameToUSR tu res" "[]"] buildNameToUSR_ok [of tu res] show ?thesis
    by (auto simp: buildNameToSymbolID_def split: option.split)
qed

definition ids_unique :: "(string, int) gomap \<Rightarrow> bool" where
  "ids_unique m \<longleftrightarrow> (\<forall>u v i. gget m u = Some i \<longrightarrow> gget m v = Some i \<longrightarrow> u = v)"

lemma loser_ids_eq:
  assumes "ids_unique m" "gget m w = Some i"
    "\<forall>u \<in> set (loser_usrs (buildNameToUSR tu res) w names). gget m u \<noteq> None"
  shows "loser_ids (buildNameToSymbolID tu res m) i names = map (\<lambda>u. the (gget m u)) (loser_usrs (buildNameToUSR tu res) w names)"
  using assms(3)
proof (induction names)
  case (Cons n names)
  show ?case
  proof (cases "gget (buildNameToUSR tu res) n")
    case None
    with Cons show ?thesis by (simp add: loser_ids_def loser_usrs_def List.map_filter_simps buildNameToSymbolID_get)
  next
    case (Some u)
    show ?thesis
    proof (cases "u = w")
      case True
      with Some Cons assms(2) show ?thesis
        by (simp add: loser_ids_def loser_usrs_def List.map_filter_simps buildNameToSymbolID_get)
    next
      case False
      with Some Cons.prems obtain j where j: "gget m u = Some j"
        by (auto simp: loser_usrs_def List.map_filter_simps)
      with False assms(1,2) have "j \<noteq> i" unfolding ids_unique_def by blast
      with Some False j Cons show ?thesis
        by (simp add: loser_ids_def loser_usrs_def List.map_filter_simps buildNameToSymbolID_get)
    qed
  qed
qed (simp add: loser_ids_def loser_usrs_def List.map_filter_simps)

lemma group_known:
  assumes "tu \<in> set tus" "tu_icf tu = Some d" "gget (snd (compiled_symbols pr tus)) (tu_object tu) = Some res" "g \<in> set (icf_Groups d)"
    "gget (buildNameToUSR tu res) (icf_WinnerName g) = Some w"
    "u \<in> set (loser_usrs (buildNameToUSR tu res) w (icf_LoserNames g))"
  shows "gget (fst (compiled_symbols pr tus)) u \<noteq> None" "gget (fst (compiled_symbols pr tus)) w \<noteq> None"
proof -
  have "snd (compiled_symbols pr tus) = snd (aggregate_units pr tus)" by (simp add: compiled_symbols_def split: prod.split)
  then have c: "covers (fst (aggregate_units pr tus)) res" using aggregate_units_ok [of pr tus] assms(3) by simp
  have named: "gget (fst (aggregate_units pr tus)) v \<noteq> None" if "gget (buildNameToUSR tu res) n = Some v" for n v
    using c that buildNameToUSR_ok [of tu res] unfolding covers_def by blast
  have "\<exists>n. gget (buildNameToUSR tu res) n = Some u"
    using assms(6) by (auto simp: loser_usrs_def in_map_filter split: option.splits if_splits)
  then have "gget (fst (aggregate_units pr tus)) u \<noteq> None" using named by blast
  moreover have "gget (fst (aggregate_units pr tus)) w \<noteq> None" using named [OF assms(5)] .
  moreover note group_refs_in [OF assms(2-6)]
  ultimately show "gget (fst (compiled_symbols pr tus)) u \<noteq> None" "gget (fst (compiled_symbols pr tus)) w \<noteq> None"
    using compiled_symbols_kept [OF _ assms(1)] by metis+
qed

lemma group_distinct_iff:
  assumes inj: "ids_unique m"
    and dom: "\<And>u. gget m u \<noteq> None \<longleftrightarrow> gget (fst (compiled_symbols pr tus)) u \<noteq> None"
    and g: "tu \<in> set tus" "tu_icf tu = Some d" "gget (snd (compiled_symbols pr tus)) (tu_object tu) = Some res" "g \<in> set (icf_Groups d)"
  shows "(\<forall>i. gget (buildNameToSymbolID tu res m) (icf_WinnerName g) = Some i \<longrightarrow>
      distinct (loser_ids (buildNameToSymbolID tu res m) i (icf_LoserNames g))) \<longleftrightarrow>
    (\<forall>w. gget (buildNameToUSR tu res) (icf_WinnerName g) = Some w \<longrightarrow>
      distinct (loser_usrs (buildNameToUSR tu res) w (icf_LoserNames g)))"
proof (cases "gget (buildNameToUSR tu res) (icf_WinnerName g)")
  case None
  then show ?thesis by (simp add: buildNameToSymbolID_get)
next
  case (Some w)
  let ?us = "loser_usrs (buildNameToUSR tu res) w (icf_LoserNames g)"
  have known: "gget m u \<noteq> None" if "u \<in> set ?us" for u using group_known(1) [OF g Some that] dom by blast
  have w: "gget m w \<noteq> None" if "?us \<noteq> []" using group_known(2) [OF g Some, of "hd ?us"] dom that by simp
  have "inj_on (\<lambda>u. the (gget m u)) (set ?us)" using known inj unfolding ids_unique_def by (intro inj_onI) (metis option.exhaust_sel)
  then have "distinct (map (\<lambda>u. the (gget m u)) ?us) \<longleftrightarrow> distinct ?us" by (simp add: distinct_map)
  moreover have "loser_ids (buildNameToSymbolID tu res m) i (icf_LoserNames g) = map (\<lambda>u. the (gget m u)) ?us"
    if "gget m w = Some i" for i using loser_ids_eq [of m w i tu res "icf_LoserNames g", OF inj that] known by blast
  ultimately show ?thesis using w Some by (cases "?us = []") (auto simp: buildNameToSymbolID_get)
qed

lemma groups_ok_iff:
  assumes "ids_unique m" "\<And>u. gget m u \<noteq> None \<longleftrightarrow> gget (fst (compiled_symbols pr tus)) u \<noteq> None"
  shows "(\<forall>tu \<in> set tus. groups_ok (snd (compiled_symbols pr tus)) m tu) \<longleftrightarrow> folds_once pr tus"
  unfolding folds_once_def groups_ok_def Let_def
  using group_distinct_iff [OF assms] by (intro ball_cong refl) (auto split: option.splits)

lemma symbols_stage:
  "\<exists>db1 m. insert_symbol_rows working (sorted_symbols (fst (compiled_symbols pr tus))) fresh_hbr [] = Inr (db1, m) \<and>
     hbr_ok db1 \<and> ids_known m db1 \<and> ids_unique m \<and> (\<forall>u. gget m u \<noteq> None \<longleftrightarrow> gget (fst (compiled_symbols pr tus)) u \<noteq> None)"
proof -
  let ?syms = "fst (compiled_symbols pr tus)"
  let ?ss = "sorted_symbols ?syms"
  note usrs = sorted_symbols_usrs [OF compiled_symbols_ok, of pr tus]
  obtain db1 m where s: "insert_symbol_rows working ?ss fresh_hbr [] = Inr (db1, m)"
    using insert_symbol_rows_working [OF usrs(2), of fresh_hbr "[]"] by (auto simp: fresh_hbr_def)
  define new where "new = enum_from (next_id (symbols fresh_hbr)) ?ss"
  have db1: "db1 = with_symbols ?ss fresh_hbr" and m: "m = fold (\<lambda>(i, s). gput (sr_usr s) i) new []"
    using insert_symbol_rows_Inr [OF s] by (simp_all add: new_def)
  have dist: "distinct (map (sr_usr \<circ> snd) new)" using usrs(2) by (simp add: new_def flip: map_map)
  note get = fold_gput_iff [OF dist, folded m]
  have ok1: "hbr_ok db1" using insert_symbol_rows_keeps [where P = hbr_ok, OF keeps_hbr_ok _ s] by simp
  have "ids (symbols db1) = ids new" by (simp add: db1 with_symbols_def new_def Let_def fresh_hbr_def)
  then have "set (ids (symbols db1)) = fst ` set new" by (simp add: ids_def)
  then have known1: "ids_known m db1" using get unfolding ids_known_def by force
  have inj: "ids_unique m" unfolding ids_unique_def
  proof (intro allI impI)
    fix u v i assume "gget m u = Some i" "gget m v = Some i"
    then obtain a b where ab: "(i, a) \<in> set new" "sr_usr a = u" "(i, b) \<in> set new" "sr_usr b = v"
      unfolding get by blast
    have "distinct (map fst new)" using distinct_ids_enum_from [of _ ?ss] by (simp add: new_def ids_def)
    then have "a = b" using ab(1,3) by (metis eq_key_imp_eq_value)
    with ab show "u = v" by simp
  qed
  have "set (gkeys m) = sr_usr ` set ?ss"
    using fold_gput_keys [of sr_usr new "[]"] unfolding image_comp [symmetric] m
    by (simp add: new_def snd_enum_from gkeys_def [of "[]"])
  also have "\<dots> = set (gkeys ?syms)" using arg_cong [OF usrs(1), of set] by simp
  finally have "\<forall>u. gget m u \<noteq> None \<longleftrightarrow> gget ?syms u \<noteq> None" unfolding set_gkeys by blast
  with s ok1 known1 inj show ?thesis by blast
qed

lemma middle_stages:
  assumes ok1: "hbr_ok db1" and known1: "ids_known m db1"
  shows "\<exists>db2 acc n db3 db4 k. edges_of_units working res m tus (db1, no_edges, 0) = Inr (db2, acc, n) \<and>
    insert_decisions working (ea_inlineFlag acc) db2 = Inr db3 \<and>
    insert_unit_records working res m root pr tus (db3, 0) = Inr (db4, k) \<and> hbr_ok db4 \<and> ids_known m db4"
proof -
  obtain db2 acc n where e: "edges_of_units working res m tus (db1, no_edges, 0) = Inr (db2, acc, n)"
    using edges_of_units_working [OF known1] by (metis surj_pair)
  have P2: "hbr_ok db2" "ids_known m db2" "symbols db2 = symbols db1"
    using edges_of_units_keeps [where P = hbr_ok, OF keeps_hbr_ok _ e] ok1
      edges_of_units_keeps [where P = "ids_known m", OF keeps_ids_known _ e] known1
      edges_of_units_keeps [where P = "\<lambda>d. symbols d = symbols db1", OF keeps_symbols _ e] by simp_all
  have "edges_inv db1 [] (db1, no_edges, 0)" unfolding edges_inv_def by (auto simp: gget_or_def intro!: exI [of _ "[]"])
  from edges_inv_flags [OF edges_inv_run [OF this edges_of_units_flat [OF e]]]
  have "\<forall>kf \<in> set (ea_inlineFlag acc). fst kf \<in> fst ` set (concat (map (unit_calls res m) tus))" by fastforce
  then have "\<forall>kf \<in> set (ea_inlineFlag acc). fst (fst kf) \<in> set (ids (symbols db2)) \<and> snd (fst kf) \<in> set (ids (symbols db2))"
    using unit_calls_known [OF known1] P2(3) by fastforce
  then obtain db3 where d: "insert_decisions working (ea_inlineFlag acc) db2 = Inr db3" using insert_decisions_working by blast
  have P3: "hbr_ok db3" "ids_known m db3"
    using insert_decisions_keeps [where P = hbr_ok, OF keeps_hbr_ok P2(1) d]
      insert_decisions_keeps [where P = "ids_known m", OF keeps_ids_known P2(2) d] by simp_all
  obtain db4 k where r: "insert_unit_records working res m root pr tus (db3, 0) = Inr (db4, k)"
    using insert_unit_records_working [of m "(db3, 0)"] P3(2) by fastforce
  have P4: "hbr_ok db4" "ids_known m db4"
    using insert_unit_records_keeps [where P = hbr_ok, OF keeps_hbr_ok _ r] P3(1)
      insert_unit_records_keeps [where P = "ids_known m", OF keeps_ids_known _ r] P3(2) by simp_all
  show ?thesis using e d r P4 by blast
qed

text \<open>
  C12 With a database that carries out every legal statement, the pass over a fresh index succeeds exactly
  when every dump can be read and no folding group lists two functions that resolve to the same symbol;
  a group with two such losers, a function and a clone of it say, makes the whole collection fail on the
  primary key of the group members.
\<close>

theorem Compiler_succeeds_iff:
  "(\<exists>sm. snd (Compiler working fs fresh_hbr bd pr) = Inr sm) \<longleftrightarrow>
   (\<exists>tus. parse_units fs (bd_Objects bd) = Inr tus \<and> folds_once pr tus)"
proof (cases "parse_units fs (bd_Objects bd)")
  case (Inl e)
  then show ?thesis by (simp add: Compiler_def)
next
  case (Inr tus)
  let ?res = "snd (compiled_symbols pr tus)"
  obtain db1 m where one: "insert_symbol_rows working (sorted_symbols (fst (compiled_symbols pr tus))) fresh_hbr [] = Inr (db1, m)"
    "hbr_ok db1" "ids_known m db1" "ids_unique m" and dom: "\<And>u. gget m u \<noteq> None \<longleftrightarrow> gget (fst (compiled_symbols pr tus)) u \<noteq> None"
    using symbols_stage [of pr tus] by blast
  obtain db4 acc n db2 db3 k where rest: "edges_of_units working ?res m tus (db1, no_edges, 0) = Inr (db2, acc, n)"
    "insert_decisions working (ea_inlineFlag acc) db2 = Inr db3"
    "insert_unit_records working ?res m (bd_Root bd) pr tus (db3, 0) = Inr (db4, k)" "hbr_ok db4" "ids_known m db4"
    using middle_stages [OF one(2,3), of ?res tus "bd_Root bd" pr] by blast
  have "(\<exists>sm. snd (Compiler working fs fresh_hbr bd pr) = Inr sm) \<longleftrightarrow>
      (\<exists>st'. insert_unit_groups working ?res m (bd_Root bd) tus (db4, 0) = Inr st')"
    by (cases "insert_unit_groups working ?res m (bd_Root bd) tus (db4, 0)")
      (auto simp: Compiler_def Inr write_compiler_def insertSymbols_def insertInlineRecords_def insertICFGroups_def
        one(1) rest(1-3) case_prod_beta)
  also have "\<dots> \<longleftrightarrow> (\<forall>tu \<in> set tus. groups_ok ?res m tu)" using insert_unit_groups_iff [of "(db4, 0)" m] rest(4,5) by simp
  also have "\<dots> \<longleftrightarrow> folds_once pr tus" by (rule groups_ok_iff [OF one(4) dom])
  finally show ?thesis by (simp add: Inr)
qed

end
