(* ===== verification/Ingest_Link.thy ===== *)
theory Ingest_Link
  imports Hbr_Db Usr Build_Dir Meson_Introspect Link_Nm Link_Objdump Link_Map "HOL-Library.Product_Lexorder"
begin

text \<open>
  The link pass, \<^verbatim>\<open>src/internal/ingest/link.go\<close>: which object supplied each symbol of a linked binary, and
  the calls of its disassembly. The outputs of \<^verbatim>\<open>nm\<close> and \<^verbatim>\<open>objdump\<close> and the contents of the linker map files
  are arguments, as is the success of the query over the symbols and the order of its rows, which the query leaves
  open. Object addresses are the 64-bit values that \<^const>\<open>ParseUint\<close> yields.
\<close>

section \<open>The lookup tables\<close>

record name_entry =
  ne_id :: int
  ne_hasDef :: bool

definition put_name :: "string \<Rightarrow> name_entry \<Rightarrow> (string, name_entry) gomap \<Rightarrow> (string, name_entry) gomap" where
  "put_name name e m =
     (if name = [] then m
      else case gget m name of
             Some cur \<Rightarrow>
               if ne_hasDef cur \<and> \<not> ne_hasDef e then m
               else if \<not> ne_hasDef cur \<and> ne_hasDef e then gput name e m
               else m
           | None \<Rightarrow> gput name e m)"

definition has_definition :: "hbr \<Rightarrow> int \<Rightarrow> bool" where
  "has_definition db i \<longleftrightarrow> (\<exists>d \<in> set (symbol_definitions db). sd_symbol_id (snd d) = i)"

record link_io =
  li_query :: bool
  li_order :: "int \<Rightarrow> int"
  li_scan :: "int \<Rightarrow> bool"
  li_rows :: bool
  li_nm :: "string \<Rightarrow> string option"
  li_map :: "string \<Rightarrow> string option"
  li_objdump :: "string \<Rightarrow> (string \<times> bool) option"

datatype link_error =
    L_query | L_scan | L_rows | L_begin | L_prepare string | L_nm nm_error | L_scan_objects nm_error
  | L_map string | L_resolution string | L_objdump string | L_edge | L_commit

type_synonym lookup_state = "(string, name_entry) gomap \<times> (int, string) gomap"

fun scan_symbols :: "link_io \<Rightarrow> hbr \<Rightarrow> (int \<times> symbol_row) list \<Rightarrow> lookup_state \<Rightarrow> link_error + lookup_state" where
  "scan_symbols lio db [] st = Inr st"
| "scan_symbols lio db ((i, r) # rows) st =
     (if \<not> li_scan lio i then Inl L_scan
      else let e = \<lparr>ne_id = i, ne_hasDef = has_definition db i\<rparr>;
               names = (case sy_linkage_names r of None \<Rightarrow> [] | Some ns \<Rightarrow> ns)
           in scan_symbols lio db rows
                (foldl (\<lambda>m n. put_name n e m) (fst st) (sy_name r # names), gput i (sy_usr r) (snd st)))"

text \<open>The rows of the query in the order in which the engine yields them: any order, as the ids are ranked by an argument.\<close>

definition symbol_rows :: "link_io \<Rightarrow> hbr \<Rightarrow> (int \<times> symbol_row) list" where
  "symbol_rows lio db = sort_key (\<lambda>(i, r). li_order lio i) (symbols db)"

definition buildSymbolLookup :: "link_io \<Rightarrow> hbr \<Rightarrow> link_error + (string, int) gomap \<times> (int, string) gomap" where
  "buildSymbolLookup lio db =
     (if \<not> li_query lio then Inl L_query
      else bind_result (scan_symbols lio db (symbol_rows lio db) ([], []))
        (\<lambda>(nameEntry, usrByID).
           if \<not> li_rows lio then Inl L_rows
           else Inr (foldl (\<lambda>out (n, e). gput n (ne_id e) out) [] nameEntry, usrByID)))"

definition indexMapFiles :: "BuildDir \<Rightarrow> (string, string) gomap" where
  "indexMapFiles bd = foldl (\<lambda>out m. gput (TrimSuffix (Base m) ''.map'') m out) [] (bd_LinkerMaps bd)"

definition rel_def :: "string \<Rightarrow> ObjectDef \<Rightarrow> ObjectDef" where
  "rel_def root e = e\<lparr>od_Object := (case Rel root (od_Object e) of None \<Rightarrow> od_Object e | Some rel \<Rightarrow> rel)\<rparr>"

definition scanBuilddirObjectDefs :: "link_io \<Rightarrow> BuildDir \<Rightarrow> link_error + (string, ObjectDef list) gomap" where
  "scanBuilddirObjectDefs lio bd =
     (case ScanObjectDefs (li_nm lio) (map oa_Object (bd_Objects bd)) of
        Inl e \<Rightarrow> Inl (L_scan_objects e)
      | Inr absDefs \<Rightarrow>
          Inr (foldl (\<lambda>out (name, entries).
                 foldl (\<lambda>out e. gput name (gget_or [] out name @ [rel_def (bd_Root bd) e]) out) out entries) [] absDefs))"

section \<open>Resolution of one symbol\<close>

definition resolveStaticViaObject ::
  "NMSymbol \<Rightarrow> string \<Rightarrow> (string, string) gomap \<Rightarrow> (string, int) gomap \<Rightarrow> int option" where
  "resolveStaticViaObject s obj objectToSource usrToID =
     (if obj = [] then None
      else case gget objectToSource obj of
             None \<Rightarrow> None
           | Some src \<Rightarrow>
               gget usrToID
                 (if nm_Kind s = ''d'' \<or> nm_Kind s = ''b'' \<or> nm_Kind s = ''r'' then Variable_usr src (nm_Name s)
                  else Function_usr src (nm_Name s)))"

definition mapObjectFor :: "MapFile option \<Rightarrow> string \<Rightarrow> string" where
  "mapObjectFor mf name = (case mf of None \<Rightarrow> [] | Some m \<Rightarrow> gget_or [] (mf_SymbolOrigin m) name)"

definition resolveNMSymbol ::
  "NMSymbol \<Rightarrow> MapFile option \<Rightarrow> (string, ObjectDef list) gomap \<Rightarrow> (string, string) gomap \<Rightarrow>
   (string, int) gomap \<Rightarrow> (string, int) gomap \<Rightarrow> int option" where
  "resolveNMSymbol s mf defsByName objectToSource usrToID nameToID =
     (if \<not> Local s then gget nameToID (nm_Name s)
      else case resolveStaticViaObject s (mapObjectFor mf (nm_Name s)) objectToSource usrToID of
             Some i \<Rightarrow> Some i
           | None \<Rightarrow>
               (case gget_or [] defsByName (nm_Name s) of
                  [d] \<Rightarrow>
                    (case resolveStaticViaObject s (od_Object d) objectToSource usrToID of
                       Some i \<Rightarrow> Some i
                     | None \<Rightarrow> gget nameToID (nm_Name s))
                | _ \<Rightarrow> gget nameToID (nm_Name s)))"

definition addr_entry ::
  "MapFile option \<Rightarrow> (string, ObjectDef list) gomap \<Rightarrow> (string, string) gomap \<Rightarrow>
   (string, int) gomap \<Rightarrow> (string, int) gomap \<Rightarrow> NMSymbol \<Rightarrow> (nat \<times> int) option" where
  "addr_entry mf defsByName objectToSource usrToID nameToID s =
     (if \<not> IsFunction s \<or> nm_Address s = [] then None
      else case ParseUint 16 (nm_Address s) of
             (addr, ok) \<Rightarrow>
               if \<not> ok then None
               else map_option (Pair addr) (resolveNMSymbol s mf defsByName objectToSource usrToID nameToID))"

definition buildAddrIndex ::
  "NMSymbol list \<Rightarrow> MapFile option \<Rightarrow> (string, ObjectDef list) gomap \<Rightarrow> (string, string) gomap \<Rightarrow>
   (string, int) gomap \<Rightarrow> (string, int) gomap \<Rightarrow> (nat, int) gomap" where
  "buildAddrIndex syms mf defsByName objectToSource usrToID nameToID =
     foldl (\<lambda>out s. case addr_entry mf defsByName objectToSource usrToID nameToID s of
                      None \<Rightarrow> out
                    | Some (addr, i) \<Rightarrow> gput addr i out) [] syms"

section \<open>Winners and losers\<close>

definition object_rank :: "string \<Rightarrow> int" where
  "object_rank kind =
     (if kind \<in> {''T'', ''D'', ''B'', ''R''} then 3
      else if kind \<in> {''W'', ''V''} then 2
      else if kind = ''C'' then 1
      else if length kind = 1 \<and> CHR ''a'' \<le> hd kind \<and> hd kind \<le> CHR ''z'' then 0
      else - 1)"

definition pickWinningObject :: "ObjectDef list \<Rightarrow> string" where
  "pickWinningObject cands =
     (if cands = [] then []
      else od_Object (hd (sort_key (\<lambda>c. (- object_rank (od_Kind c), od_Object c)) cands)))"

fun losing_loop :: "string \<Rightarrow> ObjectDef list \<Rightarrow> (string, bool) gomap \<Rightarrow> string list \<Rightarrow> string list" where
  "losing_loop winner [] seen losers = losers"
| "losing_loop winner (c # cs) seen losers =
     (if od_Object c = winner \<or> gget_or False seen (od_Object c) then losing_loop winner cs seen losers
      else losing_loop winner cs (gput (od_Object c) True seen) (losers @ [od_Object c]))"

definition collectLosingObjects :: "ObjectDef list \<Rightarrow> string \<Rightarrow> string list" where
  "collectLosingObjects cands winner = sort (losing_loop winner cands [] [])"

section \<open>The rows of one binary\<close>

definition winning_object :: "MapFile option \<Rightarrow> (string, ObjectDef list) gomap \<Rightarrow> string \<Rightarrow> string" where
  "winning_object mf defsByName name =
     (let fromMap = mapObjectFor mf name
      in if fromMap = [] then pickWinningObject (gget_or [] defsByName name) else fromMap)"

definition resolution_row_of ::
  "int \<Rightarrow> MapFile option \<Rightarrow> (string, ObjectDef list) gomap \<Rightarrow> (int, string) gomap \<Rightarrow> NMSymbol \<Rightarrow> int \<Rightarrow> resolution_row" where
  "resolution_row_of targetID mf defsByName usrByID s symID =
     (let winningObj = winning_object mf defsByName (nm_Name s)
      in \<lparr>lr_target_id = targetID, lr_usr = gget_or [] usrByID symID, lr_winning_object = winningObj,
          lr_linkage_kind = LinkageKind s,
          lr_losing_objects = collectLosingObjects (gget_or [] defsByName (nm_Name s)) winningObj,
          lr_archive = (if winningObj \<noteq> [] then ArchiveFor winningObj else [])\<rparr>)"

fun insert_resolutions ::
  "tx_io \<Rightarrow> (NMSymbol \<Rightarrow> int option) \<Rightarrow> (NMSymbol \<Rightarrow> int \<Rightarrow> resolution_row) \<Rightarrow> NMSymbol list \<Rightarrow> hbr \<times> int \<Rightarrow>
   link_error + hbr \<times> int" where
  "insert_resolutions io resolve row [] st = Inr st"
| "insert_resolutions io resolve row (s # ss) st =
     (if LinkageKind s = [] then insert_resolutions io resolve row ss st
      else case resolve s of
             None \<Rightarrow> insert_resolutions io resolve row ss st
           | Some symID \<Rightarrow>
               (case exec io (fst st) (Ins_resolution (row s symID)) of
                  None \<Rightarrow> Inl (L_resolution (nm_Name s))
                | Some (db', _) \<Rightarrow> insert_resolutions io resolve row ss (db', snd st + 1)))"

definition edge_ends :: "(nat, int) gomap \<Rightarrow> (string, int) gomap \<Rightarrow> ObjdumpEdge \<Rightarrow> (int \<times> int) option" where
  "edge_ends addrToID nameToID e =
     (case (case gget addrToID (ode_CallerAddr e) of Some i \<Rightarrow> Some i | None \<Rightarrow> gget nameToID (ode_Caller e)) of
        None \<Rightarrow> None
      | Some callerID \<Rightarrow>
          (case (case gget addrToID (ode_CalleeAddr e) of Some i \<Rightarrow> Some i | None \<Rightarrow> gget nameToID (CalleeStripped e)) of
             None \<Rightarrow> None
           | Some calleeID \<Rightarrow> Some (callerID, calleeID)))"

definition objdump_edge :: "int \<Rightarrow> int \<times> int \<Rightarrow> edge_row" where
  "objdump_edge targetID k =
     \<lparr>ce_caller_id = fst k, ce_callee_id = snd k, ce_source = ''objdump'', ce_target_id = Some targetID\<rparr>"

fun insert_objdump ::
  "tx_io \<Rightarrow> int \<Rightarrow> (ObjdumpEdge \<Rightarrow> (int \<times> int) option) \<Rightarrow> ObjdumpEdge list \<Rightarrow> (int \<times> int, bool) gomap \<Rightarrow> hbr \<times> int \<Rightarrow>
   link_error + hbr \<times> int" where
  "insert_objdump io targetID ends [] seen st = Inr st"
| "insert_objdump io targetID ends (e # es) seen st =
     (case ends e of
        None \<Rightarrow> insert_objdump io targetID ends es seen st
      | Some k \<Rightarrow>
          if gget_or False seen k then insert_objdump io targetID ends es seen st
          else (case exec io (fst st) (Ins_edge (objdump_edge targetID k)) of
                  None \<Rightarrow> Inl L_edge
                | Some (db', _) \<Rightarrow> insert_objdump io targetID ends es (gput k True seen) (db', snd st + 1)))"

section \<open>The pass\<close>

record LinkSummary =
  ls_LinkResolutions :: int
  ls_ObjdumpEdges :: int

text \<open>The tables the pass computes before its loop over the targets.\<close>

record link_tables =
  lt_nameToID :: "(string, int) gomap"
  lt_usrByID :: "(int, string) gomap"
  lt_usrToID :: "(string, int) gomap"
  lt_mapByTarget :: "(string, string) gomap"
  lt_defsByName :: "(string, ObjectDef list) gomap"
  lt_objectToSource :: "(string, string) gomap"

definition target_map :: "link_io \<Rightarrow> link_tables \<Rightarrow> string \<Rightarrow> link_error + MapFile option" where
  "target_map lio lt name =
     (let p = gget_or [] (lt_mapByTarget lt) name
      in if p = [] then Inr None
         else case ReadMap (li_map lio p) of
                None \<Rightarrow> Inl (L_map p)
              | Some (mf, failed) \<Rightarrow> if failed then Inl (L_map p) else Inr (Some mf))"

definition resolve_in :: "link_tables \<Rightarrow> MapFile option \<Rightarrow> NMSymbol \<Rightarrow> int option" where
  "resolve_in lt mf s =
     resolveNMSymbol s mf (lt_defsByName lt) (lt_objectToSource lt) (lt_usrToID lt) (lt_nameToID lt)"

definition addr_index :: "link_tables \<Rightarrow> MapFile option \<Rightarrow> NMSymbol list \<Rightarrow> (nat, int) gomap" where
  "addr_index lt mf syms =
     buildAddrIndex syms mf (lt_defsByName lt) (lt_objectToSource lt) (lt_usrToID lt) (lt_nameToID lt)"

definition link_binary ::
  "tx_io \<Rightarrow> link_io \<Rightarrow> link_tables \<Rightarrow> string \<Rightarrow> string \<Rightarrow> int \<Rightarrow> hbr \<times> LinkSummary \<Rightarrow> link_error + hbr \<times> LinkSummary" where
  "link_binary io lio lt name binary targetID st =
     (case RunNMDefined (li_nm lio) binary of
        Inl e \<Rightarrow> Inl (L_nm e)
      | Inr syms \<Rightarrow>
          bind_result (target_map lio lt name) (\<lambda>mf.
          bind_result
            (insert_resolutions io (resolve_in lt mf)
               (resolution_row_of targetID mf (lt_defsByName lt) (lt_usrByID lt)) syms (fst st, ls_LinkResolutions (snd st)))
            (\<lambda>(db1, n).
               case RunObjdump (li_objdump lio) binary of
                 None \<Rightarrow> Inl (L_objdump binary)
               | Some edges \<Rightarrow>
                   bind_result
                     (insert_objdump io targetID (edge_ends (addr_index lt mf syms) (lt_nameToID lt)) edges []
                        (db1, ls_ObjdumpEdges (snd st)))
                     (\<lambda>(db2, k). Inr (db2, \<lparr>ls_LinkResolutions = n, ls_ObjdumpEdges = k\<rparr>)))))"

text \<open>The binary and the row of a target that is inspected; every other target is skipped.\<close>

definition linked :: "(string, int) gomap \<Rightarrow> Target \<Rightarrow> (string \<times> int) option" where
  "linked targetIDs t =
     (if tg_Kind t \<noteq> ''executable'' \<and> tg_Kind t \<noteq> ''shared_library'' then None
      else case tg_Filenames t of
             [] \<Rightarrow> None
           | binary # _ \<Rightarrow> map_option (Pair binary) (gget targetIDs (tg_Name t)))"

fun link_targets ::
  "tx_io \<Rightarrow> link_io \<Rightarrow> link_tables \<Rightarrow> (string, int) gomap \<Rightarrow> Target list \<Rightarrow> hbr \<times> LinkSummary \<Rightarrow>
   link_error + hbr \<times> LinkSummary" where
  "link_targets io lio lt targetIDs [] st = Inr st"
| "link_targets io lio lt targetIDs (t # ts) st =
     (case linked targetIDs t of
        None \<Rightarrow> link_targets io lio lt targetIDs ts st
      | Some (binary, targetID) \<Rightarrow>
          bind_result (link_binary io lio lt (tg_Name t) binary targetID st) (link_targets io lio lt targetIDs ts))"

definition invert_usrs :: "(int, string) gomap \<Rightarrow> (string, int) gomap" where
  "invert_usrs usrByID = foldl (\<lambda>out (i, u). gput u i out) [] usrByID"

definition Link ::
  "tx_io \<Rightarrow> link_io \<Rightarrow> hbr \<Rightarrow> BuildDir \<Rightarrow> Introspection \<Rightarrow> (string, int) gomap \<Rightarrow> (string, string) gomap \<Rightarrow>
   hbr \<times> (link_error + LinkSummary)" where
  "Link io lio db bd intro targetIDs objectToSource =
     (case buildSymbolLookup lio db of
        Inl e \<Rightarrow> (db, Inl e)
      | Inr (nameToID, usrByID) \<Rightarrow>
          if \<not> tx_begin io then (db, Inl L_begin)
          else if \<not> tx_prepare io ''link_resolutions'' then (db, Inl (L_prepare ''link_resolutions''))
          else if \<not> tx_prepare io ''call_edges'' then (db, Inl (L_prepare ''call_edges''))
          else (case scanBuilddirObjectDefs lio bd of
                  Inl e \<Rightarrow> (db, Inl e)
                | Inr defsByName \<Rightarrow>
                    (case link_targets io lio
                            \<lparr>lt_nameToID = nameToID, lt_usrByID = usrByID, lt_usrToID = invert_usrs usrByID,
                             lt_mapByTarget = indexMapFiles bd, lt_defsByName = defsByName, lt_objectToSource = objectToSource\<rparr>
                            targetIDs (sort_key tg_Name (in_Targets intro))
                            (db, \<lparr>ls_LinkResolutions = 0, ls_ObjdumpEdges = 0\<rparr>) of
                       Inl e \<Rightarrow> (db, Inl e)
                     | Inr (view, sm) \<Rightarrow> if tx_commit io then (view, Inr sm) else (db, Inl L_commit))))"

section \<open>What the lookup tables hold\<close>

definition carries :: "string \<Rightarrow> symbol_row \<Rightarrow> bool" where
  "carries n r \<longleftrightarrow> n \<noteq> [] \<and> (n = sy_name r \<or> (case sy_linkage_names r of None \<Rightarrow> False | Some ns \<Rightarrow> n \<in> set ns))"

text \<open>The first row with the name that has a definition; the first row with the name when none has.\<close>

definition chosen :: "hbr \<Rightarrow> (int \<times> symbol_row) list \<Rightarrow> string \<Rightarrow> int option" where
  "chosen db rows n =
     (let cs = map fst (filter (\<lambda>ir. carries n (snd ir)) rows)
      in case find (has_definition db) cs of
           Some i \<Rightarrow> Some i
         | None \<Rightarrow> (if cs = [] then None else Some (hd cs)))"

definition better :: "name_entry option \<Rightarrow> name_entry \<Rightarrow> name_entry" where
  "better cur e = (case cur of None \<Rightarrow> e | Some c \<Rightarrow> if \<not> ne_hasDef c \<and> ne_hasDef e then e else c)"

lemma gget_put_name:
  "gget (put_name n e m) k = (if k = n \<and> n \<noteq> [] then Some (better (gget m n) e) else gget m k)"
  by (auto simp: put_name_def better_def split: option.splits)

lemma better_idem: "better (Some (better c e)) e = better c e"
  by (auto simp: better_def split: option.splits)

lemma gget_put_names:
  "gget (foldl (\<lambda>m n. put_name n e m) m ns) k =
     (if k \<noteq> [] \<and> k \<in> set ns then Some (better (gget m k) e) else gget m k)"
  by (induction ns arbitrary: m) (auto simp: gget_put_name better_idem)

definition entry_of :: "hbr \<Rightarrow> int \<Rightarrow> name_entry" where
  "entry_of db i = \<lparr>ne_id = i, ne_hasDef = has_definition db i\<rparr>"

lemma chosen_snoc:
  "map_option (entry_of db) (chosen db (rows @ [(i, r)]) n) =
     (if carries n r then Some (better (map_option (entry_of db) (chosen db rows n)) (entry_of db i))
      else map_option (entry_of db) (chosen db rows n))"
proof -
  let ?cs = "map fst (filter (\<lambda>ir. carries n (snd ir)) rows)"
  have find_snoc: "find P (xs @ [x]) = (case find P xs of None \<Rightarrow> if P x then Some x else None | Some y \<Rightarrow> Some y)" for P xs and x :: int
    by (induction xs) auto
  have found: "find P xs = Some y \<Longrightarrow> P y" for P xs and y :: int by (auto simp: find_Some_iff)
  have hd_no: "find P xs = None \<Longrightarrow> xs \<noteq> [] \<Longrightarrow> \<not> P (hd xs)" for P and xs :: "int list" by (cases xs) (auto split: if_splits)
  show ?thesis
    using found [of "has_definition db" ?cs] hd_no [of "has_definition db" ?cs]
    by (cases "find (has_definition db) ?cs"; cases "?cs = []")
      (simp_all add: chosen_def Let_def find_snoc better_def entry_of_def)
qed

lemma scan_symbols_names:
  assumes "scan_symbols lio db rows st = Inr st'"
    and "\<And>n. gget (fst st) n = map_option (entry_of db) (chosen db pre n)"
  shows "gget (fst st') n = map_option (entry_of db) (chosen db (pre @ rows) n)"
  using assms
proof (induction rows arbitrary: st pre)
  case (Cons ir rows)
  obtain i r where ir: "ir = (i, r)" by fastforce
  let ?ns = "sy_name r # (case sy_linkage_names r of None \<Rightarrow> [] | Some ns \<Rightarrow> ns)"
  let ?m = "foldl (\<lambda>m n. put_name n (entry_of db i) m) (fst st) ?ns"
  from Cons.prems(1) have rest: "scan_symbols lio db rows (?m, gput i (sy_usr r) (snd st)) = Inr st'"
    by (auto simp: ir entry_of_def Let_def split: if_splits)
  have car: "carries n r \<longleftrightarrow> n \<noteq> [] \<and> n \<in> set ?ns" for n by (auto simp: carries_def split: option.splits)
  have "gget ?m n = map_option (entry_of db) (chosen db (pre @ [ir]) n)" for n
    unfolding gget_put_names car [symmetric] ir chosen_snoc by (auto simp: Cons.prems(2))
  from Cons.IH [OF rest, of "pre @ [ir]"] this show ?case by simp
qed simp

lemma scan_symbols_usrs:
  "scan_symbols lio db rows st = Inr st' \<Longrightarrow> distinct (ids rows) \<Longrightarrow>
   gget (snd st') i = (case map_of rows i of Some r \<Rightarrow> Some (sy_usr r) | None \<Rightarrow> gget (snd st) i)"
proof (induction rows arbitrary: st)
  case (Cons ir rows)
  obtain j r where ir: "ir = (j, r)" by fastforce
  from Cons.prems(1) obtain m where rest: "scan_symbols lio db rows (m, gput j (sy_usr r) (snd st)) = Inr st'"
    by (auto simp: ir Let_def split: if_splits)
  have "map_of rows j = None" using Cons.prems(2) by (auto simp: ir ids_def map_of_eq_None_iff)
  with Cons.IH [OF rest] Cons.prems(2) show ?case by (auto simp: ir split: option.splits)
qed simp

lemma scan_symbols_maps:
  "scan_symbols lio db rows st = Inr st' \<Longrightarrow> gmap_ok (fst st) \<Longrightarrow> gmap_ok (snd st) \<Longrightarrow> gmap_ok (fst st') \<and> gmap_ok (snd st')"
proof (induction rows arbitrary: st)
  case (Cons ir rows)
  obtain j r where ir: "ir = (j, r)" by fastforce
  have ok: "gmap_ok (foldl (\<lambda>m n. put_name n e m) m ns)" if "gmap_ok m" for e m ns
    using that by (induction ns arbitrary: m) (auto simp: put_name_def split: option.splits)
  from Cons.prems(1) obtain e ns where
    rest: "scan_symbols lio db rows (foldl (\<lambda>m n. put_name n e m) (fst st) ns, gput j (sy_usr r) (snd st)) = Inr st'"
    by (auto simp: ir Let_def simp del: foldl_Cons split: if_splits)
  from Cons.IH [OF rest] ok Cons.prems(2,3) show ?case by simp
qed simp

lemma gget_foldl_gput:
  "distinct (map (\<lambda>kv. f (fst kv) (snd kv)) kvs) \<Longrightarrow>
   gget (foldl (\<lambda>out (k, v). gput (f k v) (g k v) out) m kvs) x = Some y \<longleftrightarrow>
   (\<exists>k v. (k, v) \<in> set kvs \<and> f k v = x \<and> g k v = y) \<or>
   (gget m x = Some y \<and> x \<notin> set (map (\<lambda>kv. f (fst kv) (snd kv)) kvs))"
proof (induction kvs arbitrary: m)
  case (Cons kv kvs)
  obtain k v where kv: "kv = (k, v)" by fastforce
  from Cons.IH [of "gput (f k v) (g k v) m"] Cons.prems show ?case
    by (auto simp: kv image_iff)
qed simp

lemma map_of_iff_set: "distinct (ids rows) \<Longrightarrow> map_of rows i = Some r \<longleftrightarrow> (i, r) \<in> set rows"
  by (simp add: ids_def)

lemma symbol_rows_set: "set (symbol_rows lio db) = set (symbols db)"
  by (simp add: symbol_rows_def)

lemma symbol_rows_ids: "distinct (ids (symbol_rows lio db)) \<longleftrightarrow> distinct (ids (symbols db))"
proof -
  have "mset (ids (symbol_rows lio db)) = mset (ids (symbols db))" by (simp add: ids_def symbol_rows_def mset_map)
  then show ?thesis by (rule mset_eq_imp_distinct_iff)
qed

lemma buildSymbolLookup_tables:
  assumes ok: "hbr_ok db" and l: "buildSymbolLookup lio db = Inr (nameToID, usrByID)"
  shows "gget nameToID n = chosen db (symbol_rows lio db) n"
    and "gget usrByID i = Some u \<longleftrightarrow> (\<exists>r. (i, r) \<in> set (symbols db) \<and> sy_usr r = u)"
    and "gget (invert_usrs usrByID) u = Some i \<longleftrightarrow> (\<exists>r. (i, r) \<in> set (symbols db) \<and> sy_usr r = u)"
proof -
  from l obtain ne where sc: "scan_symbols lio db (symbol_rows lio db) ([], []) = Inr (ne, usrByID)"
    and n2i: "nameToID = foldl (\<lambda>out (n, e). gput n (ne_id e) out) [] ne"
    by (auto simp: buildSymbolLookup_def bind_result_Inr_iff split: if_splits)
  have oks: "gmap_ok ne" "gmap_ok usrByID" using scan_symbols_maps [OF sc] by auto
  have d: "distinct (ids (symbols db))" "distinct (map (sy_usr \<circ> snd) (symbols db))" using ok by (auto simp: hbr_ok_def)
  have d': "distinct (ids (symbol_rows lio db))" using d(1) by (simp add: symbol_rows_ids)
  have entry: "gget ne n = map_option (entry_of db) (chosen db (symbol_rows lio db) n)"
    using scan_symbols_names [OF sc, of "[]"] by (simp add: chosen_def)
  have "gget nameToID n = Some j \<longleftrightarrow> chosen db (symbol_rows lio db) n = Some j" for j
  proof -
    have "gget nameToID n = Some j \<longleftrightarrow> (\<exists>e. (n, e) \<in> set ne \<and> ne_id e = j)"
      unfolding n2i using gget_foldl_gput [of "\<lambda>k v. k" ne "\<lambda>k v. ne_id v" "[]" n j] oks(1) by (simp add: gmap_ok_def gkeys_def)
    also have "\<dots> \<longleftrightarrow> (\<exists>e. gget ne n = Some e \<and> ne_id e = j)" using oks(1) by (auto dest: in_set_gget gget_in_set)
    also have "\<dots> \<longleftrightarrow> chosen db (symbol_rows lio db) n = Some j" by (auto simp: entry entry_of_def)
    finally show ?thesis .
  qed
  then show "gget nameToID n = chosen db (symbol_rows lio db) n"
    by (metis not_Some_eq)
  have u: "gget usrByID i = Some u \<longleftrightarrow> (\<exists>r. (i, r) \<in> set (symbols db) \<and> sy_usr r = u)" for i u
    using scan_symbols_usrs [OF sc d', of i] by (simp add: map_of_iff_set [OF d', symmetric] symbol_rows_set [of lio db, symmetric] split: option.splits)
  then show "gget usrByID i = Some u \<longleftrightarrow> (\<exists>r. (i, r) \<in> set (symbols db) \<and> sy_usr r = u)" .
  have mem: "(i, u) \<in> set usrByID \<longleftrightarrow> (\<exists>r. (i, r) \<in> set (symbols db) \<and> sy_usr r = u)" for i u
    using u oks(2) by (metis gget_in_set in_set_gget)
  have "inj_on snd (set usrByID)"
  proof (rule inj_onI)
    fix x y assume xy: "x \<in> set usrByID" "y \<in> set usrByID" "snd x = snd y"
    obtain i u j where x: "x = (i, u)" and y: "y = (j, u)" using xy(3) by (metis prod.collapse)
    from xy mem x y obtain r r' where "(i, r) \<in> set (symbols db)" "(j, r') \<in> set (symbols db)" "sy_usr r = sy_usr r'" by metis
    with d(2) have "(i, r) = (j, r')"
      using inj_onD [of "sy_usr \<circ> snd" "set (symbols db)" "(i, r)" "(j, r')"] by (simp add: distinct_map)
    then show "x = y" by (simp add: x y)
  qed
  moreover have "distinct usrByID" using oks(2) by (simp add: gmap_ok_def gkeys_def distinct_map)
  ultimately have "distinct (map snd usrByID)" by (simp add: distinct_map)
  then show "gget (invert_usrs usrByID) u = Some i \<longleftrightarrow> (\<exists>r. (i, r) \<in> set (symbols db) \<and> sy_usr r = u)"
    using gget_foldl_gput [of "\<lambda>k v. v" usrByID "\<lambda>k v. k" "[]" u i] by (simp add: invert_usrs_def mem)
qed

section \<open>Winners and losers of a name\<close>

lemma losing_loop_set:
  "(\<And>c. gget_or False seen c \<longleftrightarrow> c \<in> set losers) \<Longrightarrow> distinct losers \<Longrightarrow>
   distinct (losing_loop winner cs seen losers) \<and>
   set (losing_loop winner cs seen losers) = set losers \<union> (od_Object ` set cs - {winner})"
proof (induction cs arbitrary: seen losers)
  case (Cons c cs)
  show ?case
  proof (cases "od_Object c = winner \<or> gget_or False seen (od_Object c)")
    case True
    with Cons.IH [OF Cons.prems] Cons.prems(1) show ?thesis by auto
  next
    case False
    have "gget_or False (gput (od_Object c) True seen) x \<longleftrightarrow> x \<in> set (losers @ [od_Object c])" for x
      using Cons.prems(1) [of x] by (auto simp: gget_or_def)
    moreover have "distinct (losers @ [od_Object c])" using False Cons.prems by auto
    ultimately show ?thesis using Cons.IH [of "gput (od_Object c) True seen" "losers @ [od_Object c]"] False by auto
  qed
qed simp

text \<open>
  Among the objects that define a name, the winner is an object of the highest class of definition, the
  first such object in path order, and the losers are exactly the other objects, each once and sorted. The
  winner of no candidates is the empty path.
\<close>

theorem winner_and_losers:
  "pickWinningObject [] = [] \<and>
   (cands \<noteq> [] \<longrightarrow>
     (\<exists>w \<in> set cands. pickWinningObject cands = od_Object w \<and>
        (\<forall>c \<in> set cands. object_rank (od_Kind c) \<le> object_rank (od_Kind w) \<and>
           (object_rank (od_Kind c) = object_rank (od_Kind w) \<longrightarrow> od_Object w \<le> od_Object c)))) \<and>
   sorted_wrt (<) (collectLosingObjects cands winner) \<and>
   set (collectLosingObjects cands winner) = od_Object ` set cands - {winner}"
proof -
  let ?key = "\<lambda>c. (- object_rank (od_Kind c), od_Object c)"
  have ll: "distinct (losing_loop winner cands [] [])" "set (losing_loop winner cands [] []) = od_Object ` set cands - {winner}"
    using losing_loop_set [of "[]" "[]" winner cands] by (auto simp: gget_or_def)
  have "\<exists>w \<in> set cands. pickWinningObject cands = od_Object w \<and> (\<forall>c \<in> set cands. ?key w \<le> ?key c)" if "cands \<noteq> []"
  proof -
    from that obtain w ws where s: "sort_key ?key cands = w # ws" by (metis length_0_conv length_sort list.exhaust)
    then have "w \<in> set cands" "set cands = insert w (set ws)" by (metis list.set_intros(1) set_sort, metis list.simps(15) set_sort)
    moreover have "sorted (map ?key (w # ws))" using sorted_sort_key [of ?key cands] by (simp only: s)
    ultimately show ?thesis using that by (auto simp: pickWinningObject_def s)
  qed
  then have "cands \<noteq> [] \<Longrightarrow> \<exists>w \<in> set cands. pickWinningObject cands = od_Object w \<and>
      (\<forall>c \<in> set cands. object_rank (od_Kind c) \<le> object_rank (od_Kind w) \<and>
         (object_rank (od_Kind c) = object_rank (od_Kind w) \<longrightarrow> od_Object w \<le> od_Object c))"
    by (fastforce simp: less_eq_prod_def)
  then show ?thesis using ll by (simp add: pickWinningObject_def collectLosingObjects_def strict_sorted_iff)
qed

definition sample_cands :: "ObjectDef list" where
  "sample_cands =
     [\<lparr>od_Object = ''b.o'', od_Kind = ''W''\<rparr>, \<lparr>od_Object = ''z.o'', od_Kind = ''T''\<rparr>, \<lparr>od_Object = ''c.o'', od_Kind = ''T''\<rparr>]"

theorem winner_and_losers_witness:
  "(\<exists>w \<in> set sample_cands. pickWinningObject sample_cands = od_Object w) \<and> pickWinningObject sample_cands = ''c.o'' \<and>
   collectLosingObjects sample_cands ''c.o'' = [''b.o'', ''z.o'']"
proof -
  have "sample_cands \<noteq> []" by (simp add: sample_cands_def)
  with winner_and_losers [of sample_cands "''c.o''"]
  have "\<exists>w \<in> set sample_cands. pickWinningObject sample_cands = od_Object w" by blast
  moreover have "pickWinningObject sample_cands = ''c.o''" by code_simp
  moreover have "collectLosingObjects sample_cands ''c.o'' = [''b.o'', ''z.o'']" by code_simp
  ultimately show ?thesis by simp
qed

section \<open>What the pass writes\<close>

text \<open>The first occurrences of the elements of a list.\<close>

fun firsts :: "'a list \<Rightarrow> 'a list" where
  "firsts [] = []"
| "firsts (x # xs) = x # filter (\<lambda>y. y \<noteq> x) (firsts xs)"

lemma set_firsts [simp]: "set (firsts xs) = set xs"
  by (induction xs) auto

lemma distinct_firsts [simp]: "distinct (firsts xs)"
  by (induction xs) auto

text \<open>The rows a binary gives rise to, and the ends of its calls that are both known.\<close>

definition resolutions :: "(NMSymbol \<Rightarrow> int option) \<Rightarrow> (NMSymbol \<Rightarrow> int \<Rightarrow> resolution_row) \<Rightarrow> NMSymbol list \<Rightarrow> resolution_row list" where
  "resolutions resolve row syms =
     List.map_filter (\<lambda>s. if LinkageKind s = [] then None else map_option (row s) (resolve s)) syms"

lemma insert_resolutions_Inr:
  "insert_resolutions io resolve row ss st = Inr (db', n) \<Longrightarrow>
   db' = (fst st)\<lparr>link_resolutions := link_resolutions (fst st) @ resolutions resolve row ss\<rparr> \<and>
   n = snd st + int (length (resolutions resolve row ss))"
proof (induction ss arbitrary: st)
  case (Cons s ss)
  show ?case
  proof (cases "LinkageKind s = [] \<or> resolve s = None")
    case True
    with Cons.prems have "insert_resolutions io resolve row ss st = Inr (db', n)" by (auto split: if_splits)
    from Cons.IH [OF this] True show ?thesis by (auto simp: resolutions_def List.map_filter_simps)
  next
    case False
    then obtain i where i: "resolve s = Some i" by auto
    let ?db1 = "(fst st)\<lparr>link_resolutions := link_resolutions (fst st) @ [row s i]\<rparr>"
    from Cons.prems False i have "insert_resolutions io resolve row ss (?db1, snd st + 1) = Inr (db', n)"
      by (auto simp: exec_def split: if_splits)
    from Cons.IH [OF this] False i show ?thesis by (auto simp: resolutions_def List.map_filter_simps)
  qed
qed (simp add: resolutions_def List.map_filter_simps)

lemma insert_objdump_Inr:
  "insert_objdump io t ends es seen st = Inr (db', n) \<Longrightarrow>
   db' = (fst st)\<lparr>call_edges := call_edges (fst st) @
           map (objdump_edge t) (filter (\<lambda>k. \<not> gget_or False seen k) (firsts (List.map_filter ends es)))\<rparr> \<and>
   n = snd st + int (length (filter (\<lambda>k. \<not> gget_or False seen k) (firsts (List.map_filter ends es))))"
proof (induction es arbitrary: seen st)
  case (Cons e es)
  let ?F = "firsts (List.map_filter ends es)"
  show ?case
  proof (cases "ends e")
    case None
    with Cons.prems have "insert_objdump io t ends es seen st = Inr (db', n)" by simp
    from Cons.IH [OF this] None show ?thesis by (simp add: List.map_filter_simps)
  next
    case (Some k)
    show ?thesis
    proof (cases "gget_or False seen k")
      case True
      with Cons.prems Some have "insert_objdump io t ends es seen st = Inr (db', n)" by simp
      moreover have "filter (\<lambda>k. \<not> gget_or False seen k) (firsts (k # List.map_filter ends es)) =
          filter (\<lambda>k. \<not> gget_or False seen k) ?F" using True by (auto intro: filter_cong)
      ultimately show ?thesis using Cons.IH [of seen st] Some by (simp add: List.map_filter_simps)
    next
      case False
      let ?db1 = "(fst st)\<lparr>call_edges := call_edges (fst st) @ [objdump_edge t k]\<rparr>"
      from Cons.prems Some False have rest: "insert_objdump io t ends es (gput k True seen) (?db1, snd st + 1) = Inr (db', n)"
        by (auto simp: exec_def split: if_splits)
      have "filter (\<lambda>k'. \<not> gget_or False (gput k True seen) k') ?F =
          filter (\<lambda>k'. \<not> gget_or False seen k') (filter (\<lambda>y. y \<noteq> k) ?F)"
        by (auto simp: gget_or_def intro: filter_cong)
      then have "filter (\<lambda>k. \<not> gget_or False seen k) (firsts (k # List.map_filter ends es)) =
          k # filter (\<lambda>k'. \<not> gget_or False (gput k True seen) k') ?F" using False by simp
      then show ?thesis using Cons.IH [OF rest] Some by (simp add: List.map_filter_simps)
    qed
  qed
qed (simp add: List.map_filter_simps)

text \<open>The symbols, the map file and the disassembly of a binary, where the tools succeed.\<close>

definition symbols_of :: "link_io \<Rightarrow> string \<Rightarrow> NMSymbol list" where
  "symbols_of lio binary = (case RunNMDefined (li_nm lio) binary of Inl e \<Rightarrow> [] | Inr syms \<Rightarrow> syms)"

definition map_of_target :: "link_io \<Rightarrow> link_tables \<Rightarrow> string \<Rightarrow> MapFile option" where
  "map_of_target lio lt name = (case target_map lio lt name of Inl e \<Rightarrow> None | Inr mf \<Rightarrow> mf)"

definition calls_of :: "link_io \<Rightarrow> string \<Rightarrow> ObjdumpEdge list" where
  "calls_of lio binary = (case RunObjdump (li_objdump lio) binary of None \<Rightarrow> [] | Some es \<Rightarrow> es)"

definition binary_rows :: "link_io \<Rightarrow> link_tables \<Rightarrow> string \<times> string \<times> int \<Rightarrow> resolution_row list" where
  "binary_rows lio lt b =
     (case b of (name, binary, targetID) \<Rightarrow>
        let mf = map_of_target lio lt name
        in resolutions (resolve_in lt mf) (resolution_row_of targetID mf (lt_defsByName lt) (lt_usrByID lt)) (symbols_of lio binary))"

definition binary_calls :: "link_io \<Rightarrow> link_tables \<Rightarrow> string \<times> string \<times> int \<Rightarrow> (int \<times> int) list" where
  "binary_calls lio lt b =
     (case b of (name, binary, targetID) \<Rightarrow>
        List.map_filter (edge_ends (addr_index lt (map_of_target lio lt name) (symbols_of lio binary)) (lt_nameToID lt))
          (calls_of lio binary))"

definition binary_edges :: "link_io \<Rightarrow> link_tables \<Rightarrow> string \<times> string \<times> int \<Rightarrow> edge_row list" where
  "binary_edges lio lt b = map (objdump_edge (snd (snd b))) (firsts (binary_calls lio lt b))"

lemma link_binary_Inr:
  assumes "link_binary io lio lt name binary t (db, sm) = Inr (db', sm')"
  shows "db' = db\<lparr>link_resolutions := link_resolutions db @ binary_rows lio lt (name, binary, t),
                  call_edges := call_edges db @ binary_edges lio lt (name, binary, t)\<rparr>"
    and "ls_LinkResolutions sm' = ls_LinkResolutions sm + int (length (binary_rows lio lt (name, binary, t)))"
    and "ls_ObjdumpEdges sm' = ls_ObjdumpEdges sm + int (length (binary_edges lio lt (name, binary, t)))"
proof -
  from assms obtain syms mf db1 n es k where
    syms: "RunNMDefined (li_nm lio) binary = Inr syms" and mf: "target_map lio lt name = Inr mf"
    and r: "insert_resolutions io (resolve_in lt mf) (resolution_row_of t mf (lt_defsByName lt) (lt_usrByID lt)) syms
              (db, ls_LinkResolutions sm) = Inr (db1, n)"
    and es: "RunObjdump (li_objdump lio) binary = Some es"
    and e: "insert_objdump io t (edge_ends (addr_index lt mf syms) (lt_nameToID lt)) es [] (db1, ls_ObjdumpEdges sm) = Inr (db', k)"
    and sm': "sm' = \<lparr>ls_LinkResolutions = n, ls_ObjdumpEdges = k\<rparr>"
    by (auto simp: link_binary_def bind_result_Inr_iff split: sum.splits option.splits)
  note defs = binary_rows_def binary_edges_def binary_calls_def symbols_of_def map_of_target_def calls_of_def Let_def gget_or_def
  show "db' = db\<lparr>link_resolutions := link_resolutions db @ binary_rows lio lt (name, binary, t),
                  call_edges := call_edges db @ binary_edges lio lt (name, binary, t)\<rparr>"
    "ls_LinkResolutions sm' = ls_LinkResolutions sm + int (length (binary_rows lio lt (name, binary, t)))"
    "ls_ObjdumpEdges sm' = ls_ObjdumpEdges sm + int (length (binary_edges lio lt (name, binary, t)))"
    using insert_resolutions_Inr [OF r] insert_objdump_Inr [OF e] by (simp_all add: defs syms mf es sm')
qed

definition linked_binaries :: "(string, int) gomap \<Rightarrow> Target list \<Rightarrow> (string \<times> string \<times> int) list" where
  "linked_binaries targetIDs ts = List.map_filter (\<lambda>t. map_option (Pair (tg_Name t)) (linked targetIDs t)) ts"

lemma link_targets_Inr:
  "link_targets io lio lt m ts (db, sm) = Inr (db', sm') \<Longrightarrow>
   db' = db\<lparr>link_resolutions := link_resolutions db @ concat (map (binary_rows lio lt) (linked_binaries m ts)),
            call_edges := call_edges db @ concat (map (binary_edges lio lt) (linked_binaries m ts))\<rparr> \<and>
   ls_LinkResolutions sm' = ls_LinkResolutions sm + int (length (concat (map (binary_rows lio lt) (linked_binaries m ts)))) \<and>
   ls_ObjdumpEdges sm' = ls_ObjdumpEdges sm + int (length (concat (map (binary_edges lio lt) (linked_binaries m ts))))"
proof (induction ts arbitrary: db sm)
  case Nil
  then show ?case by (simp add: linked_binaries_def List.map_filter_simps)
next
  case (Cons t ts)
  show ?case
  proof (cases "linked m t")
    case None
    with Cons show ?thesis by (simp add: linked_binaries_def List.map_filter_simps)
  next
    case (Some bt)
    obtain b i where bt: "bt = (b, i)" by fastforce
    from Cons.prems Some obtain db1 sm1 where l: "link_binary io lio lt (tg_Name t) b i (db, sm) = Inr (db1, sm1)"
      and rest: "link_targets io lio lt m ts (db1, sm1) = Inr (db', sm')" by (auto simp: bt bind_result_Inr_iff)
    have lb: "linked_binaries m (t # ts) = (tg_Name t, b, i) # linked_binaries m ts"
      by (simp add: linked_binaries_def List.map_filter_simps Some bt)
    from Cons.IH [OF rest] link_binary_Inr [OF l] show ?thesis by (simp add: lb)
  qed
qed

section \<open>Frames of the loops\<close>

lemma insert_resolutions_keeps:
  "keeps {''link_resolutions''} P \<Longrightarrow> P (fst st) \<Longrightarrow> insert_resolutions io resolve row ss st = Inr st' \<Longrightarrow> P (fst st')"
proof (induction ss arbitrary: st)
  case (Cons s ss)
  have "P db1" if "exec io (fst st) (Ins_resolution x) = Some (db1, j)" for x db1 j
    using keeps_exec [OF Cons.prems(1,2) _ that] by simp
  with Cons.prems Cons.IH show ?case by (auto split: option.splits if_splits; blast)
qed simp

lemma insert_objdump_keeps:
  "keeps {''call_edges''} P \<Longrightarrow> P (fst st) \<Longrightarrow> insert_objdump io t ends es seen st = Inr st' \<Longrightarrow> P (fst st')"
proof (induction es arbitrary: seen st)
  case (Cons e es)
  have "P db1" if "exec io (fst st) (Ins_edge x) = Some (db1, j)" for x db1 j
    using keeps_exec [OF Cons.prems(1,2) _ that] by simp
  with Cons.prems Cons.IH show ?case by (auto split: option.splits if_splits; blast)
qed simp

lemma link_binary_keeps:
  assumes k: "keeps {''link_resolutions'', ''call_edges''} P" and "P (fst st)"
    and l: "link_binary io lio lt name binary t st = Inr st'"
  shows "P (fst st')"
proof -
  from l obtain syms mf db1 n es db2 k' where
    r: "insert_resolutions io (resolve_in lt mf) (resolution_row_of t mf (lt_defsByName lt) (lt_usrByID lt)) syms
          (fst st, ls_LinkResolutions (snd st)) = Inr (db1, n)"
    and e: "insert_objdump io t (edge_ends (addr_index lt mf syms) (lt_nameToID lt)) es [] (db1, ls_ObjdumpEdges (snd st)) = Inr (db2, k')"
    and st': "fst st' = db2"
    by (auto simp: link_binary_def bind_result_Inr_iff split: sum.splits option.splits)
  have "P db1" using insert_resolutions_keeps [where P = P, OF keeps_mono [OF k] _ r] assms(2) by simp
  then have "P db2" using insert_objdump_keeps [where P = P, OF keeps_mono [OF k] _ e] by simp
  then show ?thesis by (simp add: st')
qed

lemma link_targets_keeps:
  "keeps {''link_resolutions'', ''call_edges''} P \<Longrightarrow> P (fst st) \<Longrightarrow> link_targets io lio lt m ts st = Inr st' \<Longrightarrow> P (fst st')"
proof (induction ts arbitrary: st)
  case (Cons t ts)
  show ?case
  proof (cases "linked m t")
    case None
    with Cons.prems Cons.IH show ?thesis by simp
  next
    case (Some bt)
    obtain b i where bt: "bt = (b, i)" by fastforce
    from Cons.prems(3) Some obtain st1 where l: "link_binary io lio lt (tg_Name t) b i st = Inr st1"
      and rest: "link_targets io lio lt m ts st1 = Inr st'" by (auto simp: bt bind_result_Inr_iff)
    from Cons.IH [OF Cons.prems(1) link_binary_keeps [OF Cons.prems(1,2) l] rest] show ?thesis .
  qed
qed simp

section \<open>The pass as a whole\<close>

text \<open>The tables of a run, where the queries and the scan succeed.\<close>

definition tables_of :: "link_io \<Rightarrow> hbr \<Rightarrow> BuildDir \<Rightarrow> (string, string) gomap \<Rightarrow> link_tables \<Rightarrow> bool" where
  "tables_of lio db bd objectToSource lt \<longleftrightarrow>
     buildSymbolLookup lio db = Inr (lt_nameToID lt, lt_usrByID lt) \<and> lt_usrToID lt = invert_usrs (lt_usrByID lt) \<and>
     lt_mapByTarget lt = indexMapFiles bd \<and> scanBuilddirObjectDefs lio bd = Inr (lt_defsByName lt) \<and>
     lt_objectToSource lt = objectToSource"

lemma Link_Inr:
  assumes "Link io lio db bd intro m o2s = (db', Inr sm)"
  obtains lt where "tables_of lio db bd o2s lt"
    "link_targets io lio lt m (sort_key tg_Name (in_Targets intro)) (db, \<lparr>ls_LinkResolutions = 0, ls_ObjdumpEdges = 0\<rparr>) = Inr (db', sm)"
proof -
  from assms obtain n2i ubi defs where
    "buildSymbolLookup lio db = Inr (n2i, ubi)" "scanBuilddirObjectDefs lio bd = Inr defs"
    "link_targets io lio \<lparr>lt_nameToID = n2i, lt_usrByID = ubi, lt_usrToID = invert_usrs ubi, lt_mapByTarget = indexMapFiles bd,
        lt_defsByName = defs, lt_objectToSource = o2s\<rparr> m (sort_key tg_Name (in_Targets intro))
        (db, \<lparr>ls_LinkResolutions = 0, ls_ObjdumpEdges = 0\<rparr>) = Inr (db', sm)"
    by (auto simp: Link_def split: sum.splits if_splits prod.splits)
  then show ?thesis by (intro that [of "\<lparr>lt_nameToID = n2i, lt_usrByID = ubi, lt_usrToID = invert_usrs ubi,
      lt_mapByTarget = indexMapFiles bd, lt_defsByName = defs, lt_objectToSource = o2s\<rparr>"]) (simp_all add: tables_of_def)
qed

lemma Link_Inl: "Link io lio db bd intro m o2s = (db', Inl e) \<Longrightarrow> db' = db"
  by (auto simp: Link_def split: sum.splits if_splits prod.splits)

text \<open>Every id a name or a local symbol resolves to is that of a symbol row.\<close>

lemma chosen_known:
  assumes "chosen db rows n = Some i"
  shows "\<exists>r. (i, r) \<in> set rows"
proof -
  have found: "find P xs = Some y \<Longrightarrow> y \<in> set xs" for P xs and y :: int by (induction xs) (auto split: if_splits)
  have "i \<in> set cs" if "(case find P cs of Some j \<Rightarrow> Some j | None \<Rightarrow> if cs = [] then None else Some (hd cs)) = Some i" for P cs
    using that found [of P cs] by (cases "find P cs") (auto split: if_splits)
  from this [OF assms [unfolded chosen_def Let_def]] show ?thesis by auto
qed

lemma resolve_known:
  assumes "hbr_ok db" "tables_of lio db bd o2s lt" "resolve_in lt mf s = Some i"
  shows "\<exists>r. (i, r) \<in> set (symbols db) \<and> gget (lt_usrByID lt) i = Some (sy_usr r)"
proof -
  have l: "buildSymbolLookup lio db = Inr (lt_nameToID lt, lt_usrByID lt)" and u: "lt_usrToID lt = invert_usrs (lt_usrByID lt)"
    using assms(2) by (auto simp: tables_of_def)
  note t = buildSymbolLookup_tables [OF assms(1) l]
  have st: "resolveStaticViaObject s obj o2 (lt_usrToID lt) = Some i \<Longrightarrow> \<exists>r. (i, r) \<in> set (symbols db)" for obj o2
    by (cases "gget o2 obj") (auto simp: u resolveStaticViaObject_def t(3) simp del: gget_gput split: if_splits)
  have "gget (lt_nameToID lt) (nm_Name s) = Some i \<Longrightarrow> \<exists>r. (i, r) \<in> set (symbols db)"
    using chosen_known symbol_rows_set by (metis t(1))
  moreover have "gget (lt_nameToID lt) (nm_Name s) = Some i \<or> (\<exists>obj o2. resolveStaticViaObject s obj o2 (lt_usrToID lt) = Some i)"
    using assms(3) unfolding resolve_in_def resolveNMSymbol_def by (simp split: if_splits option.splits list.splits) blast+
  ultimately obtain r where "(i, r) \<in> set (symbols db)" using st by blast
  then show ?thesis using t(2) [of i "sy_usr r"] by blast
qed

text \<open>
  C13 What a successful run of \<open>Link\<close> leaves behind. Only two tables change. For every linked binary, in name
  order of the targets, each symbol with a linkage kind that resolves has one row, under the USR of a symbol
  of the index; and each pair of known ends of a call in the disassembly has one edge of the target, however
  often the call occurs, attributed by address before name. The summary counts both.
\<close>

theorem Link_writes:
  assumes "hbr_ok db" "Link io lio db bd intro targetIDs objectToSource = (db', Inr sm)"
  shows "\<exists>lt. tables_of lio db bd objectToSource lt \<and>
    (let bs = linked_binaries targetIDs (sort_key tg_Name (in_Targets intro));
         rows = concat (map (binary_rows lio lt) bs); edges = concat (map (binary_edges lio lt) bs)
     in db' = db\<lparr>link_resolutions := link_resolutions db @ rows, call_edges := call_edges db @ edges\<rparr> \<and>
        lr_usr ` set rows \<subseteq> set (map (sy_usr \<circ> snd) (symbols db)) \<and>
        (\<forall>b \<in> set bs. distinct (binary_edges lio lt b) \<and>
           set (binary_edges lio lt b) = objdump_edge (snd (snd b)) ` set (binary_calls lio lt b)) \<and>
        sm = \<lparr>ls_LinkResolutions = int (length rows), ls_ObjdumpEdges = int (length edges)\<rparr>)"
  using assms(2)
proof (rule Link_Inr)
  fix lt
  assume lt: "tables_of lio db bd objectToSource lt"
    and l: "link_targets io lio lt targetIDs (sort_key tg_Name (in_Targets intro))
              (db, \<lparr>ls_LinkResolutions = 0, ls_ObjdumpEdges = 0\<rparr>) = Inr (db', sm)"
  have rows: "lr_usr r \<in> set (map (sy_usr \<circ> snd) (symbols db))" if r: "r \<in> set (binary_rows lio lt b)" for r b
  proof -
    from r obtain mf s i t where i: "resolve_in lt mf s = Some i" and row: "r = resolution_row_of t mf (lt_defsByName lt) (lt_usrByID lt) s i"
      by (cases b) (auto simp: binary_rows_def resolutions_def Let_def List.map_filter_def split: if_splits)
    from resolve_known [OF assms(1) lt i] obtain y where "(i, y) \<in> set (symbols db)" "gget (lt_usrByID lt) i = Some (sy_usr y)" by blast
    then show ?thesis by (force simp: row resolution_row_of_def Let_def gget_or_def)
  qed
  have inj: "inj (objdump_edge t)" for t by (rule injI) (auto simp: objdump_edge_def prod_eq_iff)
  have "distinct (binary_edges lio lt b)" for b
    by (simp add: binary_edges_def distinct_map inj_on_subset [OF inj subset_UNIV])
  moreover have "set (binary_edges lio lt b) = objdump_edge (snd (snd b)) ` set (binary_calls lio lt b)" for b
    by (simp add: binary_edges_def)
  moreover have "lr_usr ` set (concat (map (binary_rows lio lt) bs)) \<subseteq> set (map (sy_usr \<circ> snd) (symbols db))" for bs
    using rows by (simp only: set_concat set_map) blast
  ultimately show ?thesis using lt link_targets_Inr [OF l] by (intro exI [of _ lt]) (simp add: Let_def)
qed

text \<open>A program of one file whose main function calls a static function twice.\<close>

definition sample_symbols :: "(int \<times> symbol_row) list" where
  "sample_symbols =
     [(1, \<lparr>sy_usr = ''c:@F@main'', sy_name = ''main'', sy_kind = ''function'', sy_linkage = ''external'',
           sy_signature = [], sy_address_taken = 0, sy_linkage_names = Some [''main'']\<rparr>),
      (2, \<lparr>sy_usr = ''c:m.c@F@go'', sy_name = ''go'', sy_kind = ''function'', sy_linkage = ''internal'',
           sy_signature = [], sy_address_taken = 0, sy_linkage_names = Some [''go'']\<rparr>)]"

definition sample_db :: hbr where
  "sample_db = fresh_hbr\<lparr>targets := [(1, \<lparr>t_name = ''app'', t_kind = ''executable'', t_link_command = []\<rparr>)], symbols := sample_symbols\<rparr>"

definition sample_nm :: string where
  "sample_nm = unlines [''main T 40 10'', ''go t 30 10'']"

definition sample_dis :: string where
  "sample_dis = unlines [''0040 <main>:'', ''  44: call 30 <go>'', ''  48: call 30 <go>'']"

definition sample_lio :: link_io where
  "sample_lio = \<lparr>li_query = True, li_order = (\<lambda>i. i), li_scan = (\<lambda>_. True), li_rows = True, li_nm = (\<lambda>_. Some sample_nm), li_map = (\<lambda>_. None),
     li_objdump = (\<lambda>_. Some (sample_dis, True))\<rparr>"

definition sample_build :: BuildDir where
  "sample_build = \<lparr>bd_Root = ''/b'',
     bd_Objects = [\<lparr>oa_Object = ''/b/app.p/m.c.o'', oa_CI = [], oa_Cgraph = [], oa_Inline = [], oa_ICF = [], oa_OptRecord = [], oa_Preprocessed = []\<rparr>],
     bd_LinkerMaps = []\<rparr>"

definition sample_target :: Target where
  "sample_target = \<lparr>tg_Name = ''app'', tg_ID = [], tg_Kind = ''executable'', tg_DefinedIn = [], tg_Filenames = [''/b/app''],
     tg_Sources = [], tg_Generated = [], tg_CompileParams = [], tg_CompilerCmd = None, tg_LinkCmd = None, tg_Installed = False, tg_Subproject = []\<rparr>"

definition sample_intro :: Introspection where
  "sample_intro = \<lparr>in_MesonVersion = [], in_SourceDir = [], in_BuildDir = [], in_Targets = [sample_target],
     in_CCompiler = zero_compiler, in_Dependencies = []\<rparr>"

definition sample_link :: "hbr \<times> (link_error + LinkSummary)" where
  "sample_link = Link working sample_lio sample_db sample_build sample_intro [(''app'', 1)] [(''app.p/m.c.o'', ''m.c'')]"

lemma sample_link_result:
  "\<exists>db' sm. sample_link = (db', Inr sm) \<and> sm = \<lparr>ls_LinkResolutions = 1, ls_ObjdumpEdges = 1\<rparr> \<and>
     call_edges db' = [objdump_edge 1 (1, 2)] \<and>
     link_resolutions db' = [\<lparr>lr_target_id = 1, lr_usr = ''c:@F@main'', lr_winning_object = ''app.p/m.c.o'',
       lr_linkage_kind = ''strong'', lr_losing_objects = [], lr_archive = []\<rparr>]"
proof -
  have "(case sample_link of (db', Inl e) \<Rightarrow> False | (db', Inr sm) \<Rightarrow> sm = \<lparr>ls_LinkResolutions = 1, ls_ObjdumpEdges = 1\<rparr> \<and>
     call_edges db' = [objdump_edge 1 (1, 2)] \<and>
     link_resolutions db' = [\<lparr>lr_target_id = 1, lr_usr = ''c:@F@main'', lr_winning_object = ''app.p/m.c.o'',
       lr_linkage_kind = ''strong'', lr_losing_objects = [], lr_archive = []\<rparr>])" by code_simp
  then show ?thesis by (auto split: prod.splits sum.splits)
qed

lemma sample_db_ok: "hbr_ok sample_db"
  by (simp add: hbr_ok_def sample_db_def sample_symbols_def fresh_hbr_def)

theorem Link_writes_witness:
  "\<exists>db' sm lt. sample_link = (db', Inr sm) \<and> length (link_resolutions db') = 1 \<and> length (call_edges db') = 1 \<and>
     link_resolutions db' = concat (map (binary_rows sample_lio lt) (linked_binaries [(''app'', 1)] [sample_target]))"
proof -
  obtain db' sm where r: "sample_link = (db', Inr sm)" "length (link_resolutions db') = 1" "length (call_edges db') = 1"
    using sample_link_result by auto
  from Link_writes [OF sample_db_ok r(1) [unfolded sample_link_def]] obtain lt where
    "db' = sample_db\<lparr>link_resolutions := link_resolutions sample_db @
        concat (map (binary_rows sample_lio lt) (linked_binaries [(''app'', 1)] (sort_key tg_Name (in_Targets sample_intro)))),
      call_edges := call_edges sample_db @
        concat (map (binary_edges sample_lio lt) (linked_binaries [(''app'', 1)] (sort_key tg_Name (in_Targets sample_intro))))\<rparr>"
    by (auto simp only: Let_def)
  then have "link_resolutions db' = concat (map (binary_rows sample_lio lt) (linked_binaries [(''app'', 1)] [sample_target]))"
    by (simp add: sample_db_def fresh_hbr_def sample_intro_def)
  with r show ?thesis by blast
qed

text \<open>
  The pass is all or nothing: after an error, of a tool, a file or a statement, the index is as it was, and
  after a success it has kept its integrity.
\<close>

theorem Link_integrity:
  assumes "hbr_ok db" "Link io lio db bd intro targetIDs objectToSource = (db', res)"
  shows "hbr_ok db' \<and> (\<forall>e. res = Inl e \<longrightarrow> db' = db)"
proof (cases res)
  case (Inl e)
  with assms Link_Inl show ?thesis by metis
next
  case (Inr sm)
  with assms(2) have "Link io lio db bd intro targetIDs objectToSource = (db', Inr sm)" by simp
  then have "hbr_ok db'"
    by (rule Link_Inr) (use link_targets_keeps [OF keeps_hbr_ok] assms(1) in fastforce)
  with Inr show ?thesis by simp
qed

theorem Link_integrity_witness:
  "(\<exists>db' sm. sample_link = (db', Inr sm) \<and> hbr_ok db' \<and> call_edges db' \<noteq> []) \<and>
   (\<exists>db'. Link working (sample_lio\<lparr>li_objdump := (\<lambda>_. None)\<rparr>) sample_db sample_build sample_intro [(''app'', 1)] [] =
      (db', Inl (L_objdump ''/b/app'')) \<and> db' = sample_db)"
proof -
  obtain db' sm where r: "sample_link = (db', Inr sm)" "call_edges db' \<noteq> []" using sample_link_result by auto
  have "hbr_ok db'" using Link_integrity [OF sample_db_ok r(1) [unfolded sample_link_def]] by simp
  moreover have "snd (Link working (sample_lio\<lparr>li_objdump := (\<lambda>_. None)\<rparr>) sample_db sample_build sample_intro [(''app'', 1)] []) =
      Inl (L_objdump ''/b/app'')" by code_simp
  ultimately show ?thesis using r
      Link_integrity [OF sample_db_ok, of working "sample_lio\<lparr>li_objdump := (\<lambda>_. None)\<rparr>" sample_build sample_intro "[(''app'', 1)]" "[]"]
    by (metis prod.collapse)
qed

text \<open>
  Whatever the order of the rows, a name goes to a row that carries it, and to one with a definition if there is one.
\<close>

lemma find_in: "find P xs = Some y \<Longrightarrow> y \<in> set xs \<and> P y"
  by (auto simp: find_Some_iff)

lemma chosen_sound:
  assumes "chosen db rows n = Some i"
  shows "\<exists>r. (i, r) \<in> set rows \<and> carries n r"
    and "(j, r') \<in> set rows \<Longrightarrow> carries n r' \<Longrightarrow> has_definition db j \<Longrightarrow> has_definition db i"
proof -
  let ?cs = "map fst (filter (\<lambda>ir. carries n (snd ir)) rows)"
  have c: "(case find (has_definition db) ?cs of Some j \<Rightarrow> Some j | None \<Rightarrow> if ?cs = [] then None else Some (hd ?cs)) = Some i"
    using assms unfolding chosen_def Let_def .
  have "i \<in> set ?cs"
  proof (cases "find (has_definition db) ?cs")
    case None
    then have "?cs \<noteq> []" "i = hd ?cs" using c by (auto split: if_splits)
    then show ?thesis using hd_in_set by blast
  qed (use c find_in [of "has_definition db" ?cs] in auto)
  then show "\<exists>r. (i, r) \<in> set rows \<and> carries n r" by auto
  assume j: "(j, r') \<in> set rows" "carries n r'" "has_definition db j"
  have "j \<in> set ?cs" using j(1,2) by force
  then obtain y where "find (has_definition db) ?cs = Some y" using j(3) by (cases "find (has_definition db) ?cs") (auto simp: find_None_iff)
  then show "has_definition db i" using c find_in [of "has_definition db" ?cs y] by simp
qed

lemma chosen_complete: "(j, r) \<in> set rows \<Longrightarrow> carries n r \<Longrightarrow> \<exists>i. chosen db rows n = Some i"
proof -
  assume "(j, r) \<in> set rows" "carries n r"
  then have "filter (\<lambda>ir. carries n (snd ir)) rows \<noteq> []" by (force simp: filter_empty_conv)
  then show ?thesis by (simp add: chosen_def Let_def split: option.split)
qed

lemma chosen_facts:
  "(chosen db (symbol_rows lio db) n \<noteq> None \<longleftrightarrow> (\<exists>(i, r) \<in> set (symbols db). carries n r)) \<and>
   (\<forall>i. chosen db (symbol_rows lio db) n = Some i \<longrightarrow> (\<exists>r. (i, r) \<in> set (symbols db) \<and> carries n r) \<and>
      ((\<exists>(j, r) \<in> set (symbols db). carries n r \<and> has_definition db j) \<longrightarrow> has_definition db i)) \<and>
   (\<forall>i. {j. \<exists>r. (j, r) \<in> set (symbols db) \<and> carries n r \<and> has_definition db j} = {i} \<longrightarrow>
      chosen db (symbol_rows lio db) n = Some i)"
proof (intro conjI allI impI)
  let ?rows = "symbol_rows lio db"
  note sound = chosen_sound [of db ?rows n, unfolded symbol_rows_set] and complete = chosen_complete [of _ _ ?rows n db, unfolded symbol_rows_set]
  show "(chosen db ?rows n \<noteq> None) = (\<exists>(i, r) \<in> set (symbols db). carries n r)" using sound(1) complete by fastforce
  fix i
  show "\<exists>r. (i, r) \<in> set (symbols db) \<and> carries n r" if "chosen db ?rows n = Some i" using sound(1) that by blast
  show "has_definition db i"
    if "chosen db ?rows n = Some i" "\<exists>(j, r) \<in> set (symbols db). carries n r \<and> has_definition db j" using sound(2) that by blast
  assume one: "{j. \<exists>r. (j, r) \<in> set (symbols db) \<and> carries n r \<and> has_definition db j} = {i}"
  then obtain r where r: "(i, r) \<in> set (symbols db)" "carries n r" "has_definition db i" by blast
  obtain k where k: "chosen db ?rows n = Some k" using complete [OF r(1,2)] by blast
  then have "k \<in> {j. \<exists>r. (j, r) \<in> set (symbols db) \<and> carries n r \<and> has_definition db j}" using sound(1) [OF k] sound(2) [OF k r] by blast
  then show "chosen db ?rows n = Some i" using k one by simp
qed

text \<open>
  C16 How a symbol of a binary is attributed, whatever the order in which the query yields the rows of the index. A name that
  is not local goes to a row exactly when some row carries it; the row carries the name; it has a definition whenever a row
  that carries the name has one, so that a row without a definition never hides one that has it; and so, if a single row with
  a definition carries the name, that row is the one. A local function whose object is known, from the map file or because a
  single object defines the name, goes to the row of the unit that object was compiled from, whatever other units define the
  same name.
\<close>

theorem symbol_attribution:
  assumes "hbr_ok db" "tables_of lio db bd objectToSource lt"
  shows "(\<not> Local s \<longrightarrow>
      (resolve_in lt mf s \<noteq> None \<longleftrightarrow> (\<exists>(i, r) \<in> set (symbols db). carries (nm_Name s) r)) \<and>
      (\<forall>i. resolve_in lt mf s = Some i \<longrightarrow> (\<exists>r. (i, r) \<in> set (symbols db) \<and> carries (nm_Name s) r) \<and>
         ((\<exists>(j, r) \<in> set (symbols db). carries (nm_Name s) r \<and> has_definition db j) \<longrightarrow> has_definition db i)) \<and>
      (\<forall>i. {j. \<exists>r. (j, r) \<in> set (symbols db) \<and> carries (nm_Name s) r \<and> has_definition db j} = {i} \<longrightarrow>
         resolve_in lt mf s = Some i)) \<and>
    (\<forall>obj src i r. nm_Kind s = ''t'' \<and>
       (mapObjectFor mf (nm_Name s) = obj \<or>
        mf = None \<and> map od_Object (gget_or [] (lt_defsByName lt) (nm_Name s)) = [obj]) \<and>
       obj \<noteq> [] \<and> gget objectToSource obj = Some src \<and> (i, r) \<in> set (symbols db) \<and> sy_usr r = Function_usr src (nm_Name s) \<longrightarrow>
       resolve_in lt mf s = Some i)"
proof (rule conjI)
  have l: "buildSymbolLookup lio db = Inr (lt_nameToID lt, lt_usrByID lt)" and u: "lt_usrToID lt = invert_usrs (lt_usrByID lt)"
    and o: "lt_objectToSource lt = objectToSource" using assms(2) by (auto simp: tables_of_def)
  note t = buildSymbolLookup_tables [OF assms(1) l]
  have g: "resolve_in lt mf s = chosen db (symbol_rows lio db) (nm_Name s)" if "\<not> Local s"
    using that by (simp add: resolve_in_def resolveNMSymbol_def t(1))
  show "\<not> Local s \<longrightarrow>
      (resolve_in lt mf s \<noteq> None \<longleftrightarrow> (\<exists>(i, r) \<in> set (symbols db). carries (nm_Name s) r)) \<and>
      (\<forall>i. resolve_in lt mf s = Some i \<longrightarrow> (\<exists>r. (i, r) \<in> set (symbols db) \<and> carries (nm_Name s) r) \<and>
         ((\<exists>(j, r) \<in> set (symbols db). carries (nm_Name s) r \<and> has_definition db j) \<longrightarrow> has_definition db i)) \<and>
      (\<forall>i. {j. \<exists>r. (j, r) \<in> set (symbols db) \<and> carries (nm_Name s) r \<and> has_definition db j} = {i} \<longrightarrow>
         resolve_in lt mf s = Some i)" (is "_ \<longrightarrow> ?Q")
  proof
    assume n: "\<not> Local s"
    show ?Q unfolding g [OF n] by (rule chosen_facts)
  qed
  show "\<forall>obj src i r. nm_Kind s = ''t'' \<and>
       (mapObjectFor mf (nm_Name s) = obj \<or>
        mf = None \<and> map od_Object (gget_or [] (lt_defsByName lt) (nm_Name s)) = [obj]) \<and>
       obj \<noteq> [] \<and> gget objectToSource obj = Some src \<and> (i, r) \<in> set (symbols db) \<and> sy_usr r = Function_usr src (nm_Name s) \<longrightarrow>
       resolve_in lt mf s = Some i"
  proof (intro allI impI, elim conjE)
    fix obj src i r
    assume k: "nm_Kind s = ''t''" and obj: "mapObjectFor mf (nm_Name s) = obj \<or> mf = None \<and> map od_Object (gget_or [] (lt_defsByName lt) (nm_Name s)) = [obj]"
      and ne: "obj \<noteq> []" and src: "gget objectToSource obj = Some src" and r: "(i, r) \<in> set (symbols db)" "sy_usr r = Function_usr src (nm_Name s)"
    have "Local s" using k by (simp add: Local_def)
    moreover have st: "resolveStaticViaObject s obj objectToSource (lt_usrToID lt) = Some i"
      using k ne src r t(3) [of "Function_usr src (nm_Name s)" i] by (auto simp: resolveStaticViaObject_def u)
    ultimately show "resolve_in lt mf s = Some i" using obj
      by (auto simp: resolve_in_def resolveNMSymbol_def o mapObjectFor_def resolveStaticViaObject_def map_eq_Cons_conv split: list.splits)
  qed
qed

definition sample_lt :: link_tables where
  "sample_lt =
     \<lparr>lt_nameToID = [(''main'', 1), (''go'', 2)], lt_usrByID = [(1, ''c:@F@main''), (2, ''c:m.c@F@go'')],
      lt_usrToID = [(''c:@F@main'', 1), (''c:m.c@F@go'', 2)], lt_mapByTarget = [],
      lt_defsByName = [(''main'', [\<lparr>od_Object = ''app.p/m.c.o'', od_Kind = ''T''\<rparr>]), (''go'', [\<lparr>od_Object = ''app.p/m.c.o'', od_Kind = ''t''\<rparr>])],
      lt_objectToSource = [(''app.p/m.c.o'', ''m.c'')]\<rparr>"

lemma sample_tables: "tables_of sample_lio sample_db sample_build [(''app.p/m.c.o'', ''m.c'')] sample_lt"
  by code_simp

theorem symbol_attribution_witness:
  "resolve_in sample_lt None \<lparr>nm_Name = ''main'', nm_Kind = ''T'', nm_Address = ''40'', nm_Size = 16\<rparr> = Some 1 \<and>
   resolve_in sample_lt None \<lparr>nm_Name = ''go'', nm_Kind = ''t'', nm_Address = ''30'', nm_Size = 16\<rparr> = Some 2"
proof -
  let ?main = "\<lparr>nm_Name = ''main'', nm_Kind = ''T'', nm_Address = ''40'', nm_Size = 16\<rparr>"
  let ?go = "\<lparr>nm_Name = ''go'', nm_Kind = ''t'', nm_Address = ''30'', nm_Size = 16\<rparr>"
  have "\<not> Local ?main" by code_simp
  moreover have "\<forall>i r. (i, r) \<in> set (symbols sample_db) \<and> carries ''main'' r \<longrightarrow> i = 1"
    by (auto simp: sample_db_def sample_symbols_def carries_def)
  moreover have "\<exists>(i, r) \<in> set (symbols sample_db). carries ''main'' r" by (simp add: sample_db_def sample_symbols_def carries_def)
  ultimately have "resolve_in sample_lt None ?main \<noteq> None \<and> (\<forall>i. resolve_in sample_lt None ?main = Some i \<longrightarrow> i = 1)"
    using conjunct1 [OF symbol_attribution [OF sample_db_ok sample_tables, of ?main None]] unfolding NMSymbol.select_convs by blast
  then have "resolve_in sample_lt None ?main = Some 1" by auto
  moreover have "(2, snd (sample_symbols ! 1)) \<in> set (symbols sample_db)" by (simp add: sample_db_def sample_symbols_def)
  moreover have "sy_usr (snd (sample_symbols ! 1)) = Function_usr ''m.c'' ''go''" by code_simp
  moreover have "map od_Object (gget_or [] (lt_defsByName sample_lt) ''go'') = [''app.p/m.c.o'']" by code_simp
  moreover have "gget [(''app.p/m.c.o'', ''m.c'')] ''app.p/m.c.o'' = Some ''m.c''" by code_simp
  ultimately show ?thesis
    using conjunct2 [OF symbol_attribution [OF sample_db_ok sample_tables, of ?go None],
        rule_format, of "''app.p/m.c.o''" "''m.c''" 2 "snd (sample_symbols ! 1)"] by simp
qed

text \<open>
  A name of external linkage is looked up by name alone. Where a static function of the same name is defined
  too, both rows have definitions, and in an order of the rows that puts the static one first, such as that of the ids when
  its path sorts before the at sign, it takes the resolution of the external function.
\<close>

definition shadow_row :: "string \<Rightarrow> string \<Rightarrow> symbol_row" where
  "shadow_row u l = \<lparr>sy_usr = u, sy_name = ''init'', sy_kind = ''function'', sy_linkage = l, sy_signature = [], sy_address_taken = 0,
     sy_linkage_names = Some [''init'']\<rparr>"

definition shadow_def :: "int \<Rightarrow> definition_row" where
  "shadow_def i = \<lparr>sd_symbol_id = i, sd_file = [], sd_line = 0, sd_decl_file = [], sd_decl_line = 0, sd_is_weak = 0, sd_linkage_name = ''init''\<rparr>"

definition shadow_db :: hbr where
  "shadow_db = sample_db\<lparr>
     symbols := [(1, shadow_row (Function_usr ''3rdparty/a.c'' ''init'') ''internal''), (2, shadow_row (Function_usr [] ''init'') ''external'')],
     symbol_definitions := [(1, shadow_def 1), (2, shadow_def 2)]\<rparr>"

lemma external_shadowed_by_static:
  "hbr_ok shadow_db \<and>
   map lr_usr (link_resolutions (fst (Link working
     (sample_lio\<lparr>li_nm := \<lambda>_. Some (unlines [''init T 40 10'']), li_objdump := \<lambda>_. Some ([], True)\<rparr>)
     shadow_db sample_build sample_intro [(''app'', 1)] []))) = [''c:3rdparty/a.c@F@init'']"
proof -
  have "hbr_ok shadow_db"
    by (simp add: hbr_ok_def shadow_db_def shadow_row_def shadow_def_def sample_db_def fresh_hbr_def Function_usr_def)
  moreover have "map lr_usr (link_resolutions (fst (Link working
     (sample_lio\<lparr>li_nm := \<lambda>_. Some (unlines [''init T 40 10'']), li_objdump := \<lambda>_. Some ([], True)\<rparr>)
     shadow_db sample_build sample_intro [(''app'', 1)] []))) = [''c:3rdparty/a.c@F@init'']" by code_simp
  ultimately show ?thesis by blast
qed

end
