(* ===== verification/Ingest_Sources.thy ===== *)
theory Ingest_Sources
  imports Blob_Store Ninja_Deps Ingest_Paths External_Glob Build_Dir Meson_Introspect
begin

text \<open>
  The pass that packs the sources of a build into the blob store, \<^verbatim>\<open>src/internal/ingest/sources.go\<close>. What
  reading a file gives, modification times, the working directory, the dependency log and the success of
  each database statement are arguments. Every error after the transaction has begun is followed by its
  rollback, so the tables outside change only where the commit succeeds.
\<close>

section \<open>Data\<close>

record SourcesSummary =
  ss_Files :: nat
  ss_Blobs :: nat
  ss_Duplicates :: nat
  ss_Generated :: nat
  ss_ExternalFiles :: nat
  ss_ExternalBlobs :: nat
  ss_GeneratedFiles :: nat
  ss_GeneratedBlobs :: nat
  ss_GlobMatchCount :: "(string, nat) gomap"

record SourcesOptions =
  so_Strict :: bool
  so_ExternalGlobs :: "ExternalGlob list"

record entry =
  en_relPath :: string
  en_absPath :: string
  en_isGenerated :: bool
  en_consumers :: "string list"
  en_required :: bool

datatype read_result = Content string | Missing | Unreadable

record source_env =
  se_read :: "string \<Rightarrow> read_result"
  se_mtime :: "string \<Rightarrow> int option"
  se_cwd :: "string option"
  se_deps :: stat_result
  se_begin :: bool
  se_encoder :: bool
  se_put :: "string \<Rightarrow> bs_io"
  se_put_generated :: "string \<Rightarrow> bs_io"
  se_put_external :: "string \<Rightarrow> bs_io"
  se_commit :: bool

datatype sources_error =
    S_source_outside string string | S_generated_abs string string | S_generated_outside string string
  | S_deps rfb_error | S_store bs_error | S_missing string | S_read string | S_strict_stat string | S_strict string string
  | S_read_generated string | S_read_external string | S_zero_globs "string list"

text \<open>The four buckets that the two passes over the build fill.\<close>

record found =
  fo_entries :: "(string, entry) gomap"
  fo_external :: "(string, unit) gomap"
  fo_globHits :: "(string, nat) gomap"
  fo_generated :: "(string, string) gomap"

section \<open>Collecting\<close>

definition isUnderBuildDir :: "string \<Rightarrow> string \<Rightarrow> bool" where
  "isUnderBuildDir apath bdRoot =
     (case Rel bdRoot apath of None \<Rightarrow> False | Some rel \<Rightarrow> \<not> HasPrefix rel ''..'' \<and> rel \<noteq> ''.'')"

definition mark :: "string \<Rightarrow> string \<Rightarrow> bool \<Rightarrow> bool \<Rightarrow> string \<Rightarrow> found \<Rightarrow> found" where
  "mark relPath absPath isGenerated required consumer fo =
     (let e = (case gget (fo_entries fo) relPath of
                 Some e \<Rightarrow> e
               | None \<Rightarrow> \<lparr>en_relPath = relPath, en_absPath = absPath, en_isGenerated = False, en_consumers = [], en_required = False\<rparr>)
      in fo\<lparr>fo_entries := gput relPath
           (e\<lparr>en_isGenerated := (if isGenerated then True else en_isGenerated e),
              en_required := (if required then True else en_required e),
              en_consumers := (if consumer \<noteq> [] then en_consumers e @ [consumer] else en_consumers e)\<rparr>) (fo_entries fo)\<rparr>)"

definition markGenerated :: "string \<Rightarrow> string \<Rightarrow> found \<Rightarrow> found" where
  "markGenerated bdRoot apath fo =
     (case Rel bdRoot apath of
        None \<Rightarrow> fo
      | Some rel \<Rightarrow>
          if HasPrefix rel ''..'' then fo
          else if gget (fo_generated fo) rel = None then fo\<lparr>fo_generated := gput rel apath (fo_generated fo)\<rparr>
          else fo)"

fun mark_sources :: "PathResolver \<Rightarrow> string \<Rightarrow> string list \<Rightarrow> found \<Rightarrow> sources_error + found" where
  "mark_sources pr tname [] fo = Inr fo"
| "mark_sources pr tname (apath # srcs) fo =
     (let r = ToProjectRelative pr apath
      in if \<not> rp_InProject r then Inl (S_source_outside tname apath)
         else mark_sources pr tname srcs (mark (rp_Rel r) (Join (pr_ProjectRoot pr) (rp_Rel r)) False True [] fo))"

fun mark_outputs ::
  "source_env \<Rightarrow> string \<Rightarrow> PathResolver \<Rightarrow> string \<Rightarrow> string list \<Rightarrow> found \<Rightarrow> sources_error + found" where
  "mark_outputs env bdRoot pr tname [] fo = Inr fo"
| "mark_outputs env bdRoot pr tname (apath # outs) fo =
     (let r = ToProjectRelative pr apath
      in if rp_InProject r
         then mark_outputs env bdRoot pr tname outs (mark (rp_Rel r) (Join (pr_ProjectRoot pr) (rp_Rel r)) True True [] fo)
         else case abs_of (se_cwd env) apath of
                None \<Rightarrow> Inl (S_generated_abs tname apath)
              | Some absNative \<Rightarrow>
                  if \<not> isUnderBuildDir absNative bdRoot then Inl (S_generated_outside tname apath)
                  else mark_outputs env bdRoot pr tname outs (markGenerated bdRoot absNative fo))"

fun mark_targets :: "source_env \<Rightarrow> string \<Rightarrow> PathResolver \<Rightarrow> Target list \<Rightarrow> found \<Rightarrow> sources_error + found" where
  "mark_targets env bdRoot pr [] fo = Inr fo"
| "mark_targets env bdRoot pr (t # ts) fo =
     bind_result (mark_sources pr (tg_Name t) (tg_Sources t) fo) (\<lambda>fo1.
     bind_result (mark_outputs env bdRoot pr (tg_Name t) (tg_Generated t) fo1) (mark_targets env bdRoot pr ts))"

definition mark_dep :: "string \<Rightarrow> PathResolver \<Rightarrow> ExternalGlob list \<Rightarrow> string \<Rightarrow> found \<Rightarrow> string \<Rightarrow> found" where
  "mark_dep bdRoot pr globs obj fo dep =
     (let r = ToProjectRelative pr dep
      in if \<not> rp_InProject r
         then (let apath = Clean (if \<not> IsAbs dep then Join bdRoot dep else dep)
               in if isUnderBuildDir apath bdRoot then markGenerated bdRoot apath fo
                  else case find (\<lambda>g. Match g apath) globs of
                         None \<Rightarrow> fo
                       | Some g \<Rightarrow>
                           fo\<lparr>fo_external := gput apath () (fo_external fo),
                              fo_globHits := gput (Raw g) (gget_or 0 (fo_globHits fo) (Raw g) + 1) (fo_globHits fo)\<rparr>)
         else let absPath = Join (pr_ProjectRoot pr) (rp_Rel r)
              in mark (rp_Rel r) absPath (isUnderBuildDir absPath bdRoot) False obj fo)"

definition mark_object :: "string \<Rightarrow> PathResolver \<Rightarrow> ExternalGlob list \<Rightarrow> Log \<Rightarrow> found \<Rightarrow> ObjectArtifacts \<Rightarrow> found" where
  "mark_object bdRoot pr globs l fo obj =
     (case Rel bdRoot (oa_Object obj) of
        None \<Rightarrow> fo
      | Some relObj \<Rightarrow>
          (case DepsFor l relObj of
             None \<Rightarrow> fo
           | Some deps \<Rightarrow> foldl (mark_dep bdRoot pr globs (oa_Object obj)) fo deps))"

definition no_files :: "ExternalGlob list \<Rightarrow> found" where
  "no_files globs =
     \<lparr>fo_entries = [], fo_external = [], fo_globHits = foldl (\<lambda>m g. gput (Raw g) 0 m) [] globs, fo_generated = []\<rparr>"

definition collect_files ::
  "source_env \<Rightarrow> BuildDir \<Rightarrow> Introspection \<Rightarrow> PathResolver \<Rightarrow> SourcesOptions \<Rightarrow> sources_error + found" where
  "collect_files env bd intro pr opts =
     bind_result (mark_targets env (bd_Root bd) pr (in_Targets intro) (no_files (so_ExternalGlobs opts)))
       (\<lambda>fo. case ReadForBuildDir (se_deps env) of
               (_, Some e) \<Rightarrow> Inl (S_deps e)
             | (None, None) \<Rightarrow> Inr fo
             | (Some l, None) \<Rightarrow> Inr (foldl (mark_object (bd_Root bd) pr (so_ExternalGlobs opts) l) fo (bd_Objects bd)))"

section \<open>Packing\<close>

fun newer_consumer :: "source_env \<Rightarrow> int \<Rightarrow> string list \<Rightarrow> string option" where
  "newer_consumer env srcMtime [] = None"
| "newer_consumer env srcMtime (obj # objs) =
     (case se_mtime env obj of
        None \<Rightarrow> newer_consumer env srcMtime objs
      | Some m \<Rightarrow> if srcMtime > m then Some obj else newer_consumer env srcMtime objs)"

definition checkStrictMtime :: "source_env \<Rightarrow> string \<Rightarrow> string list \<Rightarrow> sources_error option" where
  "checkStrictMtime env src consumers =
     (if consumers = [] then None
      else case se_mtime env src of
             None \<Rightarrow> Some (S_strict_stat src)
           | Some srcMtime \<Rightarrow> map_option (S_strict src) (newer_consumer env srcMtime consumers))"

type_synonym pack_state = "Writer \<times> SourcesSummary"

definition count_source :: "bool \<Rightarrow> bool \<Rightarrow> SourcesSummary \<Rightarrow> SourcesSummary" where
  "count_source deduplicated isGenerated sm =
     (let sm1 = sm\<lparr>ss_Files := ss_Files sm + 1\<rparr>;
          sm2 = (if deduplicated then sm1\<lparr>ss_Duplicates := ss_Duplicates sm1 + 1\<rparr> else sm1\<lparr>ss_Blobs := ss_Blobs sm1 + 1\<rparr>)
      in if isGenerated then sm2\<lparr>ss_Generated := ss_Generated sm2 + 1\<rparr> else sm2)"

fun pack_sources ::
  "(string \<Rightarrow> string) \<Rightarrow> (string \<Rightarrow> string) \<Rightarrow> source_env \<Rightarrow> bool \<Rightarrow> entry list \<Rightarrow> pack_state \<Rightarrow> sources_error + pack_state" where
  "pack_sources hex_sum enc env strict [] st = Inr st"
| "pack_sources hex_sum enc env strict (e # es) st =
     (case se_read env (en_absPath e) of
        Missing \<Rightarrow> if en_required e then Inl (S_missing (en_relPath e)) else pack_sources hex_sum enc env strict es st
      | Unreadable \<Rightarrow> Inl (S_read (en_absPath e))
      | Content content \<Rightarrow>
          (case (if strict then checkStrictMtime env (en_absPath e) (en_consumers e) else None) of
             Some err \<Rightarrow> Inl err
           | None \<Rightarrow>
               (case Put hex_sum enc (se_put env (en_relPath e)) (fst st) (en_relPath e) content (en_isGenerated e) of
                  (w, Inl err) \<Rightarrow> Inl (S_store err)
                | (w, Inr res) \<Rightarrow>
                    pack_sources hex_sum enc env strict es (w, count_source (pr_Deduplicated res) (en_isGenerated e) (snd st)))))"

definition count_generated :: "bool \<Rightarrow> SourcesSummary \<Rightarrow> SourcesSummary" where
  "count_generated deduplicated sm =
     (let sm1 = sm\<lparr>ss_GeneratedFiles := ss_GeneratedFiles sm + 1\<rparr>
      in if \<not> deduplicated then sm1\<lparr>ss_GeneratedBlobs := ss_GeneratedBlobs sm1 + 1, ss_Blobs := ss_Blobs sm1 + 1\<rparr>
         else sm1\<lparr>ss_Duplicates := ss_Duplicates sm1 + 1\<rparr>)"

definition count_external :: "bool \<Rightarrow> SourcesSummary \<Rightarrow> SourcesSummary" where
  "count_external deduplicated sm =
     (let sm1 = sm\<lparr>ss_ExternalFiles := ss_ExternalFiles sm + 1\<rparr>
      in if \<not> deduplicated then sm1\<lparr>ss_ExternalBlobs := ss_ExternalBlobs sm1 + 1, ss_Blobs := ss_Blobs sm1 + 1\<rparr>
         else sm1\<lparr>ss_Duplicates := ss_Duplicates sm1 + 1\<rparr>)"

text \<open>The loop over keys and paths that packs the generated and the external files.\<close>

fun pack_files ::
  "(string \<Rightarrow> read_result) \<Rightarrow> (Writer \<Rightarrow> string \<Rightarrow> string \<Rightarrow> Writer \<times> (bs_error + PutResult)) \<Rightarrow> (string \<Rightarrow> sources_error) \<Rightarrow>
   (bool \<Rightarrow> SourcesSummary \<Rightarrow> SourcesSummary) \<Rightarrow> (string \<times> string) list \<Rightarrow> pack_state \<Rightarrow> sources_error + pack_state" where
  "pack_files rd put unreadable tally [] st = Inr st"
| "pack_files rd put unreadable tally ((k, apath) # files) st =
     (case rd apath of
        Missing \<Rightarrow> pack_files rd put unreadable tally files st
      | Unreadable \<Rightarrow> Inl (unreadable apath)
      | Content content \<Rightarrow>
          (case put (fst st) k content of
             (w, Inl err) \<Rightarrow> Inl (S_store err)
           | (w, Inr res) \<Rightarrow> pack_files rd put unreadable tally files (w, tally (pr_Deduplicated res) (snd st))))"

text \<open>The entries of a bucket in the order of their keys.\<close>

definition by_key :: "(string, 'v) gomap \<Rightarrow> (string \<times> 'v) list" where
  "by_key m = List.map_filter (\<lambda>k. map_option (Pair k) (gget m k)) (sort (gkeys m))"

definition pack_generated ::
  "(string \<Rightarrow> string) \<Rightarrow> (string \<Rightarrow> string) \<Rightarrow> source_env \<Rightarrow> found \<Rightarrow> pack_state \<Rightarrow> sources_error + pack_state" where
  "pack_generated hex_sum enc env fo =
     pack_files (se_read env) (\<lambda>w k. PutGenerated hex_sum enc (se_put_generated env k) w k) S_read_generated count_generated
       (by_key (fo_generated fo))"

definition pack_external ::
  "(string \<Rightarrow> string) \<Rightarrow> (string \<Rightarrow> string) \<Rightarrow> source_env \<Rightarrow> found \<Rightarrow> pack_state \<Rightarrow> sources_error + pack_state" where
  "pack_external hex_sum enc env fo =
     pack_files (se_read env) (\<lambda>w k. PutExternal hex_sum enc (se_put_external env k) w k) S_read_external count_external
       (map (\<lambda>kv. (fst kv, fst kv)) (by_key (fo_external fo)))"

definition zero_summary :: SourcesSummary where
  "zero_summary = \<lparr>ss_Files = 0, ss_Blobs = 0, ss_Duplicates = 0, ss_Generated = 0, ss_ExternalFiles = 0, ss_ExternalBlobs = 0,
     ss_GeneratedFiles = 0, ss_GeneratedBlobs = 0, ss_GlobMatchCount = []\<rparr>"

definition zero_globs :: "found \<Rightarrow> string list" where
  "zero_globs fo = map fst (filter (\<lambda>(pat, n). n = 0) (fo_globHits fo))"

definition pack_all ::
  "(string \<Rightarrow> string) \<Rightarrow> (string \<Rightarrow> string) \<Rightarrow> source_env \<Rightarrow> bool \<Rightarrow> found \<Rightarrow> Writer \<Rightarrow> sources_error + pack_state" where
  "pack_all hex_sum enc env strict fo w =
     bind_result (pack_sources hex_sum enc env strict (map snd (by_key (fo_entries fo))) (w, zero_summary)) (\<lambda>st1.
     bind_result (pack_generated hex_sum enc env fo st1) (\<lambda>st2.
     bind_result (pack_external hex_sum enc env fo st2) (\<lambda>(w3, sm).
       if zero_globs fo \<noteq> [] then Inl (S_zero_globs (sort (zero_globs fo)))
       else Inr (w3, sm\<lparr>ss_GlobMatchCount := fo_globHits fo\<rparr>))))"

definition Sources ::
  "(string \<Rightarrow> string) \<Rightarrow> (string \<Rightarrow> string) \<Rightarrow> source_env \<Rightarrow> blob_db \<Rightarrow> BuildDir \<Rightarrow> Introspection \<Rightarrow> PathResolver \<Rightarrow> SourcesOptions \<Rightarrow>
   blob_db \<times> (sources_error + SourcesSummary)" where
  "Sources hex_sum enc env db bd intro pr opts =
     (case collect_files env bd intro pr opts of
        Inl e \<Rightarrow> (db, Inl e)
      | Inr fo \<Rightarrow>
          (case New db (se_begin env) (se_encoder env) of
             Inl e \<Rightarrow> (db, Inl (S_store e))
           | Inr w \<Rightarrow>
               (case pack_all hex_sum enc env (so_Strict opts) fo w of
                  Inl e \<Rightarrow> (db, Inl e)
                | Inr (w', sm) \<Rightarrow>
                    (case Commit (se_commit env) db w' of
                       (db', _, None) \<Rightarrow> (db', Inr sm)
                     | (db', _, Some e) \<Rightarrow> (db', Inl (S_store e))))))"

section \<open>Sightings\<close>

text \<open>
  What the passes do, as a list of sightings that are folded into the buckets: a project file with its mark,
  a file of the build directory, a header matched by a pattern.
\<close>

datatype sighting = Project string bool bool string | Built string | Header string string

fun sight :: "string \<Rightarrow> PathResolver \<Rightarrow> found \<Rightarrow> sighting \<Rightarrow> found" where
  "sight bdRoot pr fo (Project rel gen req consumer) = mark rel (Join (pr_ProjectRoot pr) rel) gen req consumer fo"
| "sight bdRoot pr fo (Built apath) = markGenerated bdRoot apath fo"
| "sight bdRoot pr fo (Header apath raw) =
     fo\<lparr>fo_external := gput apath () (fo_external fo), fo_globHits := gput raw (gget_or 0 (fo_globHits fo) raw + 1) (fo_globHits fo)\<rparr>"

definition source_sighting :: "PathResolver \<Rightarrow> string \<Rightarrow> sighting" where
  "source_sighting pr src = Project (rp_Rel (ToProjectRelative pr src)) False True []"

definition output_sighting :: "source_env \<Rightarrow> PathResolver \<Rightarrow> string \<Rightarrow> sighting" where
  "output_sighting env pr out =
     (let r = ToProjectRelative pr out
      in if rp_InProject r then Project (rp_Rel r) True True [] else Built (case abs_of (se_cwd env) out of None \<Rightarrow> [] | Some p \<Rightarrow> p))"

definition target_sightings :: "source_env \<Rightarrow> PathResolver \<Rightarrow> Target \<Rightarrow> sighting list" where
  "target_sightings env pr t = map (source_sighting pr) (tg_Sources t) @ map (output_sighting env pr) (tg_Generated t)"

definition dep_path :: "string \<Rightarrow> string \<Rightarrow> string" where
  "dep_path bdRoot dep = Clean (if \<not> IsAbs dep then Join bdRoot dep else dep)"

definition dep_sighting :: "string \<Rightarrow> PathResolver \<Rightarrow> ExternalGlob list \<Rightarrow> string \<Rightarrow> string \<Rightarrow> sighting option" where
  "dep_sighting bdRoot pr globs obj dep =
     (let r = ToProjectRelative pr dep
      in if rp_InProject r then Some (Project (rp_Rel r) (isUnderBuildDir (Join (pr_ProjectRoot pr) (rp_Rel r)) bdRoot) False obj)
         else if isUnderBuildDir (dep_path bdRoot dep) bdRoot then Some (Built (dep_path bdRoot dep))
         else map_option (\<lambda>g. Header (dep_path bdRoot dep) (Raw g)) (find (\<lambda>g. Match g (dep_path bdRoot dep)) globs))"

text \<open>The objects and their recorded inputs.\<close>

definition recorded_deps :: "source_env \<Rightarrow> BuildDir \<Rightarrow> (string \<times> string) list" where
  "recorded_deps env bd =
     (case fst (ReadForBuildDir (se_deps env)) of
        None \<Rightarrow> []
      | Some l \<Rightarrow> concat (map (\<lambda>ob. case Rel (bd_Root bd) (oa_Object ob) of
                                    None \<Rightarrow> []
                                  | Some rel \<Rightarrow> (case DepsFor l rel of None \<Rightarrow> [] | Some ds \<Rightarrow> map (Pair (oa_Object ob)) ds)) (bd_Objects bd)))"

definition sightings :: "source_env \<Rightarrow> BuildDir \<Rightarrow> Introspection \<Rightarrow> PathResolver \<Rightarrow> SourcesOptions \<Rightarrow> sighting list" where
  "sightings env bd intro pr opts =
     concat (map (target_sightings env pr) (in_Targets intro)) @
     List.map_filter (\<lambda>(ob, d). dep_sighting (bd_Root bd) pr (so_ExternalGlobs opts) ob d) (recorded_deps env bd)"

lemma mark_sources_Inr:
  "mark_sources pr n srcs fo = Inr fo' \<Longrightarrow>
   fo' = foldl (sight bdRoot pr) fo (map (source_sighting pr) srcs) \<and> (\<forall>s \<in> set srcs. rp_InProject (ToProjectRelative pr s))"
  by (induction srcs arbitrary: fo) (auto simp: Let_def source_sighting_def split: if_splits)

lemma mark_outputs_Inr:
  "mark_outputs env bdRoot pr n outs fo = Inr fo' \<Longrightarrow>
   fo' = foldl (sight bdRoot pr) fo (map (output_sighting env pr) outs) \<and>
   (\<forall>s \<in> set outs. rp_InProject (ToProjectRelative pr s) \<or>
      (\<exists>p. abs_of (se_cwd env) s = Some p \<and> isUnderBuildDir p bdRoot))"
proof (induction outs arbitrary: fo)
  case (Cons s outs)
  show ?case
  proof (cases "rp_InProject (ToProjectRelative pr s)")
    case True
    with Cons show ?thesis by (simp add: Let_def output_sighting_def)
  next
    case False
    with Cons.prems obtain p where p: "abs_of (se_cwd env) s = Some p" "isUnderBuildDir p bdRoot"
      and rest: "mark_outputs env bdRoot pr n outs (markGenerated bdRoot p fo) = Inr fo'"
      by (auto simp: Let_def split: option.splits if_splits)
    from Cons.IH [OF rest] p False show ?thesis by (simp add: Let_def output_sighting_def)
  qed
qed simp

lemma mark_targets_Inr:
  "mark_targets env bdRoot pr ts fo = Inr fo' \<Longrightarrow>
   fo' = foldl (sight bdRoot pr) fo (concat (map (target_sightings env pr) ts)) \<and>
   (\<forall>t \<in> set ts. (\<forall>s \<in> set (tg_Sources t). rp_InProject (ToProjectRelative pr s)) \<and>
      (\<forall>s \<in> set (tg_Generated t). rp_InProject (ToProjectRelative pr s) \<or>
         (\<exists>p. abs_of (se_cwd env) s = Some p \<and> isUnderBuildDir p bdRoot)))"
proof (induction ts arbitrary: fo)
  case (Cons t ts)
  from Cons.prems obtain fo1 fo2 where m: "mark_sources pr (tg_Name t) (tg_Sources t) fo = Inr fo1"
    "mark_outputs env bdRoot pr (tg_Name t) (tg_Generated t) fo1 = Inr fo2" "mark_targets env bdRoot pr ts fo2 = Inr fo'"
    by (auto simp: bind_result_Inr_iff)
  from Cons.IH [OF m(3)] mark_sources_Inr [OF m(1), of bdRoot] mark_outputs_Inr [OF m(2)] show ?case
    by (simp add: target_sightings_def)
qed simp

lemma mark_dep_sight:
  "mark_dep bdRoot pr globs obj fo dep =
     (case dep_sighting bdRoot pr globs obj dep of None \<Rightarrow> fo | Some s \<Rightarrow> sight bdRoot pr fo s)"
  by (auto simp: mark_dep_def dep_sighting_def dep_path_def Let_def split: option.splits)

lemma foldl_map_filter:
  "foldl f s (List.map_filter g xs) = foldl (\<lambda>s x. case g x of None \<Rightarrow> s | Some y \<Rightarrow> f s y) s xs"
  by (induction xs arbitrary: s) (auto simp: List.map_filter_simps split: option.split)

lemma foldl_concat_map: "foldl f s (concat (map g xs)) = foldl (\<lambda>s x. foldl f s (g x)) s xs"
  by (induction xs arbitrary: s) auto

lemma foldl_map: "foldl f s (map g xs) = foldl (\<lambda>s x. f s (g x)) s xs"
  by (induction xs arbitrary: s) auto

lemma mark_objects_sight:
  "foldl (mark_object (bd_Root bd) pr globs l) fo objs =
   foldl (\<lambda>fo (ob, d). mark_dep (bd_Root bd) pr globs ob fo d) fo
     (concat (map (\<lambda>ob. case Rel (bd_Root bd) (oa_Object ob) of
                        None \<Rightarrow> []
                      | Some rel \<Rightarrow> (case DepsFor l rel of None \<Rightarrow> [] | Some ds \<Rightarrow> map (Pair (oa_Object ob)) ds)) objs))"
proof -
  have "mark_object (bd_Root bd) pr globs l fo ob =
      foldl (\<lambda>fo (ob, d). mark_dep (bd_Root bd) pr globs ob fo d) fo
        (case Rel (bd_Root bd) (oa_Object ob) of
           None \<Rightarrow> [] | Some rel \<Rightarrow> (case DepsFor l rel of None \<Rightarrow> [] | Some ds \<Rightarrow> map (Pair (oa_Object ob)) ds))" for fo ob
    by (simp add: mark_object_def foldl_map split: option.split)
  then show ?thesis unfolding foldl_concat_map by (simp cong: foldl_cong)
qed

lemma collect_files_Inr:
  assumes "collect_files env bd intro pr opts = Inr fo"
  shows "fo = foldl (sight (bd_Root bd) pr) (no_files (so_ExternalGlobs opts)) (sightings env bd intro pr opts)"
    and "t \<in> set (in_Targets intro) \<Longrightarrow> s \<in> set (tg_Sources t) \<Longrightarrow> rp_InProject (ToProjectRelative pr s)"
    and "t \<in> set (in_Targets intro) \<Longrightarrow> s \<in> set (tg_Generated t) \<Longrightarrow> rp_InProject (ToProjectRelative pr s) \<or>
      (\<exists>p. abs_of (se_cwd env) s = Some p \<and> isUnderBuildDir p (bd_Root bd))"
proof -
  from assms obtain fo1 where m: "mark_targets env (bd_Root bd) pr (in_Targets intro) (no_files (so_ExternalGlobs opts)) = Inr fo1"
    and rest: "(case ReadForBuildDir (se_deps env) of
               (_, Some e) \<Rightarrow> Inl (S_deps e)
             | (None, None) \<Rightarrow> Inr fo1
             | (Some l, None) \<Rightarrow> Inr (foldl (mark_object (bd_Root bd) pr (so_ExternalGlobs opts) l) fo1 (bd_Objects bd))) = Inr fo"
    by (auto simp: collect_files_def bind_result_Inr_iff)
  obtain lo er where rd: "ReadForBuildDir (se_deps env) = (lo, er)" by fastforce
  from rest have "er = None" by (auto simp: rd split: option.splits)
  with rest have "fo = foldl (sight (bd_Root bd) pr) fo1
      (List.map_filter (\<lambda>(ob, d). dep_sighting (bd_Root bd) pr (so_ExternalGlobs opts) ob d) (recorded_deps env bd))"
    by (cases lo) (auto simp: rd recorded_deps_def foldl_map_filter mark_objects_sight mark_dep_sight List.map_filter_simps case_prod_unfold)
  with mark_targets_Inr [OF m]
  show "fo = foldl (sight (bd_Root bd) pr) (no_files (so_ExternalGlobs opts)) (sightings env bd intro pr opts)"
    by (simp add: sightings_def)
  from mark_targets_Inr [OF m]
  show "t \<in> set (in_Targets intro) \<Longrightarrow> s \<in> set (tg_Sources t) \<Longrightarrow> rp_InProject (ToProjectRelative pr s)"
    and "t \<in> set (in_Targets intro) \<Longrightarrow> s \<in> set (tg_Generated t) \<Longrightarrow> rp_InProject (ToProjectRelative pr s) \<or>
      (\<exists>p. abs_of (se_cwd env) s = Some p \<and> isUnderBuildDir p (bd_Root bd))" by blast+
qed

section \<open>The buckets\<close>

fun project_mark :: "string \<Rightarrow> sighting \<Rightarrow> (bool \<times> bool \<times> string) option" where
  "project_mark rel (Project rel' gen req consumer) = (if rel' = rel then Some (gen, req, consumer) else None)"
| "project_mark rel _ = None"

definition marks :: "string \<Rightarrow> sighting list \<Rightarrow> (bool \<times> bool \<times> string) list" where
  "marks rel ss = List.map_filter (project_mark rel) ss"

definition marked_entry :: "PathResolver \<Rightarrow> string \<Rightarrow> (bool \<times> bool \<times> string) list \<Rightarrow> entry option" where
  "marked_entry pr rel ms =
     (if ms = [] then None
      else Some \<lparr>en_relPath = rel, en_absPath = Join (pr_ProjectRoot pr) rel, en_isGenerated = (\<exists>m \<in> set ms. fst m),
                 en_consumers = filter (\<lambda>c. c \<noteq> []) (map (snd \<circ> snd) ms), en_required = (\<exists>m \<in> set ms. fst (snd m))\<rparr>)"

fun built_path :: "string \<Rightarrow> string \<Rightarrow> sighting \<Rightarrow> string option" where
  "built_path bdRoot k (Built p) = (if Rel bdRoot p = Some k \<and> \<not> HasPrefix k ''..'' then Some p else None)"
| "built_path bdRoot k _ = None"

lemma buckets_simps [simp]:
  "fo_external (mark rel p gen req c fo) = fo_external fo" "fo_globHits (mark rel p gen req c fo) = fo_globHits fo"
  "fo_generated (mark rel p gen req c fo) = fo_generated fo"
  "fo_external (markGenerated r p fo) = fo_external fo" "fo_globHits (markGenerated r p fo) = fo_globHits fo"
  "fo_entries (markGenerated r p fo) = fo_entries fo"
  by (simp_all add: mark_def markGenerated_def Let_def split: option.split)

lemma entries_sight:
  assumes "\<And>rel. gget (fo_entries fo) rel = None"
  shows "gget (fo_entries (foldl (sight bdRoot pr) fo ss)) rel = marked_entry pr rel (marks rel ss)"
proof (induction ss rule: rev_induct)
  case Nil
  then show ?case by (simp add: assms marks_def marked_entry_def List.map_filter_simps)
next
  case (snoc s ss)
  then show ?case
  proof (cases s)
    case (Project rel' gen req c)
    show ?thesis
    proof (cases "rel' = rel")
      case True
      have m: "marks rel (ss @ [s]) = marks rel ss @ [(gen, req, c)]"
        by (simp add: marks_def map_filter_append List.map_filter_simps Project True)
      show ?thesis unfolding m using snoc
        by (cases "marks rel ss = []") (simp_all add: Project True mark_def Let_def marked_entry_def)
    next
      case False
      with snoc show ?thesis by (simp add: marks_def map_filter_append List.map_filter_simps Project mark_def Let_def)
    qed
  qed (simp_all add: marks_def map_filter_append List.map_filter_simps)
qed

lemma generated_sight:
  assumes "\<And>k. gget (fo_generated fo) k = None"
  shows "gget (fo_generated (foldl (sight bdRoot pr) fo ss)) k =
    (case List.map_filter (built_path bdRoot k) ss of [] \<Rightarrow> None | p # _ \<Rightarrow> Some p)"
proof (induction ss rule: rev_induct)
  case Nil
  then show ?case by (simp add: assms List.map_filter_simps)
next
  case (snoc s ss)
  show ?case
  proof (cases s)
    case (Built p)
    let ?ps = "List.map_filter (built_path bdRoot k) ss"
    have "(case ?ps @ qs of [] \<Rightarrow> None | p # _ \<Rightarrow> Some p) = (case ?ps of [] \<Rightarrow> (case qs of [] \<Rightarrow> None | p # _ \<Rightarrow> Some p) | p # _ \<Rightarrow> Some p)" for qs
      by (cases ?ps) auto
    with snoc Built show ?thesis
      by (cases ?ps) (auto simp: markGenerated_def map_filter_append List.map_filter_simps split: option.splits)
  qed (simp_all add: snoc map_filter_append List.map_filter_simps)
qed

lemma external_sight:
  "gget (fo_external (foldl (sight bdRoot pr) fo ss)) p \<noteq> None \<longleftrightarrow> (\<exists>raw. Header p raw \<in> set ss) \<or> gget (fo_external fo) p \<noteq> None"
proof (induction ss arbitrary: fo)
  case (Cons s ss)
  then show ?case by (cases s) auto
qed simp



definition buckets_ok :: "found \<Rightarrow> bool" where
  "buckets_ok fo \<longleftrightarrow> gmap_ok (fo_entries fo) \<and> gmap_ok (fo_external fo) \<and> gmap_ok (fo_globHits fo) \<and> gmap_ok (fo_generated fo)"

lemma buckets_ok_sight: "buckets_ok fo \<Longrightarrow> buckets_ok (sight bdRoot pr fo s)"
  by (cases s) (auto simp: buckets_ok_def mark_def markGenerated_def Let_def split: option.split)

lemma buckets_ok_sights: "buckets_ok fo \<Longrightarrow> buckets_ok (foldl (sight bdRoot pr) fo ss)"
  by (induction ss arbitrary: fo) (auto simp: buckets_ok_sight)

lemma gmap_ok_zeros: "gmap_ok m \<Longrightarrow> gmap_ok (foldl (\<lambda>m g. gput (Raw g) 0 m) m globs)"
  by (induction globs arbitrary: m) auto

lemma keys_zeros: "set (gkeys (foldl (\<lambda>m g. gput (Raw g) 0 m) m globs)) = Raw ` set globs \<union> set (gkeys m)"
  by (induction globs arbitrary: m) (auto simp: gkeys_gput)

lemma no_files_simps [simp]:
  "fo_entries (no_files globs) = []" "fo_external (no_files globs) = []" "fo_generated (no_files globs) = []"
  "buckets_ok (no_files globs)" "set (gkeys (fo_globHits (no_files globs))) = Raw ` set globs"
  "gget_or 0 (fo_globHits (no_files globs)) raw = 0"
proof -
  have "gget_or 0 (foldl (\<lambda>m g. gput (Raw g) 0 m) m globs) raw = 0" if "gget_or 0 m raw = 0" for m :: "(string, nat) gomap"
    using that by (induction globs arbitrary: m) (auto simp: gget_or_def)
  then show "gget_or 0 (fo_globHits (no_files globs)) raw = 0" by (simp add: no_files_def gget_or_def)
qed (simp_all add: no_files_def buckets_ok_def gmap_ok_zeros keys_zeros gkeys_def [of "[]"])

lemma set_by_key: "(k, v) \<in> set (by_key m) \<longleftrightarrow> gget m k = Some v"
  by (force simp: by_key_def List.map_filter_def set_gkeys)

lemma by_key_keys: "map fst (by_key m) = sort (gkeys m)"
proof -
  have "map fst (List.map_filter (\<lambda>k. map_option (Pair k) (gget m k)) ks) = ks" if "set ks \<subseteq> set (gkeys m)" for ks
    using that by (induction ks) (auto simp: List.map_filter_simps set_gkeys)
  then show ?thesis by (simp add: by_key_def)
qed

section \<open>What packing stores\<close>

lemma put_shape:
  assumes "then_upsert io k up (putBlob hex_sum enc io w content) = (w', Inr res)" "w_tx w = Some d"
  shows "\<exists>b. w_tx w' = Some (up (hex_sum content) (d\<lparr>db_blobs := b\<rparr>))"
proof (cases "gget (db_blobs d) (hex_sum content) = None")
  case True
  with assms show ?thesis
    by (auto simp: then_upsert_def putBlob_def Let_def split: if_splits)
next
  case False
  with assms have "w_tx w' = Some (up (hex_sum content) (d\<lparr>db_blobs := db_blobs d\<rparr>))"
    by (auto simp: then_upsert_def putBlob_def Let_def split: if_splits)
  then show ?thesis by blast
qed

text \<open>What storing blobs and rows of one table cannot change.\<close>

definition keeps_rest :: "(string \<Rightarrow> 'r \<Rightarrow> blob_db \<Rightarrow> blob_db) \<Rightarrow> blob_db \<Rightarrow> blob_db \<Rightarrow> bool" where
  "keeps_rest upsert d d' \<longleftrightarrow>
     (\<forall>P. (\<forall>e b. P e \<longrightarrow> P (e\<lparr>db_blobs := b\<rparr>)) \<longrightarrow> (\<forall>e k r. P e \<longrightarrow> P (upsert k r e)) \<longrightarrow> P d \<longrightarrow> P d')"

lemma keeps_rest_refl: "keeps_rest upsert d d"
  by (simp add: keeps_rest_def)

lemma keeps_rest_step: "keeps_rest upsert (upsert k r (d\<lparr>db_blobs := b\<rparr>)) d' \<Longrightarrow> keeps_rest upsert d d'"
  unfolding keeps_rest_def by blast

text \<open>The loop over files, for any of the tables of rows: what it stores, and what it leaves alone.\<close>

context source_table
begin

lemma pack_files_rows:
  assumes put: "\<And>w k c. put w k c = then_upsert (ios k) k (\<lambda>h. upsert k (mk h)) (putBlob hex_sum enc (ios k) w c)"
    and run: "pack_files rd put unr cnt files st = Inr st'" and tx: "w_tx (fst st) = Some d" and dist: "distinct (map fst files)"
  shows "\<exists>d'. w_tx (fst st') = Some d' \<and>
    (\<forall>k p c. (k, p) \<in> set files \<longrightarrow> rd p = Content c \<longrightarrow> row d' k = Some (mk (hex_sum c))) \<and>
    (\<forall>k p. (k, p) \<in> set files \<longrightarrow> rd p = Missing \<longrightarrow> row d' k = row d k) \<and>
    (\<forall>k. k \<notin> fst ` set files \<longrightarrow> row d' k = row d k) \<and>
    keeps_rest upsert d d'"
  using run tx dist
proof (induction files arbitrary: st d)
  case (Cons kp files)
  obtain k p where kp: "kp = (k, p)" by fastforce
  have fresh: "k \<notin> fst ` set files" and dist': "distinct (map fst files)" using Cons.prems(3) by (auto simp: kp)
  show ?case
  proof (cases "rd p")
    case (Content c)
    with Cons.prems(1) obtain w1 res sm1 where w1: "put (fst st) k c = (w1, Inr res)"
      and rest: "pack_files rd put unr cnt files (w1, sm1) = Inr st'" by (auto simp: kp split: prod.splits sum.splits)
    from put_shape [OF w1 [unfolded put] Cons.prems(2)] obtain b where
      b: "w_tx w1 = Some (upsert k (mk (hex_sum c)) (d\<lparr>db_blobs := b\<rparr>))" by blast
    from Cons.IH [OF rest _ dist'] b obtain d' where d': "w_tx (fst st') = Some d'"
      "\<forall>k p c. (k, p) \<in> set files \<longrightarrow> rd p = Content c \<longrightarrow> row d' k = Some (mk (hex_sum c))"
      "\<forall>k' p. (k', p) \<in> set files \<longrightarrow> rd p = Missing \<longrightarrow> row d' k' = row (upsert k (mk (hex_sum c)) (d\<lparr>db_blobs := b\<rparr>)) k'"
      "\<forall>k'. k' \<notin> fst ` set files \<longrightarrow> row d' k' = row (upsert k (mk (hex_sum c)) (d\<lparr>db_blobs := b\<rparr>)) k'"
      "keeps_rest upsert (upsert k (mk (hex_sum c)) (d\<lparr>db_blobs := b\<rparr>)) d'" by auto
    have own: "row d' k = Some (mk (hex_sum c))" using d'(4) fresh by (simp add: row_upsert)
    have other: "(k', p') \<in> set files \<Longrightarrow> k' \<noteq> k" for k' p' using fresh by force
    show ?thesis
    proof (intro exI [of _ d'] conjI)
      show "w_tx (fst st') = Some d'" by (rule d'(1))
      show "\<forall>k p c. (k, p) \<in> set (kp # files) \<longrightarrow> rd p = Content c \<longrightarrow> row d' k = Some (mk (hex_sum c))"
        using d'(2) own Content by (simp add: kp)
      show "\<forall>k p. (k, p) \<in> set (kp # files) \<longrightarrow> rd p = Missing \<longrightarrow> row d' k = row d k"
        using d'(3) other Content by (auto simp: kp row_upsert row_blobs)
      show "\<forall>k. k \<notin> fst ` set (kp # files) \<longrightarrow> row d' k = row d k" using d'(4) by (simp add: kp row_upsert row_blobs)
      show "keeps_rest upsert d d'" using d'(5) by (rule keeps_rest_step)
    qed
  next
    case Missing
    with Cons.prems(1) have rest: "pack_files rd put unr cnt files st = Inr st'" by (simp add: kp)
    from Cons.IH [OF rest Cons.prems(2) dist'] obtain d' where d': "w_tx (fst st') = Some d'"
      "\<forall>k p c. (k, p) \<in> set files \<longrightarrow> rd p = Content c \<longrightarrow> row d' k = Some (mk (hex_sum c))"
      "\<forall>k p. (k, p) \<in> set files \<longrightarrow> rd p = Missing \<longrightarrow> row d' k = row d k"
      "\<forall>k. k \<notin> fst ` set files \<longrightarrow> row d' k = row d k"
      "keeps_rest upsert d d'" by blast
    show ?thesis
    proof (intro exI [of _ d'] conjI)
      show "\<forall>k p c. (k, p) \<in> set (kp # files) \<longrightarrow> rd p = Content c \<longrightarrow> row d' k = Some (mk (hex_sum c))"
        using d'(2) Missing by (simp add: kp)
      show "\<forall>k p. (k, p) \<in> set (kp # files) \<longrightarrow> rd p = Missing \<longrightarrow> row d' k = row d k"
        using d'(3,4) fresh by (simp add: kp)
      show "\<forall>k. k \<notin> fst ` set (kp # files) \<longrightarrow> row d' k = row d k" using d'(4) by (simp add: kp)
    qed (rule d'(1), rule d'(5))
  qed (use Cons.prems(1) kp in simp)
qed (auto simp: keeps_rest_refl)

lemma pack_files_store:
  assumes "pack_files rd put unr cnt files st = Inr st'" "store_ok hex_sum enc (fst st)"
    and "\<And>w k c. store_ok hex_sum enc w \<Longrightarrow> store_ok hex_sum enc (fst (put w k c))"
  shows "store_ok hex_sum enc (fst st')"
  using assms(1,2)
proof (induction files arbitrary: st)
  case (Cons kp files)
  obtain k p where kp: "kp = (k, p)" by fastforce
  show ?case
  proof (cases "rd p")
    case (Content c)
    with Cons.prems(1) obtain w1 res sm1 where w1: "put (fst st) k c = (w1, Inr res)"
      and rest: "pack_files rd put unr cnt files (w1, sm1) = Inr st'" by (auto simp: kp split: prod.splits sum.splits)
    from assms(3) [OF Cons.prems(2), of k c] Cons.IH [OF rest] show ?thesis by (simp add: w1)
  qed (use Cons kp in simp_all)
qed simp

lemma pack_files_readable:
  "pack_files rd put unr cnt files st = Inr st' \<Longrightarrow> (k, p) \<in> set files \<Longrightarrow> rd p \<noteq> Unreadable"
proof (induction files arbitrary: st)
  case (Cons kp files)
  obtain k' p' where kp: "kp = (k', p')" by fastforce
  show ?case
  proof (cases "rd p'")
    case (Content c)
    with Cons.prems(1) obtain st1 where rest: "pack_files rd put unr cnt files st1 = Inr st'"
      by (auto simp: kp split: prod.splits sum.splits)
    show ?thesis using Cons.prems(2) Cons.IH [OF rest] Content by (auto simp: kp)
  next
    case Missing
    with Cons.prems(1) have rest: "pack_files rd put unr cnt files st = Inr st'" by (simp add: kp)
    show ?thesis using Cons.prems(2) Cons.IH [OF rest] Missing by (auto simp: kp)
  qed (use Cons.prems(1) kp in simp)
qed simp

end

text \<open>The loop over the project files. An entry has been dealt with: stored, or missing and not required.\<close>

definition packed :: "(string \<Rightarrow> string) \<Rightarrow> source_env \<Rightarrow> bool \<Rightarrow> blob_db \<Rightarrow> entry \<Rightarrow> bool" where
  "packed hex_sum env strict d e =
     (case se_read env (en_absPath e) of
        Content c \<Rightarrow> gget (db_sources d) (en_relPath e) = Some (hex_sum c, if en_isGenerated e then 1 else 0) \<and>
          (strict \<longrightarrow> checkStrictMtime env (en_absPath e) (en_consumers e) = None)
      | Missing \<Rightarrow> \<not> en_required e
      | Unreadable \<Rightarrow> False)"

lemma pack_sources_rows:
  "pack_sources hex_sum enc env strict es st = Inr st' \<Longrightarrow> w_tx (fst st) = Some d \<Longrightarrow> distinct (map en_relPath es) \<Longrightarrow>
   \<exists>d'. w_tx (fst st') = Some d' \<and> db_external d' = db_external d \<and> db_generated d' = db_generated d \<and>
    (\<forall>e \<in> set es. packed hex_sum env strict d' e) \<and>
    (\<forall>k. k \<notin> en_relPath ` set es \<longrightarrow> gget (db_sources d') k = gget (db_sources d) k)"
proof (induction es arbitrary: st d)
  case (Cons e es)
  have fresh: "en_relPath e \<notin> en_relPath ` set es" and dist': "distinct (map en_relPath es)" using Cons.prems(3) by auto
  show ?case
  proof (cases "se_read env (en_absPath e)")
    case (Content c)
    let ?row = "(hex_sum c, if en_isGenerated e then 1 else 0)"
    from Content Cons.prems(1) obtain w1 res sm1 where
      w1: "Put hex_sum enc (se_put env (en_relPath e)) (fst st) (en_relPath e) c (en_isGenerated e) = (w1, Inr res)"
      and strict: "strict \<longrightarrow> checkStrictMtime env (en_absPath e) (en_consumers e) = None"
      and rest: "pack_sources hex_sum enc env strict es (w1, sm1) = Inr st'"
      by (auto split: prod.splits sum.splits option.splits if_splits)
    from put_shape [OF w1 [unfolded Put_def Let_def] Cons.prems(2)] obtain b where
      b: "w_tx w1 = Some (upsert_source (en_relPath e) ?row (d\<lparr>db_blobs := b\<rparr>))" by blast
    let ?d1 = "upsert_source (en_relPath e) ?row (d\<lparr>db_blobs := b\<rparr>)"
    have d1: "db_external ?d1 = db_external d" "db_generated ?d1 = db_generated d"
      "gget (db_sources ?d1) k = (if k = en_relPath e then Some ?row else gget (db_sources d) k)" for k
      by (simp_all add: upsert_source_def)
    from Cons.IH [OF rest _ dist', of ?d1] b obtain d' where d': "w_tx (fst st') = Some d'" "db_external d' = db_external ?d1"
      "db_generated d' = db_generated ?d1" "\<forall>e \<in> set es. packed hex_sum env strict d' e"
      "\<forall>k. k \<notin> en_relPath ` set es \<longrightarrow> gget (db_sources d') k = gget (db_sources ?d1) k" by auto
    have "packed hex_sum env strict d' e" using d'(5) fresh strict by (simp add: packed_def Content d1(3))
    with d' d1 show ?thesis by (intro exI [of _ d']) simp
  next
    case Missing
    with Cons.prems(1) have rest: "pack_sources hex_sum enc env strict es st = Inr st'" and "\<not> en_required e" by (auto split: if_splits)
    then have "packed hex_sum env strict d' e" for d' by (simp add: packed_def Missing)
    with Cons.IH [OF rest Cons.prems(2) dist'] show ?thesis by auto
  qed (use Cons.prems(1) in simp)
qed auto

lemma pack_sources_store:
  "pack_sources hex_sum enc env strict es st = Inr st' \<Longrightarrow> store_ok hex_sum enc (fst st) \<Longrightarrow> store_ok hex_sum enc (fst st')"
proof (induction es arbitrary: st)
  case (Cons e es)
  show ?case
  proof (cases "se_read env (en_absPath e)")
    case (Content c)
    with Cons.prems(1) obtain w1 res sm1 where
      w1: "Put hex_sum enc (se_put env (en_relPath e)) (fst st) (en_relPath e) c (en_isGenerated e) = (w1, Inr res)"
      and rest: "pack_sources hex_sum enc env strict es (w1, sm1) = Inr st'"
      by (auto split: prod.splits sum.splits option.splits if_splits)
    from run_op_ok [OF Cons.prems(2), of "(se_put env (en_relPath e), Put_op (en_relPath e) c (en_isGenerated e))"] Cons.IH [OF rest]
    show ?thesis by (simp add: w1)
  qed (use Cons in \<open>auto split: if_splits\<close>)
qed simp

section \<open>The run as a whole\<close>

lemma entries_key:
  assumes "fo = foldl (sight bdRoot pr) (no_files globs) ss" "gget (fo_entries fo) k = Some e"
  shows "en_relPath e = k" "en_absPath e = Join (pr_ProjectRoot pr) k"
  using assms(2) entries_sight [of "no_files globs" bdRoot pr ss k]
  by (auto simp: assms(1) marked_entry_def split: if_splits)

lemma pack_all_Inr:
  assumes run: "pack_all hex_sum enc env strict fo w = Inr (w', sm)" and tx: "w_tx w = Some d" and ok: "buckets_ok fo"
    and key: "\<And>k e. gget (fo_entries fo) k = Some e \<Longrightarrow> en_relPath e = k"
    and tx': "w_tx w' = Some d'"
  shows "gget (fo_entries fo) k = Some e \<Longrightarrow> packed hex_sum env strict d' e"
    and "gget (fo_generated fo) k = Some p \<Longrightarrow> se_read env p = Content c \<Longrightarrow> gget (db_generated d') k = Some (hex_sum c)"
    and "gget (fo_external fo) p \<noteq> None \<Longrightarrow> se_read env p = Content c \<Longrightarrow> gget (db_external d') p = Some (hex_sum c)"
    and "zero_globs fo = []" and "store_ok hex_sum enc w \<Longrightarrow> store_ok hex_sum enc w'"
proof -
  from run obtain st1 st2 w3 sm3 where
    p1: "pack_sources hex_sum enc env strict (map snd (by_key (fo_entries fo))) (w, zero_summary) = Inr st1"
    and p2: "pack_generated hex_sum enc env fo st1 = Inr st2" and p3: "pack_external hex_sum enc env fo st2 = Inr (w3, sm3)"
    and z: "zero_globs fo = []" and w': "w' = w3"
    by (auto simp: pack_all_def bind_result_Inr_iff split: if_splits prod.splits)
  have keyed: "map en_relPath (map snd (by_key (fo_entries fo))) = sort (gkeys (fo_entries fo))"
    unfolding by_key_keys [symmetric] by (auto simp: set_by_key key)
  have d1: "distinct (map en_relPath (map snd (by_key (fo_entries fo))))"
    unfolding keyed using ok by (simp add: buckets_ok_def gmap_ok_def)
  have d2: "distinct (map fst (by_key (fo_generated fo)))" using ok by (simp add: by_key_keys buckets_ok_def gmap_ok_def)
  have d3: "distinct (map fst (map (\<lambda>kv. (fst kv, fst kv)) (by_key (fo_external fo))))"
    using ok by (simp add: comp_def by_key_keys buckets_ok_def gmap_ok_def)
  from pack_sources_rows [OF p1 _ d1, of d] tx obtain e1 where e1: "w_tx (fst st1) = Some e1"
    "\<forall>e \<in> set (map snd (by_key (fo_entries fo))). packed hex_sum env strict e1 e" by auto
  from gen_rows.pack_files_rows [where mk = "\<lambda>h. h" and ios = "se_put_generated env" and hex_sum = hex_sum and enc = enc, OF PutGenerated_def p2 [unfolded pack_generated_def] e1(1) d2]
  obtain e2 where e2: "w_tx (fst st2) = Some e2"
    "\<forall>k p c. (k, p) \<in> set (by_key (fo_generated fo)) \<longrightarrow> se_read env p = Content c \<longrightarrow> gget (db_generated e2) k = Some (hex_sum c)"
    "keeps_rest upsert_generated e1 e2" by blast
  from ext_rows.pack_files_rows [where mk = "\<lambda>h. h" and ios = "se_put_external env" and hex_sum = hex_sum and enc = enc, OF PutExternal_def p3 [unfolded pack_external_def] e2(1) d3]
  obtain e3 where e3: "w_tx w3 = Some e3"
    "\<forall>k p c. (k, p) \<in> set (map (\<lambda>kv. (fst kv, fst kv)) (by_key (fo_external fo))) \<longrightarrow> se_read env p = Content c \<longrightarrow>
       gget (db_external e3) k = Some (hex_sum c)"
    "keeps_rest upsert_external e2 e3" unfolding fst_conv by blast
  have "db_sources e2 = db_sources e1"
    using e2(3) [unfolded keeps_rest_def, rule_format, of "\<lambda>e. db_sources e = db_sources e1"] by (simp add: upsert_generated_def)
  moreover have "db_sources e3 = db_sources e2 \<and> db_generated e3 = db_generated e2"
    using e3(3) [unfolded keeps_rest_def, rule_format, of "\<lambda>e. db_sources e = db_sources e2 \<and> db_generated e = db_generated e2"]
    by (simp add: upsert_external_def)
  ultimately have same: "db_sources e3 = db_sources e1" "db_generated e3 = db_generated e2" by simp_all
  have d': "e3 = d'" using tx' by (simp add: w' e3(1))
  show "packed hex_sum env strict d' e" if "gget (fo_entries fo) k = Some e"
  proof -
    have "(k, e) \<in> set (by_key (fo_entries fo))" using that by (simp add: set_by_key)
    with e1(2) have "packed hex_sum env strict e1 e" by force
    then show ?thesis by (simp only: packed_def same(1) d' [symmetric])
  qed
  show "gget (db_generated d') k = Some (hex_sum c)" if "gget (fo_generated fo) k = Some p" "se_read env p = Content c"
    using e2(2) that by (simp add: same(2) set_by_key d' [symmetric])
  show "gget (db_external d') p = Some (hex_sum c)" if "gget (fo_external fo) p \<noteq> None" "se_read env p = Content c"
  proof -
    from that(1) obtain v where "(p, v) \<in> set (by_key (fo_external fo))" by (auto simp: set_by_key)
    then have "(p, p) \<in> set (map (\<lambda>kv. (fst kv, fst kv)) (by_key (fo_external fo)))" by force
    with e3(2) that(2) show ?thesis unfolding d' by blast
  qed
  show "zero_globs fo = []" by (rule z)
  show "store_ok hex_sum enc w'" if s: "store_ok hex_sum enc w"
  proof -
    have s1: "store_ok hex_sum enc (fst st1)" using pack_sources_store [OF p1] s by simp
    have "store_ok hex_sum enc (fst (PutGenerated hex_sum enc (se_put_generated env k) w k c))" if "store_ok hex_sum enc w" for w k c
      using run_op_ok [OF that, of "(se_put_generated env k, Generated_op k c)"] by simp
    from gen_rows.pack_files_store [OF p2 [unfolded pack_generated_def] s1 this] have s2: "store_ok hex_sum enc (fst st2)" .
    have "store_ok hex_sum enc (fst (PutExternal hex_sum enc (se_put_external env k) w k c))" if "store_ok hex_sum enc w" for w k c
      using run_op_ok [OF that, of "(se_put_external env k, External_op k c)"] by simp
    from ext_rows.pack_files_store [OF p3 [unfolded pack_external_def] s2 this] show ?thesis by (simp add: w')
  qed
qed

lemma Sources_Inr:
  assumes "Sources hex_sum enc env db bd intro pr opts = (db', Inr sm)"
  obtains fo w' where "collect_files env bd intro pr opts = Inr fo"
    "pack_all hex_sum enc env (so_Strict opts) fo \<lparr>w_tx = Some db\<rparr> = Inr (w', sm)" "w_tx w' = Some db'"
proof -
  from assms obtain fo w' where "collect_files env bd intro pr opts = Inr fo"
    "pack_all hex_sum enc env (so_Strict opts) fo \<lparr>w_tx = Some db\<rparr> = Inr (w', sm)"
    "\<exists>x. Commit (se_commit env) db w' = (db', x, None)"
    by (auto simp: Sources_def New_def split: sum.splits if_splits prod.splits option.splits)
  then show thesis by (intro that [of fo w']) (auto simp: Commit_def split: option.splits if_splits)
qed

lemma Sources_Inl: "Sources hex_sum enc env db bd intro pr opts = (db', Inl e) \<Longrightarrow> db' = db"
  by (auto simp: Sources_def New_def Commit_def split: sum.splits if_splits prod.splits option.splits)

lemma Join_Rel:
  assumes "IsAbs b" "IsAbs p" "Rel b p = Some k" "\<not> HasPrefix k ''..''"
  shows "Join b k = Clean p"
proof -
  obtain cs bs ts where s: "path_comps b = cs @ bs" "path_comps p = cs @ ts" "bs = [] \<or> ts = [] \<or> hd bs \<noteq> hd ts"
    by (rule common_prefix_split)
  have r: "k = (if bs = [] \<and> ts = [] then ''.'' else join_with ''/'' (replicate (length bs) ''..'' @ ts))"
    using Rel_abs [OF assms(1,2) s] assms(3) by simp
  have "bs = []" using assms(4) HasPrefix_up [of "length bs - 1" ts] by (cases bs) (auto simp: r)
  then have k: "k = rel_of ts" and pc: "path_comps p = path_comps b @ ts" using s by (simp_all add: r rel_of_def)
  have "\<forall>c \<in> set ts. is_name c" using path_comps_names [OF assms(2)] pc by auto
  with Join_rel_of [OF assms(1)] k pc assms(2) show ?thesis by (simp add: Clean_def)
qed

lemma dep_path_clean: "IsAbs r \<Longrightarrow> IsAbs (dep_path r d) \<and> Clean (dep_path r d) = dep_path r d"
  by (simp add: dep_path_def Clean_idem)

lemma abs_of_clean: "abs_of cwd p = Some q \<Longrightarrow> (\<And>d. cwd = Some d \<Longrightarrow> IsAbs d) \<Longrightarrow> IsAbs q \<and> Clean q = q"
proof -
  assume a: "abs_of cwd p = Some q" "\<And>d. cwd = Some d \<Longrightarrow> IsAbs d"
  have "\<not> IsAbs []" by (simp add: IsAbs_def)
  with a show ?thesis by (cases cwd) (auto simp: abs_of_def Join_def Clean_idem split: if_splits)
qed

text \<open>The file of a build directory key, and the row it gets.\<close>

lemma built_found:
  assumes fo: "fo = foldl (sight r pr) (no_files globs) ss" and r: "IsAbs r"
    and ss: "\<And>q. Built q \<in> set ss \<Longrightarrow> IsAbs q \<and> Clean q = q" and p: "Built p \<in> set ss" and u: "isUnderBuildDir p r"
  shows "\<exists>k. Rel r p = Some k \<and> gget (fo_generated fo) k = Some p"
proof -
  from u obtain k where k: "Rel r p = Some k" "\<not> HasPrefix k ''..''" by (auto simp: isUnderBuildDir_def split: option.splits)
  have "p \<in> set (List.map_filter (built_path r k) ss)" using p k by (force simp: List.map_filter_def)
  then obtain q qs where q: "List.map_filter (built_path r k) ss = q # qs" by (cases "List.map_filter (built_path r k) ss") auto
  then have "q \<in> set (List.map_filter (built_path r k) ss)" by simp
  then obtain s where "s \<in> set ss" "built_path r k s = Some q" by (auto simp: List.map_filter_def)
  then have "Built q \<in> set ss \<and> Rel r q = Some k" by (cases s rule: sighting.exhaust) (simp_all split: if_splits)
  then have qk: "Rel r q = Some k" "Built q \<in> set ss" by simp_all
  have "q = p" using Join_Rel [OF r _ k] Join_Rel [OF r _ qk(1) k(2)] ss [OF p] ss [OF qk(2)] by simp
  with generated_sight [of "no_files globs" r pr ss k] q k show ?thesis by (simp add: fo)
qed

lemma in_sightings:
  "t \<in> set (in_Targets intro) \<Longrightarrow> s \<in> set (tg_Sources t) \<Longrightarrow> source_sighting pr s \<in> set (sightings env bd intro pr opts)"
  "t \<in> set (in_Targets intro) \<Longrightarrow> s \<in> set (tg_Generated t) \<Longrightarrow> output_sighting env pr s \<in> set (sightings env bd intro pr opts)"
  "(ob, d) \<in> set (recorded_deps env bd) \<Longrightarrow> dep_sighting (bd_Root bd) pr (so_ExternalGlobs opts) ob d = Some g \<Longrightarrow>
     g \<in> set (sightings env bd intro pr opts)"
  by (force simp: sightings_def target_sightings_def List.map_filter_def)+

lemma project_found:
  assumes "Project rel gen req c \<in> set ss"
  shows "\<exists>e. gget (fo_entries (foldl (sight r pr) (no_files globs) ss)) rel = Some e \<and> en_absPath e = Join (pr_ProjectRoot pr) rel \<and>
    en_relPath e = rel \<and> (gen \<longrightarrow> en_isGenerated e) \<and> (req \<longrightarrow> en_required e) \<and> (c \<noteq> [] \<longrightarrow> c \<in> set (en_consumers e))"
proof -
  have "(gen, req, c) \<in> set (marks rel ss)" using assms by (force simp: marks_def List.map_filter_def)
  then show ?thesis using entries_sight [of "no_files globs" r pr ss rel]
    by (auto simp: marked_entry_def image_iff intro!: bexI [of _ "(gen, req, c)"])
qed

text \<open>The file that the pass reads for a path in the project, and the rows of the tables.\<close>

definition project_file :: "source_env \<Rightarrow> PathResolver \<Rightarrow> string \<Rightarrow> read_result" where
  "project_file env pr p = se_read env (Join (pr_ProjectRoot pr) (rp_Rel (ToProjectRelative pr p)))"

definition source_row :: "blob_db \<Rightarrow> PathResolver \<Rightarrow> string \<Rightarrow> (string \<times> nat) option" where
  "source_row db pr p = gget (db_sources db) (rp_Rel (ToProjectRelative pr p))"

definition built_row :: "blob_db \<Rightarrow> BuildDir \<Rightarrow> string \<Rightarrow> string option" where
  "built_row db bd p = (case Rel (bd_Root bd) p of None \<Rightarrow> None | Some k \<Rightarrow> gget (db_generated db) k)"

lemma Sources_leaves:
  assumes run: "Sources hex_sum enc env db bd intro pr opts = (db', Inr sm)"
    and root: "IsAbs (bd_Root bd)" and cwd: "\<forall>d. se_cwd env = Some d \<longrightarrow> IsAbs d"
  shows "(\<forall>t \<in> set (in_Targets intro).
      (\<forall>s \<in> set (tg_Sources t). rp_InProject (ToProjectRelative pr s) \<and>
         (\<exists>c g. project_file env pr s = Content c \<and> source_row db' pr s = Some (hex_sum c, g))) \<and>
      (\<forall>s \<in> set (tg_Generated t).
         if rp_InProject (ToProjectRelative pr s)
         then \<exists>c. project_file env pr s = Content c \<and> source_row db' pr s = Some (hex_sum c, 1)
         else \<exists>p. abs_of (se_cwd env) s = Some p \<and> isUnderBuildDir p (bd_Root bd) \<and>
                (\<forall>c. se_read env p = Content c \<longrightarrow> built_row db' bd p = Some (hex_sum c)))) \<and>
    (\<forall>(ob, d) \<in> set (recorded_deps env bd). let p = dep_path (bd_Root bd) d in
       if rp_InProject (ToProjectRelative pr d)
       then \<forall>c. project_file env pr d = Content c \<longrightarrow> (\<exists>g. source_row db' pr d = Some (hex_sum c, g))
       else if isUnderBuildDir p (bd_Root bd) then \<forall>c. se_read env p = Content c \<longrightarrow> built_row db' bd p = Some (hex_sum c)
       else MatchesAnyExternalGlob p (so_ExternalGlobs opts) \<longrightarrow>
            (\<forall>c. se_read env p = Content c \<longrightarrow> gget (db_external db') p = Some (hex_sum c)))"
  using run
proof (rule Sources_Inr)
  fix fo w'
  assume c: "collect_files env bd intro pr opts = Inr fo"
    and pa: "pack_all hex_sum enc env (so_Strict opts) fo \<lparr>w_tx = Some db\<rparr> = Inr (w', sm)" and w': "w_tx w' = Some db'"
  let ?ss = "sightings env bd intro pr opts"
  note cf = collect_files_Inr [OF c]
  have "buckets_ok fo" unfolding cf(1) by (simp add: buckets_ok_sights)
  note pa_facts = pack_all_Inr [OF pa _ this entries_key(1) [OF cf(1)] w', of db, simplified]
  note pk = pa_facts(1) and gn = pa_facts(2) and ex = pa_facts(3)
  have proj: "(\<forall>c. project_file env pr s = Content c \<longrightarrow> (\<exists>g. source_row db' pr s = Some (hex_sum c, g) \<and> (gen \<longrightarrow> g = 1))) \<and>
      (req \<longrightarrow> (\<exists>c. project_file env pr s = Content c))"
    if "Project (rp_Rel (ToProjectRelative pr s)) gen req cons \<in> set ?ss" for s gen req cons
  proof -
    from project_found [OF that, of "bd_Root bd" pr "so_ExternalGlobs opts", folded cf(1)] obtain e where
      e: "gget (fo_entries fo) (rp_Rel (ToProjectRelative pr s)) = Some e" "en_absPath e = Join (pr_ProjectRoot pr) (rp_Rel (ToProjectRelative pr s))"
      "en_relPath e = rp_Rel (ToProjectRelative pr s)" "gen \<longrightarrow> en_isGenerated e" "req \<longrightarrow> en_required e" by blast
    from pk [OF e(1)] e(2-5) show ?thesis
      by (cases "se_read env (en_absPath e)") (auto simp: packed_def project_file_def source_row_def)
  qed
  have cl: "IsAbs q \<and> Clean q = q" if "Built q \<in> set ?ss" for q
  proof -
    from that consider t s where "t \<in> set (in_Targets intro)" "s \<in> set (tg_Generated t)" "output_sighting env pr s = Built q"
      | ob d where "dep_sighting (bd_Root bd) pr (so_ExternalGlobs opts) ob d = Some (Built q)"
      by (auto simp: sightings_def target_sightings_def source_sighting_def List.map_filter_def)
    then show ?thesis
    proof cases
      case 1
      with cf(3) obtain p where "abs_of (se_cwd env) s = Some p" by (auto simp: output_sighting_def Let_def split: if_splits)
      with 1 abs_of_clean cwd show ?thesis by (auto simp: output_sighting_def Let_def split: if_splits)
    next
      case 2
      then show ?thesis using dep_path_clean [OF root] by (auto simp: dep_sighting_def Let_def split: if_splits)
    qed
  qed
  have blt: "built_row db' bd p = Some (hex_sum c)" if "Built p \<in> set ?ss" "isUnderBuildDir p (bd_Root bd)" "se_read env p = Content c" for p c
    using built_found [OF cf(1) root cl that(1,2)] gn that(3) by (auto simp: built_row_def)
  show ?thesis
  proof (intro conjI ballI)
    fix t s assume t: "t \<in> set (in_Targets intro)"
    { assume s: "s \<in> set (tg_Sources t)"
      show "rp_InProject (ToProjectRelative pr s)" using cf(2) [OF t s] .
      show "\<exists>c g. project_file env pr s = Content c \<and> source_row db' pr s = Some (hex_sum c, g)"
        using proj [OF in_sightings(1) [OF t s, unfolded source_sighting_def]] by blast }
    assume s: "s \<in> set (tg_Generated t)"
    note o = in_sightings(2) [OF t s, of env pr bd opts, unfolded output_sighting_def Let_def]
    show "if rp_InProject (ToProjectRelative pr s)
         then \<exists>c. project_file env pr s = Content c \<and> source_row db' pr s = Some (hex_sum c, 1)
         else \<exists>p. abs_of (se_cwd env) s = Some p \<and> isUnderBuildDir p (bd_Root bd) \<and>
                (\<forall>c. se_read env p = Content c \<longrightarrow> built_row db' bd p = Some (hex_sum c))"
    proof (cases "rp_InProject (ToProjectRelative pr s)")
      case True
      with proj [of s True True "[]"] o show ?thesis by auto
    next
      case False
      with cf(3) [OF t s] obtain p where p: "abs_of (se_cwd env) s = Some p" "isUnderBuildDir p (bd_Root bd)" by blast
      with o False have "Built p \<in> set ?ss" by simp
      with blt p False show ?thesis by auto
    qed
  next
    fix x assume "x \<in> set (recorded_deps env bd)"
    moreover obtain ob d where x: "x = (ob, d)" by fastforce
    ultimately have d: "(ob, d) \<in> set (recorded_deps env bd)" by simp
    note sg = in_sightings(3) [OF d, of pr opts _ intro, unfolded dep_sighting_def Let_def]
    show "case x of (ob, d) \<Rightarrow> let p = dep_path (bd_Root bd) d in
       if rp_InProject (ToProjectRelative pr d)
       then \<forall>c. project_file env pr d = Content c \<longrightarrow> (\<exists>g. source_row db' pr d = Some (hex_sum c, g))
       else if isUnderBuildDir p (bd_Root bd) then \<forall>c. se_read env p = Content c \<longrightarrow> built_row db' bd p = Some (hex_sum c)
       else MatchesAnyExternalGlob p (so_ExternalGlobs opts) \<longrightarrow>
            (\<forall>c. se_read env p = Content c \<longrightarrow> gget (db_external db') p = Some (hex_sum c))"
    proof (cases "rp_InProject (ToProjectRelative pr d)")
      case True
      with proj sg show ?thesis by (fastforce simp: x)
    next
      case False
      let ?p = "dep_path (bd_Root bd) d"
      show ?thesis
      proof (cases "isUnderBuildDir ?p (bd_Root bd)")
        case True
        with False sg have "Built ?p \<in> set ?ss" by simp
        with blt True False show ?thesis by (simp add: x Let_def)
      next
        case nu: False
        have "gget (fo_external fo) ?p \<noteq> None" if m: "MatchesAnyExternalGlob ?p (so_ExternalGlobs opts)"
        proof -
          from m obtain g where "find (\<lambda>g. Match g ?p) (so_ExternalGlobs opts) = Some g"
            by (metis MatchesAny_iff find_None_iff not_Some_eq)
          with sg False nu have "Header ?p (Raw g) \<in> set ?ss" by simp
          then show ?thesis unfolding cf(1) external_sight by blast
        qed
        with ex False nu show ?thesis by (auto simp: x Let_def)
      qed
    qed
  qed
qed

text \<open>
  C22 A successful run leaves every file of the build in the index. Each source that Meson lists for a target
  is a project file that was read and has a row with the sum of its content; so has each generated file in
  the project, marked as generated, while one outside the project lies in the build directory and has its row
  there when the file exists. Of the inputs that ninja recorded, a project file that exists has its row, a
  file of the build directory has its row there, and any other file has a row when a pattern matches it.
\<close>

theorem Sources_complete:
  assumes run: "Sources hex_sum enc env db bd intro pr opts = (db', Inr sm)"
    and root: "IsAbs (bd_Root bd)" and cwd: "\<forall>d. se_cwd env = Some d \<longrightarrow> IsAbs d"
  shows "(\<forall>t \<in> set (in_Targets intro).
      (\<forall>s \<in> set (tg_Sources t). rp_InProject (ToProjectRelative pr s) \<and>
         (\<exists>c g. project_file env pr s = Content c \<and> source_row db' pr s = Some (hex_sum c, g))) \<and>
      (\<forall>s \<in> set (tg_Generated t).
         if rp_InProject (ToProjectRelative pr s)
         then \<exists>c. project_file env pr s = Content c \<and> source_row db' pr s = Some (hex_sum c, 1)
         else \<exists>p. abs_of (se_cwd env) s = Some p \<and> isUnderBuildDir p (bd_Root bd) \<and>
                (\<forall>c. se_read env p = Content c \<longrightarrow> built_row db' bd p = Some (hex_sum c)))) \<and>
    (\<forall>(ob, d) \<in> set (recorded_deps env bd). let p = dep_path (bd_Root bd) d in
       if rp_InProject (ToProjectRelative pr d)
       then \<forall>c. project_file env pr d = Content c \<longrightarrow> (\<exists>g. source_row db' pr d = Some (hex_sum c, g))
       else if isUnderBuildDir p (bd_Root bd) then \<forall>c. se_read env p = Content c \<longrightarrow> built_row db' bd p = Some (hex_sum c)
       else MatchesAnyExternalGlob p (so_ExternalGlobs opts) \<longrightarrow>
            (\<forall>c. se_read env p = Content c \<longrightarrow> gget (db_external db') p = Some (hex_sum c)))"
  by (rule Sources_leaves [OF run root cwd])

text \<open>Only the second pass over the build looks at the log.\<close>

lemma mark_outputs_log: "mark_outputs (env\<lparr>se_deps := x\<rparr>) r pr n outs fo = mark_outputs env r pr n outs fo"
  by (induction outs arbitrary: fo) (simp_all add: Let_def split: option.split)

lemma mark_targets_log: "mark_targets (env\<lparr>se_deps := x\<rparr>) r pr ts fo = mark_targets env r pr ts fo"
proof (induction ts arbitrary: fo)
  case (Cons t ts)
  then have "mark_targets (env\<lparr>se_deps := x\<rparr>) r pr ts = mark_targets env r pr ts" by blast
  then show ?case by (simp add: mark_outputs_log)
qed simp

lemma newer_consumer_log: "newer_consumer (env\<lparr>se_deps := x\<rparr>) m objs = newer_consumer env m objs"
  by (induction objs) (simp_all split: option.split)

lemma checkStrictMtime_log: "checkStrictMtime (env\<lparr>se_deps := x\<rparr>) p cs = checkStrictMtime env p cs"
  by (cases "se_mtime env p") (simp_all add: checkStrictMtime_def newer_consumer_log)

lemma pack_sources_log: "pack_sources h c (env\<lparr>se_deps := x\<rparr>) b es st = pack_sources h c env b es st"
proof (induction es arbitrary: st)
  case (Cons e es)
  then show ?case
    by (cases b; cases "se_read env (en_absPath e)") (simp_all add: checkStrictMtime_log split: prod.split sum.split option.split)
qed simp

lemma pack_all_log: "pack_all h c (env\<lparr>se_deps := x\<rparr>) b fo w = pack_all h c env b fo w"
proof -
  have "pack_sources h c (env\<lparr>se_deps := x\<rparr>) b es = pack_sources h c env b es" for es by (rule ext) (rule pack_sources_log)
  then show ?thesis by (simp add: pack_all_def pack_generated_def pack_external_def)
qed

lemma ReadForBuildDir_encode:
  assumes "recs_ok 0 rs"
  shows "ReadForBuildDir (Exists (Some (encode_log rs))) = (Some \<lparr>log_Version = 4, log_Deps = snd (replay rs)\<rparr>, None)"
proof -
  have "read_loop [] [] (encode_recs 0 rs) = (snd (replay rs), None)"
    using read_recs [of "[]" rs "[]" "[]"] assms by (auto simp: replay_def read_loop_nat [of _ _ "[]"] split: prod.splits)
  moreover have "le32 (enc32 4 @ encode_recs 0 rs) = 4" by (subst le32_enc32) simp_all
  ultimately show ?thesis
    by (simp add: ReadForBuildDir_def Read_def encode_log_def log_header_def SupportedVersion_def Let_def)
qed

lemma collect_files_log:
  assumes "ReadForBuildDir x = (Some l, None)"
  shows "collect_files (env\<lparr>se_deps := x\<rparr>) bd intro pr opts =
    bind_result (mark_targets env (bd_Root bd) pr (in_Targets intro) (no_files (so_ExternalGlobs opts)))
      (\<lambda>fo. Inr (foldl (mark_object (bd_Root bd) pr (so_ExternalGlobs opts) l) fo (bd_Objects bd)))"
  by (simp add: collect_files_def mark_targets_log assms)

text \<open>A build of one file that includes a generated header and a system header.\<close>

definition sample_recs :: "nd_rec list" where
  "sample_recs = [Path_rec ''m.o'', Path_rec ''../p/m.c'', Path_rec ''conf.h'', Path_rec ''/usr/include/a/x.h'', Deps_rec 0 7 [1, 2, 3]]"

definition sample_ninja :: Log where
  "sample_ninja = \<lparr>log_Version = 4, log_Deps = [(''m.o'', [''../p/m.c'', ''conf.h'', ''/usr/include/a/x.h''])]\<rparr>"

definition all_work :: bs_io where
  "all_work = \<lparr>io_probe = True, io_insert = True, io_upsert = True\<rparr>"

definition no_log_env :: source_env where
  "no_log_env = \<lparr>se_read = (\<lambda>p. Content (''text of '' @ p)), se_mtime = (\<lambda>_. Some 0), se_cwd = Some ''/'',
     se_deps = Not_exist, se_begin = True, se_encoder = True, se_put = (\<lambda>_. all_work), se_put_generated = (\<lambda>_. all_work),
     se_put_external = (\<lambda>_. all_work), se_commit = True\<rparr>"

definition sample_env :: source_env where
  "sample_env = no_log_env\<lparr>se_deps := Exists (Some (encode_log sample_recs))\<rparr>"

definition sample_tree :: BuildDir where
  "sample_tree = \<lparr>bd_Root = ''/b'', bd_Objects = [\<lparr>oa_Object = ''/b/m.o'', oa_CI = [], oa_Cgraph = [], oa_Inline = [], oa_ICF = [],
     oa_OptRecord = [], oa_Preprocessed = []\<rparr>], bd_LinkerMaps = []\<rparr>"

definition sample_meson :: Introspection where
  "sample_meson = \<lparr>in_MesonVersion = [], in_SourceDir = [], in_BuildDir = [], in_Targets =
     [\<lparr>tg_Name = ''app'', tg_ID = [], tg_Kind = ''executable'', tg_DefinedIn = [], tg_Filenames = [], tg_Sources = [''/p/m.c''],
       tg_Generated = [''/b/gen.h''], tg_CompileParams = [], tg_CompilerCmd = None, tg_LinkCmd = None, tg_Installed = False, tg_Subproject = []\<rparr>],
     in_CCompiler = zero_compiler, in_Dependencies = []\<rparr>"

definition sample_resolver :: PathResolver where
  "sample_resolver = \<lparr>pr_BuildDir = ''/b'', pr_ProjectRoot = ''/p''\<rparr>"

definition sample_opts :: "ExternalGlob list \<Rightarrow> SourcesOptions" where
  "sample_opts globs = \<lparr>so_Strict = True, so_ExternalGlobs = globs\<rparr>"

definition usr_glob :: ExternalGlob where
  "usr_glob = \<lparr>eg_raw = ''/usr/include/**'', eg_prefix = ''/usr/include''\<rparr>"

definition usr_a_glob :: ExternalGlob where
  "usr_a_glob = \<lparr>eg_raw = ''/usr/include/a/*'', eg_prefix = []\<rparr>"

definition sample_sources :: "ExternalGlob list \<Rightarrow> blob_db \<times> (sources_error + SourcesSummary)" where
  "sample_sources globs = Sources id id sample_env empty_db sample_tree sample_meson sample_resolver (sample_opts globs)"

text \<open>The same run with the log already read.\<close>

definition sample_found :: "ExternalGlob list \<Rightarrow> sources_error + found" where
  "sample_found globs =
     bind_result (mark_targets no_log_env ''/b'' sample_resolver (in_Targets sample_meson) (no_files globs))
       (\<lambda>fo. Inr (foldl (mark_object ''/b'' sample_resolver globs sample_ninja) fo (bd_Objects sample_tree)))"

lemma sample_log_read: "ReadForBuildDir (se_deps sample_env) = (Some sample_ninja, None)"
proof -
  have "recs_ok 0 sample_recs" by (simp add: sample_recs_def padded_len_def)
  moreover have "snd (replay sample_recs) = log_Deps sample_ninja" by code_simp
  ultimately show ?thesis using ReadForBuildDir_encode [of sample_recs] by (simp add: sample_env_def sample_ninja_def)
qed

lemma sample_sources_eq:
  "sample_sources globs =
     (case sample_found globs of
        Inl e \<Rightarrow> (empty_db, Inl e)
      | Inr fo \<Rightarrow>
          (case pack_all id id no_log_env True fo \<lparr>w_tx = Some empty_db\<rparr> of
             Inl e \<Rightarrow> (empty_db, Inl e)
           | Inr (w', sm) \<Rightarrow>
               (case Commit True empty_db w' of
                  (db', _, None) \<Rightarrow> (db', Inr sm)
                | (db', _, Some e) \<Rightarrow> (db', Inl (S_store e)))))"
proof -
  have "collect_files sample_env sample_tree sample_meson sample_resolver (sample_opts globs) = sample_found globs"
    using collect_files_log [of "se_deps sample_env" sample_ninja no_log_env sample_tree sample_meson sample_resolver "sample_opts globs"]
      sample_log_read by (simp add: sample_env_def sample_found_def sample_tree_def sample_opts_def)
  moreover have "se_begin sample_env" "se_encoder sample_env" "se_commit sample_env" by (simp_all add: sample_env_def no_log_env_def)
  ultimately show ?thesis
    by (simp add: sample_sources_def Sources_def New_def sample_env_def pack_all_log sample_opts_def split: sum.split)
qed

lemma sample_sources_result:
  "\<exists>db' sm. sample_sources [usr_glob] = (db', Inr sm) \<and> ss_Files sm = 1 \<and> ss_GeneratedFiles sm = 2 \<and> ss_ExternalFiles sm = 1"
proof -
  have "(case sample_sources [usr_glob] of (db', Inl e) \<Rightarrow> False
     | (db', Inr sm) \<Rightarrow> ss_Files sm = 1 \<and> ss_GeneratedFiles sm = 2 \<and> ss_ExternalFiles sm = 1)"
    unfolding sample_sources_eq by code_simp
  then show ?thesis by (auto split: prod.splits sum.splits)
qed

theorem Sources_complete_witness:
  "\<exists>db' sm c g. sample_sources [usr_glob] = (db', Inr sm) \<and> project_file sample_env sample_resolver ''/p/m.c'' = Content c \<and>
     source_row db' sample_resolver ''/p/m.c'' = Some (c, g)"
proof -
  obtain db' sm where r: "sample_sources [usr_glob] = (db', Inr sm)" using sample_sources_result by blast
  have root: "IsAbs (bd_Root sample_tree)" and cwd: "\<forall>d. se_cwd sample_env = Some d \<longrightarrow> IsAbs d"
    by (simp_all add: sample_tree_def sample_env_def no_log_env_def IsAbs_def)
  have "\<exists>c g. project_file sample_env sample_resolver ''/p/m.c'' = Content c \<and> source_row db' sample_resolver ''/p/m.c'' = Some (id c, g)"
    using conjunct1 [OF Sources_complete [OF r [unfolded sample_sources_def] root cwd], THEN bspec, of "hd (in_Targets sample_meson)",
        THEN conjunct1, THEN bspec, of "''/p/m.c''"] by (simp add: sample_meson_def)
  with r show ?thesis by auto
qed

lemma Sources_stores:
  assumes "blobs_ok hex_sum enc db" "rows_ok db" "Sources hex_sum enc env db bd intro pr opts = (db', Inr sm)"
  shows "blobs_ok hex_sum enc db' \<and> rows_ok db'"
  using assms(3)
proof (rule Sources_Inr)
  fix fo w'
  assume c: "collect_files env bd intro pr opts = Inr fo"
    and pa: "pack_all hex_sum enc env (so_Strict opts) fo \<lparr>w_tx = Some db\<rparr> = Inr (w', sm)" and w': "w_tx w' = Some db'"
  note cf = collect_files_Inr(1) [OF c]
  have "buckets_ok fo" unfolding cf by (simp add: buckets_ok_sights)
  from pack_all_Inr(5) [OF pa _ this entries_key(1) [OF cf] w'] assms(1,2)
  have "store_ok hex_sum enc w'" by (simp add: store_ok_def)
  then show ?thesis by (simp add: store_ok_def w')
qed

text \<open>
  All or nothing: whatever goes wrong, a path outside the project, a damaged log, an unreadable file, a
  statement or the commit, the tables are as they were; and a run that succeeds keeps the store addressed by
  content and closed under references.
\<close>

theorem Sources_atomic:
  assumes "blobs_ok hex_sum enc db" "rows_ok db" "Sources hex_sum enc env db bd intro pr opts = (db', res)"
  shows "blobs_ok hex_sum enc db' \<and> rows_ok db' \<and> (\<forall>e. res = Inl e \<longrightarrow> db' = db)"
  using assms Sources_Inl [of hex_sum enc env db bd intro pr opts db'] Sources_stores [OF assms(1,2), of env bd intro pr opts db']
  by (cases res) auto

theorem Sources_atomic_witness:
  "\<exists>db' sm. sample_sources [usr_glob] = (db', Inr sm) \<and> blobs_ok id id db' \<and> rows_ok db'"
proof -
  obtain db' sm where r: "sample_sources [usr_glob] = (db', Inr sm)" using sample_sources_result by blast
  have "blobs_ok id id empty_db" "rows_ok empty_db" by (simp_all add: blobs_ok_def rows_ok_def empty_db_def)
  from Sources_atomic [OF this r [unfolded sample_sources_def]] r show ?thesis by blast
qed




text \<open>Packing the files of the build directory and the external headers does not depend on any time, strict or not.\<close>

lemma times_not_compared:
  "pack_generated hex_sum enc (env\<lparr>se_mtime := f\<rparr>) fo = pack_generated hex_sum enc env fo"
  "pack_external hex_sum enc (env\<lparr>se_mtime := f\<rparr>) fo = pack_external hex_sum enc env fo"
  by (simp_all add: pack_generated_def pack_external_def)

text \<open>
  A pattern counts a match only for a header that no earlier pattern matches. A pattern all of whose headers
  are covered by an earlier one is reported as matching nothing, and the run fails.
\<close>

lemma overlapping_globs_refused:
  "Match usr_a_glob ''/usr/include/a/x.h'' \<and> snd (sample_sources [usr_a_glob, usr_glob]) = Inl (S_zero_globs [''/usr/include/**'']) \<and>
   (\<exists>sm. snd (sample_sources [usr_a_glob]) = Inr sm) \<and> (\<exists>sm. snd (sample_sources [usr_glob]) = Inr sm)"
proof -
  have "Match usr_a_glob ''/usr/include/a/x.h''" by code_simp
  moreover have "snd (sample_sources [usr_a_glob, usr_glob]) = Inl (S_zero_globs [''/usr/include/**''])" unfolding sample_sources_eq by code_simp
  moreover have "\<not> isl (snd (sample_sources [usr_a_glob]))" unfolding sample_sources_eq by code_simp
  moreover have "\<not> isl (snd (sample_sources [usr_glob]))" unfolding sample_sources_eq by code_simp
  ultimately show ?thesis by (metis sum.collapse(2))
qed

end
