(* ===== verification/Dwarf_Data.thy ===== *)
theory Dwarf_Data
  imports Herb_Prelude Go_Text "HOL-Library.Word"
begin

text \<open>
  What the DWARF reader of \<open>internal/dwarfingest\<close> uses of Go's \<open>debug/dwarf\<close>: entries with typed
  attribute values, the reader as the rest of the stream of entries, \<open>Seek\<close>, \<open>Next\<close> and
  \<open>SkipChildren\<close>, and the file table of a line program. Beside the stream stands the tree of
  entries it serialises: \<open>flat\<close> writes a tree as the stream in which a null entry ends each list
  of children, and the lemmas say what the stream operations do on it.
\<close>

section \<open>Entries and their attributes\<close>

text \<open>The tags and attributes the program looks at. The null entry that ends a list of children has tag 0.\<close>

datatype tag = TagNull | TagCompileUnit | TagSubprogram | TagInlinedSubroutine | TagCallSite
  | TagStructType | TagUnionType | TagClassType | TagEnumerationType | TagTypedef | TagVariable
  | TagMember | TagEnumerator | TagFormalParameter | TagUnspecifiedParameters | TagBaseType
  | TagUnspecifiedType | TagPointerType | TagConstType | TagVolatileType | TagRestrictType
  | TagArrayType | TagSubroutineType | TagOther nat

datatype attr = AttrName | AttrLinkageName | AttrCompDir | AttrType | AttrDeclFile | AttrDeclLine
  | AttrDeclColumn | AttrLowpc | AttrDeclaration | AttrInline | AttrExternal | AttrPrototyped
  | AttrAbstractOrigin | AttrCallFile | AttrCallLine | AttrCallColumn | AttrCallReturnPC
  | AttrCallTarget | AttrCallOrigin | AttrByteSize | AttrDataMemberLoc | AttrConstValue
  | AttrEncoding | AttrOther nat

text \<open>The dynamic type of an attribute value; \<open>Offset\<close> is an unsigned integer.\<close>

type_synonym offset = nat

datatype attr_val = V_string string | V_int64 int | V_uint64 "64 word" | V_offset offset
  | V_bool bool | V_bytes "8 word list" | V_goint int

record dentry =
  e_Offset :: offset
  e_Tag :: tag
  e_Children :: bool
  e_Field :: "(attr \<times> attr_val) list"

text \<open>\<open>Entry.Val\<close> finds the first field of an attribute; a type assertion keeps it when its dynamic type fits.\<close>

definition Val :: "dentry \<Rightarrow> attr \<Rightarrow> attr_val option" where
  "Val e a = map_of (e_Field e) a"

definition val_string :: "dentry \<Rightarrow> attr \<Rightarrow> string option" where
  "val_string e a = (case Val e a of Some (V_string s) \<Rightarrow> Some s | _ \<Rightarrow> None)"

definition val_int64 :: "dentry \<Rightarrow> attr \<Rightarrow> int option" where
  "val_int64 e a = (case Val e a of Some (V_int64 n) \<Rightarrow> Some n | _ \<Rightarrow> None)"

definition val_uint64 :: "dentry \<Rightarrow> attr \<Rightarrow> 64 word option" where
  "val_uint64 e a = (case Val e a of Some (V_uint64 n) \<Rightarrow> Some n | _ \<Rightarrow> None)"

definition val_offset :: "dentry \<Rightarrow> attr \<Rightarrow> offset option" where
  "val_offset e a = (case Val e a of Some (V_offset n) \<Rightarrow> Some n | _ \<Rightarrow> None)"

definition val_bool :: "dentry \<Rightarrow> attr \<Rightarrow> bool option" where
  "val_bool e a = (case Val e a of Some (V_bool b) \<Rightarrow> Some b | _ \<Rightarrow> None)"

definition val_bytes :: "dentry \<Rightarrow> attr \<Rightarrow> 8 word list option" where
  "val_bytes e a = (case Val e a of Some (V_bytes b) \<Rightarrow> Some b | _ \<Rightarrow> None)"

text \<open>A value that is used only when the assertion succeeds, the zero value otherwise.\<close>

definition or_zero :: "'a \<Rightarrow> 'a option \<Rightarrow> 'a" where
  "or_zero z x = (case x of None \<Rightarrow> z | Some v \<Rightarrow> v)"

lemma or_zero_simps [simp]: "or_zero z None = z" "or_zero z (Some v) = v"
  by (simp_all add: or_zero_def)

lemmas val_defs = Val_def val_string_def val_int64_def val_uint64_def val_offset_def val_bool_def
  val_bytes_def or_zero_def

section \<open>The reader\<close>

text \<open>
  A reader is the list of entries it has not returned yet. A reader that fails and one at its end
  both have none left: the walks below a seek stop at either. The data of an object is the stream of its entries and, beside
  it, what is decoded from an offset at which none of them begins: inside a unit the reader decodes whatever bytes are
  there, in the middle of an entry too, and outside every unit it fails. \<open>Seek 0\<close> is the start.
\<close>

record dwarf =
  dw_entries :: "dentry list"
  dw_stray :: "(offset, dentry list) gomap"

definition Seek :: "dwarf \<Rightarrow> offset \<Rightarrow> dentry list" where
  "Seek dw off =
     (if off = 0 then dw_entries dw
      else case dropWhile (\<lambda>e. e_Offset e \<noteq> off) (dw_entries dw) of
             [] \<Rightarrow> gget_or [] (dw_stray dw) off
           | e # es \<Rightarrow> e # es)"

text \<open>The number of offsets from which something is decoded, at most.\<close>

definition dw_size :: "dwarf \<Rightarrow> nat" where
  "dw_size dw = length (dw_entries dw) + length (dw_stray dw)"

definition stream :: "dentry list \<Rightarrow> dwarf" where
  "stream es = \<lparr>dw_entries = es, dw_stray = []\<rparr>"

text \<open>\<open>SkipChildren\<close> reads entries up to the null entry that ends the children of the last one.\<close>

fun skip_levels :: "nat \<Rightarrow> dentry list \<Rightarrow> dentry list" where
  "skip_levels 0 es = es"
| "skip_levels (Suc d) [] = []"
| "skip_levels (Suc d) (e # es) =
     (if e_Tag e = TagNull then skip_levels d es
      else if e_Children e then skip_levels (Suc (Suc d)) es
      else skip_levels (Suc d) es)"

definition SkipChildren :: "dentry list \<Rightarrow> dentry list" where
  "SkipChildren es = skip_levels 1 es"

text \<open>The rest of the stream behind an entry and its children.\<close>

definition after_entry :: "dentry \<Rightarrow> dentry list \<Rightarrow> dentry list" where
  "after_entry e es = (if e_Children e then SkipChildren es else es)"

lemma skip_levels_length: "length (skip_levels d es) \<le> length es"
  by (induction d es rule: skip_levels.induct) auto

lemma after_entry_length [simp]: "length (after_entry e es) < Suc (length es)"
  using skip_levels_length [of 1 es] by (auto simp: after_entry_def SkipChildren_def)

lemma after_entry_le: "length (after_entry e es) \<le> length es"
  using after_entry_length [of e es] by linarith

text \<open>
  The entries a loop over the children of an entry sees: it stops at a null entry or at the end
  and skips the children of each entry it has seen.
\<close>

function siblings :: "dentry list \<Rightarrow> dentry list" where
  "siblings [] = []"
| "siblings (e # es) = (if e_Tag e = TagNull then [] else e # siblings (after_entry e es))"
  by pat_completeness auto
termination by (relation "measure length") auto

text \<open>Where the reader stands after such a loop.\<close>

function after_siblings :: "dentry list \<Rightarrow> dentry list" where
  "after_siblings [] = []"
| "after_siblings (e # es) = (if e_Tag e = TagNull then es else after_siblings (after_entry e es))"
  by pat_completeness auto
termination by (relation "measure length") auto

lemma after_siblings_length: "length (after_siblings es) \<le> length es"
proof (induction es rule: after_siblings.induct)
  case (2 e es)
  then show ?case using after_entry_le [of e es] by auto
qed simp

section \<open>Trees of entries\<close>

datatype die = Die (die_entry: dentry) (die_children: "die list")

fun flat :: "die \<Rightarrow> dentry list" where
  "flat (Die e cs) =
     e # (if e_Children e
          then concat (map flat cs) @ [\<lparr>e_Offset = 0, e_Tag = TagNull, e_Children = False, e_Field = []\<rparr>]
          else [])"

abbreviation flats :: "die list \<Rightarrow> dentry list" where
  "flats ds \<equiv> concat (map flat ds)"

abbreviation null_entry :: dentry where
  "null_entry \<equiv> \<lparr>e_Offset = 0, e_Tag = TagNull, e_Children = False, e_Field = []\<rparr>"

text \<open>A tree as DWARF has them: no entry is null, and one without the children flag has no children.\<close>

fun die_ok :: "die \<Rightarrow> bool" where
  "die_ok (Die e cs) \<longleftrightarrow>
     e_Tag e \<noteq> TagNull \<and> (\<not> e_Children e \<longrightarrow> cs = []) \<and> list_all die_ok cs"

lemma skip_flat:
  "die_ok t \<Longrightarrow> skip_levels (Suc d) (flat t @ es) = skip_levels (Suc d) es"
proof (induction t arbitrary: d es)
  case (Die e cs)
  have all: "list_all die_ok ts \<Longrightarrow> set ts \<subseteq> set cs \<Longrightarrow>
      skip_levels (Suc d) (flats ts @ es) = skip_levels (Suc d) es" for ts d es
    by (induction ts arbitrary: es) (auto simp: Die.IH)
  show ?case using Die.prems by (simp add: all)
qed

lemma skip_flats:
  "list_all die_ok ts \<Longrightarrow> skip_levels (Suc d) (flats ts @ es) = skip_levels (Suc d) es"
  by (induction ts arbitrary: es) (auto simp: skip_flat)

lemma after_entry_flat:
  "die_ok (Die e cs) \<Longrightarrow> after_entry e (tl (flat (Die e cs)) @ es) = es"
  by (simp add: after_entry_def SkipChildren_def skip_flats [where d = 0, simplified])

lemma flat_Cons: "flat (Die e cs) = e # tl (flat (Die e cs))"
  by simp

text \<open>A loop over the children of an entry sees the direct children of its tree.\<close>

lemma siblings_flats:
  "list_all die_ok ts \<Longrightarrow> siblings (flats ts @ null_entry # es) = map die_entry ts"
proof (induction ts)
  case (Cons t ts)
  obtain e cs where t: "t = Die e cs" by (cases t)
  have "siblings (flat t @ flats ts @ null_entry # es)
      = e # siblings (after_entry e (tl (flat t) @ flats ts @ null_entry # es))"
    using Cons.prems t by simp
  also have "\<dots> = e # map die_entry ts"
    using Cons t after_entry_flat [of e cs] by simp
  finally show ?case using t by simp
qed simp

lemma after_siblings_flats:
  "list_all die_ok ts \<Longrightarrow> after_siblings (flats ts @ null_entry # es) = es"
proof (induction ts)
  case (Cons t ts)
  obtain e cs where t: "t = Die e cs" by (cases t)
  have "after_siblings (flat t @ flats ts @ null_entry # es)
      = after_siblings (after_entry e (tl (flat t) @ flats ts @ null_entry # es))"
    using Cons.prems t by simp
  also have "\<dots> = es"
    using Cons t after_entry_flat [of e cs] by simp
  finally show ?case using t by simp
qed simp

section \<open>Errors\<close>

text \<open>
  How reading an object fails: the file is no ELF object, it has no DWARF, the stream of entries is
  damaged, or the program panics (an index or slice out of range, a nil pointer).
\<close>

datatype dwarf_error = D_open string | D_extract string | D_read string | D_panic

end
