(* ===== verification/Dwarf_Signature.thy ===== *)
theory Dwarf_Signature
  imports Dwarf_Data
begin

text \<open>
  Model of \<open>internal/dwarfingest/signature.go\<close>: the memoised rendering of type entries. The
  recursion of \<open>render\<close> goes through references between entries, so it runs on fuel; the cache slot
  reserved before the recursion breaks cycles, and a unit of fuel for each entry and each other offset that decodes, and two more, are
  always enough (\<open>render_terminates\<close>). The reference definition \<open>plain\<close> renders without a cache, and
  where references do not run in a cycle the memoised walk agrees with it whatever was rendered
  before.
\<close>

type_synonym type_cache = "(offset, string) gomap"
type_synonym renderer = "offset \<Rightarrow> type_cache \<Rightarrow> (string \<times> type_cache) option"

section \<open>Parameter lists\<close>

text \<open>One parameter or ellipsis of the children; an unprintable type is a question mark.\<close>

fun walk_entries :: "renderer \<Rightarrow> dentry list \<Rightarrow> string list \<Rightarrow> bool \<Rightarrow> type_cache
    \<Rightarrow> ((string list \<times> bool) \<times> type_cache) option" where
  "walk_entries rnd [] params variadic c = Some ((params, variadic), c)"
| "walk_entries rnd (e # es) params variadic c =
     (if e_Tag e = TagFormalParameter then
        (case (case val_offset e AttrType of Some pt \<Rightarrow> rnd pt c | None \<Rightarrow> Some ([], c)) of
           None \<Rightarrow> None
         | Some (p, c') \<Rightarrow> walk_entries rnd es (params @ [if p = [] then ''?'' else p]) variadic c')
      else if e_Tag e = TagUnspecifiedParameters then walk_entries rnd es params True c
      else walk_entries rnd es params variadic c)"

definition walkParams :: "renderer \<Rightarrow> dentry list \<Rightarrow> type_cache
    \<Rightarrow> ((string list \<times> bool) \<times> type_cache) option" where
  "walkParams rnd es c = walk_entries rnd (siblings es) [] False c"

definition prototyped :: "dentry \<Rightarrow> bool" where
  "prototyped e = or_zero False (val_bool e AttrPrototyped)"

definition paramList :: "string list \<Rightarrow> bool \<Rightarrow> bool \<Rightarrow> string" where
  "paramList params variadic proto =
     (if params = [] \<and> \<not> proto then ''()''
      else if params = [] \<and> variadic then ''(...)''
      else if params = [] then ''(void)''
      else if variadic then ''('' @ join_with '', '' params @ '', ...)''
      else ''('' @ join_with '', '' params @ '')'')"

section \<open>Rendering a type\<close>

text \<open>The return type of an entry, and its parameter list read from its children.\<close>

definition return_type :: "renderer \<Rightarrow> dentry \<Rightarrow> type_cache \<Rightarrow> (string \<times> type_cache) option" where
  "return_type rnd e c = (case val_offset e AttrType of Some off \<Rightarrow> rnd off c | None \<Rightarrow> Some (''void'', c))"

definition renderSubroutineType :: "renderer \<Rightarrow> dwarf \<Rightarrow> offset \<Rightarrow> dentry \<Rightarrow> type_cache
    \<Rightarrow> (string \<times> type_cache) option" where
  "renderSubroutineType rnd dw off e c =
     (case return_type rnd e c of
        None \<Rightarrow> None
      | Some (ret, c1) \<Rightarrow>
          (case Seek dw off of
             [] \<Rightarrow> Some (ret @ '' ()'', c1)
           | _ # es \<Rightarrow>
               (case walkParams rnd es c1 of
                  None \<Rightarrow> None
                | Some ((params, variadic), c2) \<Rightarrow>
                    Some (ret @ '' '' @ paramList params variadic (prototyped e), c2))))"

text \<open>A pointer to a type already rendered: a function type gets its star between return type and parameters.\<close>

definition pointer_to :: "string \<Rightarrow> string" where
  "pointer_to inner =
     (if inner = [] then ''void *''
      else
        (let spliced =
           (if HasSuffix inner '')'' \<and> Contains inner ''('' \<and> \<not> HasSuffix inner ''*''
            then (case Index inner ''('' of
                    Some paren \<Rightarrow> if 0 < paren then Some (take paren inner @ ''('' @ ''*)'' @ drop paren inner) else None
                  | None \<Rightarrow> None)
            else None)
         in case spliced of
              Some s \<Rightarrow> s
            | None \<Rightarrow> if HasSuffix inner ''*'' then inner @ ''*'' else inner @ '' *''))"

text \<open>A keyword in front of the tag of a struct, union or enum.\<close>

definition tagged :: "string \<Rightarrow> dentry \<Rightarrow> string" where
  "tagged keyword e =
     (case val_string e AttrName of
        Some n \<Rightarrow> if n \<noteq> [] then keyword @ '' '' @ n else keyword
      | None \<Rightarrow> keyword)"

definition qualified_type :: "renderer \<Rightarrow> string \<Rightarrow> dentry \<Rightarrow> type_cache \<Rightarrow> (string \<times> type_cache) option" where
  "qualified_type rnd keyword e c =
     (case val_offset e AttrType of
        Some off \<Rightarrow> map_option (\<lambda>(s, c'). (keyword @ '' '' @ s, c')) (rnd off c)
      | None \<Rightarrow> Some (keyword, c))"

definition renderNoCache :: "renderer \<Rightarrow> dwarf \<Rightarrow> offset \<Rightarrow> type_cache \<Rightarrow> (string \<times> type_cache) option" where
  "renderNoCache rnd dw off c =
     (case Seek dw off of
        [] \<Rightarrow> Some ([], c)
      | e # _ \<Rightarrow>
          (case e_Tag e of
             TagPointerType \<Rightarrow>
               (case val_offset e AttrType of
                  Some to \<Rightarrow> map_option (\<lambda>(s, c'). (pointer_to s, c')) (rnd to c)
                | None \<Rightarrow> Some (pointer_to [], c))
           | TagConstType \<Rightarrow> qualified_type rnd ''const'' e c
           | TagVolatileType \<Rightarrow> qualified_type rnd ''volatile'' e c
           | TagStructType \<Rightarrow> Some (tagged ''struct'' e, c)
           | TagUnionType \<Rightarrow> Some (tagged ''union'' e, c)
           | TagEnumerationType \<Rightarrow> Some (tagged ''enum'' e, c)
           | TagArrayType \<Rightarrow>
               (case val_offset e AttrType of
                  Some to \<Rightarrow> map_option (\<lambda>(s, c'). (s @ ''[]'', c')) (rnd to c)
                | None \<Rightarrow> Some (''[]'', c))
           | TagSubroutineType \<Rightarrow> renderSubroutineType rnd dw off e c
           | _ \<Rightarrow> Some (or_zero [] (val_string e AttrName), c)))"

fun render :: "nat \<Rightarrow> dwarf \<Rightarrow> renderer" where
  "render 0 dw off c = None"
| "render (Suc n) dw off c =
     (case gget c off of
        Some s \<Rightarrow> Some (s, c)
      | None \<Rightarrow>
          (case renderNoCache (render n dw) dw off (gput off [] c) of
             None \<Rightarrow> None
           | Some (s, c') \<Rightarrow> Some (s, gput off s c')))"

text \<open>The renderer with the fuel that is always enough.\<close>

abbreviation tc_render :: "dwarf \<Rightarrow> renderer" where
  "tc_render dw \<equiv> render (Suc (Suc (dw_size dw))) dw"

definition buildSignature :: "renderer \<Rightarrow> dwarf \<Rightarrow> dentry \<Rightarrow> type_cache \<Rightarrow> (string \<times> type_cache) option" where
  "buildSignature rnd dw e c =
     (case return_type rnd e c of
        None \<Rightarrow> None
      | Some (ret, c1) \<Rightarrow>
          if \<not> e_Children e then Some (ret @ '' '' @ paramList [] False (prototyped e), c1)
          else
            (case Seek dw (e_Offset e) of
               [] \<Rightarrow> Some (ret @ '' ()'', c1)
             | _ # es \<Rightarrow>
                 (case walkParams rnd es c1 of
                    None \<Rightarrow> None
                  | Some ((params, variadic), c2) \<Rightarrow>
                      Some (ret @ '' '' @ paramList params variadic (prototyped e), c2))))"

text \<open>Where the fuel suffices the result is there; the default is never used (\<open>buildSignature_terminates\<close>).\<close>

definition rendered :: "type_cache \<Rightarrow> (string \<times> type_cache) option \<Rightarrow> string \<times> type_cache" where
  "rendered c x = (case x of Some r \<Rightarrow> r | None \<Rightarrow> ([], c))"

section \<open>The reference definition\<close>

text \<open>Rendering without a cache; it has a value where the references below the type do not run in a cycle.\<close>

definition uncached :: "(offset \<Rightarrow> string option) \<Rightarrow> renderer" where
  "uncached p off c = map_option (\<lambda>s. (s, c)) (p off)"

fun plain :: "nat \<Rightarrow> dwarf \<Rightarrow> offset \<Rightarrow> string option" where
  "plain 0 dw off = None"
| "plain (Suc n) dw off = map_option fst (renderNoCache (uncached (plain n dw)) dw off [])"

lemma uncached_Some: "p off = Some s \<Longrightarrow> uncached p off c = Some (s, c)"
  by (simp add: uncached_def)

section \<open>Termination\<close>

text \<open>
  What one step of the walk needs of the renderer it calls, stated once: a relation between the
  cache before and after that is reflexive and transitive, and a set of caches closed under it on
  which the renderer answers.
\<close>

locale cache_walk =
  fixes rnd :: renderer
    and good :: "type_cache \<Rightarrow> bool"
  assumes answers: "good c \<Longrightarrow> \<exists>s c'. rnd off c = Some (s, c') \<and> good c'"
begin

lemma entries_answer:
  "good c \<Longrightarrow> \<exists>r c'. walk_entries rnd es params variadic c = Some (r, c') \<and> good c'"
proof (induction es arbitrary: params variadic c)
  case (Cons e es)
  show ?case
  proof (cases "val_offset e AttrType")
    case None then show ?thesis using Cons by simp
  next
    case (Some pt)
    obtain s c' where s: "rnd pt c = Some (s, c')" "good c'" using answers [OF Cons.prems] by blast
    show ?thesis
    proof (cases "e_Tag e = TagFormalParameter")
      case True
      then show ?thesis using Some s Cons.IH [of c' "params @ [if s = [] then ''?'' else s]" variadic] by simp
    next
      case False then show ?thesis using Cons by simp
    qed
  qed
qed simp

lemma return_answers: "good c \<Longrightarrow> \<exists>s c'. return_type rnd e c = Some (s, c') \<and> good c'"
  using answers by (auto simp: return_type_def split: option.splits)

lemma subroutine_answers:
  assumes "good c" shows "\<exists>s c'. renderSubroutineType rnd dw off e c = Some (s, c') \<and> good c'"
proof -
  obtain ret c1 where r: "return_type rnd e c = Some (ret, c1)" "good c1"
    using return_answers [OF assms] by blast
  show ?thesis
  proof (cases "Seek dw off")
    case (Cons x es)
    obtain p v c2 where "walkParams rnd es c1 = Some ((p, v), c2)" "good c2"
      using entries_answer [OF r(2)] unfolding walkParams_def by (metis prod.exhaust)
    with r Cons show ?thesis by (simp add: renderSubroutineType_def)
  qed (use r in \<open>simp add: renderSubroutineType_def\<close>)
qed

lemma signature_answers:
  assumes "good c" shows "\<exists>s c'. buildSignature rnd dw e c = Some (s, c') \<and> good c'"
proof -
  obtain ret c1 where r: "return_type rnd e c = Some (ret, c1)" "good c1"
    using return_answers [OF assms] by blast
  show ?thesis
  proof (cases "Seek dw (e_Offset e)")
    case (Cons x es)
    obtain p v c2 where "walkParams rnd es c1 = Some ((p, v), c2)" "good c2"
      using entries_answer [OF r(2)] unfolding walkParams_def by (metis prod.exhaust)
    with r Cons show ?thesis by (simp add: buildSignature_def)
  qed (use r in \<open>simp add: buildSignature_def\<close>)
qed

lemma nocache_answers:
  assumes "good c" shows "\<exists>s c'. renderNoCache rnd dw off c = Some (s, c') \<and> good c'"
proof (cases "Seek dw off")
  case (Cons e es)
  show ?thesis
  proof (cases "val_offset e AttrType")
    case None
    then show ?thesis using Cons assms subroutine_answers [OF assms]
      by (simp add: renderNoCache_def qualified_type_def split: tag.split)
  next
    case (Some to)
    obtain s c' where "rnd to c = Some (s, c')" "good c'" using answers [OF assms] by blast
    then show ?thesis using Some Cons assms subroutine_answers [OF assms]
      by (simp add: renderNoCache_def qualified_type_def split: tag.split)
  qed
qed (use assms in \<open>simp add: renderNoCache_def\<close>)

end

text \<open>The offsets of entries that are not in the cache; each step of the recursion takes one away.\<close>

definition seekable :: "dwarf \<Rightarrow> nat set" where
  "seekable dw = insert 0 (e_Offset ` set (dw_entries dw) \<union> fst ` set (dw_stray dw))"

definition uncached_offsets :: "dwarf \<Rightarrow> type_cache \<Rightarrow> nat set" where
  "uncached_offsets dw c = {off \<in> seekable dw. gget c off = None}"

lemma finite_uncached: "finite (uncached_offsets dw c)"
  by (simp add: uncached_offsets_def seekable_def)

lemma uncached_gput:
  "off \<in> uncached_offsets dw c \<Longrightarrow>
     card (uncached_offsets dw (gput off s c)) < card (uncached_offsets dw c)"
  by (rule psubset_card_mono [OF finite_uncached]) (auto simp: uncached_offsets_def split: if_splits)

lemma uncached_gput_le: "card (uncached_offsets dw (gput off s c)) \<le> card (uncached_offsets dw c)"
  by (rule card_mono [OF finite_uncached]) (auto simp: uncached_offsets_def split: if_splits)

lemma Seek_no_entry: "off \<notin> seekable dw \<Longrightarrow> Seek dw off = []"
proof -
  assume off: "off \<notin> seekable dw"
  have d: "dropWhile (\<lambda>e. e_Offset e \<noteq> off) (dw_entries dw) = []" unfolding dropWhile_eq_Nil_conv using off by (auto simp: seekable_def)
  have g: "gget (dw_stray dw) off = None" using off by (simp add: seekable_def gget_def map_of_eq_None_iff)
  show ?thesis unfolding Seek_def gget_or_def d g using off by (simp add: seekable_def)
qed

lemma uncached_bound: "card (uncached_offsets dw c) \<le> Suc (dw_size dw)"
proof -
  let ?os = "map e_Offset (dw_entries dw) @ map fst (dw_stray dw)"
  have "card (uncached_offsets dw c) \<le> card (set (0 # ?os))"
    by (rule card_mono) (auto simp: uncached_offsets_def seekable_def)
  also have "\<dots> \<le> length (0 # ?os)" by (rule card_length)
  finally show ?thesis by (simp add: dw_size_def)
qed

lemma render_answers:
  "card (uncached_offsets dw c) < n \<Longrightarrow>
     \<exists>s c'. render n dw off c = Some (s, c') \<and>
        card (uncached_offsets dw c') \<le> card (uncached_offsets dw c)"
proof (induction n arbitrary: off c)
  case (Suc n)
  show ?case
  proof (cases "gget c off")
    case None
    let ?c0 = "gput off [] c"
    show ?thesis
    proof (cases "off \<in> uncached_offsets dw c")
      case True
      let ?good = "\<lambda>c'. card (uncached_offsets dw c') \<le> card (uncached_offsets dw ?c0)"
      have less: "card (uncached_offsets dw ?c0) < n"
        using uncached_gput [OF True, of "[]"] Suc.prems by linarith
      have "cache_walk (render n dw) ?good"
      proof
        show "\<exists>s c'. render n dw off c = Some (s, c') \<and> ?good c'" if "?good c" for off c
          using Suc.IH [of c off] less that by fastforce
      qed
      from cache_walk.nocache_answers [OF this, of ?c0 dw off]
      obtain s c' where r: "renderNoCache (render n dw) dw off ?c0 = Some (s, c')" "?good c'" by auto
      have "card (uncached_offsets dw (gput off s c')) \<le> card (uncached_offsets dw c)"
        using uncached_gput_le [of dw off s c'] r(2) uncached_gput [OF True, of "[]"] by linarith
      with None r show ?thesis by simp
    next
      case False
      then have "Seek dw off = []" using None Seek_no_entry [of off dw] by (auto simp: uncached_offsets_def)
      then show ?thesis using None uncached_gput_le [of dw off "[]" ?c0] uncached_gput_le [of dw off "[]" c]
        by (simp add: renderNoCache_def)
    qed
  qed simp
qed simp

lemma tc_render_walk: "cache_walk (tc_render dw) (\<lambda>_. True)"
proof
  show "\<exists>s c'. tc_render dw off c = Some (s, c') \<and> True" for off c
    using render_answers [of dw c "Suc (Suc (dw_size dw))" off] uncached_bound [of dw c] by auto
qed

interpretation tc: cache_walk "tc_render dw" "\<lambda>_. True" for dw
  by (rule tc_render_walk)

text \<open>
  C19 Termination. The rendering of a type returns on every stream of entries, whatever the
  references between them, into the middle of entries too, and whatever the cache holds: one unit of fuel per entry and per
  other offset from which something is decoded, and two more, are enough, because each offset is rendered at most once. The
  same fuel is enough for the signature of a function.
\<close>

theorem render_terminates:
  "(\<exists>s c'. render (Suc (Suc (dw_size dw))) dw off c = Some (s, c')) \<and>
   (\<exists>s c'. buildSignature (render (Suc (Suc (dw_size dw))) dw) dw e c = Some (s, c'))"
  using tc.answers [where dw = dw and off = off and c = c] tc.signature_answers [where dw = dw and dwa = dw and c = c and e = e]
  by auto

section \<open>More fuel changes nothing\<close>

text \<open>A renderer extends another when it gives the same answer wherever the other has one.\<close>

definition extends :: "renderer \<Rightarrow> renderer \<Rightarrow> bool" where
  "extends rnd rnd' \<longleftrightarrow> (\<forall>off c r. rnd off c = Some r \<longrightarrow> rnd' off c = Some r)"

lemma extendsD: "extends rnd rnd' \<Longrightarrow> rnd off c = Some r \<Longrightarrow> rnd' off c = Some r"
  unfolding extends_def by blast

lemma walk_entries_extends:
  "extends rnd rnd' \<Longrightarrow> walk_entries rnd es ps v c = Some r \<Longrightarrow> walk_entries rnd' es ps v c = Some r"
proof (induction es arbitrary: ps v c)
  case (Cons e es)
  then show ?case
    by (cases "val_offset e AttrType") (auto split: if_splits option.splits dest: extendsD)
qed simp

lemma return_type_extends:
  "extends rnd rnd' \<Longrightarrow> return_type rnd e c = Some r \<Longrightarrow> return_type rnd' e c = Some r"
  by (auto simp: return_type_def split: option.splits dest: extendsD)

lemma renderSubroutineType_extends:
  assumes "extends rnd rnd'" "renderSubroutineType rnd dw off e c = Some r"
  shows "renderSubroutineType rnd' dw off e c = Some r"
proof -
  obtain ret c1 where ret: "return_type rnd e c = Some (ret, c1)"
    using assms(2) by (auto simp: renderSubroutineType_def split: option.splits)
  note ret' = return_type_extends [OF assms(1) ret]
  show ?thesis
  proof (cases "Seek dw off")
    case (Cons x es)
    obtain w where w: "walkParams rnd es c1 = Some w"
      using assms(2) ret Cons by (auto simp: renderSubroutineType_def split: option.splits)
    have "walkParams rnd' es c1 = Some w"
      using walk_entries_extends [OF assms(1)] w by (simp add: walkParams_def)
    then show ?thesis using assms(2) ret ret' Cons w by (simp add: renderSubroutineType_def)
  qed (use assms(2) ret ret' in \<open>simp add: renderSubroutineType_def\<close>)
qed

lemma renderNoCache_extends:
  assumes "extends rnd rnd'" "renderNoCache rnd dw off c = Some r"
  shows "renderNoCache rnd' dw off c = Some r"
proof (cases "Seek dw off")
  case (Cons e es)
  note sub = renderSubroutineType_extends [OF assms(1), of dw off e c r]
  show ?thesis
  proof (cases "val_offset e AttrType")
    case None
    then show ?thesis using Cons assms(2) sub
      by (simp add: renderNoCache_def qualified_type_def split: tag.splits)
  next
    case (Some to)
    show ?thesis
    proof (cases "rnd to c")
      case None
      then show ?thesis using Some Cons assms(2) sub
        by (simp add: renderNoCache_def qualified_type_def split: tag.splits)
    next
      case r: (Some r')
      then show ?thesis using Some Cons assms(2) sub extendsD [OF assms(1) r]
        by (simp add: renderNoCache_def qualified_type_def split: tag.splits)
    qed
  qed
qed (use assms in \<open>simp add: renderNoCache_def\<close>)

lemma render_extends_Suc: "extends (render n dw) (render (Suc n) dw)"
proof (induction n)
  case (Suc n)
  show ?case unfolding extends_def
  proof (intro allI impI)
    fix off c r assume r: "render (Suc n) dw off c = Some r"
    show "render (Suc (Suc n)) dw off c = Some r"
    proof (cases "gget c off")
      case None
      then obtain s c' where s: "renderNoCache (render n dw) dw off (gput off [] c) = Some (s, c')"
        using r by (auto split: option.splits)
      have "r = (s, gput off s c')" using r None s by simp
      then show ?thesis using renderNoCache_extends [OF Suc s] None by (subst render.simps) (simp del: render.simps)
    qed (use r in simp)
  qed
qed (simp add: extends_def)

lemma render_more_fuel: "render n dw off c = Some r \<Longrightarrow> n \<le> m \<Longrightarrow> render m dw off c = Some r"
proof (induction m)
  case (Suc m)
  then show ?case using extendsD [OF render_extends_Suc [of m dw]]
    by (cases "n = Suc m") (auto simp del: render.simps)
qed simp

section \<open>Agreement with the reference\<close>

text \<open>
  A cache agrees with the reference up to depth \<open>n\<close>: what it holds for an offset that renders within
  that depth is the rendering. A step only adds renderings.
\<close>

definition coherent :: "nat \<Rightarrow> dwarf \<Rightarrow> type_cache \<Rightarrow> bool" where
  "coherent n dw c \<longleftrightarrow> (\<forall>off s t. gget c off = Some s \<longrightarrow> plain n dw off = Some t \<longrightarrow> s = t)"

definition adds_only :: "dwarf \<Rightarrow> type_cache \<Rightarrow> type_cache \<Rightarrow> bool" where
  "adds_only dw c c' \<longleftrightarrow>
     (\<forall>off s. gget c' off = Some s \<longrightarrow> gget c off = Some s \<or> (\<exists>k. plain k dw off = Some s))"

lemma adds_only_refl [simp]: "adds_only dw c c"
  by (simp add: adds_only_def)

lemma adds_only_trans: "adds_only dw c c' \<Longrightarrow> adds_only dw c' c'' \<Longrightarrow> adds_only dw c c''"
  unfolding adds_only_def by blast

text \<open>What a renderer must do to agree with a cache-free one.\<close>

locale agreeing =
  fixes p :: "offset \<Rightarrow> string option"
    and rnd :: renderer
    and good :: "type_cache \<Rightarrow> bool"
    and ext :: "type_cache \<Rightarrow> type_cache \<Rightarrow> bool"
  assumes agrees: "p off = Some s \<Longrightarrow> good c \<Longrightarrow> \<exists>c'. rnd off c = Some (s, c') \<and> ext c c' \<and> good c'"
    and ext_refl: "ext c c"
    and ext_trans: "ext c c' \<Longrightarrow> ext c' c'' \<Longrightarrow> ext c c''"
begin

lemma entries_agree:
  "walk_entries (uncached p) es params variadic c0 = Some (r, c1) \<Longrightarrow> good c \<Longrightarrow>
     \<exists>c'. walk_entries rnd es params variadic c = Some (r, c') \<and> ext c c' \<and> good c'"
proof (induction es arbitrary: params variadic c c0)
  case (Cons e es)
  show ?case
  proof (cases "e_Tag e = TagFormalParameter")
    case True
    show ?thesis
    proof (cases "val_offset e AttrType")
      case None then show ?thesis using Cons True by (simp add: ext_refl)
    next
      case (Some pt)
      obtain s where s: "p pt = Some s" using Cons.prems True Some
        by (auto simp: uncached_def split: option.splits)
      obtain c' where c': "rnd pt c = Some (s, c')" "ext c c'" "good c'"
        using agrees [OF s Cons.prems(2)] by blast
      have "walk_entries (uncached p) es (params @ [if s = [] then ''?'' else s]) variadic c0 = Some (r, c1)"
        using Cons.prems True Some s by (simp add: uncached_Some)
      from Cons.IH [OF this c'(3)] show ?thesis using True Some c' ext_trans [OF c'(2)] by auto
    qed
  next
    case False then show ?thesis using Cons by (cases "e_Tag e = TagUnspecifiedParameters") auto
  qed
qed (simp add: ext_refl)

lemma return_agrees:
  "return_type (uncached p) e c0 = Some (s, c1) \<Longrightarrow> good c \<Longrightarrow>
     \<exists>c'. return_type rnd e c = Some (s, c') \<and> ext c c' \<and> good c'"
  using agrees by (auto simp: return_type_def uncached_def ext_refl split: option.splits)

lemma subroutine_agrees:
  assumes "renderSubroutineType (uncached p) dw off e c0 = Some (s, c1)" "good c"
  shows "\<exists>c'. renderSubroutineType rnd dw off e c = Some (s, c') \<and> ext c c' \<and> good c'"
proof -
  obtain ret c2 where ret: "return_type (uncached p) e c0 = Some (ret, c2)"
    using assms by (auto simp: renderSubroutineType_def split: option.splits)
  obtain c' where c': "return_type rnd e c = Some (ret, c')" "ext c c'" "good c'"
    using return_agrees [OF ret assms(2)] by blast
  show ?thesis
  proof (cases "Seek dw off")
    case Nil then show ?thesis using assms ret c' by (simp add: renderSubroutineType_def)
  next
    case (Cons x es)
    obtain ps v c3 where w: "walkParams (uncached p) es c2 = Some ((ps, v), c3)"
      using assms ret Cons by (auto simp: renderSubroutineType_def split: option.splits)
    obtain c4 where "walkParams rnd es c' = Some ((ps, v), c4)" "ext c' c4" "good c4"
      using entries_agree [OF w [unfolded walkParams_def] c'(3)] unfolding walkParams_def by blast
    then show ?thesis using assms ret c' Cons w ext_trans [OF c'(2)] by (simp add: renderSubroutineType_def)
  qed
qed

lemma nocache_agrees:
  assumes "renderNoCache (uncached p) dw off c0 = Some (s, c1)" "good c"
  shows "\<exists>c'. renderNoCache rnd dw off c = Some (s, c') \<and> ext c c' \<and> good c'"
proof (cases "Seek dw off")
  case (Cons e es)
  show ?thesis
  proof (cases "e_Tag e = TagSubroutineType")
    case True
    then show ?thesis using Cons assms subroutine_agrees [of dw off e c0 s c1 c]
      by (simp add: renderNoCache_def)
  next
    case other: False
    show ?thesis
    proof (cases "val_offset e AttrType")
      case None
      then show ?thesis using Cons assms other
        by (simp add: renderNoCache_def qualified_type_def ext_refl split: tag.splits)
    next
      case (Some to)
      show ?thesis
      proof (cases "p to")
        case None
        then show ?thesis using Some Cons assms other
          by (simp add: renderNoCache_def qualified_type_def uncached_def ext_refl split: tag.splits)
      next
        case (Some t)
        obtain c' where "rnd to c = Some (t, c')" "ext c c'" "good c'" using agrees [OF Some assms(2)] by blast
        then show ?thesis using \<open>val_offset e AttrType = Some to\<close> Some Cons assms other
          by (simp add: renderNoCache_def qualified_type_def uncached_def ext_refl split: tag.splits)
      qed
    qed
  qed
qed (use assms in \<open>simp add: renderNoCache_def ext_refl\<close>)

end

lemma uncached_agreeing:
  "(\<And>off s. p off = Some s \<Longrightarrow> q off = Some s) \<Longrightarrow> agreeing p (uncached q) (\<lambda>_. True) (\<lambda>_ _. True)"
  by unfold_locales (auto simp: uncached_def)

interpretation ref: agreeing "plain n dw" "uncached (plain n dw)" "\<lambda>_. True" "\<lambda>_ _. True" for n dw
  by (rule uncached_agreeing)

lemma plain_Suc: "plain n dw off = Some s \<Longrightarrow> plain (Suc n) dw off = Some s"
proof (induction n arbitrary: off s)
  case (Suc n)
  have ag: "agreeing (plain n dw) (uncached (plain (Suc n) dw)) (\<lambda>_. True) (\<lambda>_ _. True)"
    by (rule uncached_agreeing) (rule Suc.IH)
  obtain c1 where r: "renderNoCache (uncached (plain n dw)) dw off [] = Some (s, c1)"
    using Suc.prems by auto
  obtain c' where "renderNoCache (uncached (plain (Suc n) dw)) dw off [] = Some (s, c')"
    using agreeing.nocache_agrees [OF ag r, of "[]"] by blast
  then show ?case by (subst plain.simps) simp
qed simp

lemma plain_mono: "plain n dw off = Some s \<Longrightarrow> n \<le> m \<Longrightarrow> plain m dw off = Some s"
  by (induction m) (auto simp: le_Suc_eq intro: plain_Suc simp del: plain.simps)

lemma plain_unique: "plain n dw off = Some s \<Longrightarrow> plain m dw off = Some t \<Longrightarrow> s = t"
  using plain_mono [of n dw off s "max n m"] plain_mono [of m dw off t "max n m"] by simp

lemma coherent_adds: "coherent n dw c \<Longrightarrow> adds_only dw c c' \<Longrightarrow> coherent n dw c'"
  unfolding coherent_def adds_only_def using plain_unique by blast

lemma coherent_reserve:
  "coherent n dw c \<Longrightarrow> plain n dw off = None \<Longrightarrow> coherent n dw (gput off s c)"
  unfolding coherent_def by simp

lemma coherent_less: "coherent n dw c \<Longrightarrow> m \<le> n \<Longrightarrow> coherent m dw c"
  unfolding coherent_def using plain_mono by blast

text \<open>The cache after a rendering: what it held before and the renderings, the reserved slot overwritten.\<close>

lemma adds_only_close:
  "adds_only dw (gput off x c) c' \<Longrightarrow> plain k dw off = Some s \<Longrightarrow> adds_only dw c (gput off s c')"
  unfolding adds_only_def by (auto split: if_splits)

lemma render_agrees:
  "plain n dw off = Some s \<Longrightarrow> coherent n dw c \<Longrightarrow> n \<le> m \<Longrightarrow>
     \<exists>c'. render m dw off c = Some (s, c') \<and> adds_only dw c c'"
proof (induction n arbitrary: off s c m)
  case (Suc n)
  obtain m' where m: "m = Suc m'" "n \<le> m'" using Suc.prems(3) by (cases m) auto
  show ?case
  proof (cases "gget c off")
    case (Some t)
    then show ?thesis using Suc.prems m unfolding coherent_def by fastforce
  next
    case fresh: None
    show ?thesis
    proof (cases "plain n dw off")
      case (Some t)
      then show ?thesis
        using Suc.IH [of off t c m] Suc.prems(2,3) coherent_less [of "Suc n" dw c n]
          plain_unique [OF Some Suc.prems(1)] by simp
    next
      case None
      have ag: "agreeing (plain n dw) (render m' dw) (coherent n dw) (adds_only dw)"
      proof
        show "\<exists>c'. render m' dw off c = Some (s, c') \<and> adds_only dw c c' \<and> coherent n dw c'"
          if "plain n dw off = Some s" "coherent n dw c" for off s c
          using Suc.IH [OF that m(2)] coherent_adds [OF that(2)] by blast
      qed (auto intro: adds_only_trans)
      obtain c1 where r: "renderNoCache (uncached (plain n dw)) dw off [] = Some (s, c1)"
        using Suc.prems(1) by auto
      have "coherent n dw (gput off [] c)"
        using coherent_reserve [OF coherent_less [OF Suc.prems(2)] None] by simp
      then obtain c' where c': "renderNoCache (render m' dw) dw off (gput off [] c) = Some (s, c')"
          "adds_only dw (gput off [] c) c'"
        using agreeing.nocache_agrees [OF ag r] by blast
      then show ?thesis using fresh m adds_only_close [OF c'(2) Suc.prems(1)] by simp
    qed
  qed
qed simp

text \<open>A cache that only ever got renderings of acyclic types.\<close>

definition cache_right :: "dwarf \<Rightarrow> type_cache \<Rightarrow> bool" where
  "cache_right dw c \<longleftrightarrow> (\<forall>n. coherent n dw c)"

lemma cache_right_Nil: "cache_right dw []"
  by (simp add: cache_right_def coherent_def)

lemma render_agrees_any:
  assumes "plain n dw off = Some s" "cache_right dw c"
  shows "\<exists>c'. tc_render dw off c = Some (s, c') \<and> cache_right dw c'"
proof -
  obtain t c' where t: "tc_render dw off c = Some (t, c')" using tc.answers [where dw = dw and c = c] by blast
  let ?m = "max n (Suc (Suc (dw_size dw)))"
  obtain c'' where c'': "render ?m dw off c = Some (s, c'')" "adds_only dw c c''"
    using render_agrees [OF assms(1), of c ?m] assms(2) by (auto simp: cache_right_def)
  moreover have "render ?m dw off c = Some (t, c')" using render_more_fuel [OF t] by simp
  ultimately have "t = s" "c' = c''" by simp_all
  moreover have "cache_right dw c''"
    using assms(2) coherent_adds [OF _ c''(2)] unfolding cache_right_def by blast
  ultimately show ?thesis using t by (auto simp del: render.simps)
qed

text \<open>Rendering a list of types one after another, the cache passed along.\<close>

definition render_all :: "dwarf \<Rightarrow> offset list \<Rightarrow> type_cache \<Rightarrow> type_cache" where
  "render_all dw offs c = fold (\<lambda>off c. snd (rendered c (tc_render dw off c))) offs c"

definition acyclic_type :: "dwarf \<Rightarrow> offset \<Rightarrow> bool" where
  "acyclic_type dw off \<longleftrightarrow> (\<exists>n. plain n dw off \<noteq> None)"

lemma render_all_right:
  "cache_right dw c \<Longrightarrow> \<forall>off \<in> set offs. acyclic_type dw off \<Longrightarrow> cache_right dw (render_all dw offs c)"
proof (induction offs arbitrary: c)
  case (Cons off offs)
  obtain n s where "plain n dw off = Some s" using Cons.prems(2) by (auto simp: acyclic_type_def)
  from render_agrees_any [OF this Cons.prems(1)] obtain c'
    where "tc_render dw off c = Some (s, c')" "cache_right dw c'" by blast
  then show ?case using Cons.IH [of c'] Cons.prems(2)
    by (simp add: render_all_def rendered_def del: render.simps)
qed (simp add: render_all_def)

text \<open>
  C20 Equivalence with the reference. Where the references below the types do not run in a cycle,
  the memoised rendering of a type is its rendering without a cache, and does not depend on which
  types were rendered before it or in which order.
\<close>

theorem render_cache_transparent:
  assumes "\<forall>o' \<in> set offs. acyclic_type dw o'" "plain n dw off = Some s"
  shows "fst (rendered (render_all dw offs []) (render (Suc (Suc (dw_size dw))) dw off (render_all dw offs []))) = s"
  using render_agrees_any [OF assms(2) render_all_right [OF cache_right_Nil assms(1)]]
  by (auto simp: rendered_def simp del: render.simps)

section \<open>Signatures and function types join\<close>

lemma signature_agrees:
  assumes "agreeing p rnd good ext" "buildSignature (uncached p) dw e c0 = Some (s, c1)" "good c"
  shows "\<exists>c'. buildSignature rnd dw e c = Some (s, c') \<and> ext c c' \<and> good c'"
proof -
  obtain ret c2 where ret: "return_type (uncached p) e c0 = Some (ret, c2)"
    using assms(2) by (auto simp: buildSignature_def split: option.splits)
  obtain c' where c': "return_type rnd e c = Some (ret, c')" "ext c c'" "good c'"
    using agreeing.return_agrees [OF assms(1) ret assms(3)] by blast
  show ?thesis
  proof (cases "e_Children e \<and> Seek dw (e_Offset e) \<noteq> []")
    case False then show ?thesis using assms(2) ret c' by (auto simp: buildSignature_def split: if_splits list.splits)
  next
    case True
    then obtain x es where Cons: "Seek dw (e_Offset e) = x # es" by (cases "Seek dw (e_Offset e)") auto
    obtain ps v c3 where w: "walkParams (uncached p) es c2 = Some ((ps, v), c3)"
      using assms(2) ret Cons True by (auto simp: buildSignature_def split: option.splits if_splits)
    obtain c4 where "walkParams rnd es c' = Some ((ps, v), c4)" "ext c' c4" "good c4"
      using agreeing.entries_agree [OF assms(1) w [unfolded walkParams_def] c'(3)] unfolding walkParams_def by blast
    then show ?thesis using assms(1,2) ret c' Cons w True agreeing.ext_trans [OF assms(1) c'(2)]
      by (simp add: buildSignature_def)
  qed
qed

text \<open>What a parameter list is made of: the parameters with their types, and the ellipsis.\<close>

definition param_shape :: "dentry list \<Rightarrow> (tag \<times> offset option) list" where
  "param_shape es = map (\<lambda>e. (e_Tag e, val_offset e AttrType))
     (filter (\<lambda>e. e_Tag e = TagFormalParameter \<or> e_Tag e = TagUnspecifiedParameters) es)"

fun walk_shape :: "renderer \<Rightarrow> (tag \<times> offset option) list \<Rightarrow> string list \<Rightarrow> bool \<Rightarrow> type_cache
    \<Rightarrow> ((string list \<times> bool) \<times> type_cache) option" where
  "walk_shape rnd [] params variadic c = Some ((params, variadic), c)"
| "walk_shape rnd ((t, ty) # es) params variadic c =
     (if t = TagFormalParameter then
        (case (case ty of Some pt \<Rightarrow> rnd pt c | None \<Rightarrow> Some ([], c)) of
           None \<Rightarrow> None
         | Some (p, c') \<Rightarrow> walk_shape rnd es (params @ [if p = [] then ''?'' else p]) variadic c')
      else walk_shape rnd es params True c)"

lemma walk_entries_shape: "walk_entries rnd es ps v c = walk_shape rnd (param_shape es) ps v c"
  by (induction es arbitrary: ps v c) (auto simp: param_shape_def split: option.split)

lemma walk_shape_answers:
  "\<forall>o'. (TagFormalParameter, Some o') \<in> set sh \<longrightarrow> p o' \<noteq> None \<Longrightarrow>
     \<exists>r. walk_shape (uncached p) sh ps v c = Some (r, c)"
proof (induction sh arbitrary: ps v)
  case (Cons x sh)
  obtain t ty where x: "x = (t, ty)" by (cases x)
  show ?case
  proof (cases "t = TagFormalParameter \<and> ty \<noteq> None")
    case True
    then obtain pt s where "ty = Some pt" "p pt = Some s" using Cons.prems x by fastforce
    then show ?thesis using Cons True x by (auto simp: uncached_Some)
  next
    case False then show ?thesis using Cons x by (auto split: option.splits)
  qed
qed simp

text \<open>
  Signatures join. The signature of a function and the rendering of a function type agree, as
  strings, when their return types, their parameter types, their ellipses and their prototype flags
  agree: whatever the names of the parameters, the other children of either entry and the two
  states of the cache.
\<close>

theorem signature_joins_function_type:
  assumes e: "Seek dw (e_Offset e) = flat (Die e cs) @ rest" "die_ok (Die e cs)" "e_Children e"
    and f: "Seek dw off = flat (Die f fs) @ rest'" "die_ok (Die f fs)" "e_Children f"
    and same: "val_offset e AttrType = val_offset f AttrType" "prototyped e = prototyped f"
      "param_shape (map die_entry cs) = param_shape (map die_entry fs)"
    and types: "\<forall>o'. val_offset e AttrType = Some o' \<or>
        (TagFormalParameter, Some o') \<in> set (param_shape (map die_entry cs)) \<longrightarrow> plain n dw o' \<noteq> None"
    and caches: "cache_right dw c" "cache_right dw c'"
  shows "\<exists>s. (\<exists>c1. buildSignature (render (Suc (Suc (dw_size dw))) dw) dw e c = Some (s, c1)) \<and>
             (\<exists>c2. renderSubroutineType (render (Suc (Suc (dw_size dw))) dw) dw off f c' = Some (s, c2))"
proof -
  let ?p = "plain n dw"
  have ag: "agreeing ?p (tc_render dw) (cache_right dw) (\<lambda>_ _. True)"
    by unfold_locales (use render_agrees_any in blast)+
  have ret: "\<exists>r. return_type (uncached ?p) e [] = Some (r, [])"
    using types by (auto simp: return_type_def uncached_Some split: option.split)
  obtain r where r: "return_type (uncached ?p) e [] = Some (r, [])" using ret by blast
  have r': "return_type (uncached ?p) f [] = Some (r, [])" using r same(1) by (simp add: return_type_def)
  obtain ps v where w: "walk_shape (uncached ?p) (param_shape (map die_entry cs)) [] False [] = Some ((ps, v), [])"
    using walk_shape_answers [of "param_shape (map die_entry cs)" ?p "[]" False "[]"] types by fastforce
  have we: "walkParams (uncached ?p) (flats cs @ null_entry # rest) [] = Some ((ps, v), [])"
    using siblings_flats [of cs rest] e(2) w by (simp add: walkParams_def walk_entries_shape)
  have wf: "walkParams (uncached ?p) (flats fs @ null_entry # rest') [] = Some ((ps, v), [])"
    using siblings_flats [of fs rest'] f(2) w same(3) by (simp add: walkParams_def walk_entries_shape)
  let ?s = "r @ '' '' @ paramList ps v (prototyped e)"
  have s: "buildSignature (uncached ?p) dw e [] = Some (?s, [])"
    using e r we by (simp add: buildSignature_def)
  have s': "renderSubroutineType (uncached ?p) dw off f [] = Some (?s, [])"
    using f r' wf same(2) by (simp add: renderSubroutineType_def)
  show ?thesis
    using signature_agrees [OF ag s caches(1)] agreeing.subroutine_agrees [OF ag s' caches(2)]
    by (auto simp del: render.simps)
qed

section \<open>A sample object\<close>

abbreviation sample_entry :: "offset \<Rightarrow> tag \<Rightarrow> bool \<Rightarrow> (attr \<times> attr_val) list \<Rightarrow> dentry" where
  "sample_entry off tg ch fs \<equiv> \<lparr>e_Offset = off, e_Tag = tg, e_Children = ch, e_Field = fs\<rparr>"

definition sample_param :: "offset \<Rightarrow> offset \<Rightarrow> die" where
  "sample_param off ty = Die (sample_entry off TagFormalParameter False [(AttrType, V_offset ty)]) []"

definition sample_function :: dentry where
  "sample_function = sample_entry 80 TagSubprogram True
     [(AttrName, V_string ''put''), (AttrType, V_offset 10), (AttrPrototyped, V_bool True)]"

definition sample_function_type :: dentry where
  "sample_function_type = sample_entry 90 TagSubroutineType True
     [(AttrType, V_offset 10), (AttrPrototyped, V_bool True)]"

text \<open>
  The types \<open>int\<close>, \<open>char\<close>, \<open>char *\<close>, \<open>char *const\<close>, \<open>const char\<close>, \<open>const char *\<close> and \<open>char *restrict\<close>; a
  function, its type, a pointer to the type and a pointer to the pointer.
\<close>

definition sample_entries :: "dentry list" where
  "sample_entries =
     [sample_entry 10 TagBaseType False [(AttrName, V_string ''int'')],
      sample_entry 20 TagBaseType False [(AttrName, V_string ''char'')],
      sample_entry 30 TagPointerType False [(AttrType, V_offset 20)],
      sample_entry 40 TagConstType False [(AttrType, V_offset 30)],
      sample_entry 50 TagConstType False [(AttrType, V_offset 20)],
      sample_entry 60 TagPointerType False [(AttrType, V_offset 50)],
      sample_entry 70 TagRestrictType False [(AttrType, V_offset 30)]]
     @ flat (Die sample_function [sample_param 81 30, sample_param 82 10])
     @ flat (Die sample_function_type [sample_param 91 30, sample_param 92 10])
     @ [sample_entry 100 TagPointerType False [(AttrType, V_offset 90)],
        sample_entry 110 TagPointerType False [(AttrType, V_offset 100)]]"

definition sample_dw :: dwarf where
  "sample_dw = stream sample_entries"

lemma sample_plain:
  "plain 3 sample_dw 10 = Some ''int''" "plain 3 sample_dw 30 = Some ''char *''"
  "plain 3 sample_dw 60 = Some ''const char *''" "plain 3 sample_dw 40 = Some ''const char *''"
  by code_simp+

lemma render_cache_transparent_witness:
  "fst (rendered (render_all sample_dw [40, 10] [])
     (render (Suc (Suc (dw_size sample_dw))) sample_dw 60 (render_all sample_dw [40, 10] []))) = ''const char *''"
proof (rule render_cache_transparent)
  show "\<forall>o' \<in> set [40, 10]. acyclic_type sample_dw o'"
    using sample_plain by (auto simp: acyclic_type_def simp del: plain.simps intro!: exI [of _ 3])
  show "plain 3 sample_dw 60 = Some ''const char *''" by (rule sample_plain)
qed

lemma signature_joins_function_type_witness:
  "\<exists>s. (\<exists>c1. buildSignature (render (Suc (Suc (dw_size sample_dw))) sample_dw) sample_dw sample_function [] = Some (s, c1)) \<and>
       (\<exists>c2. renderSubroutineType (render (Suc (Suc (dw_size sample_dw))) sample_dw) sample_dw 90 sample_function_type [] = Some (s, c2))"
proof (rule signature_joins_function_type [where n = 3])
  show "Seek sample_dw (e_Offset sample_function)
      = flat (Die sample_function [sample_param 81 30, sample_param 82 10]) @ drop 11 sample_entries"
    by code_simp
  show "Seek sample_dw 90
      = flat (Die sample_function_type [sample_param 91 30, sample_param 92 10]) @ drop 15 sample_entries"
    by code_simp
  show "\<forall>o'. val_offset sample_function AttrType = Some o' \<or>
        (TagFormalParameter, Some o') \<in> set (param_shape (map die_entry [sample_param 81 30, sample_param 82 10])) \<longrightarrow>
        plain 3 sample_dw o' \<noteq> None"
    using sample_plain by (auto simp: sample_function_def sample_param_def param_shape_def val_defs simp del: plain.simps)
qed (simp_all add: cache_right_Nil sample_function_def sample_function_type_def sample_param_def
    param_shape_def prototyped_def val_defs)

text \<open>
  Renderings that lose the type: a restrict pointer has none, so a parameter of that type is a
  question mark; a constant pointer and a pointer to a constant are written the same; the star of a
  pointer to a function pointer lands in front of the parameters instead of beside the other star.
\<close>

lemma restrict_type_lost: "map_option fst (tc_render sample_dw 70 []) = Some []"
  by code_simp

lemma const_pointer_conflated:
  "map_option fst (tc_render sample_dw 40 []) = map_option fst (tc_render sample_dw 60 [])"
  by code_simp

lemma pointer_to_function_pointer:
  "map_option fst (tc_render sample_dw 100 []) = Some (''int ('' @ ''*)(char *, int)'')"
  "map_option fst (tc_render sample_dw 110 []) = Some (''int ('' @ ''*)('' @ ''*)(char *, int)'')"
  by code_simp+

end
