(* ===== verification/Dwarf_Calltarget.thy ===== *)
theory Dwarf_Calltarget
  imports Dwarf_Signature
begin

unbundle bit_operations_syntax

text \<open>
  Model of \<open>internal/dwarfingest/calltarget.go\<close>: what an indirect call dispatches through, from the
  register expression of the call site or from the relocation on the call instruction. Bytes,
  addresses and addends keep their width. The ELF file (machine, class, symbol table, sections) is
  an argument, as \<open>debug/elf\<close> hands it over. A slice out of range is a panic and shows as an error.
\<close>

section \<open>Register expressions\<close>

text \<open>
  \<open>uleb\<close>: the value of a ULEB128 and the bytes it takes, zero and zero when it is truncated or
  longer than ten bytes.
\<close>

fun uleb_from :: "nat \<Rightarrow> nat \<Rightarrow> 64 word \<Rightarrow> 8 word list \<Rightarrow> 64 word \<times> nat" where
  "uleb_from shift i v [] = (0, 0)"
| "uleb_from shift i v (c # b) =
     (if 64 \<le> shift then (0, 0)
      else
        (let v' = v OR push_bit shift (ucast (c AND 0x7F))
         in if c AND 0x80 = 0 then (v', i + 1) else uleb_from (shift + 7) (i + 1) v' b))"

definition uleb :: "8 word list \<Rightarrow> 64 word \<times> nat" where
  "uleb b = uleb_from 0 0 0 b"

lemma uleb_from_width: "snd (uleb_from shift i v b) \<noteq> 0 \<Longrightarrow>
    i < snd (uleb_from shift i v b) \<and> snd (uleb_from shift i v b) \<le> i + length b \<and>
    7 * (snd (uleb_from shift i v b) - i) < 71 - shift"
proof (induction b arbitrary: shift i v)
  case (Cons c b)
  let ?v = "v OR push_bit shift (ucast (c AND 0x7F))"
  show ?case
  proof (cases "64 \<le> shift \<or> c AND 0x80 = 0")
    case True then show ?thesis using Cons.prems by (auto simp: Let_def)
  next
    case False
    then have eq: "uleb_from shift i v (c # b) = uleb_from (shift + 7) (i + 1) ?v b" by (simp add: Let_def)
    then show ?thesis using Cons.IH [of "shift + 7" "i + 1" ?v] Cons.prems by (simp only: eq) auto
  qed
qed simp

lemma uleb_le: "snd (uleb b) \<le> length b"
  using uleb_from_width [of 0 0 0 b] by (cases "snd (uleb_from 0 0 0 b) = 0") (auto simp: uleb_def)

lemma uleb_width: "snd (uleb b) \<le> 10"
  using uleb_from_width [of 0 0 0 b] by (cases "snd (uleb_from 0 0 0 b) = 0") (auto simp: uleb_def)

text \<open>
  \<open>decodeRegExpr\<close>. The length of an entry value is converted to a signed integer: a length of
  2^63 or more is negative, passes the test against the bytes left and makes the slice panic.
\<close>

function decodeRegExpr :: "8 word list \<Rightarrow> dwarf_error + 64 word option" where
  "decodeRegExpr [] = Inr None"
| "decodeRegExpr (op # b) =
     (if op = 0xA3 then
        (let n = sint (fst (uleb b)); w = snd (uleb b)
         in if w = 0 \<or> n > int (length b) - int w then Inr None
            else if n < 0 then Inl D_panic
            else decodeRegExpr (take (nat n) (drop w b)))
      else if 0x50 \<le> op \<and> op \<le> 0x6F \<and> b = [] then Inr (Some (ucast (op - 0x50)))
      else if op = 0x90 then
        (if snd (uleb b) = 0 \<or> snd (uleb b) \<noteq> length b then Inr None else Inr (Some (fst (uleb b))))
      else Inr None)"
  by pat_completeness auto
termination
  by (relation "measure length") (auto simp: Let_def)

section \<open>Argument registers\<close>

definition argRegOrder :: "64 word list" where
  "argRegOrder = [5, 4, 1, 2, 8, 9]"

fun arg_index_from :: "nat \<Rightarrow> bool list \<Rightarrow> 64 word \<Rightarrow> nat option" where
  "arg_index_from i [] reg = None"
| "arg_index_from i (isInt # cs) reg =
     (if \<not> isInt \<or> length argRegOrder \<le> i then None
      else if argRegOrder ! i = reg then Some i
      else arg_index_from (i + 1) cs reg)"

text \<open>The index of a parameter; no index, minus one in the code, is \<open>None\<close>.\<close>

definition argIndexForReg :: "bool list \<Rightarrow> 64 word \<Rightarrow> nat option" where
  "argIndexForReg integerClass reg = arg_index_from 0 integerClass reg"

section \<open>Types behind qualifiers\<close>

fun strip_from :: "nat \<Rightarrow> dwarf \<Rightarrow> offset \<Rightarrow> offset \<times> dentry option" where
  "strip_from 0 dw off = (off, None)"
| "strip_from (Suc n) dw off =
     (case Seek dw off of
        [] \<Rightarrow> (off, None)
      | e # _ \<Rightarrow>
          (if e_Tag e \<in> {TagConstType, TagVolatileType, TagTypedef, TagRestrictType} then
             (case val_offset e AttrType of
                None \<Rightarrow> (off, Some e)
              | Some next_off \<Rightarrow> strip_from n dw next_off)
           else (off, Some e)))"

definition stripQualifiers :: "dwarf \<Rightarrow> offset \<Rightarrow> offset \<times> dentry option" where
  "stripQualifiers dw off = strip_from 32 dw off"

text \<open>The base-type encodings that go in an integer register: address, boolean, signed, signed char, unsigned, unsigned char.\<close>

definition integer_encodings :: "int list" where
  "integer_encodings = [1, 2, 5, 6, 7, 8]"

definition isIntegerClass :: "dwarf \<Rightarrow> offset \<Rightarrow> bool" where
  "isIntegerClass dw off =
     (case snd (stripQualifiers dw off) of
        None \<Rightarrow> False
      | Some e \<Rightarrow>
          if e_Tag e = TagPointerType \<or> e_Tag e = TagEnumerationType then True
          else if e_Tag e = TagBaseType then
            (case val_int64 e AttrEncoding of
               None \<Rightarrow> False
             | Some enc \<Rightarrow>
                 enc \<in> set integer_encodings \<and>
                 (case val_int64 e AttrByteSize of None \<Rightarrow> False | Some sz \<Rightarrow> sz \<le> 8))
          else False)"

definition isAggregate :: "dwarf \<Rightarrow> offset \<Rightarrow> bool" where
  "isAggregate dw off =
     (if off = 0 then False
      else case snd (stripQualifiers dw off) of
             None \<Rightarrow> False
           | Some e \<Rightarrow> e_Tag e \<in> {TagStructType, TagUnionType, TagArrayType, TagClassType})"

definition returnTypeOff :: "dwarf \<Rightarrow> offset \<Rightarrow> offset" where
  "returnTypeOff dw spOff =
     (case Seek dw spOff of [] \<Rightarrow> 0 | e # _ \<Rightarrow> or_zero 0 (val_offset e AttrType))"

record formalParam =
  fp_name :: string
  fp_typeOff :: offset

definition formalParams :: "dwarf \<Rightarrow> offset \<Rightarrow> formalParam list" where
  "formalParams dw spOff =
     (case Seek dw spOff of
        [] \<Rightarrow> []
      | _ # es \<Rightarrow>
          map (\<lambda>c. \<lparr>fp_name = or_zero [] (val_string c AttrName), fp_typeOff = or_zero 0 (val_offset c AttrType)\<rparr>)
            (filter (\<lambda>c. e_Tag c = TagFormalParameter) (siblings es)))"

definition intArgIndex :: "dwarf \<Rightarrow> formalParam list \<Rightarrow> 64 word \<Rightarrow> nat option" where
  "intArgIndex dw params reg = argIndexForReg (map (\<lambda>p. isIntegerClass dw (fp_typeOff p)) params) reg"

text \<open>The type a pointer to function points at, with its offset.\<close>

definition fn_ptr_target :: "dwarf \<Rightarrow> offset \<Rightarrow> (offset \<times> dentry) option" where
  "fn_ptr_target dw off =
     (case snd (stripQualifiers dw off) of
        None \<Rightarrow> None
      | Some e \<Rightarrow>
          if e_Tag e \<noteq> TagPointerType then None
          else
            (case val_offset e AttrType of
               None \<Rightarrow> None
             | Some to \<Rightarrow>
                 (case stripQualifiers dw to of
                    (sub, Some se) \<Rightarrow> if e_Tag se = TagSubroutineType then Some (sub, se) else None
                  | (_, None) \<Rightarrow> None)))"

definition fnPtrSignature :: "dwarf \<Rightarrow> offset \<Rightarrow> type_cache \<Rightarrow> string option \<times> type_cache" where
  "fnPtrSignature dw off c =
     (case fn_ptr_target dw off of
        None \<Rightarrow> (None, c)
      | Some (sub, se) \<Rightarrow>
          (let r = rendered c (renderSubroutineType (tc_render dw) dw sub se c)
           in if fst r = [] \<or> \<not> Contains (fst r) ''('' then (None, snd r) else (Some (fst r), snd r)))"

section \<open>The relocation index\<close>

record elf_symbol =
  es_Name :: string
  es_Info :: "8 word"
  es_Section :: nat
  es_Value :: "64 word"
  es_Size :: "64 word"

record elf_section =
  sh_Type :: nat
  sh_Flags :: "64 word"
  sh_Info :: nat
  sh_data :: "8 word list option"

record elf_file =
  ef_Machine :: nat
  ef_Class :: nat
  ef_Symbols :: "elf_symbol list option"
  ef_Sections :: "elf_section list"

record callTargetReloc =
  ct_sym :: string
  ct_addend :: "64 word"

type_synonym reloc_index = "(nat, (64 word, callTargetReloc) gomap) gomap"

record indirectResolver =
  ir_sysvAMD64 :: bool
  ir_funcSyms :: "(string, elf_symbol) gomap"
  ir_relocs :: reloc_index
  ir_varTypes :: "(string, offset) gomap"

fun le_word :: "8 word list \<Rightarrow> 64 word" where
  "le_word [] = 0"
| "le_word (b # bs) = ucast b OR push_bit 8 (le_word bs)"

text \<open>
  The records of a SHT_RELA section, 24 bytes each; the index of the symbol is one ahead of the
  slice, which lacks the null symbol.
\<close>

function rela_records :: "elf_symbol list \<Rightarrow> 8 word list \<Rightarrow> (64 word, callTargetReloc) gomap
    \<Rightarrow> (64 word, callTargetReloc) gomap" where
  "rela_records syms data byOff =
     (if length data < 24 then byOff
      else
        (let rOff = le_word (take 8 data);
             rInfo = le_word (take 8 (drop 8 data));
             rAddend = le_word (take 8 (drop 16 data));
             symIdx = uint (drop_bit 32 rInfo) - 1
         in rela_records syms (drop 24 data)
              (if symIdx < 0 \<or> int (length syms) \<le> symIdx then byOff
               else gput rOff \<lparr>ct_sym = es_Name (syms ! nat symIdx), ct_addend = rAddend\<rparr> byOff)))"
  by pat_completeness auto
termination
  by (relation "measure (\<lambda>(syms, data, byOff). length data)") auto

declare rela_records.simps [simp del]

definition load_section :: "elf_file \<Rightarrow> elf_symbol list \<Rightarrow> elf_section \<Rightarrow> reloc_index \<Rightarrow> reloc_index" where
  "load_section f syms sec relocs =
     (if sh_Type sec \<noteq> 4 \<or> length (ef_Sections f) \<le> sh_Info sec then relocs
      else if sh_Flags (ef_Sections f ! sh_Info sec) AND 4 = 0 then relocs
      else
        (case sh_data sec of
           None \<Rightarrow> relocs
         | Some data \<Rightarrow>
             gput (sh_Info sec) (rela_records syms data (gget_or [] relocs (sh_Info sec))) relocs))"

definition loadRelocs :: "elf_file \<Rightarrow> elf_symbol list \<Rightarrow> reloc_index" where
  "loadRelocs f syms = fold (load_section f syms) (ef_Sections f) []"

definition func_syms :: "elf_symbol list \<Rightarrow> (string, elf_symbol) gomap" where
  "func_syms syms =
     fold (\<lambda>s m. if es_Info s AND 0xF = 2 \<and> es_Name s \<noteq> [] \<and> gget m (es_Name s) = None
                 then gput (es_Name s) s m else m) syms []"

definition newIndirectResolver :: "elf_file \<Rightarrow> (string, offset) gomap \<Rightarrow> indirectResolver" where
  "newIndirectResolver f varTypes =
     (let amd64 = (ef_Machine f = 62 \<and> ef_Class f = 2);
          ir = \<lparr>ir_sysvAMD64 = amd64, ir_funcSyms = [], ir_relocs = [], ir_varTypes = varTypes\<rparr>
      in case ef_Symbols f of
           None \<Rightarrow> ir
         | Some syms \<Rightarrow>
             ir\<lparr>ir_funcSyms := func_syms syms, ir_relocs := (if amd64 then loadRelocs f syms else [])\<rparr>)"

section \<open>Resolving a call site\<close>

record CallSite =
  cs_EnclosingName :: string
  cs_SourceCallerName :: string
  cs_File :: string
  cs_Line :: int
  cs_Column :: int
  cs_Indirect :: bool
  cs_CalleeName :: string
  cs_CalleeType :: string
  cs_FieldHint :: string
  cs_returnPC :: "64 word"
  cs_callTarget :: "8 word list"
  cs_enclosingOff :: offset

text \<open>The outcome of a route: the signature and the hint it found, and the cache.\<close>

type_synonym route = "(string \<times> string) option \<times> type_cache"

definition resolveViaCallTarget :: "dwarf \<Rightarrow> CallSite \<Rightarrow> type_cache \<Rightarrow> (dwarf_error, route) result" where
  "resolveViaCallTarget dw cs c =
     bind_result (decodeRegExpr (cs_callTarget cs)) (\<lambda>d.
       case d of
         None \<Rightarrow> Inr (None, c)
       | Some reg \<Rightarrow>
           if cs_enclosingOff cs = 0 then Inr (None, c)
           else if isAggregate dw (returnTypeOff dw (cs_enclosingOff cs)) then Inr (None, c)
           else
             (let params = formalParams dw (cs_enclosingOff cs)
              in case intArgIndex dw params reg of
                   None \<Rightarrow> Inr (None, c)
                 | Some i \<Rightarrow>
                     (case fnPtrSignature dw (fp_typeOff (params ! i)) c of
                        (None, c') \<Rightarrow> Inr (None, c')
                      | (Some sig, c') \<Rightarrow> Inr (Some (sig, fp_name (params ! i)), c'))))"

text \<open>The members of a struct or union: the first one at the offset decides.\<close>

definition member_at :: "64 word \<Rightarrow> dentry \<Rightarrow> bool" where
  "member_at byteOff m \<longleftrightarrow>
     e_Tag m = TagMember \<and> or_zero 0 (val_int64 m AttrDataMemberLoc) = sint byteOff"

fun member_loop :: "dwarf \<Rightarrow> string \<Rightarrow> dentry \<Rightarrow> 64 word \<Rightarrow> dentry list \<Rightarrow> type_cache \<Rightarrow> route" where
  "member_loop dw varName e byteOff [] c = (None, c)"
| "member_loop dw varName e byteOff (m # ms) c =
     (if \<not> member_at byteOff m then member_loop dw varName e byteOff ms c
      else
        (case val_offset m AttrType of
           None \<Rightarrow> (None, c)
         | Some mt \<Rightarrow>
             (case fnPtrSignature dw mt c of
                (None, c') \<Rightarrow> (None, c')
              | (Some sig, c') \<Rightarrow>
                  (let name = or_zero [] (val_string m AttrName);
                       tag_name = or_zero [] (val_string e AttrName)
                   in if name = [] then (None, c')
                      else (Some (sig, (if tag_name \<noteq> [] then tag_name else varName) @ ''.'' @ name), c')))))"

definition resolveMember :: "dwarf \<Rightarrow> string \<Rightarrow> offset \<Rightarrow> 64 word \<Rightarrow> type_cache \<Rightarrow> route" where
  "resolveMember dw varName typeOff byteOff c =
     (case stripQualifiers dw typeOff of
        (base, None) \<Rightarrow> (None, c)
      | (base, Some e) \<Rightarrow>
          (let bare = (if byteOff = 0 then fnPtrSignature dw base c else (None, c))
           in case bare of
                (Some sig, c') \<Rightarrow> (Some (sig, varName), c')
              | (None, c') \<Rightarrow>
                  if e_Tag e \<noteq> TagStructType \<and> e_Tag e \<noteq> TagUnionType then (None, c')
                  else member_loop dw varName e byteOff (siblings (tl (Seek dw base))) c'))"

definition resolveViaReloc :: "dwarf \<Rightarrow> indirectResolver \<Rightarrow> CallSite \<Rightarrow> type_cache \<Rightarrow> route" where
  "resolveViaReloc dw ir cs c =
     (if cs_returnPC cs < 4 \<or> cs_EnclosingName cs = [] then (None, c)
      else
        (case gget (ir_funcSyms ir) (cs_EnclosingName cs) of
           None \<Rightarrow> (None, c)
         | Some fsym \<Rightarrow>
             if cs_returnPC cs < es_Value fsym \<or> cs_returnPC cs > es_Value fsym + es_Size fsym then (None, c)
             else
               (case gget (gget_or [] (ir_relocs ir) (es_Section fsym)) (cs_returnPC cs - 4) of
                  None \<Rightarrow> (None, c)
                | Some rel \<Rightarrow>
                    (case gget (ir_varTypes ir) (ct_sym rel) of
                       None \<Rightarrow> (None, c)
                     | Some typeOff \<Rightarrow> resolveMember dw (ct_sym rel) typeOff (ct_addend rel + 4) c))))"

definition fill_site :: "CallSite \<Rightarrow> (string \<times> string) option \<Rightarrow> CallSite" where
  "fill_site cs r = (case r of None \<Rightarrow> cs
     | Some (sig, hint) \<Rightarrow> cs\<lparr>cs_CalleeType := sig, cs_FieldHint := hint\<rparr>)"

definition resolve :: "dwarf \<Rightarrow> indirectResolver \<Rightarrow> CallSite \<Rightarrow> type_cache
    \<Rightarrow> (dwarf_error, CallSite \<times> type_cache) result" where
  "resolve dw ir cs c =
     (if \<not> ir_sysvAMD64 ir then Inr (cs, c)
      else
        bind_result (if cs_callTarget cs \<noteq> [] then resolveViaCallTarget dw cs c else Inr (None, c)) (\<lambda>(r, c').
          case r of
            Some x \<Rightarrow> Inr (fill_site cs (Some x), c')
          | None \<Rightarrow> (case resolveViaReloc dw ir cs c' of (r', c'') \<Rightarrow> Inr (fill_site cs r', c''))))"

section \<open>ULEB128\<close>

text \<open>The encoder DWARF describes: seven bits per byte, the high bit set on all bytes but the last.\<close>

fun uleb_encode :: "nat \<Rightarrow> 8 word list" where
  "uleb_encode n = (if n < 128 then [of_nat n] else of_nat (n mod 128 + 128) # uleb_encode (n div 128))"

declare uleb_encode.simps [simp del]

lemma low_bits: "(of_nat n :: 8 word) AND 0x7F = of_nat (n mod 128)"
proof -
  have "(of_nat n :: 8 word) AND 0x7F = take_bit 7 (of_nat n)"
    using take_bit_eq_mask [of 7 "of_nat n :: 8 word"] by (simp add: mask_eq_exp_minus_1)
  also have "\<dots> = of_nat (take_bit 7 n)" by (rule take_bit_of_nat)
  finally show ?thesis by (simp add: take_bit_eq_mod)
qed

lemma high_bit: "m < 256 \<Longrightarrow> (of_nat m :: 8 word) AND 0x80 = 0 \<longleftrightarrow> m < 128"
proof -
  assume m: "m < 256"
  have "(of_nat m :: 8 word) AND 0x80 = 0 \<longleftrightarrow> \<not> bit (of_nat m :: 8 word) 7"
    using and_exp_eq_0_iff_not_bit [of "of_nat m :: 8 word" 7] by simp
  also have "\<dots> \<longleftrightarrow> \<not> bit m 7" by (subst bit_of_nat_iff) simp
  also have "\<dots> \<longleftrightarrow> even (m div 128)" by (subst bit_iff_odd) simp
  also have "\<dots> \<longleftrightarrow> m < 128"
  proof -
    have "m div 128 < 2" using m by (simp add: less_mult_imp_div_less)
    then have "m div 128 = 0 \<or> m div 128 = 1" by arith
    then show ?thesis by (cases "m < 128") auto
  qed
  finally show ?thesis .
qed

lemma ucast_of_nat_small: "n < 128 \<Longrightarrow> (ucast (of_nat n :: 8 word) :: 64 word) = of_nat n"
  by (simp add: unsigned_of_nat take_bit_nat_eq_self)

lemma or_push_split:
  "push_bit s (of_nat (n mod 128)) OR push_bit (s + 7) (of_nat (n div 128)) = (push_bit s (of_nat n) :: 64 word)"
proof -
  have "n = take_bit 7 n OR push_bit 7 (drop_bit 7 n)"
  proof (rule bit_eqI)
    show "bit n k = bit (take_bit 7 n OR push_bit 7 (drop_bit 7 n)) k" for k
      by (cases "k < 7") (auto simp: bit_or_iff bit_take_bit_iff bit_push_bit_iff bit_drop_bit_eq)
  qed
  then have "n = n mod 128 OR push_bit 7 (n div 128)"
    by (simp add: take_bit_eq_mod drop_bit_eq_div)
  then have "push_bit s (of_nat n :: 64 word) = push_bit s (of_nat (n mod 128) OR push_bit 7 (of_nat (n div 128)))"
    by (metis of_nat_or_eq of_nat_push_bit)
  then show ?thesis by (simp add: push_bit_or ac_simps)
qed

lemma uleb_from_encode:
  "shift < 64 \<Longrightarrow> n * 2 ^ shift < 2 ^ 64 \<Longrightarrow>
     uleb_from shift i v (uleb_encode n @ rest) =
       (v OR push_bit shift (of_nat n), i + length (uleb_encode n))"
proof (induction n arbitrary: shift i v rule: uleb_encode.induct)
  case (1 n)
  show ?case
  proof (cases "n < 128")
    case True
    then show ?thesis using 1(2)
      by (subst uleb_encode.simps, subst (2) uleb_encode.simps) (simp add: low_bits high_bit ucast_of_nat_small)
  next
    case False
    have "(2::nat) ^ (shift + 7) \<le> n * 2 ^ shift" using False by (simp add: power_add)
    from le_less_trans [OF this 1(3)] have s: "shift + 7 < 64" by (simp only: power_strict_increasing_iff)
    have "n div 128 * 2 ^ (shift + 7) = (n div 128 * 128) * 2 ^ shift" by (simp add: power_add)
    also have "\<dots> \<le> n * 2 ^ shift" by (rule mult_le_mono1) simp
    also have "\<dots> < 2 ^ 64" by (rule 1(3))
    finally have lt: "n div 128 * 2 ^ (shift + 7) < 2 ^ 64" .
    have m: "n mod 128 + 128 < 256" using mod_less_divisor [of 128 n] by linarith
    show ?thesis
      using 1(1) [OF False s lt, of "i + 1" "v OR push_bit shift (of_nat (n mod 128))"] False 1(2)
        high_bit [OF m] low_bits [of "n mod 128 + 128"] ucast_of_nat_small [of "n mod 128"] or_push_split [of shift n]
      by (subst uleb_encode.simps, subst (2) uleb_encode.simps) (simp add: or.assoc Let_def)
  qed
qed

text \<open>
  C23 Round trip. The decoder reads back every 64-bit value from its ULEB128 encoding, whatever
  bytes follow, and reports the length of the encoding. On any bytes it takes at most ten of them
  and never more than there are.
\<close>

theorem uleb_roundtrip:
  "(n < 2 ^ 64 \<longrightarrow> uleb (uleb_encode n @ rest) = (of_nat n, length (uleb_encode n))) \<and>
   snd (uleb b) \<le> min 10 (length b)"
  using uleb_from_encode [of 0 n 0 0 rest] uleb_le [of b] uleb_width [of b] by (simp add: uleb_def)

lemma uleb_roundtrip_witness:
  "uleb (uleb_encode 300 @ [7]) = (of_nat 300, length (uleb_encode 300)) \<and>
   snd (uleb [0x80]) \<le> min 10 (length [0x80 :: 8 word])"
  using uleb_roundtrip [of 300 "[7]" "[0x80]"] by simp

section \<open>Register expressions\<close>

text \<open>
  The expressions GCC writes for a register: the register itself in one byte, its number behind
  \<open>DW_OP_regx\<close>, and such an expression with its length behind \<open>DW_OP_entry_value\<close>.
\<close>

inductive reg_expr :: "nat \<Rightarrow> 8 word list \<Rightarrow> bool" where
  short: "r < 32 \<Longrightarrow> reg_expr r [of_nat (0x50 + r)]"
| regx: "r < 2 ^ 64 \<Longrightarrow> reg_expr r (0x90 # uleb_encode r)"
| entry_value: "reg_expr r x \<Longrightarrow> length x < 2 ^ 63 \<Longrightarrow>
    reg_expr r (0xA3 # uleb_encode (length x) @ x @ trailing)"

lemma uleb_encode_nonempty: "uleb_encode n \<noteq> []"
  by (subst uleb_encode.simps) simp

lemma uleb_encode_full: "n < 2 ^ 64 \<Longrightarrow> uleb (uleb_encode n @ rest) = (of_nat n, length (uleb_encode n))"
  using uleb_from_encode [of 0 n 0 0 rest] by (simp add: uleb_def)

lemma sint_of_nat_small: "n < 2 ^ 63 \<Longrightarrow> sint (of_nat n :: 64 word) = int n"
  by (simp add: signed_of_nat signed_take_bit_int_eq_self)

lemma short_reg:
  assumes "r < 32"
  shows "(of_nat (0x50 + r) :: 8 word) \<noteq> 0xA3 \<and> 0x50 \<le> (of_nat (0x50 + r) :: 8 word) \<and>
    (of_nat (0x50 + r) :: 8 word) \<le> 0x6F \<and> (ucast ((of_nat (0x50 + r) :: 8 word) - 0x50) :: 64 word) = of_nat r"
proof -
  have u: "unat (of_nat (0x50 + r) :: 8 word) = 0x50 + r"
    using assms by (subst unat_of_nat) simp
  have "(of_nat (0x50 + r) :: 8 word) - 0x50 = of_nat r" by simp
  then show ?thesis using assms u ucast_of_nat_small [of r]
    by (auto simp: word_le_nat_alt simp del: of_nat_add dest: arg_cong [where f = unat])
qed

text \<open>
  Register expressions. Each form GCC writes for a register decodes to the number of that
  register: the one-byte form, the form with an explicit number of any 64 bits, and either of them
  behind any number of entry-value wrappers, with or without bytes after the wrapped expression.
\<close>

theorem decodeRegExpr_forms: "reg_expr r x \<Longrightarrow> decodeRegExpr x = Inr (Some (of_nat r))"
proof (induction rule: reg_expr.induct)
  case (short r)
  then show ?case using short_reg [OF short] by (simp del: of_nat_add)
next
  case (regx r)
  then show ?case using uleb_encode_full [of r "[]"] uleb_encode_nonempty [of r] by simp
next
  case (entry_value r x trailing)
  have "length x < 2 ^ 64" using entry_value(2) by simp
  from uleb_encode_full [OF this, of "x @ trailing"] show ?case
    using entry_value(2,3) uleb_encode_nonempty [of "length x"] sint_of_nat_small [OF entry_value(2)] by simp
qed

lemma decodeRegExpr_forms_witness:
  "reg_expr 5 (0xA3 # uleb_encode 1 @ [0x55] @ []) \<and>
   decodeRegExpr (0xA3 # uleb_encode 1 @ [0x55] @ []) = Inr (Some (of_nat 5))"
proof -
  have "reg_expr 5 [of_nat (0x50 + 5)]" by (rule reg_expr.short) simp
  then have "reg_expr 5 [0x55]" by simp
  from reg_expr.entry_value [OF this, of "[]"] have r: "reg_expr 5 (0xA3 # uleb_encode 1 @ [0x55] @ [])" by simp
  show ?thesis using r decodeRegExpr_forms [OF r] by blast
qed

text \<open>An entry value whose length is 2^64 - 1, ten bytes of ULEB128: the reader of the object panics.\<close>

lemma decodeRegExpr_panics:
  "decodeRegExpr [0xA3, 0xFF, 0xFF, 0xFF, 0xFF, 0xFF, 0xFF, 0xFF, 0xFF, 0xFF, 0x01] = Inl D_panic"
  by code_simp

section \<open>Argument registers\<close>

lemma arg_index_from_Some:
  "arg_index_from i cs reg = Some k \<longleftrightarrow>
     i \<le> k \<and> k - i < length cs \<and> k < 6 \<and> argRegOrder ! k = reg \<and> (\<forall>j \<le> k - i. cs ! j)"
proof (induction cs arbitrary: i)
  case (Cons a cs)
  have inj: "argRegOrder ! k = argRegOrder ! i \<Longrightarrow> i < 6 \<Longrightarrow> k < 6 \<Longrightarrow> k = i" for k i
    by (rule nth_eq_iff_index_eq [of argRegOrder, THEN iffD1]) (simp_all add: argRegOrder_def)
  have split: "(\<forall>j \<le> k - i. (a # cs) ! j) \<longleftrightarrow> a \<and> (\<forall>j \<le> k - Suc i. cs ! j)" if "i < k"
  proof -
    have "k - i = Suc (k - Suc i)" using that by simp
    then show ?thesis by (simp only: less_Suc_eq_le [symmetric] All_less_Suc2) simp
  qed
  show ?case
  proof (cases "a \<and> i < 6 \<and> argRegOrder ! i \<noteq> reg")
    case True
    then have "arg_index_from i (a # cs) reg = Some k \<longleftrightarrow> arg_index_from (i + 1) cs reg = Some k"
      by (simp add: argRegOrder_def)
    also have "\<dots> \<longleftrightarrow> i + 1 \<le> k \<and> k - (i + 1) < length cs \<and> k < 6 \<and> argRegOrder ! k = reg \<and> (\<forall>j \<le> k - (i + 1). cs ! j)"
      by (rule Cons.IH)
    finally show ?thesis using split True by (cases "k = i") auto
  next
    case False
    then show ?thesis using inj [of k i] by (auto simp: argRegOrder_def)
  qed
qed simp

text \<open>
  Argument registers. The index found for a register is that of the parameter the System V
  convention passes in it: the parameter at that index and all before it take one integer register
  each, and the register at that position of the sequence rdi, rsi, rdx, rcx, r8, r9 is the one asked
  for. There is an index whenever such a parameter exists, and it is unique.
\<close>

theorem argIndexForReg_spec:
  "argIndexForReg classes reg = Some k \<longleftrightarrow>
     k < length classes \<and> k < 6 \<and> [5, 4, 1, 2, 8, 9] ! k = reg \<and> list_all id (take (k + 1) classes)"
  using arg_index_from_Some [of 0 classes reg k]
  by (auto simp: argIndexForReg_def argRegOrder_def list_all_length less_Suc_eq_le)

section \<open>What a call site dispatches through\<close>

text \<open>
  The relocation of a call site: the one four bytes before the return address, in the section of the
  enclosing function, the return address within the function.
\<close>

definition site_reloc :: "indirectResolver \<Rightarrow> CallSite \<Rightarrow> callTargetReloc option" where
  "site_reloc ir cs =
     (case gget (ir_funcSyms ir) (cs_EnclosingName cs) of
        None \<Rightarrow> None
      | Some fs \<Rightarrow>
          if 4 \<le> cs_returnPC cs \<and> es_Value fs \<le> cs_returnPC cs \<and> cs_returnPC cs \<le> es_Value fs + es_Size fs
          then gget (gget_or [] (ir_relocs ir) (es_Section fs)) (cs_returnPC cs - 4)
          else None)"

text \<open>
  The evidence for a hint and the type of the pointer called through: a parameter passed in the
  register of the call target, a variable whose first byte the instruction addresses, or the first
  member of a struct or union at the addressed byte.
\<close>

inductive dispatches :: "dwarf \<Rightarrow> indirectResolver \<Rightarrow> CallSite \<Rightarrow> string \<Rightarrow> offset \<Rightarrow> bool"
  for dw ir cs where
  parameter:
    "decodeRegExpr (cs_callTarget cs) = Inr (Some (argRegOrder ! i)) \<Longrightarrow>
     params = formalParams dw (cs_enclosingOff cs) \<Longrightarrow> i < length params \<Longrightarrow> i < 6 \<Longrightarrow>
     list_all (\<lambda>p. isIntegerClass dw (fp_typeOff p)) (take (i + 1) params) \<Longrightarrow>
     \<not> isAggregate dw (returnTypeOff dw (cs_enclosingOff cs)) \<Longrightarrow>
     dispatches dw ir cs (fp_name (params ! i)) (fp_typeOff (params ! i))"
| variable:
    "site_reloc ir cs = Some rel \<Longrightarrow> gget (ir_varTypes ir) (ct_sym rel) = Some ty \<Longrightarrow>
     ct_addend rel + 4 = 0 \<Longrightarrow> stripQualifiers dw ty = (base, Some e) \<Longrightarrow>
     dispatches dw ir cs (ct_sym rel) base"
| member:
    "site_reloc ir cs = Some rel \<Longrightarrow> gget (ir_varTypes ir) (ct_sym rel) = Some ty \<Longrightarrow>
     stripQualifiers dw ty = (base, Some e) \<Longrightarrow> e_Tag e = TagStructType \<or> e_Tag e = TagUnionType \<Longrightarrow>
     find (member_at (ct_addend rel + 4)) (siblings (tl (Seek dw base))) = Some m \<Longrightarrow>
     val_string m AttrName = Some name \<Longrightarrow> name \<noteq> [] \<Longrightarrow> val_offset m AttrType = Some mt \<Longrightarrow>
     qualifier = (case val_string e AttrName of Some (x # xs) \<Rightarrow> x # xs | _ \<Rightarrow> ct_sym rel) \<Longrightarrow>
     dispatches dw ir cs (qualifier @ ''.'' @ name) mt"

text \<open>A string that is the rendering of the function type behind a pointer type, in some state of the cache.\<close>

definition callee_type_of :: "dwarf \<Rightarrow> offset \<Rightarrow> string \<Rightarrow> bool" where
  "callee_type_of dw ty sig \<longleftrightarrow>
     (\<exists>sub se c. fn_ptr_target dw ty = Some (sub, se) \<and> Contains sig ''('' \<and>
        sig = fst (rendered c (renderSubroutineType (tc_render dw) dw sub se c)))"

lemma fnPtrSignature_Some:
  "fnPtrSignature dw ty c = (Some sig, c') \<Longrightarrow> callee_type_of dw ty sig"
  by (auto simp: fnPtrSignature_def callee_type_of_def Let_def split: option.splits if_splits)

lemma resolveViaCallTarget_sound:
  assumes "resolveViaCallTarget dw cs c = Inr (Some (sig, hint), c')"
  shows "\<exists>ty. dispatches dw ir cs hint ty \<and> callee_type_of dw ty sig"
proof -
  let ?ps = "formalParams dw (cs_enclosingOff cs)"
  obtain reg where reg: "decodeRegExpr (cs_callTarget cs) = Inr (Some reg)"
    using assms by (auto simp: resolveViaCallTarget_def bind_result_Inr_iff split: option.splits)
  obtain i where i: "intArgIndex dw ?ps reg = Some i"
    using assms reg by (auto simp: resolveViaCallTarget_def Let_def split: if_splits option.splits)
  have sg: "fnPtrSignature dw (fp_typeOff (?ps ! i)) c = (Some sig, c')" "hint = fp_name (?ps ! i)"
    and ag: "\<not> isAggregate dw (returnTypeOff dw (cs_enclosingOff cs))"
    using assms reg i by (auto simp: resolveViaCallTarget_def Let_def split: if_splits option.splits prod.splits)
  let ?cl = "map (\<lambda>p. isIntegerClass dw (fp_typeOff p)) ?ps"
  have "arg_index_from 0 ?cl reg = Some i" using i by (simp add: intArgIndex_def argIndexForReg_def)
  from iffD1 [OF arg_index_from_Some this]
  have "i < length ?ps \<and> i < 6 \<and> argRegOrder ! i = reg \<and> (\<forall>j \<le> i. ?cl ! j)"
    unfolding diff_zero length_map by blast
  then have "dispatches dw ir cs (fp_name (?ps ! i)) (fp_typeOff (?ps ! i))"
    using reg ag by (intro dispatches.parameter [of cs i ?ps dw]) (auto simp: list_all_length)
  then show ?thesis using sg fnPtrSignature_Some by blast
qed

lemma member_loop_sound:
  "member_loop dw v e byteOff ms c = (Some (sig, hint), c') \<Longrightarrow>
     \<exists>m mt name. find (member_at byteOff) ms = Some m \<and> val_offset m AttrType = Some mt \<and>
       val_string m AttrName = Some name \<and> name \<noteq> [] \<and> callee_type_of dw mt sig \<and>
       hint = (case val_string e AttrName of Some (x # xs) \<Rightarrow> x # xs | _ \<Rightarrow> v) @ ''.'' @ name"
proof (induction ms arbitrary: c)
  case (Cons m ms)
  show ?case
  proof (cases "member_at byteOff m")
    case True
    obtain mt where mt: "val_offset m AttrType = Some mt" using Cons.prems True by (auto split: option.splits)
    obtain s c1 where s: "fnPtrSignature dw mt c = (Some s, c1)"
      using Cons.prems True mt by (auto split: prod.splits option.splits)
    obtain name where name: "val_string m AttrName = Some name" "name \<noteq> []"
      using Cons.prems True mt s by (cases "val_string m AttrName") (auto simp: Let_def split: if_splits)
    have "s = sig" "hint = (case val_string e AttrName of Some (x # xs) \<Rightarrow> x # xs | _ \<Rightarrow> v) @ ''.'' @ name"
      using Cons.prems True mt s name by (auto simp: Let_def split: option.splits list.splits if_splits)
    then show ?thesis using True mt name fnPtrSignature_Some [OF s] by simp
  next
    case False then show ?thesis using Cons by simp
  qed
qed simp

lemma resolveMember_sound:
  assumes "resolveMember dw (ct_sym rel) ty (ct_addend rel + 4) c = (Some (sig, hint), c')"
    and rel: "site_reloc ir cs = Some rel" "gget (ir_varTypes ir) (ct_sym rel) = Some ty"
  shows "\<exists>ty. dispatches dw ir cs hint ty \<and> callee_type_of dw ty sig"
proof -
  obtain base e where b: "stripQualifiers dw ty = (base, Some e)"
    using assms(1) by (auto simp: resolveMember_def split: prod.splits option.splits)
  define bare where "bare = (if ct_addend rel + 4 = 0 then fnPtrSignature dw base c else (None, c))"
  obtain x c1 where x: "bare = (x, c1)" by (cases bare)
  show ?thesis
  proof (cases x)
    case (Some s)
    then have "fnPtrSignature dw base c = (Some s, c1)" "ct_addend rel + 4 = 0" "s = sig" "hint = ct_sym rel"
      using x assms(1) b by (auto simp: resolveMember_def bare_def split: if_splits)
    then show ?thesis using dispatches.variable [OF rel _ b] fnPtrSignature_Some by blast
  next
    case None
    then have t: "e_Tag e = TagStructType \<or> e_Tag e = TagUnionType"
      and "member_loop dw (ct_sym rel) e (ct_addend rel + 4) (siblings (tl (Seek dw base))) c1 = (Some (sig, hint), c')"
      using x assms(1) b by (auto simp: resolveMember_def bare_def [symmetric] split: if_splits)
    from member_loop_sound [OF this(2)] show ?thesis using dispatches.member [OF rel b t] by blast
  qed
qed

lemma resolveViaReloc_sound:
  assumes "resolveViaReloc dw ir cs c = (Some (sig, hint), c')"
  shows "\<exists>ty. dispatches dw ir cs hint ty \<and> callee_type_of dw ty sig"
proof -
  obtain rel ty where "site_reloc ir cs = Some rel" "gget (ir_varTypes ir) (ct_sym rel) = Some ty"
    "resolveMember dw (ct_sym rel) ty (ct_addend rel + 4) c = (Some (sig, hint), c')"
    using assms by (auto simp: resolveViaReloc_def site_reloc_def not_less split: if_splits option.splits)
  then show ?thesis using resolveMember_sound by blast
qed

text \<open>
  C21 Indirect calls. Resolving a call site changes at most its callee type and its hint, and does so
  only for x86-64 objects and only with evidence: the hint names a parameter passed in the register
  of the call target, the variable addressed by the relocation four bytes before the return address,
  or the first member of the addressed struct or union at the addressed byte; the type of what it
  names is a pointer to function, and the callee type is the rendering of that function type.
\<close>

theorem resolve_evidence:
  assumes "resolve dw ir cs c = Inr (cs', c')"
  shows "cs' = cs \<or>
    (\<exists>sig hint ty. cs' = cs\<lparr>cs_CalleeType := sig, cs_FieldHint := hint\<rparr> \<and> ir_sysvAMD64 ir \<and>
       dispatches dw ir cs hint ty \<and> callee_type_of dw ty sig)"
proof (cases "ir_sysvAMD64 ir")
  case True
  define first where "first = (if cs_callTarget cs \<noteq> [] then resolveViaCallTarget dw cs c else Inr (None, c))"
  obtain r c1 where r: "first = Inr (r, c1)"
    using assms True by (auto simp: resolve_def first_def [symmetric] bind_result_Inr_iff split: if_splits)
  show ?thesis
  proof (cases r)
    case (Some x)
    obtain sig hint where x: "x = (sig, hint)" by (cases x)
    have "resolveViaCallTarget dw cs c = Inr (Some (sig, hint), c1)"
      using r Some x by (auto simp: first_def split: if_splits)
    moreover have "cs' = cs\<lparr>cs_CalleeType := sig, cs_FieldHint := hint\<rparr>"
      using assms True r Some x by (simp add: resolve_def first_def [symmetric] fill_site_def)
    ultimately show ?thesis using True resolveViaCallTarget_sound by blast
  next
    case None
    obtain r' c2 where r': "resolveViaReloc dw ir cs c1 = (r', c2)" by (cases "resolveViaReloc dw ir cs c1")
    have cs': "cs' = fill_site cs r'"
      using assms True r None r' by (simp add: resolve_def first_def [symmetric])
    show ?thesis
    proof (cases r')
      case (Some x)
      obtain sig hint where "x = (sig, hint)" by (cases x)
      then show ?thesis using True cs' Some r' resolveViaReloc_sound [of dw ir cs c1 sig hint c2]
        by (auto simp: fill_site_def)
    qed (use cs' in \<open>simp add: fill_site_def\<close>)
  qed
qed (use assms in \<open>simp add: resolve_def\<close>)

text \<open>
  A dispatch table: a struct with a function pointer at byte 8, a variable of that type, and a call
  in the function \<open>run\<close> whose relocation addresses that byte.
\<close>

definition table_dw :: dwarf where
  "table_dw = stream (sample_entries
     @ flat (Die (sample_entry 200 TagStructType True [(AttrName, V_string ''ops'')])
         [Die (sample_entry 201 TagMember False
            [(AttrName, V_string ''len''), (AttrType, V_offset 10), (AttrDataMemberLoc, V_int64 0)]) [],
          Die (sample_entry 202 TagMember False
            [(AttrName, V_string ''add''), (AttrType, V_offset 100), (AttrDataMemberLoc, V_int64 8)]) []]))"

definition table_elf :: elf_file where
  "table_elf = \<lparr>ef_Machine = 62, ef_Class = 2,
     ef_Symbols = Some [\<lparr>es_Name = ''run'', es_Info = 0x12, es_Section = 0, es_Value = 0, es_Size = 32\<rparr>,
                        \<lparr>es_Name = ''g_ops'', es_Info = 0x11, es_Section = 2, es_Value = 0, es_Size = 16\<rparr>],
     ef_Sections = [\<lparr>sh_Type = 1, sh_Flags = 6, sh_Info = 0, sh_data = None\<rparr>,
       \<lparr>sh_Type = 4, sh_Flags = 0, sh_Info = 0,
        sh_data = Some [16, 0, 0, 0, 0, 0, 0, 0, 2, 0, 0, 0, 2, 0, 0, 0, 4, 0, 0, 0, 0, 0, 0, 0]\<rparr>]\<rparr>"

definition table_site :: CallSite where
  "table_site = \<lparr>cs_EnclosingName = ''run'', cs_SourceCallerName = ''run'', cs_File = ''a.c'', cs_Line = 7,
     cs_Column = 3, cs_Indirect = True, cs_CalleeName = [], cs_CalleeType = [], cs_FieldHint = [],
     cs_returnPC = 20, cs_callTarget = [], cs_enclosingOff = 80\<rparr>"

definition table_resolved :: CallSite where
  "table_resolved = table_site\<lparr>cs_CalleeType := ''int (char *, int)'', cs_FieldHint := ''ops.add''\<rparr>"

lemma table_resolve:
  "map_sum id fst (resolve table_dw (newIndirectResolver table_elf [(''g_ops'', 200)]) table_site []) = Inr table_resolved"
  by code_simp

lemma resolve_evidence_witness:
  "\<exists>sig hint ty. table_resolved = table_site\<lparr>cs_CalleeType := sig, cs_FieldHint := hint\<rparr> \<and>
     dispatches table_dw (newIndirectResolver table_elf [(''g_ops'', 200)]) table_site hint ty \<and>
     callee_type_of table_dw ty sig"
proof -
  obtain c' where r: "resolve table_dw (newIndirectResolver table_elf [(''g_ops'', 200)]) table_site [] = Inr (table_resolved, c')"
    using table_resolve
    by (cases "resolve table_dw (newIndirectResolver table_elf [(''g_ops'', 200)]) table_site []") auto
  have "table_resolved \<noteq> table_site" by code_simp
  then show ?thesis using resolve_evidence [OF r] by blast
qed

end
