(* ===== verification/Dwarf_Reader.thy ===== *)
theory Dwarf_Reader
  imports Dwarf_Calltarget
begin

text \<open>
  Model of \<open>internal/dwarfingest/reader.go\<close> and of the result types of \<open>types.go\<close>: one pass over the
  entries of an object with a stack of the enclosing entries, then the resolution of its indirect
  call sites. The stream of entries, the line tables and the ELF file are arguments. The refinement
  theorem relates the pass over the stream to the recursion over the tree the stream serialises.
\<close>

section \<open>Results\<close>

record Subprogram =
  sp_Name :: string
  sp_LinkageName :: string
  sp_DeclFile :: string
  sp_DeclLine :: int
  sp_DeclColumn :: int
  sp_Signature :: string
  sp_Definition :: bool
  sp_Declaration :: bool
  sp_External :: bool
  sp_AbstractInline :: bool

record InlineInstance =
  ii_CalleeName :: string
  ii_CallerName :: string
  ii_ParentCalleeName :: string
  ii_Depth :: nat
  ii_File :: string
  ii_Line :: int
  ii_Column :: int

record FieldInfo =
  fi_Name :: string
  fi_Type :: string
  fi_ByteOffset :: int

record StructInfo =
  si_Name :: string
  si_Kind :: string
  si_DeclFile :: string
  si_DeclLine :: int
  si_DeclColumn :: int
  si_ByteSize :: int
  si_Fields :: "FieldInfo list"

record TypedefInfo =
  td_Name :: string
  td_DeclFile :: string
  td_DeclLine :: int
  td_Target :: string

record EnumConstant =
  ec_Name :: string
  ec_Value :: int

record EnumInfo =
  en_Name :: string
  en_DeclFile :: string
  en_DeclLine :: int
  en_DeclColumn :: int
  en_ByteSize :: int
  en_Constants :: "EnumConstant list"

record VariableInfo =
  vi_Name :: string
  vi_DeclFile :: string
  vi_DeclLine :: int
  vi_Type :: string

record Info =
  in_ObjectPath :: string
  in_CompDir :: string
  in_CUFile :: string
  in_Subprograms :: "Subprogram list"
  in_CallSites :: "CallSite list"
  in_InlineInstances :: "InlineInstance list"
  in_Structs :: "StructInfo list"
  in_Typedefs :: "TypedefInfo list"
  in_Enums :: "EnumInfo list"
  in_Variables :: "VariableInfo list"

section \<open>Line tables\<close>

text \<open>
  The file table of a unit holds a nil pointer at index 0 before DWARF 5; \<open>SeekPC\<close> finds the row of an
  address or fails.
\<close>

record line_entry =
  le_File :: "string option"
  le_Line :: int
  le_Column :: int

record line_reader =
  lr_Files :: "string option list"
  lr_SeekPC :: "64 word \<Rightarrow> line_entry option"

text \<open>\<open>fileFromIdx\<close>: a nil entry within the range is dereferenced.\<close>

definition fileFromIdx :: "string option list \<Rightarrow> int \<Rightarrow> (dwarf_error, string) result" where
  "fileFromIdx files idx =
     (if idx < 0 \<or> int (length files) \<le> idx then Inr []
      else case files ! nat idx of None \<Rightarrow> Inl D_panic | Some name \<Rightarrow> Inr name)"

definition attr_file :: "string option list \<Rightarrow> dentry \<Rightarrow> attr \<Rightarrow> (dwarf_error, string) result" where
  "attr_file files e a = (case val_int64 e a of None \<Rightarrow> Inr [] | Some idx \<Rightarrow> fileFromIdx files idx)"

definition lookupName :: "dwarf \<Rightarrow> offset \<Rightarrow> string" where
  "lookupName dw off = (case Seek dw off of [] \<Rightarrow> [] | e # _ \<Rightarrow> or_zero [] (val_string e AttrName))"

section \<open>Frames\<close>

record frame =
  fr_tag :: tag
  fr_subprogramName :: string
  fr_inlinedFromName :: string
  fr_offset :: offset

definition newFrame :: "dwarf \<Rightarrow> dentry \<Rightarrow> frame" where
  "newFrame dw e =
     (let name = or_zero [] (val_string e AttrName);
          origin = (case val_offset e AttrAbstractOrigin of Some off \<Rightarrow> lookupName dw off | None \<Rightarrow> [])
      in \<lparr>fr_tag = e_Tag e,
          fr_subprogramName =
            (if e_Tag e = TagSubprogram then (if name = [] then origin else name) else []),
          fr_inlinedFromName = (if e_Tag e = TagInlinedSubroutine then origin else []),
          fr_offset = e_Offset e\<rparr>)"

section \<open>Functions\<close>

definition parseSubprogram :: "dwarf \<Rightarrow> string option list \<Rightarrow> dentry \<Rightarrow> type_cache
    \<Rightarrow> (dwarf_error, Subprogram \<times> type_cache) result" where
  "parseSubprogram dw files e c =
     bind_result (attr_file files e AttrDeclFile) (\<lambda>file.
       let declared = or_zero False (val_bool e AttrDeclaration);
           inlined = val_int64 e AttrInline \<noteq> None \<and> \<not> declared;
           r = rendered c (buildSignature (tc_render dw) dw e c)
       in Inr (\<lparr>sp_Name = or_zero [] (val_string e AttrName),
                sp_LinkageName = or_zero [] (val_string e AttrLinkageName),
                sp_DeclFile = file,
                sp_DeclLine = or_zero 0 (val_int64 e AttrDeclLine),
                sp_DeclColumn = or_zero 0 (val_int64 e AttrDeclColumn),
                sp_Signature = fst r,
                sp_Definition = (val_uint64 e AttrLowpc \<noteq> None \<or> inlined),
                sp_Declaration = declared,
                sp_External = or_zero False (val_bool e AttrExternal),
                sp_AbstractInline = inlined\<rparr>, snd r))"

text \<open>
  The walk outward over the enclosing frames, innermost first: the innermost inlined body that has a
  name, the depth, and the function around them.
\<close>

fun inline_scan :: "frame list \<Rightarrow> string \<Rightarrow> nat \<Rightarrow> string \<times> nat \<times> string" where
  "inline_scan [] parent depth = (parent, depth, [])"
| "inline_scan (f # fs) parent depth =
     (if fr_tag f = TagInlinedSubroutine then
        inline_scan fs (if parent = [] then fr_inlinedFromName f else parent) (depth + 1)
      else if fr_tag f = TagSubprogram then (parent, depth, fr_subprogramName f)
      else inline_scan fs parent depth)"

definition parseInlineInstance :: "dwarf \<Rightarrow> string option list \<Rightarrow> frame list \<Rightarrow> dentry
    \<Rightarrow> (dwarf_error, InlineInstance option) result" where
  "parseInlineInstance dw files stack e =
     (case val_offset e AttrAbstractOrigin of
        None \<Rightarrow> Inr None
      | Some off \<Rightarrow>
          if lookupName dw off = [] then Inr None
          else
            bind_result (attr_file files e AttrCallFile) (\<lambda>file.
              case inline_scan stack [] 1 of
                (parent, depth, caller) \<Rightarrow>
                  if caller = [] then Inr None
                  else Inr (Some \<lparr>ii_CalleeName = lookupName dw off, ii_CallerName = caller,
                    ii_ParentCalleeName = parent, ii_Depth = depth, ii_File = file,
                    ii_Line = or_zero 0 (val_int64 e AttrCallLine),
                    ii_Column = or_zero 0 (val_int64 e AttrCallColumn)\<rparr>)))"

section \<open>Call sites\<close>

definition resolveLine :: "line_reader \<Rightarrow> 64 word \<Rightarrow> CallSite \<Rightarrow> CallSite" where
  "resolveLine lr pc cs =
     (case lr_SeekPC lr pc of
        None \<Rightarrow> cs
      | Some entry \<Rightarrow>
          cs\<lparr>cs_File := (case le_File entry of Some name \<Rightarrow> name | None \<Rightarrow> cs_File cs),
             cs_Line := le_Line entry, cs_Column := le_Column entry\<rparr>)"

text \<open>The enclosing function with its offset, and the source caller: the innermost inlined body, else the function.\<close>

fun site_scan :: "frame list \<Rightarrow> string \<Rightarrow> string \<times> offset \<times> string" where
  "site_scan [] caller = ([], 0, caller)"
| "site_scan (f # fs) caller =
     (if fr_tag f = TagInlinedSubroutine then
        site_scan fs (if caller = [] then fr_inlinedFromName f else caller)
      else if fr_tag f = TagSubprogram then
        (fr_subprogramName f, fr_offset f, if caller = [] then fr_subprogramName f else caller)
      else site_scan fs caller)"

definition parseCallSite :: "dwarf \<Rightarrow> string option list \<Rightarrow> line_reader option \<Rightarrow> frame list \<Rightarrow> dentry
    \<Rightarrow> (dwarf_error, CallSite) result" where
  "parseCallSite dw files lr stack e =
     bind_result (attr_file files e AttrCallFile) (\<lambda>file.
       let cs0 = \<lparr>cs_EnclosingName = [], cs_SourceCallerName = [], cs_File = file,
             cs_Line = or_zero 0 (val_int64 e AttrCallLine),
             cs_Column = or_zero 0 (val_int64 e AttrCallColumn),
             cs_Indirect = False, cs_CalleeName = [], cs_CalleeType = [], cs_FieldHint = [],
             cs_returnPC = or_zero 0 (val_uint64 e AttrCallReturnPC),
             cs_callTarget = or_zero [] (val_bytes e AttrCallTarget), cs_enclosingOff = 0\<rparr>;
           cs1 = (case lr of
                    None \<Rightarrow> cs0
                  | Some l \<Rightarrow>
                      if (cs_File cs0 = [] \<or> cs_Line cs0 = 0) \<and> 0 < cs_returnPC cs0
                      then resolveLine l (cs_returnPC cs0 - 1) cs0 else cs0);
           (encl, off, caller) = site_scan stack [];
           cs2 = cs1\<lparr>cs_EnclosingName := encl, cs_enclosingOff := off, cs_SourceCallerName := caller\<rparr>
       in Inr (case val_offset e AttrCallOrigin of
                 Some origin \<Rightarrow> cs2\<lparr>cs_CalleeName := lookupName dw origin\<rparr>
               | None \<Rightarrow> cs2\<lparr>cs_Indirect := True\<rparr>))"

section \<open>Types and variables\<close>

text \<open>The type of an entry, empty where it has none.\<close>

definition attr_type :: "dwarf \<Rightarrow> dentry \<Rightarrow> type_cache \<Rightarrow> string \<times> type_cache" where
  "attr_type dw e c =
     (case val_offset e AttrType of None \<Rightarrow> ([], c) | Some off \<Rightarrow> rendered c (tc_render dw off c))"

fun struct_fields :: "dwarf \<Rightarrow> dentry list \<Rightarrow> type_cache \<Rightarrow> FieldInfo list \<times> type_cache" where
  "struct_fields dw [] c = ([], c)"
| "struct_fields dw (m # ms) c =
     (if e_Tag m = TagMember then
        (let (ty, c1) = attr_type dw m c;
             (fs, c2) = struct_fields dw ms c1
         in (\<lparr>fi_Name = or_zero [] (val_string m AttrName), fi_Type = ty,
              fi_ByteOffset = or_zero 0 (val_int64 m AttrDataMemberLoc)\<rparr> # fs, c2))
      else struct_fields dw ms c)"

definition parseStruct :: "dwarf \<Rightarrow> string option list \<Rightarrow> dentry \<Rightarrow> dentry list \<Rightarrow> type_cache
    \<Rightarrow> (dwarf_error, StructInfo \<times> type_cache) result" where
  "parseStruct dw files e kids c =
     bind_result (attr_file files e AttrDeclFile) (\<lambda>file.
       let (fs, c') = (if e_Children e then struct_fields dw kids c else ([], c))
       in Inr (\<lparr>si_Name = or_zero [] (val_string e AttrName),
                si_Kind = (if e_Tag e = TagUnionType then ''union'' else ''struct''),
                si_DeclFile = file, si_DeclLine = or_zero 0 (val_int64 e AttrDeclLine),
                si_DeclColumn = or_zero 0 (val_int64 e AttrDeclColumn),
                si_ByteSize = or_zero 0 (val_int64 e AttrByteSize), si_Fields = fs\<rparr>, c'))"

definition enum_value :: "dentry \<Rightarrow> int" where
  "enum_value c = (case Val c AttrConstValue of Some (V_int64 v) \<Rightarrow> v | Some (V_goint v) \<Rightarrow> v | _ \<Rightarrow> 0)"

definition enum_constants :: "dentry list \<Rightarrow> EnumConstant list" where
  "enum_constants kids =
     map (\<lambda>c. \<lparr>ec_Name = or_zero [] (val_string c AttrName), ec_Value = enum_value c\<rparr>)
       (filter (\<lambda>c. e_Tag c = TagEnumerator \<and> or_zero [] (val_string c AttrName) \<noteq> []) kids)"

definition parseEnum :: "string option list \<Rightarrow> dentry \<Rightarrow> dentry list \<Rightarrow> (dwarf_error, EnumInfo) result" where
  "parseEnum files e kids =
     bind_result (attr_file files e AttrDeclFile) (\<lambda>file.
       Inr \<lparr>en_Name = or_zero [] (val_string e AttrName), en_DeclFile = file,
            en_DeclLine = or_zero 0 (val_int64 e AttrDeclLine),
            en_DeclColumn = or_zero 0 (val_int64 e AttrDeclColumn),
            en_ByteSize = or_zero 0 (val_int64 e AttrByteSize),
            en_Constants = (if e_Children e then enum_constants kids else [])\<rparr>)"

definition parseTypedef :: "dwarf \<Rightarrow> string option list \<Rightarrow> dentry \<Rightarrow> type_cache
    \<Rightarrow> (dwarf_error, TypedefInfo \<times> type_cache) result" where
  "parseTypedef dw files e c =
     bind_result (attr_file files e AttrDeclFile) (\<lambda>file.
       let (ty, c') = attr_type dw e c
       in Inr (\<lparr>td_Name = or_zero [] (val_string e AttrName), td_DeclFile = file,
                td_DeclLine = or_zero 0 (val_int64 e AttrDeclLine), td_Target = ty\<rparr>, c'))"

definition parseVariable :: "dwarf \<Rightarrow> string option list \<Rightarrow> dentry \<Rightarrow> type_cache
    \<Rightarrow> (dwarf_error, VariableInfo \<times> type_cache) result" where
  "parseVariable dw files e c =
     bind_result (attr_file files e AttrDeclFile) (\<lambda>file.
       let (ty, c') = attr_type dw e c
       in Inr (\<lparr>vi_Name = or_zero [] (val_string e AttrName), vi_DeclFile = file,
                vi_DeclLine = or_zero 0 (val_int64 e AttrDeclLine), vi_Type = ty\<rparr>, c'))"

section \<open>The pass over the entries\<close>

record read_state =
  rs_info :: Info
  rs_cache :: type_cache
  rs_files :: "string option list"
  rs_lr :: "line_reader option"
  rs_varTypes :: "(string, offset) gomap"

text \<open>The body of the switch for one entry, given the enclosing frames and the entries a loop over its children sees.\<close>

definition note_var_type :: "frame list \<Rightarrow> dentry \<Rightarrow> (string, offset) gomap \<Rightarrow> (string, offset) gomap" where
  "note_var_type stack e m =
     (case (val_string e AttrName, val_offset e AttrType) of
        (Some n, Some off) \<Rightarrow> if length stack \<le> 1 \<and> n \<noteq> [] then gput n off m else m
      | _ \<Rightarrow> m)"

definition visit_unit :: "(dentry \<Rightarrow> line_reader option) \<Rightarrow> dentry \<Rightarrow> read_state \<Rightarrow> read_state" where
  "visit_unit lines e st =
     (let info = (rs_info st)\<lparr>in_CompDir := or_zero [] (val_string e AttrCompDir),
                              in_CUFile := or_zero [] (val_string e AttrName)\<rparr>
      in case lines e of
           None \<Rightarrow> st\<lparr>rs_info := info\<rparr>
         | Some lr \<Rightarrow> st\<lparr>rs_info := info, rs_lr := Some lr, rs_files := lr_Files lr\<rparr>)"

definition visit_variable :: "dwarf \<Rightarrow> frame list \<Rightarrow> dentry \<Rightarrow> read_state \<Rightarrow> (dwarf_error, read_state) result" where
  "visit_variable dw stack e st =
     bind_result (parseVariable dw (rs_files st) e (rs_cache st)) (\<lambda>(v, c).
       Inr (st\<lparr>rs_cache := c, rs_varTypes := note_var_type stack e (rs_varTypes st),
               rs_info := (rs_info st)\<lparr>in_Variables := in_Variables (rs_info st) @
                 (if vi_Name v \<noteq> [] \<and> vi_DeclFile v \<noteq> [] \<and> length stack \<le> 1 then [v] else [])\<rparr>\<rparr>))"

definition visit_entry :: "dwarf \<Rightarrow> (dentry \<Rightarrow> line_reader option) \<Rightarrow> frame list \<Rightarrow> dentry \<Rightarrow> dentry list
    \<Rightarrow> read_state \<Rightarrow> (dwarf_error, read_state) result" where
  "visit_entry dw lines stack e kids st =
     (let info = rs_info st; files = rs_files st; c = rs_cache st in
      case e_Tag e of
        TagCompileUnit \<Rightarrow> Inr (visit_unit lines e st)
      | TagSubprogram \<Rightarrow>
          bind_result (parseSubprogram dw files e c) (\<lambda>(sp, c').
            Inr (st\<lparr>rs_cache := c', rs_info := info\<lparr>in_Subprograms := in_Subprograms info @ [sp]\<rparr>\<rparr>))
      | TagInlinedSubroutine \<Rightarrow>
          bind_result (parseInlineInstance dw files stack e) (\<lambda>ii.
            Inr (st\<lparr>rs_info := info\<lparr>in_InlineInstances := in_InlineInstances info @
                   (case ii of None \<Rightarrow> [] | Some i \<Rightarrow> [i])\<rparr>\<rparr>))
      | TagCallSite \<Rightarrow>
          bind_result (parseCallSite dw files (rs_lr st) stack e) (\<lambda>cs.
            Inr (st\<lparr>rs_info := info\<lparr>in_CallSites := in_CallSites info @
                   (if cs_File cs \<noteq> [] \<or> cs_Line cs \<noteq> 0 then [cs] else [])\<rparr>\<rparr>))
      | TagStructType \<Rightarrow>
          bind_result (parseStruct dw files e kids c) (\<lambda>(s, c').
            Inr (st\<lparr>rs_cache := c', rs_info := info\<lparr>in_Structs := in_Structs info @ [s]\<rparr>\<rparr>))
      | TagUnionType \<Rightarrow>
          bind_result (parseStruct dw files e kids c) (\<lambda>(s, c').
            Inr (st\<lparr>rs_cache := c', rs_info := info\<lparr>in_Structs := in_Structs info @ [s]\<rparr>\<rparr>))
      | TagEnumerationType \<Rightarrow>
          bind_result (parseEnum files e kids) (\<lambda>en.
            Inr (st\<lparr>rs_info := info\<lparr>in_Enums := in_Enums info @ [en]\<rparr>\<rparr>))
      | TagTypedef \<Rightarrow>
          bind_result (parseTypedef dw files e c) (\<lambda>(t, c').
            Inr (st\<lparr>rs_cache := c', rs_info := info\<lparr>in_Typedefs := in_Typedefs info @
                   (if td_Name t \<noteq> [] then [t] else [])\<rparr>\<rparr>))
      | TagVariable \<Rightarrow> visit_variable dw stack e st
      | _ \<Rightarrow> Inr st)"

text \<open>The entries whose children the parser of the entry reads itself.\<close>

definition reads_children :: "tag \<Rightarrow> bool" where
  "reads_children t \<longleftrightarrow> t = TagStructType \<or> t = TagUnionType \<or> t = TagEnumerationType"

definition push_frame :: "dwarf \<Rightarrow> dentry \<Rightarrow> frame list \<Rightarrow> frame list" where
  "push_frame dw e stack = (if e_Children e then newFrame dw e # stack else stack)"

function read_loop :: "dwarf \<Rightarrow> (dentry \<Rightarrow> line_reader option) \<Rightarrow> dentry list \<Rightarrow> frame list \<Rightarrow> read_state
    \<Rightarrow> (dwarf_error, read_state) result" where
  "read_loop dw lines [] stack st = Inr st"
| "read_loop dw lines (e # es) stack st =
     (if e_Tag e = TagNull then read_loop dw lines es (tl stack) st
      else
        bind_result (visit_entry dw lines stack e (siblings es) st) (\<lambda>st'.
          if reads_children (e_Tag e)
          then read_loop dw lines (if e_Children e then after_siblings es else es) stack st'
          else read_loop dw lines es (push_frame dw e stack) st'))"
  by pat_completeness auto
termination
proof (relation "measure (\<lambda>(dw, lines, es, stack, st). length es)", goal_cases)
  case (3 dw lines e es stack st st')
  then show ?case using after_siblings_length [of es] by auto
qed auto

text \<open>The second phase: every indirect site is resolved, the cache passed along.\<close>

fun resolve_sites :: "dwarf \<Rightarrow> indirectResolver \<Rightarrow> CallSite list \<Rightarrow> type_cache
    \<Rightarrow> (dwarf_error, CallSite list) result" where
  "resolve_sites dw ir [] c = Inr []"
| "resolve_sites dw ir (cs # css) c =
     bind_result (if cs_Indirect cs then resolve dw ir cs c else Inr (cs, c)) (\<lambda>(cs', c').
       bind_result (resolve_sites dw ir css c') (\<lambda>css'. Inr (cs' # css')))"

definition resolve_info :: "dwarf \<Rightarrow> elf_file \<Rightarrow> read_state \<Rightarrow> (dwarf_error, Info) result" where
  "resolve_info dw f st =
     (let info = rs_info st in
      if list_ex cs_Indirect (in_CallSites info) then
        bind_result (resolve_sites dw (newIndirectResolver f (rs_varTypes st)) (in_CallSites info) (rs_cache st))
          (\<lambda>css. Inr (info\<lparr>in_CallSites := css\<rparr>))
      else Inr info)"

text \<open>
  An object as the program finds it: the ELF file, if it opens; its entries, if it has DWARF, and
  whether the stream ends cleanly; the line table of each unit.
\<close>

record object_file =
  of_elf :: "elf_file option"
  of_dwarf :: "dwarf option"
  of_clean :: bool
  of_lines :: "dentry \<Rightarrow> line_reader option"

definition start_state :: "string \<Rightarrow> read_state" where
  "start_state path = \<lparr>rs_info = \<lparr>in_ObjectPath = path, in_CompDir = [], in_CUFile = [], in_Subprograms = [],
     in_CallSites = [], in_InlineInstances = [], in_Structs = [], in_Typedefs = [], in_Enums = [], in_Variables = []\<rparr>,
     rs_cache = [], rs_files = [], rs_lr = None, rs_varTypes = []\<rparr>"

definition Read :: "string \<Rightarrow> object_file \<Rightarrow> (dwarf_error, Info) result" where
  "Read path obj =
     (case of_elf obj of
        None \<Rightarrow> Inl (D_open path)
      | Some f \<Rightarrow>
          (case of_dwarf obj of
             None \<Rightarrow> Inl (D_extract path)
           | Some dw \<Rightarrow>
               bind_result (read_loop dw (of_lines obj) (dw_entries dw) [] (start_state path)) (\<lambda>st.
                 if of_clean obj then resolve_info dw f st else Inl (D_read path))))"

section \<open>The tree\<close>

fun visit_die :: "dwarf \<Rightarrow> (dentry \<Rightarrow> line_reader option) \<Rightarrow> frame list \<Rightarrow> die \<Rightarrow> read_state
    \<Rightarrow> (dwarf_error, read_state) result"
  and visit_dies :: "dwarf \<Rightarrow> (dentry \<Rightarrow> line_reader option) \<Rightarrow> frame list \<Rightarrow> die list \<Rightarrow> read_state
    \<Rightarrow> (dwarf_error, read_state) result" where
  "visit_die dw lines stack (Die e cs) st =
     bind_result (visit_entry dw lines stack e (map die_entry cs) st) (\<lambda>st'.
       if reads_children (e_Tag e) then Inr st'
       else visit_dies dw lines (newFrame dw e # stack) cs st')"
| "visit_dies dw lines stack [] st = Inr st"
| "visit_dies dw lines stack (d # ds) st =
     bind_result (visit_die dw lines stack d st) (visit_dies dw lines stack ds)"

lemma visit_entry_no_children:
  "\<not> e_Children e \<Longrightarrow> visit_entry dw lines stack e kids st = visit_entry dw lines stack e kids' st"
  by (simp add: visit_entry_def Let_def parseStruct_def parseEnum_def split: tag.split)

lemma read_loop_tree:
  "die_ok d \<Longrightarrow> read_loop dw lines (flat d @ rest) stack st =
     bind_result (visit_die dw lines stack d st) (read_loop dw lines rest stack)"
  "list_all die_ok ds \<Longrightarrow> read_loop dw lines (flats ds @ rest) stack st =
     bind_result (visit_dies dw lines stack ds st) (read_loop dw lines rest stack)"
proof (induction dw lines stack d st and dw lines stack ds st arbitrary: rest and rest
    rule: visit_die_visit_dies.induct)
  case (1 dw lines stack e cs st)
  have nn: "e_Tag e \<noteq> TagNull" and ok: "list_all die_ok cs" using 1(2) by auto
  show ?case
  proof (cases "e_Children e")
    case True
    let ?es = "flats cs @ null_entry # rest"
    have "read_loop dw lines (flat (Die e cs) @ rest) stack st =
      bind_result (visit_entry dw lines stack e (map die_entry cs) st) (\<lambda>st'.
        if reads_children (e_Tag e) then read_loop dw lines rest stack st'
        else read_loop dw lines ?es (newFrame dw e # stack) st')"
      using True nn siblings_flats [OF ok, of rest] after_siblings_flats [OF ok, of rest]
      by (simp add: push_frame_def cong: if_cong)
    also have "\<dots> = bind_result (visit_die dw lines stack (Die e cs) st) (read_loop dw lines rest stack)"
      using 1(1) [OF _ ok, where rest = "null_entry # rest"]
      by (cases "visit_entry dw lines stack e (map die_entry cs) st") auto
    finally show ?thesis .
  next
    case False
    then have "cs = []" using 1(2) by simp
    with False nn show ?thesis
      using visit_entry_no_children [OF False, of dw lines stack "siblings rest" st "[]"]
      by (cases "visit_entry dw lines stack e [] st") (auto simp: push_frame_def)
  qed
next
  case (3 dw lines stack d ds st)
  then show ?case by (cases "visit_die dw lines stack d st") auto
qed auto

text \<open>
  C17 Refinement. On the serialisation of a forest of entries, the pass over the stream with its
  stack is the recursion over the forest: every entry is visited once with the frames of exactly the
  entries around it, the children of structs, unions and enums are left to the parser of the struct,
  union or enum, and the result is that of the recursion, errors included.
\<close>

theorem Read_refines_tree:
  assumes "list_all die_ok ds" "of_dwarf obj = Some dw" "dw_entries dw = flats ds" "of_elf obj = Some f" "of_clean obj"
  shows "Read path obj =
    bind_result (visit_dies dw (of_lines obj) [] ds (start_state path)) (resolve_info dw f)"
  using assms read_loop_tree(2) [OF assms(1), of dw "of_lines obj" "[]" "[]" "start_state path"]
  by (cases "visit_dies dw (of_lines obj) [] ds (start_state path)") (simp_all add: Read_def)

section \<open>Attribution\<close>

text \<open>The inlined bodies between an entry and the function around it, innermost first.\<close>

definition inlined_frames :: "frame list \<Rightarrow> frame list" where
  "inlined_frames fs = filter (\<lambda>f. fr_tag f = TagInlinedSubroutine) fs"

definition first_name :: "frame list \<Rightarrow> string" where
  "first_name fs = (case find (\<lambda>f. fr_inlinedFromName f \<noteq> []) fs of None \<Rightarrow> [] | Some f \<Rightarrow> fr_inlinedFromName f)"

lemma inline_scan_split:
  "\<forall>f \<in> set inner. fr_tag f \<noteq> TagSubprogram \<Longrightarrow> fr_tag fn = TagSubprogram \<Longrightarrow>
     inline_scan (inner @ fn # outer) parent depth =
       (if parent = [] then first_name (inlined_frames inner) else parent,
        depth + length (inlined_frames inner), fr_subprogramName fn)"
  by (induction inner arbitrary: parent depth) (auto simp: inlined_frames_def first_name_def)

lemma site_scan_split:
  "\<forall>f \<in> set inner. fr_tag f \<noteq> TagSubprogram \<Longrightarrow> fr_tag fn = TagSubprogram \<Longrightarrow>
     site_scan (inner @ fn # outer) caller =
       (fr_subprogramName fn, fr_offset fn,
        if caller \<noteq> [] then caller
        else if first_name (inlined_frames inner) \<noteq> [] then first_name (inlined_frames inner)
        else fr_subprogramName fn)"
  by (induction inner arbitrary: caller) (auto simp: inlined_frames_def first_name_def)

text \<open>What the scans of the frames record, named or not: the names come from the innermost frame that has one.\<close>

lemma attribution_scan:
  assumes "\<forall>f \<in> set inner. fr_tag f \<noteq> TagSubprogram" "fr_tag fn = TagSubprogram"
  shows "parseInlineInstance dw files (inner @ fn # outer) e = Inr (Some ii) \<Longrightarrow>
      ii_CallerName ii = fr_subprogramName fn \<and> ii_Depth ii = 1 + length (inlined_frames inner) \<and>
      ii_ParentCalleeName ii = first_name (inlined_frames inner)"
    and "parseCallSite dw files lr (inner @ fn # outer) e = Inr cs \<Longrightarrow>
      cs_EnclosingName cs = fr_subprogramName fn \<and> cs_enclosingOff cs = fr_offset fn \<and>
      cs_SourceCallerName cs =
        (if first_name (inlined_frames inner) \<noteq> [] then first_name (inlined_frames inner) else fr_subprogramName fn)"
proof -
  show "ii_CallerName ii = fr_subprogramName fn \<and> ii_Depth ii = 1 + length (inlined_frames inner) \<and>
      ii_ParentCalleeName ii = first_name (inlined_frames inner)"
    if "parseInlineInstance dw files (inner @ fn # outer) e = Inr (Some ii)"
    using that inline_scan_split [OF assms, of outer "[]" 1]
    by (auto simp: parseInlineInstance_def bind_result_Inr_iff split: option.splits if_splits)
  show "cs_EnclosingName cs = fr_subprogramName fn \<and> cs_enclosingOff cs = fr_offset fn \<and> cs_SourceCallerName cs =
      (if first_name (inlined_frames inner) \<noteq> [] then first_name (inlined_frames inner) else fr_subprogramName fn)"
    if "parseCallSite dw files lr (inner @ fn # outer) e = Inr cs"
    using that site_scan_split [OF assms, of outer "[]"]
    by (auto simp: parseCallSite_def bind_result_Inr_iff Let_def split: option.splits)
qed

lemma first_name_named:
  "\<forall>f \<in> set fs. fr_inlinedFromName f \<noteq> [] \<Longrightarrow> first_name fs = (case fs of [] \<Rightarrow> [] | f # _ \<Rightarrow> fr_inlinedFromName f)"
  by (cases fs) (simp_all add: first_name_def)

lemma named_frame_nonempty: "\<forall>f \<in> set fs. fr_inlinedFromName f \<noteq> [] \<Longrightarrow> first_name fs = [] \<longleftrightarrow> fs = []"
  by (cases fs) (simp_all add: first_name_def)

text \<open>
  C18 Attribution of inlined bodies and calls, where every inlined body around the entry has a name. Let the innermost
  function around the entry be \<open>fn\<close>, with the frames \<open>inner\<close> in between. An inlined body is recorded for \<open>fn\<close>, with depth one
  more than the number of inlined bodies in between; its parent is the inlined body that immediately contains it, and is
  empty exactly at depth one. A call site is recorded under \<open>fn\<close>; its source caller is the innermost inlined body around
  it, and \<open>fn\<close> where there is no inlined body in between. Frames outside \<open>fn\<close> have no influence.
\<close>

theorem attribution:
  assumes "\<forall>f \<in> set inner. fr_tag f \<noteq> TagSubprogram" "fr_tag fn = TagSubprogram"
    "\<forall>f \<in> set (inlined_frames inner). fr_inlinedFromName f \<noteq> []"
  shows "(parseInlineInstance dw files (inner @ fn # outer) e = Inr (Some ii) \<longrightarrow>
            ii_CallerName ii = fr_subprogramName fn \<and>
            ii_Depth ii = 1 + length (inlined_frames inner) \<and>
            ii_ParentCalleeName ii = (case inlined_frames inner of [] \<Rightarrow> [] | f # _ \<Rightarrow> fr_inlinedFromName f) \<and>
            (ii_ParentCalleeName ii = [] \<longleftrightarrow> ii_Depth ii = 1)) \<and>
         (parseCallSite dw files lr (inner @ fn # outer) e = Inr cs \<longrightarrow>
            cs_EnclosingName cs = fr_subprogramName fn \<and> cs_enclosingOff cs = fr_offset fn \<and>
            cs_SourceCallerName cs =
              (case inlined_frames inner of [] \<Rightarrow> fr_subprogramName fn | f # _ \<Rightarrow> fr_inlinedFromName f))"
proof -
  let ?fs = "inlined_frames inner"
  have "(if first_name ?fs \<noteq> [] then first_name ?fs else fr_subprogramName fn) =
      (case ?fs of [] \<Rightarrow> fr_subprogramName fn | f # _ \<Rightarrow> fr_inlinedFromName f)"
    using first_name_named [OF assms(3)] named_frame_nonempty [OF assms(3)] by (cases ?fs) simp_all
  moreover have "first_name ?fs = [] \<longleftrightarrow> 1 + length ?fs = 1" using named_frame_nonempty [OF assms(3)] by simp
  ultimately show ?thesis
    using attribution_scan [OF assms(1,2)] first_name_named [OF assms(3)] by simp
qed

text \<open>
  Where a frame has no name, because its abstract origin has none that can be found, both scans pass over it: the
  parent is then a body further out, though the frame counts for the depth, and the source caller may be the function
  though there is an inlined body in between.
\<close>

lemma unnamed_frame_skipped:
  assumes "\<forall>f \<in> set inner. fr_tag f \<noteq> TagSubprogram" "fr_tag fn = TagSubprogram"
    "fr_tag g = TagInlinedSubroutine" "fr_inlinedFromName g = []"
  shows "parseInlineInstance dw files (g # inner @ fn # outer) e = Inr (Some ii) \<Longrightarrow>
      ii_Depth ii = 2 + length (inlined_frames inner) \<and> ii_ParentCalleeName ii = first_name (inlined_frames inner)"
    and "parseCallSite dw files lr (g # fn # outer) e = Inr cs \<Longrightarrow> cs_SourceCallerName cs = fr_subprogramName fn"
proof -
  have "\<forall>f \<in> set (g # inner). fr_tag f \<noteq> TagSubprogram" "\<forall>f \<in> set [g]. fr_tag f \<noteq> TagSubprogram" using assms(1,3) by auto
  note scan = attribution_scan [OF this(1) assms(2)] attribution_scan [OF this(2) assms(2)]
  show "ii_Depth ii = 2 + length (inlined_frames inner) \<and> ii_ParentCalleeName ii = first_name (inlined_frames inner)"
    if "parseInlineInstance dw files (g # inner @ fn # outer) e = Inr (Some ii)"
    using scan(1) [of dw files outer e ii] that assms(3,4) by (simp add: inlined_frames_def first_name_def)
  show "cs_SourceCallerName cs = fr_subprogramName fn" if "parseCallSite dw files lr (g # fn # outer) e = Inr cs"
    using scan(4) [of dw files lr outer e cs] that assms(3,4) by (simp add: inlined_frames_def first_name_def)
qed

section \<open>A sample object\<close>

text \<open>A unit with a function \<open>run\<close>, into which \<open>helper\<close> is inlined; an indirect call from the inlined body.\<close>

definition unit_tree :: die where
  "unit_tree =
     Die (sample_entry 300 TagCompileUnit True [(AttrName, V_string ''a.c''), (AttrCompDir, V_string ''/b'')])
       [Die (sample_entry 310 TagSubprogram False [(AttrName, V_string ''helper''), (AttrInline, V_int64 1)]) [],
        Die (sample_entry 320 TagSubprogram True [(AttrName, V_string ''run''), (AttrLowpc, V_uint64 0)])
          [Die (sample_entry 330 TagInlinedSubroutine True
              [(AttrAbstractOrigin, V_offset 310), (AttrCallFile, V_int64 1), (AttrCallLine, V_int64 9)])
            [Die (sample_entry 340 TagCallSite False [(AttrCallReturnPC, V_uint64 20), (AttrCallLine, V_int64 4)]) []]]]"

definition unit_dw :: dwarf where
  "unit_dw = stream (flat unit_tree)"

definition unit_lines :: "dentry \<Rightarrow> line_reader option" where
  "unit_lines e = Some \<lparr>lr_Files = [None, Some ''a.c''], lr_SeekPC = (\<lambda>_. None)\<rparr>"

definition unit_object :: object_file where
  "unit_object = \<lparr>of_elf = Some table_elf, of_dwarf = Some unit_dw, of_clean = True, of_lines = unit_lines\<rparr>"

theorem Read_refines_tree_witness:
  "Read ''a.o'' unit_object =
    bind_result (visit_dies unit_dw (of_lines unit_object) [] [unit_tree] (start_state ''a.o''))
      (resolve_info unit_dw table_elf)"
  by (rule Read_refines_tree) (simp_all add: unit_object_def unit_tree_def unit_dw_def stream_def)

lemma unit_read:
  "map_sum id (\<lambda>i. (map (\<lambda>ii. (ii_CalleeName ii, ii_CallerName ii, ii_Depth ii, ii_File ii, ii_Line ii)) (in_InlineInstances i),
      map (\<lambda>cs. (cs_EnclosingName cs, cs_SourceCallerName cs, cs_Indirect cs)) (in_CallSites i)))
     (Read ''a.o'' unit_object)
   = Inr ([(''helper'', ''run'', 1, ''a.c'', 9)], [(''run'', ''helper'', True)])"
  by code_simp

definition run_frame :: frame where
  "run_frame = newFrame unit_dw (sample_entry 320 TagSubprogram True [(AttrName, V_string ''run''), (AttrLowpc, V_uint64 0)])"

definition helper_frame :: frame where
  "helper_frame = newFrame unit_dw (sample_entry 330 TagInlinedSubroutine True
     [(AttrAbstractOrigin, V_offset 310), (AttrCallFile, V_int64 1), (AttrCallLine, V_int64 9)])"

theorem attribution_witness:
  "\<exists>cs. parseCallSite unit_dw [None, Some ''a.c''] None ([helper_frame] @ run_frame # [])
     (sample_entry 340 TagCallSite False [(AttrCallReturnPC, V_uint64 20), (AttrCallLine, V_int64 4)]) = Inr cs \<and>
     cs_EnclosingName cs = ''run'' \<and> cs_SourceCallerName cs = ''helper''"
proof -
  let ?e = "sample_entry 340 TagCallSite False [(AttrCallReturnPC, V_uint64 20), (AttrCallLine, V_int64 4)]"
  let ?r = "parseCallSite unit_dw [None, Some ''a.c''] None ([helper_frame] @ run_frame # []) ?e"
  have "map_sum id cs_Indirect ?r = Inr True" by code_simp
  then obtain cs where cs: "?r = Inr cs" by (cases ?r) auto
  have t: "fr_tag run_frame = TagSubprogram" "fr_tag helper_frame = TagInlinedSubroutine" "fr_inlinedFromName helper_frame = ''helper''"
    "fr_subprogramName run_frame = ''run''" by code_simp+
  have "\<forall>f \<in> set [helper_frame]. fr_tag f \<noteq> TagSubprogram" "\<forall>f \<in> set (inlined_frames [helper_frame]). fr_inlinedFromName f \<noteq> []"
    using t by (simp_all add: inlined_frames_def)
  from conjunct2 [OF attribution [OF this(1) t(1) this(2)], rule_format, OF cs] show ?thesis
    using cs t by (simp add: inlined_frames_def)
qed

text \<open>A declaration in file 0 of a table before DWARF 5: the nil entry is dereferenced.\<close>

lemma file_zero_panics: "fileFromIdx [None, Some ''a.c''] 0 = Inl D_panic"
  by code_simp

text \<open>
  A function type without children is rendered from the entries that follow it in the stream: its
  parameter list is that of the parameters among its own siblings.
\<close>

lemma childless_function_type_reads_siblings:
  "map_option fst (renderSubroutineType (tc_render dw) dw 2 (dw_entries dw ! 1) []) = Some ''int (int)''"
  if "dw = stream [sample_entry 1 TagBaseType False [(AttrName, V_string ''int'')],
            sample_entry 2 TagSubroutineType False [(AttrType, V_offset 1), (AttrPrototyped, V_bool True)],
            sample_entry 3 TagFormalParameter False [(AttrType, V_offset 1)]]"
  unfolding that by code_simp

end
