(* ===== verification/Ingest_Dwarf.thy ===== *)
theory Ingest_Dwarf
  imports Hbr_Db Ingest_Paths Build_Dir Usr Dwarf_Reader
begin

text \<open>
  The pass that adds the debug information, \<^verbatim>\<open>src/internal/ingest/dwarf.go\<close>: it updates the rows the compiler
  pass wrote and fills the tables of indirect call sites, inlined bodies and types. What reading an object
  yields is the model of \<^verbatim>\<open>dwarfingest.Read\<close>; the objects on disk, and whether the engine carries out a legal
  statement, are arguments. The tables it works on are the view of its transaction.
\<close>

section \<open>Tables\<close>

record type_row =
  ty_usr :: string
  ty_name :: string
  ty_kind :: string
  ty_decl_file :: string
  ty_decl_line :: int
  ty_byte_size :: "int option"
  ty_underlying :: string

record field_row =
  tf_type_id :: int
  tf_name :: string
  tf_type :: string
  tf_ordinal :: nat
  tf_byte_offset :: int

record constant_row =
  ek_usr :: string
  ek_type_id :: int
  ek_name :: string
  ek_value :: int

record site_row =
  ics_caller_id :: int
  ics_file :: string
  ics_line :: int
  ics_column :: int
  ics_callee_type :: string
  ics_field_hint :: string

record instance_row =
  iin_callee_id :: int
  iin_caller_id :: int
  iin_parent_callee_id :: "int option"
  iin_depth :: nat
  iin_file :: string
  iin_line :: int
  iin_column :: int
  iin_object :: string

text \<open>
  The index with the tables of this pass. A full-text index holds the columns of its content table as they
  were at the last rebuild.
\<close>

record dwarf_db =
  dd_hbr :: hbr
  dd_types :: "(int \<times> type_row) list"
  dd_fields :: "field_row list"
  dd_constants :: "constant_row list"
  dd_sites :: "(int \<times> site_row) list"
  dd_instances :: "instance_row list"
  dd_symbols_fts :: "(int \<times> string \<times> string) list"
  dd_types_fts :: "(int \<times> string \<times> string) list"

section \<open>Statements\<close>

datatype dwarf_stmt =
    St_signature string int
  | St_decl_location string int int
  | St_def_location string int int
  | St_site site_row
  | St_type type_row
  | St_field field_row
  | St_constant constant_row
  | St_instance instance_row
  | St_symbols_fts
  | St_types_fts

text \<open>An \<^verbatim>\<open>UPDATE\<close> of the rows that satisfy a condition, and their number.\<close>

definition update_rows :: "('r \<Rightarrow> bool) \<Rightarrow> ('r \<Rightarrow> 'r) \<Rightarrow> 'r list \<Rightarrow> 'r list \<times> nat" where
  "update_rows P f rows = (map (\<lambda>r. if P r then f r else r) rows, length (filter P rows))"

text \<open>
  The tables after a statement, the number of rows it affected and the id of a new row; nothing when it breaks
  a reference. \<^verbatim>\<open>ON CONFLICT DO NOTHING\<close> affects no row when the key is there already.
\<close>

fun apply_stmt :: "dwarf_stmt \<Rightarrow> dwarf_db \<Rightarrow> (dwarf_db \<times> nat \<times> int) option" where
  "apply_stmt (St_signature sig i) db =
     (let (rows, n) = update_rows (\<lambda>r. fst r = i) (\<lambda>(j, r). (j, r\<lparr>sy_signature := sig\<rparr>)) (symbols (dd_hbr db))
      in Some (db\<lparr>dd_hbr := (dd_hbr db)\<lparr>symbols := rows\<rparr>\<rparr>, n, 0))"
| "apply_stmt (St_decl_location file line i) db =
     (let (rows, n) = update_rows (\<lambda>r. sd_symbol_id (snd r) = i \<and> sd_decl_file (snd r) = [])
        (\<lambda>(j, r). (j, r\<lparr>sd_decl_file := file, sd_decl_line := line\<rparr>)) (symbol_definitions (dd_hbr db))
      in Some (db\<lparr>dd_hbr := (dd_hbr db)\<lparr>symbol_definitions := rows\<rparr>\<rparr>, n, 0))"
| "apply_stmt (St_def_location file line i) db =
     (let (rows, n) = update_rows (\<lambda>r. sd_symbol_id (snd r) = i \<and> sd_line (snd r) = 0)
        (\<lambda>(j, r). (j, r\<lparr>sd_file := file, sd_line := line\<rparr>)) (symbol_definitions (dd_hbr db))
      in Some (db\<lparr>dd_hbr := (dd_hbr db)\<lparr>symbol_definitions := rows\<rparr>\<rparr>, n, 0))"
| "apply_stmt (St_site r) db =
     (if ics_caller_id r \<in> set (ids (symbols (dd_hbr db)))
      then let i = next_id (dd_sites db) in Some (db\<lparr>dd_sites := dd_sites db @ [(i, r)]\<rparr>, 1, i)
      else None)"
| "apply_stmt (St_type r) db =
     (if ty_usr r \<in> set (map (ty_usr \<circ> snd) (dd_types db)) then Some (db, 0, 0)
      else let i = next_id (dd_types db) in Some (db\<lparr>dd_types := dd_types db @ [(i, r)]\<rparr>, 1, i))"
| "apply_stmt (St_field r) db =
     (if tf_type_id r \<in> set (ids (dd_types db)) then Some (db\<lparr>dd_fields := dd_fields db @ [r]\<rparr>, 1, 0) else None)"
| "apply_stmt (St_constant r) db =
     (if ek_usr r \<in> set (map ek_usr (dd_constants db)) then Some (db, 0, 0)
      else if ek_type_id r \<in> set (ids (dd_types db)) then Some (db\<lparr>dd_constants := dd_constants db @ [r]\<rparr>, 1, 0)
      else None)"
| "apply_stmt (St_instance r) db =
     (if {iin_callee_id r, iin_caller_id r} \<union> set_option (iin_parent_callee_id r) \<subseteq> set (ids (symbols (dd_hbr db)))
      then Some (db\<lparr>dd_instances := dd_instances db @ [r]\<rparr>, 1, 0) else None)"
| "apply_stmt St_symbols_fts db =
     Some (db\<lparr>dd_symbols_fts := map (\<lambda>(i, r). (i, sy_name r, sy_signature r)) (symbols (dd_hbr db))\<rparr>, 0, 0)"
| "apply_stmt St_types_fts db =
     Some (db\<lparr>dd_types_fts := map (\<lambda>(i, r). (i, ty_name r, ty_underlying r)) (dd_types db)\<rparr>, 0, 0)"

record dwarf_io =
  dx_begin :: bool
  dx_prepare :: "string \<Rightarrow> bool"
  dx_exec :: "dwarf_db \<Rightarrow> dwarf_stmt \<Rightarrow> bool"
  dx_last_id :: "dwarf_db \<Rightarrow> bool"
  dx_commit :: bool

definition dwarf_working :: dwarf_io where
  "dwarf_working = \<lparr>dx_begin = True, dx_prepare = (\<lambda>_. True), dx_exec = (\<lambda>_ _. True), dx_last_id = (\<lambda>_. True), dx_commit = True\<rparr>"

datatype dwarf_pass_error =
    P_begin | P_prepare string | P_read dwarf_error | P_signature string | P_def_location string
  | P_decl_location string | P_site | P_instance | P_type string | P_type_id string | P_field | P_constant
  | P_symbols_fts | P_types_fts | P_commit | P_usr_panic

definition do_stmt :: "dwarf_io \<Rightarrow> dwarf_pass_error \<Rightarrow> dwarf_stmt \<Rightarrow> dwarf_db
    \<Rightarrow> (dwarf_pass_error, dwarf_db \<times> nat \<times> int) result" where
  "do_stmt io err s db =
     (if \<not> dx_exec io db s then Inl err else case apply_stmt s db of None \<Rightarrow> Inl err | Some r \<Rightarrow> Inr r)"

section \<open>The pass\<close>

record DwarfSummary =
  ds_Signatures :: nat
  ds_DeclLocations :: nat
  ds_DefLocations :: nat
  ds_IndirectSites :: nat
  ds_InlineInstances :: nat
  ds_Types :: nat
  ds_TypeFields :: nat
  ds_EnumConstants :: nat

type_synonym pass_state = "dwarf_db \<times> DwarfSummary"
type_synonym id_map = "(string, int) gomap"

text \<open>A loop whose body may fail.\<close>

fun for_each :: "('a \<Rightarrow> 's \<Rightarrow> ('e, 's) result) \<Rightarrow> 'a list \<Rightarrow> 's \<Rightarrow> ('e, 's) result" where
  "for_each body [] s = Inr s"
| "for_each body (x # xs) s = bind_result (body x s) (for_each body xs)"

definition resolveSymbolID :: "string \<Rightarrow> string \<Rightarrow> id_map \<Rightarrow> int" where
  "resolveSymbolID name tuSourcePath idByUSR =
     (case gget idByUSR (Function_usr [] name) of
        Some i \<Rightarrow> i
      | None \<Rightarrow>
          if tuSourcePath \<noteq> [] then gget_or 0 idByUSR (Function_usr tuSourcePath name) else 0)"

definition cuFilePath :: "Info \<Rightarrow> string" where
  "cuFilePath info =
     (if in_CUFile info = [] then []
      else if IsAbs (in_CUFile info) then in_CUFile info
      else if in_CompDir info = [] then in_CUFile info
      else Clean (Join (in_CompDir info) (in_CUFile info)))"

definition StripFilePrefix :: "string \<Rightarrow> string \<Rightarrow> string" where
  "StripFilePrefix s pre = TrimPrefix s pre"

text \<open>One function entry: its signature, the place of its body, the place of its declaration.\<close>

definition put_signature :: "dwarf_io \<Rightarrow> Subprogram \<Rightarrow> int \<Rightarrow> pass_state \<Rightarrow> (dwarf_pass_error, pass_state) result" where
  "put_signature io sp symID st =
     (if sp_Definition sp \<and> sp_Signature sp \<noteq> [] then
        bind_result (do_stmt io (P_signature (sp_Name sp)) (St_signature (sp_Signature sp) symID) (fst st))
          (\<lambda>(db, _). Inr (db, (snd st)\<lparr>ds_Signatures := ds_Signatures (snd st) + 1\<rparr>))
      else Inr st)"

definition put_def_location :: "dwarf_io \<Rightarrow> PathResolver \<Rightarrow> Subprogram \<Rightarrow> int \<Rightarrow> pass_state
    \<Rightarrow> (dwarf_pass_error, pass_state) result" where
  "put_def_location io pr sp symID st =
     (if sp_AbstractInline sp \<and> sp_DeclFile sp \<noteq> [] \<and> 0 < sp_DeclLine sp then
        bind_result (do_stmt io (P_def_location (sp_Name sp))
            (St_def_location (rp_Rel (ToProjectRelative pr (sp_DeclFile sp))) (sp_DeclLine sp) symID) (fst st))
          (\<lambda>(db, n, _). Inr (db, (snd st)\<lparr>ds_DefLocations := ds_DefLocations (snd st) + n\<rparr>))
      else Inr st)"

definition put_decl_location :: "dwarf_io \<Rightarrow> PathResolver \<Rightarrow> Subprogram \<Rightarrow> int \<Rightarrow> pass_state
    \<Rightarrow> (dwarf_pass_error, pass_state) result" where
  "put_decl_location io pr sp symID st =
     (if sp_Declaration sp \<and> sp_DeclFile sp \<noteq> [] \<and> 0 < sp_DeclLine sp then
        bind_result (do_stmt io (P_decl_location (sp_Name sp))
            (St_decl_location (rp_Rel (ToProjectRelative pr (sp_DeclFile sp))) (sp_DeclLine sp) symID) (fst st))
          (\<lambda>(db, n, _). Inr (db, (snd st)\<lparr>ds_DeclLocations := ds_DeclLocations (snd st) + n\<rparr>))
      else Inr st)"

definition put_subprogram :: "dwarf_io \<Rightarrow> PathResolver \<Rightarrow> id_map \<Rightarrow> string \<Rightarrow> Subprogram \<Rightarrow> pass_state
    \<Rightarrow> (dwarf_pass_error, pass_state) result" where
  "put_subprogram io pr idByUSR tu sp st =
     (let symID = resolveSymbolID (sp_Name sp) tu idByUSR in
      if sp_Name sp = [] \<or> symID = 0 then Inr st
      else bind_result (put_signature io sp symID st) (\<lambda>st1.
             bind_result (put_def_location io pr sp symID st1) (put_decl_location io pr sp symID)))"

definition put_site :: "dwarf_io \<Rightarrow> PathResolver \<Rightarrow> id_map \<Rightarrow> string \<Rightarrow> CallSite \<Rightarrow> pass_state
    \<Rightarrow> (dwarf_pass_error, pass_state) result" where
  "put_site io pr idByUSR tu cs st =
     (let callerID = resolveSymbolID (cs_SourceCallerName cs) tu idByUSR in
      if \<not> cs_Indirect cs \<or> cs_SourceCallerName cs = [] \<or> callerID = 0 then Inr st
      else
        bind_result (do_stmt io P_site
            (St_site \<lparr>ics_caller_id = callerID, ics_file = rp_Rel (ToProjectRelative pr (cs_File cs)),
               ics_line = cs_Line cs, ics_column = cs_Column cs, ics_callee_type = cs_CalleeType cs,
               ics_field_hint = cs_FieldHint cs\<rparr>) (fst st))
          (\<lambda>(db, _). Inr (db, (snd st)\<lparr>ds_IndirectSites := ds_IndirectSites (snd st) + 1\<rparr>)))"

definition parent_id :: "id_map \<Rightarrow> string \<Rightarrow> InlineInstance \<Rightarrow> int option" where
  "parent_id idByUSR tu ii =
     (if ii_ParentCalleeName ii = [] then None
      else let i = resolveSymbolID (ii_ParentCalleeName ii) tu idByUSR in if i \<noteq> 0 then Some i else None)"

definition put_instance :: "dwarf_io \<Rightarrow> PathResolver \<Rightarrow> id_map \<Rightarrow> string \<Rightarrow> string \<Rightarrow> InlineInstance \<Rightarrow> pass_state
    \<Rightarrow> (dwarf_pass_error, pass_state) result" where
  "put_instance io pr idByUSR tu objRel ii st =
     (let calleeID = resolveSymbolID (ii_CalleeName ii) tu idByUSR;
          callerID = resolveSymbolID (ii_CallerName ii) tu idByUSR in
      if calleeID = 0 \<or> callerID = 0 then Inr st
      else
        bind_result (do_stmt io P_instance
            (St_instance \<lparr>iin_callee_id = calleeID, iin_caller_id = callerID,
               iin_parent_callee_id = parent_id idByUSR tu ii, iin_depth = ii_Depth ii,
               iin_file = rp_Rel (ToProjectRelative pr (ii_File ii)), iin_line = ii_Line ii,
               iin_column = ii_Column ii, iin_object = objRel\<rparr>) (fst st))
          (\<lambda>(db, _). Inr (db, (snd st)\<lparr>ds_InlineInstances := ds_InlineInstances (snd st) + 1\<rparr>)))"

text \<open>The USR of a type; nothing for an unnamed typedef. The inner option is the panic of the USR package.\<close>

definition type_usr :: "string \<Rightarrow> string \<Rightarrow> string \<Rightarrow> int \<Rightarrow> int \<Rightarrow> string option option" where
  "type_usr kind rel name line col =
     (if kind = ''typedef'' then (if name = [] then None else Some (Some (Typedef_usr rel name)))
      else if kind = ''struct'' then Some (Struct_usr rel name line col)
      else if kind = ''union'' then Some (Union_usr rel name line col)
      else if kind = ''enum'' then Some (Enum_usr rel name line col)
      else Some (Some []))"

text \<open>\<^verbatim>\<open>insertType\<close>: the id of the new row, nothing when the type is not the project's or is there already.\<close>

definition insertType :: "dwarf_io \<Rightarrow> PathResolver \<Rightarrow> string \<Rightarrow> string \<Rightarrow> string \<Rightarrow> int \<Rightarrow> int \<Rightarrow> int \<Rightarrow> string
    \<Rightarrow> pass_state \<Rightarrow> (dwarf_pass_error, int option \<times> pass_state) result" where
  "insertType io pr name kind declFile line col byteSize underlying st =
     (let rp = ToProjectRelative pr declFile in
      if declFile = [] \<or> \<not> rp_InProject rp then Inr (None, st)
      else
        (case type_usr kind (rp_Rel rp) name line col of
           None \<Rightarrow> Inr (None, st)
         | Some None \<Rightarrow> Inl P_usr_panic
         | Some (Some u) \<Rightarrow>
             bind_result (do_stmt io (P_type u)
                 (St_type \<lparr>ty_usr = u, ty_name = name, ty_kind = kind, ty_decl_file = rp_Rel rp,
                    ty_decl_line = line, ty_byte_size = (if 0 < byteSize then Some byteSize else None),
                    ty_underlying = underlying\<rparr>) (fst st))
               (\<lambda>(db, n, i).
                  if n = 0 then Inr (None, (db, snd st))
                  else if \<not> dx_last_id io db then Inl (P_type_id u)
                  else Inr (Some i, (db, (snd st)\<lparr>ds_Types := ds_Types (snd st) + 1\<rparr>)))))"

definition put_field :: "dwarf_io \<Rightarrow> int \<Rightarrow> nat \<times> FieldInfo \<Rightarrow> pass_state \<Rightarrow> (dwarf_pass_error, pass_state) result" where
  "put_field io i nf st =
     bind_result (do_stmt io P_field
         (St_field \<lparr>tf_type_id = i, tf_name = fi_Name (snd nf), tf_type = fi_Type (snd nf), tf_ordinal = fst nf,
            tf_byte_offset = fi_ByteOffset (snd nf)\<rparr>) (fst st))
       (\<lambda>(db, _). Inr (db, (snd st)\<lparr>ds_TypeFields := ds_TypeFields (snd st) + 1\<rparr>))"

definition put_struct :: "dwarf_io \<Rightarrow> PathResolver \<Rightarrow> StructInfo \<Rightarrow> pass_state \<Rightarrow> (dwarf_pass_error, pass_state) result" where
  "put_struct io pr s st =
     bind_result (insertType io pr (si_Name s) (si_Kind s) (si_DeclFile s) (si_DeclLine s) (si_DeclColumn s)
         (si_ByteSize s) [] st)
       (\<lambda>(fresh, st1).
          case fresh of
            None \<Rightarrow> Inr st1
          | Some i \<Rightarrow> for_each (put_field io i) (List.enumerate 0 (si_Fields s)) st1)"

definition put_typedef :: "dwarf_io \<Rightarrow> PathResolver \<Rightarrow> TypedefInfo \<Rightarrow> pass_state \<Rightarrow> (dwarf_pass_error, pass_state) result" where
  "put_typedef io pr t st =
     bind_result (insertType io pr (td_Name t) ''typedef'' (td_DeclFile t) (td_DeclLine t) 0 0 (td_Target t) st)
       (\<lambda>(_, st1). Inr st1)"

definition put_constant :: "dwarf_io \<Rightarrow> PathResolver \<Rightarrow> EnumInfo \<Rightarrow> int \<Rightarrow> EnumConstant \<Rightarrow> pass_state
    \<Rightarrow> (dwarf_pass_error, pass_state) result" where
  "put_constant io pr en i c st =
     (case EnumMember_usr (rp_Rel (ToProjectRelative pr (en_DeclFile en))) (en_Name en) (en_DeclLine en)
         (en_DeclColumn en) (ec_Name c) of
        None \<Rightarrow> Inl P_usr_panic
      | Some u \<Rightarrow>
          bind_result (do_stmt io P_constant
              (St_constant \<lparr>ek_usr = u, ek_type_id = i, ek_name = ec_Name c, ek_value = ec_Value c\<rparr>) (fst st))
            (\<lambda>(db, _). Inr (db, (snd st)\<lparr>ds_EnumConstants := ds_EnumConstants (snd st) + 1\<rparr>)))"

definition put_enum :: "dwarf_io \<Rightarrow> PathResolver \<Rightarrow> EnumInfo \<Rightarrow> pass_state \<Rightarrow> (dwarf_pass_error, pass_state) result" where
  "put_enum io pr en st =
     bind_result (insertType io pr (en_Name en) ''enum'' (en_DeclFile en) (en_DeclLine en) (en_DeclColumn en)
         (en_ByteSize en) [] st)
       (\<lambda>(fresh, st1).
          case fresh of
            None \<Rightarrow> Inr st1
          | Some i \<Rightarrow> for_each (put_constant io pr en i) (en_Constants en) st1)"

text \<open>Everything one object contributes.\<close>

definition put_info :: "dwarf_io \<Rightarrow> string \<Rightarrow> PathResolver \<Rightarrow> id_map \<Rightarrow> string \<Rightarrow> Info \<Rightarrow> pass_state
    \<Rightarrow> (dwarf_pass_error, pass_state) result" where
  "put_info io root pr idByUSR obj info st =
     (let tu = rp_Rel (ToProjectRelative pr (cuFilePath info));
          objRel = (case Rel root obj of Some rel \<Rightarrow> rel | None \<Rightarrow> obj)
      in bind_result (for_each (put_subprogram io pr idByUSR tu) (in_Subprograms info) st) (\<lambda>st1.
           bind_result (for_each (put_site io pr idByUSR tu) (in_CallSites info) st1) (\<lambda>st2.
             bind_result (for_each (put_instance io pr idByUSR tu objRel) (in_InlineInstances info) st2) (\<lambda>st3.
               bind_result (for_each (put_struct io pr) (in_Structs info) st3) (\<lambda>st4.
                 bind_result (for_each (put_typedef io pr) (in_Typedefs info) st4)
                   (for_each (put_enum io pr) (in_Enums info)))))))"

definition put_object :: "dwarf_io \<Rightarrow> (string \<Rightarrow> object_file) \<Rightarrow> string \<Rightarrow> PathResolver \<Rightarrow> id_map \<Rightarrow> ObjectArtifacts
    \<Rightarrow> pass_state \<Rightarrow> (dwarf_pass_error, pass_state) result" where
  "put_object io files root pr idByUSR art st =
     (case Read (oa_Object art) (files (oa_Object art)) of
        Inl e \<Rightarrow> Inl (P_read e)
      | Inr info \<Rightarrow> put_info io root pr idByUSR (oa_Object art) info st)"

definition zero_dwarf_summary :: DwarfSummary where
  "zero_dwarf_summary = \<lparr>ds_Signatures = 0, ds_DeclLocations = 0, ds_DefLocations = 0, ds_IndirectSites = 0,
     ds_InlineInstances = 0, ds_Types = 0, ds_TypeFields = 0, ds_EnumConstants = 0\<rparr>"

text \<open>The statements in the order in which they are prepared.\<close>

definition dwarf_statements :: "string list" where
  "dwarf_statements = [''signature update'', ''decl update'', ''def location update'', ''indirect insert'',
     ''types insert'', ''type_fields insert'', ''enum_constants insert'', ''inline_instances insert'']"

definition write_dwarf :: "dwarf_io \<Rightarrow> (string \<Rightarrow> object_file) \<Rightarrow> dwarf_db \<Rightarrow> BuildDir \<Rightarrow> PathResolver \<Rightarrow> id_map
    \<Rightarrow> (dwarf_pass_error, pass_state) result" where
  "write_dwarf io files db bd pr idByUSR =
     bind_result (for_each (put_object io files (bd_Root bd) pr idByUSR) (sort_key oa_Object (bd_Objects bd))
         (db, zero_dwarf_summary))
       (\<lambda>(db1, sm).
          bind_result (do_stmt io P_symbols_fts St_symbols_fts db1) (\<lambda>(db2, _).
            bind_result (do_stmt io P_types_fts St_types_fts db2) (\<lambda>(db3, _). Inr (db3, sm))))"

definition DWARF :: "dwarf_io \<Rightarrow> (string \<Rightarrow> object_file) \<Rightarrow> dwarf_db \<Rightarrow> BuildDir \<Rightarrow> PathResolver \<Rightarrow> id_map
    \<Rightarrow> dwarf_db \<times> (dwarf_pass_error + DwarfSummary)" where
  "DWARF io files db bd pr idByUSR =
     (if \<not> dx_begin io then (db, Inl P_begin)
      else
        (case find (\<lambda>s. \<not> dx_prepare io s) dwarf_statements of
           Some s \<Rightarrow> (db, Inl (P_prepare s))
         | None \<Rightarrow>
             (case write_dwarf io files db bd pr idByUSR of
                Inl e \<Rightarrow> (db, Inl e)
              | Inr (view, sm) \<Rightarrow> if dx_commit io then (view, Inr sm) else (db, Inl P_commit))))"

section \<open>Frames\<close>

lemma for_each_inv:
  assumes "\<And>x s s'. x \<in> set xs \<Longrightarrow> P s \<Longrightarrow> body x s = Inr s' \<Longrightarrow> P s'"
    and "P s" "for_each body xs s = Inr s'"
  shows "P s'"
  using assms
proof (induction xs arbitrary: s)
  case (Cons x xs)
  from Cons.prems(3) obtain s1 where s1: "body x s = Inr s1" "for_each body xs s1 = Inr s'"
    by (auto simp: bind_result_Inr_iff)
  have "P s1" using Cons.prems(1) [of x s s1] Cons.prems(2) s1(1) by simp
  show ?case
  proof (rule Cons.IH [OF _ \<open>P s1\<close> s1(2)])
    show "P b" if "y \<in> set xs" "P a" "body y a = Inr b" for y a b
      using Cons.prems(1) [of y a b] that by simp
  qed
qed simp

text \<open>A loop that extends what its state has seen by what each element contributes.\<close>

lemma for_each_collect:
  assumes "\<And>x s s' seen. x \<in> set xs \<Longrightarrow> P seen s \<Longrightarrow> body x s = Inr s' \<Longrightarrow> P (seen @ contrib x) s'"
    and "P seen s" "for_each body xs s = Inr s'"
  shows "P (seen @ concat (map contrib xs)) s'"
  using assms
proof (induction xs arbitrary: s seen)
  case (Cons x xs)
  from Cons.prems(3) obtain s1 where s1: "body x s = Inr s1" "for_each body xs s1 = Inr s'"
    by (auto simp: bind_result_Inr_iff)
  have "P (seen @ contrib x) s1" using Cons.prems(1) [of x seen s s1] Cons.prems(2) s1(1) by simp
  from Cons.IH [OF _ this s1(2)] Cons.prems(1)
  have "P ((seen @ contrib x) @ concat (map contrib xs)) s'" by (meson list.set_intros(2))
  then show ?case by simp
qed simp

fun stmt_table :: "dwarf_stmt \<Rightarrow> string" where
  "stmt_table (St_signature _ _) = ''symbols''"
| "stmt_table (St_decl_location _ _ _) = ''symbol_definitions''"
| "stmt_table (St_def_location _ _ _) = ''symbol_definitions''"
| "stmt_table (St_site _) = ''indirect_call_sites''"
| "stmt_table (St_type _) = ''types''"
| "stmt_table (St_field _) = ''type_fields''"
| "stmt_table (St_constant _) = ''enum_constants''"
| "stmt_table (St_instance _) = ''inline_instances''"
| "stmt_table St_symbols_fts = ''symbols_fts''"
| "stmt_table St_types_fts = ''types_fts''"

text \<open>
  What a property must satisfy to hold through the pass: the statements on the given tables keep it. The lemmas
  of the locale carry it through each operation that only writes to those tables.
\<close>

locale kept_by =
  fixes T :: "string set"
    and P :: "dwarf_db \<Rightarrow> bool"
  assumes kept: "stmt_table s \<in> T \<Longrightarrow> P db \<Longrightarrow> apply_stmt s db = Some (db', r) \<Longrightarrow> P db'"
begin

lemma do_stmt_kept: "stmt_table s \<in> T \<Longrightarrow> P db \<Longrightarrow> do_stmt io err s db = Inr (db', r) \<Longrightarrow> P db'"
  by (auto simp: do_stmt_def split: if_splits option.splits intro: kept)

lemma put_subprogram_kept:
  "{''symbols'', ''symbol_definitions''} \<subseteq> T \<Longrightarrow> P (fst st) \<Longrightarrow> put_subprogram io pr m tu sp st = Inr st' \<Longrightarrow> P (fst st')"
  by (auto simp: put_subprogram_def put_signature_def put_def_location_def put_decl_location_def Let_def
      bind_result_Inr_iff split: if_splits elim!: do_stmt_kept [rotated 2])

lemma put_site_kept:
  "''indirect_call_sites'' \<in> T \<Longrightarrow> P (fst st) \<Longrightarrow> put_site io pr m tu cs st = Inr st' \<Longrightarrow> P (fst st')"
  by (auto simp: put_site_def Let_def bind_result_Inr_iff split: if_splits elim!: do_stmt_kept [rotated 2])

lemma put_instance_kept:
  "''inline_instances'' \<in> T \<Longrightarrow> P (fst st) \<Longrightarrow> put_instance io pr m tu o' ii st = Inr st' \<Longrightarrow> P (fst st')"
  by (auto simp: put_instance_def Let_def bind_result_Inr_iff split: if_splits elim!: do_stmt_kept [rotated 2])

lemma insertType_kept:
  "''types'' \<in> T \<Longrightarrow> P (fst st) \<Longrightarrow> insertType io pr n k f l c b u st = Inr (i, st') \<Longrightarrow> P (fst st')"
  by (auto simp: insertType_def Let_def bind_result_Inr_iff split: if_splits option.splits elim!: do_stmt_kept [rotated 2])

lemma put_field_kept: "''type_fields'' \<in> T \<Longrightarrow> P (fst st) \<Longrightarrow> put_field io i nf st = Inr st' \<Longrightarrow> P (fst st')"
  by (auto simp: put_field_def bind_result_Inr_iff elim!: do_stmt_kept [rotated 2])

lemma put_constant_kept:
  "''enum_constants'' \<in> T \<Longrightarrow> P (fst st) \<Longrightarrow> put_constant io pr en i c st = Inr st' \<Longrightarrow> P (fst st')"
  by (auto simp: put_constant_def bind_result_Inr_iff split: option.splits elim!: do_stmt_kept [rotated 2])

lemma put_struct_kept:
  assumes "{''types'', ''type_fields''} \<subseteq> T" "P (fst st)" "put_struct io pr s st = Inr st'"
  shows "P (fst st')"
proof -
  obtain fresh st1 where i: "insertType io pr (si_Name s) (si_Kind s) (si_DeclFile s) (si_DeclLine s)
      (si_DeclColumn s) (si_ByteSize s) [] st = Inr (fresh, st1)"
    and rest: "(case fresh of None \<Rightarrow> Inr st1 | Some i \<Rightarrow> for_each (put_field io i) (List.enumerate 0 (si_Fields s)) st1) = Inr st'"
    using assms(3) by (auto simp: put_struct_def bind_result_Inr_iff)
  have "P (fst st1)" using insertType_kept [OF _ assms(2) i] assms(1) by simp
  then show ?thesis using rest assms(1)
    by (auto split: option.splits intro: for_each_inv [where P = "\<lambda>s. P (fst s)"] put_field_kept)
qed

lemma put_typedef_kept: "''types'' \<in> T \<Longrightarrow> P (fst st) \<Longrightarrow> put_typedef io pr t st = Inr st' \<Longrightarrow> P (fst st')"
  by (auto simp: put_typedef_def bind_result_Inr_iff intro: insertType_kept)

lemma put_enum_kept:
  assumes "{''types'', ''enum_constants''} \<subseteq> T" "P (fst st)" "put_enum io pr en st = Inr st'"
  shows "P (fst st')"
proof -
  obtain fresh st1 where i: "insertType io pr (en_Name en) ''enum'' (en_DeclFile en) (en_DeclLine en)
      (en_DeclColumn en) (en_ByteSize en) [] st = Inr (fresh, st1)"
    and rest: "(case fresh of None \<Rightarrow> Inr st1 | Some i \<Rightarrow> for_each (put_constant io pr en i) (en_Constants en) st1) = Inr st'"
    using assms(3) by (auto simp: put_enum_def bind_result_Inr_iff)
  have "P (fst st1)" using insertType_kept [OF _ assms(2) i] assms(1) by simp
  then show ?thesis using rest assms(1)
    by (auto split: option.splits intro: for_each_inv [where P = "\<lambda>s. P (fst s)"] put_constant_kept)
qed

lemma for_each_kept:
  assumes "\<And>x s s'. P (fst s) \<Longrightarrow> body x s = Inr s' \<Longrightarrow> P (fst s')" "P (fst st)" "for_each body xs st = Inr st'"
  shows "P (fst st')"
  by (rule for_each_inv [where P = "\<lambda>s. P (fst s)", OF _ assms(2,3)]) (rule assms(1))

lemma put_types_kept:
  assumes T: "{''types'', ''type_fields'', ''enum_constants''} \<subseteq> T" and p: "P (fst st)"
    and s: "for_each (put_struct io pr) ss st = Inr st1" "for_each (put_typedef io pr) ts st1 = Inr st2"
      "for_each (put_enum io pr) es st2 = Inr st3"
  shows "P (fst st3)"
proof -
  have T': "{''types'', ''type_fields''} \<subseteq> T" "''types'' \<in> T" "{''types'', ''enum_constants''} \<subseteq> T" using T by auto
  have p1: "P (fst st1)" by (rule for_each_kept [OF put_struct_kept [OF T'(1)] p s(1)])
  have p2: "P (fst st2)" by (rule for_each_kept [OF put_typedef_kept [OF T'(2)] p1 s(2)])
  show ?thesis by (rule for_each_kept [OF put_enum_kept [OF T'(3)] p2 s(3)])
qed

lemma put_calls_kept:
  assumes T: "{''indirect_call_sites'', ''inline_instances''} \<subseteq> T" and p: "P (fst st)"
    and s: "for_each (put_site io pr m tu) cs st = Inr st1" "for_each (put_instance io pr m tu o') is st1 = Inr st2"
  shows "P (fst st2)"
proof -
  have T': "''indirect_call_sites'' \<in> T" "''inline_instances'' \<in> T" using T by auto
  have p1: "P (fst st1)" by (rule for_each_kept [OF put_site_kept [OF T'(1)] p s(1)])
  show ?thesis by (rule for_each_kept [OF put_instance_kept [OF T'(2)] p1 s(2)])
qed

lemma put_subprograms_kept:
  assumes "{''symbols'', ''symbol_definitions''} \<subseteq> T" "P (fst st)" "for_each (put_subprogram io pr m tu) sps st = Inr st'"
  shows "P (fst st')"
  by (rule for_each_kept [OF put_subprogram_kept [OF assms(1)] assms(2,3)])

end

text \<open>The stages of one object.\<close>

lemma put_info_stages:
  assumes "put_info io root pr m obj info st = Inr st'"
  obtains st1 st2 st3 st4 st5 tu o' where "tu = rp_Rel (ToProjectRelative pr (cuFilePath info))"
    "for_each (put_subprogram io pr m tu) (in_Subprograms info) st = Inr st1"
    "for_each (put_site io pr m tu) (in_CallSites info) st1 = Inr st2"
    "for_each (put_instance io pr m tu o') (in_InlineInstances info) st2 = Inr st3"
    "for_each (put_struct io pr) (in_Structs info) st3 = Inr st4"
    "for_each (put_typedef io pr) (in_Typedefs info) st4 = Inr st5"
    "for_each (put_enum io pr) (in_Enums info) st5 = Inr st'"
  using assms by (auto simp: put_info_def Let_def bind_result_Inr_iff)

text \<open>The objects that were read, in the order of their paths.\<close>

definition read_infos :: "(string \<Rightarrow> object_file) \<Rightarrow> BuildDir \<Rightarrow> Info list" where
  "read_infos files bd =
     List.map_filter (\<lambda>art. case Read (oa_Object art) (files (oa_Object art)) of Inr i \<Rightarrow> Some i | Inl _ \<Rightarrow> None)
       (sort_key oa_Object (bd_Objects bd))"

lemma objects_collect:
  assumes step: "\<And>info obj s s' seen. P seen s \<Longrightarrow> put_info io root pr m obj info s = Inr s' \<Longrightarrow> P (seen @ contrib info) s'"
    and start: "P [] s" and run: "for_each (put_object io files root pr m) arts s = Inr s'"
  shows "P (concat (map contrib (List.map_filter
    (\<lambda>art. case Read (oa_Object art) (files (oa_Object art)) of Inr i \<Rightarrow> Some i | Inl _ \<Rightarrow> None) arts))) s'"
proof -
  let ?c = "\<lambda>art. case Read (oa_Object art) (files (oa_Object art)) of Inr i \<Rightarrow> contrib i | Inl _ \<Rightarrow> []"
  have "P ([] @ concat (map ?c arts)) s'"
  proof (rule for_each_collect [where P = P, OF _ start run])
    show "P (seen @ ?c x) s'" if "P seen s" "put_object io files root pr m x s = Inr s'" for x s s' seen
      using that step by (auto simp: put_object_def split: sum.splits)
  qed
  moreover have "concat (map ?c arts) = concat (map contrib (List.map_filter
    (\<lambda>art. case Read (oa_Object art) (files (oa_Object art)) of Inr i \<Rightarrow> Some i | Inl _ \<Rightarrow> None) arts))"
    by (induction arts) (auto simp: List.map_filter_simps split: sum.splits)
  ultimately show ?thesis by simp
qed

section \<open>Integrity\<close>

definition dwarf_ok :: "dwarf_db \<Rightarrow> bool" where
  "dwarf_ok db \<longleftrightarrow>
     hbr_ok (dd_hbr db) \<and>
     distinct (ids (dd_types db)) \<and> distinct (map (ty_usr \<circ> snd) (dd_types db)) \<and>
     distinct (ids (dd_sites db)) \<and> distinct (map ek_usr (dd_constants db)) \<and>
     tf_type_id ` set (dd_fields db) \<subseteq> set (ids (dd_types db)) \<and>
     ek_type_id ` set (dd_constants db) \<subseteq> set (ids (dd_types db)) \<and>
     (\<lambda>r. ics_caller_id (snd r)) ` set (dd_sites db) \<subseteq> set (ids (symbols (dd_hbr db))) \<and>
     (\<Union>r \<in> set (dd_instances db). {iin_callee_id r, iin_caller_id r} \<union> set_option (iin_parent_callee_id r))
       \<subseteq> set (ids (symbols (dd_hbr db)))"

lemma ids_update [simp]:
  "(\<And>r. fst (f r) = fst r) \<Longrightarrow> ids (fst (update_rows P f rows)) = ids rows"
  by (auto simp: ids_def update_rows_def)

lemma map_update [simp]:
  "(\<And>r. g (f r) = g r) \<Longrightarrow> map g (fst (update_rows P f rows)) = map g rows"
  by (auto simp: update_rows_def)

lemma image_update: "(\<And>r. g (f r) = g r) \<Longrightarrow> g ` set (fst (update_rows P f rows)) = g ` set rows"
proof -
  assume g: "\<And>r. g (f r) = g r"
  from map_update [of g f P rows, OF g] have "set (map g (fst (update_rows P f rows))) = set (map g rows)" by (rule arg_cong)
  then show ?thesis unfolding set_map .
qed

lemma update_symbols_ok:
  "hbr_ok h \<Longrightarrow> hbr_ok (h\<lparr>symbols := fst (update_rows P (\<lambda>(j, r). (j, r\<lparr>sy_signature := sig\<rparr>)) (symbols h))\<rparr>)"
  by (auto simp: hbr_ok_def case_prod_beta)

lemma update_definitions_ok:
  assumes "hbr_ok h" "\<And>r. fst (f r) = fst r" "\<And>r. sd_symbol_id (snd (f r)) = sd_symbol_id (snd r)"
  shows "hbr_ok (h\<lparr>symbol_definitions := fst (update_rows P f (symbol_definitions h))\<rparr>)"
  using assms image_update [of "\<lambda>r. sd_symbol_id (snd r)" f P "symbol_definitions h"] by (simp add: hbr_ok_def)

lemma dwarf_ok_hbr:
  "dwarf_ok db \<Longrightarrow> hbr_ok h \<Longrightarrow> ids (symbols h) = ids (symbols (dd_hbr db)) \<Longrightarrow> dwarf_ok (db\<lparr>dd_hbr := h\<rparr>)"
  by (simp add: dwarf_ok_def)

lemma apply_stmt_ok:
  assumes ok: "dwarf_ok db" and s: "apply_stmt s db = Some (db', r)"
  shows "dwarf_ok db'"
proof (cases s)
  case (St_signature sig i)
  let ?h = "(dd_hbr db)\<lparr>symbols := fst (update_rows (\<lambda>r. fst r = i) (\<lambda>(j, r). (j, r\<lparr>sy_signature := sig\<rparr>)) (symbols (dd_hbr db)))\<rparr>"
  have "db' = db\<lparr>dd_hbr := ?h\<rparr>" using s St_signature by (auto simp: case_prod_beta Let_def)
  moreover have "hbr_ok ?h" using update_symbols_ok ok by (simp add: dwarf_ok_def)
  ultimately show ?thesis using dwarf_ok_hbr [OF ok, of ?h] by (simp add: case_prod_beta)
next
  case (St_decl_location f l i)
  let ?f = "\<lambda>(j, r). (j, r\<lparr>sd_decl_file := f, sd_decl_line := l\<rparr>)"
  let ?h = "(dd_hbr db)\<lparr>symbol_definitions := fst (update_rows (\<lambda>r. sd_symbol_id (snd r) = i \<and> sd_decl_file (snd r) = []) ?f
    (symbol_definitions (dd_hbr db)))\<rparr>"
  have "db' = db\<lparr>dd_hbr := ?h\<rparr>" using s St_decl_location by (auto simp: case_prod_beta Let_def)
  moreover have "hbr_ok ?h" using ok by (intro update_definitions_ok) (auto simp: dwarf_ok_def case_prod_beta)
  ultimately show ?thesis using dwarf_ok_hbr [OF ok, of ?h] by simp
next
  case (St_def_location f l i)
  let ?f = "\<lambda>(j, r). (j, r\<lparr>sd_file := f, sd_line := l\<rparr>)"
  let ?h = "(dd_hbr db)\<lparr>symbol_definitions := fst (update_rows (\<lambda>r. sd_symbol_id (snd r) = i \<and> sd_line (snd r) = 0) ?f
    (symbol_definitions (dd_hbr db)))\<rparr>"
  have "db' = db\<lparr>dd_hbr := ?h\<rparr>" using s St_def_location by (auto simp: case_prod_beta Let_def)
  moreover have "hbr_ok ?h" using ok by (intro update_definitions_ok) (auto simp: dwarf_ok_def case_prod_beta)
  ultimately show ?thesis using dwarf_ok_hbr [OF ok, of ?h] by simp
next
  case (St_site r)
  then show ?thesis using ok s by (clarsimp simp: dwarf_ok_def Let_def split: if_splits)
next
  case (St_type r)
  show ?thesis
  proof (cases "ty_usr r \<in> set (map (ty_usr \<circ> snd) (dd_types db))")
    case True
    then have "db' = db" using s St_type by (simp only: apply_stmt.simps if_True) simp
    with ok show ?thesis by simp
  next
    case False
    then have "db' = db\<lparr>dd_types := dd_types db @ [(next_id (dd_types db), r)]\<rparr>"
      using s St_type by (simp only: apply_stmt.simps if_False Let_def) simp
    with ok False show ?thesis by (simp add: dwarf_ok_def) (simp add: subset_insertI2)
  qed
next
  case (St_field r)
  then show ?thesis using ok s by (clarsimp simp: dwarf_ok_def split: if_splits)
next
  case (St_constant r)
  then show ?thesis using ok s by (clarsimp simp: dwarf_ok_def split: if_splits)
next
  case (St_instance r)
  then show ?thesis using ok s by (clarsimp simp: dwarf_ok_def split: if_splits)
next
  case St_symbols_fts
  then show ?thesis using ok s by (clarsimp simp: dwarf_ok_def)
next
  case St_types_fts
  then show ?thesis using ok s by (clarsimp simp: dwarf_ok_def)
qed

interpretation all_ok: kept_by UNIV dwarf_ok
  by unfold_locales (rule apply_stmt_ok)

lemma put_info_ok: "dwarf_ok (fst st) \<Longrightarrow> put_info io root pr m obj info st = Inr st' \<Longrightarrow> dwarf_ok (fst st')"
  by (erule put_info_stages)
    (meson all_ok.put_types_kept all_ok.put_calls_kept all_ok.put_subprograms_kept subset_UNIV)

lemma write_dwarf_ok:
  assumes "dwarf_ok db" "write_dwarf io files db bd pr m = Inr (view, sm)"
  shows "dwarf_ok view"
proof -
  obtain db1 db2 n1 n2 where run: "for_each (put_object io files (bd_Root bd) pr m) (sort_key oa_Object (bd_Objects bd))
        (db, zero_dwarf_summary) = Inr (db1, sm)"
    and f: "do_stmt io P_symbols_fts St_symbols_fts db1 = Inr (db2, n1)"
      "do_stmt io P_types_fts St_types_fts db2 = Inr (view, n2)"
    using assms(2) by (auto simp: write_dwarf_def bind_result_Inr_iff)
  have "dwarf_ok (fst (db1, sm))"
  proof (rule for_each_inv [where P = "\<lambda>s. dwarf_ok (fst s)", OF _ _ run])
    show "dwarf_ok (fst s')" if "dwarf_ok (fst s)" "put_object io files (bd_Root bd) pr m x s = Inr s'" for x s s'
      using that put_info_ok by (auto simp: put_object_def split: sum.splits)
  qed (use assms(1) in simp)
  then show ?thesis using all_ok.do_stmt_kept [OF _ _ f(1)] all_ok.do_stmt_kept [OF _ _ f(2)] by simp
qed

section \<open>Signatures\<close>

text \<open>The signatures an object gives to symbols, in the order of its entries.\<close>

definition sig_updates :: "PathResolver \<Rightarrow> id_map \<Rightarrow> Info \<Rightarrow> (int \<times> string) list" where
  "sig_updates pr m info =
     (let tu = rp_Rel (ToProjectRelative pr (cuFilePath info)) in
      map (\<lambda>sp. (resolveSymbolID (sp_Name sp) tu m, sp_Signature sp))
        (filter (\<lambda>sp. sp_Name sp \<noteq> [] \<and> resolveSymbolID (sp_Name sp) tu m \<noteq> 0 \<and> sp_Definition sp \<and> sp_Signature sp \<noteq> [])
          (in_Subprograms info)))"

text \<open>The last signature given to an id wins; the others keep theirs.\<close>

definition set_sigs :: "(int \<times> string) list \<Rightarrow> (int \<times> symbol_row) list \<Rightarrow> (int \<times> symbol_row) list" where
  "set_sigs us rows =
     map (\<lambda>(i, r). (i, case map_of (rev us) i of None \<Rightarrow> r | Some s \<Rightarrow> r\<lparr>sy_signature := s\<rparr>)) rows"

lemma set_sigs_Nil [simp]: "set_sigs [] rows = rows"
  by (simp add: set_sigs_def case_prod_beta)

lemma set_sigs_snoc:
  "fst (update_rows (\<lambda>r. fst r = i) (\<lambda>(j, r). (j, r\<lparr>sy_signature := s\<rparr>)) (set_sigs us rows)) = set_sigs (us @ [(i, s)]) rows"
  by (auto simp: update_rows_def set_sigs_def split: option.split)

interpretation symbols_frame: kept_by "UNIV - {''symbols''}" "\<lambda>db. symbols (dd_hbr db) = X" for X
proof
  show "symbols (dd_hbr db') = X"
    if "stmt_table s \<in> UNIV - {''symbols''}" "symbols (dd_hbr db) = X" "apply_stmt s db = Some (db', r)" for s db db' r
    using that by (cases s) (auto simp: Let_def case_prod_beta split: if_splits)
qed

lemma put_signature_rows:
  assumes "put_signature io sp i st = Inr st'"
  shows "symbols (dd_hbr (fst st')) =
    (if sp_Definition sp \<and> sp_Signature sp \<noteq> []
     then fst (update_rows (\<lambda>r. fst r = i) (\<lambda>(j, r). (j, r\<lparr>sy_signature := sp_Signature sp\<rparr>)) (symbols (dd_hbr (fst st))))
     else symbols (dd_hbr (fst st)))"
  using assms
  by (auto simp: put_signature_def do_stmt_def bind_result_Inr_iff Let_def case_prod_beta split: if_splits)

lemma put_locations_rows:
  assumes "put_def_location io pr sp i st = Inr st1" "put_decl_location io pr sp i st1 = Inr st2"
  shows "symbols (dd_hbr (fst st2)) = symbols (dd_hbr (fst st))"
proof -
  have "symbols (dd_hbr (fst st1)) = symbols (dd_hbr (fst st))" using assms(1)
    by (auto simp: put_def_location_def bind_result_Inr_iff split: if_splits elim!: symbols_frame.do_stmt_kept [rotated 2])
  then show ?thesis using assms(2)
    by (auto simp: put_decl_location_def bind_result_Inr_iff split: if_splits elim!: symbols_frame.do_stmt_kept [rotated 2])
qed

lemma put_subprogram_rows:
  assumes "symbols (dd_hbr (fst st)) = set_sigs us rows" "put_subprogram io pr m tu sp st = Inr st'"
  shows "symbols (dd_hbr (fst st')) = set_sigs (us @
    (if sp_Name sp \<noteq> [] \<and> resolveSymbolID (sp_Name sp) tu m \<noteq> 0 \<and> sp_Definition sp \<and> sp_Signature sp \<noteq> []
     then [(resolveSymbolID (sp_Name sp) tu m, sp_Signature sp)] else [])) rows"
proof (cases "sp_Name sp = [] \<or> resolveSymbolID (sp_Name sp) tu m = 0")
  case True then show ?thesis using assms by (auto simp: put_subprogram_def Let_def)
next
  case False
  then obtain st1 st2 where "put_signature io sp (resolveSymbolID (sp_Name sp) tu m) st = Inr st1"
    "put_def_location io pr sp (resolveSymbolID (sp_Name sp) tu m) st1 = Inr st2"
    "put_decl_location io pr sp (resolveSymbolID (sp_Name sp) tu m) st2 = Inr st'"
    using assms(2) by (auto simp: put_subprogram_def Let_def bind_result_Inr_iff)
  from put_locations_rows [OF this(2,3)] put_signature_rows [OF this(1)] assms(1) False set_sigs_snoc
  show ?thesis by auto
qed

lemma concat_map_if: "concat (map (\<lambda>x. if P x then [f x] else []) xs) = map f (filter P xs)"
  by (induction xs) auto

lemma put_info_rows:
  assumes "symbols (dd_hbr (fst st)) = set_sigs us rows" "put_info io root pr m obj info st = Inr st'"
  shows "symbols (dd_hbr (fst st')) = set_sigs (us @ sig_updates pr m info) rows"
proof -
  obtain st1 st2 st3 st4 st5 tu o' where tu: "tu = rp_Rel (ToProjectRelative pr (cuFilePath info))"
    and s: "for_each (put_subprogram io pr m tu) (in_Subprograms info) st = Inr st1"
    "for_each (put_site io pr m tu) (in_CallSites info) st1 = Inr st2"
    "for_each (put_instance io pr m tu o') (in_InlineInstances info) st2 = Inr st3"
    "for_each (put_struct io pr) (in_Structs info) st3 = Inr st4"
    "for_each (put_typedef io pr) (in_Typedefs info) st4 = Inr st5"
    "for_each (put_enum io pr) (in_Enums info) st5 = Inr st'"
    by (rule put_info_stages [OF assms(2)])
  let ?c = "\<lambda>sp. if sp_Name sp \<noteq> [] \<and> resolveSymbolID (sp_Name sp) tu m \<noteq> 0 \<and> sp_Definition sp \<and> sp_Signature sp \<noteq> []
     then [(resolveSymbolID (sp_Name sp) tu m, sp_Signature sp)] else []"
  have "symbols (dd_hbr (fst st1)) = set_sigs (us @ concat (map ?c (in_Subprograms info))) rows"
    by (rule for_each_collect [where P = "\<lambda>us s. symbols (dd_hbr (fst s)) = set_sigs us rows", OF _ assms(1) s(1)])
      (rule put_subprogram_rows)
  moreover have "concat (map ?c (in_Subprograms info)) = sig_updates pr m info"
    unfolding sig_updates_def Let_def tu [symmetric] by (rule concat_map_if)
  ultimately have "symbols (dd_hbr (fst st1)) = set_sigs (us @ sig_updates pr m info) rows" by simp
  from symbols_frame.put_calls_kept [OF _ this s(2,3)] have "symbols (dd_hbr (fst st3)) = set_sigs (us @ sig_updates pr m info) rows"
    by auto
  from symbols_frame.put_types_kept [OF _ this s(4-6)] show ?thesis by auto
qed

text \<open>The two full-text indexes at the end of the pass.\<close>

lemma write_dwarf_objects:
  assumes "write_dwarf io files db bd pr m = Inr (view, sm)"
  obtains db1 where "for_each (put_object io files (bd_Root bd) pr m) (sort_key oa_Object (bd_Objects bd))
      (db, zero_dwarf_summary) = Inr (db1, sm)"
    "view = db1\<lparr>dd_symbols_fts := map (\<lambda>(i, r). (i, sy_name r, sy_signature r)) (symbols (dd_hbr db1)),
       dd_types_fts := map (\<lambda>(i, r). (i, ty_name r, ty_underlying r)) (dd_types db1)\<rparr>"
  using assms by (auto simp: write_dwarf_def do_stmt_def bind_result_Inr_iff split: if_splits)

text \<open>
  C15 Signatures. After a successful pass every symbol carries the signature of the last defining entry, in the
  order of the objects' paths and of the entries within an object, that resolves to it, and keeps its own where
  there is none; nothing else of the rows changes. The full-text index holds the names and signatures of these
  rows.
\<close>

theorem DWARF_signatures:
  assumes "DWARF io files db bd pr idByUSR = (db', Inr sm)"
  shows "symbols (dd_hbr db') =
      set_sigs (concat (map (sig_updates pr idByUSR) (read_infos files bd))) (symbols (dd_hbr db)) \<and>
    dd_symbols_fts db' = map (\<lambda>(i, r). (i, sy_name r, sy_signature r)) (symbols (dd_hbr db'))"
proof -
  have w: "write_dwarf io files db bd pr idByUSR = Inr (db', sm)"
    using assms by (auto simp: DWARF_def split: if_splits option.splits sum.splits)
  obtain db1 where
    run: "for_each (put_object io files (bd_Root bd) pr idByUSR) (sort_key oa_Object (bd_Objects bd))
      (db, zero_dwarf_summary) = Inr (db1, sm)"
    and view: "db' = db1\<lparr>dd_symbols_fts := map (\<lambda>(i, r). (i, sy_name r, sy_signature r)) (symbols (dd_hbr db1)),
       dd_types_fts := map (\<lambda>(i, r). (i, ty_name r, ty_underlying r)) (dd_types db1)\<rparr>"
    by (rule write_dwarf_objects [OF w])
  have "symbols (dd_hbr (fst (db1, sm))) =
      set_sigs (concat (map (sig_updates pr idByUSR) (read_infos files bd))) (symbols (dd_hbr db))"
    unfolding read_infos_def
  proof (rule objects_collect [where P = "\<lambda>us s. symbols (dd_hbr (fst s)) = set_sigs us (symbols (dd_hbr db))", OF _ _ run])
  qed (erule (1) put_info_rows, simp)
  then show ?thesis by (simp add: view)
qed

section \<open>Types\<close>

text \<open>A declaration of a type of the project: its row and its fields.\<close>

record type_decl =
  dc_row :: type_row
  dc_fields :: "FieldInfo list"

definition decl_of :: "PathResolver \<Rightarrow> string \<Rightarrow> string \<Rightarrow> string \<Rightarrow> int \<Rightarrow> int \<Rightarrow> int \<Rightarrow> string \<Rightarrow> FieldInfo list
    \<Rightarrow> type_decl list" where
  "decl_of pr name kind declFile line col byteSize underlying fs =
     (let rp = ToProjectRelative pr declFile in
      if declFile = [] \<or> \<not> rp_InProject rp then []
      else (case type_usr kind (rp_Rel rp) name line col of
              Some (Some u) \<Rightarrow>
                [\<lparr>dc_row = \<lparr>ty_usr = u, ty_name = name, ty_kind = kind, ty_decl_file = rp_Rel rp, ty_decl_line = line,
                    ty_byte_size = (if 0 < byteSize then Some byteSize else None), ty_underlying = underlying\<rparr>,
                  dc_fields = fs\<rparr>]
            | _ \<Rightarrow> []))"

definition decls_of_info :: "PathResolver \<Rightarrow> Info \<Rightarrow> type_decl list" where
  "decls_of_info pr info =
     concat (map (\<lambda>s. decl_of pr (si_Name s) (si_Kind s) (si_DeclFile s) (si_DeclLine s) (si_DeclColumn s)
       (si_ByteSize s) [] (si_Fields s)) (in_Structs info)) @
     concat (map (\<lambda>t. decl_of pr (td_Name t) ''typedef'' (td_DeclFile t) (td_DeclLine t) 0 0 (td_Target t) []) (in_Typedefs info)) @
     concat (map (\<lambda>e. decl_of pr (en_Name e) ''enum'' (en_DeclFile e) (en_DeclLine e) (en_DeclColumn e) (en_ByteSize e) [] [])
       (in_Enums info))"

text \<open>The first declaration of every USR.\<close>

definition add_first :: "type_decl list \<Rightarrow> type_decl \<Rightarrow> type_decl list" where
  "add_first ds d = (if ty_usr (dc_row d) \<in> set (map (ty_usr \<circ> dc_row) ds) then ds else ds @ [d])"

definition first_decls :: "type_decl list \<Rightarrow> type_decl list" where
  "first_decls ds = foldl add_first [] ds"

definition decl_fields :: "int \<times> type_decl \<Rightarrow> field_row list" where
  "decl_fields x = map (\<lambda>(n, f). \<lparr>tf_type_id = fst x, tf_name = fi_Name f, tf_type = fi_Type f, tf_ordinal = n,
     tf_byte_offset = fi_ByteOffset f\<rparr>) (List.enumerate 0 (dc_fields (snd x)))"

text \<open>The tables of types and fields hold exactly the first declarations seen.\<close>

definition types_are :: "type_decl list \<Rightarrow> dwarf_db \<Rightarrow> bool" where
  "types_are seen db \<longleftrightarrow>
     dd_types db = enum_from 1 (map dc_row (first_decls seen)) \<and>
     dd_fields db = concat (map decl_fields (enum_from 1 (first_decls seen)))"

interpretation types_frame: kept_by "UNIV - {''types'', ''type_fields''}" "types_are seen" for seen
proof
  show "types_are seen db'"
    if "stmt_table s \<in> UNIV - {''types'', ''type_fields''}" "types_are seen db" "apply_stmt s db = Some (db', r)" for s db db' r
    using that by (cases s) (auto simp: types_are_def Let_def case_prod_beta split: if_splits)
qed

lemma next_id_enum_from: "next_id (enum_from 1 xs) = int (length xs) + 1"
proof (induction xs rule: rev_induct)
  case (snoc x xs)
  have "enum_from 1 (xs @ [x]) = enum_from 1 xs @ [(next_id (enum_from 1 xs), x)]"
    using snoc by (simp add: enum_from_append algebra_simps)
  then show ?case using next_id_snoc [of "enum_from 1 xs" x] snoc by simp
qed simp

text \<open>Inserting one declaration: nothing when its USR is there, else a new row whose fields are still to come.\<close>

lemma insertType_decl:
  assumes "decl_of pr name kind file line col bs und fs = d # ds"
    "insertType io pr name kind file line col bs und st = Inr (fresh, st')"
  shows "\<exists>n i. do_stmt io (P_type (ty_usr (dc_row d))) (St_type (dc_row d)) (fst st) = Inr (fst st', n, i) \<and>
     fresh = (if n = 0 then None else Some i)"
proof -
  let ?rp = "ToProjectRelative pr file"
  obtain u where u: "type_usr kind (rp_Rel ?rp) name line col = Some (Some u)"
    and c: "\<not> (file = [] \<or> \<not> rp_InProject ?rp)"
    using assms(1) by (auto simp: decl_of_def Let_def split: if_splits option.splits)
  have d: "d = \<lparr>dc_row = \<lparr>ty_usr = u, ty_name = name, ty_kind = kind, ty_decl_file = rp_Rel ?rp, ty_decl_line = line,
      ty_byte_size = (if 0 < bs then Some bs else None), ty_underlying = und\<rparr>, dc_fields = fs\<rparr>"
    using assms(1) u c by (simp add: decl_of_def Let_def)
  obtain db n i where r: "do_stmt io (P_type u) (St_type (dc_row d)) (fst st) = Inr (db, n, i)"
    and rest: "(if n = 0 then Inr (None, (db, snd st)) else if \<not> dx_last_id io db then Inl (P_type_id u)
      else Inr (Some i, (db, (snd st)\<lparr>ds_Types := ds_Types (snd st) + 1\<rparr>))) = Inr (fresh, st')"
    using assms(2) u c unfolding insertType_def Let_def d by (auto simp: bind_result_Inr_iff)
  have "fst st' = db \<and> fresh = (if n = 0 then None else Some i)" using rest by (auto split: if_splits)
  then show ?thesis using r d by auto
qed

lemma insertType_types:
  assumes "types_are seen (fst st)"
    and "insertType io pr name kind file line col bs und st = Inr (fresh, st')"
  shows "case fresh of
      None \<Rightarrow> types_are (seen @ decl_of pr name kind file line col bs und fs) (fst st')
    | Some i \<Rightarrow> \<exists>d. decl_of pr name kind file line col bs und fs = [d] \<and> i = int (length (first_decls seen)) + 1 \<and>
        first_decls (seen @ [d]) = first_decls seen @ [d] \<and> dc_fields d = fs \<and>
        dd_types (fst st') = enum_from 1 (map dc_row (first_decls (seen @ [d]))) \<and>
        dd_fields (fst st') = concat (map decl_fields (enum_from 1 (first_decls seen)))"
proof (cases "decl_of pr name kind file line col bs und fs")
  case Nil
  then have "fresh = None" "st' = st" using assms(2)
    by (auto simp: insertType_def decl_of_def Let_def split: if_splits option.splits)
  then show ?thesis using assms(1) Nil by simp
next
  case (Cons d ds)
  then have ds: "ds = []" "dc_fields d = fs" by (auto simp: decl_of_def Let_def split: if_splits option.splits)
  obtain n i where run: "do_stmt io (P_type (ty_usr (dc_row d))) (St_type (dc_row d)) (fst st) = Inr (fst st', n, i)"
    and fresh: "fresh = (if n = 0 then None else Some i)"
    using insertType_decl [OF Cons assms(2)] by blast
  have eq: "map (ty_usr \<circ> snd) (dd_types (fst st)) = map (ty_usr \<circ> dc_row) (first_decls seen)"
    using assms(1) map_snd_enum_from [of 1 "map dc_row (first_decls seen)"]
    by (simp add: types_are_def flip: map_map)
  show ?thesis
  proof (cases "ty_usr (dc_row d) \<in> set (map (ty_usr \<circ> dc_row) (first_decls seen))")
    case True
    then have "fst st' = fst st \<and> fresh = None"
      using run fresh unfolding do_stmt_def by (simp only: apply_stmt.simps eq if_True) (auto split: if_splits)
    moreover have "first_decls (seen @ [d]) = first_decls seen" using True by (simp add: first_decls_def add_first_def)
    ultimately show ?thesis using assms(1) Cons ds by (simp add: types_are_def)
  next
    case False
    let ?i = "next_id (dd_types (fst st))"
    have "fst st' = (fst st)\<lparr>dd_types := dd_types (fst st) @ [(?i, dc_row d)]\<rparr> \<and> fresh = Some ?i"
      using run False fresh unfolding do_stmt_def
      by (simp only: apply_stmt.simps eq if_False Let_def) (auto split: if_splits option.splits)
    moreover have "?i = int (length (first_decls seen)) + 1"
      using assms(1) next_id_enum_from [of "map dc_row (first_decls seen)"] by (simp add: types_are_def)
    moreover have "first_decls (seen @ [d]) = first_decls seen @ [d]" using False by (simp add: first_decls_def add_first_def)
    ultimately show ?thesis using assms(1) Cons ds
      by (simp add: types_are_def enum_from_append algebra_simps)
  qed
qed

text \<open>The loop over the fields of a fresh type.\<close>

lemma put_fields_rows:
  "for_each (put_field io i) nfs st = Inr st' \<Longrightarrow>
     dd_types (fst st') = dd_types (fst st) \<and>
     dd_fields (fst st') = dd_fields (fst st) @ map (\<lambda>(n, f). \<lparr>tf_type_id = i, tf_name = fi_Name f, tf_type = fi_Type f,
       tf_ordinal = n, tf_byte_offset = fi_ByteOffset f\<rparr>) nfs"
proof (induction nfs arbitrary: st)
  case (Cons nf nfs)
  obtain st1 where st1: "put_field io i nf st = Inr st1" "for_each (put_field io i) nfs st1 = Inr st'"
    using Cons.prems by (auto simp: bind_result_Inr_iff)
  have "dd_types (fst st1) = dd_types (fst st) \<and> dd_fields (fst st1) = dd_fields (fst st) @
      [\<lparr>tf_type_id = i, tf_name = fi_Name (snd nf), tf_type = fi_Type (snd nf), tf_ordinal = fst nf,
        tf_byte_offset = fi_ByteOffset (snd nf)\<rparr>]"
    using st1(1) by (auto simp: put_field_def do_stmt_def bind_result_Inr_iff split: if_splits)
  with Cons.IH [OF st1(2)] show ?case by (simp add: case_prod_beta)
qed simp

lemma put_struct_types:
  assumes "types_are seen (fst st)" "put_struct io pr s st = Inr st'"
  shows "types_are (seen @ decl_of pr (si_Name s) (si_Kind s) (si_DeclFile s) (si_DeclLine s) (si_DeclColumn s)
    (si_ByteSize s) [] (si_Fields s)) (fst st')"
proof -
  obtain fresh st1 where i: "insertType io pr (si_Name s) (si_Kind s) (si_DeclFile s) (si_DeclLine s)
      (si_DeclColumn s) (si_ByteSize s) [] st = Inr (fresh, st1)"
    and rest: "(case fresh of None \<Rightarrow> Inr st1 | Some i \<Rightarrow> for_each (put_field io i) (List.enumerate 0 (si_Fields s)) st1) = Inr st'"
    using assms(2) by (auto simp: put_struct_def bind_result_Inr_iff)
  note t = insertType_types [OF assms(1) i, of "si_Fields s"]
  show ?thesis
  proof (cases fresh)
    case None then show ?thesis using t rest by simp
  next
    case (Some j)
    then obtain d where d: "decl_of pr (si_Name s) (si_Kind s) (si_DeclFile s) (si_DeclLine s) (si_DeclColumn s)
        (si_ByteSize s) [] (si_Fields s) = [d]" "j = int (length (first_decls seen)) + 1"
      "first_decls (seen @ [d]) = first_decls seen @ [d]" "dc_fields d = si_Fields s"
      "dd_types (fst st1) = enum_from 1 (map dc_row (first_decls (seen @ [d])))"
      "dd_fields (fst st1) = concat (map decl_fields (enum_from 1 (first_decls seen)))"
      using t by auto
    have "for_each (put_field io j) (List.enumerate 0 (si_Fields s)) st1 = Inr st'" using rest Some by simp
    from put_fields_rows [OF this] d show ?thesis
      by (simp add: types_are_def decl_fields_def enum_from_append add.commute)
  qed
qed

text \<open>A typedef or an enum adds no fields.\<close>

lemma insertType_no_fields:
  assumes "types_are seen (fst st)" "insertType io pr name kind file line col bs und st = Inr (fresh, st')"
  shows "types_are (seen @ decl_of pr name kind file line col bs und []) (fst st')"
proof (cases fresh)
  case None then show ?thesis using insertType_types [OF assms, of "[]"] by simp
next
  case (Some j)
  then obtain d where d: "decl_of pr name kind file line col bs und [] = [d]"
      "first_decls (seen @ [d]) = first_decls seen @ [d]" "dc_fields d = []"
      "dd_types (fst st') = enum_from 1 (map dc_row (first_decls (seen @ [d])))"
      "dd_fields (fst st') = concat (map decl_fields (enum_from 1 (first_decls seen)))"
    using insertType_types [OF assms, of "[]"] by auto
  then show ?thesis by (simp add: types_are_def decl_fields_def enum_from_append)
qed

lemma put_typedef_types:
  assumes "types_are seen (fst st)" "put_typedef io pr t st = Inr st'"
  shows "types_are (seen @ decl_of pr (td_Name t) ''typedef'' (td_DeclFile t) (td_DeclLine t) 0 0 (td_Target t) []) (fst st')"
proof -
  obtain fresh where "insertType io pr (td_Name t) ''typedef'' (td_DeclFile t) (td_DeclLine t) 0 0 (td_Target t) st = Inr (fresh, st')"
    using assms(2) by (auto simp: put_typedef_def bind_result_Inr_iff)
  from insertType_no_fields [OF assms(1) this] show ?thesis .
qed

lemma put_enum_types:
  assumes "types_are seen (fst st)" "put_enum io pr e st = Inr st'"
  shows "types_are (seen @ decl_of pr (en_Name e) ''enum'' (en_DeclFile e) (en_DeclLine e) (en_DeclColumn e) (en_ByteSize e) [] []) (fst st')"
proof -
  obtain fresh st1 where i: "insertType io pr (en_Name e) ''enum'' (en_DeclFile e) (en_DeclLine e)
      (en_DeclColumn e) (en_ByteSize e) [] st = Inr (fresh, st1)"
    and rest: "(case fresh of None \<Rightarrow> Inr st1 | Some i \<Rightarrow> for_each (put_constant io pr e i) (en_Constants e) st1) = Inr st'"
    using assms(2) by (auto simp: put_enum_def bind_result_Inr_iff)
  note t = insertType_no_fields [OF assms(1) i]
  show ?thesis
  proof (cases fresh)
    case None then show ?thesis using t rest by simp
  next
    case (Some j)
    then have run: "for_each (put_constant io pr e j) (en_Constants e) st1 = Inr st'" using rest by simp
    show ?thesis by (rule types_frame.for_each_kept [OF types_frame.put_constant_kept t run]) simp
  qed
qed

lemma put_info_types:
  assumes "types_are seen (fst st)" "put_info io root pr m obj info st = Inr st'"
  shows "types_are (seen @ decls_of_info pr info) (fst st')"
proof -
  obtain st1 st2 st3 st4 st5 tu o' where tu: "tu = rp_Rel (ToProjectRelative pr (cuFilePath info))"
    and s: "for_each (put_subprogram io pr m tu) (in_Subprograms info) st = Inr st1"
    "for_each (put_site io pr m tu) (in_CallSites info) st1 = Inr st2"
    "for_each (put_instance io pr m tu o') (in_InlineInstances info) st2 = Inr st3"
    "for_each (put_struct io pr) (in_Structs info) st3 = Inr st4"
    "for_each (put_typedef io pr) (in_Typedefs info) st4 = Inr st5"
    "for_each (put_enum io pr) (in_Enums info) st5 = Inr st'"
    by (rule put_info_stages [OF assms(2)])
  have "types_are seen (fst st1)" by (rule types_frame.put_subprograms_kept [OF _ assms(1) s(1)]) auto
  then have t3: "types_are seen (fst st3)" using types_frame.put_calls_kept [OF _ _ s(2,3)] by auto
  note t4 = for_each_collect [where P = "\<lambda>seen s. types_are seen (fst s)", OF put_struct_types t3 s(4)]
  note t5 = for_each_collect [where P = "\<lambda>seen s. types_are seen (fst s)", OF put_typedef_types t4 s(5)]
  note t6 = for_each_collect [where P = "\<lambda>seen s. types_are seen (fst s)", OF put_enum_types t5 s(6)]
  from t6 show ?thesis by (simp add: decls_of_info_def)
qed

text \<open>
  C14 Types. From an index without types, a successful pass leaves one row per USR of the project's structs,
  unions, typedefs and enums: that of the first declaration in the order of the objects' paths, numbered from 1,
  with exactly the fields of that declaration in their order. What later objects declare under the same USR adds
  neither a row nor a field. The full-text index holds the names and the underlying types of the rows.
\<close>

theorem DWARF_types:
  assumes "DWARF io files db bd pr idByUSR = (db', Inr sm)" "dd_types db = []" "dd_fields db = []"
  shows "let ds = first_decls (concat (map (decls_of_info pr) (read_infos files bd))) in
    dd_types db' = enum_from 1 (map dc_row ds) \<and>
    dd_fields db' = concat (map decl_fields (enum_from 1 ds)) \<and>
    dd_types_fts db' = map (\<lambda>(i, r). (i, ty_name r, ty_underlying r)) (dd_types db')"
proof -
  have w: "write_dwarf io files db bd pr idByUSR = Inr (db', sm)"
    using assms(1) by (auto simp: DWARF_def split: if_splits option.splits sum.splits)
  obtain db1 where
    run: "for_each (put_object io files (bd_Root bd) pr idByUSR) (sort_key oa_Object (bd_Objects bd))
      (db, zero_dwarf_summary) = Inr (db1, sm)"
    and view: "db' = db1\<lparr>dd_symbols_fts := map (\<lambda>(i, r). (i, sy_name r, sy_signature r)) (symbols (dd_hbr db1)),
       dd_types_fts := map (\<lambda>(i, r). (i, ty_name r, ty_underlying r)) (dd_types db1)\<rparr>"
    by (rule write_dwarf_objects [OF w])
  have "types_are (concat (map (decls_of_info pr) (read_infos files bd))) (fst (db1, sm))"
    unfolding read_infos_def
  proof (rule objects_collect [where P = "\<lambda>seen s. types_are seen (fst s)", OF _ _ run])
    show "types_are [] (fst (db, zero_dwarf_summary))" using assms(2,3) by (simp add: types_are_def first_decls_def)
  qed (erule (1) put_info_types)
  then show ?thesis by (simp add: view types_are_def Let_def)
qed

section \<open>Samples\<close>

definition fresh_dwarf :: dwarf_db where
  "fresh_dwarf = \<lparr>dd_hbr = fresh_hbr, dd_types = [], dd_fields = [], dd_constants = [], dd_sites = [], dd_instances = [],
     dd_symbols_fts = [], dd_types_fts = []\<rparr>"

lemma dwarf_ok_fresh: "dwarf_ok fresh_dwarf"
  by (simp add: dwarf_ok_def fresh_dwarf_def)

text \<open>Two units that share a struct of a header; the second also has a static function \<^verbatim>\<open>helper\<close>, like an external one of the first.\<close>

definition header_struct :: die where
  "header_struct = Die (sample_entry 420 TagStructType True
       [(AttrName, V_string ''ops''), (AttrByteSize, V_int64 8), (AttrDeclFile, V_int64 1), (AttrDeclLine, V_int64 3)])
     [Die (sample_entry 421 TagMember False [(AttrName, V_string ''len''), (AttrType, V_offset 410)]) []]"

definition shared_unit :: "string \<Rightarrow> string \<Rightarrow> die" where
  "shared_unit file ty =
     Die (sample_entry 400 TagCompileUnit True [(AttrName, V_string file), (AttrCompDir, V_string ''/p'')])
       [Die (sample_entry 410 TagBaseType False [(AttrName, V_string ty)]) [],
        header_struct,
        Die (sample_entry 430 TagSubprogram False [(AttrName, V_string ''helper''), (AttrType, V_offset 410),
          (AttrLowpc, V_uint64 0), (AttrPrototyped, V_bool True)]) []]"

definition shared_files :: "string \<Rightarrow> object_file" where
  "shared_files path = \<lparr>of_elf = Some table_elf,
     of_dwarf = Some (stream (flat (if path = ''/p/b/a.o'' then shared_unit ''a.c'' ''int'' else shared_unit ''b.c'' ''long''))),
     of_clean = True, of_lines = (\<lambda>_. Some \<lparr>lr_Files = [None, Some ''/p/ops.h''], lr_SeekPC = (\<lambda>_. None)\<rparr>)\<rparr>"

definition shared_build :: BuildDir where
  "shared_build = \<lparr>bd_Root = ''/p/b'', bd_Objects =
     map (\<lambda>f. \<lparr>oa_Object = f, oa_CI = [], oa_Cgraph = [], oa_Inline = [], oa_ICF = [], oa_OptRecord = [], oa_Preprocessed = []\<rparr>)
       [''/p/b/b.o'', ''/p/b/a.o''], bd_LinkerMaps = []\<rparr>"

definition shared_pr :: PathResolver where
  "shared_pr = \<lparr>pr_BuildDir = ''/p/b'', pr_ProjectRoot = ''/p''\<rparr>"

definition shared_ids :: id_map where
  "shared_ids = [(''c:@F@helper'', 1), (''c:b.c@F@helper'', 2)]"

definition symbol_sample :: "string \<Rightarrow> symbol_row" where
  "symbol_sample u = \<lparr>sy_usr = u, sy_name = ''helper'', sy_kind = ''function'', sy_linkage = ''external'',
     sy_signature = [], sy_address_taken = 0, sy_linkage_names = None\<rparr>"

definition shared_db :: dwarf_db where
  "shared_db = fresh_dwarf\<lparr>dd_hbr := fresh_hbr\<lparr>symbols :=
     [(1, symbol_sample ''c:@F@helper''), (2, symbol_sample ''c:b.c@F@helper'')]\<rparr>\<rparr>"

definition shared_run :: "dwarf_db \<times> (dwarf_pass_error + DwarfSummary)" where
  "shared_run = DWARF dwarf_working shared_files shared_db shared_build shared_pr shared_ids"

lemma shared_run_ok: "\<exists>sm. snd shared_run = Inr sm"
proof -
  have "map_sum id ds_Types (snd shared_run) = Inr 1" by code_simp
  then show ?thesis by (cases "snd shared_run") auto
qed

lemma shared_run_eq:
  "\<exists>sm. DWARF dwarf_working shared_files shared_db shared_build shared_pr shared_ids = (fst shared_run, Inr sm)"
  using shared_run_ok by (metis shared_run_def surjective_pairing)

lemma shared_db_ok: "dwarf_ok shared_db"
  by (simp add: dwarf_ok_def shared_db_def fresh_dwarf_def hbr_ok_def fresh_hbr_def symbol_sample_def)

lemma DWARF_signatures_witness:
  "symbols (dd_hbr (fst shared_run)) =
     set_sigs (concat (map (sig_updates shared_pr shared_ids) (read_infos shared_files shared_build))) (symbols (dd_hbr shared_db))"
  using shared_run_eq DWARF_signatures by blast

lemma DWARF_types_witness:
  "dd_types (fst shared_run) = enum_from 1 (map dc_row (first_decls (concat (map (decls_of_info shared_pr) (read_infos shared_files shared_build)))))"
proof -
  obtain sm where r: "DWARF dwarf_working shared_files shared_db shared_build shared_pr shared_ids = (fst shared_run, Inr sm)"
    using shared_run_eq by blast
  have "dd_types shared_db = []" "dd_fields shared_db = []" by (simp_all add: shared_db_def fresh_dwarf_def)
  from DWARF_types [OF r this] show ?thesis by (simp add: Let_def)
qed

text \<open>The struct both units declare has one row and one field, with the type the first object gives it.\<close>

lemma shared_struct_once:
  "map (ty_usr \<circ> snd) (dd_types (fst shared_run)) = [''c:ops.h@S@ops''] \<and> map tf_type (dd_fields (fst shared_run)) = [''int'']"
  by code_simp

text \<open>
  The static function of the second unit is looked up under its external name first: its signature goes to the
  external function, whose own it replaces, and the static function gets none.
\<close>

lemma static_signature_on_external:
  "map (\<lambda>(i, r). (i, sy_usr r, sy_signature r)) (symbols (dd_hbr (fst shared_run))) =
     [(1, ''c:@F@helper'', ''long (void)''), (2, ''c:b.c@F@helper'', [])]"
  by code_simp

end
