(* ===== verification/Store_Index.thy ===== *)
theory Store_Index
  imports Ingest_Sources Ingest_Dwarf
begin

text \<open>
  The file of an index: \<^verbatim>\<open>src/internal/store/store.go\<close>. Names of files lead to numbered files, so that a process that
  has opened a file keeps it when its name is given to another. A file may be a database, with the tables of
  the index once the schema is applied. Whether a call of the system or of the engine succeeds is an argument.
\<close>

section \<open>Files\<close>

record index =
  ix_meta :: "(string, string) gomap"
  ix_dwarf :: dwarf_db
  ix_blobs :: blob_db

definition fresh_index :: index where
  "fresh_index = \<lparr>ix_meta = [],
     ix_dwarf = \<lparr>dd_hbr = fresh_hbr, dd_types = [], dd_fields = [], dd_constants = [], dd_sites = [], dd_instances = [],
       dd_symbols_fts = [], dd_types_fts = []\<rparr>,
     ix_blobs = \<lparr>db_blobs = [], db_sources = [], db_external = [], db_generated = []\<rparr>\<rparr>"

text \<open>A database: whether it is in WAL mode, and its tables.\<close>

datatype hbr_file = Directory | Empty_file | Foreign_file | Database bool "index option"

record disk =
  dk_names :: "(string, nat) gomap"
  dk_files :: "(nat, hbr_file) gomap"

definition new_number :: "disk \<Rightarrow> nat" where
  "new_number d = Suc (fold max (gkeys (dk_files d)) 0)"

definition create_file :: "string \<Rightarrow> hbr_file \<Rightarrow> disk \<Rightarrow> disk" where
  "create_file path f d =
     (let n = new_number d in d\<lparr>dk_names := gput path n (dk_names d), dk_files := gput n f (dk_files d)\<rparr>)"

definition remove_file :: "string \<Rightarrow> disk \<Rightarrow> disk" where
  "remove_file path d = d\<lparr>dk_names := gdel path (dk_names d)\<rparr>"

definition rename_file :: "string \<Rightarrow> string \<Rightarrow> disk \<Rightarrow> disk" where
  "rename_file old new d =
     (case gget (dk_names d) old of None \<Rightarrow> d | Some n \<Rightarrow> d\<lparr>dk_names := gput new n (gdel old (dk_names d))\<rparr>)"

definition write_file :: "nat \<Rightarrow> hbr_file \<Rightarrow> disk \<Rightarrow> disk" where
  "write_file n f d = d\<lparr>dk_files := gput n f (dk_files d)\<rparr>"

definition tables_at :: "disk \<Rightarrow> nat \<Rightarrow> index option" where
  "tables_at d n = (case gget (dk_files d) n of Some (Database _ t) \<Rightarrow> t | _ \<Rightarrow> None)"

section \<open>Opening\<close>

datatype store_error =
    St_open | St_ping | St_probe | St_present | St_schema | St_stamp | St_seal_open | St_seal_query | St_seal_mode string | St_seal_close

record store_io =
  sx_open :: bool
  sx_ping :: bool
  sx_probe :: bool
  sx_schema :: bool
  sx_stamp :: bool
  sx_seal_open :: bool
  sx_seal_mode :: "string option"
  sx_seal_close :: bool

definition SchemaVersion :: string where
  "SchemaVersion = ''10''"

text \<open>
  \<^verbatim>\<open>Open\<close> for writing. The file becomes a database in WAL mode, with its two files beside it. The result is the number of
  the file behind the handle.
\<close>

definition sidecars :: "string \<Rightarrow> string list" where
  "sidecars path = [path @ ''-wal'', path @ ''-shm'']"

definition Open :: "store_io \<Rightarrow> string \<Rightarrow> disk \<Rightarrow> disk \<times> (store_error + nat)" where
  "Open io path d =
     (if \<not> sx_open io then (d, Inl St_open)
      else if \<not> sx_ping io then (d, Inl St_ping)
      else
        (let d1 = (if gget (dk_names d) path = None then create_file path Empty_file d else d);
             n = gget_or 0 (dk_names d1) path
         in (foldl (\<lambda>d p. create_file p Foreign_file d) (write_file n (Database True (tables_at d1 n)) d1) (sidecars path), Inr n)))"

definition OpenReadOnly :: "bool \<Rightarrow> bool \<Rightarrow> string \<Rightarrow> disk \<Rightarrow> store_error + nat" where
  "OpenReadOnly opens pings path d =
     (if \<not> opens then Inl St_open
      else case gget (dk_names d) path of
             None \<Rightarrow> Inl St_ping
           | Some n \<Rightarrow> if pings then Inr n else Inl St_ping)"

datatype path_fault = No_file | No_stat | Is_directory | Is_empty | Not_permitted | Not_readable | Not_closed

datatype open_answer = Opens | Denied | Fails

definition DiagnosePath :: "bool \<Rightarrow> open_answer \<Rightarrow> bool \<Rightarrow> string \<Rightarrow> disk \<Rightarrow> path_fault option" where
  "DiagnosePath stats opens closes path d =
     (case gget (dk_names d) path of
        None \<Rightarrow> Some No_file
      | Some n \<Rightarrow>
          if \<not> stats then Some No_stat
          else
            (case gget (dk_files d) n of
               Some Directory \<Rightarrow> Some Is_directory
             | Some Empty_file \<Rightarrow> Some Is_empty
             | _ \<Rightarrow>
                 (case opens of
                    Denied \<Rightarrow> Some Not_permitted
                  | Fails \<Rightarrow> Some Not_readable
                  | Opens \<Rightarrow> if closes then None else Some Not_closed)))"

section \<open>Schema and sealing\<close>

text \<open>The two statements of \<^verbatim>\<open>Init\<close> are not in a transaction: when the second fails the first is kept.\<close>

definition Init :: "store_io \<Rightarrow> nat \<Rightarrow> disk \<Rightarrow> disk \<times> (store_error + unit)" where
  "Init io n d =
     (if \<not> sx_probe io then (d, Inl St_probe)
      else if tables_at d n \<noteq> None then (d, Inl St_present)
      else if \<not> sx_schema io then (d, Inl St_schema)
      else if \<not> sx_stamp io then (write_file n (Database True (Some fresh_index)) d, Inl St_stamp)
      else (write_file n (Database True (Some (fresh_index\<lparr>ix_meta := [(''schema_version'', SchemaVersion)]\<rparr>))) d, Inr ()))"

text \<open>
  The engine answers the mode in force after the statement. In mode \<^verbatim>\<open>delete\<close> the two files beside the database are gone.
\<close>

definition SealForReading :: "store_io \<Rightarrow> string \<Rightarrow> disk \<Rightarrow> disk \<times> (store_error + unit)" where
  "SealForReading io path d =
     (if \<not> sx_seal_open io then (d, Inl St_seal_open)
      else
        (case sx_seal_mode io of
           None \<Rightarrow> (d, Inl St_seal_query)
         | Some mode \<Rightarrow>
             if map lower mode \<noteq> ''delete'' then (d, Inl (St_seal_mode mode))
             else
               (let n = gget_or 0 (dk_names d) path;
                    d' = fold remove_file (sidecars path) (write_file n (Database False (tables_at d n)) d)
                in (d', if sx_seal_close io then Inr () else Inl St_seal_close))))"

end
