(* ===== verification/Go_Flag.thy ===== *)
theory Go_Flag
  imports Go_Text
begin

text \<open>
  The part of Go's package \<^verbatim>\<open>flag\<close> that the subcommands use: flags with a text, flags that are switched on, and
  flags that may be repeated (\<^verbatim>\<open>stringSliceFlag\<close> of \<^verbatim>\<open>src/cmd/herbarium/collect.go\<close>).
\<close>

datatype flag_kind = Text_flag | Bool_flag | List_flag

datatype flag_error = Bad_syntax string | Not_defined string | Help_asked | Needs_argument string | Bad_bool string

record flag_values =
  fv_text :: "(string, string) gomap"
  fv_bool :: "(string, bool) gomap"
  fv_list :: "(string, string list) gomap"

definition no_flags :: flag_values where
  "no_flags = \<lparr>fv_text = [], fv_bool = [], fv_list = []\<rparr>"

definition ParseBool :: "string \<Rightarrow> bool option" where
  "ParseBool s =
     (if s \<in> set [''1'', ''t'', ''T'', ''true'', ''TRUE'', ''True''] then Some True
      else if s \<in> set [''0'', ''f'', ''F'', ''false'', ''FALSE'', ''False''] then Some False
      else None)"

text \<open>\<^verbatim>\<open>Set\<close> of a repeatable flag keeps every occurrence, in order.\<close>

definition slice_set :: "string \<Rightarrow> string list \<Rightarrow> string list" where
  "slice_set v s = s @ [v]"

definition set_flag :: "flag_kind \<Rightarrow> string \<Rightarrow> string \<Rightarrow> flag_values \<Rightarrow> flag_error + flag_values" where
  "set_flag k name v fv =
     (case k of
        Text_flag \<Rightarrow> Inr (fv\<lparr>fv_text := gput name v (fv_text fv)\<rparr>)
      | List_flag \<Rightarrow> Inr (fv\<lparr>fv_list := gput name (slice_set v (gget_or [] (fv_list fv) name)) (fv_list fv)\<rparr>)
      | Bool_flag \<Rightarrow>
          (case ParseBool v of
             None \<Rightarrow> Inl (Bad_bool name)
           | Some b \<Rightarrow> Inr (fv\<lparr>fv_bool := gput name b (fv_bool fv)\<rparr>)))"

text \<open>The name of a flag and the text behind the first equals sign after its first letter.\<close>

definition split_flag :: "string \<Rightarrow> string \<times> string option" where
  "split_flag s =
     (case s of [] \<Rightarrow> ([], None)
      | c # rest \<Rightarrow>
          (case IndexByte rest (CHR ''='') of None \<Rightarrow> (s, None) | Some i \<Rightarrow> (c # take i rest, Some (drop (Suc i) rest))))"

function (sequential) parse_flags ::
  "(string \<Rightarrow> flag_kind option) \<Rightarrow> string list \<Rightarrow> flag_values \<Rightarrow> flag_error + flag_values" where
  "parse_flags known [] fv = Inr fv"
| "parse_flags known (s # rest) fv =
     (if length s < 2 \<or> s ! 0 \<noteq> CHR ''-'' then Inr fv
      else if s = ''--'' then Inr fv
      else
        (let body = (if s ! 1 = CHR ''-'' then drop 2 s else drop 1 s) in
         if body = [] \<or> body ! 0 = CHR ''-'' \<or> body ! 0 = CHR ''='' then Inl (Bad_syntax s)
         else
           (let (name, value) = split_flag body in
            case known name of
              None \<Rightarrow> if name = ''help'' \<or> name = ''h'' then Inl Help_asked else Inl (Not_defined name)
            | Some Bool_flag \<Rightarrow>
                (case set_flag Bool_flag name (case value of None \<Rightarrow> ''true'' | Some v \<Rightarrow> v) fv of
                   Inl e \<Rightarrow> Inl e | Inr fv' \<Rightarrow> parse_flags known rest fv')
            | Some k \<Rightarrow>
                (case (value, rest) of
                   (Some v, _) \<Rightarrow> (case set_flag k name v fv of Inl e \<Rightarrow> Inl e | Inr fv' \<Rightarrow> parse_flags known rest fv')
                 | (None, []) \<Rightarrow> Inl (Needs_argument name)
                 | (None, v # rest') \<Rightarrow>
                     (case set_flag k name v fv of Inl e \<Rightarrow> Inl e | Inr fv' \<Rightarrow> parse_flags known rest' fv')))))"
  by pat_completeness auto
termination by (relation "measure (\<lambda>(_, args, _). length args)") auto

text \<open>A list written out as \<^verbatim>\<open>--name v\<close> for each of its elements is read back.\<close>

lemma split_flag_plain: "CHR ''='' \<notin> set name \<Longrightarrow> split_flag name = (name, None)"
  by (cases name) (auto simp: split_flag_def IndexByte_None_iff split: option.splits)

lemma parse_repeated:
  assumes "known name = Some List_flag" "name \<noteq> []" "CHR ''='' \<notin> set name" "hd name \<noteq> CHR ''-''"
  shows "parse_flags known (concat (map (\<lambda>v. [''--'' @ name, v]) vs)) fv =
    Inr (fold (\<lambda>v fv. fv\<lparr>fv_list := gput name (slice_set v (gget_or [] (fv_list fv) name)) (fv_list fv)\<rparr>) vs fv)"
proof (induction vs arbitrary: fv)
  case (Cons v vs)
  have "name ! 0 = hd name" using assms(2) by (cases name) auto
  moreover have "hd name \<noteq> CHR ''=''" using assms(2,3) by (cases name) auto
  ultimately show ?case using Cons assms split_flag_plain [OF assms(3)] by (simp add: set_flag_def)
qed simp

end
