(* ===== verification/Cmd_Collect.thy ===== *)
theory Cmd_Collect
  imports Store_Index Go_Flag Ingest_Compiler Ingest_Targets Ingest_Link Preflight
begin

text \<open>
  The subcommand \<^verbatim>\<open>collect\<close> (\<^verbatim>\<open>src/cmd/herbarium/collect.go\<close>): the flags, the selection of targets, the scratch file,
  and the passes in their order. A run takes the disk and returns the disk and what is printed or the error that is
  reported. What the system answers is an argument.
\<close>

section \<open>The choice of targets\<close>

definition wanted_targets :: "string list \<Rightarrow> string list" where
  "wanted_targets specs = remdups (filter (\<lambda>n. n \<noteq> []) (map TrimSpace (concat (map (split_byte (CHR '','')) specs))))"

text \<open>
  The loop keeps the chosen targets in the array it reads them from: \<open>i\<close> is the next index to read and \<open>k\<close> the next one to
  write.
\<close>

function filter_loop :: "(Target \<Rightarrow> bool) \<Rightarrow> Target list \<Rightarrow> nat \<Rightarrow> nat \<Rightarrow> Target list \<times> nat" where
  "filter_loop w arr i k =
     (if i < length arr
      then if w (arr ! i) then filter_loop w (arr[k := arr ! i]) (i + 1) (k + 1) else filter_loop w arr (i + 1) k
      else (arr, k))"
  by pat_completeness auto
termination by (relation "measure (\<lambda>(_, arr, i, _). length arr - i)") auto

declare filter_loop.simps [simp del]

text \<open>The error holds the names that are missing and the names said to be known.\<close>

definition filterTargets :: "Introspection \<Rightarrow> string list \<Rightarrow> (string list \<times> string list) + Introspection" where
  "filterTargets intro specs =
     (let wanted = wanted_targets specs in
      if wanted = [] then Inr intro
      else
        (let (arr, k) = filter_loop (\<lambda>t. tg_Name t \<in> set wanted) (in_Targets intro) 0 0;
             kept = take k arr;
             missing = filter (\<lambda>n. n \<notin> tg_Name ` set kept) wanted
         in if missing \<noteq> [] then Inl (sort missing, sort (map tg_Name arr))
            else Inr (intro\<lparr>in_Targets := kept\<rparr>)))"

section \<open>Errors and environment\<close>

datatype collect_error =
    K_flags flag_error | K_glob glob_error | K_required | K_meson meson_error
  | K_unknown_targets "string list" "string list" | K_crawl crawl_error | K_preflight Report | K_exists
  | K_scratch_exists | K_scratch_create | K_scratch_close | K_store store_error | K_meta string
  | K_paths path_error | K_compiler compiler_error | K_dwarf dwarf_pass_error | K_targets targets_error
  | K_link link_error | K_sources sources_error | K_close | K_rename

record collect_env =
  ev_version :: string
  ev_cwd :: "string option"
  ev_info_dir :: bool
  ev_json :: "string \<Rightarrow> json option option"
  ev_tree :: "node option"
  ev_quote :: "string \<Rightarrow> string"
  ev_elf :: "string \<Rightarrow> string + string list"
  ev_stat :: bool
  ev_random :: "int \<Rightarrow> 64 word"
  ev_create :: "string \<Rightarrow> bool"
  ev_created :: "string \<Rightarrow> bool"
  ev_remove :: "string \<Rightarrow> bool"
  ev_store :: store_io
  ev_meta :: "string \<Rightarrow> bool"
  ev_now :: string
  ev_compiler :: tx_io
  ev_dumps :: dump_files
  ev_dwarf :: dwarf_io
  ev_objects :: "string \<Rightarrow> object_file"
  ev_targets :: tx_io
  ev_link :: tx_io
  ev_link_io :: link_io
  ev_hex :: "string \<Rightarrow> string"
  ev_enc :: "string \<Rightarrow> string"
  ev_sources :: source_env
  ev_close :: bool
  ev_rename :: bool

text \<open>A step of the run may change the disk and may fail; what follows a failure is not run.\<close>

type_synonym 'a act = "disk \<Rightarrow> disk \<times> (collect_error + 'a)"

definition cbind :: "'a act \<Rightarrow> ('a \<Rightarrow> 'b act) \<Rightarrow> 'b act" where
  "cbind m f d = (case m d of (d', Inl e) \<Rightarrow> (d', Inl e) | (d', Inr x) \<Rightarrow> f x d')"

definition pure :: "('e \<Rightarrow> collect_error) \<Rightarrow> 'e + 'a \<Rightarrow> 'a act" where
  "pure err r d = (d, case r of Inl e \<Rightarrow> Inl (err e) | Inr x \<Rightarrow> Inr x)"

definition check :: "collect_error \<Rightarrow> bool \<Rightarrow> unit act" where
  "check e ok d = (d, if ok then Inr () else Inl e)"

definition stored :: "(disk \<Rightarrow> disk \<times> (store_error + 'a)) \<Rightarrow> 'a act" where
  "stored m d = (case m d of (d', Inl e) \<Rightarrow> (d', Inl (K_store e)) | (d', Inr x) \<Rightarrow> (d', Inr x))"

section \<open>The scratch file\<close>

text \<open>\<^verbatim>\<open>strconv.FormatUint\<close> in base 36.\<close>

definition digit36 :: "nat \<Rightarrow> char" where
  "digit36 n = (if n < 10 then char_of (48 + n) else char_of (87 + n))"

fun FormatUint36 :: "nat \<Rightarrow> string" where
  "FormatUint36 n = (if n < 36 then [digit36 n] else FormatUint36 (n div 36) @ [digit36 (n mod 36)])"

declare FormatUint36.simps [simp del]

definition scratch_prefix :: "string \<Rightarrow> string" where
  "scratch_prefix out = Join (Dir out) (''.'' @ Base out @ ''.tmp-'')"

function reserve_from :: "collect_env \<Rightarrow> string \<Rightarrow> int \<Rightarrow> string act" where
  "reserve_from env pre attempt d =
     (let name = pre @ FormatUint36 (unat (ev_random env attempt)) in
      if gget (dk_names d) name \<noteq> None
      then if attempt < 10000 then reserve_from env pre (attempt + 1) d else (d, Inl K_scratch_exists)
      else if \<not> ev_create env name then (d, Inl K_scratch_create)
      else if \<not> ev_created env name
      then ((if ev_remove env name then remove_file name else id) (create_file name Empty_file d), Inl K_scratch_close)
      else (create_file name Empty_file d, Inr name))"
  by pat_completeness auto
termination by (relation "measure (\<lambda>(_, _, attempt, _). nat (10001 - attempt))") auto

declare reserve_from.simps [simp del]

definition reserveTempIndex :: "collect_env \<Rightarrow> string \<Rightarrow> string act" where
  "reserveTempIndex env out = reserve_from env (scratch_prefix out) 0"

definition removeIndexFiles :: "collect_env \<Rightarrow> string \<Rightarrow> disk \<Rightarrow> disk" where
  "removeIndexFiles env path d =
     foldl (\<lambda>d suffix. if ev_remove env (path @ suffix) then remove_file (path @ suffix) d else d) d [[], ''-wal'', ''-shm'']"

section \<open>The run\<close>

definition the_index :: "disk \<Rightarrow> nat \<Rightarrow> index" where
  "the_index d n = (case tables_at d n of Some t \<Rightarrow> t | None \<Rightarrow> fresh_index)"

definition put_index :: "nat \<Rightarrow> index \<Rightarrow> disk \<Rightarrow> disk" where
  "put_index n t d = write_file n (Database True (Some t)) d"

text \<open>A pass over the tables behind the handle.\<close>

definition pass :: "nat \<Rightarrow> ('e \<Rightarrow> collect_error) \<Rightarrow> (index \<Rightarrow> 't) \<Rightarrow> ('t \<Rightarrow> index \<Rightarrow> index) \<Rightarrow> ('t \<Rightarrow> 't \<times> ('e + 'a)) \<Rightarrow> 'a act" where
  "pass n err get put f d =
     (case f (get (the_index d n)) of
        (t, Inl e) \<Rightarrow> (put_index n (put t (the_index d n)) d, Inl (err e))
      | (t, Inr x) \<Rightarrow> (put_index n (put t (the_index d n)) d, Inr x))"

definition get_hbr :: "index \<Rightarrow> hbr" where
  "get_hbr ix = dd_hbr (ix_dwarf ix)"

definition put_hbr :: "hbr \<Rightarrow> index \<Rightarrow> index" where
  "put_hbr h ix = ix\<lparr>ix_dwarf := (ix_dwarf ix)\<lparr>dd_hbr := h\<rparr>\<rparr>"

definition stamps :: "collect_env \<Rightarrow> Introspection \<Rightarrow> string \<Rightarrow> (string \<times> string) list" where
  "stamps env intro proot =
     [(''herbarium_version'', ev_version env), (''gcc_version'', cc_Version (in_CCompiler intro)),
      (''meson_version'', in_MesonVersion intro), (''indexed_at'', ev_now env), (''project_root_hint'', proot)]"

fun stamp_all :: "collect_env \<Rightarrow> nat \<Rightarrow> (string \<times> string) list \<Rightarrow> unit act" where
  "stamp_all env n [] d = (d, Inr ())"
| "stamp_all env n (kv # kvs) d =
     (if \<not> ev_meta env (fst kv) then (d, Inl (K_meta (fst kv)))
      else stamp_all env n kvs
        (put_index n ((the_index d n)\<lparr>ix_meta := gput (fst kv) (snd kv) (ix_meta (the_index d n))\<rparr>) d))"

definition close_index :: "bool \<Rightarrow> string \<Rightarrow> disk \<Rightarrow> disk" where
  "close_index closes path d = (if closes then fold remove_file (sidecars path) d else d)"

type_synonym collected = "Summary \<times> DwarfSummary \<times> LinkSummary \<times> SourcesSummary"

text \<open>From \<^verbatim>\<open>store.Init\<close> to \<^verbatim>\<open>ingest.Sources\<close>.\<close>

definition fill_index :: "collect_env \<Rightarrow> string \<Rightarrow> string \<Rightarrow> SourcesOptions \<Rightarrow> Introspection \<Rightarrow> BuildDir \<Rightarrow> nat \<Rightarrow> collected act" where
  "fill_index env bdir proot opts intro bd n =
     cbind (stored (Init (ev_store env) n)) (\<lambda>_.
     cbind (stamp_all env n (stamps env intro proot)) (\<lambda>_.
     cbind (pure K_paths (NewPathResolver (ev_cwd env) bdir proot)) (\<lambda>pr.
     cbind (pass n K_compiler get_hbr put_hbr (\<lambda>h. Compiler (ev_compiler env) (ev_dumps env) h bd pr)) (\<lambda>sm.
     cbind (pass n K_dwarf ix_dwarf (\<lambda>t ix. ix\<lparr>ix_dwarf := t\<rparr>) (\<lambda>t. DWARF (ev_dwarf env) (ev_objects env) t bd pr (sm_IDByUSR sm))) (\<lambda>dwarfSum.
     cbind (pass n K_targets get_hbr put_hbr (\<lambda>h. Targets (ev_targets env) h intro pr)) (\<lambda>targetIDs.
     cbind (pass n K_link get_hbr put_hbr
       (\<lambda>h. Link (ev_link env) (ev_link_io env) h bd intro targetIDs (sm_ObjectToSource sm))) (\<lambda>linkSum.
     cbind (pass n K_sources ix_blobs (\<lambda>t ix. ix\<lparr>ix_blobs := t\<rparr>)
       (\<lambda>t. Sources (ev_hex env) (ev_enc env) (ev_sources env) t bd intro pr opts)) (\<lambda>srcSum d.
       (d, Inr (sm, dwarfSum, linkSum, srcSum))))))))))"

text \<open>From \<^verbatim>\<open>store.Open\<close> to \<^verbatim>\<open>os.Rename\<close>; whatever the outcome, the handle is closed and the scratch files are removed.\<close>

definition build_index :: "collect_env \<Rightarrow> string \<Rightarrow> string \<Rightarrow> SourcesOptions \<Rightarrow> Introspection \<Rightarrow> BuildDir \<Rightarrow> string \<Rightarrow> string \<Rightarrow> collected act" where
  "build_index env bdir proot opts intro bd out tmp =
     cbind (stored (Open (ev_store env) tmp)) (\<lambda>n d.
       (case cbind (fill_index env bdir proot opts intro bd n) (\<lambda>res.
             cbind (\<lambda>d. (close_index (ev_close env) tmp d, if ev_close env then Inr () else Inl K_close)) (\<lambda>_.
             cbind (stored (SealForReading (ev_store env) tmp)) (\<lambda>_ d.
               if ev_rename env then (rename_file tmp out d, Inr res) else (d, Inl K_rename)))) d of
          (d', r) \<Rightarrow> (close_index (ev_close env) tmp d', r)))"

definition with_scratch :: "collect_env \<Rightarrow> string \<Rightarrow> 'a act \<Rightarrow> 'a act" where
  "with_scratch env tmp m d = (case m d of (d', r) \<Rightarrow> (removeIndexFiles env tmp d', r))"

definition collect_flags :: "string \<Rightarrow> flag_kind option" where
  "collect_flags = map_of [(''builddir'', Text_flag), (''project-root'', Text_flag), (''out'', Text_flag),
     (''strict'', Bool_flag), (''replace'', Bool_flag), (''target'', List_flag), (''include-external'', List_flag)]"

fun parse_globs :: "string list \<Rightarrow> glob_error + ExternalGlob list" where
  "parse_globs [] = Inr []"
| "parse_globs (raw # raws) =
     bind_result (NewExternalGlob raw) (\<lambda>g. bind_result (parse_globs raws) (\<lambda>gs. Inr (g # gs)))"

definition runCollect :: "collect_env \<Rightarrow> string list \<Rightarrow> collected act" where
  "runCollect env args =
     cbind (pure K_flags (parse_flags collect_flags args no_flags)) (\<lambda>fv.
     cbind (pure K_glob (parse_globs (gget_or [] (fv_list fv) ''include-external''))) (\<lambda>globs.
       let bdir = gget_or [] (fv_text fv) ''builddir''; proot = gget_or [] (fv_text fv) ''project-root'';
           out = gget_or ''herbarium.hbr'' (fv_text fv) ''out'' in
     cbind (check K_required (bdir \<noteq> [] \<and> proot \<noteq> [])) (\<lambda>_.
     cbind (pure K_meson (Load (ev_info_dir env) (ev_json env))) (\<lambda>intro0.
     cbind (pure (\<lambda>(missing, known). K_unknown_targets missing known)
       (filterTargets intro0 (gget_or [] (fv_list fv) ''target''))) (\<lambda>intro.
     cbind (pure K_crawl (Crawl (ev_cwd env) bdir (ev_tree env))) (\<lambda>bd.
     cbind (let report = Check (ev_quote env) (ev_elf env) intro bd in check (K_preflight report) (rp_Ok report)) (\<lambda>_.
     cbind (\<lambda>d. check K_exists (\<not> (ev_stat env \<and> gget (dk_names d) out \<noteq> None \<and> \<not> gget_or False (fv_bool fv) ''replace'')) d) (\<lambda>_.
     cbind (reserveTempIndex env out) (\<lambda>tmp.
       with_scratch env tmp
         (build_index env bdir proot \<lparr>so_Strict = gget_or False (fv_bool fv) ''strict'', so_ExternalGlobs = globs\<rparr>
            intro bd out tmp))))))))))"

definition exit_code :: "collect_error + 'a \<Rightarrow> nat" where
  "exit_code r = (case r of
     Inr _ \<Rightarrow> 0 | Inl (K_flags _) \<Rightarrow> 2 | Inl (K_glob _) \<Rightarrow> 2 | Inl K_required \<Rightarrow> 2 | Inl _ \<Rightarrow> 1)"


section \<open>The targets kept\<close>

lemma filter_loop_gen:
  "k \<le> i \<Longrightarrow> i \<le> length arr \<Longrightarrow> filter_loop w arr i k =
     (take k arr @ filter w (drop i arr) @ drop (k + length (filter w (drop i arr))) arr, k + length (filter w (drop i arr)))"
proof (induction w arr i k rule: filter_loop.induct)
  case (1 w arr i k)
  show ?case
  proof (cases "i < length arr")
    case True
    have d: "drop i arr = arr ! i # drop (Suc i) arr" using True by (rule Cons_nth_drop_Suc [symmetric])
    show ?thesis
    proof (cases "w (arr ! i)")
      case w: True
      let ?arr = "arr[k := arr ! i]"
      have k: "k < length arr" using 1(3) True by simp
      have "take (Suc k) ?arr = take k arr @ [arr ! i]" using k by (simp add: take_Suc_conv_app_nth)
      moreover have "drop (Suc i) ?arr = drop (Suc i) arr" using 1(3) by simp
      moreover have "drop (Suc k + m) ?arr = drop (Suc k + m) arr" for m by simp
      moreover have "filter_loop w ?arr (i + 1) (k + 1) = (take (k + 1) ?arr @ filter w (drop (i + 1) ?arr) @
          drop (k + 1 + length (filter w (drop (i + 1) ?arr))) ?arr, k + 1 + length (filter w (drop (i + 1) ?arr)))"
        using 1(1) [OF True w] 1(3,4) True by simp
      ultimately show ?thesis using True w by (simp add: filter_loop.simps [of w arr i k] d)
    next
      case False
      then show ?thesis using 1(2) [OF True False] 1(3,4) True by (simp add: filter_loop.simps [of w arr i k] d)
    qed
  next
    case False
    then show ?thesis unfolding filter_loop.simps [of w arr i k] using 1(3,4) by simp
  qed
qed

lemma filter_loop_eq:
  "filter_loop w ts 0 0 = (filter w ts @ drop (length (filter w ts)) ts, length (filter w ts))"
  using filter_loop_gen [of 0 0 ts w] by simp

text \<open>
  The flag \<^verbatim>\<open>--target\<close>: with no name in it all targets stay; otherwise exactly the named targets stay, in their
  order, unless a name is not the name of any target, which is an error that reports exactly these names.
\<close>

theorem filterTargets_spec:
  "filterTargets intro specs =
     (let wanted = wanted_targets specs; ts = in_Targets intro;
          kept = filter (\<lambda>t. tg_Name t \<in> set wanted) ts;
          missing = filter (\<lambda>n. n \<notin> tg_Name ` set ts) wanted
      in if wanted = [] then Inr intro
         else if missing = [] then Inr (intro\<lparr>in_Targets := kept\<rparr>)
         else Inl (sort missing, sort (map tg_Name (kept @ drop (length kept) ts))))"
proof -
  have "filter (\<lambda>n. n \<notin> tg_Name ` set (filter (\<lambda>t. tg_Name t \<in> set wanted) ts)) wanted = filter (\<lambda>n. n \<notin> tg_Name ` set ts) wanted"
    for wanted :: "string list" and ts :: "Target list" by (rule filter_cong) auto
  then show ?thesis by (simp add: filterTargets_def filter_loop_eq Let_def)
qed

text \<open>
  The targets the message lists as known are read from the array after the loop has written into it: here the name of
  the first target is not listed, and the name of the last one twice.
\<close>

definition named_target :: "string \<Rightarrow> Target" where
  "named_target n = \<lparr>tg_Name = n, tg_ID = n, tg_Kind = ''executable'', tg_DefinedIn = [], tg_Filenames = [], tg_Sources = [],
     tg_Generated = [], tg_CompileParams = [], tg_CompilerCmd = None, tg_LinkCmd = None, tg_Installed = False, tg_Subproject = []\<rparr>"

definition three_targets :: Introspection where
  "three_targets = \<lparr>in_MesonVersion = ''1.4'', in_SourceDir = ''/p'', in_BuildDir = ''/b'',
     in_Targets = map named_target [''a'', ''b'', ''c''], in_CCompiler = zero_compiler, in_Dependencies = []\<rparr>"

lemma known_targets_overwritten:
  "filterTargets three_targets [''c,x''] = Inl ([''x''], [''b'', ''c'', ''c''])"
  by code_simp

section \<open>What a run touches\<close>

text \<open>Against the disk before the run: its files are as they were, and so are all names but the given ones.\<close>

definition spared :: "disk \<Rightarrow> string set \<Rightarrow> disk \<Rightarrow> bool" where
  "spared d0 N d \<longleftrightarrow>
     (\<forall>n f. gget (dk_files d0) n = Some f \<longrightarrow> gget (dk_files d) n = Some f) \<and>
     (\<forall>p. p \<notin> N \<longrightarrow> gget (dk_names d) p = gget (dk_names d0) p)"

lemma spared_refl [simp]: "spared d N d"
  by (simp add: spared_def)

lemma fold_max_ge_nat: "(a :: nat) \<le> fold max xs a \<and> (x \<in> set xs \<longrightarrow> x \<le> fold max xs a)"
proof (induction xs arbitrary: a)
  case (Cons y ys)
  show ?case using Cons [of "max y a"] by auto
qed simp

lemma new_number_new [simp]: "gget (dk_files d) (new_number d) = None"
proof (rule ccontr)
  assume "gget (dk_files d) (new_number d) \<noteq> None"
  then have "new_number d \<in> set (gkeys (dk_files d))" by (simp add: set_gkeys)
  then show False using fold_max_ge_nat [of 0 "gkeys (dk_files d)" "new_number d"] by (simp add: new_number_def)
qed

lemma spared_new: "spared d0 N d \<Longrightarrow> gget (dk_files d) n = None \<Longrightarrow> gget (dk_files d0) n = None"
  by (cases "gget (dk_files d0) n") (auto simp: spared_def)

lemma spared_create: "spared d0 N d \<Longrightarrow> p \<in> N \<Longrightarrow> spared d0 N (create_file p f d)"
  using spared_new [of d0 N d "new_number d"] by (auto simp: spared_def create_file_def Let_def)

lemma spared_remove: "spared d0 N d \<Longrightarrow> p \<in> N \<Longrightarrow> spared d0 N (remove_file p d)"
  by (auto simp: spared_def remove_file_def)

lemma spared_write: "spared d0 N d \<Longrightarrow> gget (dk_files d0) n = None \<Longrightarrow> spared d0 N (write_file n f d)"
  by (auto simp: spared_def write_file_def)

definition scratch_names :: "string \<Rightarrow> string set" where
  "scratch_names tmp = {tmp, tmp @ ''-wal'', tmp @ ''-shm''}"

lemma spared_sidecars: "spared d0 (scratch_names tmp) d \<Longrightarrow> spared d0 (scratch_names tmp) (fold remove_file (sidecars tmp) d)"
  by (simp add: sidecars_def spared_remove scratch_names_def)

lemma spared_close: "spared d0 (scratch_names tmp) d \<Longrightarrow> spared d0 (scratch_names tmp) (close_index c tmp d)"
  by (simp add: close_index_def spared_sidecars)

lemma spared_cleanup: "spared d0 (scratch_names tmp) d \<Longrightarrow> spared d0 (scratch_names tmp) (removeIndexFiles env tmp d)"
  by (simp add: removeIndexFiles_def spared_remove scratch_names_def)


section \<open>The scratch names are not the name of the index\<close>

lemma digit36_plain: "n < 36 \<Longrightarrow> digit36 n \<noteq> CHR ''/''"
proof -
  assume "n < 36"
  then have "n \<in> set [0..<36]" by simp
  moreover have "\<forall>n \<in> set [0..<36]. digit36 n \<noteq> CHR ''/''" by code_simp
  ultimately show ?thesis by blast
qed

lemma FormatUint36_plain: "CHR ''/'' \<notin> set (FormatUint36 n)"
proof (induction n rule: FormatUint36.induct)
  case (1 n)
  then show ?case using digit36_plain [of n] digit36_plain [of "n mod 36"] unfolding FormatUint36.simps [of n] by auto
qed

lemma Base_tail: "w \<noteq> [] \<Longrightarrow> CHR ''/'' \<notin> set w \<Longrightarrow> Base (p @ CHR ''/'' # w) = w \<and> Base w = w"
proof -
  assume w: "w \<noteq> []" "CHR ''/'' \<notin> set w"
  obtain c v where r: "rev w = c # v" "c \<noteq> CHR ''/''" using w by (cases "rev w") (auto simp: rev_eq_Cons_iff)
  have "dropWhile (\<lambda>c. c = CHR ''/'') (rev w @ s) = rev w @ s" for s using r by simp
  from this [of "CHR ''/'' # rev p"] this [of "[]"]
  have dw: "rev (dropWhile (\<lambda>c. c = CHR ''/'') (rev (p @ CHR ''/'' # w))) = p @ CHR ''/'' # w"
    "rev (dropWhile (\<lambda>c. c = CHR ''/'') (rev w)) = w" by simp_all
  have "LastIndexByte w (CHR ''/'') = None" using w(2) by (simp add: LastIndexByte_def IndexByte_None_iff)
  then show ?thesis unfolding Base_def dw using w(1) LastIndexByte_append [OF w(2), of p] by (simp add: Let_def)
qed

lemma Base_plain: "Base out = ''/'' \<or> CHR ''/'' \<notin> set (Base out)"
proof -
  have "CHR ''/'' \<notin> set (case LastIndexByte q (CHR ''/'') of None \<Rightarrow> q | Some i \<Rightarrow> drop (Suc i) q)" for q
  proof (cases "LastIndexByte q (CHR ''/'')")
    case None
    then have "CHR ''/'' \<notin> set q" by (simp add: LastIndexByte_def IndexByte_None_iff)
    then show ?thesis by (simp only: None option.case not_False_eq_True)
  next
    case (Some i)
    then obtain j where j: "IndexByte (rev q) (CHR ''/'') = Some j" "i = length q - Suc j" by (auto simp: LastIndexByte_def)
    have t: "CHR ''/'' \<notin> set (take j (rev q))" "j < length q" using IndexByte_Some_take [OF j(1)] by auto
    have "take j (rev q) = rev (drop (Suc i) q)" using t(2) j(2) by (simp add: take_rev Suc_diff_Suc)
    then show ?thesis using Some t(1) by simp
  qed
  then show ?thesis by (auto simp: Base_def Let_def)
qed

lemma Base_slash: "Base out = ''/'' \<Longrightarrow> set out \<subseteq> {CHR ''/''}"
proof (rule ccontr)
  assume b: "Base out = ''/''" and "\<not> set out \<subseteq> {CHR ''/''}"
  let ?q = "dropWhile (\<lambda>c. c = CHR ''/'') (rev out)"
  have "?q \<noteq> []" using \<open>\<not> set out \<subseteq> _\<close> by auto
  then obtain c v where q: "?q = c # v" "c \<noteq> CHR ''/''" using hd_dropWhile [of "\<lambda>c. c = CHR ''/''" "rev out"] by (cases ?q) auto
  have "out \<noteq> []" using q by auto
  obtain u w where vw: "rev v = u @ w" "CHR ''/'' \<notin> set w" "u = [] \<or> (\<exists>u'. u = u' @ ''/'')"
  proof (cases "CHR ''/'' \<in> set (rev v)")
    case True
    then obtain u' w where "rev v = u' @ CHR ''/'' # w" "CHR ''/'' \<notin> set w" using split_list_last by metis
    then show thesis using that [of "u' @ ''/''" w] by auto
  next
    case False
    then show thesis using that [of "[]" "rev v"] by auto
  qed
  have r: "rev ?q = u @ w @ [c]" using q vw by simp
  have "Base (rev ?q) = w @ [c]"
    using Base_tail [of "w @ [c]"] vw(2,3) q(2) unfolding r by auto
  moreover have "Base (rev ?q) = Base out"
    using q \<open>out \<noteq> []\<close> by (simp add: Base_def)
  ultimately show False using b q(2) vw(2) by (cases w) auto
qed

lemma path_comps_snoc:
  assumes "d \<noteq> []" "is_name c" shows "Clean (d @ ''/'' @ c) = render_path (IsAbs d) (path_comps d @ [c])"
proof -
  have "IsAbs (d @ ''/'' @ c) = IsAbs d" using assms(1) by (cases d) (auto simp: IsAbs_def HasPrefix_iff)
  moreover have "split_byte (CHR ''/'') (d @ ''/'' @ c) = split_byte (CHR ''/'') d @ [c]"
    using assms(2) by (simp add: split_byte_concat split_byte_word is_name_def)
  ultimately show ?thesis using assms(2) by (simp add: Clean_def path_comps_def clean_comps_def)
qed

lemma join_with_snoc: "join_with b (cs @ [c]) = (if cs = [] then c else join_with b cs @ b @ c)"
  by (induction b cs rule: join_with.induct) auto

lemma render_snoc: "render_path r (cs @ [c]) = c \<or> (\<exists>p. render_path r (cs @ [c]) = p @ ''/'' @ c)"
  by (auto simp: render_path_def join_with_snoc)

lemma Clean_not_Nil: "Clean p \<noteq> []"
proof (cases "path_comps p")
  case Nil then show ?thesis by (simp add: Clean_def render_path_def)
next
  case (Cons c cs)
  have "x \<noteq> []" if "x \<in> set (foldl (clean_step r) st ws)" "\<forall>x \<in> set st. x \<noteq> []" for x r st ws
    using that
  proof (induction ws arbitrary: st)
    case (Cons w ws)
    have "\<forall>x \<in> set (clean_step r st w). x \<noteq> []" using Cons.prems(2) by (auto simp: clean_step.simps split: list.splits)
    then show ?case using Cons.IH [of "clean_step r st w"] Cons.prems(1) by simp
  qed simp
  from this [of c "IsAbs p" "[]" "split_byte (CHR ''/'') p"] have "c \<noteq> []" using Cons by (auto simp: path_comps_def clean_comps_def)
  then show ?thesis using Cons by (cases cs) (auto simp: Clean_def render_path_def)
qed

lemma scratch_not_out:
  assumes "CHR ''/'' \<notin> set s" shows "scratch_prefix out @ s \<noteq> out"
proof
  assume eq: "scratch_prefix out @ s = out"
  let ?c = "''.'' @ Base out @ ''.tmp-''"
  have dir: "Dir out \<noteq> []" by (simp add: Dir_def Clean_not_Nil)
  show False
  proof (cases "CHR ''/'' \<in> set (Base out)")
    case False
    then have n: "is_name ?c" by (auto simp: is_name_def)
    have "Join (Dir out) ?c = Clean (Dir out @ ''/'' @ ?c)" using dir by (simp add: Join_def)
    then have "scratch_prefix out = ?c \<or> (\<exists>p. scratch_prefix out = p @ ''/'' @ ?c)"
      using path_comps_snoc [OF dir n] render_snoc [of "IsAbs (Dir out)" "path_comps (Dir out)" ?c] by (simp add: scratch_prefix_def)
    then have "out = ?c @ s \<or> (\<exists>p. out = p @ ''/'' @ ?c @ s)" using eq by (metis append_assoc)
    moreover have "CHR ''/'' \<notin> set (?c @ s)" using False assms by auto
    ultimately have "Base out = ?c @ s"
    proof (elim disjE exE)
      assume o: "out = ?c @ s" and p: "CHR ''/'' \<notin> set (?c @ s)"
      have "Base (?c @ s) = ?c @ s" using Base_tail [OF _ p] by blast
      then show ?thesis using arg_cong [OF o, of Base] by (rule trans [rotated])
    next
      fix p assume o: "out = p @ ''/'' @ ?c @ s" and pl: "CHR ''/'' \<notin> set (?c @ s)"
      have "Base (p @ CHR ''/'' # ?c @ s) = ?c @ s" using Base_tail [OF _ pl, of p] by blast
      then have "Base (p @ ''/'' @ ?c @ s) = ?c @ s" by (simp only: append_Cons append_Nil)
      then show ?thesis using arg_cong [OF o, of Base] by (rule trans [rotated])
    qed
    then have "length (Base out) = length (?c @ s)" by (rule arg_cong)
    then show False by simp
  next
    case True
    then have b: "Base out = ''/''" using Base_plain by blast
    have slashes: "set out \<subseteq> {CHR ''/''}" by (rule Base_slash [OF b])
    have d: "Dir out @ ''/.'' \<noteq> []" "is_name ''.tmp-''" by (simp_all add: is_name_def)
    have "Join (Dir out) (''.'' @ ''/'' @ ''.tmp-'') = Clean ((Dir out @ ''/.'') @ ''/'' @ ''.tmp-'')" using dir by (simp add: Join_def)
    then have "scratch_prefix out = ''.tmp-'' \<or> (\<exists>p. scratch_prefix out = p @ ''/'' @ ''.tmp-'')"
      using path_comps_snoc [OF d] render_snoc [of "IsAbs (Dir out @ ''/.'')" "path_comps (Dir out @ ''/.'')" "''.tmp-''"]
      by (simp add: scratch_prefix_def b)
    then have "CHR ''t'' \<in> set (scratch_prefix out)" by auto
    then have "CHR ''t'' \<in> set (scratch_prefix out @ s)" by simp
    then have "CHR ''t'' \<in> set out" unfolding eq .
    then show False using slashes by auto
  qed
qed


section \<open>Steps\<close>

lemma cbind_Inr: "cbind m f d = (d', Inr y) \<longleftrightarrow> (\<exists>d1 x. m d = (d1, Inr x) \<and> f x d1 = (d', Inr y))"
  by (auto simp: cbind_def split: prod.splits sum.splits)

lemma cbind_fst: "P (fst (m d)) \<Longrightarrow> (\<And>d1 x. m d = (d1, Inr x) \<Longrightarrow> P d1 \<Longrightarrow> P (fst (f x d1))) \<Longrightarrow> P (fst (cbind m f d))"
  by (auto simp: cbind_def split: prod.splits sum.splits)

text \<open>A step that writes to one file only.\<close>

definition writes_only :: "nat \<Rightarrow> 'a act \<Rightarrow> bool" where
  "writes_only n m \<longleftrightarrow> (\<forall>d. dk_names (fst (m d)) = dk_names d \<and>
     (\<forall>i. i \<noteq> n \<longrightarrow> gget (dk_files (fst (m d))) i = gget (dk_files d) i))"

lemma writes_only_cbind: "writes_only n m \<Longrightarrow> (\<And>x. writes_only n (f x)) \<Longrightarrow> writes_only n (cbind m f)"
  unfolding writes_only_def cbind_def by (auto split: prod.splits sum.splits) (metis fst_conv)+

lemma writes_only_pure: "writes_only n (pure e r)" "writes_only n (\<lambda>d. (d, res d))"
  by (simp_all add: writes_only_def pure_def)

lemma writes_only_pass: "writes_only n (pass n e g p f)"
  by (auto simp: writes_only_def pass_def put_index_def write_file_def split: prod.splits sum.splits)

lemma writes_only_init: "writes_only n (stored (Init io n))"
  by (auto simp: writes_only_def stored_def Init_def write_file_def)

lemma writes_only_stamps: "writes_only n (stamp_all env n kvs)"
proof (induction kvs)
  case (Cons kv kvs)
  show ?case unfolding writes_only_def
    using Cons unfolding writes_only_def by (simp add: put_index_def write_file_def)
qed (simp add: writes_only_def)

lemma writes_only_fill: "writes_only n (fill_index env bdir proot opts intro bd n)"
  unfolding fill_index_def
  by (intro writes_only_cbind writes_only_init writes_only_stamps writes_only_pure writes_only_pass)

lemma spared_writes:
  assumes "writes_only n m" "spared d0 N d" "gget (dk_files d0) n = None"
  shows "spared d0 N (fst (m d))"
  using assms(2,3) conjunct1 [OF assms(1) [unfolded writes_only_def, rule_format]]
    conjunct2 [OF assms(1) [unfolded writes_only_def, rule_format], rule_format]
  unfolding spared_def by (metis option.distinct(1))


section \<open>The scratch file is new\<close>

lemma reserve_from_Inr:
  "reserve_from env pre a d = (d', Inr name) \<Longrightarrow>
     \<exists>x. CHR ''/'' \<notin> set x \<and> name = pre @ x \<and> gget (dk_names d) name = None \<and> d' = create_file name Empty_file d"
proof (induction env pre a d rule: reserve_from.induct)
  case (1 env pre a d)
  then show ?case using FormatUint36_plain
    by (auto simp: reserve_from.simps [of env pre a] Let_def split: if_splits)
qed

lemma create_remove_spared: "spared d {p} (create_file p f d)" "spared d {p} (remove_file p (create_file p f d))"
  by (simp_all add: spared_create spared_remove)

definition scratch_left :: "collect_env \<Rightarrow> string \<Rightarrow> disk \<Rightarrow> string \<Rightarrow> disk \<Rightarrow> bool" where
  "scratch_left env pre d x d' \<longleftrightarrow>
     CHR ''/'' \<notin> set x \<and> gget (dk_names d) (pre @ x) = None \<and> spared d {pre @ x} d' \<and>
     (ev_remove env (pre @ x) \<longrightarrow> gget (dk_names d') (pre @ x) = None)"

lemma scratch_left_fail:
  "gget (dk_names d) (pre @ FormatUint36 k) = None \<Longrightarrow> scratch_left env pre d (FormatUint36 k)
     ((if ev_remove env (pre @ FormatUint36 k) then remove_file (pre @ FormatUint36 k) else id) (create_file (pre @ FormatUint36 k) Empty_file d))"
  using FormatUint36_plain [of k] create_remove_spared by (simp add: scratch_left_def remove_file_def)

lemma reserve_from_Inl: "reserve_from env pre a d = (d', Inl e) \<Longrightarrow> d' = d \<or> (\<exists>x. scratch_left env pre d x d')"
proof (induction env pre a d rule: reserve_from.induct)
  case (1 env pre a d)
  show ?case using 1 scratch_left_fail [of d pre "unat (ev_random env a)" env]
    by (fastforce simp: reserve_from.simps [of env pre a] Let_def split: if_split_asm)
qed

text \<open>The state while the index is built: the scratch file is the only file written, under its name.\<close>

definition building :: "disk \<Rightarrow> string \<Rightarrow> nat \<Rightarrow> disk \<Rightarrow> bool" where
  "building d0 tmp n d \<longleftrightarrow>
     spared d0 (scratch_names tmp) d \<and> gget (dk_names d) tmp = Some n \<and> gget (dk_files d0) n = None"

lemma building_writes: "building d0 tmp n d \<Longrightarrow> writes_only n m \<Longrightarrow> building d0 tmp n (fst (m d))"
  using spared_writes [of n m d0 "scratch_names tmp" d] by (auto simp: building_def writes_only_def)

lemma building_sidecars: "building d0 tmp n d \<Longrightarrow> building d0 tmp n (fold remove_file (sidecars tmp) d)"
  using spared_sidecars [of d0 tmp d] by (simp add: building_def sidecars_def remove_file_def)

lemma building_close: "building d0 tmp n d \<Longrightarrow> building d0 tmp n (close_index c tmp d)"
  by (simp add: close_index_def building_sidecars)

lemma files_sidecars [simp]: "dk_files (fold remove_file (sidecars tmp) d) = dk_files d"
  by (simp add: sidecars_def remove_file_def)

lemma files_close [simp]: "dk_files (close_index c tmp d) = dk_files d"
  by (simp add: close_index_def)

lemma building_write: "building d0 tmp n d \<Longrightarrow> building d0 tmp n (write_file n f d)"
  using spared_write [of d0 "scratch_names tmp" d n f] by (simp add: building_def write_file_def)

lemma building_create: "building d0 tmp n d \<Longrightarrow> p \<in> {tmp @ ''-wal'', tmp @ ''-shm''} \<Longrightarrow> gget (dk_files d) n \<noteq> None \<Longrightarrow>
    building d0 tmp n (create_file p f d) \<and> gget (dk_files (create_file p f d)) n = gget (dk_files d) n"
  using spared_create [of d0 "scratch_names tmp" d p f] new_number_new [of d]
  by (auto simp: building_def scratch_names_def create_file_def Let_def)

lemma building_open:
  assumes "building d0 tmp n d" "gget (dk_files d) n = Some Empty_file" "Open io tmp d = (d', Inr m)"
  shows "m = n" "building d0 tmp n d'" "gget (dk_files d') n = Some (Database True None)"
proof -
  let ?d1 = "write_file n (Database True (tables_at d n)) d"
  let ?d2 = "create_file (tmp @ ''-wal'') Foreign_file ?d1"
  let ?d3 = "create_file (tmp @ ''-shm'') Foreign_file ?d2"
  have n: "gget (dk_names d) tmp = Some n" using assms(1) by (simp add: building_def)
  have t: "tables_at d n = None" using assms(2) by (simp add: tables_at_def)
  have o: "d' = ?d3" "m = n" using assms(3) n by (auto simp: Open_def Let_def sidecars_def gget_or_def split: if_splits)
  have d1: "building d0 tmp n ?d1" "gget (dk_files ?d1) n = Some (Database True None)"
    using building_write [OF assms(1)] t by (simp_all add: write_file_def)
  have d2: "building d0 tmp n ?d2" "gget (dk_files ?d2) n = Some (Database True None)"
    using building_create [OF d1(1), of "tmp @ ''-wal''"] d1(2) by simp_all
  have d3: "building d0 tmp n ?d3" "gget (dk_files ?d3) n = Some (Database True None)"
    using building_create [OF d2(1), of "tmp @ ''-shm''"] d2(2) by simp_all
  show "m = n" "building d0 tmp n d'" "gget (dk_files d') n = Some (Database True None)" using o d3 by simp_all
qed

lemma building_seal:
  assumes "building d0 tmp n d" "SealForReading io tmp d = (d', r)"
  shows "building d0 tmp n d'" "r = Inr () \<Longrightarrow> gget (dk_files d') n = Some (Database False (tables_at d n))"
proof -
  have n: "gget (dk_names d) tmp = Some n" using assms(1) by (simp add: building_def)
  have *: "d' = d \<and> r \<noteq> Inr () \<or> d' = fold remove_file (sidecars tmp) (write_file n (Database False (tables_at d n)) d)"
    using assms(2) n by (auto simp: SealForReading_def gget_or_def Let_def split: if_splits option.splits)
  show "building d0 tmp n d'"
    using * assms(1) building_sidecars [OF building_write [OF assms(1)]] by auto
  show "r = Inr () \<Longrightarrow> gget (dk_files d') n = Some (Database False (tables_at d n))"
    using * by (auto simp: write_file_def)
qed


section \<open>What is written\<close>

lemma tables_put [simp]: "tables_at (put_index n t d) n = Some t" "the_index (put_index n t d) n = t"
  by (simp_all add: tables_at_def put_index_def write_file_def the_index_def)

lemma pass_Inr:
  "pass n err get put f d = (d', Inr x) \<longleftrightarrow>
     (\<exists>t. f (get (the_index d n)) = (t, Inr x) \<and> d' = put_index n (put t (the_index d n)) d)"
  by (auto simp: pass_def split: prod.splits sum.splits)

lemma stamp_all_Inr:
  "tables_at d n = Some ix \<Longrightarrow> stamp_all env n kvs d = (d', Inr u) \<Longrightarrow>
     tables_at d' n = Some (ix\<lparr>ix_meta := fold (\<lambda>(k, v). gput k v) kvs (ix_meta ix)\<rparr>)"
proof (induction kvs arbitrary: d ix)
  case (Cons kv kvs)
  have t: "the_index d n = ix" using Cons.prems(1) by (simp add: the_index_def)
  show ?case
    using Cons.IH [of "put_index n (ix\<lparr>ix_meta := gput (fst kv) (snd kv) (ix_meta ix)\<rparr>) d"] Cons.prems(2) t
    by (auto simp: case_prod_beta split: if_splits)
qed simp

text \<open>The index after the passes, from the results of the passes.\<close>

lemma fill_index_Inr:
  assumes "fill_index env bdir proot opts intro bd n d = (d', Inr (sm, ds, ls, ss))"
  obtains pr h1 dw h2 h3 bl where "NewPathResolver (ev_cwd env) bdir proot = Inr pr"
    "Compiler (ev_compiler env) (ev_dumps env) fresh_hbr bd pr = (h1, Inr sm)"
    "DWARF (ev_dwarf env) (ev_objects env) ((ix_dwarf fresh_index)\<lparr>dd_hbr := h1\<rparr>) bd pr (sm_IDByUSR sm) = (dw, Inr ds)"
    "\<exists>ids. Targets (ev_targets env) (dd_hbr dw) intro pr = (h2, Inr ids) \<and>
       Link (ev_link env) (ev_link_io env) h2 bd intro ids (sm_ObjectToSource sm) = (h3, Inr ls)"
    "Sources (ev_hex env) (ev_enc env) (ev_sources env) (ix_blobs fresh_index) bd intro pr opts = (bl, Inr ss)"
    "tables_at d' n = Some \<lparr>ix_meta = fold (\<lambda>(k, v). gput k v) (stamps env intro proot) [(''schema_version'', SchemaVersion)],
       ix_dwarf = dw\<lparr>dd_hbr := h3\<rparr>, ix_blobs = bl\<rparr>"
proof -
  let ?m = "fold (\<lambda>(k, v). gput k v) (stamps env intro proot) [(''schema_version'', SchemaVersion)]"
  let ?ix = "fresh_index\<lparr>ix_meta := ?m\<rparr>"
  obtain d1 d2 pr where d1: "stored (Init (ev_store env) n) d = (d1, Inr ())"
    and d2: "stamp_all env n (stamps env intro proot) d1 = (d2, Inr ())"
    and pr: "NewPathResolver (ev_cwd env) bdir proot = Inr pr"
    and rest: "cbind (pass n K_compiler get_hbr put_hbr (\<lambda>h. Compiler (ev_compiler env) (ev_dumps env) h bd pr)) (\<lambda>sm.
     cbind (pass n K_dwarf ix_dwarf (\<lambda>t ix. ix\<lparr>ix_dwarf := t\<rparr>) (\<lambda>t. DWARF (ev_dwarf env) (ev_objects env) t bd pr (sm_IDByUSR sm))) (\<lambda>dwarfSum.
     cbind (pass n K_targets get_hbr put_hbr (\<lambda>h. Targets (ev_targets env) h intro pr)) (\<lambda>targetIDs.
     cbind (pass n K_link get_hbr put_hbr
       (\<lambda>h. Link (ev_link env) (ev_link_io env) h bd intro targetIDs (sm_ObjectToSource sm))) (\<lambda>linkSum.
     cbind (pass n K_sources ix_blobs (\<lambda>t ix. ix\<lparr>ix_blobs := t\<rparr>)
       (\<lambda>t. Sources (ev_hex env) (ev_enc env) (ev_sources env) t bd intro pr opts)) (\<lambda>srcSum d.
       (d, Inr (sm, dwarfSum, linkSum, srcSum))))))) d2 = (d', Inr (sm, ds, ls, ss))"
    using assms unfolding fill_index_def cbind_Inr [where m = "stored _"] cbind_Inr [where m = "stamp_all _ _ _"]
      cbind_Inr [where m = "pure _ _"]
    by (auto simp: pure_def split: sum.splits)
  have t1: "tables_at d1 n = Some (fresh_index\<lparr>ix_meta := [(''schema_version'', SchemaVersion)]\<rparr>)"
    using d1 by (auto simp: stored_def Init_def tables_at_def write_file_def split: if_splits)
  have t2: "the_index d2 n = ?ix" using stamp_all_Inr [OF t1 d2] by (simp add: the_index_def)
  have g: "get_hbr ?ix = fresh_hbr" "ix_blobs ?ix = ix_blobs fresh_index" "ix_dwarf ?ix = ix_dwarf fresh_index"
    by (simp_all add: get_hbr_def fresh_index_def)
  show thesis using rest unfolding cbind_Inr pass_Inr
    by (elim exE conjE, intro that [of pr]) (auto simp: t2 g pr get_hbr_def put_hbr_def fresh_index_def)
qed

section \<open>Integrity of the whole index\<close>

definition index_ok :: "(string \<Rightarrow> string) \<Rightarrow> (string \<Rightarrow> string) \<Rightarrow> index \<Rightarrow> bool" where
  "index_ok hex_sum enc ix \<longleftrightarrow>
     dwarf_ok (ix_dwarf ix) \<and> blobs_ok hex_sum enc (ix_blobs ix) \<and> rows_ok (ix_blobs ix) \<and>
     gget (ix_meta ix) ''schema_version'' = Some SchemaVersion"

lemma fill_index_ok:
  assumes "fill_index env bdir proot opts intro bd n d = (d', Inr res)"
  shows "\<exists>ix. tables_at d' n = Some ix \<and> index_ok (ev_hex env) (ev_enc env) ix \<and> gget (ix_meta ix) ''indexed_at'' = Some (ev_now env)"
proof -
  obtain sm ds ls ss where res: "res = (sm, ds, ls, ss)" by (cases res)
  obtain pr h1 dw h2 h3 bl ids where c: "Compiler (ev_compiler env) (ev_dumps env) fresh_hbr bd pr = (h1, Inr sm)"
    and w: "DWARF (ev_dwarf env) (ev_objects env) ((ix_dwarf fresh_index)\<lparr>dd_hbr := h1\<rparr>) bd pr (sm_IDByUSR sm) = (dw, Inr ds)"
    and t: "Targets (ev_targets env) (dd_hbr dw) intro pr = (h2, Inr ids)"
    and l: "Link (ev_link env) (ev_link_io env) h2 bd intro ids (sm_ObjectToSource sm) = (h3, Inr ls)"
    and src: "Sources (ev_hex env) (ev_enc env) (ev_sources env) (ix_blobs fresh_index) bd intro pr opts = (bl, Inr ss)"
    and tab: "tables_at d' n = Some \<lparr>ix_meta = fold (\<lambda>(k, v). gput k v) (stamps env intro proot) [(''schema_version'', SchemaVersion)],
       ix_dwarf = dw\<lparr>dd_hbr := h3\<rparr>, ix_blobs = bl\<rparr>"
    by (rule fill_index_Inr [OF assms [unfolded res]]) blast
  obtain tus where wc: "write_compiler (ev_compiler env) fresh_hbr tus (bd_Root bd) pr = Inr (h1, sm)" using Compiler_Inr [OF c] by blast
  have h1: "hbr_ok h1" by (rule write_compiler_keeps [where P = hbr_ok, OF keeps_hbr_ok hbr_ok_fresh wc])
  have d1: "dwarf_ok ((ix_dwarf fresh_index)\<lparr>dd_hbr := h1\<rparr>)" using h1 by (simp add: dwarf_ok_def fresh_index_def)
  have dw: "dwarf_ok dw"
    by (rule write_dwarf_ok [OF d1]) (use w in \<open>auto simp: DWARF_def split: if_splits option.splits sum.splits prod.splits\<close>)
  have it: "\<exists>m. insert_targets (ev_targets env) pr (sort_key tg_Name (in_Targets intro)) (dd_hbr dw) [] = Inr (h2, m)"
    using t by (auto simp: Targets_def split: if_splits sum.splits)
  have sy: "keeps T (\<lambda>h. symbols h = symbols (dd_hbr dw))" if "''symbols'' \<notin> T" for T by (rule keeps_symbols [OF that])
  have h2: "hbr_ok h2" "symbols h2 = symbols (dd_hbr dw)"
  proof -
    from it obtain m where m: "insert_targets (ev_targets env) pr (sort_key tg_Name (in_Targets intro)) (dd_hbr dw) [] = Inr (h2, m)" ..
    show "hbr_ok h2" by (rule insert_targets_keeps [where P = hbr_ok, OF keeps_hbr_ok _ m]) (use dw in \<open>simp add: dwarf_ok_def\<close>)
    show "symbols h2 = symbols (dd_hbr dw)" by (rule insert_targets_keeps [OF sy refl m]) simp
  qed
  have h3: "hbr_ok h3 \<and> symbols h3 = symbols (dd_hbr dw)"
    using l
  proof (rule Link_Inr)
    fix lt assume m: "link_targets (ev_link env) (ev_link_io env) lt ids (sort_key tg_Name (in_Targets intro))
      (h2, \<lparr>ls_LinkResolutions = 0, ls_ObjdumpEdges = 0\<rparr>) = Inr (h3, ls)"
    have "hbr_ok (fst (h3, ls))" by (rule link_targets_keeps [where P = hbr_ok, OF keeps_hbr_ok _ m]) (simp add: h2)
    moreover have "symbols (fst (h3, ls)) = symbols (dd_hbr dw)" by (rule link_targets_keeps [OF sy _ m]) (simp_all add: h2)
    ultimately show ?thesis by simp
  qed
  have d3: "dwarf_ok (dw\<lparr>dd_hbr := h3\<rparr>)" by (rule dwarf_ok_hbr [OF dw]) (simp_all add: h3)
  have bl: "blobs_ok (ev_hex env) (ev_enc env) bl \<and> rows_ok bl"
    by (rule Sources_stores [OF _ _ src]) (simp_all add: fresh_index_def blobs_ok_def rows_ok_def)
  have sv: "gget [(''schema_version'', SchemaVersion)] ''schema_version'' = Some SchemaVersion" by (simp add: gget_def)
  have mt: "gget (fold (\<lambda>(k, v). gput k v) (stamps env intro proot) [(''schema_version'', SchemaVersion)]) ''schema_version'' = Some SchemaVersion"
    "gget (fold (\<lambda>(k, v). gput k v) (stamps env intro proot) [(''schema_version'', SchemaVersion)]) ''indexed_at'' = Some (ev_now env)"
    by (simp_all add: stamps_def sv)
  show ?thesis using tab d3 bl mt by (auto simp: index_ok_def)
qed


section \<open>The run as a whole\<close>

definition collect_out :: "string list \<Rightarrow> string" where
  "collect_out args =
     (case parse_flags collect_flags args no_flags of
        Inl _ \<Rightarrow> ''herbarium.hbr'' | Inr fv \<Rightarrow> gget_or ''herbarium.hbr'' (fv_text fv) ''out'')"

definition collect_replace :: "string list \<Rightarrow> bool" where
  "collect_replace args =
     (case parse_flags collect_flags args no_flags of Inl _ \<Rightarrow> False | Inr fv \<Rightarrow> gget_or False (fv_bool fv) ''replace'')"

text \<open>The outcome of building in the scratch file.\<close>

definition outcome :: "collect_env \<Rightarrow> disk \<Rightarrow> string \<Rightarrow> string \<Rightarrow> disk \<Rightarrow> collect_error + 'a \<Rightarrow> bool" where
  "outcome env d0 out tmp d res \<longleftrightarrow>
     (case res of
        Inl e \<Rightarrow> spared d0 (scratch_names tmp) d
      | Inr x \<Rightarrow> spared d0 (insert out (scratch_names tmp)) d \<and>
          (\<exists>n ix. gget (dk_names d) out = Some n \<and> gget (dk_files d0) n = None \<and>
             gget (dk_files d) n = Some (Database False (Some ix)) \<and> index_ok (ev_hex env) (ev_enc env) ix \<and>
             gget (ix_meta ix) ''indexed_at'' = Some (ev_now env)))"

lemma spared_mono: "spared d0 N d \<Longrightarrow> N \<subseteq> M \<Longrightarrow> spared d0 M d"
  by (auto simp: spared_def)

lemma building_spared: "building d0 tmp n d \<Longrightarrow> spared d0 (scratch_names tmp) d"
  by (simp add: building_def)

lemma finish_outcome:
  assumes b: "building d0 tmp n d" and f: "fill_index env bdir proot opts intro bd n d = (d1, r)" and out: "out \<notin> scratch_names tmp"
    and run: "cbind (fill_index env bdir proot opts intro bd n) (\<lambda>res.
             cbind (\<lambda>d. (close_index (ev_close env) tmp d, if ev_close env then Inr () else Inl K_close)) (\<lambda>_.
             cbind (stored (SealForReading (ev_store env) tmp)) (\<lambda>_ d.
               if ev_rename env then (rename_file tmp out d, Inr res) else (d, Inl K_rename)))) d = (d', res)"
  shows "outcome env d0 out tmp d' res"
proof (cases r)
  case (Inl e)
  have "building d0 tmp n d1" using building_writes [OF b writes_only_fill, of env bdir proot opts intro bd] f by simp
  then show ?thesis using run f Inl by (auto simp: cbind_def outcome_def building_spared)
next
  case (Inr x)
  have b1: "building d0 tmp n d1" using building_writes [OF b writes_only_fill, of env bdir proot opts intro bd] f by simp
  obtain ix where ix: "tables_at d1 n = Some ix" "index_ok (ev_hex env) (ev_enc env) ix" "gget (ix_meta ix) ''indexed_at'' = Some (ev_now env)"
    using fill_index_ok f Inr by blast
  let ?d2 = "close_index (ev_close env) tmp d1"
  have b2: "building d0 tmp n ?d2" by (rule building_close [OF b1])
  have t2: "tables_at ?d2 n = Some ix" using ix(1) by (simp add: tables_at_def)
  obtain d3 u where s: "SealForReading (ev_store env) tmp ?d2 = (d3, u)" by (cases "SealForReading (ev_store env) tmp ?d2")
  note b3 = building_seal(1) [OF b2 s]
  have c: "(d', res) = (if \<not> ev_close env then (?d2, Inl K_close)
      else case u of Inl e \<Rightarrow> (d3, Inl (K_store e))
        | Inr _ \<Rightarrow> if ev_rename env then (rename_file tmp out d3, Inr x) else (d3, Inl K_rename))"
    using run f Inr s by (auto simp: cbind_def stored_def split: sum.splits)
  show ?thesis
  proof (cases "ev_close env \<and> u = Inr () \<and> ev_rename env")
    case True
    have files: "gget (dk_files d3) n = Some (Database False (Some ix))" using building_seal(2) [OF b2 s] True t2 by simp
    have nm: "gget (dk_names d3) tmp = Some n" "gget (dk_files d0) n = None" using b3 by (simp_all add: building_def)
    have d': "d' = d3\<lparr>dk_names := gput out n (gdel tmp (dk_names d3))\<rparr>" "res = Inr x"
      using c True nm by (simp_all add: rename_file_def)
    have "spared d0 (insert out (scratch_names tmp)) d'"
      using building_spared [OF b3] unfolding d' spared_def scratch_names_def by simp
    then show ?thesis using d' files nm ix by (simp add: outcome_def)
  next
    case False
    then have "\<exists>e. res = Inl e \<and> (d' = ?d2 \<or> d' = d3)" using c by (auto split: sum.splits if_splits)
    then show ?thesis using building_spared [OF b2] building_spared [OF b3] by (auto simp: outcome_def)
  qed
qed

lemma outcome_names:
  assumes "outcome env d0 out tmp d res" "out \<notin> scratch_names tmp" "\<And>p. p \<notin> scratch_names tmp \<Longrightarrow> gget (dk_names d') p = gget (dk_names d) p"
    "dk_files d' = dk_files d"
  shows "outcome env d0 out tmp d' res"
  using assms unfolding outcome_def spared_def by (auto split: sum.splits)

lemma names_close [simp]: "p \<notin> scratch_names tmp \<Longrightarrow> gget (dk_names (close_index c tmp d)) p = gget (dk_names d) p"
  by (simp add: close_index_def sidecars_def remove_file_def scratch_names_def)

lemma names_cleanup [simp]: "p \<notin> scratch_names tmp \<Longrightarrow> gget (dk_names (removeIndexFiles env tmp d)) p = gget (dk_names d) p"
  by (simp add: removeIndexFiles_def remove_file_def scratch_names_def)

lemma files_cleanup [simp]: "dk_files (removeIndexFiles env tmp d) = dk_files d"
  by (simp add: removeIndexFiles_def remove_file_def)

lemma build_outcome:
  assumes b: "building d0 tmp n d" "gget (dk_files d) n = Some Empty_file" and out: "out \<notin> scratch_names tmp"
    and run: "with_scratch env tmp (build_index env bdir proot opts intro bd out tmp) d = (d', res)"
  shows "outcome env d0 out tmp d' res"
proof -
  obtain d1 where d1: "build_index env bdir proot opts intro bd out tmp d = (d1, res)" and d': "d' = removeIndexFiles env tmp d1"
    using run by (auto simp: with_scratch_def split: prod.splits)
  obtain d2 r where o: "Open (ev_store env) tmp d = (d2, r)" by (cases "Open (ev_store env) tmp d")
  have "outcome env d0 out tmp d1 res"
  proof (cases r)
    case (Inl e)
    then have "d2 = d" using o by (auto simp: Open_def Let_def split: if_splits)
    then have "d1 = d" "\<exists>e. res = Inl e" using d1 o Inl by (auto simp: build_index_def cbind_def stored_def)
    then show ?thesis using building_spared [OF b(1)] by (auto simp: outcome_def)
  next
    case (Inr m)
    note op = building_open [OF b o [unfolded Inr]]
    let ?run = "cbind (fill_index env bdir proot opts intro bd n) (\<lambda>res.
             cbind (\<lambda>d. (close_index (ev_close env) tmp d, if ev_close env then Inr () else Inl K_close)) (\<lambda>_.
             cbind (stored (SealForReading (ev_store env) tmp)) (\<lambda>_ d.
               if ev_rename env then (rename_file tmp out d, Inr res) else (d, Inl K_rename))))"
    obtain d3 where d3: "?run d2 = (d3, res)" "d1 = close_index (ev_close env) tmp d3"
      using d1 o Inr op(1) by (auto simp: build_index_def cbind_def [of "stored (Open _ _)"] stored_def [of "Open _ _"] split: prod.splits)
    have "outcome env d0 out tmp d3 res"
      by (rule finish_outcome [OF op(2) prod.collapse [symmetric] out d3(1)])
    then show ?thesis using out by (rule outcome_names) (simp_all add: d3(2))
  qed
  then show ?thesis using out by (rule outcome_names) (simp_all add: d')
qed


lemma cleanup_gone:
  "\<forall>p. ev_remove env p \<Longrightarrow> p \<in> scratch_names tmp \<Longrightarrow> gget (dk_names (removeIndexFiles env tmp d)) p = None"
  by (auto simp: removeIndexFiles_def remove_file_def scratch_names_def)

lemma cbind_checks:
  "cbind (pure err r) f d = (case r of Inl e \<Rightarrow> (d, Inl (err e)) | Inr x \<Rightarrow> f x d)"
  "cbind (check e ok) g d = (if ok then g () d else (d, Inl e))"
  "cbind (\<lambda>d. check e (okd d) d) g d = (if okd d then g () d else (d, Inl e))"
  by (auto simp: cbind_def pure_def check_def split: sum.splits)

lemma runCollect_stages:
  assumes "runCollect env args d = (d', res)"
  obtains (early) e where "d' = d" "res = Inl e"
    | (scratch) e where "reserveTempIndex env (collect_out args) d = (d', Inl e)" "res = Inl e"
    | (build) d1 tmp bdir proot opts intro bd where "reserveTempIndex env (collect_out args) d = (d1, Inr tmp)"
        "with_scratch env tmp (build_index env bdir proot opts intro bd (collect_out args) tmp) d1 = (d', res)"
        "ev_stat env \<and> gget (dk_names d) (collect_out args) \<noteq> None \<longrightarrow> collect_replace args"
proof (cases "parse_flags collect_flags args no_flags")
  case (Inl e)
  then show thesis using early [of "K_flags e"] assms by (auto simp: runCollect_def cbind_checks)
next
  case fv: (Inr fv)
  have o: "gget_or ''herbarium.hbr'' (fv_text fv) ''out'' = collect_out args" "gget_or False (fv_bool fv) ''replace'' = collect_replace args"
    by (simp_all add: collect_out_def collect_replace_def fv)
  let ?tail = "\<lambda>intro bd globs. cbind (\<lambda>d. check K_exists (\<not> (ev_stat env \<and> gget (dk_names d) (collect_out args) \<noteq> None \<and> \<not> collect_replace args)) d) (\<lambda>_.
     cbind (reserveTempIndex env (collect_out args)) (\<lambda>tmp.
       with_scratch env tmp
         (build_index env (gget_or [] (fv_text fv) ''builddir'') (gget_or [] (fv_text fv) ''project-root'')
            \<lparr>so_Strict = gget_or False (fv_bool fv) ''strict'', so_ExternalGlobs = globs\<rparr>
            intro bd (collect_out args) tmp))) d"
  consider e where "d' = d" "res = Inl e" | intro bd globs where "?tail intro bd globs = (d', res)"
    using assms unfolding runCollect_def cbind_checks(1) fv sum.case Let_def o
    by (auto simp: cbind_checks(1,2) split: sum.splits if_splits)
  then show thesis
  proof cases
    case 1 then show thesis by (rule early)
  next
    case 2
    show thesis
    proof (cases "ev_stat env \<and> gget (dk_names d) (collect_out args) \<noteq> None \<and> \<not> collect_replace args")
      case True
      then have nn: "\<not> \<not> (ev_stat env \<and> gget (dk_names d) (collect_out args) \<noteq> None \<and> \<not> collect_replace args)" by blast
      have "(d, Inl K_exists) = (d', res)" using 2 unfolding cbind_checks(3) if_not_P [OF nn] .
      then show thesis using early [of K_exists] by simp
    next
      case False
      then have r: "cbind (reserveTempIndex env (collect_out args)) (\<lambda>tmp.
       with_scratch env tmp
         (build_index env (gget_or [] (fv_text fv) ''builddir'') (gget_or [] (fv_text fv) ''project-root'')
            \<lparr>so_Strict = gget_or False (fv_bool fv) ''strict'', so_ExternalGlobs = globs\<rparr>
            intro bd (collect_out args) tmp)) d = (d', res)"
        using 2 by (simp only: cbind_checks(3) not_False_eq_True if_True)
      obtain d1 u where u: "reserveTempIndex env (collect_out args) d = (d1, u)" by (cases "reserveTempIndex env (collect_out args) d")
      show thesis
      proof (cases u)
        case (Inl e) then show thesis using scratch [of e] r u by (simp add: cbind_def)
      next
        case (Inr tmp) then show thesis using build [of d1 tmp] r u False by (auto simp: cbind_def)
      qed
    qed
  qed
qed

text \<open>The effects of a run on the disk.\<close>

lemma collect_effects:
  assumes "runCollect env args d = (d', res)"
  shows "(\<forall>n f. gget (dk_files d) n = Some f \<longrightarrow> gget (dk_files d') n = Some f) \<and>
    (\<forall>p. p \<noteq> collect_out args \<and> \<not> HasPrefix p (scratch_prefix (collect_out args)) \<longrightarrow> gget (dk_names d') p = gget (dk_names d) p) \<and>
    ((\<forall>p. ev_remove env p) \<longrightarrow> (\<forall>p. p \<noteq> collect_out args \<and> gget (dk_names d') p \<noteq> None \<longrightarrow> gget (dk_names d) p \<noteq> None)) \<and>
    (case res of
       Inl e \<Rightarrow> gget (dk_names d') (collect_out args) = gget (dk_names d) (collect_out args)
     | Inr x \<Rightarrow> (ev_stat env \<and> gget (dk_names d) (collect_out args) \<noteq> None \<longrightarrow> collect_replace args) \<and>
         (\<exists>n ix. gget (dk_names d') (collect_out args) = Some n \<and> gget (dk_files d) n = None \<and>
            gget (dk_files d') n = Some (Database False (Some ix)) \<and> index_ok (ev_hex env) (ev_enc env) ix \<and>
            gget (ix_meta ix) ''indexed_at'' = Some (ev_now env)))"
  using assms
proof (cases rule: runCollect_stages)
  case (early e)
  then show ?thesis by simp
next
  case (scratch e)
  have not_out: "scratch_prefix (collect_out args) @ x \<noteq> collect_out args" if "CHR ''/'' \<notin> set x" for x
    by (rule scratch_not_out [OF that])
  from reserve_from_Inl [OF scratch(1) [unfolded reserveTempIndex_def]] show ?thesis
  proof
    assume "d' = d" then show ?thesis using scratch(2) by simp
  next
    assume "\<exists>x. scratch_left env (scratch_prefix (collect_out args)) d x d'"
    then obtain x where "scratch_left env (scratch_prefix (collect_out args)) d x d'" ..
    then show ?thesis using scratch(2) not_out [of x] by (auto simp: scratch_left_def spared_def HasPrefix_iff) (metis option.distinct(1))
  qed
next
  case (build d1 tmp bdir proot opts intro bd)
  let ?out = "collect_out args"
  obtain x where x: "CHR ''/'' \<notin> set x" "tmp = scratch_prefix ?out @ x" "gget (dk_names d) tmp = None" "d1 = create_file tmp Empty_file d"
    using reserve_from_Inr [OF build(1) [unfolded reserveTempIndex_def]] by blast
  have out: "?out \<notin> scratch_names tmp"
    using scratch_not_out [of x ?out] scratch_not_out [of "x @ ''-wal''" ?out] scratch_not_out [of "x @ ''-shm''" ?out] x(1,2)
    by (auto simp: scratch_names_def)
  have pre: "HasPrefix p (scratch_prefix ?out)" if "p \<in> scratch_names tmp" for p
    using that x(2) by (auto simp: scratch_names_def HasPrefix_iff)
  have b: "building d tmp (new_number d) d1" "gget (dk_files d1) (new_number d) = Some Empty_file"
    using x(4) spared_create [of d "scratch_names tmp" d tmp Empty_file]
    by (simp_all add: building_def create_file_def Let_def scratch_names_def)
  note oc = build_outcome [OF b out build(2)]
  have gone: "gget (dk_names d') p = None" if "\<forall>p. ev_remove env p" "p \<in> scratch_names tmp" for p
  proof -
    obtain d2 where "d' = removeIndexFiles env tmp d2" using build(2) by (auto simp: with_scratch_def split: prod.splits)
    then show ?thesis using cleanup_gone [OF that] by simp
  qed
  have sp: "spared d (insert ?out (scratch_names tmp)) d'"
    using oc by (auto simp: outcome_def intro: spared_mono split: sum.splits)
  have 1: "\<forall>n f. gget (dk_files d) n = Some f \<longrightarrow> gget (dk_files d') n = Some f" using sp by (simp add: spared_def)
  have 2: "\<forall>p. p \<noteq> ?out \<and> \<not> HasPrefix p (scratch_prefix ?out) \<longrightarrow> gget (dk_names d') p = gget (dk_names d) p"
    using sp pre by (auto simp: spared_def)
  have 3: "(\<forall>p. ev_remove env p) \<longrightarrow> (\<forall>p. p \<noteq> ?out \<and> gget (dk_names d') p \<noteq> None \<longrightarrow> gget (dk_names d) p \<noteq> None)"
    using sp gone unfolding spared_def by (metis insert_iff)
  have 4: "case res of
       Inl e \<Rightarrow> gget (dk_names d') ?out = gget (dk_names d) ?out
     | Inr x \<Rightarrow> (ev_stat env \<and> gget (dk_names d) ?out \<noteq> None \<longrightarrow> collect_replace args) \<and>
         (\<exists>n ix. gget (dk_names d') ?out = Some n \<and> gget (dk_files d) n = None \<and>
            gget (dk_files d') n = Some (Database False (Some ix)) \<and> index_ok (ev_hex env) (ev_enc env) ix \<and>
            gget (ix_meta ix) ''indexed_at'' = Some (ev_now env))"
    using oc build(3) out by (auto simp: outcome_def spared_def split: sum.splits)
  show ?thesis by (intro conjI 1 2 3 4)
qed


text \<open>
  C1 A run of \<^verbatim>\<open>collect\<close> as seen from outside. No file that existed is changed, so a server that has the old index open
  goes on reading it. Names other than that of the index and of the scratch files keep their files, and if files can
  be removed no new name remains. A run that fails leaves the name of the index where it was: no index,
  or the old one. A run that succeeds, which over an existing file needs \<^verbatim>\<open>--replace\<close>, gives the name to a new file, out of WAL mode,
  with an index whose keys are unique, whose references lead to rows, whose blobs hold what their hash says and whose
  schema version is the one served.
\<close>

theorem collect_atomic:
  assumes "runCollect env args d = (d', res)"
  shows "(\<forall>n f. gget (dk_files d) n = Some f \<longrightarrow> gget (dk_files d') n = Some f) \<and>
    (\<forall>p. p \<noteq> collect_out args \<and> \<not> HasPrefix p (scratch_prefix (collect_out args)) \<longrightarrow> gget (dk_names d') p = gget (dk_names d) p) \<and>
    ((\<forall>p. ev_remove env p) \<longrightarrow> (\<forall>p. p \<noteq> collect_out args \<and> gget (dk_names d') p \<noteq> None \<longrightarrow> gget (dk_names d) p \<noteq> None)) \<and>
    (case res of
       Inl e \<Rightarrow> gget (dk_names d') (collect_out args) = gget (dk_names d) (collect_out args)
     | Inr x \<Rightarrow> (ev_stat env \<and> gget (dk_names d) (collect_out args) \<noteq> None \<longrightarrow> collect_replace args) \<and>
         (\<exists>n ix. gget (dk_names d') (collect_out args) = Some n \<and> gget (dk_files d) n = None \<and>
            gget (dk_files d') n = Some (Database False (Some ix)) \<and> index_ok (ev_hex env) (ev_enc env) ix \<and>
            gget (ix_meta ix) ''indexed_at'' = Some (ev_now env)))"
  by (rule collect_effects [OF assms])

section \<open>A sample run\<close>

definition sample_json :: "string \<Rightarrow> json option option" where
  "sample_json f = Some (Some (
     if f = ''intro-compilers.json'' then JObj [(''host'', JObj [(''c'', JObj [(''version'', JStr ''13.2.0'')])])]
     else if f = ''meson-info.json'' then JObj [(''meson_version'', JObj [(''full'', JStr ''1.4.0'')]), (''directories'', JObj [])]
     else JArr []))"

definition sample_node :: node where
  "sample_node = Dir_node [(''a.c.o'', File), (''a.c.ci'', File), (''a.c.0i.cgraph'', File), (''a.c.c.opt-record.json.gz'', File)]"

definition sample_dumps :: dump_files where
  "sample_dumps = \<lparr>dump_text = (\<lambda>_. Some []),
     dump_json = (\<lambda>_. Some (Some (JArr [JObj [(''format'', JStr ''1'')], JArr [], JArr []])))\<rparr>"

definition all_store :: store_io where
  "all_store = \<lparr>sx_open = True, sx_ping = True, sx_probe = True, sx_schema = True, sx_stamp = True, sx_seal_open = True,
     sx_seal_mode = Some ''DELETE'', sx_seal_close = True\<rparr>"

definition sample_collect_env :: collect_env where
  "sample_collect_env = \<lparr>ev_version = ''dev'', ev_cwd = Some ''/'', ev_info_dir = True, ev_json = sample_json, ev_tree = Some sample_node,
     ev_quote = id, ev_elf = (\<lambda>_. Inr [''.debug_info'']), ev_stat = True, ev_random = (\<lambda>a. word_of_int (a + 71)), ev_create = (\<lambda>_. True), ev_created = (\<lambda>_. True),
     ev_remove = (\<lambda>_. True), ev_store = all_store, ev_meta = (\<lambda>_. True), ev_now = ''2025'', ev_compiler = working, ev_dumps = sample_dumps,
     ev_dwarf = dwarf_working, ev_objects = (\<lambda>_. \<lparr>of_elf = Some table_elf, of_dwarf = Some \<lparr>dw_entries = [], dw_stray = []\<rparr>, of_clean = True, of_lines = (\<lambda>_. None)\<rparr>), ev_targets = working, ev_link = working,
     ev_link_io = \<lparr>li_query = True, li_order = (\<lambda>i. i), li_scan = (\<lambda>_. True), li_rows = True, li_nm = (\<lambda>_. Some []), li_map = (\<lambda>_. None),
       li_objdump = (\<lambda>_. Some ([], True))\<rparr>,
     ev_hex = id, ev_enc = id, ev_sources = no_log_env, ev_close = True, ev_rename = True\<rparr>"

definition sample_disk :: disk where
  "sample_disk = \<lparr>dk_names = [(''/o/app.hbr'', 1), (''/o/.app.hbr.tmp-1z'', 2)], dk_files = [(1, Database False (Some fresh_index)), (2, Foreign_file)]\<rparr>"

definition sample_args :: "string list" where
  "sample_args = [''--builddir=/b'', ''--project-root'', ''/p'', ''--out'', ''/o/app.hbr'', ''-replace'']"


definition sample_fv :: flag_values where
  "sample_fv = \<lparr>fv_text = [(''builddir'', ''/b''), (''project-root'', ''/p''), (''out'', ''/o/app.hbr'')], fv_bool = [(''replace'', True)], fv_list = []\<rparr>"

definition sample_ci :: Introspection where
  "sample_ci = (case Load True sample_json of Inr i \<Rightarrow> i | Inl _ \<Rightarrow> three_targets)"

definition sample_crawl :: BuildDir where
  "sample_crawl = \<lparr>bd_Root = ''/b'', bd_Objects = [\<lparr>oa_Object = ''/b/a.c.o'', oa_CI = ''/b/a.c.ci'', oa_Cgraph = ''/b/a.c.0i.cgraph'', oa_Inline = [],
     oa_ICF = [], oa_OptRecord = ''/b/a.c.c.opt-record.json.gz'', oa_Preprocessed = []\<rparr>], bd_LinkerMaps = []\<rparr>"


definition sample_paths :: PathResolver where
  "sample_paths = \<lparr>pr_BuildDir = ''/b'', pr_ProjectRoot = ''/p''\<rparr>"

definition succeeds :: "'s \<times> ('e + 'a) \<Rightarrow> bool" where
  "succeeds r = (case snd r of Inr _ \<Rightarrow> True | Inl _ \<Rightarrow> False)"

lemma succeedsE: "succeeds r \<Longrightarrow> (\<And>s x. r = (s, Inr x) \<Longrightarrow> P) \<Longrightarrow> P"
  by (cases r) (auto simp: succeeds_def split: sum.splits)

definition sample_h1 :: "hbr \<times> (compiler_error + Summary)" where
  "sample_h1 = Compiler working sample_dumps fresh_hbr sample_crawl sample_paths"

definition sample_sm :: Summary where
  "sample_sm = projr (snd sample_h1)"

definition sample_dw :: "dwarf_db \<times> (dwarf_pass_error + DwarfSummary)" where
  "sample_dw = DWARF dwarf_working (ev_objects sample_collect_env) ((ix_dwarf fresh_index)\<lparr>dd_hbr := fresh_hbr\<rparr>) sample_crawl sample_paths []"

definition sample_h2 :: "hbr \<times> (targets_error + (string, int) gomap)" where
  "sample_h2 = Targets working fresh_hbr sample_ci sample_paths"

definition sample_h3 :: "hbr \<times> (link_error + LinkSummary)" where
  "sample_h3 = Link working (ev_link_io sample_collect_env) fresh_hbr sample_crawl sample_ci [] []"

definition sample_bl :: "blob_db \<times> (sources_error + SourcesSummary)" where
  "sample_bl = Sources id id no_log_env (ix_blobs fresh_index) sample_crawl sample_ci sample_paths \<lparr>so_Strict = False, so_ExternalGlobs = []\<rparr>"

lemma sample_values:
  "(succeeds sample_h1 \<and> succeeds sample_dw \<and> succeeds sample_h2 \<and> succeeds sample_h3 \<and> succeeds sample_bl) \<and>
   fst sample_h1 = fresh_hbr \<and> sm_IDByUSR sample_sm = [] \<and> sm_ObjectToSource sample_sm = [] \<and>
   dd_hbr (fst sample_dw) = fresh_hbr \<and> fst sample_h2 = fresh_hbr \<and> projr (snd sample_h2) = []"
  by code_simp

lemmas sample_parts = sample_values [THEN conjunct1, THEN conjunct1] sample_values [THEN conjunct1, THEN conjunct2, THEN conjunct1]
  sample_values [THEN conjunct1, THEN conjunct2, THEN conjunct2, THEN conjunct1]
  sample_values [THEN conjunct1, THEN conjunct2, THEN conjunct2, THEN conjunct2, THEN conjunct1]
  sample_values [THEN conjunct1, THEN conjunct2, THEN conjunct2, THEN conjunct2, THEN conjunct2]

lemmas sample_empty = sample_values [THEN conjunct2]

lemma succeeds_eq: "succeeds r \<Longrightarrow> r = (fst r, Inr (projr (snd r)))"
  by (cases r) (auto simp: succeeds_def split: sum.splits)

lemma pass_succeeds:
  "f (get (the_index d n)) = r \<Longrightarrow> succeeds r \<Longrightarrow>
     pass n err get put f d = (put_index n (put (fst r) (the_index d n)) d, Inr (projr (snd r)))"
  using succeeds_eq [of r] by (auto simp: pass_def split: prod.splits sum.splits)

lemma stamp_all_works:
  "(\<And>k. ev_meta env k) \<Longrightarrow> tables_at d n = Some ix \<Longrightarrow>
     \<exists>d'. stamp_all env n kvs d = (d', Inr ()) \<and> tables_at d' n = Some (ix\<lparr>ix_meta := fold (\<lambda>(k, v). gput k v) kvs (ix_meta ix)\<rparr>)"
proof (induction kvs arbitrary: d ix)
  case (Cons kv kvs)
  have t: "the_index d n = ix" using Cons.prems(2) by (simp add: the_index_def)
  show ?case
    using Cons.IH [of "put_index n (ix\<lparr>ix_meta := gput (fst kv) (snd kv) (ix_meta ix)\<rparr>) d" "ix\<lparr>ix_meta := gput (fst kv) (snd kv) (ix_meta ix)\<rparr>"]
      Cons.prems(1) t by (simp add: case_prod_beta)
qed simp

lemma sample_fill:
  assumes "tables_at d n = None"
  shows "\<exists>d' r. fill_index sample_collect_env ''/b'' ''/p'' \<lparr>so_Strict = False, so_ExternalGlobs = []\<rparr> sample_ci sample_crawl n d = (d', Inr r)"
proof -
  let ?env = sample_collect_env
  have st: "\<exists>d1. stored (Init (ev_store ?env) n) d = (d1, Inr ()) \<and> tables_at d1 n = Some (fresh_index\<lparr>ix_meta := [(''schema_version'', SchemaVersion)]\<rparr>)"
    using assms by (simp add: stored_def Init_def sample_collect_env_def all_store_def tables_at_def write_file_def)
  then obtain d1 where d1: "stored (Init (ev_store ?env) n) d = (d1, Inr ())"
    "tables_at d1 n = Some (fresh_index\<lparr>ix_meta := [(''schema_version'', SchemaVersion)]\<rparr>)" by blast
  obtain d2 m where d2: "stamp_all ?env n (stamps ?env sample_ci ''/p'') d1 = (d2, Inr ())" "tables_at d2 n = Some (fresh_index\<lparr>ix_meta := m\<rparr>)"
    using stamp_all_works [of ?env d1 n _ "stamps ?env sample_ci ''/p''", OF _ d1(2)] by (auto simp: sample_collect_env_def)
  have pr: "NewPathResolver (ev_cwd ?env) ''/b'' ''/p'' = Inr sample_paths" by code_simp
  have t2: "the_index d2 n = fresh_index\<lparr>ix_meta := m\<rparr>" using d2(2) by (simp add: the_index_def)
  have env: "ev_compiler ?env = working" "ev_dumps ?env = sample_dumps" "ev_dwarf ?env = dwarf_working" "ev_targets ?env = working"
    "ev_link ?env = working" "ev_hex ?env = id" "ev_enc ?env = id" "ev_sources ?env = no_log_env"
    by (simp_all add: sample_collect_env_def)
  note parts = sample_parts [THEN succeeds_eq]
  have g: "get_hbr (fresh_index\<lparr>ix_meta := m\<rparr>) = fresh_hbr" by (simp add: get_hbr_def fresh_index_def)
  have p1: "Compiler working sample_dumps fresh_hbr sample_crawl sample_paths = (fst sample_h1, Inr sample_sm)"
    using parts(1) by (simp only: sample_sm_def sample_h1_def [symmetric])
  have p2: "DWARF dwarf_working (ev_objects ?env) ((ix_dwarf fresh_index)\<lparr>dd_hbr := fst sample_h1\<rparr>) sample_crawl sample_paths (sm_IDByUSR sample_sm)
      = (fst sample_dw, Inr (projr (snd sample_dw)))" using parts(2) by (simp only: sample_dw_def [symmetric] sample_empty)
  have p3: "Targets working (dd_hbr (fst sample_dw)) sample_ci sample_paths = (fst sample_h2, Inr (projr (snd sample_h2)))"
    using parts(3) by (simp only: sample_h2_def [symmetric] sample_empty)
  have p4: "Link working (ev_link_io ?env) (fst sample_h2) sample_crawl sample_ci (projr (snd sample_h2)) (sm_ObjectToSource sample_sm)
      = (fst sample_h3, Inr (projr (snd sample_h3)))" using parts(4) by (simp only: sample_h3_def [symmetric] sample_empty)
  have p5: "Sources id id no_log_env (ix_blobs fresh_index) sample_crawl sample_ci sample_paths \<lparr>so_Strict = False, so_ExternalGlobs = []\<rparr>
      = (fst sample_bl, Inr (projr (snd sample_bl)))" using parts(5) by (simp only: sample_bl_def [symmetric])
  have c1: "cbind (pass n K_compiler get_hbr put_hbr (\<lambda>h. Compiler working sample_dumps h sample_crawl sample_paths)) f d2 =
      f sample_sm (put_index n (put_hbr (fst sample_h1) (fresh_index\<lparr>ix_meta := m\<rparr>)) d2)" for f :: "Summary \<Rightarrow> collected act"
    by (simp add: cbind_def pass_def t2 g p1)
  show ?thesis
    unfolding fill_index_def cbind_def [of "stored _"] d1(1) prod.case sum.case cbind_def [of "stamp_all _ _ _"] d2(1)
      cbind_checks(1) pr env c1
    by (simp add: cbind_def pass_def get_hbr_def put_hbr_def p2 p3 p4 p5)
qed

lemma sample_before:
  "parse_flags collect_flags sample_args no_flags = Inr sample_fv \<and> Load True sample_json = Inr sample_ci \<and>
   Crawl (Some ''/'') ''/b'' (Some sample_node) = Inr sample_crawl \<and>
   rp_Ok (Check id (\<lambda>_. Inr [''.debug_info'']) sample_ci sample_crawl) \<and>
   reserveTempIndex sample_collect_env ''/o/app.hbr'' sample_disk =
     (create_file ''/o/.app.hbr.tmp-20'' Empty_file sample_disk, Inr ''/o/.app.hbr.tmp-20'')"
  by code_simp

lemmas sample_stages = sample_before [THEN conjunct1] sample_before [THEN conjunct2, THEN conjunct1]
  sample_before [THEN conjunct2, THEN conjunct2, THEN conjunct1] sample_before [THEN conjunct2, THEN conjunct2, THEN conjunct2, THEN conjunct1]

lemmas sample_scratch = sample_before [THEN conjunct2, THEN conjunct2, THEN conjunct2, THEN conjunct2]

lemma sample_build:
  "\<exists>d' r. build_index sample_collect_env ''/b'' ''/p'' \<lparr>so_Strict = False, so_ExternalGlobs = []\<rparr> sample_ci sample_crawl
     ''/o/app.hbr'' ''/o/.app.hbr.tmp-20'' (create_file ''/o/.app.hbr.tmp-20'' Empty_file sample_disk) = (d', Inr r)"
proof -
  let ?env = sample_collect_env and ?tmp = "''/o/.app.hbr.tmp-20''" and ?o = "\<lparr>so_Strict = False, so_ExternalGlobs = []\<rparr>"
  let ?d = "create_file ?tmp Empty_file sample_disk"
  obtain d2 where o: "Open (ev_store ?env) ?tmp ?d = (d2, Inr 3)" "tables_at d2 3 = None"
  proof -
    have "snd (Open (ev_store ?env) ?tmp ?d) = Inr 3 \<and> tables_at (fst (Open (ev_store ?env) ?tmp ?d)) 3 = None" by code_simp
    then show thesis using that [of "fst (Open (ev_store ?env) ?tmp ?d)"] by (cases "Open (ev_store ?env) ?tmp ?d") simp
  qed
  obtain d3 r where f: "fill_index ?env ''/b'' ''/p'' ?o sample_ci sample_crawl 3 d2 = (d3, Inr r)" using sample_fill [OF o(2)] by blast
  have env: "ev_close ?env" "ev_rename ?env" by (simp_all add: sample_collect_env_def)
  have "\<exists>d4. SealForReading (ev_store ?env) ?tmp (close_index True ?tmp d3) = (d4, Inr ())"
  proof -
    have "map lower ''DELETE'' = ''delete''" by code_simp
    then show ?thesis by (simp add: SealForReading_def sample_collect_env_def all_store_def Let_def)
  qed
  then show ?thesis
    by (cases r) (auto simp: build_index_def cbind_def [of "stored (Open _ _)"] stored_def [of "Open _ _"] o cbind_def [of "fill_index _ _ _ _ _ _ _"] f
      cbind_def [of "stored (SealForReading _ _)"] stored_def [of "SealForReading _ _"] cbind_def env)
qed

lemma sample_run: "\<exists>d' r. runCollect sample_collect_env sample_args sample_disk = (d', Inr r)"
proof -
  have fv: "gget_or [] (fv_list sample_fv) ''include-external'' = []" "gget_or [] (fv_text sample_fv) ''builddir'' = ''/b''"
    "gget_or [] (fv_text sample_fv) ''project-root'' = ''/p''" "gget_or ''herbarium.hbr'' (fv_text sample_fv) ''out'' = ''/o/app.hbr''"
    "gget_or [] (fv_list sample_fv) ''target'' = []" "gget_or False (fv_bool sample_fv) ''replace'' = True"
    "gget_or False (fv_bool sample_fv) ''strict'' = False" by (simp_all add: sample_fv_def gget_or_def gget_def)
  have ft: "filterTargets sample_ci [] = Inr sample_ci" by (simp add: filterTargets_def wanted_targets_def)
  have env: "ev_info_dir sample_collect_env = True" "ev_json sample_collect_env = sample_json" "ev_cwd sample_collect_env = Some ''/''"
    "ev_tree sample_collect_env = Some sample_node" "ev_quote sample_collect_env = id" "ev_elf sample_collect_env = (\<lambda>_. Inr [''.debug_info''])"
    by (simp_all add: sample_collect_env_def)
  obtain d' r where b: "build_index sample_collect_env ''/b'' ''/p'' \<lparr>so_Strict = False, so_ExternalGlobs = []\<rparr> sample_ci sample_crawl
     ''/o/app.hbr'' ''/o/.app.hbr.tmp-20'' (create_file ''/o/.app.hbr.tmp-20'' Empty_file sample_disk) = (d', Inr r)"
    using sample_build by blast
  have "runCollect sample_collect_env sample_args sample_disk = (removeIndexFiles sample_collect_env ''/o/.app.hbr.tmp-20'' d', Inr r)"
    unfolding runCollect_def cbind_checks(1) sample_stages(1) sum.case fv parse_globs.simps Let_def cbind_checks(2) env sample_stages(2,3) ft
    by (simp add: cbind_checks sample_stages(4) cbind_def [of "reserveTempIndex _ _"] sample_scratch with_scratch_def b)
  then show ?thesis by blast
qed

theorem collect_atomic_witness:
  "\<exists>d' r n ix. runCollect sample_collect_env sample_args sample_disk = (d', Inr r) \<and>
     gget (dk_names d') ''/o/app.hbr'' = Some n \<and> gget (dk_files sample_disk) n = None \<and>
     gget (dk_files d') 1 = Some (Database False (Some fresh_index)) \<and>
     gget (dk_files d') n = Some (Database False (Some ix)) \<and> index_ok id id ix \<and> gget (ix_meta ix) ''indexed_at'' = Some ''2025''"
proof -
  obtain d' r where run: "runCollect sample_collect_env sample_args sample_disk = (d', Inr r)" using sample_run by blast
  have out: "collect_out sample_args = ''/o/app.hbr''" by code_simp
  have old: "gget (dk_files sample_disk) 1 = Some (Database False (Some fresh_index))" by (simp add: sample_disk_def gget_def)
  have env: "ev_hex sample_collect_env = id" "ev_enc sample_collect_env = id" "ev_now sample_collect_env = ''2025''"
    by (simp_all add: sample_collect_env_def)
  note c = collect_atomic [OF run, unfolded out env sum.case]
  have kept: "gget (dk_files d') 1 = Some (Database False (Some fresh_index))" using conjunct1 [OF c] old by blast
  obtain n ix where "gget (dk_names d') ''/o/app.hbr'' = Some n" "gget (dk_files sample_disk) n = None"
    "gget (dk_files d') n = Some (Database False (Some ix))" "index_ok id id ix" "gget (ix_meta ix) ''indexed_at'' = Some ''2025''"
    using conjunct2 [OF conjunct2 [OF conjunct2 [OF conjunct2 [OF c]]]] by (elim exE conjE) (rule that)
  then show ?thesis using run kept by (intro exI conjI)
qed

end
