(* ===== verification/Mcp_Common.thy ===== *)
theory Mcp_Common
  imports Store_Index
begin

text \<open>
  What the query tools of \<^verbatim>\<open>src/internal/mcp\<close> share: the identity payload of a symbol, the lookups by USR and
  by target name, the reachability view, row limits, and the clipping of source lines. A query is a comprehension
  over the tables of the index; \<^verbatim>\<open>ORDER BY\<close> is a stable sort of the rows in table order. Whether the engine
  answers a query is an argument, by the name the code gives the query in its error message. A tool returns
  its response record or the error it reports.
\<close>

section \<open>Errors and arguments\<close>

datatype tool_error =
    E_missing string
  | E_unknown_symbol string
  | E_unknown_target string
  | E_query string
  | E_message string

type_synonym 'a tool_result = "(tool_error, 'a) result"

text \<open>\<^verbatim>\<open>RequireString\<close> of the request.\<close>

definition require :: "string \<Rightarrow> string option \<Rightarrow> string tool_result" where
  "require name v = (case v of None \<Rightarrow> Inl (E_missing name) | Some s \<Rightarrow> Inr s)"

text \<open>A query that the engine answers.\<close>

definition run_query :: "(string \<Rightarrow> bool) \<Rightarrow> string \<Rightarrow> 'a \<Rightarrow> 'a tool_result" where
  "run_query ok name rows = (if ok name then Inr rows else Inl (E_query name))"

definition clampRange :: "int \<Rightarrow> int \<Rightarrow> int \<Rightarrow> int" where
  "clampRange v lo hi = (if v < lo then lo else if v > hi then hi else v)"

definition rowLimitMax :: int where
  "rowLimitMax = 2000"

definition rowLimit :: "int option \<Rightarrow> int \<Rightarrow> nat" where
  "rowLimit v def = nat (clampRange (case v of Some n \<Rightarrow> n | None \<Rightarrow> def) 1 rowLimitMax)"

text \<open>The shared way to cap a result: one row more than the limit is asked for, and its presence is the flag.\<close>

definition capped :: "nat \<Rightarrow> 'a list \<Rightarrow> 'a list \<times> bool" where
  "capped limit rows = (let out = take (limit + 1) rows in (take limit out, limit < length out))"

lemma capped_eq: "capped limit rows = (take limit rows, limit < length rows)"
  by (auto simp: capped_def Let_def min_def)

section \<open>Symbols and targets\<close>

record SymbolRef =
  ref_USR :: string
  ref_Name :: string
  ref_Kind :: string
  ref_Signature :: string

definition zero_ref :: SymbolRef where
  "zero_ref = \<lparr>ref_USR = [], ref_Name = [], ref_Kind = [], ref_Signature = []\<rparr>"

definition ref_of :: "symbol_row \<Rightarrow> SymbolRef" where
  "ref_of r = \<lparr>ref_USR = sy_usr r, ref_Name = sy_name r, ref_Kind = sy_kind r, ref_Signature = sy_signature r\<rparr>"

definition symbolIDByUSR :: "(string \<Rightarrow> bool) \<Rightarrow> hbr \<Rightarrow> string \<Rightarrow> int tool_result" where
  "symbolIDByUSR ok h u =
     (if \<not> ok ''lookup'' then Inl (E_query ''lookup'')
      else case find (\<lambda>(i, r). sy_usr r = u) (symbols h) of
             None \<Rightarrow> Inl (E_unknown_symbol u)
           | Some (i, _) \<Rightarrow> Inr i)"

definition targetIDByName :: "(string \<Rightarrow> bool) \<Rightarrow> hbr \<Rightarrow> string \<Rightarrow> int tool_result" where
  "targetIDByName ok h name =
     (if \<not> ok ''target lookup'' then Inl (E_query ''target lookup'')
      else case find (\<lambda>(i, r). t_name r = name) (targets h) of
             None \<Rightarrow> Inl (E_unknown_target name)
           | Some (i, _) \<Rightarrow> Inr i)"

text \<open>The view \<^verbatim>\<open>symbol_reachability\<close>: the pairs of target and symbol with a resolution.\<close>

definition symbol_reachability :: "hbr \<Rightarrow> (int \<times> int) list" where
  "symbol_reachability h =
     concat (map (\<lambda>lr. map (\<lambda>(i, r). (lr_target_id lr, i)) (filter (\<lambda>(i, r). sy_usr r = lr_usr lr) (symbols h)))
       (link_resolutions h))"

definition reaches :: "hbr \<Rightarrow> int \<Rightarrow> string \<Rightarrow> bool" where
  "reaches h i target \<longleftrightarrow>
     list_ex (\<lambda>(t, r). t_name r = target \<and> (t, i) \<in> set (symbol_reachability h)) (targets h)"

text \<open>The optional filter by target; no name, no filter.\<close>

definition in_target :: "hbr \<Rightarrow> string \<Rightarrow> int \<Rightarrow> bool" where
  "in_target h target i \<longleftrightarrow> target = [] \<or> reaches h i target"

lemma reachability_iff:
  "(t, i) \<in> set (symbol_reachability h) \<longleftrightarrow>
     (\<exists>lr r. lr \<in> set (link_resolutions h) \<and> (i, r) \<in> set (symbols h) \<and> lr_target_id lr = t \<and> lr_usr lr = sy_usr r)"
  by (force simp: symbol_reachability_def)

definition usrsOf :: "SymbolRef list \<Rightarrow> string list" where
  "usrsOf refs = map ref_USR refs"

text \<open>For each USR of the list the names of the targets that hold the symbol, in name order.\<close>

definition targetsByReachability :: "(string \<Rightarrow> bool) \<Rightarrow> hbr \<Rightarrow> string list \<Rightarrow> ((string, string list) gomap) tool_result" where
  "targetsByReachability ok h usrs =
     (if usrs = [] then Inr []
      else run_query ok ''reachability lookup''
        (fold (\<lambda>(u, t) m. gput u (gget_or [] m u @ [t]) m)
           (sort_key snd (concat (map (\<lambda>(t, i). concat (map (\<lambda>(j, r). if j = i \<and> sy_usr r \<in> set usrs
               then map (\<lambda>(k, tr). (sy_usr r, t_name tr)) (filter (\<lambda>(k, tr). k = t) (targets h)) else [])
             (symbols h))) (symbol_reachability h)))) []))"

section \<open>Source lines\<close>

record Snippet =
  sn_StartLine :: int
  sn_EndLine :: int
  sn_Text :: string

text \<open>The lines of a file: a newline at the end does not begin another line.\<close>

definition file_lines :: "string \<Rightarrow> string list" where
  "file_lines content =
     (let ls = split_byte NL content in if ls \<noteq> [] \<and> last ls = [] then butlast ls else ls)"

definition snippetContext :: int where
  "snippetContext = 5"

definition extractSnippet :: "string \<Rightarrow> int \<Rightarrow> int \<Rightarrow> Snippet option" where
  "extractSnippet content line ctx =
     (if line \<le> 0 then None
      else
        (let ls = file_lines content;
             start = max (line - ctx) 1;
             end' = min (line + ctx) (int (length ls))
         in if ls = [] \<or> start > end' then None
            else Some \<lparr>sn_StartLine = start, sn_EndLine = end',
                   sn_Text = join_with [NL] (take (nat end' - nat (start - 1)) (drop (nat (start - 1)) ls))\<rparr>))"

definition sliceLines :: "string \<Rightarrow> int \<Rightarrow> int \<Rightarrow> string \<times> nat" where
  "sliceLines content start end' =
     (let ls = file_lines content; n = length ls in
      if n = 0 then ([], 0)
      else
        (let s = (if start \<le> 0 then 1 else start);
             e = (if end' \<le> 0 \<or> end' > int n then int n else end')
         in if s > e then ([], n)
            else (join_with [NL] (take (nat e - nat (s - 1)) (drop (nat (s - 1)) ls)), n)))"


section \<open>Stored sources and locations\<close>

text \<open>
  The decoder of blobs is an argument, with \<^const>\<open>None\<close> for what it does not accept; so is whether a lookup is answered. A
  row that is missing is told from other errors, because the caller goes on with the next table.
\<close>

datatype read_error = No_rows | No_blob string | Bad_blob string | Bad_lookup string | No_source string

definition readBlob :: "(string \<Rightarrow> bool) \<Rightarrow> (string \<Rightarrow> string option) \<Rightarrow> blob_db \<Rightarrow> string \<Rightarrow> read_error + string" where
  "readBlob ok unz db hash =
     (if \<not> ok ''blobs'' then Inl (Bad_blob hash)
      else case gget (db_blobs db) hash of
             None \<Rightarrow> Inl (No_blob hash)
           | Some b \<Rightarrow> (case unz (snd b) of None \<Rightarrow> Inl (Bad_blob hash) | Some raw \<Rightarrow> Inr raw))"

definition readByColumn :: "(string \<Rightarrow> bool) \<Rightarrow> (string \<Rightarrow> string option) \<Rightarrow> blob_db \<Rightarrow> string \<Rightarrow> string option \<Rightarrow> read_error + (string \<times> string)" where
  "readByColumn ok unz db table hash =
     (if \<not> ok table then Inl (Bad_lookup table)
      else case hash of
             None \<Rightarrow> Inl No_rows
           | Some hash \<Rightarrow> (case readBlob ok unz db hash of Inl e \<Rightarrow> Inl e | Inr content \<Rightarrow> Inr (content, hash)))"

definition readSourceByPath :: "(string \<Rightarrow> bool) \<Rightarrow> (string \<Rightarrow> string option) \<Rightarrow> blob_db \<Rightarrow> string \<Rightarrow> read_error + (string \<times> string)" where
  "readSourceByPath ok unz db path =
     (if HasPrefix path ''/'' then readByColumn ok unz db ''external_sources'' (gget (db_external db) path)
      else
        (case readByColumn ok unz db ''sources'' (map_option fst (gget (db_sources db) path)) of
           Inr r \<Rightarrow> Inr r
         | Inl No_rows \<Rightarrow>
             (case readByColumn ok unz db ''generated_sources'' (gget (db_generated db) path) of
                Inr r \<Rightarrow> Inr r
              | Inl No_rows \<Rightarrow> Inl (No_source path)
              | Inl e \<Rightarrow> Inl e)
         | Inl e \<Rightarrow> Inl e))"

record Location =
  lo_Path :: string
  lo_Line :: int
  lo_Column :: int
  lo_BlobHash :: string
  lo_AbsolutePath :: string
  lo_Snippet :: "Snippet option"

definition location :: "string \<Rightarrow> int \<Rightarrow> int \<Rightarrow> Location" where
  "location path line col = \<lparr>lo_Path = path, lo_Line = line, lo_Column = col, lo_BlobHash = [], lo_AbsolutePath = [], lo_Snippet = None\<rparr>"

definition enrichLocation :: "(string \<Rightarrow> bool) \<Rightarrow> (string \<Rightarrow> string option) \<Rightarrow> string \<Rightarrow> blob_db \<Rightarrow> bool \<Rightarrow> Location \<Rightarrow> Location" where
  "enrichLocation ok unz root db snip loc =
     (if lo_Path loc = [] then loc
      else
        (let loc1 = (if root \<noteq> [] \<and> \<not> IsAbs (lo_Path loc) then loc\<lparr>lo_AbsolutePath := Join root (lo_Path loc)\<rparr> else loc);
             loc2 = (if lo_BlobHash loc1 \<noteq> [] then loc1
                     else case (if ok ''sources'' then gget (db_sources db) (lo_Path loc1) else None) of
                            None \<Rightarrow> loc1
                          | Some r \<Rightarrow> loc1\<lparr>lo_BlobHash := fst r\<rparr>)
         in if \<not> snip \<or> lo_Line loc2 = 0 \<or> lo_BlobHash loc2 = [] then loc2
            else case readBlob ok unz db (lo_BlobHash loc2) of
                   Inl _ \<Rightarrow> loc2
                 | Inr content \<Rightarrow> loc2\<lparr>lo_Snippet := extractSnippet content (lo_Line loc2) snippetContext\<rparr>))"

text \<open>What a handler has at hand: the answers of the engine, the decoder, the project root and the index.\<close>

record tool_env =
  te_ok :: "string \<Rightarrow> bool"
  te_dec :: "string \<Rightarrow> string option"
  te_root :: string
  te_index :: index

abbreviation te_hbr :: "tool_env \<Rightarrow> hbr" where
  "te_hbr e \<equiv> dd_hbr (ix_dwarf (te_index e))"

abbreviation te_blobs :: "tool_env \<Rightarrow> blob_db" where
  "te_blobs e \<equiv> ix_blobs (te_index e)"

definition enrich :: "tool_env \<Rightarrow> bool \<Rightarrow> Location \<Rightarrow> Location" where
  "enrich e = enrichLocation (te_ok e) (te_dec e) (te_root e) (te_blobs e)"

text \<open>Enriching adds to a location and never changes where it points.\<close>

lemma enrich_place [simp]:
  "lo_Path (enrich e b loc) = lo_Path loc" "lo_Line (enrich e b loc) = lo_Line loc" "lo_Column (enrich e b loc) = lo_Column loc"
  by (simp_all add: enrich_def enrichLocation_def Let_def split: option.splits sum.splits)

text \<open>The row of a symbol by its id.\<close>

definition ref_by_id :: "hbr \<Rightarrow> int \<Rightarrow> SymbolRef option" where
  "ref_by_id h i = map_option (ref_of \<circ> snd) (find (\<lambda>(j, r). j = i) (symbols h))"

section \<open>Lookups in an index of integrity\<close>

lemma find_unique: "distinct (map k rows) \<Longrightarrow> find (\<lambda>x. k x = u) rows = Some x \<longleftrightarrow> x \<in> set rows \<and> k x = u"
proof (induction rows)
  case (Cons y rows)
  have "x \<notin> set rows" if "k x = k y" using Cons.prems that imageI [of x "set rows" k] by auto
  then show ?case using Cons by auto
qed simp

lemma find_symbol_row:
  assumes "hbr_ok h"
  shows "find (\<lambda>(i, r). sy_usr r = u) (symbols h) = Some (i, r) \<longleftrightarrow> (i, r) \<in> set (symbols h) \<and> sy_usr r = u"
  using find_unique [of "sy_usr \<circ> snd" "symbols h" u "(i, r)"] assms by (simp add: hbr_ok_def case_prod_beta')

lemma find_target_row:
  assumes "hbr_ok h"
  shows "find (\<lambda>(i, r). t_name r = u) (targets h) = Some (i, r) \<longleftrightarrow> (i, r) \<in> set (targets h) \<and> t_name r = u"
  using find_unique [of "t_name \<circ> snd" "targets h" u "(i, r)"] assms by (simp add: hbr_ok_def case_prod_beta')

lemma symbolIDByUSR_iff:
  assumes "hbr_ok h"
  shows "symbolIDByUSR ok h u = Inr i \<longleftrightarrow> ok ''lookup'' \<and> (\<exists>r. (i, r) \<in> set (symbols h) \<and> sy_usr r = u)"
  unfolding find_symbol_row [OF assms, symmetric] by (auto simp: symbolIDByUSR_def split: option.splits)

lemma targetIDByName_iff:
  assumes "hbr_ok h"
  shows "targetIDByName ok h n = Inr i \<longleftrightarrow> ok ''target lookup'' \<and> (\<exists>r. (i, r) \<in> set (targets h) \<and> t_name r = n)"
  unfolding find_target_row [OF assms, symmetric] by (auto simp: targetIDByName_def split: option.splits)

lemma symbol_of_id: "hbr_ok h \<Longrightarrow> (k, x) \<in> set (symbols h) \<Longrightarrow> (k, x') \<in> set (symbols h) \<Longrightarrow> x = x'"
  by (auto simp: hbr_ok_def ids_def dest: eq_key_imp_eq_value)

lemma symbol_of_usr:
  "hbr_ok h \<Longrightarrow> (k, x) \<in> set (symbols h) \<Longrightarrow> (k', x') \<in> set (symbols h) \<Longrightarrow> sy_usr x = sy_usr x' \<Longrightarrow> k = k' \<and> x = x'"
  unfolding hbr_ok_def distinct_map comp_def by (elim conjE) (force dest!: inj_onD [of _ _ "(k, x)" "(k', x')"])

lemma target_of_name:
  "hbr_ok h \<Longrightarrow> (k, x) \<in> set (targets h) \<Longrightarrow> (k', x') \<in> set (targets h) \<Longrightarrow> t_name x = t_name x' \<Longrightarrow> k = k' \<and> x = x'"
  unfolding hbr_ok_def distinct_map comp_def by (elim conjE) (force dest!: inj_onD [of _ _ "(k, x)" "(k', x')"])

end
