(* ===== verification/Mcp_Callgraph.thy ===== *)
theory Mcp_Callgraph
  imports Mcp_Common
begin

text \<open>
  The call-graph tools: callers and callees of the compiler's graph, the paths between two symbols
  (\<^verbatim>\<open>callgraph_source_tools.go\<close>) and the callers and callees in a linked binary
  (\<^verbatim>\<open>callgraph_runtime_tools.go\<close>).
\<close>

section \<open>Limits\<close>

definition callGraphNeighborLimit :: nat where
  "callGraphNeighborLimit = 500"

definition callPathDefaultDepth :: int where
  "callPathDefaultDepth = 6"

definition callPathMaxDepth :: int where
  "callPathMaxDepth = 16"

definition callPathResultLimit :: nat where
  "callPathResultLimit = 50"

section \<open>Callers and callees\<close>

record CallerEdge =
  cg_Symbol :: SymbolRef
  cg_Targets :: "string list"

record ListCallersResponse =
  cl_USR :: string
  cl_Edges :: "CallerEdge list"
  cl_Total :: nat
  cl_Truncated :: bool

text \<open>The symbols at one end of the given edges, each once, in name order.\<close>

definition ends_of :: "hbr \<Rightarrow> (edge_row \<Rightarrow> bool) \<Rightarrow> (edge_row \<Rightarrow> int) \<Rightarrow> (int \<Rightarrow> bool) \<Rightarrow> SymbolRef list" where
  "ends_of h P side keep =
     sort_key ref_Name (remdups (concat (map (\<lambda>e. map (\<lambda>(i, r). ref_of r)
       (filter (\<lambda>(i, r). i = side e \<and> keep i) (symbols h))) (filter P (call_edges h)))))"

definition neighbours :: "(string \<Rightarrow> bool) \<Rightarrow> hbr \<Rightarrow> string \<Rightarrow> string \<Rightarrow> SymbolRef list \<Rightarrow> ListCallersResponse tool_result" where
  "neighbours ok h name u rows =
     bind_result (run_query ok name rows) (\<lambda>all.
       let (refs, truncated) = capped callGraphNeighborLimit all in
       bind_result (targetsByReachability ok h (usrsOf refs)) (\<lambda>byUSR.
         Inr \<lparr>cl_USR = u, cl_Edges = map (\<lambda>r. \<lparr>cg_Symbol = r, cg_Targets = gget_or [] byUSR (ref_USR r)\<rparr>) refs,
              cl_Total = length refs, cl_Truncated = truncated\<rparr>))"

definition handleListCallers :: "(string \<Rightarrow> bool) \<Rightarrow> hbr \<Rightarrow> string option \<Rightarrow> string \<Rightarrow> ListCallersResponse tool_result" where
  "handleListCallers ok h callee_usr target =
     bind_result (require ''callee_usr'' callee_usr) (\<lambda>u.
       bind_result (symbolIDByUSR ok h u) (\<lambda>calleeID.
         neighbours ok h ''list_callers'' u
           (ends_of h (\<lambda>e. ce_callee_id e = calleeID \<and> ce_source e = ''compiler_cgraph'') ce_caller_id (in_target h target))))"

definition handleListCallees :: "(string \<Rightarrow> bool) \<Rightarrow> hbr \<Rightarrow> string option \<Rightarrow> string \<Rightarrow> ListCallersResponse tool_result" where
  "handleListCallees ok h caller_usr target =
     bind_result (require ''caller_usr'' caller_usr) (\<lambda>u.
       bind_result (symbolIDByUSR ok h u) (\<lambda>callerID.
         neighbours ok h ''list_callees'' u
           (ends_of h (\<lambda>e. ce_caller_id e = callerID \<and> ce_source e = ''compiler_cgraph'') ce_callee_id (in_target h target))))"

record ListLinkedResponse =
  ll_USR :: string
  ll_Target :: string
  ll_Edges :: "SymbolRef list"
  ll_Total :: nat

definition linked_ends :: "(string \<Rightarrow> bool) \<Rightarrow> hbr \<Rightarrow> string \<Rightarrow> string \<Rightarrow> string \<Rightarrow> SymbolRef list \<Rightarrow> ListLinkedResponse tool_result" where
  "linked_ends ok h name u target rows =
     bind_result (run_query ok name rows) (\<lambda>out.
       Inr \<lparr>ll_USR = u, ll_Target = target, ll_Edges = out, ll_Total = length out\<rparr>)"

definition handleListLinkedCallers :: "(string \<Rightarrow> bool) \<Rightarrow> hbr \<Rightarrow> string option \<Rightarrow> string option \<Rightarrow> ListLinkedResponse tool_result" where
  "handleListLinkedCallers ok h callee_usr target =
     bind_result (require ''callee_usr'' callee_usr) (\<lambda>u.
       bind_result (require ''target'' target) (\<lambda>t.
         bind_result (symbolIDByUSR ok h u) (\<lambda>calleeID.
           bind_result (targetIDByName ok h t) (\<lambda>targetID.
             linked_ends ok h ''list_linked_callers'' u t
               (ends_of h (\<lambda>e. ce_callee_id e = calleeID \<and> ce_source e = ''objdump'' \<and> ce_target_id e = Some targetID)
                 ce_caller_id (\<lambda>_. True))))))"

definition handleListLinkedCallees :: "(string \<Rightarrow> bool) \<Rightarrow> hbr \<Rightarrow> string option \<Rightarrow> string option \<Rightarrow> ListLinkedResponse tool_result" where
  "handleListLinkedCallees ok h caller_usr target =
     bind_result (require ''caller_usr'' caller_usr) (\<lambda>u.
       bind_result (require ''target'' target) (\<lambda>t.
         bind_result (symbolIDByUSR ok h u) (\<lambda>callerID.
           bind_result (targetIDByName ok h t) (\<lambda>targetID.
             linked_ends ok h ''list_linked_callees'' u t
               (ends_of h (\<lambda>e. ce_caller_id e = callerID \<and> ce_source e = ''objdump'' \<and> ce_target_id e = Some targetID)
                 ce_callee_id (\<lambda>_. True))))))"

section \<open>Paths\<close>

type_synonym adjacency = "(int, int list) gomap"

text \<open>The loop over the successors of the last node of the stack; \<open>descend\<close> is the recursive call.\<close>

fun dfs_loop :: "(int list \<Rightarrow> int list \<Rightarrow> int list list \<Rightarrow> int list list) \<Rightarrow> int \<Rightarrow> nat \<Rightarrow> int list \<Rightarrow> int list \<Rightarrow> int list
    \<Rightarrow> int list list \<Rightarrow> int list list" where
  "dfs_loop descend goal limit [] stack visited out = out"
| "dfs_loop descend goal limit (n # ns) stack visited out =
     (if n \<in> set visited then dfs_loop descend goal limit ns stack visited out
      else if n = goal then
        (let out' = out @ [stack @ [n]]
         in if limit \<le> length out' then out' else dfs_loop descend goal limit ns stack visited out')
      else dfs_loop descend goal limit ns stack visited (descend (stack @ [n]) (n # visited) out))"

fun dfs :: "adjacency \<Rightarrow> int \<Rightarrow> nat \<Rightarrow> nat \<Rightarrow> int list \<Rightarrow> int list \<Rightarrow> int list list \<Rightarrow> int list list" where
  "dfs adj goal limit 0 stack visited out = out"
| "dfs adj goal limit (Suc r) stack visited out =
     (if limit \<le> length out then out
      else dfs_loop (dfs adj goal limit r) goal limit (gget_or [] adj (last stack)) stack visited out)"

definition enumeratePaths :: "adjacency \<Rightarrow> int \<Rightarrow> int \<Rightarrow> nat \<Rightarrow> nat \<Rightarrow> int list list" where
  "enumeratePaths adj start goal maxDepth limit =
     (if start = goal then [[start]] else dfs adj goal limit maxDepth [start] [start] [])"

text \<open>
  The graph: the edges of the compiler plane, each once, between symbols of the target if one is given. The successors
  are put in name order by a sort that need not be stable: \<open>arrange\<close> is the order in which it meets those of equal name.
\<close>

definition load_symbols :: "hbr \<Rightarrow> string \<Rightarrow> (int, SymbolRef) gomap" where
  "load_symbols h target =
     fold (\<lambda>(i, r) m. gput i (ref_of r) m) (filter (\<lambda>(i, r). in_target h target i) (symbols h)) []"

definition add_adjacent :: "string \<Rightarrow> (int, SymbolRef) gomap \<Rightarrow> edge_row
    \<Rightarrow> adjacency \<times> (int \<times> int, bool) gomap \<Rightarrow> adjacency \<times> (int \<times> int, bool) gomap" where
  "add_adjacent target byID e st =
     (let k = (ce_caller_id e, ce_callee_id e) in
      if target \<noteq> [] \<and> (gget byID (fst k) = None \<or> gget byID (snd k) = None) then st
      else if gget (snd st) k \<noteq> None then st
      else (gput (fst k) (gget_or [] (fst st) (fst k) @ [snd k]) (fst st), gput k True (snd st)))"

definition loadCgraphAdjacency :: "(string \<Rightarrow> bool) \<Rightarrow> (int list \<Rightarrow> int list) \<Rightarrow> hbr \<Rightarrow> string \<Rightarrow> (adjacency \<times> (int, SymbolRef) gomap) tool_result" where
  "loadCgraphAdjacency ok arrange h target =
     bind_result (run_query ok ''load symbols'' (load_symbols h target)) (\<lambda>byID.
       bind_result (run_query ok ''load edges'' (filter (\<lambda>e. ce_source e = ''compiler_cgraph'') (call_edges h))) (\<lambda>edges.
         let adj = fst (fold (add_adjacent target byID) edges ([], []))
         in Inr (map (\<lambda>(k, ns). (k, sort_key (\<lambda>n. ref_Name (gget_or zero_ref byID n)) (arrange ns))) adj, byID)))"

record CallPath =
  cp_Depth :: nat
  cp_Steps :: "SymbolRef list"

record ListCallPathsResponse =
  lp_FromUSR :: string
  lp_ToUSR :: string
  lp_MaxDepth :: int
  lp_Paths :: "CallPath list"
  lp_Total :: nat
  lp_Truncated :: bool

definition path_depth :: "int option \<Rightarrow> int" where
  "path_depth v =
     (let d = (case v of Some n \<Rightarrow> n | None \<Rightarrow> callPathDefaultDepth)
      in if d \<le> 0 \<or> d > callPathMaxDepth then callPathDefaultDepth else d)"

definition handleListCallPaths :: "(string \<Rightarrow> bool) \<Rightarrow> (int list \<Rightarrow> int list) \<Rightarrow> hbr \<Rightarrow> string option \<Rightarrow> string option \<Rightarrow> int option \<Rightarrow> string
    \<Rightarrow> ListCallPathsResponse tool_result" where
  "handleListCallPaths ok arrange h from_usr to_usr max_depth target =
     bind_result (require ''from_usr'' from_usr) (\<lambda>fromUSR.
       bind_result (require ''to_usr'' to_usr) (\<lambda>toUSR.
         bind_result (symbolIDByUSR ok h fromUSR) (\<lambda>fromID.
           bind_result (symbolIDByUSR ok h toUSR) (\<lambda>toID.
             bind_result (loadCgraphAdjacency ok arrange h target) (\<lambda>(adj, byID).
               let maxDepth = path_depth max_depth;
                   paths = enumeratePaths adj fromID toID (nat maxDepth) (callPathResultLimit + 1);
                   kept = take callPathResultLimit paths;
                   out = map (\<lambda>p. \<lparr>cp_Depth = length p - 1, cp_Steps = map (gget_or zero_ref byID) p\<rparr>) kept
               in Inr \<lparr>lp_FromUSR = fromUSR, lp_ToUSR = toUSR, lp_MaxDepth = maxDepth, lp_Paths = out,
                       lp_Total = length out, lp_Truncated = (callPathResultLimit < length paths)\<rparr>)))))"

section \<open>What the search finds\<close>

text \<open>All paths, in the order of the search.\<close>

fun paths_from :: "adjacency \<Rightarrow> int \<Rightarrow> nat \<Rightarrow> int list \<Rightarrow> int list \<Rightarrow> int list list" where
  "paths_from adj goal 0 stack visited = []"
| "paths_from adj goal (Suc r) stack visited =
     concat (map (\<lambda>n. if n \<in> set visited then [] else if n = goal then [stack @ [n]]
         else paths_from adj goal r (stack @ [n]) (n # visited))
       (gget_or [] adj (last stack)))"

text \<open>A call path: from one symbol to another along edges, without a repetition, of a bounded number of calls.\<close>

definition call_path :: "adjacency \<Rightarrow> int \<Rightarrow> int \<Rightarrow> nat \<Rightarrow> int list \<Rightarrow> bool" where
  "call_path adj start goal depth p \<longleftrightarrow>
     p \<noteq> [] \<and> hd p = start \<and> last p = goal \<and> distinct p \<and> length p \<le> depth + 1 \<and>
     successively (\<lambda>a b. b \<in> set (gget_or [] adj a)) p"

lemma take_continue:
  assumes "take L xs = take L ys" shows "take L (xs @ zs) = take L (ys @ zs)"
proof (cases "L \<le> length xs")
  case True
  then have "L \<le> length ys" using assms by (metis length_take min.absorb2 min.cobounded1)
  then show ?thesis using True assms by simp
next
  case False
  then have "length (take L ys) < L" using assms by (metis length_take min_less_iff_disj not_le)
  then have "ys = take L ys" by auto
  moreover have "xs = take L xs" using False by simp
  ultimately show ?thesis using assms by metis
qed

lemma dfs_loop_take:
  assumes "\<And>st vis out. take L (descend st vis out) = take L (out @ fnd st vis)"
  shows "take L (dfs_loop descend goal L ns stack visited out) =
    take L (out @ concat (map (\<lambda>n. if n \<in> set visited then [] else if n = goal then [stack @ [n]]
      else fnd (stack @ [n]) (n # visited)) ns))"
proof (induction ns arbitrary: out)
  case (Cons n ns)
  show ?case
  proof (cases "n \<in> set visited")
    case True then show ?thesis using Cons by simp
  next
    case new: False
    show ?thesis
    proof (cases "n = goal")
      case True
      then show ?thesis using new Cons [of "out @ [stack @ [n]]"]
        by (cases "L - length out") (auto simp: Let_def take_Cons')
    next
      case False
      show ?thesis using new False Cons [of "descend (stack @ [n]) (n # visited) out"]
          take_continue [OF assms [of "stack @ [n]" "n # visited" out]] by simp
    qed
  qed
qed simp

lemma dfs_take: "take L (dfs adj goal L r stack visited out) = take L (out @ paths_from adj goal r stack visited)"
proof (induction r arbitrary: stack visited out)
  case (Suc r)
  show ?case using dfs_loop_take [of L "dfs adj goal L r" "paths_from adj goal r", OF Suc] by simp
qed simp

lemma paths_from_iff:
  "goal \<notin> set visited \<Longrightarrow> stack \<noteq> [] \<Longrightarrow>
   p \<in> set (paths_from adj goal r stack visited) \<longleftrightarrow>
     (\<exists>q. p = stack @ q \<and> q \<noteq> [] \<and> length q \<le> r \<and> last q = goal \<and> distinct q \<and> set q \<inter> set visited = {} \<and>
        successively (\<lambda>a b. b \<in> set (gget_or [] adj a)) (last stack # q))"
proof (induction r arbitrary: stack visited)
  case (Suc r)
  let ?E = "\<lambda>a b. b \<in> set (gget_or [] adj a)"
  have ih: "p \<in> set (paths_from adj goal r (stack @ [n]) (n # visited)) \<longleftrightarrow>
     (\<exists>q. p = (stack @ [n]) @ q \<and> q \<noteq> [] \<and> length q \<le> r \<and> last q = goal \<and> distinct q \<and> set q \<inter> set (n # visited) = {} \<and>
        successively ?E (n # q))" if "n \<noteq> goal" for n
    using Suc.IH [of "n # visited" "stack @ [n]"] Suc.prems(1) that by simp
  have "p \<in> set (paths_from adj goal (Suc r) stack visited) \<longleftrightarrow>
      (\<exists>n. ?E (last stack) n \<and> n \<notin> set visited \<and>
         (if n = goal then p = stack @ [n] else p \<in> set (paths_from adj goal r (stack @ [n]) (n # visited))))"
    by (auto split: if_splits)
  also have "\<dots> \<longleftrightarrow> (\<exists>q. p = stack @ q \<and> q \<noteq> [] \<and> length q \<le> Suc r \<and> last q = goal \<and> distinct q \<and> set q \<inter> set visited = {} \<and>
        successively ?E (last stack # q))" (is "?L \<longleftrightarrow> ?R")
  proof
    assume ?L
    then obtain n where n: "?E (last stack) n" "n \<notin> set visited"
      "if n = goal then p = stack @ [n] else p \<in> set (paths_from adj goal r (stack @ [n]) (n # visited))" by blast
    show ?R
    proof (cases "n = goal")
      case True then show ?thesis using n by (intro exI [of _ "[n]"]) auto
    next
      case False
      then obtain q where "p = (stack @ [n]) @ q" "q \<noteq> []" "length q \<le> r" "last q = goal" "distinct q"
        "set q \<inter> set (n # visited) = {}" "successively ?E (n # q)" using n(3) ih [OF False] by auto
      then show ?thesis using n by (intro exI [of _ "n # q"]) auto
    qed
  next
    assume ?R
    then obtain q where q: "p = stack @ q" "q \<noteq> []" "length q \<le> Suc r" "last q = goal" "distinct q"
      "set q \<inter> set visited = {}" "successively ?E (last stack # q)" by blast
    obtain n q' where nq: "q = n # q'" using q(2) by (cases q) auto
    show ?L
    proof (cases "n = goal")
      case True
      have "q' = []" using True q(4,5) nq by (cases q' rule: rev_cases) auto
      then show ?thesis using True nq q by (intro exI [of _ n]) auto
    next
      case False
      then have "q' \<noteq> []" using q(4) nq by auto
      then have "p \<in> set (paths_from adj goal r (stack @ [n]) (n # visited))"
        using ih [OF False] q nq by (auto intro!: exI [of _ q'])
      then show ?thesis using False nq q by (intro exI [of _ n]) auto
    qed
  qed
  finally show ?case .
qed auto


lemma enumeratePaths_take:
  assumes "start \<noteq> goal"
  shows "take L (enumeratePaths adj start goal d L) = take L (paths_from adj goal d [start] [start])"
  using dfs_take [of L adj goal d "[start]" "[start]" "[]"] assms by (simp add: enumeratePaths_def)

lemma successively_Cons_hd: "successively P (x # q) \<longleftrightarrow> (q = [] \<or> P x (hd q) \<and> successively P q)"
  by (cases q) auto

lemma paths_from_call_path:
  assumes "start \<noteq> goal"
  shows "p \<in> set (paths_from adj goal d [start] [start]) \<longleftrightarrow> call_path adj start goal d p"
proof
  assume "p \<in> set (paths_from adj goal d [start] [start])"
  then obtain q where "p = [start] @ q" "q \<noteq> []" "length q \<le> d" "last q = goal" "distinct q" "set q \<inter> {start} = {}"
    "successively (\<lambda>a b. b \<in> set (gget_or [] adj a)) (start # q)"
    using paths_from_iff [of goal "[start]" "[start]" p adj d] assms by auto
  then show "call_path adj start goal d p" by (auto simp: call_path_def)
next
  assume c: "call_path adj start goal d p"
  then obtain q where q: "p = start # q" by (cases p) (auto simp: call_path_def)
  then have "q \<noteq> []" using c assms by (auto simp: call_path_def)
  then show "p \<in> set (paths_from adj goal d [start] [start])"
    using paths_from_iff [of goal "[start]" "[start]" p adj d] assms c q by (auto simp: call_path_def)
qed

lemma paths_from_stack: "p \<in> set (paths_from adj goal r stack visited) \<Longrightarrow> stack \<noteq> [] \<Longrightarrow> \<exists>q. p = stack @ q \<and> q \<noteq> []"
proof (induction r arbitrary: stack visited)
  case (Suc r)
  then obtain n where n: "p = stack @ [n] \<or> p \<in> set (paths_from adj goal r (stack @ [n]) (n # visited))"
    by (auto split: if_splits)
  then show ?case using Suc.IH [of "stack @ [n]" "n # visited"] by auto
qed simp

lemma paths_from_distinct:
  "(\<And>a. distinct (gget_or [] adj a)) \<Longrightarrow> stack \<noteq> [] \<Longrightarrow> distinct (paths_from adj goal r stack visited)"
proof (induction r arbitrary: stack visited)
  case (Suc r)
  let ?f = "\<lambda>n. if n \<in> set visited then [] else if n = goal then [stack @ [n]]
      else paths_from adj goal r (stack @ [n]) (n # visited)"
  have step: "\<exists>q. p = stack @ n # q" if "p \<in> set (?f n)" for p n
    using that paths_from_stack [of p adj goal r "stack @ [n]" "n # visited"] by (auto split: if_splits)
  have "distinct (concat (map ?f ns))" if "distinct ns" for ns
    using that
  proof (induction ns)
    case (Cons n ns)
    have "distinct (?f n)" using Suc.IH [of "stack @ [n]" "n # visited"] Suc.prems(1) by simp
    moreover have "set (?f n) \<inter> set (concat (map ?f ns)) = {}"
    proof -
      have "False" if a: "p \<in> set (?f n)" and b: "p \<in> set (concat (map ?f ns))" for p
      proof -
        obtain m where m: "m \<in> set ns" "p \<in> set (?f m)" using b by auto
        show False using step [OF a] step [OF m(2)] m(1) Cons.prems by auto
      qed
      then show ?thesis by blast
    qed
    ultimately show ?case using Cons by (simp only: list.map concat.simps distinct_append) simp
  qed simp
  then show ?case using Suc.prems(1) by simp
qed simp


section \<open>The graph\<close>

text \<open>An edge the tool follows: one of the compiler plane, between symbols of the target if one is given.\<close>

definition cgraph_edge :: "hbr \<Rightarrow> string \<Rightarrow> int \<Rightarrow> int \<Rightarrow> bool" where
  "cgraph_edge h target a b \<longleftrightarrow>
     (\<exists>e. e \<in> set (call_edges h) \<and> ce_source e = ''compiler_cgraph'' \<and> ce_caller_id e = a \<and> ce_callee_id e = b) \<and>
     in_target h target a \<and> in_target h target b"

lemma gget_fold_gput_key:
  "gget (fold (\<lambda>(i, r) m. gput i (f r) m) rows m) k \<noteq> None \<longleftrightarrow> k \<in> fst ` set rows \<or> gget m k \<noteq> None"
  by (induction rows arbitrary: m) (auto split: if_splits)

lemma gget_fold_gput:
  "distinct (map fst rows) \<Longrightarrow> (k, r) \<in> set rows \<Longrightarrow> gget (fold (\<lambda>(i, r) m. gput i (f r) m) rows m) k = Some (f r)"
proof (induction rows arbitrary: m)
  case (Cons x rows)
  have later: "gget (fold (\<lambda>(i, r) m. gput i (f r) m) rows m') k = gget m' k" if "k \<notin> fst ` set rows" for m'
    using that by (induction rows arbitrary: m') auto
  show ?case using Cons later [of "gput (fst x) (f (snd x)) m"] by (cases x) auto
qed simp

lemma in_target_symbol: "in_target h target i \<Longrightarrow> target \<noteq> [] \<Longrightarrow> i \<in> fst ` set (symbols h)"
  by (force simp: in_target_def reaches_def list_ex_iff reachability_iff)

lemma load_symbols_key: "gget (load_symbols h target) i \<noteq> None \<longleftrightarrow> i \<in> fst ` set (symbols h) \<and> in_target h target i"
  unfolding load_symbols_def gget_fold_gput_key by force

lemma load_symbols_ref:
  assumes "hbr_ok h" "(i, r) \<in> set (symbols h)" "in_target h target i"
  shows "gget_or zero_ref (load_symbols h target) i = ref_of r"
proof -
  have d: "distinct (map fst (filter (\<lambda>(i, r). in_target h target i) (symbols h)))"
    using assms(1) unfolding hbr_ok_def ids_def by (simp add: distinct_map_filter)
  show ?thesis using gget_fold_gput [OF d, of i r ref_of "[]"] assms(2,3) by (simp add: load_symbols_def gget_or_def)
qed

text \<open>What the loop over the edges builds: the successors of every symbol, each once.\<close>

definition adjacent_ok :: "(int \<times> int) set \<Rightarrow> adjacency \<times> (int \<times> int, bool) gomap \<Rightarrow> bool" where
  "adjacent_ok E st \<longleftrightarrow>
     (\<forall>a. distinct (gget_or [] (fst st) a) \<and> set (gget_or [] (fst st) a) = {b. (a, b) \<in> E}) \<and>
     (\<forall>k. gget (snd st) k \<noteq> None \<longleftrightarrow> k \<in> E)"

lemma add_adjacent_ok:
  assumes "adjacent_ok E st"
  shows "adjacent_ok (E \<union> {k. k = (ce_caller_id e, ce_callee_id e) \<and>
     (target \<noteq> [] \<longrightarrow> gget byID (fst k) \<noteq> None \<and> gget byID (snd k) \<noteq> None)}) (add_adjacent target byID e st)"
proof -
  let ?k = "(ce_caller_id e, ce_callee_id e)"
  consider "target \<noteq> [] \<and> (gget byID (fst ?k) = None \<or> gget byID (snd ?k) = None)"
    | "\<not> (target \<noteq> [] \<and> (gget byID (fst ?k) = None \<or> gget byID (snd ?k) = None))" "?k \<in> E"
    | "\<not> (target \<noteq> [] \<and> (gget byID (fst ?k) = None \<or> gget byID (snd ?k) = None))" "?k \<notin> E" by argo
  then show ?thesis
  proof cases
    case 1
    then have E: "E \<union> {k. k = ?k \<and> (target \<noteq> [] \<longrightarrow> gget byID (fst k) \<noteq> None \<and> gget byID (snd k) \<noteq> None)} = E" by auto
    show ?thesis unfolding E using assms 1 by (auto simp: add_adjacent_def)
  next
    case 2
    then have E: "E \<union> {k. k = ?k \<and> (target \<noteq> [] \<longrightarrow> gget byID (fst k) \<noteq> None \<and> gget byID (snd k) \<noteq> None)} = E" by auto
    show ?thesis unfolding E using assms 2 by (auto simp: add_adjacent_def adjacent_ok_def Let_def)
  next
    case 3
    then have E: "E \<union> {k. k = ?k \<and> (target \<noteq> [] \<longrightarrow> gget byID (fst k) \<noteq> None \<and> gget byID (snd k) \<noteq> None)} = insert ?k E" by auto
    have "gget (snd st) ?k = None" using assms 3(2) unfolding adjacent_ok_def by blast
    then have "add_adjacent target byID e st =
        (gput (fst ?k) (gget_or [] (fst st) (fst ?k) @ [snd ?k]) (fst st), gput ?k True (snd st))"
      using 3(1) unfolding add_adjacent_def Let_def by auto
    then show ?thesis unfolding E using assms 3(2) by (auto simp: adjacent_ok_def gget_or_def)
  qed
qed

lemma fold_adjacent_ok:
  "adjacent_ok E st \<Longrightarrow> adjacent_ok (E \<union> {(ce_caller_id e, ce_callee_id e) | e. e \<in> set es \<and>
     (target \<noteq> [] \<longrightarrow> gget byID (ce_caller_id e) \<noteq> None \<and> gget byID (ce_callee_id e) \<noteq> None)})
     (fold (add_adjacent target byID) es st)"
proof (induction es arbitrary: E st)
  case (Cons e es)
  let ?new = "{k. k = (ce_caller_id e, ce_callee_id e) \<and>
     (target \<noteq> [] \<longrightarrow> gget byID (fst k) \<noteq> None \<and> gget byID (snd k) \<noteq> None)}"
  have *: "(E \<union> ?new) \<union> {(ce_caller_id e, ce_callee_id e) | e. e \<in> set es \<and>
      (target \<noteq> [] \<longrightarrow> gget byID (ce_caller_id e) \<noteq> None \<and> gget byID (ce_callee_id e) \<noteq> None)} =
    E \<union> {(ce_caller_id e', ce_callee_id e') | e'. e' \<in> set (e # es) \<and>
      (target \<noteq> [] \<longrightarrow> gget byID (ce_caller_id e') \<noteq> None \<and> gget byID (ce_callee_id e') \<noteq> None)}" by auto
  show ?case using Cons.IH [OF add_adjacent_ok [OF Cons.prems, of e target byID]] unfolding * by simp
qed (simp add: adjacent_ok_def)

lemma gget_map_val: "gget (map (\<lambda>(k, v). (k, f v)) m) a = map_option f (gget m a)"
  by (induction m) (auto simp: gget_def)

text \<open>The graph that is loaded is the graph of the index.\<close>

lemma loadCgraphAdjacency_graph:
  assumes "loadCgraphAdjacency ok arrange h target = Inr (adj, byID)" "\<And>ns. mset (arrange ns) = mset ns"
  shows "distinct (gget_or [] adj a)" "set (gget_or [] adj a) = {b. cgraph_edge h target a b}" "byID = load_symbols h target"
proof -
  let ?es = "filter (\<lambda>e. ce_source e = ''compiler_cgraph'') (call_edges h)"
  let ?by = "load_symbols h target"
  define g where "g = fst (fold (add_adjacent target ?by) ?es ([], []))"
  let ?srt = "\<lambda>ns. sort_key (\<lambda>n. ref_Name (gget_or zero_ref ?by n)) (arrange ns)"
  have bb: "byID = ?by" and adj: "adj = map (\<lambda>(k, ns). (k, ?srt ns)) g"
    using assms(1) by (auto simp: loadCgraphAdjacency_def bind_result_Inr_iff run_query_def g_def Let_def split: if_splits)
  have ok: "adjacent_ok ({} \<union> {(ce_caller_id e, ce_callee_id e) | e. e \<in> set ?es \<and>
     (target \<noteq> [] \<longrightarrow> gget ?by (ce_caller_id e) \<noteq> None \<and> gget ?by (ce_callee_id e) \<noteq> None)})
     (fold (add_adjacent target ?by) ?es ([], []))"
    by (rule fold_adjacent_ok) (simp add: adjacent_ok_def gget_or_def)
  have arr: "set (arrange ns) = set ns" "distinct (arrange ns) = distinct ns" for ns
    using assms(2) [of ns] by (metis set_mset_mset, metis mset_eq_imp_distinct_iff)
  have key: "gget_or [] adj a = (case gget g a of None \<Rightarrow> [] | Some ns \<Rightarrow> ?srt ns)"
    unfolding adj gget_or_def gget_map_val by (cases "gget g a") auto
  have g: "distinct (gget_or [] g a)" "set (gget_or [] g a) = {b. cgraph_edge h target a b}"
  proof -
    show "distinct (gget_or [] g a)" using ok unfolding adjacent_ok_def g_def by blast
    have "set (gget_or [] g a) = {b. \<exists>e. (a, b) = (ce_caller_id e, ce_callee_id e) \<and> e \<in> set ?es \<and>
     (target \<noteq> [] \<longrightarrow> gget ?by (ce_caller_id e) \<noteq> None \<and> gget ?by (ce_callee_id e) \<noteq> None)}"
      using ok unfolding adjacent_ok_def g_def by simp
    also have "\<dots> = {b. cgraph_edge h target a b}"
      unfolding load_symbols_key cgraph_edge_def using in_target_symbol [of h target] by (auto simp: in_target_def)
    finally show "set (gget_or [] g a) = {b. cgraph_edge h target a b}" .
  qed
  show "distinct (gget_or [] adj a)" using g(1) arr unfolding key by (cases "gget g a") (simp_all add: gget_or_def)
  show "set (gget_or [] adj a) = {b. cgraph_edge h target a b}"
    using g(2) arr unfolding key by (cases "gget g a") (simp_all add: gget_or_def)
  show "byID = ?by" by (rule bb)
qed


section \<open>The paths reported\<close>

definition cgraph_path :: "hbr \<Rightarrow> string \<Rightarrow> int \<Rightarrow> int \<Rightarrow> nat \<Rightarrow> int list \<Rightarrow> bool" where
  "cgraph_path h target start goal depth p \<longleftrightarrow>
     p \<noteq> [] \<and> hd p = start \<and> last p = goal \<and> distinct p \<and> length p \<le> depth + 1 \<and>
     successively (cgraph_edge h target) p"

lemma call_path_same: "call_path adj i i d p \<longleftrightarrow> p = [i]"
  by (cases p) (auto simp: call_path_def)

lemma enumeratePaths_spec:
  assumes "\<And>a. distinct (gget_or [] adj a)" "0 < L"
  shows "\<exists>ps. take L (enumeratePaths adj start goal d L) = take L ps \<and> distinct ps \<and> set ps = {p. call_path adj start goal d p}"
proof (cases "start = goal")
  case True
  then show ?thesis using assms(2) by (intro exI [of _ "[[start]]"]) (auto simp: enumeratePaths_def call_path_same)
next
  case False
  show ?thesis
    using enumeratePaths_take [OF False, of L adj d] paths_from_distinct [of adj "[start]" goal d "[start]", OF assms(1)]
      paths_from_call_path [OF False, of _ adj d] by (intro exI [of _ "paths_from adj goal d [start] [start]"]) auto
qed

lemma take_eq_length: "take L xs = take L ys \<Longrightarrow> K < L \<Longrightarrow> take K xs = take K ys \<and> (K < length xs \<longleftrightarrow> K < length ys)"
proof -
  assume a: "take L xs = take L ys" and k: "K < L"
  have "take K xs = take K ys" using arg_cong [OF a, of "take K"] k by (simp add: min_def)
  moreover have "min L (length xs) = min L (length ys)" using arg_cong [OF a, of length] by (simp add: min.commute)
  ultimately show ?thesis using k by (auto simp: min_def split: if_splits)
qed

lemma handleListCallPaths_Inr:
  assumes "handleListCallPaths ok arrange h (Some f) (Some t) d target = Inr res"
  obtains i j adj where "symbolIDByUSR ok h f = Inr i" "symbolIDByUSR ok h t = Inr j"
    "loadCgraphAdjacency ok arrange h target = Inr (adj, load_symbols h target)"
    "lp_MaxDepth res = path_depth d"
    "lp_Paths res = map (\<lambda>p. \<lparr>cp_Depth = length p - 1, cp_Steps = map (gget_or zero_ref (load_symbols h target)) p\<rparr>)
       (take callPathResultLimit (enumeratePaths adj i j (nat (path_depth d)) (callPathResultLimit + 1)))"
    "lp_Truncated res = (callPathResultLimit < length (enumeratePaths adj i j (nat (path_depth d)) (callPathResultLimit + 1)))"
proof -
  obtain i j adj byID where *: "symbolIDByUSR ok h f = Inr i" "symbolIDByUSR ok h t = Inr j"
    "loadCgraphAdjacency ok arrange h target = Inr (adj, byID)"
    "lp_MaxDepth res = path_depth d"
    "lp_Paths res = map (\<lambda>p. \<lparr>cp_Depth = length p - 1, cp_Steps = map (gget_or zero_ref byID) p\<rparr>)
       (take callPathResultLimit (enumeratePaths adj i j (nat (path_depth d)) (callPathResultLimit + 1)))"
    "lp_Truncated res = (callPathResultLimit < length (enumeratePaths adj i j (nat (path_depth d)) (callPathResultLimit + 1)))"
    using assms by (auto simp: handleListCallPaths_def require_def bind_result_Inr_iff Let_def)
  have "byID = load_symbols h target"
    using *(3) by (auto simp: loadCgraphAdjacency_def bind_result_Inr_iff run_query_def Let_def split: if_splits)
  then show thesis using that * by simp
qed

text \<open>
  C26 What \<^verbatim>\<open>list_call_paths\<close> reports: pairwise different paths of the call graph from one symbol to the other, without
  a repetition and of at most the depth asked for, fifty of them or all there are; and the flag is set exactly if
  there are more than fifty. In particular a response without the flag is the complete set of the paths.
\<close>

theorem list_call_paths_complete:
  assumes "\<And>ns. mset (arrange ns) = mset ns"
    and "handleListCallPaths ok arrange h (Some f) (Some t) d target = Inr res"
  shows "\<exists>i j ps. symbolIDByUSR ok h f = Inr i \<and> symbolIDByUSR ok h t = Inr j \<and>
    lp_Paths res = map (\<lambda>p. \<lparr>cp_Depth = length p - 1, cp_Steps = map (gget_or zero_ref (load_symbols h target)) p\<rparr>) ps \<and>
    distinct ps \<and> set ps \<subseteq> {p. cgraph_path h target i j (nat (lp_MaxDepth res)) p} \<and>
    finite {p. cgraph_path h target i j (nat (lp_MaxDepth res)) p} \<and>
    length ps = min 50 (card {p. cgraph_path h target i j (nat (lp_MaxDepth res)) p}) \<and>
    (lp_Truncated res \<longleftrightarrow> 50 < card {p. cgraph_path h target i j (nat (lp_MaxDepth res)) p})"
proof -
  obtain i j adj where ids: "symbolIDByUSR ok h f = Inr i" "symbolIDByUSR ok h t = Inr j"
    and ld: "loadCgraphAdjacency ok arrange h target = Inr (adj, load_symbols h target)"
    and md: "lp_MaxDepth res = path_depth d"
    and out: "lp_Paths res = map (\<lambda>p. \<lparr>cp_Depth = length p - 1, cp_Steps = map (gget_or zero_ref (load_symbols h target)) p\<rparr>)
       (take callPathResultLimit (enumeratePaths adj i j (nat (path_depth d)) (callPathResultLimit + 1)))"
    and tr: "lp_Truncated res = (callPathResultLimit < length (enumeratePaths adj i j (nat (path_depth d)) (callPathResultLimit + 1)))"
    by (rule handleListCallPaths_Inr [OF assms(2)])
  let ?D = "nat (lp_MaxDepth res)"
  have same: "call_path adj i j ?D p = cgraph_path h target i j ?D p" for p
    unfolding call_path_def cgraph_path_def loadCgraphAdjacency_graph(2) [OF ld assms(1)] by simp
  obtain ps where ps: "take 51 (enumeratePaths adj i j ?D 51) = take 51 ps" "distinct ps"
    "set ps = {p. cgraph_path h target i j ?D p}"
    using enumeratePaths_spec [of adj 51 i j ?D, OF loadCgraphAdjacency_graph(1) [OF ld assms(1)]] unfolding same by auto
  have fin: "finite {p. cgraph_path h target i j ?D p}" "card {p. cgraph_path h target i j ?D p} = length ps"
    using ps(2,3) distinct_card [of ps] by (metis finite_set, metis)
  have tk: "take 50 (enumeratePaths adj i j ?D 51) = take 50 ps" "50 < length (enumeratePaths adj i j ?D 51) \<longleftrightarrow> 50 < length ps"
    using take_eq_length [OF ps(1), of 50] by auto
  have tr': "lp_Truncated res \<longleftrightarrow> 50 < length ps" using tr tk(2) by (simp add: md callPathResultLimit_def)
  have out': "lp_Paths res = map (\<lambda>p. \<lparr>cp_Depth = length p - 1, cp_Steps = map (gget_or zero_ref (load_symbols h target)) p\<rparr>) (take 50 ps)"
    using out tk(1) by (simp add: md callPathResultLimit_def)
  have "set (take 50 ps) \<subseteq> {p. cgraph_path h target i j ?D p}" using ps(3) set_take_subset [of 50 ps] by blast
  then show ?thesis using ids ps(2) fin tr' out' by (intro exI [of _ i] exI [of _ j] exI [of _ "take 50 ps"]) (simp add: min.commute)
qed


section \<open>Neighbours\<close>

lemma ends_of_iff:
  "x \<in> set (ends_of h P side keep) \<longleftrightarrow>
     (\<exists>e r. e \<in> set (call_edges h) \<and> P e \<and> keep (side e) \<and> (side e, r) \<in> set (symbols h) \<and> x = ref_of r)"
  by (fastforce simp: ends_of_def)

lemma neighbours_Inr:
  assumes "neighbours ok h name u rows = Inr res"
  shows "map cg_Symbol (cl_Edges res) = take callGraphNeighborLimit rows" "cl_Truncated res \<longleftrightarrow> callGraphNeighborLimit < length rows"
    "cl_USR res = u"
  using assms by (auto simp: neighbours_def bind_result_Inr_iff run_query_def capped_eq comp_def split: if_splits)

text \<open>A symbol passes the filter of a target.\<close>

definition symbol_in_target :: "hbr \<Rightarrow> string \<Rightarrow> string \<Rightarrow> bool" where
  "symbol_in_target h target u \<longleftrightarrow> list_ex (\<lambda>(i, r). sy_usr r = u \<and> in_target h target i) (symbols h)"

text \<open>
  C29 \<^verbatim>\<open>list_callers\<close> and \<^verbatim>\<open>list_callees\<close> are the two directions of one relation: let two symbols both pass the
  target filter that is given to both calls, as all symbols do when none is given; in responses that are not truncated, the one
  is among the callers of the other exactly if the other is among its callees. Each tool filters only the end it lists, so
  that without the condition a symbol outside the target has callees whose callers do not list it.
\<close>

theorem callers_callees_dual:
  assumes "hbr_ok h"
    and "handleListCallers ok h (Some b) target = Inr rb" "\<not> cl_Truncated rb"
    and "handleListCallees ok h (Some a) target = Inr ra" "\<not> cl_Truncated ra"
    and "symbol_in_target h target a" "symbol_in_target h target b"
  shows "a \<in> ref_USR ` cg_Symbol ` set (cl_Edges rb) \<longleftrightarrow> b \<in> ref_USR ` cg_Symbol ` set (cl_Edges ra)"
proof -
  obtain j where j: "symbolIDByUSR ok h b = Inr j"
    and nb: "neighbours ok h ''list_callers'' b (ends_of h (\<lambda>e. ce_callee_id e = j \<and> ce_source e = ''compiler_cgraph'') ce_caller_id (in_target h target)) = Inr rb"
    using assms(2) by (auto simp: handleListCallers_def bind_result_Inr_iff require_def)
  obtain i where i: "symbolIDByUSR ok h a = Inr i"
    and na: "neighbours ok h ''list_callees'' a (ends_of h (\<lambda>e. ce_caller_id e = i \<and> ce_source e = ''compiler_cgraph'') ce_callee_id (in_target h target)) = Inr ra"
    using assms(4) by (auto simp: handleListCallees_def bind_result_Inr_iff require_def)
  obtain r s where r: "(i, r) \<in> set (symbols h)" "sy_usr r = a" and s: "(j, s) \<in> set (symbols h)" "sy_usr s = b"
    using i j by (auto simp: symbolIDByUSR_iff [OF assms(1)])
  have key: "k = k'" if "(k, x) \<in> set (symbols h)" "(k', x') \<in> set (symbols h)" "sy_usr x = sy_usr x'" for k k' x x'
    using symbol_of_usr [OF assms(1) that] by simp
  have ti: "in_target h target i" and tj: "in_target h target j"
    using assms(6,7) key [OF _ r(1)] key [OF _ s(1)] r(2) s(2) unfolding symbol_in_target_def list_ex_iff by auto
  have full: "map cg_Symbol (cl_Edges rb) = ends_of h (\<lambda>e. ce_callee_id e = j \<and> ce_source e = ''compiler_cgraph'') ce_caller_id (in_target h target)"
    "map cg_Symbol (cl_Edges ra) = ends_of h (\<lambda>e. ce_caller_id e = i \<and> ce_source e = ''compiler_cgraph'') ce_callee_id (in_target h target)"
    using neighbours_Inr [OF nb] neighbours_Inr [OF na] assms(3,5) by simp_all
  have ends: "sy_usr x \<in> ref_USR ` set (ends_of h P side (in_target h target)) \<longleftrightarrow> (\<exists>e. e \<in> set (call_edges h) \<and> P e \<and> side e = k)"
    if x: "(k, x) \<in> set (symbols h)" and it: "in_target h target k" for k x P side
  proof
    assume "sy_usr x \<in> ref_USR ` set (ends_of h P side (in_target h target))"
    then obtain e r where e: "e \<in> set (call_edges h)" "P e" "(side e, r) \<in> set (symbols h)" "sy_usr x = sy_usr r"
      unfolding image_iff Bex_def ends_of_iff by (auto simp: ref_of_def)
    show "\<exists>e. e \<in> set (call_edges h) \<and> P e \<and> side e = k" using e(1,2) key [OF e(3) x e(4) [symmetric]] by blast
  next
    assume "\<exists>e. e \<in> set (call_edges h) \<and> P e \<and> side e = k"
    then have "ref_of x \<in> set (ends_of h P side (in_target h target))" unfolding ends_of_iff using x it by auto
    then show "sy_usr x \<in> ref_USR ` set (ends_of h P side (in_target h target))" by (force simp: ref_of_def)
  qed
  note at = ends [OF r(1) ti, unfolded r(2), of "\<lambda>e. ce_callee_id e = j \<and> ce_source e = ''compiler_cgraph''" ce_caller_id, unfolded conj_assoc]
  note bt = ends [OF s(1) tj, unfolded s(2), of "\<lambda>e. ce_caller_id e = i \<and> ce_source e = ''compiler_cgraph''" ce_callee_id]
  have "a \<in> ref_USR ` cg_Symbol ` set (cl_Edges rb) \<longleftrightarrow>
      (\<exists>e. e \<in> set (call_edges h) \<and> ce_callee_id e = j \<and> ce_source e = ''compiler_cgraph'' \<and> ce_caller_id e = i)"
    unfolding set_map [symmetric] full unfolding set_map by (rule at)
  also have "\<dots> \<longleftrightarrow> b \<in> ref_USR ` cg_Symbol ` set (cl_Edges ra)"
    unfolding set_map [symmetric] full using bt by (simp add: conj_ac)
  finally show ?thesis .
qed

section \<open>Samples\<close>

definition plain_symbol :: "string \<Rightarrow> symbol_row" where
  "plain_symbol n = \<lparr>sy_usr = ''c:@F@'' @ n, sy_name = n, sy_kind = ''function'', sy_linkage = ''external'',
     sy_signature = [], sy_address_taken = 0, sy_linkage_names = None\<rparr>"

definition cgraph_edge_row :: "int \<Rightarrow> int \<Rightarrow> edge_row" where
  "cgraph_edge_row a b = \<lparr>ce_caller_id = a, ce_callee_id = b, ce_source = ''compiler_cgraph'', ce_target_id = None\<rparr>"

definition diamond :: hbr where
  "diamond = fresh_hbr\<lparr>symbols := [(1, plain_symbol ''main''), (2, plain_symbol ''left''), (3, plain_symbol ''right''), (4, plain_symbol ''sink'')],
     call_edges := [cgraph_edge_row 1 2, cgraph_edge_row 1 3, cgraph_edge_row 2 4, cgraph_edge_row 3 4, cgraph_edge_row 3 2, cgraph_edge_row 2 3]\<rparr>"

lemma diamond_paths:
  "handleListCallPaths (\<lambda>_. True) rev diamond (Some ''c:@F@main'') (Some ''c:@F@sink'') (Some 3) [] = Inr
     \<lparr>lp_FromUSR = ''c:@F@main'', lp_ToUSR = ''c:@F@sink'', lp_MaxDepth = 3,
      lp_Paths = map (\<lambda>ns. \<lparr>cp_Depth = length ns - 1, cp_Steps = map (ref_of \<circ> plain_symbol) ns\<rparr>)
        [[''main'', ''left'', ''right'', ''sink''], [''main'', ''left'', ''sink''],
         [''main'', ''right'', ''left'', ''sink''], [''main'', ''right'', ''sink'']],
      lp_Total = 4, lp_Truncated = False\<rparr>"
  by code_simp

theorem list_call_paths_complete_witness:
  "\<exists>i j. symbolIDByUSR (\<lambda>_. True) diamond ''c:@F@main'' = Inr i \<and> symbolIDByUSR (\<lambda>_. True) diamond ''c:@F@sink'' = Inr j \<and>
    card {p. cgraph_path diamond [] i j 3 p} = 4"
proof -
  define step where "step = (\<lambda>p :: int list. \<lparr>cp_Depth = length p - 1, cp_Steps = map (gget_or zero_ref (load_symbols diamond [])) p\<rparr>)"
  have perm: "mset (rev ns) = mset ns" for ns :: "int list" by simp
  obtain i j ps where *: "symbolIDByUSR (\<lambda>_. True) diamond ''c:@F@main'' = Inr i" "symbolIDByUSR (\<lambda>_. True) diamond ''c:@F@sink'' = Inr j"
    "map (\<lambda>ns. \<lparr>cp_Depth = length ns - 1, cp_Steps = map (ref_of \<circ> plain_symbol) ns\<rparr>)
        [[''main'', ''left'', ''right'', ''sink''], [''main'', ''left'', ''sink''],
         [''main'', ''right'', ''left'', ''sink''], [''main'', ''right'', ''sink'']] = map step ps"
    "length ps = min 50 (card {p. cgraph_path diamond [] i j 3 p})"
    using list_call_paths_complete [OF perm diamond_paths] unfolding step_def [symmetric] by (elim exE conjE) simp
  have "length ps = 4" using arg_cong [OF *(3), of length] by simp
  then have "card {p. cgraph_path diamond [] i j 3 p} = 4" using *(4) by (simp add: min_def split: if_splits)
  then show ?thesis using *(1,2) by blast
qed

text \<open>
  The search goes on after the limit is reached below: the callers of the goal along the stack each still add their
  own path, so that more paths than the limit are returned.
\<close>

lemma enumeratePaths_exceeds_limit:
  "enumeratePaths [(1, [2, 4]), (2, [3, 4]), (3, [4])] 1 4 6 1 = [[1, 2, 3, 4], [1, 2, 4], [1, 4]]"
  by code_simp

text \<open>With a target that does not hold the symbol, the path from the symbol to itself has a step without a name.\<close>

lemma step_outside_target:
  "handleListCallPaths (\<lambda>_. True) id diamond (Some ''c:@F@main'') (Some ''c:@F@main'') None ''app'' = Inr
     \<lparr>lp_FromUSR = ''c:@F@main'', lp_ToUSR = ''c:@F@main'', lp_MaxDepth = 6,
      lp_Paths = [\<lparr>cp_Depth = 0, cp_Steps = [zero_ref]\<rparr>], lp_Total = 1, lp_Truncated = False\<rparr>"
  by code_simp


lemma diamond_callers:
  "\<exists>rb. handleListCallers (\<lambda>_. True) diamond (Some ''c:@F@left'') [] = Inr rb \<and> \<not> cl_Truncated rb \<and>
     map (ref_Name \<circ> cg_Symbol) (cl_Edges rb) = [''main'', ''right'']"
  "\<exists>ra. handleListCallees (\<lambda>_. True) diamond (Some ''c:@F@right'') [] = Inr ra \<and> \<not> cl_Truncated ra"
proof -
  show "\<exists>rb. handleListCallers (\<lambda>_. True) diamond (Some ''c:@F@left'') [] = Inr rb \<and> \<not> cl_Truncated rb \<and>
      map (ref_Name \<circ> cg_Symbol) (cl_Edges rb) = [''main'', ''right'']"
    by (rule exI [of _ "\<lparr>cl_USR = ''c:@F@left'', cl_Edges = map (\<lambda>n. \<lparr>cg_Symbol = ref_of (plain_symbol n), cg_Targets = []\<rparr>) [''main'', ''right''],
      cl_Total = 2, cl_Truncated = False\<rparr>"]) code_simp
  show "\<exists>ra. handleListCallees (\<lambda>_. True) diamond (Some ''c:@F@right'') [] = Inr ra \<and> \<not> cl_Truncated ra"
    by (rule exI [of _ "\<lparr>cl_USR = ''c:@F@right'', cl_Edges = map (\<lambda>n. \<lparr>cg_Symbol = ref_of (plain_symbol n), cg_Targets = []\<rparr>) [''left'', ''sink''],
      cl_Total = 2, cl_Truncated = False\<rparr>"]) code_simp
qed

theorem callers_callees_dual_witness:
  "\<exists>rb ra. handleListCallers (\<lambda>_. True) diamond (Some ''c:@F@left'') [] = Inr rb \<and>
     handleListCallees (\<lambda>_. True) diamond (Some ''c:@F@right'') [] = Inr ra \<and>
     (''c:@F@right'' \<in> ref_USR ` cg_Symbol ` set (cl_Edges rb) \<longleftrightarrow> ''c:@F@left'' \<in> ref_USR ` cg_Symbol ` set (cl_Edges ra))"
proof -
  have ok: "hbr_ok diamond" by code_simp
  obtain rb where rb: "handleListCallers (\<lambda>_. True) diamond (Some ''c:@F@left'') [] = Inr rb" "\<not> cl_Truncated rb"
    using diamond_callers(1) by blast
  obtain ra where ra: "handleListCallees (\<lambda>_. True) diamond (Some ''c:@F@right'') [] = Inr ra" "\<not> cl_Truncated ra"
    using diamond_callers(2) by blast
  have "symbol_in_target diamond [] ''c:@F@right''" "symbol_in_target diamond [] ''c:@F@left''" by code_simp+
  from callers_callees_dual [OF ok rb ra this] show ?thesis using rb(1) ra(1) by blast
qed

end
