(* ===== verification/Mcp_Reload.thy ===== *)
theory Mcp_Reload
  imports Store_Index Go_Flag
begin

text \<open>
  Serving and reloading an index: \<^verbatim>\<open>src/cmd/herbarium/serve.go\<close>, \<^verbatim>\<open>pinIndex\<close> of \<^verbatim>\<open>src/internal/mcp/mcp.go\<close> and
  \<^verbatim>\<open>src/internal/mcp/reload_tool.go\<close>. Tool calls and reloads are threads; a step is what a thread does between two operations
  on the locks, and threads interleave freely. The read-write lock is Go's: a writer that waits keeps new readers out.

  A handle (\<^verbatim>\<open>*sql.DB\<close>) is numbered and is a pool of connections. Each connection stays on the file it was opened on; but while
  calls run the pool may open further connections, and these lead to the file the path names at that time, which need not
  be the file that was checked when the handle was opened; and it may drop connections. A handle that a reload has in its
  hands alone sends one query after the other over the connection of its ping.
\<close>

section \<open>Describing an index\<close>

record ReloadResponse =
  rr_Path :: string
  rr_SchemaVersion :: string
  rr_IndexedAt :: string
  rr_PreviousIndexedAt :: string
  rr_Changed :: bool
  rr_Symbols :: nat
  rr_Targets :: nat
  rr_SourceFiles :: nat

datatype reload_error =
    RE_no_path | RE_path path_fault | RE_store store_error | RE_not_an_index | RE_schema string | RE_indexed_at | RE_count string

definition meta_value :: "(string \<Rightarrow> bool) \<Rightarrow> index option \<Rightarrow> string \<Rightarrow> string option" where
  "meta_value ok t k = (if ok k then Option.bind t (\<lambda>ix. gget (ix_meta ix) k) else None)"

text \<open>The queries fail if the file is not an index, if the row is missing, or if the engine does not answer.\<close>

definition describeIndex :: "(string \<Rightarrow> bool) \<Rightarrow> index option \<Rightarrow> string \<Rightarrow> reload_error + ReloadResponse" where
  "describeIndex ok t path =
     (case meta_value ok t ''schema_version'' of
        None \<Rightarrow> Inl RE_not_an_index
      | Some v \<Rightarrow>
          if v \<noteq> SchemaVersion then Inl (RE_schema v)
          else
            (case meta_value ok t ''indexed_at'' of
               None \<Rightarrow> Inl RE_indexed_at
             | Some at \<Rightarrow>
                 (case t of
                    None \<Rightarrow> Inl RE_not_an_index
                  | Some ix \<Rightarrow>
                      (case find (\<lambda>q. \<not> ok q) [''symbols'', ''targets'', ''sources''] of
                         Some q \<Rightarrow> Inl (RE_count q)
                       | None \<Rightarrow>
                           Inr \<lparr>rr_Path = path, rr_SchemaVersion = v, rr_IndexedAt = at, rr_PreviousIndexedAt = [], rr_Changed = False,
                             rr_Symbols = length (symbols (dd_hbr (ix_dwarf ix))), rr_Targets = length (targets (dd_hbr (ix_dwarf ix))),
                             rr_SourceFiles = length (db_sources (ix_blobs ix))\<rparr>))))"

text \<open>The stamp of the index that is served; nothing if it cannot be read.\<close>

definition indexedAt :: "(string \<Rightarrow> bool) \<Rightarrow> index option \<Rightarrow> string" where
  "indexedAt ok t = (case meta_value ok t ''indexed_at'' of None \<Rightarrow> [] | Some v \<Rightarrow> v)"

text \<open>What the system and the engine answer while the new index is opened.\<close>

record reload_io =
  rl_stat :: bool
  rl_open :: open_answer
  rl_close :: bool
  rl_sql_open :: bool
  rl_sql_ping :: bool

definition open_index :: "reload_io \<Rightarrow> string \<Rightarrow> disk \<Rightarrow> reload_error + nat" where
  "open_index io path d =
     (if path = [] then Inl RE_no_path
      else case DiagnosePath (rl_stat io) (rl_open io) (rl_close io) path d of
             Some f \<Rightarrow> Inl (RE_path f)
           | None \<Rightarrow>
               (case OpenReadOnly (rl_sql_open io) (rl_sql_ping io) path d of
                  Inl e \<Rightarrow> Inl (RE_store e)
                | Inr n \<Rightarrow> Inr n))"

section \<open>Threads\<close>

datatype pc =
    Q_start | Q_run | Q_end
  | R_start | R_locked
  | R_opened nat
  | R_described nat ReloadResponse
  | R_stamping nat ReloadResponse
  | R_ready nat ReloadResponse
  | R_waiting nat ReloadResponse
  | R_writing nat ReloadResponse
  | R_swapped nat ReloadResponse
  | R_end "reload_error + ReloadResponse"

text \<open>
  A handle: the files its connections are open on. The two other fields are history, for the theorems only: the file of its
  ping and the files its path has named since then.
\<close>

record pool =
  pl_conns :: "nat list"
  pl_first :: nat
  pl_named :: "nat list"

definition new_pool :: "nat \<Rightarrow> pool" where
  "new_pool n = \<lparr>pl_conns = [n], pl_first = n, pl_named = [n]\<rparr>"

definition note_named :: "nat option \<Rightarrow> pool \<Rightarrow> pool" where
  "note_named m p = p\<lparr>pl_named := (case m of None \<Rightarrow> pl_named p | Some n \<Rightarrow> n # pl_named p)\<rparr>"

record server =
  sv_pcs :: "pc list"
  sv_db :: nat
  sv_open :: "(nat, pool) gomap"
  sv_next :: nat
  sv_readers :: nat
  sv_writer :: bool
  sv_waiting :: bool
  sv_reloading :: bool
  sv_disk :: disk

definition at_pc :: "server \<Rightarrow> nat \<Rightarrow> pc \<Rightarrow> bool" where
  "at_pc s t p \<longleftrightarrow> t < length (sv_pcs s) \<and> sv_pcs s ! t = p"

definition goto :: "nat \<Rightarrow> pc \<Rightarrow> server \<Rightarrow> server" where
  "goto t p s = s\<lparr>sv_pcs := (sv_pcs s)[t := p]\<rparr>"

text \<open>\<^verbatim>\<open>RLock\<close> may proceed.\<close>

definition may_read :: "server \<Rightarrow> bool" where
  "may_read s \<longleftrightarrow> \<not> sv_writer s \<and> \<not> sv_waiting s"

text \<open>The tables behind the connections of a handle; a query meets one of them, or fails to get a connection.\<close>

definition tables_of_handle :: "server \<Rightarrow> nat \<Rightarrow> index option list" where
  "tables_of_handle s h = (case gget (sv_open s) h of None \<Rightarrow> [] | Some p \<Rightarrow> map (tables_at (sv_disk s)) (pl_conns p))"

definition met_by_query :: "server \<Rightarrow> nat \<Rightarrow> index option \<Rightarrow> bool" where
  "met_by_query s h t \<longleftrightarrow> t = None \<or> t \<in> set (tables_of_handle s h)"

text \<open>
  The steps of the threads. A tool call takes the read lock, runs, and releases it (\<^verbatim>\<open>pinIndex\<close>); the reload goes its own
  way (\<^verbatim>\<open>Reload\<close>).
\<close>

inductive tstep :: "string \<Rightarrow> server \<Rightarrow> server \<Rightarrow> bool" for path where
  admit: "at_pc s t Q_start \<Longrightarrow> may_read s \<Longrightarrow> tstep path s (goto t Q_run (s\<lparr>sv_readers := sv_readers s + 1\<rparr>))"
| leave: "at_pc s t Q_run \<Longrightarrow> tstep path s (goto t Q_end (s\<lparr>sv_readers := sv_readers s - 1\<rparr>))"
| single_flight: "at_pc s t R_start \<Longrightarrow> \<not> sv_reloading s \<Longrightarrow> tstep path s (goto t R_locked (s\<lparr>sv_reloading := True\<rparr>))"
| not_opened: "at_pc s t R_locked \<Longrightarrow> open_index io path (sv_disk s) = Inl e \<Longrightarrow>
    tstep path s (goto t (R_end (Inl e)) (s\<lparr>sv_reloading := False\<rparr>))"
| opened: "at_pc s t R_locked \<Longrightarrow> open_index io path (sv_disk s) = Inr n \<Longrightarrow>
    tstep path s (goto t (R_opened (sv_next s)) (s\<lparr>sv_open := gput (sv_next s) (new_pool n) (sv_open s), sv_next := sv_next s + 1\<rparr>))"
| not_described: "at_pc s t (R_opened h) \<Longrightarrow> met_by_query s h ix \<Longrightarrow> describeIndex ok ix path = Inl e \<Longrightarrow>
    tstep path s (goto t (R_end (Inl e)) (s\<lparr>sv_open := gdel h (sv_open s), sv_reloading := False\<rparr>))"
| described: "at_pc s t (R_opened h) \<Longrightarrow> met_by_query s h ix \<Longrightarrow> describeIndex ok ix path = Inr resp \<Longrightarrow>
    tstep path s (goto t (R_described h resp) s)"
| stamp_lock: "at_pc s t (R_described h resp) \<Longrightarrow> may_read s \<Longrightarrow>
    tstep path s (goto t (R_stamping h resp) (s\<lparr>sv_readers := sv_readers s + 1\<rparr>))"
| stamp: "at_pc s t (R_stamping h resp) \<Longrightarrow> met_by_query s (sv_db s) ix \<Longrightarrow> prev = indexedAt ok ix \<Longrightarrow>
    tstep path s (goto t (R_ready h (resp\<lparr>rr_PreviousIndexedAt := prev, rr_Changed := (rr_IndexedAt resp \<noteq> prev)\<rparr>))
      (s\<lparr>sv_readers := sv_readers s - 1\<rparr>))"
| lock: "at_pc s t (R_ready h resp) \<Longrightarrow> \<not> sv_waiting s \<Longrightarrow> tstep path s (goto t (R_waiting h resp) (s\<lparr>sv_waiting := True\<rparr>))"
| locked: "at_pc s t (R_waiting h resp) \<Longrightarrow> sv_readers s = 0 \<Longrightarrow> \<not> sv_writer s \<Longrightarrow>
    tstep path s (goto t (R_writing h resp) (s\<lparr>sv_waiting := False, sv_writer := True\<rparr>))"
| swap: "at_pc s t (R_writing h resp) \<Longrightarrow>
    tstep path s (goto t (R_swapped (sv_db s) resp) (s\<lparr>sv_db := h, sv_writer := False\<rparr>))"
| close_old: "at_pc s t (R_swapped old resp) \<Longrightarrow>
    tstep path s (goto t (R_end (Inr resp)) (s\<lparr>sv_open := gdel old (sv_open s), sv_reloading := False\<rparr>))"

definition disk_grows :: "disk \<Rightarrow> disk \<Rightarrow> bool" where
  "disk_grows d d' \<longleftrightarrow> (\<forall>n f. gget (dk_files d) n = Some f \<longrightarrow> gget (dk_files d') n = Some f)"

text \<open>
  The steps around the threads: another process changes the disk, but not the contents of a file that is there; the pool
  that serves opens a connection for a query, or drops one; a call or a reload arrives.
\<close>

definition change_disk :: "string \<Rightarrow> disk \<Rightarrow> server \<Rightarrow> server" where
  "change_disk path d s = s\<lparr>sv_disk := d, sv_open := map (apsnd (note_named (gget (dk_names d) path))) (sv_open s)\<rparr>"

definition set_conns :: "pool \<Rightarrow> nat list \<Rightarrow> server \<Rightarrow> server" where
  "set_conns p ns s = s\<lparr>sv_open := gput (sv_db s) (p\<lparr>pl_conns := ns\<rparr>) (sv_open s)\<rparr>"

inductive sstep :: "string \<Rightarrow> server \<Rightarrow> server \<Rightarrow> bool" for path where
  thread: "tstep path s s' \<Longrightarrow> sstep path s s'"
| outside: "disk_grows (sv_disk s) d \<Longrightarrow> sstep path s (change_disk path d s)"
| connect: "0 < sv_readers s \<Longrightarrow> gget (sv_open s) (sv_db s) = Some p \<Longrightarrow> gget (dk_names (sv_disk s)) path = Some n \<Longrightarrow>
    sstep path s (set_conns p (pl_conns p @ [n]) s)"
| disconnect: "gget (sv_open s) (sv_db s) = Some p \<Longrightarrow> sstep path s (set_conns p (remove1 n (pl_conns p)) s)"
| arrival: "p \<in> {Q_start, R_start} \<Longrightarrow> sstep path s (s\<lparr>sv_pcs := sv_pcs s @ [p]\<rparr>)"

inductive_cases tstepE: "tstep path s s'"
inductive_cases sstepE: "sstep path s s'"

section \<open>Serving\<close>

datatype serve_error =
    V_flags flag_error | V_required | V_abs | V_path path_fault | V_store store_error | V_not_an_index | V_schema string
  | V_transport string | V_serving

definition start_server :: "nat \<Rightarrow> disk \<Rightarrow> server" where
  "start_server n d = \<lparr>sv_pcs = [], sv_db = 0, sv_open = [(0, new_pool n)], sv_next = 1, sv_readers = 0, sv_writer = False,
     sv_waiting = False, sv_reloading = False, sv_disk = d\<rparr>"

inductive reachable :: "string \<Rightarrow> server \<Rightarrow> bool" for path where
  start: "gget (dk_names d) path = Some n \<Longrightarrow> tables_at d n = Some ix \<Longrightarrow> gget (ix_meta ix) ''schema_version'' = Some SchemaVersion \<Longrightarrow> reachable path (start_server n d)"
| step: "reachable path s \<Longrightarrow> sstep path s s' \<Longrightarrow> reachable path s'"

definition serve_flags :: "string \<Rightarrow> flag_kind option" where
  "serve_flags = map_of [(''hbr'', Text_flag), (''project-root'', Text_flag), (''transport'', Text_flag), (''http-addr'', Text_flag), (''check'', Bool_flag)]"

record serve_env =
  sv_cwd :: "string option"
  sv_io :: reload_io
  sv_version_query :: bool
  sv_serves :: bool

text \<open>Either the exit with an error, or the server that was started and whether it was only a check.\<close>

definition runServe :: "serve_env \<Rightarrow> string list \<Rightarrow> disk \<Rightarrow> serve_error + (server \<times> string \<times> bool)" where
  "runServe env args d =
     (case parse_flags serve_flags args no_flags of
        Inl e \<Rightarrow> Inl (V_flags e)
      | Inr fv \<Rightarrow>
          let hbr = gget_or [] (fv_text fv) ''hbr''; transport = gget_or ''stdio'' (fv_text fv) ''transport'' in
          if hbr = [] then Inl V_required
          else
            (case abs_of (sv_cwd env) hbr of
               None \<Rightarrow> Inl V_abs
             | Some hbrPath \<Rightarrow>
                 (case DiagnosePath (rl_stat (sv_io env)) (rl_open (sv_io env)) (rl_close (sv_io env)) hbrPath d of
                    Some f \<Rightarrow> Inl (V_path f)
                  | None \<Rightarrow>
                      (case OpenReadOnly (rl_sql_open (sv_io env)) (rl_sql_ping (sv_io env)) hbrPath d of
                         Inl e \<Rightarrow> Inl (V_store e)
                       | Inr n \<Rightarrow>
                           (case meta_value (\<lambda>_. sv_version_query env) (tables_at d n) ''schema_version'' of
                              None \<Rightarrow> Inl V_not_an_index
                            | Some ver \<Rightarrow>
                                if ver \<noteq> SchemaVersion then Inl (V_schema ver)
                                else if gget_or False (fv_bool fv) ''check'' then Inr (start_server n d, hbrPath, True)
                                else if transport \<noteq> ''stdio'' \<and> transport \<noteq> ''http'' then Inl (V_transport transport)
                                else if \<not> sv_serves env then Inl V_serving
                                else Inr (start_server n d, hbrPath, False))))))"

definition serve_exit :: "serve_error + 'a \<Rightarrow> nat" where
  "serve_exit r = (case r of
     Inr _ \<Rightarrow> 0 | Inl (V_flags _) \<Rightarrow> 2 | Inl V_required \<Rightarrow> 2 | Inl (V_transport _) \<Rightarrow> 2 | Inl _ \<Rightarrow> 1)"


section \<open>The invariant\<close>

fun reads :: "pc \<Rightarrow> bool" where
  "reads Q_run = True" | "reads (R_stamping _ _) = True" | "reads _ = False"

fun waits :: "pc \<Rightarrow> bool" where
  "waits (R_waiting _ _) = True" | "waits _ = False"

fun writes :: "pc \<Rightarrow> bool" where
  "writes (R_writing _ _) = True" | "writes _ = False"

fun reloads :: "pc \<Rightarrow> bool" where
  "reloads Q_start = False" | "reloads Q_run = False" | "reloads Q_end = False" | "reloads R_start = False"
| "reloads (R_end _) = False" | "reloads _ = True"

text \<open>The handle a reload has in its hands beside the one that serves: the new one, then the old one.\<close>

fun handle :: "pc \<Rightarrow> nat option" where
  "handle (R_opened h) = Some h" | "handle (R_described h _) = Some h" | "handle (R_stamping h _) = Some h"
| "handle (R_ready h _) = Some h" | "handle (R_waiting h _) = Some h" | "handle (R_writing h _) = Some h"
| "handle (R_swapped h _) = Some h" | "handle _ = None"

fun checked :: "pc \<Rightarrow> nat option" where
  "checked (R_described h _) = Some h" | "checked (R_stamping h _) = Some h" | "checked (R_ready h _) = Some h"
| "checked (R_waiting h _) = Some h" | "checked (R_writing h _) = Some h" | "checked _ = None"

text \<open>The new handle, which only the reload can use.\<close>

fun private_handle :: "pc \<Rightarrow> nat option" where
  "private_handle (R_opened h) = Some h" | "private_handle (R_described h _) = Some h" | "private_handle (R_stamping h _) = Some h"
| "private_handle (R_ready h _) = Some h" | "private_handle (R_waiting h _) = Some h" | "private_handle (R_writing h _) = Some h"
| "private_handle _ = None"

definition number :: "(pc \<Rightarrow> bool) \<Rightarrow> server \<Rightarrow> nat" where
  "number P s = length (filter P (sv_pcs s))"

definition in_hand :: "(pc \<Rightarrow> nat option) \<Rightarrow> server \<Rightarrow> nat set" where
  "in_hand f s = {h. \<exists>p \<in> set (sv_pcs s). f p = Some h}"

definition valid_file :: "disk \<Rightarrow> nat \<Rightarrow> bool" where
  "valid_file d n \<longleftrightarrow> (\<exists>ix. tables_at d n = Some ix \<and> gget (ix_meta ix) ''schema_version'' = Some SchemaVersion)"

definition locks_ok :: "server \<Rightarrow> bool" where
  "locks_ok s \<longleftrightarrow>
     number reads s = sv_readers s \<and> number waits s = of_bool (sv_waiting s) \<and>
     number writes s = of_bool (sv_writer s) \<and> number reloads s = of_bool (sv_reloading s) \<and>
     (sv_writer s \<longrightarrow> sv_readers s = 0)"

text \<open>
  The open handles are the one that serves and the one in hand, if any. No connection of a handle leads to a file that the
  path has not named since the handle was opened. A new handle has the connection of its ping alone; once it has been
  checked, and when it serves, that file is an index of the schema that is served.
\<close>

definition pool_ok :: "nat option \<Rightarrow> pool \<Rightarrow> bool" where
  "pool_ok m p \<longleftrightarrow> set (pl_conns p) \<subseteq> set (pl_named p) \<and> pl_first p \<in> set (pl_named p) \<and> set_option m \<subseteq> set (pl_named p)"

definition handles_are ::
  "nat option \<Rightarrow> (nat, pool) gomap \<Rightarrow> nat \<Rightarrow> nat \<Rightarrow> disk \<Rightarrow> nat set \<Rightarrow> nat set \<Rightarrow> nat set \<Rightarrow> bool" where
  "handles_are m opn db nxt d held prv chk \<longleftrightarrow>
     (\<forall>h. gget opn h \<noteq> None \<longleftrightarrow> h = db \<or> h \<in> held) \<and> db \<notin> held \<and> (\<forall>h. gget opn h \<noteq> None \<longrightarrow> h < nxt) \<and>
     (\<forall>h p. gget opn h = Some p \<longrightarrow> pool_ok m p) \<and>
     (\<forall>h p. h \<in> prv \<and> gget opn h = Some p \<longrightarrow> pl_conns p = [pl_first p]) \<and>
     (\<forall>h p. (h = db \<or> h \<in> chk) \<and> gget opn h = Some p \<longrightarrow> valid_file d (pl_first p))"

definition handles_ok :: "string \<Rightarrow> server \<Rightarrow> bool" where
  "handles_ok path s \<longleftrightarrow> handles_are (gget (dk_names (sv_disk s)) path) (sv_open s) (sv_db s) (sv_next s) (sv_disk s)
     (in_hand handle s) (in_hand private_handle s) (in_hand checked s)"

subsection \<open>Moving one thread\<close>

lemma filter_update_length:
  "t < length xs \<Longrightarrow> length (filter P (xs[t := p])) + of_bool (P (xs ! t)) = length (filter P xs) + of_bool (P p)"
proof (induction xs arbitrary: t)
  case (Cons x xs)
  then show ?case by (cases t) auto
qed simp

lemma number_goto: "at_pc s t q \<Longrightarrow> number P (goto t p s) + of_bool (P q) = number P s + of_bool (P p)"
  using filter_update_length [of t "sv_pcs s" P p] by (auto simp: number_def goto_def at_pc_def)

lemma number_pos: "at_pc s t q \<Longrightarrow> P q \<Longrightarrow> 0 < number P s"
  by (auto simp: number_def at_pc_def length_greater_0_conv [symmetric] filter_empty_conv simp del: length_greater_0_conv
      intro!: length_pos_if_in_set [of q])

text \<open>If only the moving thread holds a handle, what is in hand is what it holds.\<close>

lemma in_hand_goto_same: "at_pc s t q \<Longrightarrow> f p = f q \<Longrightarrow> in_hand f (goto t p s) = in_hand f s"
proof -
  assume a: "at_pc s t q" and e: "f p = f q"
  have "map f ((sv_pcs s)[t := p]) = map f (sv_pcs s)" using a e by (simp add: List.map_update at_pc_def list_update_same_conv)
  then have "f ` set ((sv_pcs s)[t := p]) = f ` set (sv_pcs s)" by (metis list.set_map)
  then show ?thesis unfolding in_hand_def goto_def by (auto simp: image_iff set_eq_iff Bex_def) (metis+)
qed

lemma only_one:
  assumes "length (filter P xs) \<le> 1" "t < length xs" "P (xs ! t)" "u < length xs" "u \<noteq> t"
  shows "\<not> P (xs ! u)"
proof
  assume "P (xs ! u)"
  then have "{t, u} \<subseteq> {i. i < length xs \<and> P (xs ! i)}" using assms by auto
  then have "card {t, u} \<le> length (filter P xs)" unfolding length_filter_conv_card by (rule card_mono [rotated]) simp
  then show False using assms by simp
qed

lemma in_hand_goto:
  assumes "at_pc s t q" "\<And>u. u < length (sv_pcs s) \<Longrightarrow> u \<noteq> t \<Longrightarrow> f (sv_pcs s ! u) = None"
  shows "in_hand f (goto t p s) = set_option (f p)" "in_hand f s = set_option (f q)"
proof -
  have "in_hand f (goto t p s) \<subseteq> set_option (f p)" "in_hand f s \<subseteq> set_option (f q)"
    using assms by (auto simp: in_hand_def goto_def in_set_conv_nth at_pc_def nth_list_update) (metis option.distinct(1) option.inject)+
  moreover have "p \<in> set ((sv_pcs s)[t := p])" "q \<in> set (sv_pcs s)" using assms(1) by (auto simp: at_pc_def set_update_memI)
  then have "set_option (f p) \<subseteq> in_hand f (goto t p s)" "set_option (f q) \<subseteq> in_hand f s" by (auto simp: in_hand_def goto_def)
  ultimately show "in_hand f (goto t p s) = set_option (f p)" "in_hand f s = set_option (f q)" by auto
qed

lemma reloads_handle: "\<not> reloads p \<Longrightarrow> handle p = None \<and> checked p = None \<and> private_handle p = None"
  by (cases p) auto

lemma reads_not_alone: "number reads s = 0 \<Longrightarrow> at_pc s t q \<Longrightarrow> \<not> reads q"
  using number_pos [of s t q reads] by auto

text \<open>The other threads hold nothing while a reload holds its mutex, or takes it.\<close>

lemma others_none:
  assumes "locks_ok s" "at_pc s t q" "reloads q \<or> \<not> sv_reloading s" "u < length (sv_pcs s)" "u \<noteq> t"
  shows "handle (sv_pcs s ! u) = None" "checked (sv_pcs s ! u) = None" "private_handle (sv_pcs s ! u) = None"
proof -
  have "\<not> reloads (sv_pcs s ! u)"
  proof (cases "sv_reloading s")
    case True
    then have "length (filter reloads (sv_pcs s)) \<le> 1" using assms(1) by (simp add: locks_ok_def number_def)
    then show ?thesis using only_one [of reloads "sv_pcs s" t u] assms True by (simp add: at_pc_def)
  next
    case False
    then have "number reloads s = 0" using assms(1) by (simp add: locks_ok_def)
    then show ?thesis using assms(4) by (auto simp: number_def filter_empty_conv)
  qed
  then show "handle (sv_pcs s ! u) = None" "checked (sv_pcs s ! u) = None" "private_handle (sv_pcs s ! u) = None" using reloads_handle by blast+
qed


subsection \<open>Preservation\<close>

lemma goto_fields [simp]:
  "sv_db (goto t p s) = sv_db s" "sv_open (goto t p s) = sv_open s" "sv_next (goto t p s) = sv_next s" "sv_readers (goto t p s) = sv_readers s"
  "sv_writer (goto t p s) = sv_writer s" "sv_waiting (goto t p s) = sv_waiting s" "sv_reloading (goto t p s) = sv_reloading s"
  "sv_disk (goto t p s) = sv_disk s"
  by (simp_all add: goto_def)

lemma number_move: "number P (goto t p s) = length (filter P ((sv_pcs s)[t := p]))"
  by (simp add: number_def goto_def)

lemma moved:
  assumes "at_pc s t q"
  shows "length (filter P ((sv_pcs s)[t := p])) = number P s + of_bool (P p) - of_bool (P q)"
  using number_goto [OF assms, of P p] by (simp add: number_move)

lemma locks_tstep: "tstep path s s' \<Longrightarrow> locks_ok s \<Longrightarrow> locks_ok s'"
proof (induction rule: tstep.induct)
  case (admit s t)
  then show ?case using admit by (simp add: locks_ok_def number_move moved [OF admit(1)] may_read_def)
next
  case (leave s t)
  then show ?case using number_pos [OF leave(1), of reads] by (simp add: locks_ok_def number_move moved [OF leave(1)])
next
  case (single_flight s t)
  then show ?case using single_flight by (simp add: locks_ok_def number_move moved [OF single_flight(1)])
next
  case (not_opened s t io e)
  then show ?case using number_pos [OF not_opened(1), of reloads] by (simp add: locks_ok_def number_move moved [OF not_opened(1)])
next
  case (opened s t io n)
  then show ?case using opened by (simp add: locks_ok_def number_move moved [OF opened(1)])
next
  case (not_described s t h ix ok e)
  then show ?case using number_pos [OF not_described(1), of reloads] by (simp add: locks_ok_def number_move moved [OF not_described(1)])
next
  case (described s t h ix ok resp)
  then show ?case using described by (simp add: locks_ok_def number_move moved [OF described(1)])
next
  case (stamp_lock s t h resp)
  then show ?case using stamp_lock by (simp add: locks_ok_def number_move moved [OF stamp_lock(1)] may_read_def)
next
  case (stamp s t h resp ix prev ok)
  then show ?case using number_pos [OF stamp(1), of reads] by (simp add: locks_ok_def number_move moved [OF stamp(1)])
next
  case (lock s t h resp)
  then show ?case using lock by (simp add: locks_ok_def number_move moved [OF lock(1)])
next
  case (locked s t h resp)
  then show ?case using number_pos [OF locked(1), of waits] by (simp add: locks_ok_def number_move moved [OF locked(1)])
next
  case (swap s t h resp)
  then show ?case using number_pos [OF swap(1), of writes] by (simp add: locks_ok_def number_move moved [OF swap(1)])
next
  case (close_old s t old resp)
  then show ?case using number_pos [OF close_old(1), of reloads] by (simp add: locks_ok_def number_move moved [OF close_old(1)])
qed


lemma hand_same: "at_pc s t q \<Longrightarrow> f p = f q \<Longrightarrow> sv_pcs s' = sv_pcs s \<Longrightarrow> in_hand f (goto t p s') = in_hand f s"
  using in_hand_goto_same [of s t q f p] by (simp add: in_hand_def goto_def)

lemma hand_alone:
  assumes "locks_ok s" "at_pc s t q" "reloads q \<or> \<not> sv_reloading s" "sv_pcs s' = sv_pcs s"
  shows "in_hand handle (goto t p s') = set_option (handle p)" "in_hand checked (goto t p s') = set_option (checked p)"
    "in_hand private_handle (goto t p s') = set_option (private_handle p)"
    "in_hand handle s = set_option (handle q)" "in_hand checked s = set_option (checked q)"
    "in_hand private_handle s = set_option (private_handle q)"
proof -
  have g: "in_hand f (goto t p s') = in_hand f (goto t p s)" for f using assms(4) by (simp add: in_hand_def goto_def)
  show "in_hand handle (goto t p s') = set_option (handle p)" "in_hand checked (goto t p s') = set_option (checked p)"
    "in_hand private_handle (goto t p s') = set_option (private_handle p)"
    "in_hand handle s = set_option (handle q)" "in_hand checked s = set_option (checked q)"
    "in_hand private_handle s = set_option (private_handle q)"
    unfolding g by (rule in_hand_goto [OF assms(2)]; use others_none [OF assms(1-3)] in blast)+
qed

lemma describe_valid: "describeIndex ok (tables_at d n) path = Inr resp \<Longrightarrow> valid_file d n"
  by (auto simp: describeIndex_def meta_value_def valid_file_def split: option.splits if_splits bind_splits)

lemma describe_none: "describeIndex ok None path \<noteq> Inr resp"
  by (simp add: describeIndex_def meta_value_def)

text \<open>The check reads the file of the ping, for a new handle has no other connection.\<close>

lemma described_first:
  assumes "met_by_query s h t" "describeIndex ok t path = Inr resp" "gget (sv_open s) h = Some p" "pl_conns p = [pl_first p]"
  shows "valid_file (sv_disk s) (pl_first p)"
proof -
  have "t = tables_at (sv_disk s) (pl_first p)"
    using assms describe_none by (auto simp: met_by_query_def tables_of_handle_def)
  then show ?thesis using assms(2) describe_valid by simp
qed

lemma quiet_step:
  assumes "at_pc s t q" "handle p = handle q" "checked p = checked q" "private_handle p = private_handle q" "handles_ok path s"
    "sv_pcs s' = sv_pcs s" "sv_open s' = sv_open s" "sv_db s' = sv_db s" "sv_next s' = sv_next s" "sv_disk s' = sv_disk s"
  shows "handles_ok path (goto t p s')"
  using assms hand_same [of s t q handle p s'] hand_same [of s t q checked p s'] hand_same [of s t q private_handle p s']
  by (simp add: handles_ok_def)

text \<open>The four ways in which the open handles change.\<close>

lemma handles_new:
  "handles_are m opn db nxt d {} {} {} \<Longrightarrow> m = Some n \<Longrightarrow> handles_are m (gput nxt (new_pool n) opn) db (nxt + 1) d {nxt} {nxt} {}"
  by (auto simp: handles_are_def pool_ok_def new_pool_def)

lemma handles_drop: "handles_are m opn db nxt d {h} prv chk \<Longrightarrow> handles_are m (gdel h opn) db nxt d {} {} {}"
  by (auto simp: handles_are_def)

lemma handles_check:
  "handles_are m opn db nxt d {h} {h} {} \<Longrightarrow> (\<And>p. gget opn h = Some p \<Longrightarrow> pl_conns p = [pl_first p] \<Longrightarrow> valid_file d (pl_first p)) \<Longrightarrow>
     handles_are m opn db nxt d {h} {h} {h}"
  by (auto simp: handles_are_def)

lemma handles_swap: "handles_are m opn db nxt d {h} {h} {h} \<Longrightarrow> handles_are m opn h nxt d {db} {} {}"
  by (auto simp: handles_are_def)

lemma opened_names: "open_index io path d = Inr n \<Longrightarrow> gget (dk_names d) path = Some n"
  by (auto simp: open_index_def OpenReadOnly_def split: if_splits option.splits sum.splits)

lemma handles_tstep: "tstep path s s' \<Longrightarrow> locks_ok s \<Longrightarrow> handles_ok path s \<Longrightarrow> handles_ok path s'"
proof (induction rule: tstep.induct)
  case (admit s t) then show ?case by (intro quiet_step [OF admit(1)]) simp_all
next
  case (leave s t) then show ?case by (intro quiet_step [OF leave(1)]) simp_all
next
  case (single_flight s t) then show ?case by (intro quiet_step [OF single_flight(1)]) simp_all
next
  case (not_opened s t io e) then show ?case by (intro quiet_step [OF not_opened(1)]) simp_all
next
  case (opened s t io n)
  then show ?case using handles_new [OF _ opened_names [OF opened(2)]] unfolding handles_ok_def goto_fields
    by (simp add: hand_alone [OF opened(3,1)])
next
  case (not_described s t h ix ok e)
  then show ?case using handles_drop unfolding handles_ok_def goto_fields
    by (simp add: hand_alone [OF not_described(4,1)])
next
  case (described s t h ix ok resp)
  show ?case using described(5) handles_check [OF _ described_first [OF described(2,3)]] unfolding handles_ok_def goto_fields
    by (simp add: hand_alone [OF described(4,1)])
next
  case (stamp_lock s t h resp) then show ?case by (intro quiet_step [OF stamp_lock(1)]) simp_all
next
  case (stamp s t h resp ix prev ok) then show ?case by (intro quiet_step [OF stamp(1)]) simp_all
next
  case (lock s t h resp) then show ?case by (intro quiet_step [OF lock(1)]) simp_all
next
  case (locked s t h resp) then show ?case by (intro quiet_step [OF locked(1)]) simp_all
next
  case (swap s t h resp)
  then show ?case using handles_swap unfolding handles_ok_def goto_fields
    by (simp add: hand_alone [OF swap(2,1)])
next
  case (close_old s t old resp)
  then show ?case using handles_drop unfolding handles_ok_def goto_fields
    by (simp add: hand_alone [OF close_old(2,1)])
qed


section \<open>Reachable states\<close>

lemma tables_grow: "disk_grows d d' \<Longrightarrow> tables_at d n = Some ix \<Longrightarrow> tables_at d' n = Some ix"
  by (auto simp: disk_grows_def tables_at_def split: option.splits hbr_file.splits)

lemma valid_grow: "disk_grows d d' \<Longrightarrow> valid_file d n \<Longrightarrow> valid_file d' n"
  unfolding valid_file_def using tables_grow by blast

lemma valid_same: "disk_grows d d' \<Longrightarrow> valid_file d n \<Longrightarrow> tables_at d' n = tables_at d n"
  unfolding valid_file_def using tables_grow by fastforce

lemma gget_apsnd: "gget (map (apsnd f) m) h = map_option f (gget m h)"
  by (induction m) (auto simp: gget_def)

lemma note_named_simps [simp]:
  "pl_conns (note_named m p) = pl_conns p" "pl_first (note_named m p) = pl_first p"
  "set (pl_named (note_named m p)) = set (pl_named p) \<union> set_option m"
  by (auto simp: note_named_def split: option.splits)

lemma handles_note:
  "handles_are m opn db nxt d held prv chk \<Longrightarrow> disk_grows d d' \<Longrightarrow>
     handles_are m' (map (apsnd (note_named m')) opn) db nxt d' held prv chk"
  using valid_grow [of d d'] unfolding handles_are_def gget_apsnd map_option_is_None map_option_eq_Some pool_ok_def
  by (elim conjE; intro conjI allI impI; (elim conjE exE)?) fastforce+

lemma handles_conns:
  assumes "handles_are m opn db nxt d held prv chk" "prv \<subseteq> held" "gget opn db = Some p" "set ns \<subseteq> set (pl_named p)"
  shows "handles_are m (gput db (p\<lparr>pl_conns := ns\<rparr>) opn) db nxt d held prv chk"
  using assms by (auto simp: handles_are_def pool_ok_def)

lemma private_held: "in_hand private_handle s \<subseteq> in_hand handle s"
proof -
  have "handle p = Some h" if "private_handle p = Some h" for p h using that by (cases p) auto
  then show ?thesis by (auto simp: in_hand_def)
qed

lemma served_pool:
  assumes "handles_ok path s"
  obtains p where "gget (sv_open s) (sv_db s) = Some p" "pool_ok (gget (dk_names (sv_disk s)) path) p" "valid_file (sv_disk s) (pl_first p)"
proof -
  have a: "gget (sv_open s) (sv_db s) \<noteq> None" using assms unfolding handles_ok_def handles_are_def by blast
  then obtain p where p: "gget (sv_open s) (sv_db s) = Some p" by blast
  show ?thesis by (rule that [OF p]) (use p assms in \<open>auto simp: handles_ok_def handles_are_def\<close>)
qed

lemma set_conns_ok:
  assumes "handles_ok path s" "gget (sv_open s) (sv_db s) = Some p" "set ns \<subseteq> set (pl_named p)"
  shows "handles_ok path (set_conns p ns s)"
  using handles_conns [OF assms(1) [unfolded handles_ok_def] private_held assms(2,3)]
  by (simp add: handles_ok_def set_conns_def in_hand_def)

lemma sstep_ok: "sstep path s s' \<Longrightarrow> locks_ok s \<and> handles_ok path s \<Longrightarrow> locks_ok s' \<and> handles_ok path s'"
proof (induction rule: sstep.induct)
  case (thread s s')
  then show ?case using locks_tstep handles_tstep by blast
next
  case (outside s d)
  have "in_hand f (change_disk path d s) = in_hand f s" for f by (simp add: in_hand_def change_disk_def)
  then have "handles_ok path (change_disk path d s)"
    using handles_note [OF conjunct2 [OF outside(2), unfolded handles_ok_def] outside(1)] unfolding handles_ok_def
    by (simp add: change_disk_def)
  then show ?case using outside(2) by (simp add: locks_ok_def change_disk_def number_def)
next
  case (connect s p n)
  have "pool_ok (gget (dk_names (sv_disk s)) path) p" using connect(2,4) by (auto simp: handles_ok_def handles_are_def)
  then have "handles_ok path (set_conns p (pl_conns p @ [n]) s)"
    using connect by (intro set_conns_ok) (auto simp: pool_ok_def)
  then show ?case using connect(4) by (simp add: set_conns_def locks_ok_def number_def)
next
  case (disconnect s p n)
  have "pool_ok (gget (dk_names (sv_disk s)) path) p" using disconnect by (auto simp: handles_ok_def handles_are_def)
  then have "handles_ok path (set_conns p (remove1 n (pl_conns p)) s)"
    using disconnect set_remove1_subset [of n "pl_conns p"] by (intro set_conns_ok) (auto simp: pool_ok_def)
  then show ?case using disconnect(2) by (simp add: set_conns_def locks_ok_def number_def)
next
  case (arrival p s)
  have "in_hand f (s\<lparr>sv_pcs := sv_pcs s @ [p]\<rparr>) = in_hand f s" if "f Q_start = None" "f R_start = None" for f
    using arrival(1) that by (auto simp: in_hand_def)
  then show ?case using arrival by (auto simp: locks_ok_def handles_ok_def number_def)
qed

lemma reachable_ok: "reachable path s \<Longrightarrow> locks_ok s \<and> handles_ok path s"
proof (induction rule: reachable.induct)
  case (start d n ix)
  then show ?case
    by (auto simp: start_server_def locks_ok_def handles_ok_def handles_are_def number_def in_hand_def valid_file_def pool_ok_def
        new_pool_def gget_def split: if_splits)
next
  case (step s s')
  then show ?case using sstep_ok by blast
qed

text \<open>While a call runs, no step gives the server another handle or closes the one it has.\<close>

lemma tstep_serving:
  "tstep path s s' \<Longrightarrow> locks_ok s \<Longrightarrow> handles_ok path s \<Longrightarrow> sv_disk s' = sv_disk s \<and>
     (0 < sv_readers s \<longrightarrow> sv_db s' = sv_db s) \<and> (sv_db s' = sv_db s \<longrightarrow> gget (sv_open s') (sv_db s) = gget (sv_open s) (sv_db s))"
proof (induction rule: tstep.induct)
  case (opened s t io n)
  have "sv_next s \<noteq> sv_db s" using opened(4) unfolding handles_ok_def handles_are_def by (metis less_irrefl)
  then show ?case by simp
next
  case (not_described s t h ix ok e)
  have "h \<noteq> sv_db s" using not_described(5) hand_alone(4) [OF not_described(4,1), of s] by (auto simp: handles_ok_def handles_are_def)
  then show ?case by simp
next
  case (swap s t h resp)
  have "sv_readers s = 0" using swap(2) number_pos [OF swap(1), of writes] by (auto simp: locks_ok_def)
  then show ?case by simp
next
  case (close_old s t old resp)
  have "old \<noteq> sv_db s" using close_old(3) hand_alone(4) [OF close_old(2,1), of s] by (auto simp: handles_ok_def handles_are_def)
  then show ?case by simp
qed simp_all

lemma call_reads: "locks_ok s \<Longrightarrow> at_pc s t Q_run \<Longrightarrow> 0 < sv_readers s"
  using number_pos [of s t Q_run reads] by (simp add: locks_ok_def)

text \<open>What the handle of a running call keeps: it serves on, stays open, keeps the file of its ping, and only gains names.\<close>

definition keeps_serving :: "server \<Rightarrow> server \<Rightarrow> bool" where
  "keeps_serving s s' \<longleftrightarrow> sv_db s' = sv_db s \<and>
     (\<exists>p p'. gget (sv_open s) (sv_db s) = Some p \<and> gget (sv_open s') (sv_db s) = Some p' \<and> pl_first p' = pl_first p \<and>
        set (pl_named p) \<subseteq> set (pl_named p') \<and> tables_at (sv_disk s') (pl_first p) = tables_at (sv_disk s) (pl_first p))"

lemma keeps_refl: "handles_ok path s \<Longrightarrow> keeps_serving s s"
  by (erule served_pool) (simp add: keeps_serving_def)

lemma keeps_trans: "keeps_serving s s' \<Longrightarrow> keeps_serving s' s'' \<Longrightarrow> keeps_serving s s''"
  unfolding keeps_serving_def by (elim conjE exE) auto

lemma sstep_serving:
  assumes "locks_ok s" "handles_ok path s" "sstep path s s'" "0 < sv_readers s"
  shows "keeps_serving s s'"
proof -
  obtain p where p: "gget (sv_open s) (sv_db s) = Some p" "valid_file (sv_disk s) (pl_first p)" using served_pool [OF assms(2)] by metis
  show ?thesis using assms(3)
  proof cases
    case thread
    then show ?thesis using tstep_serving [OF thread assms(1,2)] assms(4) p by (simp add: keeps_serving_def)
  next
    case (outside d)
    then show ?thesis using valid_same [OF outside(2) p(2)] p by (simp add: keeps_serving_def change_disk_def gget_apsnd)
  qed (use p in \<open>simp_all add: keeps_serving_def set_conns_def\<close>)
qed

text \<open>The states in which one call runs, from one of them to a later one.\<close>

inductive during :: "string \<Rightarrow> nat \<Rightarrow> server \<Rightarrow> server \<Rightarrow> bool" for path t where
  here: "at_pc s t Q_run \<Longrightarrow> during path t s s"
| on: "during path t s s' \<Longrightarrow> sstep path s' s'' \<Longrightarrow> at_pc s'' t Q_run \<Longrightarrow> during path t s s''"

lemma during_runs: "during path t s s' \<Longrightarrow> at_pc s' t Q_run"
  by (induction rule: during.induct)

lemma during_ok:
  "during path t s s' \<Longrightarrow> locks_ok s \<and> handles_ok path s \<Longrightarrow> locks_ok s' \<and> handles_ok path s' \<and> keeps_serving s s'"
proof (induction rule: during.induct)
  case (here s)
  then show ?case using keeps_refl by blast
next
  case (on s s' s'')
  then have ok: "locks_ok s'" "handles_ok path s'" "keeps_serving s s'" by auto
  have "keeps_serving s' s''" using sstep_serving [OF ok(1,2) on(2)] call_reads [OF ok(1) during_runs [OF on(1)]] by blast
  then show ?case using sstep_ok [OF on(2)] ok keeps_trans by blast
qed

lemma one_name:
  assumes "gget (sv_open s) h = Some p" "pool_ok m p" "set (pl_named p) \<subseteq> {pl_first p}" "t \<in> set (tables_of_handle s h)"
  shows "t = tables_at (sv_disk s) (pl_first p)"
  using assms by (auto simp: tables_of_handle_def pool_ok_def)

lemma not_reloading:
  assumes "locks_ok s" "handles_ok path s" "\<not> sv_reloading s"
  shows "{h. gget (sv_open s) h \<noteq> None} = {sv_db s}"
proof -
  have "number reloads s = 0" using assms(1,3) by (simp add: locks_ok_def)
  then have "\<forall>p \<in> set (sv_pcs s). \<not> reloads p" by (simp add: number_def filter_empty_conv)
  then have "in_hand handle s = {}" using reloads_handle by (fastforce simp: in_hand_def)
  then show ?thesis using assms(2) by (auto simp: handles_ok_def handles_are_def)
qed

lemma during_tables:
  assumes "locks_ok s" "handles_ok path s" "during path t s s'"
  shows "sv_db s' = sv_db s \<and> (\<exists>p. gget (sv_open s') (sv_db s) = Some p \<and>
    (set (pl_named p) \<subseteq> {pl_first p} \<longrightarrow>
       set (tables_of_handle s (sv_db s)) \<union> set (tables_of_handle s' (sv_db s)) \<subseteq> {tables_at (sv_disk s) (pl_first p)}))"
proof -
  have ok': "handles_ok path s'" and k: "keeps_serving s s'" using during_ok [OF assms(3)] assms(1,2) by auto
  from k obtain p p' where p: "sv_db s' = sv_db s" "gget (sv_open s) (sv_db s) = Some p" "gget (sv_open s') (sv_db s) = Some p'"
    "pl_first p' = pl_first p" "set (pl_named p) \<subseteq> set (pl_named p')"
    "tables_at (sv_disk s') (pl_first p) = tables_at (sv_disk s) (pl_first p)" unfolding keeps_serving_def by blast
  have q: "pool_ok (gget (dk_names (sv_disk s)) path) p" "pool_ok (gget (dk_names (sv_disk s')) path) p'"
    using assms(2) ok' p(1-3) by (auto simp: handles_ok_def handles_are_def)
  have "x = tables_at (sv_disk s) (pl_first p')"
    if n: "set (pl_named p') \<subseteq> {pl_first p'}" and x: "x \<in> set (tables_of_handle s (sv_db s)) \<union> set (tables_of_handle s' (sv_db s))" for x
  proof -
    have "set (pl_named p) \<subseteq> {pl_first p}" using n p(4,5) by auto
    then show ?thesis using one_name [OF p(2) q(1)] one_name [OF p(3) q(2) n] x p(4,6) by auto
  qed
  then show ?thesis using p(1,3) by blast
qed

text \<open>
  C3 What a tool call can meet. In every state that serving, tool calls, reloads, the pool of connections and collects from
  other processes can lead to: the handle that serves is open, its file of record is an index of the schema that is served,
  and each of its connections leads to a file the path has named since the handle was opened; outside a reload no other
  handle is open; no step that happens while a call runs closes its handle or puts another in its place; and if, since the
  handle was opened, the path has named no other file, all queries of a call read the tables of that one index, from the
  first query to the last.
\<close>

theorem serving_safe:
  assumes "reachable path s"
  shows "(\<exists>p. gget (sv_open s) (sv_db s) = Some p \<and> valid_file (sv_disk s) (pl_first p) \<and> set (pl_conns p) \<subseteq> set (pl_named p)) \<and>
    (\<not> sv_reloading s \<longrightarrow> {h. gget (sv_open s) h \<noteq> None} = {sv_db s}) \<and>
    (\<forall>t s'. during path t s s' \<longrightarrow> sv_db s' = sv_db s \<and> (\<exists>p. gget (sv_open s') (sv_db s) = Some p \<and>
       (set (pl_named p) \<subseteq> {pl_first p} \<longrightarrow>
          set (tables_of_handle s (sv_db s)) \<union> set (tables_of_handle s' (sv_db s)) \<subseteq> {tables_at (sv_disk s) (pl_first p)})))"
proof -
  have ok: "locks_ok s" "handles_ok path s" using reachable_ok [OF assms] by auto
  have "\<exists>p. gget (sv_open s) (sv_db s) = Some p \<and> valid_file (sv_disk s) (pl_first p) \<and> set (pl_conns p) \<subseteq> set (pl_named p)"
    by (rule served_pool [OF ok(2)]) (auto simp: pool_ok_def)
  then show ?thesis using not_reloading [OF ok] during_tables [OF ok] by blast
qed


section \<open>Failed reloads\<close>

text \<open>
  C5 A reload that fails, for whatever reason, is without effect: in the step in which it ends with an error the
  server keeps its handle and the tables behind it, the new handle, if one was opened, is closed again so that
  only the serving one is open, and the next reload may begin.
\<close>

theorem failed_reload_harmless:
  assumes "reachable path s" "tstep path s s'" "at_pc s' t (R_end (Inl e))" "\<not> at_pc s t (R_end (Inl e))"
  shows "sv_db s' = sv_db s \<and> tables_of_handle s' (sv_db s') = tables_of_handle s (sv_db s) \<and>
    \<not> sv_reloading s' \<and> {h. gget (sv_open s') h \<noteq> None} = {sv_db s'}"
proof -
  have ok: "locks_ok s" "handles_ok path s" using reachable_ok [OF assms(1)] by auto
  have step: "sstep path s s'" using assms(2) by (rule thread)
  have r': "reachable path s'" by (rule reachable.step [OF assms(1) step])
  have ends: "\<not> sv_reloading s' \<and> sv_db s' = sv_db s"
    using assms(2,3,4) by cases (auto simp: at_pc_def goto_def nth_list_update split: if_splits)
  have "tables_of_handle s' (sv_db s') = tables_of_handle s (sv_db s)"
    using tstep_serving [OF assms(2) ok] ends unfolding tables_of_handle_def by metis
  moreover have "{h. gget (sv_open s') h \<noteq> None} = {sv_db s'}" using not_reloading reachable_ok [OF r'] ends by blast
  ultimately show ?thesis using ends by simp
qed

section \<open>Progress\<close>

fun ended :: "pc \<Rightarrow> bool" where
  "ended Q_end = True" | "ended (R_end _) = True" | "ended _ = False"

fun remaining :: "pc \<Rightarrow> nat" where
  "remaining Q_start = 2" | "remaining Q_run = 1" | "remaining Q_end = 0"
| "remaining R_start = 9" | "remaining R_locked = 8" | "remaining (R_opened _) = 7" | "remaining (R_described _ _) = 6"
| "remaining (R_stamping _ _) = 5" | "remaining (R_ready _ _) = 4" | "remaining (R_waiting _ _) = 3" | "remaining (R_writing _ _) = 2"
| "remaining (R_swapped _ _) = 1" | "remaining (R_end _) = 0"

definition work :: "server \<Rightarrow> nat" where
  "work s = sum_list (map remaining (sv_pcs s))"

lemma sum_list_update_less:
  "t < length xs \<Longrightarrow> f p < (f (xs ! t) :: nat) \<Longrightarrow> sum_list (map f (xs[t := p])) < sum_list (map f xs)"
proof (induction xs arbitrary: t)
  case (Cons x xs)
  then show ?case by (cases t) auto
qed simp

lemma work_decreases: "tstep path s s' \<Longrightarrow> work s' < work s"
  by (induction rule: tstep.induct) (auto simp: work_def goto_def at_pc_def intro!: sum_list_update_less)

lemma someone: "0 < number P s \<Longrightarrow> \<exists>t q. at_pc s t q \<and> P q"
  by (auto simp: number_def at_pc_def length_greater_0_conv filter_empty_conv in_set_conv_nth)

lemma lock_reloads: "waits p \<Longrightarrow> reloads p" "writes p \<Longrightarrow> reloads p"
  by (cases p; simp)+

lemma no_waiter: "locks_ok s \<Longrightarrow> at_pc s t q \<Longrightarrow> reloads q \<Longrightarrow> \<not> waits q \<Longrightarrow> \<not> sv_waiting s"
  and no_writer: "locks_ok s \<Longrightarrow> at_pc s t q \<Longrightarrow> reloads q \<Longrightarrow> \<not> writes q \<Longrightarrow> \<not> sv_writer s"
proof -
  have one: "u = t" if "locks_ok s" "at_pc s t q" "reloads q" "at_pc s u p" "reloads p" for u p
  proof (rule ccontr)
    assume "u \<noteq> t"
    have "length (filter reloads (sv_pcs s)) \<le> 1" using that(1) by (simp add: locks_ok_def number_def)
    then show False using only_one [of reloads "sv_pcs s" t u] that \<open>u \<noteq> t\<close> by (auto simp: at_pc_def)
  qed
  show "\<not> sv_waiting s" if a: "locks_ok s" "at_pc s t q" "reloads q" "\<not> waits q"
  proof
    assume "sv_waiting s"
    then have "0 < number waits s" using a(1) by (simp add: locks_ok_def)
    then obtain u p where u: "at_pc s u p" "waits p" using someone by blast
    have "u = t" by (rule one [OF a(1-3) u(1) lock_reloads(1) [OF u(2)]])
    then show False using u a by (simp add: at_pc_def)
  qed
  show "\<not> sv_writer s" if a: "locks_ok s" "at_pc s t q" "reloads q" "\<not> writes q"
  proof
    assume "sv_writer s"
    then have "0 < number writes s" using a(1) by (simp add: locks_ok_def)
    then obtain u p where u: "at_pc s u p" "writes p" using someone by blast
    have "u = t" by (rule one [OF a(1-3) u(1) lock_reloads(2) [OF u(2)]])
    then show False using u a by (simp add: at_pc_def)
  qed
qed

lemma reload_moves:
  assumes "locks_ok s" "at_pc s t q" "reloads q" shows "\<exists>s'. tstep path s s'"
proof (cases q)
  case R_locked
  then show ?thesis using assms(2) not_opened opened by (cases "open_index undefined path (sv_disk s)") blast+
next
  case (R_opened h)
  then show ?thesis using assms(2) not_described [of s t h None "\<lambda>_. False" path RE_not_an_index] by (auto simp: met_by_query_def describeIndex_def meta_value_def)
next
  case (R_described h resp)
  then have "may_read s" using no_waiter [OF assms] no_writer [OF assms] by (simp add: may_read_def)
  then show ?thesis using assms(2) R_described stamp_lock by blast
next
  case (R_stamping h resp) then show ?thesis using assms(2) stamp [of s t h resp None] by (auto simp: met_by_query_def)
next
  case (R_ready h resp)
  then have "\<not> sv_waiting s" using no_waiter [OF assms] by simp
  then show ?thesis using assms(2) R_ready lock by blast
next
  case (R_waiting h resp)
  show ?thesis
  proof (cases "sv_readers s = 0")
    case True
    have "\<not> sv_writer s" using no_writer [OF assms] R_waiting by simp
    then show ?thesis using assms(2) R_waiting True locked by blast
  next
    case False
    then have "0 < number reads s" using assms(1) by (simp add: locks_ok_def)
    then obtain u p where u: "at_pc s u p" "reads p" using someone by blast
    show ?thesis
    proof (cases p)
      case Q_run then show ?thesis using u leave by blast
    next
      case (R_stamping h' r') then show ?thesis using u stamp [of s u h' r' None] by (auto simp: met_by_query_def)
    qed (use u in simp_all)
  qed
next
  case (R_writing h resp) then show ?thesis using assms(2) swap by blast
next
  case (R_swapped old resp) then show ?thesis using assms(2) close_old by blast
qed (use assms(3) in simp_all)

text \<open>
  C8 The locks never deadlock: in every reachable state with a call or a reload that has not ended some thread can take a
  step; and every step of a thread uses up work, so that without new arrivals all of them end.
\<close>

theorem no_deadlock:
  assumes "reachable path s"
  shows "((\<exists>t q. at_pc s t q \<and> \<not> ended q) \<longrightarrow> (\<exists>s'. tstep path s s')) \<and> (\<forall>s'. tstep path s s' \<longrightarrow> work s' < work s)"
proof -
  have ok: "locks_ok s" using reachable_ok [OF assms] by simp
  have "\<exists>s'. tstep path s s'" if t: "at_pc s t q" "\<not> ended q" for t q
  proof (cases "0 < number reloads s")
    case True
    then obtain u p where "at_pc s u p" "reloads p" using someone by blast
    then show ?thesis using reload_moves [OF ok] by blast
  next
    case False
    then have free: "\<not> sv_reloading s" using ok by (simp add: locks_ok_def)
    have none: "\<not> reloads p" if "at_pc s u p" for u p using False number_pos [OF that, of reloads] by auto
    have "number waits s = 0" using someone [of waits s] none lock_reloads(1) by (metis gr_zeroI)
    moreover have "number writes s = 0" using someone [of writes s] none lock_reloads(2) by (metis gr_zeroI)
    ultimately have m: "may_read s" using ok by (simp add: locks_ok_def may_read_def)
    show ?thesis
    proof (cases q)
      case Q_start then show ?thesis using t(1) m admit by blast
    next
      case Q_run then show ?thesis using t(1) leave by blast
    next
      case R_start then show ?thesis using t(1) free single_flight by blast
    qed (use t none [OF t(1)] in simp_all)
  qed
  then show ?thesis using work_decreases by blast
qed


section \<open>Starting\<close>

text \<open>A server that was started is in a state from which the theorems above speak.\<close>

lemma runServe_reachable:
  assumes "runServe env args d = Inr (s, path, check_only)"
  shows "reachable path s"
proof -
  obtain n where s: "s = start_server n d" and v: "meta_value (\<lambda>_. sv_version_query env) (tables_at d n) ''schema_version'' = Some SchemaVersion"
    using assms by (auto simp: runServe_def Let_def split: sum.splits option.splits if_splits)
  moreover have "gget (dk_names d) path = Some n"
    using assms s by (auto simp: runServe_def Let_def OpenReadOnly_def start_server_def new_pool_def split: sum.splits option.splits if_splits)
  ultimately show ?thesis using reachable.start [of d path n] by (auto simp: meta_value_def bind_eq_Some_conv split: if_splits)
qed

section \<open>Samples\<close>

definition served :: index where
  "served = fresh_index\<lparr>ix_meta := [(''schema_version'', SchemaVersion), (''indexed_at'', ''2025'')]\<rparr>"

definition one_index :: disk where
  "one_index = \<lparr>dk_names = [(''/o/app.hbr'', 1)], dk_files = [(1, Database False (Some served))]\<rparr>"

text \<open>A call that runs while a reload has taken its mutex, and the failure of that reload.\<close>

definition busy :: server where
  "busy = (start_server 1 one_index)\<lparr>sv_pcs := [Q_run, R_locked], sv_readers := 1, sv_reloading := True\<rparr>"

definition refused :: reload_io where
  "refused = \<lparr>rl_stat = True, rl_open = Denied, rl_close = True, rl_sql_open = True, rl_sql_ping = True\<rparr>"

lemma busy_reachable: "reachable ''/o/app.hbr'' busy"
proof -
  let ?p = "''/o/app.hbr''" and ?s0 = "start_server 1 one_index"
  let ?s1 = "?s0\<lparr>sv_pcs := [Q_start]\<rparr>" and ?s2 = "?s0\<lparr>sv_pcs := [Q_start, R_start]\<rparr>"
  let ?s3 = "goto 0 Q_run (?s2\<lparr>sv_readers := 1\<rparr>)"
  have r0: "reachable ?p ?s0" by (rule start [of _ _ _ served]) code_simp+
  have r1: "reachable ?p ?s1" using step [OF r0 arrival [of Q_start]] by (simp add: start_server_def)
  have r2: "reachable ?p ?s2" using step [OF r1 arrival [of R_start]] by (simp add: start_server_def)
  have r3: "reachable ?p ?s3" using step [OF r2 thread [OF admit [of ?s2 0]]] by (simp add: start_server_def at_pc_def may_read_def)
  show ?thesis using step [OF r3 thread [OF single_flight [of ?s3 1]]] by (simp add: start_server_def at_pc_def goto_def busy_def)
qed

lemma busy_runs: "at_pc busy 0 Q_run"
  by (simp add: at_pc_def busy_def)

theorem serving_safe_witness:
  "valid_file one_index 1 \<and> set (tables_of_handle (change_disk ''/o/app.hbr'' one_index busy) 0) \<subseteq> {Some served}"
proof -
  let ?p = "''/o/app.hbr''" let ?s' = "change_disk ?p one_index busy"
  have "disk_grows (sv_disk busy) one_index" by (simp add: disk_grows_def busy_def start_server_def)
  then have "sstep ?p busy ?s'" by (rule outside)
  moreover have "at_pc ?s' 0 Q_run" using busy_runs by (simp add: at_pc_def change_disk_def)
  ultimately have d: "during ?p 0 busy ?s'" using here [OF busy_runs] on by blast
  have db: "sv_db busy = 0" by (simp add: busy_def start_server_def)
  have p: "gget (sv_open ?s') 0 = Some \<lparr>pl_conns = [1], pl_first = 1, pl_named = [1, 1]\<rparr>" by code_simp
  have q: "gget (sv_open busy) 0 = Some (new_pool 1)" by code_simp
  have t: "tables_at (sv_disk busy) 1 = Some served" "sv_disk busy = one_index" by code_simp+
  note safe = serving_safe [OF busy_reachable]
  have 1: "valid_file one_index 1" using conjunct1 [OF safe] unfolding db q t(2) by (auto simp: new_pool_def)
  have "\<exists>p. gget (sv_open ?s') 0 = Some p \<and> (set (pl_named p) \<subseteq> {pl_first p} \<longrightarrow>
      set (tables_of_handle busy 0) \<union> set (tables_of_handle ?s' 0) \<subseteq> {tables_at (sv_disk busy) (pl_first p)})"
    using conjunct2 [OF conjunct2 [OF safe]] d unfolding db by blast
  then have "set (tables_of_handle ?s' 0) \<subseteq> {tables_at (sv_disk busy) 1}" unfolding p by simp
  then show ?thesis using 1 unfolding t(1) by blast
qed

text \<open>
  The condition on the names is needed. Here the path is given to another file while a call runs, as
  \<^verbatim>\<open>collect --replace\<close> does, and a second query of the call opens a connection: it reads a file that no reload has
  checked, of another schema, beside the tables it has read so far.
\<close>

definition foreign_schema :: index where
  "foreign_schema = fresh_index\<lparr>ix_meta := [(''schema_version'', ''0'')]\<rparr>"

definition replaced :: disk where
  "replaced = \<lparr>dk_names = [(''/o/app.hbr'', 2)],
     dk_files = [(1, Database False (Some served)), (2, Database False (Some foreign_schema))]\<rparr>"

lemma new_connection_reaches_replacement:
  "\<exists>s s'. reachable ''/o/app.hbr'' s \<and> during ''/o/app.hbr'' 0 s s' \<and> tables_of_handle s (sv_db s) = [Some served] \<and>
     tables_of_handle s' (sv_db s) = [Some served, Some foreign_schema] \<and> gget (ix_meta foreign_schema) ''schema_version'' \<noteq> Some SchemaVersion"
proof -
  let ?p = "''/o/app.hbr''" let ?q = "\<lparr>pl_conns = [1], pl_first = 1, pl_named = [2, 1]\<rparr>"
  let ?s1 = "change_disk ?p replaced busy" let ?s2 = "set_conns ?q [1, 2] ?s1"
  have "disk_grows (sv_disk busy) replaced"
    by (auto simp: disk_grows_def busy_def start_server_def one_index_def replaced_def gget_def split: if_splits)
  then have 1: "sstep ?p busy ?s1" by (rule outside)
  have r1: "at_pc ?s1 0 Q_run" using busy_runs by (simp add: at_pc_def change_disk_def)
  have 2: "sstep ?p ?s1 ?s2"
    using connect [of ?s1 ?q ?p 2] by (simp add: change_disk_def busy_def start_server_def replaced_def gget_def note_named_def new_pool_def)
  have "at_pc ?s2 0 Q_run" using r1 by (simp add: at_pc_def set_conns_def)
  then have "during ?p 0 busy ?s2" using on [OF on [OF here [OF busy_runs] 1 r1] 2] by blast
  moreover have "tables_of_handle busy (sv_db busy) = [Some served]" "tables_of_handle ?s2 (sv_db busy) = [Some served, Some foreign_schema]"
    "gget (ix_meta foreign_schema) ''schema_version'' \<noteq> Some SchemaVersion" by code_simp+
  ultimately show ?thesis using busy_reachable by blast
qed

lemma busy_fails:
  "tstep ''/o/app.hbr'' busy (goto 1 (R_end (Inl (RE_path Not_permitted))) (busy\<lparr>sv_reloading := False\<rparr>))"
proof (rule not_opened)
  show "at_pc busy 1 R_locked" by (simp add: at_pc_def busy_def)
  show "open_index refused ''/o/app.hbr'' (sv_disk busy) = Inl (RE_path Not_permitted)" by code_simp
qed

theorem failed_reload_harmless_witness:
  "sv_db (goto 1 (R_end (Inl (RE_path Not_permitted))) (busy\<lparr>sv_reloading := False\<rparr>)) = sv_db busy"
proof -
  have "at_pc (goto 1 (R_end (Inl (RE_path Not_permitted))) (busy\<lparr>sv_reloading := False\<rparr>)) 1 (R_end (Inl (RE_path Not_permitted)))"
    "\<not> at_pc busy 1 (R_end (Inl (RE_path Not_permitted)))" by (simp_all add: at_pc_def goto_def busy_def)
  from failed_reload_harmless [OF busy_reachable busy_fails this] show ?thesis by blast
qed

theorem no_deadlock_witness:
  "(\<exists>s'. tstep ''/o/app.hbr'' busy s') \<and> work (goto 1 (R_end (Inl (RE_path Not_permitted))) (busy\<lparr>sv_reloading := False\<rparr>)) < work busy"
proof -
  have "at_pc busy 0 Q_run \<and> \<not> ended Q_run" by (simp add: at_pc_def busy_def)
  then show ?thesis using no_deadlock [OF busy_reachable] busy_fails by blast
qed

end
