(* ===== verification/Cmd_Main.thy ===== *)
theory Cmd_Main
  imports Cmd_Collect Mcp_Reload
begin

text \<open>
  The command (\<^verbatim>\<open>src/cmd/herbarium/main.go\<close>) and how its two subcommands meet: \<^verbatim>\<open>collect\<close> writes the index that \<^verbatim>\<open>serve\<close> opens and
  that a running server reloads.
\<close>

definition main :: "collect_env \<Rightarrow> serve_env \<Rightarrow> string list \<Rightarrow> disk \<Rightarrow> disk \<times> nat" where
  "main cenv senv args d =
     (if length args < 2 then (d, 2)
      else
        (let sub = args ! 1; rest = drop 2 args in
         if sub = ''collect'' then (case runCollect cenv rest d of (d', r) \<Rightarrow> (d', exit_code r))
         else if sub = ''serve'' then (d, serve_exit (runServe senv rest d))
         else if sub \<in> set [''version'', ''--version'', ''-v''] then (d, 0)
         else if sub \<in> set [''help'', ''-h'', ''--help''] then (d, 0)
         else (d, 2)))"

definition answers :: "reload_io \<Rightarrow> bool" where
  "answers io \<longleftrightarrow> rl_stat io \<and> rl_open io = Opens \<and> rl_close io \<and> rl_sql_open io \<and> rl_sql_ping io"

lemma open_index_file:
  "answers io \<Longrightarrow> path \<noteq> [] \<Longrightarrow> gget (dk_names d) path = Some n \<Longrightarrow> gget (dk_files d) n = Some (Database w t) \<Longrightarrow>
     open_index io path d = Inr n"
  by (simp add: open_index_def DiagnosePath_def OpenReadOnly_def answers_def)

lemma describe_served:
  "gget (ix_meta ix) ''schema_version'' = Some SchemaVersion \<Longrightarrow> gget (ix_meta ix) ''indexed_at'' = Some at \<Longrightarrow>
     \<exists>resp. describeIndex (\<lambda>_. True) (Some ix) path = Inr resp \<and> rr_IndexedAt resp = at \<and> rr_SchemaVersion resp = SchemaVersion"
  by (simp add: describeIndex_def meta_value_def)

text \<open>
  C6 From \<^verbatim>\<open>collect\<close> to \<^verbatim>\<open>reload_index\<close>. A successful collect is, for the servers that run meanwhile, a step that leaves the
  files they have open as they are; and if the system answers, a reload of the path it wrote opens the new file, accepts
  it, and reports the time of this collect.
\<close>

theorem collect_then_reload:
  assumes "runCollect env args d = (d', Inr r)" "collect_out args \<noteq> []" "answers io"
  shows "disk_grows d d' \<and>
    (\<exists>n resp. open_index io (collect_out args) d' = Inr n \<and> gget (dk_files d) n = None \<and>
       describeIndex (\<lambda>_. True) (tables_at d' n) (collect_out args) = Inr resp \<and>
       rr_IndexedAt resp = ev_now env \<and> rr_SchemaVersion resp = SchemaVersion)"
proof -
  note c = collect_effects [OF assms(1), unfolded sum.case]
  obtain n ix where n: "gget (dk_names d') (collect_out args) = Some n" "gget (dk_files d) n = None"
    "gget (dk_files d') n = Some (Database False (Some ix))" "index_ok (ev_hex env) (ev_enc env) ix"
    "gget (ix_meta ix) ''indexed_at'' = Some (ev_now env)"
    using conjunct2 [OF conjunct2 [OF conjunct2 [OF conjunct2 [OF c]]]] by (elim exE conjE) (rule that)
  have o: "open_index io (collect_out args) d' = Inr n" by (rule open_index_file [OF assms(3,2) n(1,3)])
  have t: "tables_at d' n = Some ix" using n(3) by (simp add: tables_at_def)
  obtain resp where "describeIndex (\<lambda>_. True) (Some ix) (collect_out args) = Inr resp" "rr_IndexedAt resp = ev_now env" "rr_SchemaVersion resp = SchemaVersion"
    using describe_served [OF _ n(5), of "collect_out args"] n(4) by (auto simp: index_ok_def)
  then show ?thesis using o n(2) t conjunct1 [OF c] by (auto simp: disk_grows_def)
qed

definition all_answers :: reload_io where
  "all_answers = \<lparr>rl_stat = True, rl_open = Opens, rl_close = True, rl_sql_open = True, rl_sql_ping = True\<rparr>"

theorem collect_then_reload_witness:
  "\<exists>d' r n resp. runCollect sample_collect_env sample_args sample_disk = (d', Inr r) \<and>
     open_index all_answers ''/o/app.hbr'' d' = Inr n \<and> describeIndex (\<lambda>_. True) (tables_at d' n) ''/o/app.hbr'' = Inr resp \<and>
     rr_IndexedAt resp = ''2025''"
proof -
  obtain d' r where run: "runCollect sample_collect_env sample_args sample_disk = (d', Inr r)" using sample_run by blast
  have out: "collect_out sample_args = ''/o/app.hbr''" by code_simp
  have a: "collect_out sample_args \<noteq> []" "answers all_answers" by (simp_all add: out answers_def all_answers_def)
  have now: "ev_now sample_collect_env = ''2025''" by (simp add: sample_collect_env_def)
  show ?thesis using conjunct2 [OF collect_then_reload [OF run a]] run unfolding out now by blast
qed

end
