(* ===== verification/Mcp_Symbols.thy ===== *)
theory Mcp_Symbols
  imports Mcp_Common
begin

text \<open>
  The symbol tools (\<^verbatim>\<open>src/internal/mcp/symbol_tools.go\<close>): \<^verbatim>\<open>find_symbol\<close> with its two modes and the query it builds for the
  full-text index, and \<^verbatim>\<open>describe_symbol\<close> with definitions, targets and link resolutions. Which rows of the full-text index a
  query matches is an argument; so is \<^verbatim>\<open>strconv.Quote\<close>. The note of an empty result is the list of its sentences. The JSON
  columns are the lists they encode.
\<close>

section \<open>Searching\<close>

definition findSymbolLimit :: nat where
  "findSymbolLimit = 100"

record SymbolHit =
  sh_USR :: string
  sh_Name :: string
  sh_Kind :: string
  sh_Linkage :: string
  sh_Signature :: string
  sh_Targets :: "string list"

datatype find_note = Not_named string | Not_matched | Symbols_only | Target_caveat | Try_exact

record FindSymbolResponse =
  fs_Query :: string
  fs_Exact :: bool
  fs_FTSQuery :: string
  fs_Hits :: "SymbolHit list"
  fs_Total :: nat
  fs_Truncated :: bool
  fs_Note :: "find_note list"

definition emptyFindNote :: "(string \<Rightarrow> string) \<Rightarrow> string \<Rightarrow> string \<Rightarrow> bool \<Rightarrow> find_note list" where
  "emptyFindNote quote q target exact =
     (if exact then [Not_named (quote q)] else [Not_matched]) @ [Symbols_only] @
     (if target \<noteq> [] then [Target_caveat] else []) @ (if \<not> exact then [Try_exact] else [])"

text \<open>The loop over the runes of the query; a rune beyond ASCII is a separator, whatever its length.\<close>

definition token_char :: "char \<Rightarrow> bool" where
  "token_char c \<longleftrightarrow> (CHR ''a'' \<le> c \<and> c \<le> CHR ''z'') \<or> (CHR ''A'' \<le> c \<and> c \<le> CHR ''Z'') \<or> (CHR ''0'' \<le> c \<and> c \<le> CHR ''9'')"

definition flush :: "string list \<Rightarrow> string \<Rightarrow> string list" where
  "flush toks cur = (if cur \<noteq> [] then toks @ [cur @ ''*''] else toks)"

fun fts_tokens :: "string \<Rightarrow> string list \<Rightarrow> string \<Rightarrow> string list" where
  "fts_tokens [] toks cur = flush toks cur"
| "fts_tokens (c # cs) toks cur = (if token_char c then fts_tokens cs toks (cur @ [c]) else fts_tokens cs (flush toks cur) [])"

definition buildFTSQuery :: "string \<Rightarrow> string" where
  "buildFTSQuery q = join_with '' '' (fts_tokens q [] [])"

definition attachTargets :: "tool_env \<Rightarrow> SymbolHit list \<Rightarrow> SymbolHit list tool_result" where
  "attachTargets e hits =
     bind_result (targetsByReachability (te_ok e) (te_hbr e) (map sh_USR hits)) (\<lambda>byUSR.
       Inr (map (\<lambda>x. x\<lparr>sh_Targets := gget_or [] byUSR (sh_USR x)\<rparr>) hits))"

definition hit_of :: "symbol_row \<Rightarrow> SymbolHit" where
  "hit_of r = \<lparr>sh_USR = sy_usr r, sh_Name = sy_name r, sh_Kind = sy_kind r, sh_Linkage = sy_linkage r,
     sh_Signature = sy_signature r, sh_Targets = []\<rparr>"

text \<open>The two arms of the query: the literal name, or the rows of the full-text index that match.\<close>

definition has_name :: "string \<Rightarrow> symbol_row \<Rightarrow> bool" where
  "has_name q r \<longleftrightarrow> sy_name r = q \<or> (case sy_linkage_names r of None \<Rightarrow> False | Some ns \<Rightarrow> q \<in> set ns)"

definition candidates :: "(string \<Rightarrow> string \<times> string \<Rightarrow> bool) \<Rightarrow> dwarf_db \<Rightarrow> bool \<Rightarrow> string \<Rightarrow> string \<Rightarrow> (int \<times> symbol_row) list" where
  "candidates matches d exact q fts =
     (if exact then filter (\<lambda>(i, r). has_name q r) (symbols (dd_hbr d))
      else concat (map (\<lambda>(rowid, doc). filter (\<lambda>(i, r). i = rowid) (symbols (dd_hbr d)))
             (filter (\<lambda>(rowid, doc). matches fts doc) (dd_symbols_fts d))))"

definition linked_into :: "hbr \<Rightarrow> string \<Rightarrow> string \<Rightarrow> bool" where
  "linked_into h u target \<longleftrightarrow>
     list_ex (\<lambda>lr. lr_usr lr = u \<and> list_ex (\<lambda>(t, tr). t = lr_target_id lr \<and> t_name tr = target) (targets h)) (link_resolutions h)"

definition found_rows :: "(string \<Rightarrow> string \<times> string \<Rightarrow> bool) \<Rightarrow> dwarf_db \<Rightarrow> bool \<Rightarrow> string \<Rightarrow> string \<Rightarrow> string \<Rightarrow> string \<Rightarrow> SymbolHit list" where
  "found_rows matches d exact q fts kind target =
     sort_key sh_Name (map (hit_of \<circ> snd) (filter (\<lambda>(i, r). (kind = [] \<or> sy_kind r = kind) \<and>
       (target = [] \<or> linked_into (dd_hbr d) (sy_usr r) target)) (candidates matches d exact q fts)))"

definition handleFindSymbol :: "(string \<Rightarrow> string) \<Rightarrow> (string \<Rightarrow> string \<times> string \<Rightarrow> bool) \<Rightarrow> tool_env \<Rightarrow> string option \<Rightarrow> string \<Rightarrow> string
    \<Rightarrow> bool \<Rightarrow> FindSymbolResponse tool_result" where
  "handleFindSymbol quote matches e query kind target exact =
     bind_result (require ''query'' query) (\<lambda>q.
       let fts = (if exact then [] else buildFTSQuery q) in
       if \<not> exact \<and> fts = [] then
         Inr \<lparr>fs_Query = q, fs_Exact = False, fs_FTSQuery = [], fs_Hits = [], fs_Total = 0, fs_Truncated = False,
              fs_Note = emptyFindNote quote q target False\<rparr>
       else
         bind_result (run_query (te_ok e) ''find_symbol query'' (found_rows matches (ix_dwarf (te_index e)) exact q fts kind target)) (\<lambda>rows.
           let (hits, truncated) = capped findSymbolLimit rows in
           bind_result (attachTargets e hits) (\<lambda>hits.
             Inr \<lparr>fs_Query = q, fs_Exact = exact, fs_FTSQuery = fts, fs_Hits = hits, fs_Total = length hits,
                  fs_Truncated = truncated, fs_Note = (if hits = [] then emptyFindNote quote q target exact else [])\<rparr>)))"

section \<open>Describing\<close>

record SymbolDefinition =
  df_Location :: Location
  df_DeclFile :: string
  df_DeclLine :: int
  df_IsWeak :: bool
  df_LinkageName :: string

record LinkResolution =
  rs_Target :: string
  rs_WinningObject :: string
  rs_LinkageKind :: string
  rs_LosingObjects :: "string list"
  rs_Archive :: string
  rs_Reachable :: bool

record DescribeSymbolResponse =
  dy_USR :: string
  dy_Name :: string
  dy_Kind :: string
  dy_Linkage :: string
  dy_Signature :: string
  dy_AddressTaken :: bool
  dy_LinkageNames :: "string list"
  dy_Definitions :: "SymbolDefinition list"
  dy_Targets :: "string list"
  dy_LinkResolutions :: "LinkResolution list"

text \<open>\<^verbatim>\<open>ORDER BY file, line\<close>: sorted by the second key, then stably by the first.\<close>

definition by_file_line :: "definition_row list \<Rightarrow> definition_row list" where
  "by_file_line rows = sort_key sd_file (sort_key sd_line rows)"

definition definitions_of :: "hbr \<Rightarrow> int \<Rightarrow> definition_row list" where
  "definitions_of h i = map snd (filter (\<lambda>(j, r). sd_symbol_id r = i) (symbol_definitions h))"

definition symbolDefinitions :: "tool_env \<Rightarrow> int \<Rightarrow> SymbolDefinition list tool_result" where
  "symbolDefinitions e i =
     bind_result (run_query (te_ok e) ''definitions'' (by_file_line (definitions_of (te_hbr e) i))) (\<lambda>rows.
       Inr (map (\<lambda>r. \<lparr>df_Location = enrich e True (location (sd_file r) (sd_line r) 0), df_DeclFile = sd_decl_file r,
         df_DeclLine = sd_decl_line r, df_IsWeak = (sd_is_weak r = 1), df_LinkageName = sd_linkage_name r\<rparr>) rows))"

definition reach_targets :: "hbr \<Rightarrow> int \<Rightarrow> string list" where
  "reach_targets h i =
     concat (map (\<lambda>(t, j). if j = i then map (t_name \<circ> snd) (filter (\<lambda>(k, tr). k = t) (targets h)) else []) (symbol_reachability h))"

definition resolutions_of :: "hbr \<Rightarrow> string \<Rightarrow> (string \<times> resolution_row) list" where
  "resolutions_of h u =
     sort_key fst (concat (map (\<lambda>lr. map (\<lambda>(t, tr). (t_name tr, lr)) (filter (\<lambda>(t, tr). t = lr_target_id lr) (targets h)))
       (filter (\<lambda>lr. lr_usr lr = u) (link_resolutions h))))"

definition symbolTargets :: "tool_env \<Rightarrow> string \<Rightarrow> int \<Rightarrow> (string list \<times> LinkResolution list) tool_result" where
  "symbolTargets e u i =
     bind_result (run_query (te_ok e) ''reachability'' (reach_targets (te_hbr e) i)) (\<lambda>reach.
     bind_result (run_query (te_ok e) ''link_resolutions'' (resolutions_of (te_hbr e) u)) (\<lambda>rows.
       Inr (sort (remdups reach),
            map (\<lambda>(t, lr). \<lparr>rs_Target = t, rs_WinningObject = lr_winning_object lr, rs_LinkageKind = lr_linkage_kind lr,
              rs_LosingObjects = lr_losing_objects lr, rs_Archive = lr_archive lr, rs_Reachable = (t \<in> set reach)\<rparr>) rows)))"

definition handleDescribeSymbol :: "tool_env \<Rightarrow> string option \<Rightarrow> DescribeSymbolResponse tool_result" where
  "handleDescribeSymbol e usr =
     bind_result (require ''usr'' usr) (\<lambda>u.
       if \<not> te_ok e ''symbol lookup'' then Inl (E_query ''symbol lookup'')
       else
         (case find (\<lambda>(i, r). sy_usr r = u) (symbols (te_hbr e)) of
            None \<Rightarrow> Inl (E_unknown_symbol u)
          | Some (i, r) \<Rightarrow>
              bind_result (symbolDefinitions e i) (\<lambda>defs.
              bind_result (symbolTargets e u i) (\<lambda>(tgts, res).
                Inr \<lparr>dy_USR = u, dy_Name = sy_name r, dy_Kind = sy_kind r, dy_Linkage = sy_linkage r,
                     dy_Signature = sy_signature r, dy_AddressTaken = (sy_address_taken r = 1),
                     dy_LinkageNames = (case sy_linkage_names r of None \<Rightarrow> [] | Some ns \<Rightarrow> ns),
                     dy_Definitions = defs, dy_Targets = tgts, dy_LinkResolutions = res\<rparr>))))"

section \<open>The query for the full-text index\<close>

lemma fts_tokens_acc: "fts_tokens cs toks cur = toks @ fts_tokens cs [] cur"
proof (induction cs arbitrary: toks cur)
  case (Cons c cs)
  show ?case using Cons [of toks "cur @ [c]"] Cons [of "flush toks cur" "[]"] Cons [of "flush [] cur" "[]"]
    by (simp add: flush_def)
qed (simp add: flush_def)

text \<open>Every token is a nonempty run of letters and digits with a star, and the tokens hold all of them in order.\<close>

lemma fts_tokens_form:
  "list_all token_char cur \<Longrightarrow> t \<in> set (fts_tokens cs [] cur) \<Longrightarrow> \<exists>w. t = w @ ''*'' \<and> w \<noteq> [] \<and> list_all token_char w"
proof (induction cs arbitrary: cur)
  case (Cons c cs)
  show ?case
  proof (cases "token_char c")
    case True
    then show ?thesis using Cons.IH [of "cur @ [c]"] Cons.prems by simp
  next
    case False
    then have "t \<in> set (flush [] cur) \<or> t \<in> set (fts_tokens cs [] [])"
      using Cons.prems(2) fts_tokens_acc [of cs "flush [] cur" "[]"] by auto
    then show ?thesis using Cons.IH [of "[]"] Cons.prems(1) by (auto simp: flush_def split: if_splits)
  qed
qed (auto simp: flush_def split: if_splits)

lemma fts_tokens_hold: "concat (map butlast (fts_tokens cs [] cur)) = cur @ filter token_char cs"
proof (induction cs arbitrary: cur)
  case (Cons c cs)
  show ?case
  proof (cases "token_char c")
    case True
    then show ?thesis using Cons [of "cur @ [c]"] by simp
  next
    case False
    then show ?thesis using Cons [of "[]"] fts_tokens_acc [of cs "flush [] cur" "[]"] by (auto simp: flush_def)
  qed
qed (simp add: flush_def)

lemma join_with_chars: "set (join_with sep xs) \<subseteq> set sep \<union> \<Union> (set ` set xs)"
  by (induction xs rule: join_with.induct) auto

lemma buildFTSQuery_chars: "c \<in> set (buildFTSQuery q) \<Longrightarrow> token_char c \<or> c = CHR ''*'' \<or> c = CHR '' ''"
  using join_with_chars [of "'' ''" "fts_tokens q [] []"] fts_tokens_form [of "[]" _ q]
  by (fastforce simp: buildFTSQuery_def list_all_iff)

text \<open>The tokenizer of the query leaves words that the query language reads as operators.\<close>

lemma operator_words_kept: "buildFTSQuery ''IN_AND_OUT'' = ''IN* AND* OUT*''"
  by code_simp

section \<open>Targets of a hit\<close>

lemma collect_targets:
  "gget_or [] (fold (\<lambda>(u, t) m. gput u (gget_or [] m u @ [t]) m) ps m) u = gget_or [] m u @ map snd (filter (\<lambda>p. fst p = u) ps)"
  by (induction ps arbitrary: m) (auto simp: gget_or_def split: option.splits)

definition holders :: "hbr \<Rightarrow> string \<Rightarrow> string set" where
  "holders h u = {t_name tr |t tr lr. (t, tr) \<in> set (targets h) \<and> lr \<in> set (link_resolutions h) \<and> lr_target_id lr = t \<and> lr_usr lr = u}"

lemma joined_pairs:
  "(u, n) \<in> set (concat (map (\<lambda>(t, i). concat (map (\<lambda>(j, r). if j = i \<and> sy_usr r \<in> U
        then map (\<lambda>(k, tr). (sy_usr r, t_name tr)) (filter (\<lambda>(k, tr). k = t) T) else []) S)) R)) \<longleftrightarrow>
     (\<exists>t i r tr. (t, i) \<in> set R \<and> (i, r) \<in> set S \<and> (t, tr) \<in> set T \<and> sy_usr r = u \<and> u \<in> U \<and> t_name tr = n)"
  (is "?l \<longleftrightarrow> ?r")
proof
  assume ?l
  then show ?r by (auto split: if_splits)
next
  assume ?r
  then obtain t i r tr where x: "(t, i) \<in> set R" "(i, r) \<in> set S" "(t, tr) \<in> set T" "sy_usr r = u" "u \<in> U" "t_name tr = n"
    by blast
  have "(u, n) \<in> set (map (\<lambda>(k, tr). (sy_usr r, t_name tr)) (filter (\<lambda>(k, tr). k = t) T))" using x by force
  then have "(u, n) \<in> set (case (i, r) of (j, r) \<Rightarrow> if j = i \<and> sy_usr r \<in> U
        then map (\<lambda>(k, tr). (sy_usr r, t_name tr)) (filter (\<lambda>(k, tr). k = t) T) else [])" using x by simp
  then have "(u, n) \<in> set (case (t, i) of (t, i) \<Rightarrow> concat (map (\<lambda>(j, r). if j = i \<and> sy_usr r \<in> U
        then map (\<lambda>(k, tr). (sy_usr r, t_name tr)) (filter (\<lambda>(k, tr). k = t) T) else []) S))"
    using x(2) unfolding set_concat set_map prod.case by blast
  then show ?l using x(1) unfolding set_concat set_map by blast
qed

lemma targetsByReachability_set:
  assumes "targetsByReachability ok h usrs = Inr m" "u \<in> set usrs" "(i, r) \<in> set (symbols h)" "sy_usr r = u"
    "distinct (ids (symbols h))"
  shows "set (gget_or [] m u) = holders h u" "sorted (gget_or [] m u)"
proof -
  define ps where "ps = concat (map (\<lambda>(t, i). concat (map (\<lambda>(j, r). if j = i \<and> sy_usr r \<in> set usrs
               then map (\<lambda>(k, tr). (sy_usr r, t_name tr)) (filter (\<lambda>(k, tr). k = t) (targets h)) else [])
             (symbols h))) (symbol_reachability h))"
  have "usrs \<noteq> []" using assms(2) by auto
  then have "m = fold (\<lambda>(u, t) m. gput u (gget_or [] m u @ [t]) m) (sort_key snd ps) []"
    using assms(1) unfolding targetsByReachability_def run_query_def ps_def [symmetric] by (simp split: if_splits)
  then have m: "gget_or [] m u = map snd (filter (\<lambda>p. fst p = u) (sort_key snd ps))"
    using collect_targets [of "sort_key snd ps" "[]" u] by (simp add: gget_or_def)
  have same: "r' = r''" if "(j, r') \<in> set (symbols h)" "(j, r'') \<in> set (symbols h)" for j r' r''
    using that assms(5) eq_key_imp_eq_value [of "symbols h" j r' r''] by (simp add: ids_def)
  have "(u, n) \<in> set ps \<longleftrightarrow> n \<in> holders h u" for n
    unfolding ps_def joined_pairs reachability_iff holders_def mem_Collect_eq using assms(2-4) same by metis
  then have "set (map snd (filter (\<lambda>p. fst p = u) ps)) = holders h u" by force
  then show "set (gget_or [] m u) = holders h u" unfolding m by simp
  show "sorted (gget_or [] m u)" unfolding m by (rule sorted_filter) (rule sorted_sort_key)
qed

section \<open>What a search finds\<close>

lemma linked_into_holders: "linked_into h u target \<longleftrightarrow> target \<in> holders h u"
  by (fastforce simp: linked_into_def holders_def list_ex_iff)

text \<open>A row that the search is meant to find.\<close>

definition wanted_symbol :: "(string \<Rightarrow> string \<times> string \<Rightarrow> bool) \<Rightarrow> dwarf_db \<Rightarrow> string \<Rightarrow> string \<Rightarrow> string \<Rightarrow> bool \<Rightarrow> int \<Rightarrow> symbol_row \<Rightarrow> bool" where
  "wanted_symbol matches d q kind target exact i r \<longleftrightarrow>
     (if exact then sy_name r = q \<or> (\<exists>ns. sy_linkage_names r = Some ns \<and> q \<in> set ns)
      else \<exists>doc. (i, doc) \<in> set (dd_symbols_fts d) \<and> matches (buildFTSQuery q) doc) \<and>
     (kind = [] \<or> sy_kind r = kind) \<and> (target = [] \<or> target \<in> holders (dd_hbr d) (sy_usr r))"

lemma candidates_iff:
  "(i, r) \<in> set (candidates matches d exact q (buildFTSQuery q)) \<longleftrightarrow> (i, r) \<in> set (symbols (dd_hbr d)) \<and>
     (if exact then has_name q r else \<exists>doc. (i, doc) \<in> set (dd_symbols_fts d) \<and> matches (buildFTSQuery q) doc)"
  by (auto simp: candidates_def)

lemma candidates_exact: "candidates matches d True q fts = candidates matches d True q fts'"
  by (simp add: candidates_def)

lemma found_rows_iff:
  "x \<in> set (found_rows matches d exact q (if exact then [] else buildFTSQuery q) kind target) \<longleftrightarrow>
     (\<exists>i r. (i, r) \<in> set (symbols (dd_hbr d)) \<and> wanted_symbol matches d q kind target exact i r \<and> x = hit_of r)"
proof -
  have "candidates matches d exact q (if exact then [] else buildFTSQuery q) = candidates matches d exact q (buildFTSQuery q)"
    using candidates_exact by (cases exact) auto
  then show ?thesis
    unfolding found_rows_def wanted_symbol_def linked_into_holders
    by (auto simp: candidates_iff has_name_def image_iff split: option.splits if_splits) (force+)?
qed

lemma handleFindSymbol_Inr:
  assumes "handleFindSymbol quote matches e (Some q) kind target exact = Inr resp" "exact \<or> buildFTSQuery q \<noteq> []"
    and "rows = found_rows matches (ix_dwarf (te_index e)) exact q (if exact then [] else buildFTSQuery q) kind target"
  obtains m where "targetsByReachability (te_ok e) (te_hbr e) (map sh_USR (take findSymbolLimit rows)) = Inr m"
    "fs_Hits resp = map (\<lambda>x. x\<lparr>sh_Targets := gget_or [] m (sh_USR x)\<rparr>) (take findSymbolLimit rows)"
    "fs_Truncated resp \<longleftrightarrow> findSymbolLimit < length rows"
  using assms(1,2) unfolding assms(3)
  by (auto simp: handleFindSymbol_def require_def bind_result_Inr_iff run_query_def capped_eq attachTargets_def Let_def split: if_splits)

text \<open>
  C27 What \<^verbatim>\<open>find_symbol\<close> reports. The hits are symbols of the index that the query names, literally by source name or by a link
  name in exact mode, through the full-text index otherwise, and that have the kind and reach the target asked for;
  they come in name order, each with its own columns and exactly the targets that have a resolution of it; and if the
  response does not say that it is truncated, every such symbol is a hit, otherwise there are a hundred of them.
\<close>

theorem find_symbol_spec:
  assumes "hbr_ok (te_hbr e)" "handleFindSymbol quote matches e (Some q) kind target exact = Inr resp"
    "exact \<or> buildFTSQuery q \<noteq> []"
  shows "sorted (map sh_Name (fs_Hits resp)) \<and>
    (\<forall>x \<in> set (fs_Hits resp). \<exists>i r. (i, r) \<in> set (symbols (te_hbr e)) \<and>
       wanted_symbol matches (ix_dwarf (te_index e)) q kind target exact i r \<and>
       x\<lparr>sh_Targets := []\<rparr> = hit_of r \<and> set (sh_Targets x) = holders (te_hbr e) (sy_usr r)) \<and>
    (if fs_Truncated resp then length (fs_Hits resp) = findSymbolLimit
     else \<forall>(i, r) \<in> set (symbols (te_hbr e)). wanted_symbol matches (ix_dwarf (te_index e)) q kind target exact i r \<longrightarrow>
       sy_usr r \<in> sh_USR ` set (fs_Hits resp))"
proof -
  define rows where rows: "rows = found_rows matches (ix_dwarf (te_index e)) exact q (if exact then [] else buildFTSQuery q) kind target"
  obtain m where m: "targetsByReachability (te_ok e) (te_hbr e) (map sh_USR (take findSymbolLimit rows)) = Inr m"
    and hits: "fs_Hits resp = map (\<lambda>x. x\<lparr>sh_Targets := gget_or [] m (sh_USR x)\<rparr>) (take findSymbolLimit rows)"
    and trunc: "fs_Truncated resp \<longleftrightarrow> findSymbolLimit < length rows"
    using handleFindSymbol_Inr [OF assms(2,3) rows] .
  note iff = found_rows_iff [of _ matches "ix_dwarf (te_index e)" exact q kind target, folded rows]
  have "sorted (map sh_Name rows)" unfolding rows found_rows_def by (rule sorted_sort_key)
  then have 1: "sorted (map sh_Name (fs_Hits resp))" by (simp add: hits comp_def take_map [symmetric] sorted_wrt_take)
  have 2: "\<exists>i r. (i, r) \<in> set (symbols (te_hbr e)) \<and> wanted_symbol matches (ix_dwarf (te_index e)) q kind target exact i r \<and>
       x\<lparr>sh_Targets := []\<rparr> = hit_of r \<and> set (sh_Targets x) = holders (te_hbr e) (sy_usr r)" if xin: "x \<in> set (fs_Hits resp)" for x
  proof -
    obtain y where y: "y \<in> set (take findSymbolLimit rows)" "x = y\<lparr>sh_Targets := gget_or [] m (sh_USR y)\<rparr>"
      using xin unfolding hits set_map by blast
    obtain i r where r: "(i, r) \<in> set (symbols (te_hbr e))" "wanted_symbol matches (ix_dwarf (te_index e)) q kind target exact i r" "y = hit_of r"
      using iff [of y] in_set_takeD [OF y(1)] by blast
    have u: "sh_USR y = sy_usr r" using r(3) by (simp add: hit_of_def)
    have "sy_usr r \<in> set (map sh_USR (take findSymbolLimit rows))" unfolding set_map using y(1) u by (metis imageI)
    moreover have "distinct (ids (symbols (te_hbr e)))" using assms(1) by (simp add: hbr_ok_def)
    ultimately have "set (gget_or [] m (sy_usr r)) = holders (te_hbr e) (sy_usr r)"
      by (rule targetsByReachability_set(1) [OF m _ r(1) refl])
    then have "x\<lparr>sh_Targets := []\<rparr> = hit_of r \<and> set (sh_Targets x) = holders (te_hbr e) (sy_usr r)" using y(2) r(3) by (simp add: hit_of_def)
    then show ?thesis using r(1,2) by blast
  qed
  have 3: "sy_usr r \<in> sh_USR ` set (fs_Hits resp)"
    if "\<not> fs_Truncated resp" "(i, r) \<in> set (symbols (te_hbr e))" "wanted_symbol matches (ix_dwarf (te_index e)) q kind target exact i r" for i r
  proof -
    have "hit_of r \<in> set rows" using iff [of "hit_of r"] that(2,3) by blast
    then show ?thesis using that(1) trunc by (force simp: hits hit_of_def image_iff)
  qed
  have 4: "length (fs_Hits resp) = findSymbolLimit" if "fs_Truncated resp" using that trunc by (simp add: hits)
  show ?thesis using 1 2 3 4 by auto
qed

text \<open>An index of one executable with a function of its own, a static one that was cloned, and an unused one.\<close>

definition sample_hbr :: hbr where
  "sample_hbr = fresh_hbr\<lparr>
     targets := [(1, \<lparr>t_name = ''app'', t_kind = ''executable'', t_link_command = []\<rparr>)],
     symbols := [(1, \<lparr>sy_usr = ''c:@F@main'', sy_name = ''main'', sy_kind = ''function'', sy_linkage = ''external'', sy_signature = ''int(void)'',
                      sy_address_taken = 0, sy_linkage_names = None\<rparr>),
                 (2, \<lparr>sy_usr = ''c:a.c@F@run'', sy_name = ''run'', sy_kind = ''function'', sy_linkage = ''internal'', sy_signature = [],
                      sy_address_taken = 0, sy_linkage_names = Some [''run.part.0'']\<rparr>),
                 (3, \<lparr>sy_usr = ''c:@F@idle'', sy_name = ''idle'', sy_kind = ''function'', sy_linkage = ''external'', sy_signature = [],
                      sy_address_taken = 1, sy_linkage_names = None\<rparr>)],
     symbol_definitions := [(1, \<lparr>sd_symbol_id = 1, sd_file = ''a.c'', sd_line = 9, sd_decl_file = [], sd_decl_line = 0, sd_is_weak = 0, sd_linkage_name = ''main''\<rparr>)],
     link_resolutions := [\<lparr>lr_target_id = 1, lr_usr = ''c:@F@main'', lr_winning_object = ''a.o'', lr_linkage_kind = ''external'',
                            lr_losing_objects = [], lr_archive = []\<rparr>]\<rparr>"

definition sample_env :: tool_env where
  "sample_env = \<lparr>te_ok = (\<lambda>_. True), te_dec = Some, te_root = [],
     te_index = fresh_index\<lparr>ix_dwarf := (ix_dwarf fresh_index)\<lparr>dd_hbr := sample_hbr\<rparr>\<rparr>\<rparr>"

lemma sample_hbr_ok: "hbr_ok sample_hbr"
  by (simp add: hbr_ok_def sample_hbr_def fresh_hbr_def ids_def)

lemma sample_env_hbr [simp]: "te_hbr sample_env = sample_hbr"
  by (simp add: sample_env_def)

theorem find_symbol_spec_witness:
  "\<exists>resp. handleFindSymbol id (\<lambda>_ _. False) sample_env (Some ''run.part.0'') [] [] True = Inr resp \<and>
     ''c:a.c@F@run'' \<in> sh_USR ` set (fs_Hits resp)"
proof -
  let ?r = "handleFindSymbol id (\<lambda>_ _. False) sample_env (Some ''run.part.0'') [] [] True"
  have "(case ?r of Inl _ \<Rightarrow> False | Inr resp \<Rightarrow> \<not> fs_Truncated resp)" by code_simp
  then obtain resp where r: "?r = Inr resp" "\<not> fs_Truncated resp" by (auto split: sum.splits)
  have w: "wanted_symbol (\<lambda>_ _. False) (ix_dwarf (te_index sample_env)) ''run.part.0'' [] [] True 2 (snd (symbols sample_hbr ! 1))"
    by (simp add: wanted_symbol_def sample_hbr_def)
  have "(2, snd (symbols sample_hbr ! 1)) \<in> set (symbols sample_hbr)" by (simp add: sample_hbr_def)
  then have "sy_usr (snd (symbols sample_hbr ! 1)) \<in> sh_USR ` set (fs_Hits resp)"
    using find_symbol_spec [OF _ r(1)] r(2) w by (auto simp: sample_hbr_ok)
  then show ?thesis using r(1) by (simp add: sample_hbr_def)
qed

end
