(* ===== verification/Mcp_Linkage.thy ===== *)
theory Mcp_Linkage
  imports Mcp_Symbols
begin

text \<open>
  The linkage tools (\<^verbatim>\<open>src/internal/mcp/linkage_tools.go\<close>): which object supplied a symbol, weak, undefined and unreachable
  symbols, folded groups and entry points. The notes and hints of the responses, which are fixed texts, are left out.
\<close>

definition linkageRowLimit :: int where
  "linkageRowLimit = 500"

section \<open>One resolution\<close>

record DescribeLinkResolutionResponse =
  dl_USR :: string
  dl_Target :: string
  dl_WinningObject :: string
  dl_LinkageKind :: string
  dl_LosingObjects :: "string list"
  dl_Archive :: string
  dl_Reachable :: bool

text \<open>The first matching row is read; an unanswered query for reachability counts as unreachable.\<close>

definition handleDescribeLinkResolution :: "tool_env \<Rightarrow> string option \<Rightarrow> string option \<Rightarrow> DescribeLinkResolutionResponse tool_result" where
  "handleDescribeLinkResolution e usr target =
     bind_result (require ''usr'' usr) (\<lambda>u.
     bind_result (require ''target'' target) (\<lambda>tn.
     bind_result (targetIDByName (te_ok e) (te_hbr e) tn) (\<lambda>tid.
     bind_result (run_query (te_ok e) ''describe_link_resolution''
         (filter (\<lambda>lr. lr_usr lr = u \<and> lr_target_id lr = tid) (link_resolutions (te_hbr e)))) (\<lambda>rows.
       case rows of
         [] \<Rightarrow> Inl (E_message ''no link_resolutions row'')
       | lr # _ \<Rightarrow>
           Inr \<lparr>dl_USR = u, dl_Target = tn, dl_WinningObject = lr_winning_object lr, dl_LinkageKind = lr_linkage_kind lr,
                dl_LosingObjects = lr_losing_objects lr, dl_Archive = lr_archive lr,
                dl_Reachable = (te_ok e ''reachable'' \<and>
                  list_ex (\<lambda>(t, i). t = tid \<and> list_ex (\<lambda>(j, r). j = i \<and> sy_usr r = u) (symbols (te_hbr e)))
                    (symbol_reachability (te_hbr e)))\<rparr>))))"

section \<open>Weak symbols\<close>

record WeakSymbol =
  wk_Symbol :: SymbolRef
  wk_Definitions :: "Location list"
  wk_Resolutions :: "LinkResolution list"

record ListWeakSymbolsResponse =
  lw_Symbols :: "WeakSymbol list"
  lw_Total :: nat

definition has_weak_definition :: "hbr \<Rightarrow> int \<Rightarrow> bool" where
  "has_weak_definition h i \<longleftrightarrow> list_ex (\<lambda>(j, r). sd_symbol_id r = i \<and> sd_is_weak r = 1) (symbol_definitions h)"

text \<open>The condition as SQL reads it: \<^verbatim>\<open>AND\<close> binds tighter than \<^verbatim>\<open>OR\<close>.\<close>

definition weak_rows :: "hbr \<Rightarrow> string \<Rightarrow> (int \<times> symbol_row) list" where
  "weak_rows h target =
     sort_key (sy_name \<circ> snd) (filter (\<lambda>(i, r). has_weak_definition h i \<or> sy_linkage r = ''weak'' \<and> in_target h target i) (symbols h))"

definition weakDefinitions :: "tool_env \<Rightarrow> int \<Rightarrow> Location list tool_result" where
  "weakDefinitions e i =
     bind_result (run_query (te_ok e) ''weak defs'' (by_file_line (filter (\<lambda>r. sd_is_weak r = 1) (definitions_of (te_hbr e) i)))) (\<lambda>rows.
       Inr (map (\<lambda>r. enrich e True (location (sd_file r) (sd_line r) 0)) rows))"

definition handleListWeakSymbols :: "tool_env \<Rightarrow> string \<Rightarrow> ListWeakSymbolsResponse tool_result" where
  "handleListWeakSymbols e target =
     bind_result (run_query (te_ok e) ''list_weak_symbols'' (weak_rows (te_hbr e) target)) (\<lambda>items.
     bind_result (map_result (\<lambda>(i, r).
         bind_result (weakDefinitions e i) (\<lambda>defs.
         bind_result (symbolTargets e (sy_usr r) i) (\<lambda>(_, res).
           Inr \<lparr>wk_Symbol = ref_of r, wk_Definitions = defs, wk_Resolutions = res\<rparr>))) items) (\<lambda>out.
       Inr \<lparr>lw_Symbols = out, lw_Total = length out\<rparr>))"

section \<open>Undefined symbols\<close>

record UndefinedSymbol =
  un_Symbol :: SymbolRef
  un_LikelyLib :: string
  un_CalledCount :: nat

record ListUndefinedSymbolsResponse =
  lu_Target :: string
  lu_Symbols :: "UndefinedSymbol list"
  lu_Total :: nat

definition linked_calls :: "hbr \<Rightarrow> int \<Rightarrow> int \<Rightarrow> edge_row list" where
  "linked_calls h tid i = filter (\<lambda>e. ce_callee_id e = i \<and> ce_source e = ''objdump'' \<and> ce_target_id e = Some tid) (call_edges h)"

definition undefined_rows :: "hbr \<Rightarrow> int \<Rightarrow> UndefinedSymbol list" where
  "undefined_rows h tid =
     sort_key (ref_Name \<circ> un_Symbol) (map (\<lambda>(i, r). \<lparr>un_Symbol = ref_of r, un_LikelyLib = [], un_CalledCount = length (linked_calls h tid i)\<rparr>)
       (filter (\<lambda>(i, r). linked_calls h tid i \<noteq> [] \<and> definitions_of h i = []) (symbols h)))"

definition handleListUndefinedSymbols :: "tool_env \<Rightarrow> string option \<Rightarrow> ListUndefinedSymbolsResponse tool_result" where
  "handleListUndefinedSymbols e target =
     bind_result (require ''target'' target) (\<lambda>tn.
     bind_result (targetIDByName (te_ok e) (te_hbr e) tn) (\<lambda>tid.
     bind_result (run_query (te_ok e) ''list_undefined_symbols'' (undefined_rows (te_hbr e) tid)) (\<lambda>out.
       Inr \<lparr>lu_Target = tn, lu_Symbols = out, lu_Total = length out\<rparr>)))"

section \<open>Folded groups\<close>

record ICFGroupEntry =
  gr_Winner :: SymbolRef
  gr_Losers :: "SymbolRef list"
  gr_ObjectFile :: string

record ListICFGroupsResponse =
  lg_Groups :: "ICFGroupEntry list"
  lg_Total :: nat

definition group_rows :: "hbr \<Rightarrow> int option \<Rightarrow> (int \<times> string \<times> SymbolRef) list" where
  "group_rows h tid =
     sort_key (ref_Name \<circ> snd \<circ> snd) (concat (map (\<lambda>(g, gr). map (\<lambda>(i, w). (g, ig_object_file gr, ref_of w))
       (filter (\<lambda>(i, w). i = ig_winner_symbol_id gr \<and>
          (case tid of None \<Rightarrow> True | Some t \<Rightarrow> list_ex (\<lambda>lr. lr_target_id lr = t \<and> lr_usr lr = sy_usr w) (link_resolutions h)))
        (symbols h))) (icf_groups h)))"

definition group_losers :: "hbr \<Rightarrow> int \<Rightarrow> SymbolRef list" where
  "group_losers h g =
     sort_key ref_Name (concat (map (\<lambda>(k, m). map (\<lambda>(i, r). ref_of r) (filter (\<lambda>(i, r). i = m) (symbols h)))
       (filter (\<lambda>(k, m). k = g) (icf_group_members h))))"

definition handleListICFGroups :: "tool_env \<Rightarrow> string \<Rightarrow> ListICFGroupsResponse tool_result" where
  "handleListICFGroups e target =
     bind_result (if target = [] then Inr None
       else bind_result (targetIDByName (te_ok e) (te_hbr e) target) (\<lambda>t. Inr (Some t))) (\<lambda>tid.
     bind_result (run_query (te_ok e) ''list_icf_groups'' (group_rows (te_hbr e) tid)) (\<lambda>groups.
     bind_result (map_result (\<lambda>(g, obj, win).
         bind_result (run_query (te_ok e) ''list_icf_groups members'' (group_losers (te_hbr e) g)) (\<lambda>losers.
           Inr \<lparr>gr_Winner = win, gr_Losers = losers, gr_ObjectFile = obj\<rparr>)) groups) (\<lambda>out.
       Inr \<lparr>lg_Groups = out, lg_Total = length out\<rparr>)))"

section \<open>Unreachable symbols\<close>

record UnreachableSymbol =
  ur_Symbol :: SymbolRef
  ur_SectionKept :: bool

record ListUnreachableSymbolsResponse =
  lx_Target :: string
  lx_Symbols :: "UnreachableSymbol list"
  lx_Total :: nat
  lx_Truncated :: bool

definition unreachable_rows :: "hbr \<Rightarrow> int \<Rightarrow> SymbolRef list" where
  "unreachable_rows h tid =
     sort_key ref_Name (map (ref_of \<circ> snd) (filter (\<lambda>(i, r).
       list_ex (\<lambda>(t, tr). t = tid \<and> t_kind tr \<in> set [''executable'', ''shared_library'']) (targets h) \<and>
       \<not> list_ex (\<lambda>lr. lr_target_id lr = tid \<and> lr_usr lr = sy_usr r) (link_resolutions h)) (symbols h)))"

definition handleListUnreachableSymbols :: "tool_env \<Rightarrow> string option \<Rightarrow> int option \<Rightarrow> ListUnreachableSymbolsResponse tool_result" where
  "handleListUnreachableSymbols e target limit =
     bind_result (require ''target'' target) (\<lambda>tn.
     bind_result (targetIDByName (te_ok e) (te_hbr e) tn) (\<lambda>tid.
     bind_result (run_query (te_ok e) ''list_unreachable_symbols'' (unreachable_rows (te_hbr e) tid)) (\<lambda>rows.
       let (out, truncated) = capped (rowLimit limit linkageRowLimit) rows in
       Inr \<lparr>lx_Target = tn, lx_Symbols = map (\<lambda>r. \<lparr>ur_Symbol = r, ur_SectionKept = True\<rparr>) out, lx_Total = length out,
            lx_Truncated = truncated\<rparr>)))"

section \<open>Entry points\<close>

record EntryPoint =
  ep_Symbol :: SymbolRef
  ep_Reason :: string
  ep_Location :: Location

record ListEntryPointsResponse =
  le_Target :: string
  le_Points :: "EntryPoint list"
  le_Total :: nat
  le_Truncated :: bool

text \<open>The rows of the query: a symbol, with the place of each of its definitions or without place.\<close>

definition entry_rows :: "hbr \<Rightarrow> int \<Rightarrow> (SymbolRef \<times> string \<times> int) list" where
  "entry_rows h tid =
     sort_key (\<lambda>x. ref_Name (fst x) \<noteq> ''main'') (sort_key (ref_Name \<circ> fst)
       (concat (map (\<lambda>(i, r). concat (map (\<lambda>_.
           (case definitions_of h i of [] \<Rightarrow> [(ref_of r, [], 0)] | ds \<Rightarrow> map (\<lambda>d. (ref_of r, sd_file d, sd_line d)) ds))
           (filter (\<lambda>(t, j). t = tid \<and> j = i) (symbol_reachability h))))
         (filter (\<lambda>(i, r). sy_name r = ''main'' \<or> sy_linkage r = ''external'') (symbols h)))))"

definition entry_point :: "tool_env \<Rightarrow> bool \<Rightarrow> SymbolRef \<times> string \<times> int \<Rightarrow> EntryPoint" where
  "entry_point e snippets row =
     (case row of (ref, file, line) \<Rightarrow>
        \<lparr>ep_Symbol = ref, ep_Reason = (if ref_Name ref = ''main'' then ''main'' else ''exported''),
         ep_Location = (if file \<noteq> [] then enrich e snippets (location file line 0) else location [] 0 0)\<rparr>)"

fun entry_loop :: "tool_env \<Rightarrow> bool \<Rightarrow> nat \<Rightarrow> (SymbolRef \<times> string \<times> int) list \<Rightarrow> string list \<Rightarrow> EntryPoint list \<Rightarrow> EntryPoint list" where
  "entry_loop e snippets limit [] seen out = out"
| "entry_loop e snippets limit (row # rows) seen out =
     (if length out > limit then out
      else if ref_USR (fst row) \<in> set seen then entry_loop e snippets limit rows seen out
      else entry_loop e snippets limit rows (ref_USR (fst row) # seen) (out @ [entry_point e snippets row]))"

definition handleListEntryPoints :: "tool_env \<Rightarrow> string option \<Rightarrow> int option \<Rightarrow> bool \<Rightarrow> ListEntryPointsResponse tool_result" where
  "handleListEntryPoints e target limit snippets =
     bind_result (require ''target'' target) (\<lambda>tn.
     bind_result (targetIDByName (te_ok e) (te_hbr e) tn) (\<lambda>tid.
     bind_result (run_query (te_ok e) ''list_entry_points'' (entry_rows (te_hbr e) tid)) (\<lambda>rows.
       let lim = rowLimit limit linkageRowLimit; out = entry_loop e snippets lim rows [] []; truncated = (length out > lim);
           pts = (if truncated then take lim out else out) in
       Inr \<lparr>le_Target = tn, le_Points = pts, le_Total = length pts, le_Truncated = truncated\<rparr>)))"

section \<open>Unreachable means without a resolution\<close>

lemma holders_target:
  assumes "hbr_ok h" "(tid, tr) \<in> set (targets h)"
  shows "t_name tr \<in> holders h u \<longleftrightarrow> list_ex (\<lambda>lr. lr_target_id lr = tid \<and> lr_usr lr = u) (link_resolutions h)"
proof -
  have "t = tid" if "(t, x) \<in> set (targets h)" "t_name x = t_name tr" for t x
    using target_of_name [OF assms(1) that(1) assms(2) that(2)] by simp
  then show ?thesis unfolding holders_def list_ex_iff mem_Collect_eq using assms(2) by metis
qed

lemma resolutions_of_iff: "t \<in> fst ` set (resolutions_of h u) \<longleftrightarrow> t \<in> holders h u"
  by (force simp: resolutions_of_def holders_def image_iff)

lemma joined_names:
  "t \<in> set (concat (map (\<lambda>(k, j). if j = i then map (t_name \<circ> snd) (filter (\<lambda>(k', tr). k' = k) T) else []) R)) \<longleftrightarrow>
     (\<exists>k tr. (k, i) \<in> set R \<and> (k, tr) \<in> set T \<and> t = t_name tr)"
  by (induction R) (auto, force+)

lemma reach_targets_iff:
  assumes "hbr_ok h" "(i, r) \<in> set (symbols h)"
  shows "t \<in> set (reach_targets h i) \<longleftrightarrow> t \<in> holders h (sy_usr r)"
proof -
  have "t \<in> set (reach_targets h i) \<longleftrightarrow> (\<exists>k tr. (k, i) \<in> set (symbol_reachability h) \<and> (k, tr) \<in> set (targets h) \<and> t = t_name tr)"
    unfolding reach_targets_def by (rule joined_names)
  also have "\<dots> \<longleftrightarrow> t \<in> holders h (sy_usr r)"
    unfolding reachability_iff holders_def mem_Collect_eq using assms symbol_of_id [OF assms(1)] by metis
  finally show ?thesis .
qed

text \<open>The resolutions of a described symbol: one target each, all of them reachable.\<close>

lemma described_resolutions:
  assumes "hbr_ok (te_hbr e)" "handleDescribeSymbol e (Some u) = Inr d"
  shows "rs_Target ` set (dy_LinkResolutions d) = holders (te_hbr e) u" "set (dy_Targets d) = holders (te_hbr e) u"
    "\<forall>x \<in> set (dy_LinkResolutions d). rs_Reachable x"
proof -
  obtain i r where f: "find (\<lambda>(i, r). sy_usr r = u) (symbols (te_hbr e)) = Some (i, r)"
    using assms(2) by (auto simp: handleDescribeSymbol_def require_def split: if_splits option.splits)
  then have r: "(i, r) \<in> set (symbols (te_hbr e))" "sy_usr r = u" by (simp_all add: find_symbol_row [OF assms(1)])
  have d: "dy_Targets d = sort (remdups (reach_targets (te_hbr e) i))"
    "dy_LinkResolutions d = map (\<lambda>(t, lr). \<lparr>rs_Target = t, rs_WinningObject = lr_winning_object lr, rs_LinkageKind = lr_linkage_kind lr,
              rs_LosingObjects = lr_losing_objects lr, rs_Archive = lr_archive lr, rs_Reachable = (t \<in> set (reach_targets (te_hbr e) i))\<rparr>)
        (resolutions_of (te_hbr e) u)"
    using assms(2) unfolding handleDescribeSymbol_def require_def symbolTargets_def run_query_def option.case bind_result.simps f
    by (simp_all add: bind_result_Inr_iff split: if_splits) auto
  have "rs_Target ` set (dy_LinkResolutions d) = fst ` set (resolutions_of (te_hbr e) u)"
    unfolding d(2) set_map image_image by (simp add: case_prod_beta)
  then show "rs_Target ` set (dy_LinkResolutions d) = holders (te_hbr e) u" unfolding set_eq_iff resolutions_of_iff by simp
  show "set (dy_Targets d) = holders (te_hbr e) u" unfolding d(1) set_eq_iff by (simp add: reach_targets_iff [OF assms(1) r(1)] r(2))
  have reach: "t \<in> set (reach_targets (te_hbr e) i)" if "(t, lr) \<in> set (resolutions_of (te_hbr e) u)" for t lr
    using resolutions_of_iff [of t "te_hbr e" u] reach_targets_iff [OF assms(1) r(1), of t] r(2) image_eqI [OF _ that, of t fst] by simp
  show "\<forall>x \<in> set (dy_LinkResolutions d). rs_Reachable x" unfolding d(2) by (auto dest: reach)
qed

lemma described_row:
  "hbr_ok (te_hbr e) \<Longrightarrow> handleDescribeSymbol e (Some u) = Inr d \<Longrightarrow> \<exists>i r. (i, r) \<in> set (symbols (te_hbr e)) \<and> sy_usr r = u"
  using find_symbol_row [of "te_hbr e" u] by (auto simp: handleDescribeSymbol_def require_def split: if_splits option.splits)

lemma unreachable_rows_iff:
  assumes "hbr_ok h" "(tid, tr) \<in> set (targets h)"
  shows "x \<in> set (unreachable_rows h tid) \<longleftrightarrow> t_kind tr \<in> {''executable'', ''shared_library''} \<and>
    (\<exists>i r. (i, r) \<in> set (symbols h) \<and> x = ref_of r \<and> t_name tr \<notin> holders h (sy_usr r))"
proof -
  have "tr' = tr" if "(tid, tr') \<in> set (targets h)" for tr'
    using eq_key_imp_eq_value [OF _ that assms(2)] assms(1) by (simp add: hbr_ok_def ids_def)
  then have k: "list_ex (\<lambda>(t, tr). t = tid \<and> P tr) (targets h) \<longleftrightarrow> P tr" for P
    unfolding list_ex_iff using assms(2) by blast
  have "x \<in> set (sort_key ref_Name (map (ref_of \<circ> snd) (filter (\<lambda>(i, r). A \<and> \<not> B r) S))) \<longleftrightarrow>
      A \<and> (\<exists>i r. (i, r) \<in> set S \<and> x = ref_of r \<and> \<not> B r)" for A B and S :: "(int \<times> symbol_row) list"
    by force
  then show ?thesis
    unfolding unreachable_rows_def list.set k [of "\<lambda>tr. t_kind tr \<in> {''executable'', ''shared_library''}"] holders_target [OF assms] .
qed

lemma handleListUnreachableSymbols_Inr:
  assumes "hbr_ok (te_hbr e)" "handleListUnreachableSymbols e (Some tn) limit = Inr resp"
  obtains tid tr where "(tid, tr) \<in> set (targets (te_hbr e))" "t_name tr = tn"
    "map ur_Symbol (lx_Symbols resp) = take (rowLimit limit linkageRowLimit) (unreachable_rows (te_hbr e) tid)"
    "lx_Truncated resp \<longleftrightarrow> rowLimit limit linkageRowLimit < length (unreachable_rows (te_hbr e) tid)"
  using assms(2)
  by (auto simp: handleListUnreachableSymbols_def require_def bind_result_Inr_iff targetIDByName_iff [OF assms(1)] run_query_def
      capped_eq comp_def split: if_splits)

text \<open>
  C28 \<^verbatim>\<open>list_unreachable_symbols\<close> and \<^verbatim>\<open>describe_symbol\<close> agree on the symbols with a definition, of which their
  descriptions speak: in a complete response for an executable or a shared library a symbol that is described with a definition
  is listed exactly if its description has no resolution for that target, and for another kind of target nothing is listed.
\<close>

theorem unreachable_agrees:
  assumes "hbr_ok (te_hbr e)" "(tid, tr) \<in> set (targets (te_hbr e))" "t_name tr = tn"
    and "handleListUnreachableSymbols e (Some tn) limit = Inr resp" "\<not> lx_Truncated resp"
    and "handleDescribeSymbol e (Some u) = Inr d" "dy_Definitions d \<noteq> []"
  shows "u \<in> ref_USR ` ur_Symbol ` set (lx_Symbols resp) \<longleftrightarrow>
    t_kind tr \<in> {''executable'', ''shared_library''} \<and> tn \<notin> rs_Target ` set (dy_LinkResolutions d)"
proof -
  obtain k x where k: "(k, x) \<in> set (targets (te_hbr e))" "t_name x = tn"
    "map ur_Symbol (lx_Symbols resp) = take (rowLimit limit linkageRowLimit) (unreachable_rows (te_hbr e) k)"
    "lx_Truncated resp \<longleftrightarrow> rowLimit limit linkageRowLimit < length (unreachable_rows (te_hbr e) k)"
    using handleListUnreachableSymbols_Inr [OF assms(1,4)] .
  have same: "k = tid" "x = tr" using target_of_name [OF assms(1) k(1) assms(2)] k(2) assms(3) by simp_all
  have "map ur_Symbol (lx_Symbols resp) = unreachable_rows (te_hbr e) tid" using k(3,4) assms(5) same by simp
  then have l: "ur_Symbol ` set (lx_Symbols resp) = set (unreachable_rows (te_hbr e) tid)" by (metis set_map)
  obtain i r where r: "(i, r) \<in> set (symbols (te_hbr e))" "sy_usr r = u" using described_row [OF assms(1,6)] by blast
  have "u \<in> ref_USR ` set (unreachable_rows (te_hbr e) tid) \<longleftrightarrow> t_kind tr \<in> {''executable'', ''shared_library''} \<and> tn \<notin> holders (te_hbr e) u"
  proof
    assume "u \<in> ref_USR ` set (unreachable_rows (te_hbr e) tid)"
    then obtain y where y: "y \<in> set (unreachable_rows (te_hbr e) tid)" "u = ref_USR y" by blast
    show "t_kind tr \<in> {''executable'', ''shared_library''} \<and> tn \<notin> holders (te_hbr e) u"
      using y(1) unfolding unreachable_rows_iff [OF assms(1,2)] y(2) assms(3) by (auto simp: ref_of_def)
  next
    assume "t_kind tr \<in> {''executable'', ''shared_library''} \<and> tn \<notin> holders (te_hbr e) u"
    then have "ref_of r \<in> set (unreachable_rows (te_hbr e) tid)"
      unfolding unreachable_rows_iff [OF assms(1,2)] assms(3) using r by blast
    moreover have "ref_USR (ref_of r) = u" using r(2) by (simp add: ref_of_def)
    ultimately show "u \<in> ref_USR ` set (unreachable_rows (te_hbr e) tid)" by blast
  qed
  then show ?thesis unfolding l described_resolutions(1) [OF assms(1,6)] .
qed

text \<open>A function that is defined but not linked.\<close>

definition idle_hbr :: hbr where
  "idle_hbr = sample_hbr\<lparr>symbol_definitions := symbol_definitions sample_hbr @
     [(2, \<lparr>sd_symbol_id = 3, sd_file = ''b.c'', sd_line = 4, sd_decl_file = [], sd_decl_line = 0, sd_is_weak = 0, sd_linkage_name = ''idle''\<rparr>)]\<rparr>"

definition idle_env :: tool_env where
  "idle_env = sample_env\<lparr>te_index := fresh_index\<lparr>ix_dwarf := (ix_dwarf fresh_index)\<lparr>dd_hbr := idle_hbr\<rparr>\<rparr>\<rparr>"

theorem unreachable_agrees_witness:
  "\<exists>resp d. handleListUnreachableSymbols idle_env (Some ''app'') None = Inr resp \<and>
     handleDescribeSymbol idle_env (Some ''c:@F@idle'') = Inr d \<and> dy_Definitions d \<noteq> [] \<and> dy_LinkResolutions d = [] \<and>
     ''c:@F@idle'' \<in> ref_USR ` ur_Symbol ` set (lx_Symbols resp)"
proof -
  let ?r = "handleListUnreachableSymbols idle_env (Some ''app'') None" and ?d = "handleDescribeSymbol idle_env (Some ''c:@F@idle'')"
  have "(case (?r, ?d) of (Inr resp, Inr d) \<Rightarrow> \<not> lx_Truncated resp \<and> dy_Definitions d \<noteq> [] \<and> dy_LinkResolutions d = [] | _ \<Rightarrow> False)" by code_simp
  then obtain resp d where r: "?r = Inr resp" "?d = Inr d" "\<not> lx_Truncated resp" "dy_Definitions d \<noteq> []" "dy_LinkResolutions d = []"
    by (auto split: sum.splits)
  have "(1, snd (targets sample_hbr ! 0)) \<in> set (targets (te_hbr idle_env))" "t_name (snd (targets sample_hbr ! 0)) = ''app''"
    "t_kind (snd (targets sample_hbr ! 0)) = ''executable''" "hbr_ok (te_hbr idle_env)"
    by (simp_all add: idle_env_def idle_hbr_def sample_hbr_def hbr_ok_def fresh_hbr_def ids_def)
  then have "''c:@F@idle'' \<in> ref_USR ` ur_Symbol ` set (lx_Symbols resp)"
    using unreachable_agrees [OF _ _ _ r(1,3,2,4)] r(5) by simp
  then show ?thesis using r by blast
qed

section \<open>Entry points\<close>

text \<open>The rows that the loop keeps: the first of each symbol.\<close>

fun first_rows :: "(SymbolRef \<times> string \<times> int) list \<Rightarrow> string list \<Rightarrow> (SymbolRef \<times> string \<times> int) list" where
  "first_rows [] seen = []"
| "first_rows (row # rows) seen =
     (if ref_USR (fst row) \<in> set seen then first_rows rows seen else row # first_rows rows (ref_USR (fst row) # seen))"

lemma entry_loop_eq:
  "length out \<le> limit + 1 \<Longrightarrow>
     entry_loop e sn limit rows seen out = out @ take (limit + 1 - length out) (map (entry_point e sn) (first_rows rows seen))"
proof (induction rows arbitrary: seen out)
  case (Cons row rows)
  show ?case
  proof (cases "length out > limit")
    case False
    then have l: "limit + 1 - length out = Suc (limit + 1 - length (out @ [entry_point e sn row]))" by simp
    show ?thesis using Cons.IH [of out seen] Cons.IH [of "out @ [entry_point e sn row]"] False unfolding l by simp
  qed (use Cons.prems in simp)
qed simp

lemma first_rows_facts:
  "distinct (map (ref_USR \<circ> fst) (first_rows rows seen))"
  "set (first_rows rows seen) \<subseteq> set rows"
  "ref_USR ` fst ` set (first_rows rows seen) = ref_USR ` fst ` set rows - set seen"
proof -
  have "distinct (map (ref_USR \<circ> fst) (first_rows rows seen)) \<and> set (first_rows rows seen) \<subseteq> set rows \<and>
     ref_USR ` fst ` set (first_rows rows seen) = ref_USR ` fst ` set rows - set seen"
  proof (induction rows arbitrary: seen)
    case (Cons row rows)
    show ?case using Cons [of seen] Cons [of "ref_USR (fst row) # seen"] by (auto simp: image_image)
  qed simp
  then show "distinct (map (ref_USR \<circ> fst) (first_rows rows seen))" "set (first_rows rows seen) \<subseteq> set rows"
    "ref_USR ` fst ` set (first_rows rows seen) = ref_USR ` fst ` set rows - set seen" by auto
qed

lemma first_rows_sorted: "sorted (map f rows) \<Longrightarrow> sorted (map f (first_rows rows seen))"
proof (induction rows arbitrary: seen)
  case (Cons row rows)
  then show ?case using first_rows_facts(2) [of rows "ref_USR (fst row) # seen"] by (auto simp: subset_iff)
qed simp

definition exported :: "symbol_row \<Rightarrow> bool" where
  "exported r \<longleftrightarrow> sy_name r = ''main'' \<or> sy_linkage r = ''external''"

lemma entry_rows_refs:
  "fst ` set (entry_rows h tid) = {ref_of r |i r. (i, r) \<in> set (symbols h) \<and> exported r \<and> (tid, i) \<in> set (symbol_reachability h)}"
proof -
  let ?defs = "\<lambda>(i, r). case definitions_of h i of [] \<Rightarrow> [(ref_of r, [], 0)] | ds \<Rightarrow> map (\<lambda>d. (ref_of r, sd_file d, sd_line d)) ds"
  have refs: "fst ` set (?defs (i, r)) = {ref_of r}" for i r by (cases "definitions_of h i") (auto simp: image_image)
  have "set (entry_rows h tid) = (\<Union>x \<in> {(i, r). (i, r) \<in> set (symbols h) \<and> exported r \<and> (tid, i) \<in> set (symbol_reachability h)}. set (?defs x))"
    unfolding entry_rows_def exported_def by auto
  then have "fst ` set (entry_rows h tid) = (\<Union>x \<in> {(i, r). (i, r) \<in> set (symbols h) \<and> exported r \<and> (tid, i) \<in> set (symbol_reachability h)}. fst ` set (?defs x))"
    by (simp add: image_UN)
  also have "\<dots> = (\<Union>x \<in> {(i, r). (i, r) \<in> set (symbols h) \<and> exported r \<and> (tid, i) \<in> set (symbol_reachability h)}. {ref_of (snd x)})"
  proof (rule SUP_cong [OF refl])
    fix x :: "int \<times> symbol_row"
    show "fst ` set (?defs x) = {ref_of (snd x)}" using refs [of "fst x" "snd x"] by simp
  qed
  also have "\<dots> = {ref_of r |i r. (i, r) \<in> set (symbols h) \<and> exported r \<and> (tid, i) \<in> set (symbol_reachability h)}" by (auto; blast)
  finally show ?thesis .
qed

lemma reach_holders:
  assumes "hbr_ok h" "(tid, tr) \<in> set (targets h)" "(i, r) \<in> set (symbols h)"
  shows "(tid, i) \<in> set (symbol_reachability h) \<longleftrightarrow> t_name tr \<in> holders h (sy_usr r)"
  unfolding holders_target [OF assms(1,2)] reachability_iff list_ex_iff using assms(3) symbol_of_id [OF assms(1,3)] by metis

lemma entry_point_symbol [simp]: "ep_Symbol (entry_point e sn row) = fst row"
  by (simp add: entry_point_def split: prod.splits)

lemma entry_point_reason:
  "ep_Reason (entry_point e sn row) = (if ref_Name (fst row) = ''main'' then ''main'' else ''exported'')"
  by (simp add: entry_point_def split: prod.splits)

lemma handleListEntryPoints_Inr:
  assumes "hbr_ok (te_hbr e)" "handleListEntryPoints e (Some tn) limit sn = Inr resp"
  obtains tid tr where "(tid, tr) \<in> set (targets (te_hbr e))" "t_name tr = tn"
    "le_Points resp = take (rowLimit limit linkageRowLimit) (map (entry_point e sn) (first_rows (entry_rows (te_hbr e) tid) []))"
    "le_Truncated resp \<longleftrightarrow> rowLimit limit linkageRowLimit < length (first_rows (entry_rows (te_hbr e) tid) [])"
proof -
  let ?l = "rowLimit limit linkageRowLimit"
  obtain tid tr where t: "(tid, tr) \<in> set (targets (te_hbr e))" "t_name tr = tn" "targetIDByName (te_ok e) (te_hbr e) tn = Inr tid"
    using assms(2) targetIDByName_iff [OF assms(1)] by (auto simp: handleListEntryPoints_def require_def bind_result_Inr_iff)
  let ?out = "entry_loop e sn ?l (entry_rows (te_hbr e) tid) [] []"
  have r: "le_Points resp = (if length ?out > ?l then take ?l ?out else ?out)" "le_Truncated resp \<longleftrightarrow> length ?out > ?l"
    using assms(2) t(3) by (auto simp: handleListEntryPoints_def require_def bind_result_Inr_iff run_query_def Let_def split: if_splits)
  have out: "?out = take (?l + 1) (map (entry_point e sn) (first_rows (entry_rows (te_hbr e) tid) []))"
    using entry_loop_eq [of "[]" ?l e sn "entry_rows (te_hbr e) tid" "[]"] by simp
  show ?thesis by (rule that [OF t(1,2)]) (simp_all add: r out min_def)
qed

text \<open>
  C30 What \<^verbatim>\<open>list_entry_points\<close> reports: every symbol once, however many definitions it has, \<^verbatim>\<open>main\<close> before all others, each linked
  into the target and either \<^verbatim>\<open>main\<close> or of external linkage, with the reason that fits; a response that is not truncated
  has all such symbols, a truncated one as many as the limit.
\<close>

theorem list_entry_points_spec:
  assumes "hbr_ok (te_hbr e)" "handleListEntryPoints e (Some tn) limit sn = Inr resp"
  shows "distinct (map (ref_USR \<circ> ep_Symbol) (le_Points resp)) \<and>
    sorted (map (\<lambda>p. ref_Name (ep_Symbol p) \<noteq> ''main'') (le_Points resp)) \<and>
    (\<forall>p \<in> set (le_Points resp). ep_Reason p = (if ref_Name (ep_Symbol p) = ''main'' then ''main'' else ''exported'')) \<and>
    (let entries = {sy_usr r |i r. (i, r) \<in> set (symbols (te_hbr e)) \<and> exported r \<and> tn \<in> holders (te_hbr e) (sy_usr r)};
         got = set (map (ref_USR \<circ> ep_Symbol) (le_Points resp))
     in if le_Truncated resp then got \<subseteq> entries \<and> length (le_Points resp) = rowLimit limit linkageRowLimit else got = entries)"
proof -
  let ?l = "rowLimit limit linkageRowLimit"
  obtain tid tr where t: "(tid, tr) \<in> set (targets (te_hbr e))" "t_name tr = tn"
    and p: "le_Points resp = take ?l (map (entry_point e sn) (first_rows (entry_rows (te_hbr e) tid) []))"
    and tr: "le_Truncated resp \<longleftrightarrow> ?l < length (first_rows (entry_rows (te_hbr e) tid) [])"
    using handleListEntryPoints_Inr [OF assms] .
  define rows where "rows = first_rows (entry_rows (te_hbr e) tid) []"
  have pts: "map (ref_USR \<circ> ep_Symbol) (le_Points resp) = take ?l (map (ref_USR \<circ> fst) rows)"
    by (simp add: p rows_def take_map comp_def)
  have 1: "distinct (map (ref_USR \<circ> ep_Symbol) (le_Points resp))"
    unfolding pts rows_def by (rule distinct_take) (rule first_rows_facts(1))
  have "sorted (map (\<lambda>x. ref_Name (fst x) \<noteq> ''main'') rows)"
    unfolding rows_def entry_rows_def by (rule first_rows_sorted) (rule sorted_sort_key)
  then have 2: "sorted (map (\<lambda>p. ref_Name (ep_Symbol p) \<noteq> ''main'') (le_Points resp))"
    by (simp add: p rows_def [symmetric] take_map [symmetric] comp_def sorted_wrt_take)
  have 3: "\<forall>p \<in> set (le_Points resp). ep_Reason p = (if ref_Name (ep_Symbol p) = ''main'' then ''main'' else ''exported'')"
    unfolding p using entry_point_reason by (auto dest!: in_set_takeD)
  have "ref_USR ` fst ` set rows = {sy_usr r |i r. (i, r) \<in> set (symbols (te_hbr e)) \<and> exported r \<and> (tid, i) \<in> set (symbol_reachability (te_hbr e))}"
    unfolding rows_def first_rows_facts(3) entry_rows_refs by (auto simp: ref_of_def image_iff) (force+)?
  also have "\<dots> = {sy_usr r |i r. (i, r) \<in> set (symbols (te_hbr e)) \<and> exported r \<and> tn \<in> holders (te_hbr e) (sy_usr r)}"
    using reach_holders [OF assms(1) t(1)] t(2) by blast
  finally have ent: "set (map (ref_USR \<circ> fst) rows) = {sy_usr r |i r. (i, r) \<in> set (symbols (te_hbr e)) \<and> exported r \<and> tn \<in> holders (te_hbr e) (sy_usr r)}"
    by (simp add: image_comp)
  have 4: "length (le_Points resp) = ?l" if "le_Truncated resp" using that tr by (simp add: p)
  have 5: "set (map (ref_USR \<circ> ep_Symbol) (le_Points resp)) \<subseteq> set (map (ref_USR \<circ> fst) rows)" unfolding pts by (rule set_take_subset)
  have 6: "map (ref_USR \<circ> ep_Symbol) (le_Points resp) = map (ref_USR \<circ> fst) rows" if "\<not> le_Truncated resp"
    unfolding pts using that tr by (simp add: rows_def)
  show ?thesis using 1 2 3 4 5 6 unfolding ent [symmetric] Let_def by simp
qed

theorem list_entry_points_spec_witness:
  "\<exists>resp. handleListEntryPoints sample_env (Some ''app'') None False = Inr resp \<and> distinct (map (ref_USR \<circ> ep_Symbol) (le_Points resp)) \<and>
     le_Points resp \<noteq> []"
proof -
  let ?r = "handleListEntryPoints sample_env (Some ''app'') None False"
  have "(case ?r of Inl _ \<Rightarrow> False | Inr resp \<Rightarrow> le_Points resp \<noteq> [])" by code_simp
  then obtain resp where r: "?r = Inr resp" "le_Points resp \<noteq> []" by (auto split: sum.splits)
  have "hbr_ok (te_hbr sample_env)" by (simp add: sample_hbr_ok)
  then show ?thesis using conjunct1 [OF list_entry_points_spec [OF _ r(1)]] r by blast
qed

section \<open>The other lists\<close>

text \<open>Undefined symbols: exactly the callees of the target without a definition, with the number of their calls.\<close>

lemma undefined_rows_iff:
  "x \<in> set (undefined_rows h tid) \<longleftrightarrow>
     (\<exists>i r. (i, r) \<in> set (symbols h) \<and> linked_calls h tid i \<noteq> [] \<and> definitions_of h i = [] \<and>
        x = \<lparr>un_Symbol = ref_of r, un_LikelyLib = [], un_CalledCount = length (linked_calls h tid i)\<rparr>)"
  unfolding undefined_rows_def set_sort set_map set_filter by auto

text \<open>The filter by target does not reach the first alternative: a symbol with a weak definition is listed for every target.\<close>

lemma weak_ignores_target:
  "(i, r) \<in> set (symbols h) \<Longrightarrow> has_weak_definition h i \<Longrightarrow> (i, r) \<in> set (weak_rows h target)"
  by (simp add: weak_rows_def)

text \<open>A symbol without a definition is listed as unreachable.\<close>

lemma undefined_listed_unreachable:
  "symbol_definitions (fresh_hbr\<lparr>targets := targets sample_hbr, symbols := symbols sample_hbr\<rparr>) = [] \<and>
     length (unreachable_rows (fresh_hbr\<lparr>targets := targets sample_hbr, symbols := symbols sample_hbr\<rparr>) 1) = 3"
  by code_simp

end
