(* ===== verification/Mcp_Inlining.thy ===== *)
theory Mcp_Inlining
  imports Mcp_Callgraph Mcp_Symbols
begin

text \<open>
  What became of the calls (\<^verbatim>\<open>src/internal/mcp/callgraph_runtime_tools.go\<close> without the two tools on linked edges, which are
  in the theory on call graphs): the rows of the three inlining planes, their summary, \<^verbatim>\<open>describe_inlining\<close>,
  \<^verbatim>\<open>list_inline_instances\<close>, and the verdict of \<^verbatim>\<open>explain_call\<close>.
\<close>

section \<open>Rows\<close>

definition inlineRowDefaultLimit :: int where
  "inlineRowDefaultLimit = 50"

definition inlineRowMaxLimit :: int where
  "inlineRowMaxLimit = 1000"

definition verdictScanLimit :: nat where
  "verdictScanLimit = 10000"

record inlineQuery =
  iq_limit :: nat
  iq_snippets :: bool

definition inlineQueryFromRequest :: "int option \<Rightarrow> bool \<Rightarrow> inlineQuery" where
  "inlineQueryFromRequest limit snippets =
     \<lparr>iq_limit = nat (clampRange (case limit of Some n \<Rightarrow> n | None \<Rightarrow> inlineRowDefaultLimit) 1 inlineRowMaxLimit), iq_snippets = snippets\<rparr>"

record CgraphInlineEdge =
  cq_Callee :: SymbolRef
  cq_Inlined :: bool

record InlineRecordRow =
  ir_Caller :: SymbolRef
  ir_Callee :: SymbolRef
  ir_Pass :: string
  ir_Inlined :: bool
  ir_Reason :: string
  ir_Location :: Location
  ir_Object :: string

record InlineInstanceRow =
  iir_Caller :: SymbolRef
  iir_Callee :: SymbolRef
  iir_Depth :: nat
  iir_ParentCallee :: "SymbolRef option"
  iir_Location :: Location
  iir_Object :: string

text \<open>The joins go by primary key; the keys of \<^verbatim>\<open>ORDER BY\<close> are applied from the last to the first.\<close>

definition record_of :: "tool_env \<Rightarrow> bool \<Rightarrow> record_row \<Rightarrow> InlineRecordRow list" where
  "record_of e snippets r =
     (case (ref_by_id (te_hbr e) (rr_caller_id r), ref_by_id (te_hbr e) (rr_callee_id r)) of
        (Some cr, Some ce) \<Rightarrow>
          [\<lparr>ir_Caller = cr, ir_Callee = ce, ir_Pass = rr_pass r, ir_Inlined = (rr_inlined r = 1), ir_Reason = rr_reason r,
            ir_Location = enrich e snippets (location (rr_file r) (rr_line r) (rr_column r)), ir_Object = rr_object r\<rparr>]
      | _ \<Rightarrow> [])"

definition record_rows :: "tool_env \<Rightarrow> bool \<Rightarrow> (record_row \<Rightarrow> bool) \<Rightarrow> InlineRecordRow list" where
  "record_rows e snippets where' =
     sort_key ir_Pass (sort_key (ref_Name \<circ> ir_Callee) (sort_key (lo_Path \<circ> ir_Location) (sort_key (lo_Line \<circ> ir_Location)
       (concat (map (record_of e snippets) (filter where' (inline_records (te_hbr e))))))))"

definition inlineRecords :: "tool_env \<Rightarrow> string \<Rightarrow> inlineQuery \<Rightarrow> (record_row \<Rightarrow> bool) \<Rightarrow> (InlineRecordRow list \<times> bool) tool_result" where
  "inlineRecords e name q where' =
     bind_result (run_query (te_ok e) name (record_rows e (iq_snippets q) where')) (\<lambda>rows. Inr (capped (iq_limit q) rows))"

definition instance_of :: "tool_env \<Rightarrow> bool \<Rightarrow> instance_row \<Rightarrow> InlineInstanceRow list" where
  "instance_of e snippets i =
     (case (ref_by_id (te_hbr e) (iin_caller_id i), ref_by_id (te_hbr e) (iin_callee_id i)) of
        (Some cr, Some ce) \<Rightarrow>
          [\<lparr>iir_Caller = cr, iir_Callee = ce, iir_Depth = iin_depth i,
            iir_ParentCallee = (case Option.bind (iin_parent_callee_id i) (ref_by_id (te_hbr e)) of
                None \<Rightarrow> None | Some p \<Rightarrow> if ref_USR p \<noteq> [] then Some (p\<lparr>ref_Signature := []\<rparr>) else None),
            iir_Location = enrich e snippets (location (iin_file i) (iin_line i) (iin_column i)), iir_Object = iin_object i\<rparr>]
      | _ \<Rightarrow> [])"

definition instance_rows :: "tool_env \<Rightarrow> bool \<Rightarrow> (instance_row \<Rightarrow> bool) \<Rightarrow> InlineInstanceRow list" where
  "instance_rows e snippets where' =
     sort_key iir_Depth (sort_key (ref_Name \<circ> iir_Callee) (sort_key (lo_Path \<circ> iir_Location) (sort_key (lo_Line \<circ> iir_Location)
       (concat (map (instance_of e snippets) (filter where' (dd_instances (ix_dwarf (te_index e)))))))))"

definition inlineInstances :: "tool_env \<Rightarrow> string \<Rightarrow> inlineQuery \<Rightarrow> (instance_row \<Rightarrow> bool) \<Rightarrow> (InlineInstanceRow list \<times> bool) tool_result" where
  "inlineInstances e name q where' =
     bind_result (run_query (te_ok e) name (instance_rows e (iq_snippets q) where')) (\<lambda>rows. Inr (capped (iq_limit q) rows))"

section \<open>Summary\<close>

record InliningSummary =
  su_Records :: nat
  su_RecordsInlined :: nat
  su_RecordsDeclined :: nat
  su_RecordsByPass :: "(string, nat) gomap"
  su_Instances :: nat
  su_InstancesByDepth :: "(string, nat) gomap"
  su_CgraphEdges :: nat

text \<open>\<^verbatim>\<open>GROUP BY\<close> with a count: the keys that occur, each with the number of its rows.\<close>

definition grouped :: "('r \<Rightarrow> 'k) \<Rightarrow> 'r list \<Rightarrow> ('k \<times> nat) list" where
  "grouped key rows = map (\<lambda>k. (k, length (filter (\<lambda>r. key r = k) rows))) (remdups (map key rows))"

definition add_record_group :: "(string \<times> int) \<times> nat \<Rightarrow> InliningSummary \<Rightarrow> InliningSummary" where
  "add_record_group g s =
     (case g of ((pass, inlined), n) \<Rightarrow>
        let s1 = s\<lparr>su_Records := su_Records s + n, su_RecordsByPass := gput pass (gget_or 0 (su_RecordsByPass s) pass + n) (su_RecordsByPass s)\<rparr>
        in if inlined = 1 then s1\<lparr>su_RecordsInlined := su_RecordsInlined s1 + n\<rparr>
           else s1\<lparr>su_RecordsDeclined := su_RecordsDeclined s1 + n\<rparr>)"

definition add_depth_group :: "nat \<times> nat \<Rightarrow> InliningSummary \<Rightarrow> InliningSummary" where
  "add_depth_group g s =
     (case g of (depth, n) \<Rightarrow>
        s\<lparr>su_Instances := su_Instances s + n, su_InstancesByDepth := gput (dec depth) n (su_InstancesByDepth s)\<rparr>)"

definition no_inlining :: InliningSummary where
  "no_inlining = \<lparr>su_Records = 0, su_RecordsInlined = 0, su_RecordsDeclined = 0, su_RecordsByPass = [], su_Instances = 0,
     su_InstancesByDepth = [], su_CgraphEdges = 0\<rparr>"

definition inliningSummary :: "tool_env \<Rightarrow> (record_row \<Rightarrow> bool) \<Rightarrow> (instance_row \<Rightarrow> bool) \<Rightarrow> (decision_row \<Rightarrow> bool) \<Rightarrow> InliningSummary tool_result" where
  "inliningSummary e recs insts decs =
     bind_result (run_query (te_ok e) ''record groups''
       (grouped (\<lambda>r. (rr_pass r, rr_inlined r)) (filter recs (inline_records (te_hbr e))))) (\<lambda>rgroups.
     bind_result (run_query (te_ok e) ''depth groups''
       (sort_key fst (grouped iin_depth (filter insts (dd_instances (ix_dwarf (te_index e))))))) (\<lambda>dgroups.
     bind_result (run_query (te_ok e) ''decision count'' (length (filter decs (inline_decisions (te_hbr e))))) (\<lambda>edges.
       Inr ((fold add_depth_group dgroups (fold add_record_group rgroups no_inlining))\<lparr>su_CgraphEdges := edges\<rparr>))))"

section \<open>The two lists\<close>

record DescribeInliningResponse =
  dn_CallerUSR :: string
  dn_Summary :: InliningSummary
  dn_Records :: "InlineRecordRow list"
  dn_Instances :: "InlineInstanceRow list"
  dn_CgraphEdges :: "CgraphInlineEdge list"
  dn_Truncated :: bool

definition cgraph_rows :: "hbr \<Rightarrow> int \<Rightarrow> CgraphInlineEdge list" where
  "cgraph_rows h callerID =
     sort_key (ref_Name \<circ> cq_Callee) (concat (map (\<lambda>d. case ref_by_id h (id_callee_id d) of
         None \<Rightarrow> [] | Some c \<Rightarrow> [\<lparr>cq_Callee = c, cq_Inlined = (id_inlined d = 1)\<rparr>])
       (filter (\<lambda>d. id_caller_id d = callerID) (inline_decisions h))))"

definition handleDescribeInlining :: "tool_env \<Rightarrow> string option \<Rightarrow> int option \<Rightarrow> bool \<Rightarrow> DescribeInliningResponse tool_result" where
  "handleDescribeInlining e caller_usr limit snippets =
     bind_result (require ''caller_usr'' caller_usr) (\<lambda>u.
     bind_result (symbolIDByUSR (te_ok e) (te_hbr e) u) (\<lambda>callerID.
     bind_result (run_query (te_ok e) ''describe_inlining'' (cgraph_rows (te_hbr e) callerID)) (\<lambda>out.
       let q = inlineQueryFromRequest limit snippets in
     bind_result (inlineRecords e ''describe_inlining records'' q (\<lambda>r. rr_caller_id r = callerID)) (\<lambda>(records, recTrunc).
     bind_result (inlineInstances e ''describe_inlining instances'' q (\<lambda>i. iin_caller_id i = callerID)) (\<lambda>(instances, instTrunc).
     bind_result (inliningSummary e (\<lambda>r. rr_caller_id r = callerID) (\<lambda>i. iin_caller_id i = callerID) (\<lambda>d. id_caller_id d = callerID)) (\<lambda>summary.
       let edgesTrunc = (length out > iq_limit q) in
       Inr \<lparr>dn_CallerUSR = u, dn_Summary = summary, dn_Records = records, dn_Instances = instances,
            dn_CgraphEdges = (if edgesTrunc then take (iq_limit q) out else out), dn_Truncated = (recTrunc \<or> instTrunc \<or> edgesTrunc)\<rparr>))))))"

record ListInlineInstancesResponse =
  ln_CalleeUSR :: string
  ln_Summary :: InliningSummary
  ln_Instances :: "InlineInstanceRow list"
  ln_Records :: "InlineRecordRow list"
  ln_Truncated :: bool

definition handleListInlineInstances :: "tool_env \<Rightarrow> string option \<Rightarrow> int option \<Rightarrow> bool \<Rightarrow> ListInlineInstancesResponse tool_result" where
  "handleListInlineInstances e callee_usr limit snippets =
     bind_result (require ''callee_usr'' callee_usr) (\<lambda>u.
     bind_result (symbolIDByUSR (te_ok e) (te_hbr e) u) (\<lambda>calleeID.
       let q = inlineQueryFromRequest limit snippets in
     bind_result (inlineInstances e ''list_inline_instances instances'' q (\<lambda>i. iin_callee_id i = calleeID)) (\<lambda>(instances, instTrunc).
     bind_result (inlineRecords e ''list_inline_instances records'' q (\<lambda>r. rr_callee_id r = calleeID)) (\<lambda>(records, recTrunc).
     bind_result (inliningSummary e (\<lambda>r. rr_callee_id r = calleeID) (\<lambda>i. iin_callee_id i = calleeID) (\<lambda>d. id_callee_id d = calleeID)) (\<lambda>summary.
       Inr \<lparr>ln_CalleeUSR = u, ln_Summary = summary, ln_Instances = instances, ln_Records = records, ln_Truncated = (instTrunc \<or> recTrunc)\<rparr>)))))"

section \<open>The verdict on a call\<close>

definition VerdictInlinedAndPresent :: string where "VerdictInlinedAndPresent = ''inlined_and_present''"
definition VerdictInlinedThenFolded :: string where "VerdictInlinedThenFolded = ''inlined_then_folded''"
definition VerdictDeclined :: string where "VerdictDeclined = ''declined''"
definition VerdictNoDecisionLogged :: string where "VerdictNoDecisionLogged = ''no_decision_logged''"
definition VerdictMixed :: string where "VerdictMixed = ''mixed''"

record ObjectInlineVerdict =
  ov_Object :: string
  ov_Verdict :: string
  ov_Pass :: string
  ov_Reason :: string

record acc =
  ac_hasInstance :: bool
  ac_inlined :: bool
  ac_declPass :: string
  ac_declReason :: string

definition zero_acc :: acc where
  "zero_acc = \<lparr>ac_hasInstance = False, ac_inlined = False, ac_declPass = [], ac_declReason = []\<rparr>"

text \<open>The order in which objects were first met is the order of the keys of the map.\<close>

definition note_instance :: "InlineInstanceRow \<Rightarrow> (string, acc) gomap \<Rightarrow> (string, acc) gomap" where
  "note_instance i m = gput (iir_Object i) ((gget_or zero_acc m (iir_Object i))\<lparr>ac_hasInstance := True\<rparr>) m"

definition note_record :: "InlineRecordRow \<Rightarrow> (string, acc) gomap \<Rightarrow> (string, acc) gomap" where
  "note_record r m =
     (let a = gget_or zero_acc m (ir_Object r) in
      gput (ir_Object r)
        (if ir_Inlined r then a\<lparr>ac_inlined := True\<rparr>
         else if ac_declPass a \<noteq> ''inline'' then a\<lparr>ac_declPass := ir_Pass r, ac_declReason := ir_Reason r\<rparr>
         else a) m)"

definition verdict_of :: "string \<Rightarrow> acc \<Rightarrow> ObjectInlineVerdict" where
  "verdict_of obj a =
     (if ac_hasInstance a then \<lparr>ov_Object = obj, ov_Verdict = VerdictInlinedAndPresent, ov_Pass = [], ov_Reason = []\<rparr>
      else if ac_inlined a then \<lparr>ov_Object = obj, ov_Verdict = VerdictInlinedThenFolded, ov_Pass = [], ov_Reason = []\<rparr>
      else \<lparr>ov_Object = obj, ov_Verdict = VerdictDeclined, ov_Pass = ac_declPass a, ov_Reason = ac_declReason a\<rparr>)"

definition perObjectVerdicts :: "InlineRecordRow list \<Rightarrow> InlineInstanceRow list \<Rightarrow> ObjectInlineVerdict list" where
  "perObjectVerdicts records instances =
     (let byObject = fold note_record records (fold note_instance instances []) in
      map (\<lambda>obj. verdict_of obj (gget_or zero_acc byObject obj)) (sort (gkeys byObject)))"

definition overallVerdict :: "ObjectInlineVerdict list \<Rightarrow> string \<times> string" where
  "overallVerdict per =
     (case per of
        [] \<Rightarrow> (VerdictNoDecisionLogged, [])
      | p # ps \<Rightarrow>
          if list_ex (\<lambda>q. ov_Verdict q \<noteq> ov_Verdict p) ps then (VerdictMixed, [])
          else if ov_Verdict p = VerdictDeclined then (ov_Verdict p, ov_Reason p)
          else (ov_Verdict p, []))"

record ExplainCallEvidence =
  xe_Records :: "InlineRecordRow list"
  xe_Instances :: "InlineInstanceRow list"
  xe_CgraphEdgeInlined :: "bool option"
  xe_LinkedEdge :: bool
  xe_Truncated :: bool

record ExplainCallResponse =
  xc_Caller :: SymbolRef
  xc_Callee :: SymbolRef
  xc_Target :: string
  xc_Verdict :: string
  xc_Reason :: string
  xc_PerObject :: "ObjectInlineVerdict list"
  xc_Evidence :: ExplainCallEvidence

text \<open>\<^verbatim>\<open>MAX(inlined)\<close>: no value over no rows, or if the query fails.\<close>

definition cgraph_edge_inlined :: "tool_env \<Rightarrow> int \<Rightarrow> int \<Rightarrow> bool option" where
  "cgraph_edge_inlined e callerID calleeID =
     (let vs = map id_inlined (filter (\<lambda>d. id_caller_id d = callerID \<and> id_callee_id d = calleeID) (inline_decisions (te_hbr e))) in
      if \<not> te_ok e ''cgraph edge'' \<or> vs = [] then None else Some (fold max vs (hd vs) = 1))"

definition linked_edge :: "hbr \<Rightarrow> string \<Rightarrow> int \<Rightarrow> int \<Rightarrow> bool" where
  "linked_edge h target callerID calleeID \<longleftrightarrow>
     list_ex (\<lambda>x. ce_caller_id x = callerID \<and> ce_callee_id x = calleeID \<and> ce_source x = ''objdump'' \<and>
       (target = [] \<or> (\<exists>t \<in> set (targets h). t_name (snd t) = target \<and> ce_target_id x = Some (fst t)))) (call_edges h)"

definition handleExplainCall :: "tool_env \<Rightarrow> string option \<Rightarrow> string option \<Rightarrow> string \<Rightarrow> int option \<Rightarrow> bool \<Rightarrow> ExplainCallResponse tool_result" where
  "handleExplainCall e caller_usr callee_usr target limit snippets =
     bind_result (require ''caller_usr'' caller_usr) (\<lambda>cu.
     bind_result (require ''callee_usr'' callee_usr) (\<lambda>eu.
     bind_result (symbolIDByUSR (te_ok e) (te_hbr e) cu) (\<lambda>callerID.
     bind_result (symbolIDByUSR (te_ok e) (te_hbr e) eu) (\<lambda>calleeID.
     bind_result (run_query (te_ok e) ''explain_call: caller'' (ref_by_id (te_hbr e) callerID)) (\<lambda>caller.
     bind_result (run_query (te_ok e) ''explain_call: callee'' (ref_by_id (te_hbr e) calleeID)) (\<lambda>callee.
       if caller = None then Inl (E_query ''explain_call: caller'')
       else if callee = None then Inl (E_query ''explain_call: callee'')
       else
     bind_result (inlineRecords e ''explain_call records'' \<lparr>iq_limit = verdictScanLimit, iq_snippets = False\<rparr>
         (\<lambda>r. rr_caller_id r = callerID \<and> rr_callee_id r = calleeID)) (\<lambda>(records, _).
     bind_result (inlineInstances e ''explain_call instances'' \<lparr>iq_limit = verdictScanLimit, iq_snippets = False\<rparr>
         (\<lambda>i. iin_caller_id i = callerID \<and> iin_callee_id i = calleeID)) (\<lambda>(instances, _).
     bind_result (run_query (te_ok e) ''explain_call: linked edge'' (linked_edge (te_hbr e) target callerID calleeID)) (\<lambda>linked.
       let q = inlineQueryFromRequest limit snippets;
           shown = (if iq_snippets q then (\<lambda>r. r\<lparr>ir_Location := enrich e True (ir_Location r)\<rparr>) else id);
           shown' = (if iq_snippets q then (\<lambda>i. i\<lparr>iir_Location := enrich e True (iir_Location i)\<rparr>) else id);
           per = perObjectVerdicts records instances;
           (verdict, reason) = overallVerdict per
       in Inr \<lparr>xc_Caller = the caller, xc_Callee = the callee, xc_Target = target, xc_Verdict = verdict, xc_Reason = reason,
               xc_PerObject = per,
               xc_Evidence = \<lparr>xe_Records = map shown (take (iq_limit q) records), xe_Instances = map shown' (take (iq_limit q) instances),
                 xe_CgraphEdgeInlined = cgraph_edge_inlined e callerID calleeID, xe_LinkedEdge = linked,
                 xe_Truncated = (length records > iq_limit q \<or> length instances > iq_limit q)\<rparr>\<rparr>)))))))))"

section \<open>Verdicts per object\<close>

definition record_step :: "InlineRecordRow \<Rightarrow> acc \<Rightarrow> acc" where
  "record_step r a =
     (if ir_Inlined r then a\<lparr>ac_inlined := True\<rparr>
      else if ac_declPass a \<noteq> ''inline'' then a\<lparr>ac_declPass := ir_Pass r, ac_declReason := ir_Reason r\<rparr> else a)"

lemma gget_or_gput [simp]: "gget_or z (gput k v m) k' = (if k' = k then v else gget_or z m k')"
  by (simp add: gget_or_def)

lemma note_records:
  "gget_or zero_acc (fold note_record rs m) obj = fold record_step (filter (\<lambda>r. ir_Object r = obj) rs) (gget_or zero_acc m obj)"
  by (induction rs arbitrary: m) (auto simp: note_record_def record_step_def Let_def)

lemma note_instances:
  "gget_or zero_acc (fold note_instance is m) obj =
     (if list_ex (\<lambda>i. iir_Object i = obj) is then (gget_or zero_acc m obj)\<lparr>ac_hasInstance := True\<rparr> else gget_or zero_acc m obj)"
  by (induction "is" arbitrary: m) (auto simp: note_instance_def)

lemma record_keys: "set (gkeys (fold note_record rs m)) = ir_Object ` set rs \<union> set (gkeys m)"
  by (induction rs arbitrary: m) (auto simp: note_record_def Let_def gkeys_gput)

lemma instance_keys: "set (gkeys (fold note_instance is m)) = iir_Object ` set is \<union> set (gkeys m)"
  by (induction "is" arbitrary: m) (auto simp: note_instance_def gkeys_gput)

lemma record_ok: "gmap_ok m \<Longrightarrow> gmap_ok (fold note_record rs m)"
  by (induction rs arbitrary: m) (auto simp: note_record_def Let_def)

lemma instance_ok: "gmap_ok m \<Longrightarrow> gmap_ok (fold note_instance is m)"
  by (induction "is" arbitrary: m) (auto simp: note_instance_def)

text \<open>The refusal that stands: the first of the pass \<^verbatim>\<open>inline\<close>, or else the last there is.\<close>

definition standing :: "InlineRecordRow list \<Rightarrow> InlineRecordRow option" where
  "standing ds = (case find (\<lambda>r. ir_Pass r = ''inline'') ds of Some r \<Rightarrow> Some r | None \<Rightarrow> if ds = [] then None else Some (last ds))"

lemma record_steps:
  "fold record_step rs a = a\<lparr>ac_inlined := ac_inlined a \<or> list_ex ir_Inlined rs,
     ac_declPass := (if ac_declPass a = ''inline'' then ''inline'' else case standing (filter (\<lambda>r. \<not> ir_Inlined r) rs) of None \<Rightarrow> ac_declPass a | Some r \<Rightarrow> ir_Pass r),
     ac_declReason := (if ac_declPass a = ''inline'' then ac_declReason a else case standing (filter (\<lambda>r. \<not> ir_Inlined r) rs) of None \<Rightarrow> ac_declReason a | Some r \<Rightarrow> ir_Reason r)\<rparr>"
proof (induction rs arbitrary: a)
  case Nil
  show ?case by (simp add: standing_def)
next
  case (Cons r rs)
  show ?case using Cons [of "record_step r a"] by (auto simp: record_step_def standing_def split: option.splits)
qed

text \<open>What one object says of a call.\<close>

definition object_verdict :: "InlineRecordRow list \<Rightarrow> InlineInstanceRow list \<Rightarrow> string \<Rightarrow> string" where
  "object_verdict rs is obj =
     (if obj \<in> iir_Object ` set is then VerdictInlinedAndPresent
      else if \<exists>r \<in> set rs. ir_Object r = obj \<and> ir_Inlined r then VerdictInlinedThenFolded else VerdictDeclined)"

lemma standing_facts:
  assumes "ds \<noteq> []"
  shows "\<exists>r. standing ds = Some r \<and> r \<in> set ds \<and> ((\<exists>r \<in> set ds. ir_Pass r = ''inline'') \<longrightarrow> ir_Pass r = ''inline'')"
proof (cases "find (\<lambda>r. ir_Pass r = ''inline'') ds")
  case None
  then have "standing ds = Some (last ds)" using assms by (simp add: standing_def)
  moreover have "\<forall>r \<in> set ds. ir_Pass r \<noteq> ''inline''" using None by (simp add: find_None_iff)
  ultimately show ?thesis using assms by simp
next
  case (Some r)
  then have "standing ds = Some r" by (simp add: standing_def)
  moreover have "r \<in> set ds" "ir_Pass r = ''inline''" using Some by (auto simp: find_Some_iff)
  ultimately show ?thesis by simp
qed

lemma verdict_cases:
  "v \<in> set (perObjectVerdicts rs is) \<Longrightarrow>
     ov_Verdict v = object_verdict rs is (ov_Object v) \<and>
     (ov_Verdict v = VerdictDeclined \<longrightarrow> (\<exists>r \<in> set rs. ir_Object r = ov_Object v \<and> ir_Pass r = ov_Pass v \<and> ir_Reason r = ov_Reason v) \<and>
        ((\<exists>r \<in> set rs. ir_Object r = ov_Object v \<and> ir_Pass r = ''inline'') \<longrightarrow> ov_Pass v = ''inline''))"
proof -
  let ?m = "fold note_record rs (fold note_instance is [])"
  assume "v \<in> set (perObjectVerdicts rs is)"
  then obtain obj where o: "obj \<in> set (gkeys ?m)" and v: "v = verdict_of obj (gget_or zero_acc ?m obj)"
    by (auto simp: perObjectVerdicts_def Let_def)
  let ?rs = "filter (\<lambda>r. ir_Object r = obj) rs"
  define a where "a = gget_or zero_acc ?m obj"
  have a: "a = fold record_step ?rs (if list_ex (\<lambda>i. iir_Object i = obj) is then zero_acc\<lparr>ac_hasInstance := True\<rparr> else zero_acc)"
    unfolding a_def note_records note_instances by (simp add: gget_or_def)
  have inst: "ac_hasInstance a \<longleftrightarrow> obj \<in> iir_Object ` set is" by (auto simp: a record_steps zero_acc_def list_ex_iff)
  have inl: "ac_inlined a \<longleftrightarrow> (\<exists>r \<in> set rs. ir_Object r = obj \<and> ir_Inlined r)" by (auto simp: a record_steps zero_acc_def list_ex_iff)
  have obj: "ov_Object v = obj" unfolding v by (simp add: verdict_of_def)
  have verdict: "ov_Verdict v = object_verdict rs is obj"
    unfolding v a_def [symmetric] verdict_of_def object_verdict_def inst [symmetric] inl [symmetric] by simp
  have "(\<exists>r \<in> set rs. ir_Object r = obj \<and> ir_Pass r = ov_Pass v \<and> ir_Reason r = ov_Reason v) \<and>
        ((\<exists>r \<in> set rs. ir_Object r = obj \<and> ir_Pass r = ''inline'') \<longrightarrow> ov_Pass v = ''inline'')" if d: "ov_Verdict v = VerdictDeclined"
  proof -
    have none: "\<not> ac_hasInstance a" "\<not> ac_inlined a"
      using d unfolding v a_def [symmetric] verdict_of_def
      by (auto simp: VerdictDeclined_def VerdictInlinedAndPresent_def VerdictInlinedThenFolded_def split: if_splits)
    have p: "ov_Pass v = ac_declPass a" "ov_Reason v = ac_declReason a" using none unfolding v a_def [symmetric] verdict_of_def by simp_all
    have ds: "filter (\<lambda>r. \<not> ir_Inlined r) ?rs = ?rs" using none(2) unfolding inl by (intro filter_True) auto
    have "obj \<in> ir_Object ` set rs" using o none(1) unfolding inst record_keys instance_keys by (simp add: gkeys_def)
    then have "?rs \<noteq> []" by (auto simp: filter_empty_conv)
    then obtain r where r: "standing ?rs = Some r" "r \<in> set ?rs" "(\<exists>r \<in> set ?rs. ir_Pass r = ''inline'') \<longrightarrow> ir_Pass r = ''inline''"
      using standing_facts by blast
    have "ac_declPass a = ir_Pass r" "ac_declReason a = ir_Reason r"
      using none(1) inst r(1) unfolding a record_steps ds by (auto simp: zero_acc_def list_ex_iff)
    then show ?thesis using r(2,3) p by auto
  qed
  then show ?thesis using verdict unfolding obj by blast
qed

lemma verdict_objects:
  "sorted (map ov_Object (perObjectVerdicts rs is))" "distinct (map ov_Object (perObjectVerdicts rs is))"
  "set (map ov_Object (perObjectVerdicts rs is)) = ir_Object ` set rs \<union> iir_Object ` set is"
proof -
  let ?m = "fold note_record rs (fold note_instance is [])"
  have m: "map ov_Object (perObjectVerdicts rs is) = sort (gkeys ?m)"
    by (simp add: perObjectVerdicts_def Let_def verdict_of_def comp_def if_distrib [of ov_Object] cong: if_cong)
  show "sorted (map ov_Object (perObjectVerdicts rs is))" by (simp add: m)
  have "gmap_ok ?m" by (intro record_ok instance_ok gmap_ok_Nil)
  then show "distinct (map ov_Object (perObjectVerdicts rs is))" by (simp add: m gmap_ok_def)
  show "set (map ov_Object (perObjectVerdicts rs is)) = ir_Object ` set rs \<union> iir_Object ` set is"
    unfolding m set_sort record_keys instance_keys by (simp add: gkeys_def)
qed

lemma overall:
  "fst (overallVerdict per) = (if per = [] then VerdictNoDecisionLogged
     else if \<forall>v \<in> set per. ov_Verdict v = ov_Verdict (hd per) then ov_Verdict (hd per) else VerdictMixed)"
  by (cases per) (auto simp: overallVerdict_def list_ex_iff)

section \<open>From the rows of the index to the verdict\<close>

lemma ref_by_id_row:
  assumes "i \<in> set (ids (symbols h))"
  shows "\<exists>r. ref_by_id h i = Some (ref_of r) \<and> (i, r) \<in> set (symbols h)"
proof (cases "find (\<lambda>(j, r). j = i) (symbols h)")
  case None
  then show ?thesis using assms by (auto simp: ids_def find_None_iff)
next
  case (Some p)
  then obtain k where "k < length (symbols h)" "case p of (j, r) \<Rightarrow> j = i" "p = symbols h ! k" unfolding find_Some_iff by metis
  then have "p \<in> set (symbols h)" "fst p = i" by auto
  then show ?thesis using Some by (intro exI [of _ "snd p"]) (auto simp: ref_by_id_def)
qed

lemma record_of_row:
  assumes "hbr_ok (te_hbr e)" "r \<in> set (inline_records (te_hbr e))"
  shows "\<exists>x. record_of e sn r = [x] \<and> ir_Pass x = rr_pass r \<and> ir_Inlined x = (rr_inlined r = 1) \<and> ir_Reason x = rr_reason r \<and> ir_Object x = rr_object r"
proof -
  have "rr_caller_id r \<in> set (ids (symbols (te_hbr e)))" "rr_callee_id r \<in> set (ids (symbols (te_hbr e)))"
    using assms by (auto simp: hbr_ok_def)
  then obtain c d where "ref_by_id (te_hbr e) (rr_caller_id r) = Some c" "ref_by_id (te_hbr e) (rr_callee_id r) = Some d"
    using ref_by_id_row [of _ "te_hbr e"] by blast
  then show ?thesis by (simp add: record_of_def)
qed

lemma instance_of_row:
  assumes "dwarf_ok (ix_dwarf (te_index e))" "i \<in> set (dd_instances (ix_dwarf (te_index e)))"
  shows "\<exists>x. instance_of e sn i = [x] \<and> iir_Depth x = iin_depth i \<and> iir_Object x = iin_object i"
proof -
  have "hbr_ok (te_hbr e)" "iin_caller_id i \<in> set (ids (symbols (te_hbr e)))" "iin_callee_id i \<in> set (ids (symbols (te_hbr e)))"
    using assms by (auto simp: dwarf_ok_def)
  then obtain c d where "ref_by_id (te_hbr e) (iin_caller_id i) = Some c" "ref_by_id (te_hbr e) (iin_callee_id i) = Some d"
    using ref_by_id_row [of _ "te_hbr e"] by blast
  then show ?thesis by (simp add: instance_of_def)
qed

text \<open>A join by primary key neither drops nor repeats a row.\<close>

lemma joined_length: "(\<And>r. r \<in> set rows \<Longrightarrow> \<exists>x. f r = [x]) \<Longrightarrow> length (concat (map f rows)) = length rows"
  by (induction rows) force+

lemma joined_image:
  assumes "\<And>r. r \<in> set rows \<Longrightarrow> \<exists>x. f r = [x] \<and> g x = k r"
  shows "g ` set (concat (map f rows)) = k ` set rows"
  using assms by (induction rows) force+

lemma record_rows_length:
  assumes "hbr_ok (te_hbr e)"
  shows "length (record_rows e sn P) = length (filter P (inline_records (te_hbr e)))"
proof -
  have "\<exists>x. record_of e sn r = [x]" if "r \<in> set (filter P (inline_records (te_hbr e)))" for r
    using record_of_row [OF assms, of r sn] that by auto
  then show ?thesis unfolding record_rows_def length_sort by (rule joined_length)
qed

lemma instance_rows_length:
  assumes "dwarf_ok (ix_dwarf (te_index e))"
  shows "length (instance_rows e sn P) = length (filter P (dd_instances (ix_dwarf (te_index e))))"
proof -
  have "\<exists>x. instance_of e sn r = [x]" if "r \<in> set (filter P (dd_instances (ix_dwarf (te_index e))))" for r
    using instance_of_row [OF assms, of r sn] that by auto
  then show ?thesis unfolding instance_rows_def length_sort by (rule joined_length)
qed

lemma record_rows_image:
  assumes "hbr_ok (te_hbr e)"
  shows "(\<lambda>x. (ir_Object x, ir_Inlined x, ir_Pass x, ir_Reason x)) ` set (record_rows e sn P) =
    (\<lambda>r. (rr_object r, rr_inlined r = 1, rr_pass r, rr_reason r)) ` set (filter P (inline_records (te_hbr e)))"
  unfolding record_rows_def set_sort
proof (rule joined_image)
  fix r assume "r \<in> set (filter P (inline_records (te_hbr e)))"
  then obtain x where "record_of e sn r = [x]" "ir_Pass x = rr_pass r" "ir_Inlined x = (rr_inlined r = 1)" "ir_Reason x = rr_reason r" "ir_Object x = rr_object r"
    using record_of_row [OF assms, of r sn] by auto
  then show "\<exists>x. record_of e sn r = [x] \<and> (ir_Object x, ir_Inlined x, ir_Pass x, ir_Reason x) = (rr_object r, rr_inlined r = 1, rr_pass r, rr_reason r)"
    by simp
qed

lemma instance_rows_image:
  assumes "dwarf_ok (ix_dwarf (te_index e))"
  shows "iir_Object ` set (instance_rows e sn P) = iin_object ` set (filter P (dd_instances (ix_dwarf (te_index e))))"
  unfolding instance_rows_def set_sort
proof (rule joined_image)
  fix i assume "i \<in> set (filter P (dd_instances (ix_dwarf (te_index e))))"
  then show "\<exists>x. instance_of e sn i = [x] \<and> iir_Object x = iin_object i" using instance_of_row [OF assms, of i sn] by auto
qed

lemma handleExplainCall_Inr:
  assumes "hbr_ok (te_hbr e)" "handleExplainCall e (Some a) (Some b) target limit sn = Inr resp"
    and "(i, ra) \<in> set (symbols (te_hbr e))" "sy_usr ra = a" "(j, rb) \<in> set (symbols (te_hbr e))" "sy_usr rb = b"
  shows "xc_PerObject resp = perObjectVerdicts
      (take verdictScanLimit (record_rows e False (\<lambda>r. rr_caller_id r = i \<and> rr_callee_id r = j)))
      (take verdictScanLimit (instance_rows e False (\<lambda>x. iin_caller_id x = i \<and> iin_callee_id x = j)))" (is "_ = ?per")
    and "xc_Verdict resp = fst (overallVerdict (xc_PerObject resp))"
proof -
  have ids: "symbolIDByUSR (te_ok e) (te_hbr e) a = Inr i" "symbolIDByUSR (te_ok e) (te_hbr e) b = Inr j" if "te_ok e ''lookup''"
    using that assms(3-6) by (auto simp: symbolIDByUSR_iff [OF assms(1)])
  have ok: "te_ok e ''lookup''"
    using assms(2) by (auto simp: handleExplainCall_def require_def bind_result_Inr_iff symbolIDByUSR_def split: if_splits)
  have "xc_PerObject resp = ?per \<and> xc_Verdict resp = fst (overallVerdict ?per)"
    using assms(2) unfolding handleExplainCall_def require_def option.case bind_result.simps ids [OF ok] inlineRecords_def inlineInstances_def capped_eq
    by (clarsimp simp: bind_result_Inr_iff run_query_def Let_def case_prod_beta split: if_splits)
  then show "xc_PerObject resp = ?per" "xc_Verdict resp = fst (overallVerdict (xc_PerObject resp))" by simp_all
qed

text \<open>
  C25 The verdict of \<^verbatim>\<open>explain_call\<close>. For a pair with at most 10000 rows in each of the two planes, which is what the scan
  reads of them, and whatever the limit of the response:
  there is one verdict for each object with a row of the pair, in order of name; it says inlined and present exactly
  where the object holds an inlined body, inlined and folded where a pass said so but no body is left, declined
  otherwise, then with the pass and the words of a record, those of the pass \<^verbatim>\<open>inline\<close> if it spoke; and the overall verdict
  is the one on which all objects agree, \<^verbatim>\<open>mixed\<close> if they do not, or none if there is no row.
\<close>

theorem explain_call_verdict:
  assumes "dwarf_ok (ix_dwarf (te_index e))" "handleExplainCall e (Some a) (Some b) target limit sn = Inr resp"
    and "(i, ra) \<in> set (symbols (te_hbr e))" "sy_usr ra = a" "(j, rb) \<in> set (symbols (te_hbr e))" "sy_usr rb = b"
    and recs: "recs = filter (\<lambda>r. rr_caller_id r = i \<and> rr_callee_id r = j) (inline_records (te_hbr e))" "length recs \<le> verdictScanLimit"
    and insts: "insts = filter (\<lambda>x. iin_caller_id x = i \<and> iin_callee_id x = j) (dd_instances (ix_dwarf (te_index e)))" "length insts \<le> verdictScanLimit"
  shows "(let per = xc_PerObject resp in
    sorted (map ov_Object per) \<and> distinct (map ov_Object per) \<and>
    set (map ov_Object per) = rr_object ` set recs \<union> iin_object ` set insts \<and>
    (\<forall>v \<in> set per. ov_Verdict v =
       (if ov_Object v \<in> iin_object ` set insts then VerdictInlinedAndPresent
        else if \<exists>r \<in> set recs. rr_object r = ov_Object v \<and> rr_inlined r = 1 then VerdictInlinedThenFolded else VerdictDeclined)) \<and>
    (\<forall>v \<in> set per. ov_Verdict v = VerdictDeclined \<longrightarrow>
       (\<exists>r \<in> set recs. rr_object r = ov_Object v \<and> rr_pass r = ov_Pass v \<and> rr_reason r = ov_Reason v) \<and>
       ((\<exists>r \<in> set recs. rr_object r = ov_Object v \<and> rr_pass r = ''inline'') \<longrightarrow> ov_Pass v = ''inline'')) \<and>
    xc_Verdict resp = (if recs = [] \<and> insts = [] then VerdictNoDecisionLogged
      else if \<forall>v \<in> set per. ov_Verdict v = ov_Verdict (hd per) then ov_Verdict (hd per) else VerdictMixed))"
proof -
  have ok: "hbr_ok (te_hbr e)" using assms(1) by (simp add: dwarf_ok_def)
  define rs where "rs = record_rows e False (\<lambda>r. rr_caller_id r = i \<and> rr_callee_id r = j)"
  define xs where "xs = instance_rows e False (\<lambda>x. iin_caller_id x = i \<and> iin_callee_id x = j)"
  have len: "length rs = length recs" "length xs = length insts"
    unfolding rs_def xs_def recs(1) insts(1) by (rule record_rows_length [OF ok], rule instance_rows_length [OF assms(1)])
  have per: "xc_PerObject resp = perObjectVerdicts rs xs" and verdict: "xc_Verdict resp = fst (overallVerdict (xc_PerObject resp))"
    using handleExplainCall_Inr [OF ok assms(2-6), folded rs_def xs_def] recs(2) insts(2) len by simp_all
  have im: "(\<lambda>x. (ir_Object x, ir_Inlined x, ir_Pass x, ir_Reason x)) ` set rs = (\<lambda>r. (rr_object r, rr_inlined r = 1, rr_pass r, rr_reason r)) ` set recs"
    unfolding rs_def recs(1) by (rule record_rows_image [OF ok])
  have ix: "iir_Object ` set xs = iin_object ` set insts" unfolding xs_def insts(1) by (rule instance_rows_image [OF assms(1)])
  have some: "(\<exists>x \<in> set rs. Q (ir_Object x) (ir_Inlined x) (ir_Pass x) (ir_Reason x)) \<longleftrightarrow>
      (\<exists>r \<in> set recs. Q (rr_object r) (rr_inlined r = 1) (rr_pass r) (rr_reason r))" for Q
  proof -
    have "(\<exists>x \<in> set rs. Q (ir_Object x) (ir_Inlined x) (ir_Pass x) (ir_Reason x)) \<longleftrightarrow>
        (\<exists>y \<in> (\<lambda>x. (ir_Object x, ir_Inlined x, ir_Pass x, ir_Reason x)) ` set rs. case y of (p, q, s, t) \<Rightarrow> Q p q s t)" by simp
    then show ?thesis unfolding im by simp
  qed
  have objs: "ir_Object ` set rs = rr_object ` set recs"
    using arg_cong [OF im, of "image fst"] unfolding image_image by simp
  note vs = verdict_cases [of _ rs xs, unfolded object_verdict_def ix
      some [of "\<lambda>p q s t. p = _ \<and> q"] some [of "\<lambda>p q s t. p = _ \<and> s = _ \<and> t = _"] some [of "\<lambda>p q s t. p = _ \<and> s = _"]]
  have "set (map ov_Object (perObjectVerdicts rs xs)) = rr_object ` set recs \<union> iin_object ` set insts"
    unfolding verdict_objects(3) objs ix ..
  moreover from this have "perObjectVerdicts rs xs = [] \<longleftrightarrow> recs = [] \<and> insts = []" by (cases "perObjectVerdicts rs xs") auto
  ultimately show ?thesis
    unfolding Let_def verdict per overall using verdict_objects(1,2) [of rs xs] vs by simp
qed

section \<open>Exact totals\<close>

lemma grouped_count:
  assumes "finite K"
  shows "(\<Sum>k \<in> K. length (filter (\<lambda>r. key r = k) rows)) = length (filter (\<lambda>r. key r \<in> K) rows)"
proof (induction rows)
  case (Cons r rows)
  have "(\<Sum>k \<in> K. length (filter (\<lambda>r. key r = k) (r # rows))) =
      (\<Sum>k \<in> K. (if key r = k then 1 else 0) + length (filter (\<lambda>r. key r = k) rows))" by (rule sum.cong) auto
  also have "\<dots> = (if key r \<in> K then 1 else 0) + length (filter (\<lambda>r. key r \<in> K) rows)"
    using assms Cons by (simp add: sum.distrib)
  finally show ?case by simp
qed simp

lemma sum_grouped:
  "sum_list (map (\<lambda>g. if P (fst g) then snd g else 0) (grouped key rows)) = length (filter (\<lambda>r. P (key r)) rows)"
proof -
  have "sum_list (map (\<lambda>g. if P (fst g) then snd g else 0) (grouped key rows)) =
      sum_list (map (\<lambda>k. if P k then length (filter (\<lambda>r. key r = k) rows) else 0) (remdups (map key rows)))"
    by (simp add: grouped_def comp_def cong: if_cong)
  also have "\<dots> = (\<Sum>k \<in> set (map key rows). if P k then length (filter (\<lambda>r. key r = k) rows) else 0)"
    by (simp add: sum_list_distinct_conv_sum_set)
  also have "\<dots> = (\<Sum>k \<in> {k \<in> set (map key rows). P k}. length (filter (\<lambda>r. key r = k) rows))"
    by (simp add: sum.inter_filter)
  also have "\<dots> = length (filter (\<lambda>r. key r \<in> {k \<in> set (map key rows). P k}) rows)" by (rule grouped_count) simp
  also have "filter (\<lambda>r. key r \<in> {k \<in> set (map key rows). P k}) rows = filter (\<lambda>r. P (key r)) rows"
    by (rule filter_cong) auto
  finally show ?thesis .
qed

lemma add_record_groups:
  "su_Records (fold add_record_group gs s) = su_Records s + sum_list (map snd gs)"
  "su_RecordsInlined (fold add_record_group gs s) = su_RecordsInlined s + sum_list (map (\<lambda>g. if snd (fst g) = 1 then snd g else 0) gs)"
  "su_RecordsDeclined (fold add_record_group gs s) = su_RecordsDeclined s + sum_list (map (\<lambda>g. if snd (fst g) \<noteq> 1 then snd g else 0) gs)"
  "gget_or 0 (su_RecordsByPass (fold add_record_group gs s)) p =
     gget_or 0 (su_RecordsByPass s) p + sum_list (map (\<lambda>g. if fst (fst g) = p then snd g else 0) gs)"
  "su_Instances (fold add_record_group gs s) = su_Instances s"
  "su_InstancesByDepth (fold add_record_group gs s) = su_InstancesByDepth s"
  by (induction gs arbitrary: s; auto simp: add_record_group_def Let_def)+

lemma add_depth_groups:
  "su_Records (fold add_depth_group gs s) = su_Records s" "su_RecordsInlined (fold add_depth_group gs s) = su_RecordsInlined s"
  "su_RecordsDeclined (fold add_depth_group gs s) = su_RecordsDeclined s" "su_RecordsByPass (fold add_depth_group gs s) = su_RecordsByPass s"
  "su_Instances (fold add_depth_group gs s) = su_Instances s + sum_list (map snd gs)"
  by (induction gs arbitrary: s; auto simp: add_depth_group_def)+

lemma dec_value: "foldl (\<lambda>a c. 10 * a + (of_char c - 0x30)) 0 (dec n) = n"
proof (induction n rule: dec.induct)
  case (1 n)
  then show ?case by (cases "n < 10") (simp_all add: dec.simps [of n] of_char_of)
qed

lemma dec_inject: "dec m = dec n \<longleftrightarrow> m = n"
  by (metis dec_value)

lemma add_depth_group_other:
  "d \<notin> fst ` set gs \<Longrightarrow> gget_or 0 (su_InstancesByDepth (fold add_depth_group gs s)) (dec d) = gget_or 0 (su_InstancesByDepth s) (dec d)"
  by (induction gs arbitrary: s) (auto simp: add_depth_group_def dec_inject)

lemma add_depth_group_key:
  "distinct (map fst gs) \<Longrightarrow> (d, n) \<in> set gs \<Longrightarrow> gget_or 0 (su_InstancesByDepth (fold add_depth_group gs s)) (dec d) = n"
proof (induction gs arbitrary: s)
  case (Cons g gs)
  show ?case
  proof (cases "g = (d, n)")
    case True
    then have "d \<notin> fst ` set gs" using Cons.prems(1) by simp
    moreover have "gget_or 0 (su_InstancesByDepth (add_depth_group g s)) (dec d) = n" using True by (simp add: add_depth_group_def)
    ultimately show ?thesis using add_depth_group_other [of d gs "add_depth_group g s"] by simp
  qed (use Cons in simp)
qed simp

lemma by_depth:
  assumes "su_InstancesByDepth s = []"
  shows "gget_or 0 (su_InstancesByDepth (fold add_depth_group (sort_key fst (grouped key rows)) s)) (dec d) =
     length (filter (\<lambda>r. key r = d) rows)"
proof (cases "d \<in> key ` set rows")
  case True
  have "mset (map fst (sort_key fst (grouped key rows))) = mset (map fst (grouped key rows))" by simp
  moreover have "distinct (map fst (grouped key rows))" by (simp add: grouped_def comp_def)
  ultimately have d: "distinct (map fst (sort_key fst (grouped key rows)))" using mset_eq_imp_distinct_iff by blast
  have "(d, length (filter (\<lambda>r. key r = d) rows)) \<in> set (sort_key fst (grouped key rows))" using True by (simp add: grouped_def)
  then show ?thesis using add_depth_group_key [OF d] True by simp
next
  case False
  then have "d \<notin> fst ` set (sort_key fst (grouped key rows))" by (auto simp: grouped_def)
  then have "gget_or 0 (su_InstancesByDepth (fold add_depth_group (sort_key fst (grouped key rows)) s)) (dec d) = 0"
    using add_depth_group_other [of d "sort_key fst (grouped key rows)" s] assms by (simp add: gget_or_def)
  moreover have "filter (\<lambda>r. key r = d) rows = []" using False unfolding filter_empty_conv by auto
  ultimately show ?thesis by simp
qed

text \<open>The summary of rows, decisions and bodies is exact.\<close>

definition summary_of :: "record_row list \<Rightarrow> instance_row list \<Rightarrow> decision_row list \<Rightarrow> InliningSummary \<Rightarrow> bool" where
  "summary_of recs insts decs s \<longleftrightarrow>
     su_Records s = length recs \<and> su_RecordsInlined s = length (filter (\<lambda>r. rr_inlined r = 1) recs) \<and>
     su_RecordsDeclined s = length (filter (\<lambda>r. rr_inlined r \<noteq> 1) recs) \<and>
     (\<forall>p. gget_or 0 (su_RecordsByPass s) p = length (filter (\<lambda>r. rr_pass r = p) recs)) \<and>
     su_Instances s = length insts \<and>
     (\<forall>d. gget_or 0 (su_InstancesByDepth s) (dec d) = length (filter (\<lambda>i. iin_depth i = d) insts)) \<and>
     su_CgraphEdges s = length decs"

lemma inliningSummary_exact:
  assumes "inliningSummary e P Q R = Inr s"
  shows "summary_of (filter P (inline_records (te_hbr e))) (filter Q (dd_instances (ix_dwarf (te_index e)))) (filter R (inline_decisions (te_hbr e))) s"
proof -
  let ?recs = "filter P (inline_records (te_hbr e))" and ?insts = "filter Q (dd_instances (ix_dwarf (te_index e)))"
  let ?rg = "grouped (\<lambda>r. (rr_pass r, rr_inlined r)) ?recs" and ?dg = "sort_key fst (grouped iin_depth ?insts)"
  have s: "s = (fold add_depth_group ?dg (fold add_record_group ?rg no_inlining))\<lparr>su_CgraphEdges := length (filter R (inline_decisions (te_hbr e)))\<rparr>"
    using assms by (auto simp: inliningSummary_def bind_result_Inr_iff run_query_def split: if_splits)
  have snd_sum: "sum_list (map snd (grouped key rows)) = length rows" for key :: "'r \<Rightarrow> 'k" and rows
    using sum_grouped [of "\<lambda>_. True" key rows] by simp
  have dg: "sum_list (map snd ?dg) = length ?insts"
    using snd_sum [of iin_depth ?insts] sum_mset_sum_list [of "map snd ?dg"] sum_mset_sum_list [of "map snd (grouped iin_depth ?insts)"] by simp
  show ?thesis
    unfolding summary_of_def s
    by (simp add: add_depth_groups add_record_groups dg snd_sum no_inlining_def gget_or_def [of _ "[]"] 
        sum_grouped [of "\<lambda>k. snd k = 1"] sum_grouped [of "\<lambda>k. snd k \<noteq> 1"] sum_grouped [of "\<lambda>k. fst k = _"]
        by_depth [of "fold add_record_group ?rg \<lparr>su_Records = 0, su_RecordsInlined = 0, su_RecordsDeclined = 0, su_RecordsByPass = [], su_Instances = 0,
          su_InstancesByDepth = [], su_CgraphEdges = 0\<rparr>"])
qed

lemma handleDescribeInlining_Inr:
  assumes "hbr_ok (te_hbr e)" "handleDescribeInlining e (Some u) limit sn = Inr resp" "(i, r) \<in> set (symbols (te_hbr e))" "sy_usr r = u"
  defines "lim \<equiv> iq_limit (inlineQueryFromRequest limit sn)"
  shows "dn_Records resp = take lim (record_rows e sn (\<lambda>r. rr_caller_id r = i))"
    "dn_Instances resp = take lim (instance_rows e sn (\<lambda>x. iin_caller_id x = i))"
    "dn_CgraphEdges resp = take lim (cgraph_rows (te_hbr e) i)"
    "dn_Truncated resp \<longleftrightarrow> lim < length (record_rows e sn (\<lambda>r. rr_caller_id r = i)) \<or>
       lim < length (instance_rows e sn (\<lambda>x. iin_caller_id x = i)) \<or> lim < length (cgraph_rows (te_hbr e) i)"
    "inliningSummary e (\<lambda>r. rr_caller_id r = i) (\<lambda>x. iin_caller_id x = i) (\<lambda>d. id_caller_id d = i) = Inr (dn_Summary resp)"
proof -
  have ok: "te_ok e ''lookup''"
    using assms(2) by (auto simp: handleDescribeInlining_def require_def bind_result_Inr_iff symbolIDByUSR_def split: if_splits)
  have i: "symbolIDByUSR (te_ok e) (te_hbr e) u = Inr i" using ok assms(3,4) by (auto simp: symbolIDByUSR_iff [OF assms(1)])
  have sn: "iq_snippets (inlineQueryFromRequest limit sn) = sn" by (simp add: inlineQueryFromRequest_def)
  have "dn_Records resp = take lim (record_rows e sn (\<lambda>r. rr_caller_id r = i)) \<and>
    dn_Instances resp = take lim (instance_rows e sn (\<lambda>x. iin_caller_id x = i)) \<and>
    dn_CgraphEdges resp = take lim (cgraph_rows (te_hbr e) i) \<and>
    (dn_Truncated resp \<longleftrightarrow> lim < length (record_rows e sn (\<lambda>r. rr_caller_id r = i)) \<or>
       lim < length (instance_rows e sn (\<lambda>x. iin_caller_id x = i)) \<or> lim < length (cgraph_rows (te_hbr e) i)) \<and>
    inliningSummary e (\<lambda>r. rr_caller_id r = i) (\<lambda>x. iin_caller_id x = i) (\<lambda>d. id_caller_id d = i) = Inr (dn_Summary resp)"
    using assms(2) unfolding handleDescribeInlining_def require_def option.case bind_result.simps i inlineRecords_def inlineInstances_def capped_eq lim_def Let_def
    by (clarsimp simp: bind_result_Inr_iff run_query_def sn split: if_splits)
  then show "dn_Records resp = take lim (record_rows e sn (\<lambda>r. rr_caller_id r = i))"
    "dn_Instances resp = take lim (instance_rows e sn (\<lambda>x. iin_caller_id x = i))"
    "dn_CgraphEdges resp = take lim (cgraph_rows (te_hbr e) i)"
    "dn_Truncated resp \<longleftrightarrow> lim < length (record_rows e sn (\<lambda>r. rr_caller_id r = i)) \<or>
       lim < length (instance_rows e sn (\<lambda>x. iin_caller_id x = i)) \<or> lim < length (cgraph_rows (te_hbr e) i)"
    "inliningSummary e (\<lambda>r. rr_caller_id r = i) (\<lambda>x. iin_caller_id x = i) (\<lambda>d. id_caller_id d = i) = Inr (dn_Summary resp)" by blast+
qed

lemma cgraph_rows_length:
  assumes "hbr_ok h"
  shows "length (cgraph_rows h i) = length (filter (\<lambda>d. id_caller_id d = i) (inline_decisions h))"
  unfolding cgraph_rows_def length_sort
proof (rule joined_length)
  fix d assume "d \<in> set (filter (\<lambda>d. id_caller_id d = i) (inline_decisions h))"
  then have "id_callee_id d \<in> set (ids (symbols h))" using assms by (auto simp: hbr_ok_def)
  then obtain c where "ref_by_id h (id_callee_id d) = Some c" using ref_by_id_row by blast
  then show "\<exists>x. (case ref_by_id h (id_callee_id d) of None \<Rightarrow> [] | Some c \<Rightarrow> [\<lparr>cq_Callee = c, cq_Inlined = (id_inlined d = 1)\<rparr>]) = [x]" by simp
qed

text \<open>
  C31 The summary of \<^verbatim>\<open>describe_inlining\<close> is exact whatever the limit: it counts all records of the caller, split by verdict and by
  pass, all inlined bodies, split by depth, and all call-graph edges; each of the three lists holds as many rows as
  its total and the limit allow; and the flag is set exactly if a total exceeds the limit.
\<close>

theorem describe_inlining_totals:
  assumes "dwarf_ok (ix_dwarf (te_index e))" "handleDescribeInlining e (Some u) limit sn = Inr resp"
    and "(i, r) \<in> set (symbols (te_hbr e))" "sy_usr r = u"
  shows "(let s = dn_Summary resp; lim = iq_limit (inlineQueryFromRequest limit sn) in
    summary_of (filter (\<lambda>r. rr_caller_id r = i) (inline_records (te_hbr e)))
      (filter (\<lambda>x. iin_caller_id x = i) (dd_instances (ix_dwarf (te_index e))))
      (filter (\<lambda>d. id_caller_id d = i) (inline_decisions (te_hbr e))) s \<and>
    su_Records s = su_RecordsInlined s + su_RecordsDeclined s \<and>
    length (dn_Records resp) = min lim (su_Records s) \<and> length (dn_Instances resp) = min lim (su_Instances s) \<and>
    length (dn_CgraphEdges resp) = min lim (su_CgraphEdges s) \<and>
    (dn_Truncated resp \<longleftrightarrow> lim < su_Records s \<or> lim < su_Instances s \<or> lim < su_CgraphEdges s))"
proof -
  have ok: "hbr_ok (te_hbr e)" using assms(1) by (simp add: dwarf_ok_def)
  note d = handleDescribeInlining_Inr [OF ok assms(2-4)]
  have s: "summary_of (filter (\<lambda>r. rr_caller_id r = i) (inline_records (te_hbr e)))
      (filter (\<lambda>x. iin_caller_id x = i) (dd_instances (ix_dwarf (te_index e))))
      (filter (\<lambda>d. id_caller_id d = i) (inline_decisions (te_hbr e))) (dn_Summary resp)" by (rule inliningSummary_exact [OF d(5)])
  then show ?thesis
    unfolding Let_def d(1-4) length_take record_rows_length [OF ok] instance_rows_length [OF assms(1)] cgraph_rows_length [OF ok]
    using sum_length_filter_compl [of "\<lambda>r. rr_inlined r = 1" "filter (\<lambda>r. rr_caller_id r = i) (inline_records (te_hbr e))"]
    by (simp add: summary_of_def min.commute)
qed

section \<open>Sample\<close>

text \<open>A call that one object holds inlined and another declined.\<close>

definition inlining_hbr :: hbr where
  "inlining_hbr = sample_hbr\<lparr>inline_records :=
     [\<lparr>rr_caller_id = 1, rr_callee_id = 2, rr_pass = ''einline'', rr_inlined = 0, rr_reason = ''too big'', rr_file = ''a.c'', rr_line = 9,
       rr_column = 3, rr_object = ''a.o''\<rparr>,
      \<lparr>rr_caller_id = 1, rr_callee_id = 2, rr_pass = ''inline'', rr_inlined = 1, rr_reason = [], rr_file = ''a.c'', rr_line = 9,
       rr_column = 3, rr_object = ''b.o''\<rparr>]\<rparr>"

definition inlining_env :: tool_env where
  "inlining_env = sample_env\<lparr>te_index := (te_index sample_env)\<lparr>ix_dwarf := (ix_dwarf (te_index sample_env))\<lparr>dd_hbr := inlining_hbr,
     dd_instances := [\<lparr>iin_callee_id = 2, iin_caller_id = 1, iin_parent_callee_id = None, iin_depth = 1, iin_file = ''a.c'', iin_line = 9,
       iin_column = 3, iin_object = ''b.o''\<rparr>]\<rparr>\<rparr>\<rparr>"

lemma inlining_env_hbr [simp]: "te_hbr inlining_env = inlining_hbr"
  by (simp add: inlining_env_def)

lemma inlining_ok: "dwarf_ok (ix_dwarf (te_index inlining_env))"
  by (simp add: dwarf_ok_def inlining_env_def sample_env_def fresh_index_def hbr_ok_def inlining_hbr_def sample_hbr_def fresh_hbr_def ids_def)

lemma inlining_symbols:
  "(1, snd (symbols sample_hbr ! 0)) \<in> set (symbols inlining_hbr)" "sy_usr (snd (symbols sample_hbr ! 0)) = ''c:@F@main''"
  "(2, snd (symbols sample_hbr ! 1)) \<in> set (symbols inlining_hbr)" "sy_usr (snd (symbols sample_hbr ! 1)) = ''c:a.c@F@run''"
  by (simp_all add: inlining_hbr_def sample_hbr_def)

text \<open>An engine that answers gives a verdict on every two symbols of the index.\<close>

lemma explain_call_answers:
  assumes "hbr_ok (te_hbr e)" "\<And>n. te_ok e n" "(i, ra) \<in> set (symbols (te_hbr e))" "(j, rb) \<in> set (symbols (te_hbr e))"
  shows "\<exists>resp. handleExplainCall e (Some (sy_usr ra)) (Some (sy_usr rb)) target limit sn = Inr resp"
proof -
  have ids: "symbolIDByUSR (te_ok e) (te_hbr e) (sy_usr ra) = Inr i" "symbolIDByUSR (te_ok e) (te_hbr e) (sy_usr rb) = Inr j"
    using assms by (auto simp: symbolIDByUSR_iff)
  obtain c d where "ref_by_id (te_hbr e) i = Some c" "ref_by_id (te_hbr e) j = Some d"
    using ref_by_id_row [of i "te_hbr e"] ref_by_id_row [of j "te_hbr e"] assms(3,4) by (force simp: ids_def)
  then show ?thesis
    by (simp add: handleExplainCall_def require_def ids run_query_def assms(2) inlineRecords_def inlineInstances_def capped_eq Let_def case_prod_beta)
qed

lemma describe_inlining_answers:
  assumes "hbr_ok (te_hbr e)" "\<And>n. te_ok e n" "(i, r) \<in> set (symbols (te_hbr e))"
  shows "\<exists>resp. handleDescribeInlining e (Some (sy_usr r)) limit sn = Inr resp"
proof -
  have "symbolIDByUSR (te_ok e) (te_hbr e) (sy_usr r) = Inr i" using assms by (auto simp: symbolIDByUSR_iff)
  then show ?thesis
    by (simp add: handleDescribeInlining_def require_def run_query_def assms(2) inlineRecords_def inlineInstances_def inliningSummary_def capped_eq Let_def)
qed

theorem explain_call_verdict_witness:
  "\<exists>resp. handleExplainCall inlining_env (Some ''c:@F@main'') (Some ''c:a.c@F@run'') [] None False = Inr resp \<and>
     set (map ov_Object (xc_PerObject resp)) = {''a.o'', ''b.o''}"
proof -
  have ok: "hbr_ok (te_hbr inlining_env)" using inlining_ok by (simp add: dwarf_ok_def)
  have all: "te_ok inlining_env n" for n by (simp add: inlining_env_def sample_env_def)
  obtain resp where r: "handleExplainCall inlining_env (Some ''c:@F@main'') (Some ''c:a.c@F@run'') [] None False = Inr resp"
    using explain_call_answers [OF ok all, of 1 _ 2 _ "[]" None False, unfolded inlining_env_hbr, OF inlining_symbols(1,3)] inlining_symbols(2,4) by auto
  note v = explain_call_verdict [OF inlining_ok r, unfolded inlining_env_hbr, OF inlining_symbols refl _ refl, unfolded Let_def]
  have "set (map ov_Object (xc_PerObject resp)) = {''a.o'', ''b.o''}"
    using conjunct1 [OF conjunct2 [OF conjunct2 [OF v]]]
    by (simp add: inlining_env_def inlining_hbr_def sample_env_def verdictScanLimit_def insert_commute)
  then show ?thesis using r by blast
qed

theorem describe_inlining_totals_witness:
  "\<exists>resp. handleDescribeInlining inlining_env (Some ''c:@F@main'') (Some 1) False = Inr resp \<and>
     su_Records (dn_Summary resp) = 2 \<and> length (dn_Records resp) = 1 \<and> dn_Truncated resp"
proof -
  have ok: "hbr_ok (te_hbr inlining_env)" using inlining_ok by (simp add: dwarf_ok_def)
  have all: "te_ok inlining_env n" for n by (simp add: inlining_env_def sample_env_def)
  obtain resp where r: "handleDescribeInlining inlining_env (Some ''c:@F@main'') (Some 1) False = Inr resp"
    using describe_inlining_answers [OF ok all, of 1 _ "Some 1" False, unfolded inlining_env_hbr, OF inlining_symbols(1)] inlining_symbols(2) by auto
  have l: "iq_limit (inlineQueryFromRequest (Some 1) False) = 1" by (simp add: inlineQueryFromRequest_def clampRange_def inlineRowMaxLimit_def)
  note v = describe_inlining_totals [OF inlining_ok r, unfolded inlining_env_hbr, OF inlining_symbols(1,2), unfolded Let_def l]
  have n: "su_Records (dn_Summary resp) = 2" using conjunct1 [OF v] by (simp add: summary_of_def inlining_hbr_def)
  then show ?thesis using r conjunct2 [OF v] by simp
qed

end
