(* ===== verification/Mcp_Types.thy ===== *)
theory Mcp_Types
  imports Mcp_Symbols
begin

text \<open>
  The type tools (\<^verbatim>\<open>src/internal/mcp/type_tools.go\<close>): \<^verbatim>\<open>find_type\<close> over types and enum constants, with the pattern it builds for
  the operator \<^verbatim>\<open>LIKE\<close>, and \<^verbatim>\<open>describe_type\<close>. Which rows of the full-text index a query matches is an argument. The note of an
  empty result is left out.
\<close>

section \<open>Patterns\<close>

definition fold_case :: "char \<Rightarrow> char" where
  "fold_case c = (if CHR ''A'' \<le> c \<and> c \<le> CHR ''Z'' then char_of ((of_char c :: nat) + 32) else c)"

text \<open>
  SQL's \<^verbatim>\<open>LIKE\<close> with the backslash as escape: a percent sign stands for any text, an underscore for any character, an
  escaped character for itself, and letters of ASCII match without regard to case.
\<close>

fun like :: "string \<Rightarrow> string \<Rightarrow> bool" where
  "like [] s = (s = [])"
| "like (p # ps) s =
     (if p = CHR ''%'' then list_ex (\<lambda>k. like ps (drop k s)) [0..<length s + 1]
      else if p = CHR ''_'' then s \<noteq> [] \<and> like ps (tl s)
      else if p = CHR 0x5C then (case ps of [] \<Rightarrow> False | c # ps' \<Rightarrow> s \<noteq> [] \<and> fold_case (hd s) = fold_case c \<and> like ps' (tl s))
      else s \<noteq> [] \<and> fold_case (hd s) = fold_case p \<and> like ps (tl s))"

definition escapeLike :: "string \<Rightarrow> string" where
  "escapeLike q = concat (map (\<lambda>c. if c \<in> {CHR 0x5C, CHR ''%'', CHR ''_''} then [CHR 0x5C, c] else [c]) q)"

section \<open>Searching\<close>

definition findTypeLimit :: int where
  "findTypeLimit = 100"

record TypeHit =
  th_USR :: string
  th_Name :: string
  th_Kind :: string
  th_Location :: Location
  th_Underlying :: string
  th_ByteSize :: int
  th_Value :: "int option"
  th_EnumName :: string

record FindTypeResponse =
  ft_Query :: string
  ft_Exact :: bool
  ft_Hits :: "TypeHit list"
  ft_Total :: nat
  ft_Truncated :: bool

definition type_hit :: "type_row \<Rightarrow> TypeHit" where
  "type_hit r = \<lparr>th_USR = ty_usr r, th_Name = ty_name r, th_Kind = ty_kind r, th_Location = location (ty_decl_file r) (ty_decl_line r) 0,
     th_Underlying = ty_underlying r, th_ByteSize = (case ty_byte_size r of None \<Rightarrow> 0 | Some n \<Rightarrow> n), th_Value = None, th_EnumName = []\<rparr>"

definition type_rows :: "(string \<Rightarrow> string \<times> string \<Rightarrow> bool) \<Rightarrow> dwarf_db \<Rightarrow> string \<Rightarrow> bool \<Rightarrow> string \<Rightarrow> TypeHit list" where
  "type_rows matches d q exact kind =
     sort_key th_Name (sort_key th_USR (map (type_hit \<circ> snd) (filter (\<lambda>(i, r). kind = [] \<or> ty_kind r = kind)
       (if exact then filter (\<lambda>(i, r). ty_name r = q) (dd_types d)
        else concat (map (\<lambda>(rowid, doc). filter (\<lambda>(i, r). i = rowid) (dd_types d))
               (filter (\<lambda>(rowid, doc). matches (buildFTSQuery q) doc) (dd_types_fts d)))))))"

definition queryTypes :: "(string \<Rightarrow> string \<times> string \<Rightarrow> bool) \<Rightarrow> tool_env \<Rightarrow> string \<Rightarrow> bool \<Rightarrow> string \<Rightarrow> nat \<Rightarrow> TypeHit list tool_result" where
  "queryTypes matches e q exact kind limit =
     (if \<not> exact \<and> buildFTSQuery q = [] then Inr []
      else bind_result (run_query (te_ok e) ''find_type query'' (type_rows matches (ix_dwarf (te_index e)) q exact kind)) (\<lambda>rows. Inr (take limit rows)))"

definition constant_hit :: "dwarf_db \<Rightarrow> constant_row \<Rightarrow> TypeHit" where
  "constant_hit d c =
     (let (name, file, line) = (case find (\<lambda>(i, r). i = ek_type_id c) (dd_types d) of
            None \<Rightarrow> ([], [], 0) | Some (_, r) \<Rightarrow> (ty_name r, ty_decl_file r, ty_decl_line r))
      in \<lparr>th_USR = ek_usr c, th_Name = ek_name c, th_Kind = ''enum_constant'', th_Location = location file line 0, th_Underlying = [],
          th_ByteSize = 0, th_Value = Some (ek_value c), th_EnumName = name\<rparr>)"

definition constant_rows :: "dwarf_db \<Rightarrow> string \<Rightarrow> bool \<Rightarrow> TypeHit list" where
  "constant_rows d q exact =
     sort_key th_Name (map (constant_hit d) (filter (\<lambda>c. if exact then ek_name c = q else like (''%'' @ escapeLike q @ ''%'') (ek_name c))
       (dd_constants d)))"

definition queryEnumConstants :: "tool_env \<Rightarrow> string \<Rightarrow> bool \<Rightarrow> nat \<Rightarrow> TypeHit list tool_result" where
  "queryEnumConstants e q exact limit =
     bind_result (run_query (te_ok e) ''find_type enum query'' (constant_rows (ix_dwarf (te_index e)) q exact)) (\<lambda>rows. Inr (take limit rows))"

definition handleFindType :: "(string \<Rightarrow> string \<times> string \<Rightarrow> bool) \<Rightarrow> tool_env \<Rightarrow> string option \<Rightarrow> bool \<Rightarrow> string \<Rightarrow> int option
    \<Rightarrow> FindTypeResponse tool_result" where
  "handleFindType matches e query exact kind limit =
     bind_result (require ''query'' query) (\<lambda>q.
       let lim = rowLimit limit findTypeLimit in
     bind_result (if kind = [] \<or> kind \<noteq> ''enum_constant'' then queryTypes matches e q exact kind (lim + 1) else Inr []) (\<lambda>ts.
     bind_result (if kind = [] \<or> kind = ''enum_constant'' then queryEnumConstants e q exact (lim + 1) else Inr []) (\<lambda>cs.
       let hits = ts @ cs; truncated = (length hits > lim); hits = (if truncated then take lim hits else hits);
           hits = map (\<lambda>x. x\<lparr>th_Location := enrich e False (th_Location x)\<rparr>) hits in
       Inr \<lparr>ft_Query = q, ft_Exact = exact, ft_Hits = hits, ft_Total = length hits, ft_Truncated = truncated\<rparr>)))"

section \<open>Describing\<close>

record TypeFieldEntry =
  fe_Name :: string
  fe_Type :: string
  fe_ByteOffset :: int

record EnumConstantEntry =
  ce_USR :: string
  ce_Name :: string
  ce_Value :: int

record DescribeTypeResponse =
  dt_USR :: string
  dt_Name :: string
  dt_Kind :: string
  dt_Location :: Location
  dt_ByteSize :: int
  dt_Underlying :: string
  dt_Fields :: "TypeFieldEntry list"
  dt_Constants :: "EnumConstantEntry list"

definition type_fields_of :: "dwarf_db \<Rightarrow> int \<Rightarrow> TypeFieldEntry list" where
  "type_fields_of d i =
     map (\<lambda>f. \<lparr>fe_Name = tf_name f, fe_Type = tf_type f, fe_ByteOffset = tf_byte_offset f\<rparr>)
       (sort_key tf_ordinal (filter (\<lambda>f. tf_type_id f = i) (dd_fields d)))"

definition type_constants_of :: "dwarf_db \<Rightarrow> int \<Rightarrow> EnumConstantEntry list" where
  "type_constants_of d i =
     map (\<lambda>c. \<lparr>ce_USR = ek_usr c, ce_Name = ek_name c, ce_Value = ek_value c\<rparr>)
       (sort_key ek_value (sort_key ek_name (filter (\<lambda>c. ek_type_id c = i) (dd_constants d))))"

definition handleDescribeType :: "tool_env \<Rightarrow> string option \<Rightarrow> DescribeTypeResponse tool_result" where
  "handleDescribeType e usr =
     bind_result (require ''usr'' usr) (\<lambda>u.
       if \<not> te_ok e ''describe_type'' then Inl (E_query ''describe_type'')
       else
         (case find (\<lambda>(i, r). ty_usr r = u) (dd_types (ix_dwarf (te_index e))) of
            None \<Rightarrow> Inl (E_message ''no type with this USR'')
          | Some (i, r) \<Rightarrow>
              bind_result (run_query (te_ok e) ''describe_type fields'' (type_fields_of (ix_dwarf (te_index e)) i)) (\<lambda>fields.
              bind_result (run_query (te_ok e) ''describe_type constants'' (type_constants_of (ix_dwarf (te_index e)) i)) (\<lambda>constants.
                Inr \<lparr>dt_USR = u, dt_Name = ty_name r, dt_Kind = ty_kind r,
                     dt_Location = enrich e False (location (ty_decl_file r) (ty_decl_line r) 0),
                     dt_ByteSize = (case ty_byte_size r of None \<Rightarrow> 0 | Some n \<Rightarrow> n), dt_Underlying = ty_underlying r,
                     dt_Fields = fields, dt_Constants = constants\<rparr>))))"

section \<open>An escaped pattern matches itself\<close>

lemma like_escaped_char:
  "like (escapeLike [c] @ ps) s \<longleftrightarrow> s \<noteq> [] \<and> fold_case (hd s) = fold_case c \<and> like ps (tl s)"
  by (auto simp: escapeLike_def)

lemma escapeLike_Cons: "escapeLike (c # q) = escapeLike [c] @ escapeLike q"
  by (simp add: escapeLike_def)

lemma like_escaped:
  "like (escapeLike q @ ps) s \<longleftrightarrow> (\<exists>v w. s = v @ w \<and> map fold_case v = map fold_case q \<and> like ps w)"
proof (induction q arbitrary: s)
  case Nil
  show ?case by (simp add: escapeLike_def)
next
  case (Cons c q)
  have "like (escapeLike (c # q) @ ps) s \<longleftrightarrow> s \<noteq> [] \<and> fold_case (hd s) = fold_case c \<and> like (escapeLike q @ ps) (tl s)"
    unfolding escapeLike_Cons [of c q] append_assoc by (rule like_escaped_char)
  also have "\<dots> \<longleftrightarrow> (\<exists>v w. s = v @ w \<and> map fold_case v = map fold_case (c # q) \<and> like ps w)"
    unfolding Cons.IH by (cases s) (auto simp: Cons_eq_append_conv map_eq_Cons_conv)
  finally show ?case .
qed

lemma like_anything: "like (CHR ''%'' # ps) s \<longleftrightarrow> (\<exists>u w. s = u @ w \<and> like ps w)"
proof -
  have "like (CHR ''%'' # ps) s \<longleftrightarrow> (\<exists>k \<le> length s. like ps (drop k s))"
    by (auto simp: list_ex_iff le_less)
  also have "\<dots> \<longleftrightarrow> (\<exists>u w. s = u @ w \<and> like ps w)"
    by (metis append_eq_conv_conj append_take_drop_id le_add1 length_append)
  finally show ?thesis .
qed

definition contains_folded :: "string \<Rightarrow> string \<Rightarrow> bool" where
  "contains_folded q s \<longleftrightarrow> (\<exists>u v w. s = u @ v @ w \<and> map fold_case v = map fold_case q)"

lemma like_contains: "like (''%'' @ escapeLike q @ ''%'') s \<longleftrightarrow> contains_folded q s"
proof -
  have "like ''%'' w" for w unfolding like_anything by simp
  then show ?thesis
    unfolding contains_folded_def append_Cons append_Nil like_anything [of "escapeLike q @ ''%''"] like_escaped by auto
qed

section \<open>What a search finds\<close>

definition wanted_type :: "(string \<Rightarrow> string \<times> string \<Rightarrow> bool) \<Rightarrow> dwarf_db \<Rightarrow> string \<Rightarrow> bool \<Rightarrow> string \<Rightarrow> int \<Rightarrow> type_row \<Rightarrow> bool" where
  "wanted_type matches d q exact kind i r \<longleftrightarrow> kind \<noteq> ''enum_constant'' \<and> (kind = [] \<or> ty_kind r = kind) \<and>
     (if exact then ty_name r = q else buildFTSQuery q \<noteq> [] \<and> (\<exists>doc. (i, doc) \<in> set (dd_types_fts d) \<and> matches (buildFTSQuery q) doc))"

definition wanted_constant :: "string \<Rightarrow> bool \<Rightarrow> string \<Rightarrow> constant_row \<Rightarrow> bool" where
  "wanted_constant q exact kind c \<longleftrightarrow> (kind = [] \<or> kind = ''enum_constant'') \<and> (if exact then ek_name c = q else contains_folded q (ek_name c))"

lemma type_rows_usrs:
  "th_USR ` set (type_rows matches d q exact kind) = {ty_usr r |i r. (i, r) \<in> set (dd_types d) \<and> (kind = [] \<or> ty_kind r = kind) \<and>
     (if exact then ty_name r = q else \<exists>doc. (i, doc) \<in> set (dd_types_fts d) \<and> matches (buildFTSQuery q) doc)}"
proof -
  define C where "C = (if exact then filter (\<lambda>(i, r). ty_name r = q) (dd_types d)
        else concat (map (\<lambda>(rowid, doc). filter (\<lambda>(i, r). i = rowid) (dd_types d))
               (filter (\<lambda>(rowid, doc). matches (buildFTSQuery q) doc) (dd_types_fts d))))"
  have c: "(i, r) \<in> set C \<longleftrightarrow> (i, r) \<in> set (dd_types d) \<and>
      (if exact then ty_name r = q else \<exists>doc. (i, doc) \<in> set (dd_types_fts d) \<and> matches (buildFTSQuery q) doc)" for i r
    by (auto simp: C_def)
  have u: "th_USR (type_hit r) = ty_usr r" for r by (simp add: type_hit_def)
  have "th_USR ` set (type_rows matches d q exact kind) = (\<lambda>p. ty_usr (snd p)) ` {p \<in> set C. kind = [] \<or> ty_kind (snd p) = kind}"
    unfolding type_rows_def C_def [symmetric] set_sort set_map set_filter image_image comp_def u case_prod_beta ..
  also have "\<dots> = {ty_usr r |i r. (i, r) \<in> set C \<and> (kind = [] \<or> ty_kind r = kind)}" by force
  finally show ?thesis unfolding c by auto
qed

lemma constant_rows_usrs:
  "th_USR ` set (constant_rows d q exact) = {ek_usr c |c. c \<in> set (dd_constants d) \<and> (if exact then ek_name c = q else contains_folded q (ek_name c))}"
proof -
  have u: "th_USR (constant_hit d c) = ek_usr c" for c by (simp add: constant_hit_def case_prod_beta Let_def)
  show ?thesis unfolding constant_rows_def like_contains set_sort set_map set_filter image_image u by blast
qed

lemma type_rows_values: "x \<in> set (type_rows matches d q exact kind) \<Longrightarrow> th_Value x = None"
  by (auto simp: type_rows_def type_hit_def)

lemma constant_rows_keys:
  "(\<lambda>x. (th_USR x, th_Value x)) ` set (constant_rows d q exact) =
     {(ek_usr c, Some (ek_value c)) |c. c \<in> set (dd_constants d) \<and> (if exact then ek_name c = q else contains_folded q (ek_name c))}"
proof -
  have u: "th_USR (constant_hit d c) = ek_usr c" "th_Value (constant_hit d c) = Some (ek_value c)" for c
    by (simp_all add: constant_hit_def case_prod_beta Let_def)
  show ?thesis unfolding constant_rows_def like_contains set_sort set_map set_filter image_image u by blast
qed

lemma queryTypes_Inr:
  "queryTypes matches e q exact kind n = Inr ts \<Longrightarrow>
     ts = take n (if exact \<or> buildFTSQuery q \<noteq> [] then type_rows matches (ix_dwarf (te_index e)) q exact kind else [])"
  by (auto simp: queryTypes_def run_query_def split: if_splits)

lemma queryEnumConstants_Inr:
  "queryEnumConstants e q exact n = Inr cs \<Longrightarrow> cs = take n (constant_rows (ix_dwarf (te_index e)) q exact)"
  by (auto simp: queryEnumConstants_def run_query_def split: if_splits)

text \<open>The response before the cap: all hits of the two queries, of which the first one more than the limit are read.\<close>

definition hit_key :: "TypeHit \<Rightarrow> string \<times> int option" where
  "hit_key x = (th_USR x, th_Value x)"

lemma handleFindType_Inr:
  assumes "handleFindType matches e (Some q) exact kind limit = Inr resp"
  defines "lim \<equiv> rowLimit limit findTypeLimit"
  defines "ts \<equiv> (if kind \<noteq> ''enum_constant'' \<and> (exact \<or> buildFTSQuery q \<noteq> []) then type_rows matches (ix_dwarf (te_index e)) q exact kind else [])"
  defines "cs \<equiv> (if kind = [] \<or> kind = ''enum_constant'' then constant_rows (ix_dwarf (te_index e)) q exact else [])"
  shows "map hit_key (ft_Hits resp) = take lim (map hit_key (ts @ cs))" "ft_Truncated resp \<longleftrightarrow> lim < length (ts @ cs)"
proof -
  let ?all = "take (lim + 1) ts @ take (lim + 1) cs"
  have "map hit_key (ft_Hits resp) = map hit_key (if length ?all > lim then take lim ?all else ?all) \<and> (ft_Truncated resp \<longleftrightarrow> length ?all > lim)"
  proof -
    define en where "en = ''enum_constant''"
    obtain ts' cs' where q: "(if kind = [] \<or> kind \<noteq> en then queryTypes matches e q exact kind (lim + 1) else Inr []) = Inr ts'"
      "(if kind = [] \<or> kind = en then queryEnumConstants e q exact (lim + 1) else Inr []) = Inr cs'"
      "map hit_key (ft_Hits resp) = map hit_key (if length (ts' @ cs') > lim then take lim (ts' @ cs') else ts' @ cs')"
      "ft_Truncated resp \<longleftrightarrow> length (ts' @ cs') > lim"
      using assms(1) unfolding handleFindType_def require_def option.case bind_result.simps lim_def [symmetric] en_def [symmetric] Let_def bind_result_Inr_iff
      by (elim exE conjE) (rule that, assumption, assumption, auto simp: comp_def hit_key_def)
    have "ts' = take (lim + 1) ts" unfolding ts_def en_def [symmetric]
      using q(1) queryTypes_Inr [of matches e q exact kind "lim + 1" ts'] by (cases "kind = en") (auto simp: en_def split: if_splits)
    moreover have "cs' = take (lim + 1) cs" unfolding cs_def en_def [symmetric]
      using q(2) queryEnumConstants_Inr [of e q exact "lim + 1" cs'] by (auto split: if_splits)
    ultimately show ?thesis using q(3,4) by simp
  qed
  moreover have "length ?all > lim \<longleftrightarrow> lim < length (ts @ cs)" by (auto simp: min_def)
  moreover have "take lim ?all = take lim (ts @ cs)" by (simp add: take_append min_def)
  moreover have "?all = ts @ cs" if "\<not> length ?all > lim" using that by (auto simp: min_def split: if_splits)
  ultimately show "map hit_key (ft_Hits resp) = take lim (map hit_key (ts @ cs))" "ft_Truncated resp \<longleftrightarrow> lim < length (ts @ cs)"
    by (auto simp: take_map)
qed

text \<open>The hits of a complete response: those without a value are the types, those with one the constants.\<close>

lemma find_type_hits:
  assumes "handleFindType matches e (Some q) exact kind limit = Inr resp" "\<not> ft_Truncated resp"
  shows "{th_USR x |x. x \<in> set (ft_Hits resp) \<and> th_Value x = None} =
      {ty_usr r |i r. (i, r) \<in> set (dd_types (ix_dwarf (te_index e))) \<and> wanted_type matches (ix_dwarf (te_index e)) q exact kind i r}"
    and "{(th_USR x, v) |x v. x \<in> set (ft_Hits resp) \<and> th_Value x = Some v} =
      {(ek_usr c, ek_value c) |c. c \<in> set (dd_constants (ix_dwarf (te_index e))) \<and> wanted_constant q exact kind c}"
proof -
  note r = handleFindType_Inr [OF assms(1)]
  define d where "d = ix_dwarf (te_index e)"
  define en where "en = ''enum_constant''"
  define ts where "ts = (if kind \<noteq> en \<and> (exact \<or> buildFTSQuery q \<noteq> []) then type_rows matches d q exact kind else [])"
  define cs where "cs = (if kind = [] \<or> kind = en then constant_rows d q exact else [])"
  have keys: "hit_key ` set (ft_Hits resp) = hit_key ` set ts \<union> hit_key ` set cs"
  proof -
    have "map hit_key (ft_Hits resp) = map hit_key (ts @ cs)"
      using assms(2) unfolding r ts_def cs_def en_def d_def by simp
    then have "set (map hit_key (ft_Hits resp)) = set (map hit_key (ts @ cs))" by (rule arg_cong)
    then show ?thesis by auto
  qed
  have cv: "hit_key ` set cs = {(ek_usr c, Some (ek_value c)) |c. c \<in> set (dd_constants d) \<and> wanted_constant q exact kind c}"
    using constant_rows_keys [of d q exact] unfolding cs_def wanted_constant_def hit_key_def en_def [symmetric] by (cases "kind = [] \<or> kind = en") auto
  have tv: "hit_key ` set ts = (\<lambda>u. (u, None)) ` {ty_usr r |i r. (i, r) \<in> set (dd_types d) \<and> wanted_type matches d q exact kind i r}"
  proof -
    have "hit_key ` set ts = (\<lambda>x. (th_USR x, None)) ` set ts"
      using type_rows_values [of _ matches d q exact kind] by (auto simp: hit_key_def ts_def intro!: image_cong split: if_splits)
    also have "\<dots> = (\<lambda>u. (u, None)) ` th_USR ` set ts" by (simp add: image_image)
    also have "th_USR ` set ts = {ty_usr r |i r. (i, r) \<in> set (dd_types d) \<and> wanted_type matches d q exact kind i r}"
      unfolding ts_def wanted_type_def if_distrib [of set] if_distrib [of "image th_USR"] type_rows_usrs en_def [symmetric]
      by (cases "kind = en"; cases exact; simp)
    finally show ?thesis .
  qed
  have key: "(u, v) \<in> hit_key ` set (ft_Hits resp) \<longleftrightarrow> (\<exists>x. x \<in> set (ft_Hits resp) \<and> th_USR x = u \<and> th_Value x = v)" for u v
    by (force simp: hit_key_def)
  have "u \<in> {th_USR x |x. x \<in> set (ft_Hits resp) \<and> th_Value x = None} \<longleftrightarrow> (u, None) \<in> hit_key ` set (ft_Hits resp)" for u
    unfolding key by blast
  then show "{th_USR x |x. x \<in> set (ft_Hits resp) \<and> th_Value x = None} =
      {ty_usr r |i r. (i, r) \<in> set (dd_types (ix_dwarf (te_index e))) \<and> wanted_type matches (ix_dwarf (te_index e)) q exact kind i r}"
    unfolding keys tv cv d_def [symmetric] by blast
  have "(u, v) \<in> {(th_USR x, v) |x v. x \<in> set (ft_Hits resp) \<and> th_Value x = Some v} \<longleftrightarrow> (u, Some v) \<in> hit_key ` set (ft_Hits resp)" for u v
    unfolding key by blast
  then show "{(th_USR x, v) |x v. x \<in> set (ft_Hits resp) \<and> th_Value x = Some v} =
      {(ek_usr c, ek_value c) |c. c \<in> set (dd_constants (ix_dwarf (te_index e))) \<and> wanted_constant q exact kind c}"
    unfolding keys tv cv d_def [symmetric] by (intro set_eqI) (auto simp: image_iff)
qed

text \<open>
  C32 What \<^verbatim>\<open>find_type\<close> reports. In a complete response the hits without a value are exactly the types asked for, by the filter of
  kinds and by their name in exact mode or through the full-text index otherwise. In exact mode the hits with a value are
  exactly the enum constants of that name, unless the filter asks for types only, each with the value of its row.
\<close>

theorem find_type_spec:
  assumes "handleFindType matches e (Some q) exact kind limit = Inr resp" "\<not> ft_Truncated resp"
  shows "{th_USR x |x. x \<in> set (ft_Hits resp) \<and> th_Value x = None} =
      {ty_usr r |i r. (i, r) \<in> set (dd_types (ix_dwarf (te_index e))) \<and> wanted_type matches (ix_dwarf (te_index e)) q exact kind i r} \<and>
    (exact \<longrightarrow> {(th_USR x, v) |x v. x \<in> set (ft_Hits resp) \<and> th_Value x = Some v} =
      {(ek_usr c, ek_value c) |c. c \<in> set (dd_constants (ix_dwarf (te_index e))) \<and> (kind = [] \<or> kind = ''enum_constant'') \<and> ek_name c = q})"
  using find_type_hits [OF assms] by (simp add: wanted_constant_def)

definition max_len :: constant_row where
  "max_len = \<lparr>ek_usr = ''c:a.h@EC@MAX_LEN'', ek_type_id = 1, ek_name = ''MAX_LEN'', ek_value = 7\<rparr>"

definition maxxlen :: constant_row where
  "maxxlen = \<lparr>ek_usr = ''c:a.h@EC@MAXXLEN'', ek_type_id = 1, ek_name = ''MAXXLEN'', ek_value = 8\<rparr>"

definition enum_env :: tool_env where
  "enum_env = sample_env\<lparr>te_index := (te_index sample_env)\<lparr>ix_dwarf := (ix_dwarf (te_index sample_env))\<lparr>dd_constants := [max_len, maxxlen]\<rparr>\<rparr>\<rparr>"

lemma enum_env_parts:
  "te_ok enum_env n" "dd_types (ix_dwarf (te_index enum_env)) = []" "dd_constants (ix_dwarf (te_index enum_env)) = [max_len, maxxlen]"
  by (simp_all add: enum_env_def sample_env_def fresh_index_def)

lemma enum_env_answers:
  obtains resp where "handleFindType (\<lambda>_ _. False) enum_env (Some q) exact ''enum_constant'' (Some 9) = Inr resp" "\<not> ft_Truncated resp"
proof -
  obtain resp where r: "handleFindType (\<lambda>_ _. False) enum_env (Some q) exact ''enum_constant'' (Some 9) = Inr resp"
    by (simp add: handleFindType_def require_def queryEnumConstants_def run_query_def Let_def enum_env_parts)
  have "length (constant_rows (ix_dwarf (te_index enum_env)) q ex) \<le> 2" for q ex
    unfolding constant_rows_def length_sort length_map enum_env_parts using length_filter_le [of _ "[max_len, maxxlen]"] by (simp add: numeral_2_eq_2)
  then have "\<not> ft_Truncated resp"
    unfolding handleFindType_Inr(2) [OF r] by (simp add: rowLimit_def clampRange_def rowLimitMax_def not_less order_trans [of _ 2])
  then show ?thesis using that r by blast
qed

theorem find_type_spec_witness:
  "\<exists>resp. handleFindType (\<lambda>_ _. False) enum_env (Some ''MAX_LEN'') True ''enum_constant'' (Some 9) = Inr resp \<and>
     {(th_USR x, v) |x v. x \<in> set (ft_Hits resp) \<and> th_Value x = Some v} = {(ek_usr max_len, 7)}"
proof -
  obtain resp where r: "handleFindType (\<lambda>_ _. False) enum_env (Some ''MAX_LEN'') True ''enum_constant'' (Some 9) = Inr resp" "\<not> ft_Truncated resp"
    by (rule enum_env_answers)
  have "{(ek_usr c, ek_value c) |c. c \<in> set [max_len, maxxlen] \<and> ek_name c = ''MAX_LEN''} = {(ek_usr max_len, 7)}"
  proof -
    have "c \<in> set [max_len, maxxlen] \<and> ek_name c = ''MAX_LEN'' \<longleftrightarrow> c = max_len" for c by (auto simp: max_len_def maxxlen_def)
    moreover have "ek_value max_len = 7" by (simp add: max_len_def)
    ultimately show ?thesis by simp
  qed
  then show ?thesis using find_type_spec [OF r] r(1) unfolding enum_env_parts by auto
qed

text \<open>
  Without exact mode a constant is found because its name contains the query, up to the case of letters: a fragment from the
  middle of a word finds it, and words that are not written as in the name do not, although types are matched by the words of
  the query.
\<close>

lemma fuzzy_constants:
  assumes "handleFindType matches e (Some q) False kind limit = Inr resp" "\<not> ft_Truncated resp"
  shows "{(th_USR x, v) |x v. x \<in> set (ft_Hits resp) \<and> th_Value x = Some v} =
    {(ek_usr c, ek_value c) |c. c \<in> set (dd_constants (ix_dwarf (te_index e))) \<and> (kind = [] \<or> kind = ''enum_constant'') \<and>
       contains_folded q (ek_name c)}"
  using find_type_hits(2) [OF assms] by (simp add: wanted_constant_def)

lemma constants_not_tokenized:
  "contains_folded ''tatus'' ''OP_STATUS'' \<and> \<not> contains_folded ''op status'' ''OP_STATUS'' \<and>
   buildFTSQuery ''op status'' = buildFTSQuery ''op_status''"
  unfolding like_contains [symmetric] by code_simp

end
