(* ===== verification/Mcp_Indirect.thy ===== *)
theory Mcp_Indirect
  imports Mcp_Symbols
begin

text \<open>
  The tools on indirect calls (\<^verbatim>\<open>src/internal/mcp/indirect_tools.go\<close>): the call sites, the functions whose address is taken,
  and the candidates of a site.
\<close>

definition indirectSitesLimit :: int where
  "indirectSitesLimit = 500"

section \<open>Call sites\<close>

record IndirectCallSite =
  ic_SiteID :: int
  ic_Caller :: SymbolRef
  ic_Location :: Location
  ic_CalleeType :: string
  ic_FieldHint :: string

record ListIndirectCallSitesResponse =
  li_Sites :: "IndirectCallSite list"
  li_Total :: nat
  li_Truncated :: bool

definition site_rows :: "tool_env \<Rightarrow> bool \<Rightarrow> string \<Rightarrow> string \<Rightarrow> string \<Rightarrow> IndirectCallSite list" where
  "site_rows e snippets callerUSR calleeType target =
     sort_key (lo_Path \<circ> ic_Location) (sort_key (lo_Line \<circ> ic_Location) (sort_key (lo_Column \<circ> ic_Location)
       (concat (map (\<lambda>(k, ics). case ref_by_id (te_hbr e) (ics_caller_id ics) of
           None \<Rightarrow> []
         | Some s \<Rightarrow>
             if (callerUSR = [] \<or> ref_USR s = callerUSR) \<and> (calleeType = [] \<or> ics_callee_type ics = calleeType) \<and>
                in_target (te_hbr e) target (ics_caller_id ics)
             then [\<lparr>ic_SiteID = k, ic_Caller = s, ic_Location = enrich e snippets (location (ics_file ics) (ics_line ics) (ics_column ics)),
                    ic_CalleeType = ics_callee_type ics, ic_FieldHint = ics_field_hint ics\<rparr>]
             else []) (dd_sites (ix_dwarf (te_index e)))))))"

definition handleListIndirectCallSites :: "tool_env \<Rightarrow> string \<Rightarrow> string \<Rightarrow> string \<Rightarrow> int option \<Rightarrow> bool \<Rightarrow> ListIndirectCallSitesResponse tool_result" where
  "handleListIndirectCallSites e callerUSR calleeType target limit snippets =
     bind_result (run_query (te_ok e) ''list_indirect_call_sites'' (site_rows e snippets callerUSR calleeType target)) (\<lambda>rows.
       let (out, truncated) = capped (rowLimit limit indirectSitesLimit) rows in
       Inr \<lparr>li_Sites = out, li_Total = length out, li_Truncated = truncated\<rparr>)"

section \<open>Functions whose address is taken\<close>

record AddressTakenFunction =
  at_Symbol :: SymbolRef
  at_Targets :: "string list"

record ListAddressTakenFunctionsResponse =
  la_Functions :: "AddressTakenFunction list"
  la_Total :: nat

definition address_taken :: "symbol_row \<Rightarrow> bool" where
  "address_taken r \<longleftrightarrow> sy_kind r = ''function'' \<and> sy_address_taken r = 1"

definition taken_rows :: "hbr \<Rightarrow> string \<Rightarrow> string \<Rightarrow> SymbolRef list" where
  "taken_rows h fnPtrType target =
     sort_key ref_Name (map (ref_of \<circ> snd) (filter (\<lambda>(i, r). address_taken r \<and> (fnPtrType = [] \<or> sy_signature r = fnPtrType) \<and> in_target h target i)
       (symbols h)))"

definition handleListAddressTakenFunctions :: "tool_env \<Rightarrow> string \<Rightarrow> string \<Rightarrow> ListAddressTakenFunctionsResponse tool_result" where
  "handleListAddressTakenFunctions e fnPtrType target =
     bind_result (run_query (te_ok e) ''list_address_taken_functions'' (taken_rows (te_hbr e) fnPtrType target)) (\<lambda>refs.
     bind_result (targetsByReachability (te_ok e) (te_hbr e) (usrsOf refs)) (\<lambda>byUSR.
       let out = map (\<lambda>r. \<lparr>at_Symbol = r, at_Targets = gget_or [] byUSR (ref_USR r)\<rparr>) refs in
       Inr \<lparr>la_Functions = out, la_Total = length out\<rparr>))"

section \<open>Candidates of a site\<close>

record ResolveCandidate =
  ca_Symbol :: SymbolRef
  ca_Evidence :: string
  ca_Confidence :: string

record ResolveIndirectCallResponse =
  ri_SiteID :: int
  ri_Caller :: SymbolRef
  ri_Location :: Location
  ri_CalleeType :: string
  ri_FieldHint :: string
  ri_Candidates :: "ResolveCandidate list"
  ri_Total :: nat

definition evidenceRank :: "string \<Rightarrow> nat" where
  "evidenceRank ev = (if ev = ''type_match'' then 2 else if ev = ''address_taken'' then 1 else 0)"

definition upsert :: "string \<Rightarrow> string \<Rightarrow> SymbolRef \<Rightarrow> ResolveCandidate list \<Rightarrow> ResolveCandidate list" where
  "upsert evidence confidence s cs =
     (if list_ex (\<lambda>c. ref_USR (ca_Symbol c) = ref_USR s) cs
      then map (\<lambda>c. if ref_USR (ca_Symbol c) = ref_USR s \<and> evidenceRank evidence > evidenceRank (ca_Evidence c)
              then c\<lparr>ca_Evidence := evidence, ca_Confidence := confidence\<rparr> else c) cs
      else cs @ [\<lparr>ca_Symbol = s, ca_Evidence = evidence, ca_Confidence = confidence\<rparr>])"

text \<open>The query leaves the order of its rows open: the ids are ranked by an argument.\<close>

definition candidate_refs :: "(int \<Rightarrow> int) \<Rightarrow> hbr \<Rightarrow> string \<Rightarrow> SymbolRef list" where
  "candidate_refs rank h calleeType =
     map (ref_of \<circ> snd) (sort_key (rank \<circ> fst)
       (filter (\<lambda>(i, r). address_taken r \<and> (calleeType = [] \<or> sy_signature r = calleeType)) (symbols h)))"

definition handleResolveIndirectCall :: "(int \<Rightarrow> int) \<Rightarrow> tool_env \<Rightarrow> int option \<Rightarrow> ResolveIndirectCallResponse tool_result" where
  "handleResolveIndirectCall rank e site_id =
     (case site_id of
        None \<Rightarrow> Inl (E_missing ''site_id'')
      | Some k \<Rightarrow>
          if \<not> te_ok e ''resolve_indirect_call lookup'' then Inl (E_query ''resolve_indirect_call lookup'')
          else
            (case find (\<lambda>(i, _). i = k) (dd_sites (ix_dwarf (te_index e))) of
               None \<Rightarrow> Inl (E_message ''unknown indirect call site id'')
             | Some (_, ics) \<Rightarrow>
                 (case ref_by_id (te_hbr e) (ics_caller_id ics) of
                    None \<Rightarrow> Inl (E_message ''unknown indirect call site id'')
                  | Some caller \<Rightarrow>
                      let calleeType = ics_callee_type ics;
                          evidence = (if calleeType \<noteq> [] then ''type_match'' else ''address_taken'') in
                      bind_result (run_query (te_ok e) evidence (candidate_refs rank (te_hbr e) calleeType)) (\<lambda>refs.
                        let cs = fold (upsert evidence ''candidate'') refs [] in
                        Inr \<lparr>ri_SiteID = k, ri_Caller = caller,
                             ri_Location = enrich e True (location (ics_file ics) (ics_line ics) (ics_column ics)),
                             ri_CalleeType = calleeType, ri_FieldHint = ics_field_hint ics, ri_Candidates = cs, ri_Total = length cs\<rparr>))))"

section \<open>Candidates are the functions of the type\<close>

lemma selected_rows: "(f \<circ> snd) ` {p \<in> S. case p of (i, x) \<Rightarrow> Q x} = {f x |i x. (i, x) \<in> S \<and> Q x}"
  by force

lemma upsert_new:
  "ref_USR s \<notin> (ref_USR \<circ> ca_Symbol) ` set cs \<Longrightarrow> upsert ev co s cs = cs @ [\<lparr>ca_Symbol = s, ca_Evidence = ev, ca_Confidence = co\<rparr>]"
  by (auto simp: upsert_def list_ex_iff image_iff)

lemma upsert_all:
  "distinct (map ref_USR refs) \<Longrightarrow> (ref_USR \<circ> ca_Symbol) ` set cs \<inter> ref_USR ` set refs = {} \<Longrightarrow>
     fold (upsert ev co) refs cs = cs @ map (\<lambda>s. \<lparr>ca_Symbol = s, ca_Evidence = ev, ca_Confidence = co\<rparr>) refs"
proof (induction refs arbitrary: cs)
  case (Cons s refs)
  have "upsert ev co s cs = cs @ [\<lparr>ca_Symbol = s, ca_Evidence = ev, ca_Confidence = co\<rparr>]"
    by (rule upsert_new) (use Cons.prems(2) in auto)
  moreover have "(ref_USR \<circ> ca_Symbol) ` set (cs @ [\<lparr>ca_Symbol = s, ca_Evidence = ev, ca_Confidence = co\<rparr>]) \<inter> ref_USR ` set refs = {}"
    using Cons.prems by auto
  ultimately show ?case using Cons.IH Cons.prems(1) by simp
qed simp

lemma candidate_refs_distinct: "hbr_ok h \<Longrightarrow> distinct (map ref_USR (candidate_refs rank h t))"
proof -
  assume "hbr_ok h"
  then have "distinct (map (sy_usr \<circ> snd) (symbols h))" by (simp add: hbr_ok_def)
  then have "distinct (map (sy_usr \<circ> snd) (filter (\<lambda>(i, r). address_taken r \<and> (t = [] \<or> sy_signature r = t)) (symbols h)))"
    by (rule distinct_map_filter)
  moreover have "mset (map ref_USR (candidate_refs rank h t)) =
      mset (map (sy_usr \<circ> snd) (filter (\<lambda>(i, r). address_taken r \<and> (t = [] \<or> sy_signature r = t)) (symbols h)))"
  proof -
    have "ref_USR \<circ> (ref_of \<circ> snd) = sy_usr \<circ> (snd :: int \<times> symbol_row \<Rightarrow> symbol_row)" by (auto simp: ref_of_def)
    then show ?thesis unfolding candidate_refs_def map_map mset_map mset_sort by simp
  qed
  ultimately show ?thesis using mset_eq_imp_distinct_iff by blast
qed

text \<open>
  C34 The candidates of an indirect call are what the index knows and no more: each function whose address is taken and, where the
  type of the site is known, whose signature is that type, once, with the evidence that applies; exactly the functions
  that \<^verbatim>\<open>list_address_taken_functions\<close> lists for that type. This does not depend on the order in which the query yields the rows.
\<close>

theorem resolve_agrees:
  assumes "hbr_ok (te_hbr e)" "handleResolveIndirectCall rank e (Some k) = Inr r"
    and "handleListAddressTakenFunctions e (ri_CalleeType r) [] = Inr l"
  shows "distinct (map (ref_USR \<circ> ca_Symbol) (ri_Candidates r)) \<and> ri_Total r = la_Total l \<and>
    ca_Symbol ` set (ri_Candidates r) = at_Symbol ` set (la_Functions l) \<and>
    ca_Symbol ` set (ri_Candidates r) = {ref_of x |i x. (i, x) \<in> set (symbols (te_hbr e)) \<and> address_taken x \<and>
      (ri_CalleeType r = [] \<or> sy_signature x = ri_CalleeType r)} \<and>
    (\<forall>c \<in> set (ri_Candidates r). ca_Evidence c = (if ri_CalleeType r = [] then ''address_taken'' else ''type_match''))"
proof -
  let ?t = "ri_CalleeType r" and ?refs = "candidate_refs rank (te_hbr e) (ri_CalleeType r)"
  define ev where "ev = (if ?t = [] then ''address_taken'' else ''type_match'')"
  note d = candidate_refs_distinct [OF assms(1)]
  have cs: "ri_Candidates r = map (\<lambda>s. \<lparr>ca_Symbol = s, ca_Evidence = ev, ca_Confidence = ''candidate''\<rparr>) ?refs" "ri_Total r = length ?refs"
    using assms(2) upsert_all [OF d, of "[]"] unfolding ev_def handleResolveIndirectCall_def
    by (auto simp: bind_result_Inr_iff run_query_def Let_def split: if_splits option.splits)
  have taken: "mset (taken_rows (te_hbr e) ?t []) = mset ?refs" unfolding taken_rows_def candidate_refs_def in_target_def mset_sort mset_map by simp
  have l: "map at_Symbol (la_Functions l) = taken_rows (te_hbr e) ?t []" "la_Total l = length (taken_rows (te_hbr e) ?t [])"
    using assms(3) by (auto simp: handleListAddressTakenFunctions_def bind_result_Inr_iff run_query_def Let_def comp_def split: if_splits)
  have "map ca_Symbol (ri_Candidates r) = ?refs" by (simp add: cs comp_def)
  then have 1: "ca_Symbol ` set (ri_Candidates r) = set ?refs" by (metis set_map)
  have 2: "at_Symbol ` set (la_Functions l) = set ?refs" using l(1) taken by (metis set_map set_mset_mset)
  have 3: "ri_Total r = la_Total l" using cs(2) l(2) taken by (metis size_mset)
  have 4: "set ?refs = {ref_of x |i x. (i, x) \<in> set (symbols (te_hbr e)) \<and> address_taken x \<and> (?t = [] \<or> sy_signature x = ?t)}"
    unfolding candidate_refs_def set_map set_sort set_filter selected_rows ..
  have 5: "distinct (map (ref_USR \<circ> ca_Symbol) (ri_Candidates r))" using d [where t = "?t"] by (simp add: cs(1) comp_def)
  have 6: "\<forall>c \<in> set (ri_Candidates r). ca_Evidence c = ev" by (simp add: cs(1))
  show ?thesis using 5 3 6 unfolding 1 2 4 [symmetric] ev_def by simp
qed

definition site_env :: tool_env where
  "site_env = sample_env\<lparr>te_index := (te_index sample_env)\<lparr>ix_dwarf := (ix_dwarf (te_index sample_env))\<lparr>dd_sites :=
     [(1, \<lparr>ics_caller_id = 1, ics_file = ''a.c'', ics_line = 9, ics_column = 3, ics_callee_type = [], ics_field_hint = []\<rparr>)]\<rparr>\<rparr>\<rparr>"

lemma site_env_hbr [simp]: "te_hbr site_env = sample_hbr"
  by (simp add: site_env_def)

theorem resolve_agrees_witness:
  "\<exists>r. handleResolveIndirectCall id site_env (Some 1) = Inr r \<and> ri_CalleeType r = [] \<and> ri_Total r = 1 \<and>
     distinct (map (ref_USR \<circ> ca_Symbol) (ri_Candidates r))"
proof -
  have "(case (handleResolveIndirectCall id site_env (Some 1), handleListAddressTakenFunctions site_env [] []) of
     (Inr r, Inr l) \<Rightarrow> ri_CalleeType r = [] \<and> la_Total l = 1 | _ \<Rightarrow> False)" by code_simp
  then obtain r l where r: "handleResolveIndirectCall id site_env (Some 1) = Inr r" "handleListAddressTakenFunctions site_env (ri_CalleeType r) [] = Inr l"
    "ri_CalleeType r = []" "la_Total l = 1"
    by (auto split: sum.splits)
  have "hbr_ok (te_hbr site_env)" by (simp add: sample_hbr_ok)
  from resolve_agrees [OF this r(1,2)] show ?thesis using r by auto
qed

end
