(* ===== verification/Mcp_Targets.thy ===== *)
theory Mcp_Targets
  imports Mcp_Sources
begin

text \<open>
  The target tools (\<^verbatim>\<open>src/internal/mcp/target_tools.go\<close>): \<^verbatim>\<open>list_targets\<close> and \<^verbatim>\<open>describe_target\<close> with sources, archives and the
  definitions of \<^verbatim>\<open>main\<close>.
\<close>

record TargetSummary =
  ts_Name :: string
  ts_Kind :: string
  ts_SourceCount :: nat
  ts_LinkedSymbols :: nat

record ListTargetsResponse =
  lt_Targets :: "TargetSummary list"
  lt_Total :: nat

definition target_rows :: "hbr \<Rightarrow> TargetSummary list" where
  "target_rows h =
     sort_key ts_Name (map (\<lambda>(t, r). \<lparr>ts_Name = t_name r, ts_Kind = t_kind r,
       ts_SourceCount = length (filter (\<lambda>(k, f). k = t) (target_sources h)),
       ts_LinkedSymbols = length (filter (\<lambda>lr. lr_target_id lr = t) (link_resolutions h))\<rparr>) (targets h))"

definition handleListTargets :: "tool_env \<Rightarrow> ListTargetsResponse tool_result" where
  "handleListTargets e =
     bind_result (run_query (te_ok e) ''list_targets'' (target_rows (te_hbr e))) (\<lambda>out.
       Inr \<lparr>lt_Targets = out, lt_Total = length out\<rparr>)"

record TargetSourceEntry =
  tse_Path :: string
  tse_BlobHash :: string

record TargetEntryPoint =
  te_USR :: string
  te_Name :: string
  te_Signature :: string
  te_Location :: Location
  te_Reason :: string

record DescribeTargetResponse =
  dg_Name :: string
  dg_Kind :: string
  dg_LinkCommand :: string
  dg_Sources :: "TargetSourceEntry list"
  dg_Archives :: "string list"
  dg_LinkedSymbols :: nat
  dg_Reachable :: nat
  dg_EntryPoints :: "TargetEntryPoint list"

definition targetSources :: "tool_env \<Rightarrow> int \<Rightarrow> TargetSourceEntry list tool_result" where
  "targetSources e tid =
     run_query (te_ok e) ''target_sources'' (sort_key tse_Path (map (\<lambda>(t, f). \<lparr>tse_Path = f,
         tse_BlobHash = (case gget (db_sources (te_blobs e)) f of None \<Rightarrow> [] | Some r \<Rightarrow> fst r)\<rparr>)
       (filter (\<lambda>(t, f). t = tid) (target_sources (te_hbr e)))))"

definition targetArchives :: "tool_env \<Rightarrow> int \<Rightarrow> string list tool_result" where
  "targetArchives e tid =
     run_query (te_ok e) ''archives'' (sort (remdups (map lr_archive (filter (\<lambda>lr. lr_target_id lr = tid \<and> lr_archive lr \<noteq> []) (link_resolutions (te_hbr e))))))"

text \<open>The query has no order; the rows come in that of the tables.\<close>

definition main_rows :: "hbr \<Rightarrow> int \<Rightarrow> (symbol_row \<times> string \<times> int) list" where
  "main_rows h tid =
     concat (map (\<lambda>(i, r). concat (map (\<lambda>_.
         (case definitions_of h i of [] \<Rightarrow> [(r, [], 0)] | ds \<Rightarrow> map (\<lambda>d. (r, sd_file d, sd_line d)) ds))
         (filter (\<lambda>(t, j). t = tid \<and> j = i) (symbol_reachability h))))
       (filter (\<lambda>(i, r). sy_name r = ''main'') (symbols h)))"

fun main_loop :: "tool_env \<Rightarrow> (symbol_row \<times> string \<times> int) list \<Rightarrow> string list \<Rightarrow> TargetEntryPoint list \<Rightarrow> TargetEntryPoint list" where
  "main_loop e [] seen out = out"
| "main_loop e ((r, file, line) # rows) seen out =
     (let key = sy_usr r @ ''|'' @ file in
      if key \<in> set seen then main_loop e rows seen out
      else main_loop e rows (key # seen) (out @ [\<lparr>te_USR = sy_usr r, te_Name = sy_name r, te_Signature = sy_signature r,
        te_Location = (if file \<noteq> [] then enrich e True (location file line 0) else location [] 0 0), te_Reason = ''main''\<rparr>]))"

text \<open>Definitions in files of the target go first, by a stable sort; an unknown list of files changes nothing.\<close>

definition filesForTargetName :: "tool_env \<Rightarrow> string \<Rightarrow> string list option" where
  "filesForTargetName e name = (case filesForTarget e name of Inl _ \<Rightarrow> None | Inr fs \<Rightarrow> Some fs)"

definition targetEntryPoints :: "tool_env \<Rightarrow> int \<Rightarrow> string \<Rightarrow> TargetEntryPoint list tool_result" where
  "targetEntryPoints e tid name =
     bind_result (run_query (te_ok e) ''entry-points'' (main_rows (te_hbr e) tid)) (\<lambda>rows.
       let out = main_loop e rows [] [] in
       Inr (case filesForTargetName e name of
              None \<Rightarrow> out
            | Some fs \<Rightarrow> sort_key (\<lambda>p. lo_Path (te_Location p) \<notin> set fs) out))"

definition handleDescribeTarget :: "tool_env \<Rightarrow> string option \<Rightarrow> DescribeTargetResponse tool_result" where
  "handleDescribeTarget e name =
     bind_result (require ''name'' name) (\<lambda>n.
       if \<not> te_ok e ''target lookup'' then Inl (E_query ''target lookup'')
       else
         (case find (\<lambda>(i, r). t_name r = n) (targets (te_hbr e)) of
            None \<Rightarrow> Inl (E_unknown_target n)
          | Some (tid, r) \<Rightarrow>
              bind_result (targetSources e tid) (\<lambda>srcs.
              bind_result (targetArchives e tid) (\<lambda>archives.
              bind_result (targetEntryPoints e tid n) (\<lambda>entries.
                Inr \<lparr>dg_Name = n, dg_Kind = t_kind r, dg_LinkCommand = t_link_command r, dg_Sources = srcs, dg_Archives = archives,
                     dg_LinkedSymbols = (if te_ok e ''linked'' then length (filter (\<lambda>lr. lr_target_id lr = tid) (link_resolutions (te_hbr e))) else 0),
                     dg_Reachable = (if te_ok e ''reachable'' then length (filter (\<lambda>(t, i). t = tid) (symbol_reachability (te_hbr e))) else 0),
                     dg_EntryPoints = entries\<rparr>)))))"

section \<open>Counts and sources of a target\<close>

lemma filter_unique: "distinct (map k rows) \<Longrightarrow> x \<in> set rows \<Longrightarrow> filter (\<lambda>y. k y = k x) rows = [x]"
proof (induction rows)
  case (Cons y rows)
  show ?case
  proof (cases "y = x")
    case True
    then have "\<forall>z \<in> set rows. k z \<noteq> k x" using Cons.prems(1) by (force simp: image_iff)
    then show ?thesis using True by (simp add: filter_empty_conv)
  next
    case False
    then have "x \<in> set rows" "k y \<noteq> k x" using Cons.prems by (auto simp: image_iff)
    then show ?thesis using Cons by simp
  qed
qed simp

text \<open>Where every resolution is of a symbol of the index, the symbols linked and those reachable are the same number.\<close>

lemma reachable_count:
  assumes "hbr_ok h" "\<forall>lr \<in> set (link_resolutions h). \<exists>i r. (i, r) \<in> set (symbols h) \<and> sy_usr r = lr_usr lr"
  shows "length (filter (\<lambda>(t, i). t = tid) (symbol_reachability h)) = length (filter (\<lambda>lr. lr_target_id lr = tid) (link_resolutions h))"
proof -
  have d: "distinct (map (sy_usr \<circ> snd) (symbols h))" using assms(1) by (simp add: hbr_ok_def)
  have one: "\<exists>x. filter (\<lambda>(i, r). sy_usr r = lr_usr lr) (symbols h) = [x]" if lr: "lr \<in> set (link_resolutions h)" for lr
  proof -
    obtain i r where r: "(i, r) \<in> set (symbols h)" "sy_usr r = lr_usr lr" using bspec [OF assms(2) lr] by (elim exE conjE)
    have "filter (\<lambda>y. sy_usr (snd y) = lr_usr lr) (symbols h) = [(i, r)]" using filter_unique [OF d r(1)] r(2) by simp
    then show ?thesis unfolding case_prod_beta' by (rule exI)
  qed
  have "length (filter (\<lambda>(t, i). t = tid) (concat (map (\<lambda>lr. map (\<lambda>(i, r). (lr_target_id lr, i)) (filter (\<lambda>(i, r). sy_usr r = lr_usr lr) (symbols h))) lrs))) =
      length (filter (\<lambda>lr. lr_target_id lr = tid) lrs)" if "set lrs \<subseteq> set (link_resolutions h)" for lrs
    using that
  proof (induction lrs)
    case (Cons lr lrs)
    have "lr \<in> set (link_resolutions h)" using Cons.prems by simp
    then obtain x where x: "filter (\<lambda>(i, r). sy_usr r = lr_usr lr) (symbols h) = [x]" using one by blast
    have IH: "length (filter (\<lambda>(t, i). t = tid) (concat (map (\<lambda>lr. map (\<lambda>(i, r). (lr_target_id lr, i)) (filter (\<lambda>(i, r). sy_usr r = lr_usr lr) (symbols h))) lrs))) =
        length (filter (\<lambda>lr. lr_target_id lr = tid) lrs)" by (rule Cons.IH) (use Cons.prems in simp)
    show ?case unfolding list.map concat.simps filter_append length_append IH x by (cases x) simp
  qed simp
  then show ?thesis by (simp add: symbol_reachability_def)
qed

text \<open>The comment on the summary of entry points promises exported symbols; the rows hold \<^verbatim>\<open>main\<close> only.\<close>

lemma only_main: "x \<in> set (main_rows h tid) \<Longrightarrow> sy_name (fst x) = ''main''"
proof -
  assume "x \<in> set (main_rows h tid)"
  then obtain i r where "sy_name r = ''main''"
    and x: "x \<in> set (case definitions_of h i of [] \<Rightarrow> [(r, [], 0)] | ds \<Rightarrow> map (\<lambda>d. (r, sd_file d, sd_line d)) ds)"
    by (auto simp: main_rows_def split: if_splits)
  moreover have "fst x = r" using x by (cases "definitions_of h i") auto
  ultimately show ?thesis by simp
qed

end
