(* ===== verification/Mcp_Sql.thy ===== *)
theory Mcp_Sql
  imports Mcp_Common
begin

text \<open>
  The escape hatch \<^verbatim>\<open>sql_query\<close> (\<^verbatim>\<open>src/internal/mcp/sql_tool.go\<close>). What the engine answers to the statement is an argument:
  whether it runs it, the columns, the rows one by one, and whether the iteration ended with an error.
\<close>

definition defaultSQLLimit :: int where "defaultSQLLimit = 500"
definition maxSQLLimit :: int where "maxSQLLimit = 10000"

datatype sql_value = SQL_null | SQL_int int | SQL_real string | SQL_text string | SQL_bytes string

text \<open>The test of a byte string; the string goes with it unchanged.\<close>

definition continuation :: "char \<Rightarrow> bool" where
  "continuation c \<longleftrightarrow> (of_char c :: nat) div 64 = 2"

definition seq_size :: "nat \<Rightarrow> nat" where
  "seq_size c = (if c \<ge> 0xF0 then 4 else if c \<ge> 0xE0 then 3 else 2)"

function looksLikeUTF8 :: "string \<Rightarrow> bool" where
  "looksLikeUTF8 [] = True"
| "looksLikeUTF8 (c # cs) =
     (let b = (of_char c :: nat); n = seq_size b in
      if b < 0x80 then looksLikeUTF8 cs
      else if b < 0xC2 \<or> b > 0xF4 then False
      else if n > length (c # cs) then False
      else list_all continuation (take (n - 1) cs) \<and> looksLikeUTF8 (drop (n - 1) cs))"
  by pat_completeness auto
termination by (relation "measure length") auto

definition normalizeSQLValue :: "sql_value \<Rightarrow> sql_value" where
  "normalizeSQLValue v =
     (case v of
        SQL_bytes t \<Rightarrow> if looksLikeUTF8 t then SQL_text t else SQL_text (''<blob:'' @ dec (length t) @ '' bytes>'')
      | _ \<Rightarrow> v)"

record SQLResponse =
  sq_Columns :: "string list"
  sq_Rows :: "sql_value list list"
  sq_Rowcount :: nat
  sq_Truncated :: bool

record sql_answer =
  qa_runs :: bool
  qa_columns :: "string list option"
  qa_rows :: "sql_value list option list"
  qa_ends_ok :: bool

fun row_loop :: "int \<Rightarrow> sql_value list option list \<Rightarrow> sql_value list list \<Rightarrow> (sql_value list list \<times> bool) tool_result" where
  "row_loop limit [] out = Inr (out, False)"
| "row_loop limit (r # rs) out =
     (if int (length out) \<ge> limit then Inr (out, True)
      else case r of
             None \<Rightarrow> Inl (E_query ''sql: scan row'')
           | Some vs \<Rightarrow> row_loop limit rs (out @ [map normalizeSQLValue vs]))"

definition sql_limit :: "int option \<Rightarrow> int" where
  "sql_limit v = (let limit = (case v of Some n \<Rightarrow> n | None \<Rightarrow> defaultSQLLimit) in
     if limit \<le> 0 \<or> limit > maxSQLLimit then defaultSQLLimit else limit)"

text \<open>The parameters are absent, a list, or something else, which is refused.\<close>

datatype sql_params = No_params | Params "sql_value list" | Bad_params

definition handleSQLQuery :: "(string \<Rightarrow> sql_value list \<Rightarrow> sql_answer) \<Rightarrow> string option \<Rightarrow> int option \<Rightarrow> sql_params \<Rightarrow> SQLResponse tool_result" where
  "handleSQLQuery engine sql limit params =
     bind_result (require ''sql'' sql) (\<lambda>q.
     bind_result (case params of No_params \<Rightarrow> Inr [] | Params ps \<Rightarrow> Inr ps | Bad_params \<Rightarrow> Inl (E_message ''params must be an array'')) (\<lambda>ps.
       let a = engine q ps in
       if \<not> qa_runs a then Inl (E_query ''sql'')
       else
         (case qa_columns a of
            None \<Rightarrow> Inl (E_query ''sql: read columns'')
          | Some cols \<Rightarrow>
              bind_result (row_loop (sql_limit limit) (qa_rows a) []) (\<lambda>(rows, truncated).
                if \<not> qa_ends_ok a then Inl (E_query ''sql: iterate'')
                else Inr \<lparr>sq_Columns = cols, sq_Rows = rows, sq_Rowcount = length rows, sq_Truncated = truncated\<rparr>))))"

section \<open>Encoded text is accepted\<close>

definition byte :: "nat \<Rightarrow> char" where
  "byte n = char_of n"

definition utf8 :: "nat \<Rightarrow> string" where
  "utf8 p =
     (if p < 0x80 then [byte p]
      else if p < 0x800 then [byte (0xC0 + p div 64), byte (0x80 + p mod 64)]
      else if p < 0x10000 then [byte (0xE0 + p div 4096), byte (0x80 + p div 64 mod 64), byte (0x80 + p mod 64)]
      else [byte (0xF0 + p div 262144), byte (0x80 + p div 4096 mod 64), byte (0x80 + p div 64 mod 64), byte (0x80 + p mod 64)])"

lemma of_byte: "n < 256 \<Longrightarrow> (of_char (byte n) :: nat) = n"
  by (simp add: byte_def of_char_of)

lemma continuation_byte: "n < 64 \<Longrightarrow> continuation (byte (0x80 + n))"
  by (simp add: continuation_def of_byte)

lemma looksLikeUTF8_utf8:
  assumes "p < 0x110000"
  shows "looksLikeUTF8 (utf8 p @ s) \<longleftrightarrow> looksLikeUTF8 s"
proof -
  have c: "continuation (byte (128 + p mod 64))" "continuation (byte (128 + p div 64 mod 64))" "continuation (byte (128 + p div 4096 mod 64))"
    using continuation_byte by simp_all
  consider "p < 0x80" | "0x80 \<le> p" "p < 0x800" | "0x800 \<le> p" "p < 0x10000" | "0x10000 \<le> p" by linarith
  then show ?thesis
  proof cases
    case 1
    then show ?thesis by (simp add: utf8_def of_byte Let_def)
  next
    case 2
    then have d: "2 \<le> p div 64" "p div 64 < 32" by (simp_all add: less_mult_imp_div_less div_le_mono [of 128 p 64, simplified])
    then show ?thesis using 2 c by (simp add: utf8_def of_byte Let_def seq_size_def)
  next
    case 3
    then have d: "p div 4096 < 16" by (simp add: less_mult_imp_div_less)
    then show ?thesis using 3 c by (simp add: utf8_def of_byte Let_def seq_size_def)
  next
    case 4
    then have d: "p div 262144 < 5" using assms by (simp add: less_mult_imp_div_less)
    then show ?thesis using 4 c by (simp add: utf8_def of_byte Let_def seq_size_def)
  qed
qed

text \<open>Text in UTF-8 is rendered as it is; the converse fails, for the encodings that are longer than needed.\<close>

lemma text_kept: "\<forall>p \<in> set ps. p < 0x110000 \<Longrightarrow> normalizeSQLValue (SQL_bytes (concat (map utf8 ps))) = SQL_text (concat (map utf8 ps))"
proof -
  assume "\<forall>p \<in> set ps. p < 0x110000"
  then have "looksLikeUTF8 (concat (map utf8 ps))" by (induction ps) (simp_all add: looksLikeUTF8_utf8)
  then show ?thesis by (simp add: normalizeSQLValue_def)
qed

lemma overlong_accepted: "looksLikeUTF8 [CHR 0xE0, CHR 0x80, CHR 0x80]"
  by code_simp

lemma surrogate_accepted: "looksLikeUTF8 [CHR 0xED, CHR 0xA0, CHR 0x80]"
  by code_simp

lemma control_accepted: "looksLikeUTF8 [CHR 0x00]"
  by code_simp

section \<open>The cap on rows\<close>

lemma row_loop_all:
  "int (length out) \<le> limit \<Longrightarrow> row_loop limit (map Some rows) out =
     Inr (take (nat limit) (out @ map (map normalizeSQLValue) rows), limit < int (length out + length rows))"
proof (induction rows arbitrary: out)
  case (Cons r rows)
  show ?case
  proof (cases "int (length out) \<ge> limit")
    case False
    then show ?thesis using Cons.IH [of "out @ [map normalizeSQLValue r]"] by simp
  qed (use Cons.prems in auto)
qed (simp add: nat_le_iff)

text \<open>An engine that answers: the rows up to the limit, normalised, and the flag exactly if there are more.\<close>

lemma sql_query_rows:
  assumes "qa_runs (engine q [])" "qa_columns (engine q []) = Some cols" "qa_rows (engine q []) = map Some rows" "qa_ends_ok (engine q [])"
  shows "handleSQLQuery engine (Some q) limit No_params = Inr \<lparr>sq_Columns = cols,
    sq_Rows = take (nat (sql_limit limit)) (map (map normalizeSQLValue) rows),
    sq_Rowcount = min (nat (sql_limit limit)) (length rows), sq_Truncated = (sql_limit limit < int (length rows))\<rparr>"
proof -
  have "0 \<le> sql_limit limit" by (simp add: sql_limit_def Let_def defaultSQLLimit_def)
  then show ?thesis using assms row_loop_all [of "[]" "sql_limit limit" rows]
    by (simp add: handleSQLQuery_def require_def Let_def min.commute)
qed

text \<open>A limit above the maximum is not cut to it but replaced by the default.\<close>

lemma limit_above_maximum: "sql_limit (Some 20000) = 500"
  by (simp add: sql_limit_def defaultSQLLimit_def maxSQLLimit_def)

end
