(* ===== verification/Spec2Isabelle.thy ===== *)
theory Spec2Isabelle
  imports Usr Ninja_Deps Ingest_Paths External_Glob Gcc_CI Gcc_Cgraph Gcc_Icf Gcc_Inline Gcc_OptRecord
    Link_Nm Link_Exec Link_Objdump Link_Map Meson_Introspect Build_Dir Preflight Blob_Store Ingest_Targets Ingest_Compiler Ingest_Link Ingest_Sources
    Dwarf_Reader Ingest_Dwarf Cmd_Collect Mcp_Callgraph Mcp_Reload Cmd_Main Mcp_Linkage Mcp_Inlining Mcp_Types
    Mcp_Sources Mcp_Indirect Mcp_Targets Mcp_Sql
begin

text \<open>
  Herbarium builds an index of a C project and answers questions about it. The command \<^verbatim>\<open>collect\<close> reads what a finished
  Meson build left behind (introspection files, GCC dumps, object files with debug information, linked binaries, map
  files, the dependency log of ninja) and writes one SQLite file, the index. The command \<^verbatim>\<open>serve\<close> opens that
  file read-only and offers it through the tools of an MCP server, which can reload the file while calls are running.
  This development models the Go program under \<^verbatim>\<open>src/\<close> and proves what the passes write, what the tools answer, and that
  collecting, serving and reloading do not disturb one another.

  \<^bold>\<open>Shared theories.\<close>
  \<^item> \<^verbatim>\<open>Herb_Prelude\<close>: results of fallible functions, Go maps as association lists with one entry for each key and
    their contract (the locale \<^verbatim>\<open>keyed_map\<close>), sorted keys, the collections of rewrite rules.
  \<^item> \<^verbatim>\<open>Go_Text\<close>, \<^verbatim>\<open>Go_Regex\<close>, \<^verbatim>\<open>Go_Glob\<close>, \<^verbatim>\<open>Go_Path\<close>, \<^verbatim>\<open>Go_Json\<close>, \<^verbatim>\<open>Go_Flag\<close>: what the sources use of
    Go's \<^verbatim>\<open>strings\<close>, \<^verbatim>\<open>strconv\<close>, \<^verbatim>\<open>bufio\<close>, \<^verbatim>\<open>regexp\<close>, \<^verbatim>\<open>path/filepath\<close>, \<^verbatim>\<open>encoding/json\<close> and \<^verbatim>\<open>flag\<close>. A string is
    its bytes. The matcher of regular expressions is the leftmost-first semantics on a syntax tree.

  \<^bold>\<open>Readers.\<close> Each takes the content of a file, or the output of a process, and gives the Go value or the error.
  \<^item> \<^verbatim>\<open>Usr\<close> (\<^verbatim>\<open>internal/usr\<close>): the identity strings; different entities have different ones.
  \<^item> \<^verbatim>\<open>Ninja_Deps\<close> (\<^verbatim>\<open>internal/ninjadeps\<close>): the binary log, decoded on 32-bit words. Reading inverts an independent encoder, and a
    log cut off anywhere behind its header gives exactly the complete records.
  \<^item> \<^verbatim>\<open>Gcc_CI\<close>, \<^verbatim>\<open>Gcc_Cgraph\<close>, \<^verbatim>\<open>Gcc_Icf\<close>, \<^verbatim>\<open>Gcc_Inline\<close>, \<^verbatim>\<open>Gcc_OptRecord\<close> (\<^verbatim>\<open>internal/gccdump\<close>): the five kinds of dumps. The call-graph
    file is read back from its own printer, and the symbol table is a declarative summary of all its blocks.
  \<^item> \<^verbatim>\<open>Link_Nm\<close>, \<^verbatim>\<open>Link_Exec\<close>, \<^verbatim>\<open>Link_Objdump\<close>, \<^verbatim>\<open>Link_Map\<close> (\<^verbatim>\<open>internal/linkplane\<close>): symbol lists, the running of tools, disassembly,
    map files.
  \<^item> \<^verbatim>\<open>Meson_Introspect\<close>, \<^verbatim>\<open>Build_Dir\<close>, \<^verbatim>\<open>Preflight\<close> (the packages of these names): targets and their sources, the crawl of the build
    directory, the checks before a run.
  \<^item> \<^verbatim>\<open>Dwarf_Data\<close>, \<^verbatim>\<open>Dwarf_Signature\<close>, \<^verbatim>\<open>Dwarf_Calltarget\<close>, \<^verbatim>\<open>Dwarf_Reader\<close> (\<^verbatim>\<open>internal/dwarfingest\<close>): the debug information of an object as
    a stream of entries. The pass with its stack is the recursion over the tree of entries, inlined calls
    are attributed to the frames around them, the memoised rendering of types ends on any graph of references and agrees with
    the rendering without a cache, and the target of an indirect call is backed by the code or the location it was read from.

  \<^bold>\<open>The index and its passes.\<close>
  \<^item> \<^verbatim>\<open>Hbr_Db\<close> (\<^verbatim>\<open>internal/store/schema.sql\<close>): tables as lists of rows with their ids, statements that refuse to violate a
    constraint, and the contract of a table with generated ids (the locale \<^verbatim>\<open>rowid_table\<close>, interpreted for the four tables that
    have them). A transaction is a value that a failing statement throws away.
  \<^item> \<^verbatim>\<open>Store_Index\<close> (\<^verbatim>\<open>internal/store/store.go\<close>): names of files lead to numbered files, so that a handle keeps its file when the name moves.
  \<^item> \<^verbatim>\<open>Blob_Store\<close> (\<^verbatim>\<open>internal/blobstore\<close>): content-addressed sources; every row has its blob, whichever statement fails. The
    three tables of paths share the locale \<^verbatim>\<open>source_table\<close>.
  \<^item> \<^verbatim>\<open>Ingest_Paths\<close>, \<^verbatim>\<open>External_Glob\<close>, \<^verbatim>\<open>Ingest_Targets\<close> (\<^verbatim>\<open>internal/ingest\<close>): paths, patterns, targets.
  \<^item> \<^verbatim>\<open>Ingest_Symbols\<close>, \<^verbatim>\<open>Ingest_Compiler\<close> (\<^verbatim>\<open>ingest.go\<close>): the table of symbols of all translation units, pruning, and the rows written.
    The table is described by the observations that went into it, where no clone is a clone of a clone; what
    does not depend on the order of the units is named; a run succeeds exactly under a condition on its input.
  \<^item> \<^verbatim>\<open>Ingest_Link\<close> (\<^verbatim>\<open>link.go\<close>): resolutions and linked edges; the rows are characterised, for any order of the rows of the symbols query.
  \<^item> \<^verbatim>\<open>Ingest_Sources\<close> (\<^verbatim>\<open>sources.go\<close>): what is packed, and what is checked before.
  \<^item> \<^verbatim>\<open>Ingest_Dwarf\<close> (\<^verbatim>\<open>dwarf.go\<close>): types, signatures, inline instances, call sites; the locale \<^verbatim>\<open>kept_by\<close> carries a fact about the tables through
    all statements of a pass that touch other tables.
  \<^item> \<^verbatim>\<open>Cmd_Collect\<close>, \<^verbatim>\<open>Cmd_Main\<close> (\<^verbatim>\<open>cmd/herbarium\<close>): the run as a whole, on the disk before and after; a reload finds what a run has
    written.

  \<^bold>\<open>The server\<close> (\<^verbatim>\<open>internal/mcp\<close>).
  \<^item> \<^verbatim>\<open>Mcp_Reload\<close> (\<^verbatim>\<open>reload_tool.go\<close>, \<^verbatim>\<open>mcp.go\<close>, \<^verbatim>\<open>serve.go\<close>): the threads as an inductive step relation over locks, handles and the disk, with
    invariants of the reachable states, progress and a measure. A handle is a pool of connections, each opened on the file
    that the path names at that moment.
  \<^item> \<^verbatim>\<open>Mcp_Common\<close>, \<^verbatim>\<open>Mcp_Symbols\<close>, \<^verbatim>\<open>Mcp_Linkage\<close>, \<^verbatim>\<open>Mcp_Callgraph\<close>, \<^verbatim>\<open>Mcp_Inlining\<close>, \<^verbatim>\<open>Mcp_Types\<close>, \<^verbatim>\<open>Mcp_Sources\<close>, \<^verbatim>\<open>Mcp_Indirect\<close>, \<^verbatim>\<open>Mcp_Targets\<close>,
    \<^verbatim>\<open>Mcp_Sql\<close>: one theory for each file of tools. A handler takes the tables and the arguments of the call and gives the
    response or the error. The theorems tie a response to the tables (what is listed, in which order, when the flag
    of a cut list is set) and the tools to each other (callers and callees, unreachable symbols and descriptions, candidates and
    functions whose address is taken).

  \<^bold>\<open>What stands outside.\<close> Code that is not in the repository is an argument of the definitions: SHA-256, zstd, the text
  parser of JSON, gzip, the decoder of DWARF sections, the matching of the full-text index, regular expressions of the user,
  the clock, the outcome of processes, of calls of the system and of each query or statement. A seek to an offset at
  which no entry begins yields whatever the data says (\<^verbatim>\<open>dw_stray\<close>). Where a query has no \<^verbatim>\<open>ORDER BY\<close> and the result depends on the
  order of the rows, that order is an argument (the symbols query of the link pass, the candidates of an indirect call); elsewhere
  rows come in the order of the table, also among equal keys of an \<^verbatim>\<open>ORDER BY\<close>.

  \<^bold>\<open>Loops.\<close> Recursion is structural or has a termination proof. Fuel is used for the rendering of types, whose recursion follows
  references of the data: two steps more than the data has entries and stray offsets are proved to be enough. The search for
  call paths recurses on its depth bound, which the code has.

  \<^bold>\<open>What is not modelled.\<close> The registration of the tools with their descriptions, the encoding of responses as JSON, fixed notes in
  them, the schema description for clients, log lines and the text printed after a run: they carry no decisions. Times and sizes
  are unbounded where the code has 64-bit integers that cannot wrap for files that exist.
\<close>

end
